(* ===== verification/Prelude.thy ===== *)
theory Prelude
  imports Complex_Main "HOL-Library.Char_ord" "HOL-Library.List_Lexorder"
    "HOL-Library.Product_Lexorder" "HOL-Library.Multiset"
begin

text \<open>
  Shared vocabulary of the development: the error values of the Go packages, the reply of a
  Redis command, the state-and-error computations every operation is written in, the
  collections of rewrite rules, Go's \<open>sort.Slice\<close> on a strict total order (a locale, as
  every caller passes its own \<open>less\<close> closure), and list lemmas.
\<close>

named_theorems io_simps "unfolding of the state-and-error computations"
named_theorems key_simps "facts on physical key strings"

subsection \<open>Errors\<close>

text \<open>
  Go's \<open>error\<close> values. The sentinels keep their Go names; \<open>RedisNil\<close> is
  \<open>redis.Nil\<close>, \<open>RedisErr\<close> any other error of the Redis client, \<open>Panic\<close> a run-time
  panic, \<open>CtxErr\<close> a cancelled context, and \<open>OutOfFuel\<close> marks a loop that the model cut off (never a value of the program).
\<close>

datatype err =
    ErrMemberNotFound | ErrScoreNotEncodable | ErrInvalidBoardKey | ErrInvalidConfig
  | ErrApproxDisabled
  | ErrUnknownBoard | ErrPartitionRange | ErrBadCursor | ErrBadRecord
  | ErrAppNotFound | ErrBoardNotFound | ErrInvalidKey | ErrKeyNotFound
  | ErrNotFound | ErrNicknameTaken | ErrInvalidNickname | ErrMemberTaken | ErrInvalidMember
  | ErrRenameContention | ErrDeleteContention
  | ErrTokenRequired | ErrTokenMismatch | ErrInvalidToken
  | ErrEmailTaken | ErrUserNotFound | ErrNoSession | ErrBadToken | ErrInvalidCredentials
  | ErrEmailNotVerified | ErrWeakPassword | ErrInvalidEmail
  | ErrBadSignature | ErrStaleSubmission
  | RandErr string
  | MailErr string
  | CtxErr string
  | RedisNil
  | RedisErr string
  | Panic
  | OutOfFuel

text \<open>The reply of one Redis command as the Go client reports it.\<close>

datatype 'a reply = Reply 'a | NilReply | ErrReply string

text \<open>\<open>cmd.Result()\<close>: the value, \<open>redis.Nil\<close>, or another error.\<close>

fun result_of :: "'a reply \<Rightarrow> err + 'a" where
  "result_of (Reply v) = Inr v"
| "result_of NilReply = Inl RedisNil"
| "result_of (ErrReply m) = Inl (RedisErr m)"

fun reply_err :: "'a reply \<Rightarrow> err option" where
  "reply_err (Reply v) = None"
| "reply_err NilReply = Some RedisNil"
| "reply_err (ErrReply m) = Some (RedisErr m)"

text \<open>
  \<open>pipe.Exec\<close> returns the error of the first command that has one, \<open>redis.Nil\<close> included.
\<close>

fun first_err :: "err option list \<Rightarrow> err option" where
  "first_err [] = None"
| "first_err (Some e # es) = Some e"
| "first_err (None # es) = first_err es"

text \<open>The test \<open>err != nil && err != redis.Nil\<close> that follows \<open>pipe.Exec\<close>.\<close>

definition exec_failed :: "err option list \<Rightarrow> err option" where
  "exec_failed es = (case first_err es of Some e \<Rightarrow> if e = RedisNil then None else Some e | None \<Rightarrow> None)"

lemma first_err_None_iff: "first_err es = None \<longleftrightarrow> set es \<subseteq> {None}"
  by (induction es rule: first_err.induct) auto

lemma first_err_append: "first_err (xs @ ys) = (case first_err xs of None \<Rightarrow> first_err ys | Some e \<Rightarrow> Some e)"
  by (induction xs rule: first_err.induct) auto

lemma first_err_in: "first_err es = Some e \<Longrightarrow> Some e \<in> set es"
  by (induction es rule: first_err.induct) auto

lemma exec_failed_no_error:
  assumes "set es \<subseteq> {None, Some RedisNil}"
  shows "exec_failed es = None"
proof (cases "first_err es")
  case (Some e)
  with first_err_in assms have "Some e \<in> {None, Some RedisNil}" by blast
  with Some show ?thesis by (simp add: exec_failed_def)
qed (simp add: exec_failed_def)

subsection \<open>Computations with state and errors\<close>

text \<open>
  An operation on a server takes the server's state and returns a result or an error and the
  new state: effects made before an error stay.
\<close>

type_synonym ('s, 'a) io = "'s \<Rightarrow> (err + 'a) \<times> 's"

definition io_ret :: "'a \<Rightarrow> ('s, 'a) io" where
  "io_ret a = (\<lambda>s. (Inr a, s))"

definition io_fail :: "err \<Rightarrow> ('s, 'a) io" where
  "io_fail e = (\<lambda>s. (Inl e, s))"

definition io_bind :: "('s, 'a) io \<Rightarrow> ('a \<Rightarrow> ('s, 'b) io) \<Rightarrow> ('s, 'b) io" where
  "io_bind m f = (\<lambda>s. case m s of (Inl e, s') \<Rightarrow> (Inl e, s') | (Inr a, s') \<Rightarrow> f a s')"

text \<open>A command whose reply is read with \<open>Result()\<close> and whose error is returned at once.\<close>

definition io_cmd :: "('s \<Rightarrow> 'a reply \<times> 's) \<Rightarrow> ('s, 'a) io" where
  "io_cmd c = (\<lambda>s. case c s of (r, s') \<Rightarrow> (result_of r, s'))"

definition io_lift :: "err + 'a \<Rightarrow> ('s, 'a) io" where
  "io_lift r = (\<lambda>s. (r, s))"

definition io_catch_nil :: "('s, 'a) io \<Rightarrow> ('s, 'a) io \<Rightarrow> ('s, 'a) io" where
  "io_catch_nil m h = (\<lambda>s. case m s of (Inl e, s') \<Rightarrow> if e = RedisNil then h s' else (Inl e, s')
                               | (Inr a, s') \<Rightarrow> (Inr a, s'))"

lemmas [io_simps] = io_ret_def io_fail_def io_bind_def io_cmd_def io_lift_def io_catch_nil_def

text \<open>A \<open>for\<close> loop over a slice that returns at the first error.\<close>

fun io_each :: "('a \<Rightarrow> ('s, unit) io) \<Rightarrow> 'a list \<Rightarrow> ('s, unit) io" where
  "io_each f [] = io_ret ()"
| "io_each f (x # xs) = io_bind (f x) (\<lambda>_. io_each f xs)"

text \<open>A loop that collects one result per element and returns at the first error.\<close>

fun io_map :: "('a \<Rightarrow> ('s, 'b) io) \<Rightarrow> 'a list \<Rightarrow> ('s, 'b list) io" where
  "io_map f [] = io_ret []"
| "io_map f (x # xs) = io_bind (f x) (\<lambda>y. io_bind (io_map f xs) (\<lambda>ys. io_ret (y # ys)))"

text \<open>
  A pipeline: the commands run in the order they were queued, whatever each of them replies.
\<close>

fun pipe_run :: "('a \<Rightarrow> 's \<Rightarrow> 'b \<times> 's) \<Rightarrow> 'a list \<Rightarrow> 's \<Rightarrow> 'b list \<times> 's" where
  "pipe_run c [] s = ([], s)"
| "pipe_run c (x # xs) s =
     (case c x s of (r, s1) \<Rightarrow> case pipe_run c xs s1 of (rs, s2) \<Rightarrow> (r # rs, s2))"

lemma pipe_run_append:
  "pipe_run c (xs @ ys) s = (case pipe_run c xs s of (rs, s1) \<Rightarrow> case pipe_run c ys s1 of (rs', s2) \<Rightarrow> (rs @ rs', s2))"
  by (induction xs arbitrary: s) (auto split: prod.splits)

lemma pipe_run_map: "pipe_run c (map f xs) s = pipe_run (\<lambda>x. c (f x)) xs s"
  by (induction xs arbitrary: s) (auto split: prod.splits)

lemma pipe_run_readonly:
  assumes "\<And>x. x \<in> set xs \<Longrightarrow> c x s = (f x, s)"
  shows "pipe_run c xs s = (map f xs, s)"
  using assms by (induction xs) auto

lemma length_pipe_run: "length (fst (pipe_run c xs s)) = length xs"
  by (induction xs arbitrary: s) (auto split: prod.splits dest: arg_cong [of _ _ fst], metis fst_conv)

lemma io_map_readonly:
  assumes "\<And>x. x \<in> set xs \<Longrightarrow> f x s = (Inr (g x), s)"
  shows "io_map f xs s = (Inr (map g xs), s)"
  using assms by (induction xs) (auto simp: io_simps)

lemma io_each_append: "io_each f (xs @ ys) = io_bind (io_each f xs) (\<lambda>_. io_each f ys)"
  by (induction xs) (auto simp: io_simps fun_eq_iff split: prod.splits sum.splits)

lemma map_filter_append: "List.map_filter f (xs @ ys) = List.map_filter f xs @ List.map_filter f ys"
  by (induction xs) (auto simp: List.map_filter_simps split: option.splits)

lemma set_map_filter: "set (List.map_filter f xs) = {y. \<exists>x \<in> set xs. f x = Some y}"
  by (induction xs) (auto simp: List.map_filter_simps split: option.splits)

subsection \<open>Sorting with a \<open>less\<close> closure\<close>

text \<open>
  \<open>sort.SliceStable(xs, less)\<close> as a stable insertion sort: an element goes before the first
  element that is not less than it.
\<close>

fun insort_by :: "('a \<Rightarrow> 'a \<Rightarrow> bool) \<Rightarrow> 'a \<Rightarrow> 'a list \<Rightarrow> 'a list" where
  "insort_by lt x [] = [x]"
| "insort_by lt x (y # ys) = (if lt y x then y # insort_by lt x ys else x # y # ys)"

definition go_sort :: "('a \<Rightarrow> 'a \<Rightarrow> bool) \<Rightarrow> 'a list \<Rightarrow> 'a list" where
  "go_sort lt xs = foldr (insort_by lt) xs []"

lemma set_insort_by [simp]: "set (insort_by lt x xs) = insert x (set xs)"
  by (induction xs) auto

lemma mset_insort_by [simp]: "mset (insort_by lt x xs) = add_mset x (mset xs)"
  by (induction xs) auto

lemma length_insort_by [simp]: "length (insort_by lt x xs) = Suc (length xs)"
  by (induction xs) auto

lemma go_sort_simps [simp]:
  "go_sort lt [] = []" "go_sort lt (x # xs) = insort_by lt x (go_sort lt xs)"
  by (simp_all add: go_sort_def)

lemma mset_go_sort [simp]: "mset (go_sort lt xs) = mset xs"
  by (induction xs) auto

lemma set_go_sort [simp]: "set (go_sort lt xs) = set xs"
  by (metis mset_go_sort set_mset_mset)

lemma length_go_sort [simp]: "length (go_sort lt xs) = length xs"
  by (metis mset_go_sort size_mset)

lemma distinct_go_sort [simp]: "distinct (go_sort lt xs) = distinct xs"
  by (metis mset_go_sort mset_eq_imp_distinct_iff)

text \<open>
  The contract of a comparison closure: a strict total order on the elements it is given. The
  sorted list is then determined by the elements, so the unstable \<open>sort.Slice\<close> and the stable
  \<open>sort.SliceStable\<close> agree.
\<close>

locale go_less =
  fixes lt :: "'a \<Rightarrow> 'a \<Rightarrow> bool"
  assumes irrefl: "\<not> lt x x"
    and trans: "lt x y \<Longrightarrow> lt y z \<Longrightarrow> lt x z"
    and total: "lt x y \<or> x = y \<or> lt y x"
begin

lemma asym: "lt x y \<Longrightarrow> \<not> lt y x"
  using irrefl trans by blast

definition leq :: "'a \<Rightarrow> 'a \<Rightarrow> bool" where
  "leq x y \<longleftrightarrow> \<not> lt y x"

lemma leq_iff: "leq x y \<longleftrightarrow> lt x y \<or> x = y"
  using total irrefl asym by (auto simp: leq_def)

lemma leq_trans: "leq x y \<Longrightarrow> leq y z \<Longrightarrow> leq x z"
  using trans by (auto simp: leq_iff)

lemma leq_antisym: "leq x y \<Longrightarrow> leq y x \<Longrightarrow> x = y"
  using asym by (auto simp: leq_iff)

lemma leq_refl [simp]: "leq x x"
  by (simp add: leq_iff)

lemma sorted_insort_by: "sorted_wrt leq xs \<Longrightarrow> sorted_wrt leq (insort_by lt x xs)"
proof (induction xs)
  case (Cons y ys)
  show ?case
  proof (cases "lt y x")
    case True
    with Cons show ?thesis by (auto simp: leq_iff)
  next
    case False
    then have "leq x y" by (simp add: leq_def)
    with Cons.prems False show ?thesis by (auto intro: leq_trans)
  qed
qed simp

lemma sorted_go_sort: "sorted_wrt leq (go_sort lt xs)"
  by (induction xs) (auto intro: sorted_insort_by)

lemma sorted_leq_unique:
  "sorted_wrt leq xs \<Longrightarrow> sorted_wrt leq ys \<Longrightarrow> mset xs = mset ys \<Longrightarrow> xs = ys"
proof (induction xs arbitrary: ys)
  case (Cons x xs)
  then obtain y ys' where ys: "ys = y # ys'" by (cases ys) auto
  from Cons.prems(3) ys have mem: "y \<in> set (x # xs)" "x \<in> set (y # ys')"
    by (metis list.set_intros(1) set_mset_mset)+
  with Cons.prems(1,2) ys have "leq x y" "leq y x" by auto
  then have "x = y" by (rule leq_antisym)
  with Cons ys show ?case by simp
qed simp

lemma go_sort_unique: "sorted_wrt leq ys \<Longrightarrow> mset xs = mset ys \<Longrightarrow> go_sort lt xs = ys"
  by (rule sorted_leq_unique) (auto intro: sorted_go_sort)

lemma go_sort_cong: "mset xs = mset ys \<Longrightarrow> go_sort lt xs = go_sort lt ys"
  by (rule go_sort_unique) (auto intro: sorted_go_sort)

lemma strict_imp_leq: "sorted_wrt lt xs \<Longrightarrow> sorted_wrt leq xs"
  by (erule sorted_wrt_mono_rel [rotated]) (auto simp: leq_iff)

lemma strict_distinct: "sorted_wrt lt xs \<Longrightarrow> distinct xs"
  by (induction xs) (auto simp: irrefl)

lemma sorted_distinct_strict: "sorted_wrt leq xs \<Longrightarrow> distinct xs \<Longrightarrow> sorted_wrt lt xs"
  by (induction xs) (auto simp: leq_iff)

lemma go_sort_strict: "sorted_wrt lt xs \<Longrightarrow> go_sort lt xs = xs"
  by (rule go_sort_unique) (auto intro: strict_imp_leq)

text \<open>Inserting an element that is not among the first \<open>n\<close> leaves the first \<open>n\<close> alone.\<close>

lemma take_insort_by:
  assumes "sorted_wrt leq xs" "n \<le> length (filter (\<lambda>y. leq y z) xs)"
  shows "take n (insort_by lt z xs) = take n xs"
  using assms
proof (induction xs arbitrary: n)
  case (Cons y ys)
  show ?case
  proof (cases n)
    case (Suc m)
    show ?thesis
    proof (cases "lt y z")
      case True
      with Cons.prems Suc have "m \<le> length (filter (\<lambda>y. leq y z) ys)"
        by (simp add: leq_iff)
      with Cons True Suc show ?thesis by simp
    next
      case False
      from Cons.prems(2) Suc have "filter (\<lambda>y. leq y z) (y # ys) \<noteq> []" by fastforce
      then obtain w where "w \<in> set (y # ys)" "leq w z" unfolding filter_empty_conv by blast
      with Cons.prems(1) have "leq y z" by (auto intro: leq_trans)
      with False have yz: "y = z" by (simp add: leq_iff)
      with Cons.prems Suc have "m \<le> length (filter (\<lambda>y. leq y z) ys)" by simp
      with Cons have ih: "take m (insort_by lt z ys) = take m ys" by simp
      have "insort_by lt z ys = z # ys"
      proof (cases ys)
        case (Cons u us)
        with \<open>sorted_wrt leq (y # ys)\<close> yz have "leq z u" by simp
        with Cons show ?thesis by (simp add: leq_def)
      qed simp
      with ih have "take m (z # ys) = take m ys" by simp
      with Suc yz irrefl show ?thesis by simp
    qed
  qed simp
qed simp

lemma take_go_sort_drop_large:
  assumes "\<And>z. z \<in> set zs \<Longrightarrow> n \<le> length (filter (\<lambda>y. leq y z) xs)"
  shows "take n (go_sort lt (zs @ xs)) = take n (go_sort lt xs)"
  using assms
proof (induction zs)
  case (Cons z zs)
  have "n \<le> length (filter (\<lambda>y. leq y z) xs)" by (rule Cons.prems) simp
  also have "\<dots> \<le> size (filter_mset (\<lambda>y. leq y z) (mset (zs @ xs)))"
    by (simp flip: mset_filter)
  also have "\<dots> = length (filter (\<lambda>y. leq y z) (go_sort lt (zs @ xs)))"
    by (metis mset_filter mset_go_sort size_mset)
  finally have "take n (insort_by lt z (go_sort lt (zs @ xs))) = take n (go_sort lt (zs @ xs))"
    by (intro take_insort_by sorted_go_sort)
  with Cons show ?case by simp
qed simp

text \<open>
  The merge of the first \<open>n\<close> elements of each sorted list has the same first \<open>n\<close> elements as
  the merge of the whole lists.
\<close>

lemma take_go_sort_merge_one:
  assumes "sorted_wrt leq ys"
  shows "take n (go_sort lt (take n ys @ xs)) = take n (go_sort lt (ys @ xs))"
proof (cases "length ys \<le> n")
  case False
  have "take n (go_sort lt (drop n ys @ take n ys @ xs)) = take n (go_sort lt (take n ys @ xs))"
  proof (rule take_go_sort_drop_large)
    fix z assume "z \<in> set (drop n ys)"
    with assms have "\<forall>y \<in> set (take n ys). leq y z"
      by (metis append_take_drop_id sorted_wrt_append)
    then have "filter (\<lambda>y. leq y z) (take n ys) = take n ys" by simp
    with False show "n \<le> length (filter (\<lambda>y. leq y z) (take n ys @ xs))" by simp
  qed
  moreover have "mset (drop n ys @ take n ys @ xs) = mset (ys @ xs)"
    by (metis append_assoc append_take_drop_id mset_append union_commute)
  ultimately show ?thesis by (metis go_sort_cong)
qed simp

lemma take_go_sort_merge:
  assumes "\<And>ys. ys \<in> set yss \<Longrightarrow> sorted_wrt leq ys"
  shows "take n (go_sort lt (concat (map (take n) yss) @ xs)) = take n (go_sort lt (concat yss @ xs))"
  using assms
proof (induction yss arbitrary: xs)
  case (Cons ys yss)
  have "take n (go_sort lt (take n ys @ concat (map (take n) yss) @ xs)) =
        take n (go_sort lt (concat (map (take n) yss) @ take n ys @ xs))"
    by (intro arg_cong [where f = "take n"] go_sort_cong) (simp add: union_ac)
  also have "\<dots> = take n (go_sort lt (concat yss @ take n ys @ xs))"
    using Cons by simp
  also have "\<dots> = take n (go_sort lt (take n ys @ concat yss @ xs))"
    by (intro arg_cong [where f = "take n"] go_sort_cong) (simp add: union_ac)
  also have "\<dots> = take n (go_sort lt (ys @ concat yss @ xs))"
    using Cons.prems by (intro take_go_sort_merge_one) simp
  finally show ?case by simp
qed simp

end

end
