(* ===== verification/Go_Runtime.thy ===== *)
theory Go_Runtime
  imports Prelude "HOL-Library.Word" "HOL-Library.Log_Nat"
begin

text \<open>
  What the program uses of Go's language and standard library: 64-bit \<open>int\<close> arithmetic,
  \<open>float64\<close> (finite values as rationals, every rounding of an arithmetic operation written
  out), \<open>strconv\<close>, \<open>strings\<close>, and FNV-1a of \<open>hash/fnv\<close>. A Go \<open>string\<close> is a list of
  bytes (\<open>char\<close>), compared bytewise by the lexicographic order on lists.
\<close>

unbundle bit_operations_syntax

subsection \<open>Integers\<close>

text \<open>\<open>int\<close> and \<open>int64\<close> are two's complement, 64 bits wide: every sum is reduced by \<open>wrap64\<close>.\<close>

definition wrap64 :: "int \<Rightarrow> int" where
  "wrap64 x = (x + 2 ^ 63) mod 2 ^ 64 - 2 ^ 63"

abbreviation int64 :: "int \<Rightarrow> bool" where
  "int64 x \<equiv> - (2 ^ 63) \<le> x \<and> x < 2 ^ 63"

lemma wrap64_id [simp]: "int64 x \<Longrightarrow> wrap64 x = x"
  by (simp add: wrap64_def)

lemma wrap64_nonneg: "0 \<le> x \<Longrightarrow> x < 2 ^ 63 \<Longrightarrow> wrap64 x = x"
  by (rule wrap64_id) simp

lemma int64_small: "0 \<le> x \<Longrightarrow> x \<le> n \<Longrightarrow> n < 2 ^ 53 \<Longrightarrow> int64 x"
  by simp

lemma wrap64_range: "int64 (wrap64 x)"
  by (simp add: wrap64_def)

subsection \<open>Floating point\<close>

text \<open>
  A finite \<open>float64\<close> is a rational. \<open>fl64\<close> rounds an exact value to the nearest
  representable one, ties to even: 53 bits of significand, smallest exponent -1074.
\<close>

definition pow2 :: "int \<Rightarrow> rat" where
  "pow2 e = (if 0 \<le> e then 2 ^ nat e else 1 / 2 ^ nat (- e))"

lemma pow2_pos [simp]: "0 < pow2 e"
  by (simp add: pow2_def)

lemma pow2_nonneg [simp]: "0 \<le> pow2 e"
  by (simp add: pow2_def)

lemma pow2_nonzero [simp]: "pow2 e \<noteq> 0"
  by (simp add: pow2_def)

lemma pow2_powi: "pow2 e = 2 powi e"
  by (simp add: pow2_def power_int_def inverse_eq_divide power_divide)

lemma pow2_add: "pow2 (a + b) = pow2 a * pow2 b"
  by (simp add: pow2_powi power_int_add)

lemma pow2_mono: "a \<le> b \<Longrightarrow> pow2 a \<le> pow2 b"
  by (simp add: pow2_powi power_int_increasing)

lemma pow2_less_iff: "pow2 a < pow2 b \<longleftrightarrow> a < b"
  by (metis less_irrefl linorder_not_less order_less_le pow2_mono power_int_strict_increasing
      pow2_powi one_less_numeral_iff semiring_norm(76))

text \<open>The number of binary digits of a positive integer.\<close>

function int_bits :: "int \<Rightarrow> int" where
  "int_bits n = (if n \<le> 0 then 0 else 1 + int_bits (n div 2))"
  by auto
termination
  by (relation "measure nat") auto

declare int_bits.simps [simp del]

lemma int_bits_floorlog: "int_bits n = int (floorlog 2 (nat n))"
proof (induction n rule: int_bits.induct)
  case (1 n)
  show ?case
  proof (cases "n \<le> 0")
    case False
    then have "nat (n div 2) = nat n div 2" by (simp add: nat_div_distrib)
    with 1 False compute_floorlog [of 2 "nat n"] show ?thesis
      by (simp add: int_bits.simps [of n])
  qed (simp add: int_bits.simps floorlog_def)
qed

definition ilog2 :: "rat \<Rightarrow> int" where
  "ilog2 x = (case quotient_of x of (n, d) \<Rightarrow>
     let e = int_bits n - int_bits d
     in if pow2 e \<le> x then e else e - 1)"

lemma floorlog2_pow2:
  assumes "0 < (n::int)"
  shows "pow2 (int (floorlog 2 (nat n)) - 1) \<le> of_int n" "of_int n < pow2 (int (floorlog 2 (nat n)))"
proof -
  have f: "0 < floorlog 2 (nat n)" using assms by (simp add: floorlog_def)
  have b: "2 ^ (floorlog 2 (nat n) - 1) \<le> nat n" "nat n < 2 ^ floorlog 2 (nat n)"
    using floorlog_bounds [of "nat n" 2] assms by auto
  have "(2::rat) ^ (floorlog 2 (nat n) - 1) \<le> of_nat (nat n)"
    using b(1) by (metis of_nat_le_iff of_nat_numeral of_nat_power)
  then show "pow2 (int (floorlog 2 (nat n)) - 1) \<le> of_int n"
    using assms f by (simp add: pow2_def of_nat_nat nat_diff_distrib)
  have "(of_nat (nat n) :: rat) < 2 ^ floorlog 2 (nat n)"
    using b(2) by (metis of_nat_less_iff of_nat_numeral of_nat_power)
  then show "of_int n < pow2 (int (floorlog 2 (nat n)))"
    using assms by (simp add: pow2_def of_nat_nat)
qed

lemma ilog2_bounds:
  assumes "0 < x"
  shows "pow2 (ilog2 x) \<le> x" "x < pow2 (ilog2 x + 1)"
proof -
  obtain n d where q: "quotient_of x = (n, d)" by (cases "quotient_of x")
  have d: "0 < d" using q by (rule quotient_of_denom_pos)
  have x: "x = of_int n / of_int d" using q by (rule quotient_of_div)
  have n: "0 < n" using assms d x by (simp add: zero_less_divide_iff)
  define a where "a = int (floorlog 2 (nat n))"
  define b where "b = int (floorlog 2 (nat d))"
  have na: "pow2 (a - 1) \<le> of_int n" "of_int n < pow2 a"
    using floorlog2_pow2 [OF n] by (simp_all add: a_def)
  have db: "pow2 (b - 1) \<le> of_int d" "of_int d < pow2 b"
    using floorlog2_pow2 [OF d] by (simp_all add: b_def)
  have lo: "pow2 (a - b - 1) \<le> x"
  proof -
    have "pow2 (a - b - 1) * of_int d \<le> pow2 (a - b - 1) * pow2 b"
      using db(2) by (intro mult_left_mono) auto
    also have "\<dots> = pow2 (a - 1)" by (simp flip: pow2_add)
    also have "\<dots> \<le> of_int n" by (rule na)
    finally show ?thesis using d by (simp add: x field_simps)
  qed
  have hi: "x < pow2 (a - b + 1)"
  proof -
    have "of_int n < pow2 a" by (rule na)
    also have "pow2 a = pow2 (a - b + 1) * pow2 (b - 1)" by (simp flip: pow2_add)
    also have "\<dots> \<le> pow2 (a - b + 1) * of_int d"
      using db(1) by (intro mult_left_mono) auto
    finally show ?thesis using d by (simp add: x field_simps)
  qed
  have il: "ilog2 x = (if pow2 (a - b) \<le> x then a - b else a - b - 1)"
    by (simp add: ilog2_def q a_def b_def Let_def int_bits_floorlog)
  show "pow2 (ilog2 x) \<le> x" using lo by (simp add: il)
  show "x < pow2 (ilog2 x + 1)" using hi by (simp add: il)
qed

lemma ilog2_mono: "0 < x \<Longrightarrow> x \<le> y \<Longrightarrow> ilog2 x \<le> ilog2 y"
proof -
  assume "0 < x" "x \<le> y"
  then have "pow2 (ilog2 x) < pow2 (ilog2 y + 1)"
    using ilog2_bounds [of x] ilog2_bounds [of y] by linarith
  then show ?thesis by (simp add: pow2_less_iff)
qed

definition round_even :: "rat \<Rightarrow> int" where
  "round_even x = (let f = \<lfloor>x\<rfloor>; r = x - of_int f in
     if r < 1 / 2 then f else if 1 / 2 < r then f + 1 else if even f then f else f + 1)"

lemma round_even_of_int [simp]: "round_even (of_int n) = n"
  by (simp add: round_even_def)

lemma round_even_floor: "\<lfloor>x\<rfloor> \<le> round_even x" "round_even x \<le> \<lfloor>x\<rfloor> + 1"
  by (simp_all add: round_even_def Let_def)

lemma round_even_mono: "x \<le> y \<Longrightarrow> round_even x \<le> round_even y"
proof (cases "\<lfloor>x\<rfloor> = \<lfloor>y\<rfloor>")
  case True
  moreover assume "x \<le> y"
  ultimately show ?thesis by (auto simp: round_even_def Let_def)
next
  case False
  moreover assume "x \<le> y"
  ultimately have "\<lfloor>x\<rfloor> + 1 \<le> \<lfloor>y\<rfloor>" using floor_mono by fastforce
  then show ?thesis using round_even_floor [of x] round_even_floor [of y] by linarith
qed

definition fexp :: "rat \<Rightarrow> int" where
  "fexp x = max (ilog2 \<bar>x\<bar> - 52) (- 1074)"

definition fl64 :: "rat \<Rightarrow> rat" where
  "fl64 x = (if x = 0 then 0
     else if x < 0 then - (of_int (round_even (- x / pow2 (fexp x))) * pow2 (fexp x))
     else of_int (round_even (x / pow2 (fexp x))) * pow2 (fexp x))"

lemma fl64_0 [simp]: "fl64 0 = 0"
  by (simp add: fl64_def)

lemma fl64_minus: "fl64 (- x) = - fl64 x"
  by (simp add: fl64_def fexp_def)

lemma fl64_nonneg: "0 \<le> x \<Longrightarrow> 0 \<le> fl64 x"
proof -
  assume "0 \<le> x"
  then have "round_even 0 \<le> round_even (x / pow2 (fexp x))"
    by (intro round_even_mono) (simp add: zero_le_divide_iff)
  then have "0 \<le> round_even (x / pow2 (fexp x))"
    using round_even_of_int [of 0] by simp
  with \<open>0 \<le> x\<close> show ?thesis by (simp add: fl64_def)
qed

lemma fexp_mono: "0 < x \<Longrightarrow> x \<le> y \<Longrightarrow> fexp x \<le> fexp y"
  using ilog2_mono [of x y] by (simp add: fexp_def)

lemma pow2_nat [simp]: "pow2 (int n) = 2 ^ n"
  by (simp add: pow2_def)

lemma fl64_upper: "0 < x \<Longrightarrow> fl64 x \<le> pow2 (fexp x + 53)"
proof -
  assume x: "0 < x"
  have "ilog2 x \<le> fexp x + 52" using x by (simp add: fexp_def)
  then have "pow2 (ilog2 x + 1) \<le> pow2 (fexp x + 53)" by (intro pow2_mono) simp
  with ilog2_bounds(2) [OF x] have "x < pow2 53 * pow2 (fexp x)"
    by (simp add: pow2_add mult.commute)
  then have "x / pow2 (fexp x) \<le> pow2 53" by (simp add: field_simps)
  then have "round_even (x / pow2 (fexp x)) \<le> round_even (of_int (2 ^ 53))"
    by (intro round_even_mono) (simp add: pow2_def)
  then have "(of_int (round_even (x / pow2 (fexp x))) :: rat) \<le> of_int (2 ^ 53)"
    by (simp only: round_even_of_int of_int_le_iff)
  then have "of_int (round_even (x / pow2 (fexp x))) * pow2 (fexp x) \<le> of_int (2 ^ 53) * pow2 (fexp x)"
    by (intro mult_right_mono) auto
  also have "\<dots> = pow2 (fexp x + 53)" by (simp add: pow2_add, simp add: pow2_def)
  finally show ?thesis using x by (simp add: fl64_def)
qed

lemma fl64_lower: "0 < x \<Longrightarrow> - 1074 < fexp x \<Longrightarrow> pow2 (fexp x + 52) \<le> fl64 x"
proof -
  assume x: "0 < x" and "- 1074 < fexp x"
  then have "fexp x + 52 = ilog2 x" by (simp add: fexp_def)
  with ilog2_bounds(1) [OF x] have "pow2 52 * pow2 (fexp x) \<le> x"
    by (simp add: mult.commute flip: pow2_add)
  then have "pow2 52 \<le> x / pow2 (fexp x)" by (simp add: field_simps)
  then have "round_even (of_int (2 ^ 52)) \<le> round_even (x / pow2 (fexp x))"
    by (intro round_even_mono) (simp add: pow2_def)
  then have "(of_int (2 ^ 52) :: rat) \<le> of_int (round_even (x / pow2 (fexp x)))"
    by (simp only: round_even_of_int of_int_le_iff)
  then have le: "of_int (2 ^ 52) * pow2 (fexp x) \<le> of_int (round_even (x / pow2 (fexp x))) * pow2 (fexp x)"
    by (intro mult_right_mono) auto
  have "pow2 (fexp x + 52) = of_int (2 ^ 52) * pow2 (fexp x)"
    by (simp add: pow2_add, simp add: pow2_def)
  also note le
  also have "of_int (round_even (x / pow2 (fexp x))) * pow2 (fexp x) = fl64 x"
    using x by (simp add: fl64_def)
  finally show ?thesis .
qed

lemma fl64_mono_pos: "0 < x \<Longrightarrow> x \<le> y \<Longrightarrow> fl64 x \<le> fl64 y"
proof (cases "fexp x = fexp y")
  case True
  assume "0 < x" "x \<le> y"
  then have "x / pow2 (fexp y) \<le> y / pow2 (fexp y)" by (simp add: divide_right_mono)
  then have "(of_int (round_even (x / pow2 (fexp y))) :: rat) \<le> of_int (round_even (y / pow2 (fexp y)))"
    by (simp add: round_even_mono)
  with True \<open>0 < x\<close> \<open>x \<le> y\<close> show ?thesis by (simp add: fl64_def mult_right_mono)
next
  case False
  assume x: "0 < x" and "x \<le> y"
  with False have lt: "fexp x < fexp y" using fexp_mono [of x y] by simp
  have "fl64 x \<le> pow2 (fexp x + 53)" by (rule fl64_upper [OF x])
  also have "\<dots> \<le> pow2 (fexp y + 52)" using lt by (intro pow2_mono) simp
  also have "\<dots> \<le> fl64 y" using lt x \<open>x \<le> y\<close> by (intro fl64_lower) (auto simp: fexp_def)
  finally show ?thesis .
qed

lemma fl64_mono: "x \<le> y \<Longrightarrow> fl64 x \<le> fl64 y"
proof -
  assume xy: "x \<le> y"
  consider "0 < x" | "x \<le> 0" "0 \<le> y" | "y < 0" by linarith
  then show ?thesis
  proof cases
    case 1 from 1 xy show ?thesis by (rule fl64_mono_pos)
  next
    case 2
    then have "fl64 x \<le> 0" using fl64_nonneg [of "- x"] by (simp add: fl64_minus)
    with 2 fl64_nonneg [of y] show ?thesis by linarith
  next
    case 3
    with xy have "fl64 (- y) \<le> fl64 (- x)" by (intro fl64_mono_pos) auto
    then show ?thesis by (simp add: fl64_minus)
  qed
qed

lemma ilog2_pow2: "ilog2 (pow2 k) = k"
proof -
  have "pow2 (ilog2 (pow2 k)) \<le> pow2 k" "pow2 k < pow2 (ilog2 (pow2 k) + 1)"
    using ilog2_bounds [of "pow2 k"] by simp_all
  then have "\<not> k < ilog2 (pow2 k)" "k < ilog2 (pow2 k) + 1"
    by (simp_all add: pow2_less_iff flip: linorder_not_less)
  then show ?thesis by linarith
qed

text \<open>Powers of two in the normal range are represented exactly.\<close>

lemma fl64_pow2: "- 1022 \<le> k \<Longrightarrow> fl64 (pow2 k) = pow2 k"
proof -
  assume "- 1022 \<le> k"
  then have e: "fexp (pow2 k) = k - 52" by (simp add: fexp_def ilog2_pow2)
  have "pow2 k = pow2 52 * pow2 (k - 52)" by (simp flip: pow2_add)
  then have "pow2 k / pow2 (k - 52) = of_int (2 ^ 52)" by (simp add: pow2_def [of 52])
  then have r: "round_even (pow2 k / pow2 (k - 52)) = 2 ^ 52" by (simp only: round_even_of_int)
  have "\<not> pow2 k < 0" by (simp add: linorder_not_less)
  then have "fl64 (pow2 k) = of_int (2 ^ 52) * pow2 (k - 52)" by (simp only: fl64_def e r) simp
  also have "\<dots> = pow2 k" using \<open>pow2 k = pow2 52 * pow2 (k - 52)\<close> by (simp add: pow2_def [of 52])
  finally show ?thesis .
qed

text \<open>Integers of at most 53 bits are represented exactly.\<close>

lemma fl64_of_int: "\<bar>n\<bar> < 2 ^ 53 \<Longrightarrow> fl64 (of_int n) = of_int n"
proof -
  have pos: "fl64 (of_int n) = of_int n" if n: "0 < n" "n < 2 ^ 53" for n
  proof -
    have "(of_int n :: rat) < of_int (2 ^ 53)" using n(2) by (simp only: of_int_less_iff)
    then have "(of_int n :: rat) < pow2 53" by (simp add: pow2_def)
    with ilog2_bounds(1) [of "of_int n"] n(1) have "pow2 (ilog2 (of_int n)) < pow2 53"
      by (simp add: le_less_trans)
    then have e: "fexp (of_int n) \<le> 0" using n(1) by (simp add: fexp_def pow2_less_iff)
    define k where "k = nat (- fexp (of_int n))"
    have p: "pow2 (fexp (of_int n)) = 1 / 2 ^ k"
      using e by (cases "fexp (of_int n) = 0") (simp_all add: pow2_def k_def)
    have "of_int n / pow2 (fexp (of_int n)) = of_int (n * 2 ^ k)" by (simp add: p)
    then have "round_even (of_int n / pow2 (fexp (of_int n))) = n * 2 ^ k"
      by (simp only: round_even_of_int)
    with n(1) p show ?thesis by (simp add: fl64_def)
  qed
  assume "\<bar>n\<bar> < 2 ^ 53"
  then consider "n = 0" | "0 < n" "n < 2 ^ 53" | "0 < - n" "- n < 2 ^ 53" by linarith
  then show ?thesis
  proof cases
    case 3
    then have "fl64 (of_int (- n)) = of_int (- n)" by (rule pos)
    then show ?thesis by (simp add: fl64_minus)
  qed (auto intro: pos)
qed

text \<open>
  Results of an operation that can leave the finite range: an infinity (with its sign) or a NaN.
  Signed zeros are not told apart.
\<close>

datatype f64 = Fin rat | Inf bool | NaN

definition f64_of :: "rat \<Rightarrow> f64" where
  "f64_of x = (let r = fl64 x in if 2 ^ 1024 \<le> \<bar>r\<bar> then Inf (r < 0) else Fin r)"

text \<open>For evaluation: the bound as a literal.\<close>

lemma f64_of_code [code]: "f64_of x = (let r = fl64 x in
    if 179769313486231590772930519078902473361797697894230657273430081157732675805500963132708477322407536021120113879871393357658789768814416622492847430639474124377767893424865485276302219601246094119453082952085005768838150682342462881473913110540827237163350510684586298239947245938479716304835356329624224137216
       \<le> \<bar>r\<bar> then Inf (r < 0) else Fin r)"
  by (simp add: f64_of_def)

definition f64_sub :: "rat \<Rightarrow> rat \<Rightarrow> f64" where
  "f64_sub a b = f64_of (a - b)"

fun f64_div :: "f64 \<Rightarrow> f64 \<Rightarrow> f64" where
  "f64_div (Fin a) (Fin b) =
     (if b = 0 then if a = 0 then NaN else Inf (a < 0) else f64_of (a / b))"
| "f64_div (Fin a) (Inf s) = Fin 0"
| "f64_div (Inf s) (Fin b) = Inf (s \<noteq> (b < 0))"
| "f64_div x y = NaN"

fun f64_mul :: "f64 \<Rightarrow> f64 \<Rightarrow> f64" where
  "f64_mul (Fin a) (Fin b) = f64_of (a * b)"
| "f64_mul (Inf s) (Fin b) = (if b = 0 then NaN else Inf (s \<noteq> (b < 0)))"
| "f64_mul (Fin a) (Inf s) = (if a = 0 then NaN else Inf (s \<noteq> (a < 0)))"
| "f64_mul (Inf s) (Inf t) = Inf (s \<noteq> t)"
| "f64_mul x y = NaN"

definition trunc :: "rat \<Rightarrow> int" where
  "trunc x = (if 0 \<le> x then \<lfloor>x\<rfloor> else - \<lfloor>- x\<rfloor>)"

lemma trunc_of_int [simp]: "trunc (of_int n) = n"
proof -
  have "\<lfloor>- (of_int n :: rat)\<rfloor> = - n" by (metis floor_of_int of_int_minus)
  then show ?thesis by (simp add: trunc_def)
qed

lemma trunc_nonneg: "0 \<le> x \<Longrightarrow> 0 \<le> trunc x"
  by (simp add: trunc_def)

text \<open>
  The conversion \<open>int64(f)\<close> truncates; for a value that \<open>int64\<close> cannot hold Go leaves the
  result to the implementation, so it is a parameter \<open>oor\<close> of the platform.
\<close>

fun f64_to_int64 :: "(f64 \<Rightarrow> int) \<Rightarrow> f64 \<Rightarrow> int" where
  "f64_to_int64 oor (Fin r) = (if int64 (trunc r) then trunc r else oor (Fin r))"
| "f64_to_int64 oor x = oor x"

subsection \<open>strconv\<close>

definition digit :: "nat \<Rightarrow> char" where
  "digit n = char_of (48 + n)"

definition is_digit :: "char \<Rightarrow> bool" where
  "is_digit c \<longleftrightarrow> 48 \<le> (of_char c :: nat) \<and> (of_char c :: nat) \<le> 57"

definition digit_val :: "char \<Rightarrow> nat" where
  "digit_val c = of_char c - 48"

fun nat_str :: "nat \<Rightarrow> string" where
  "nat_str n = (if n < 10 then [digit n] else nat_str (n div 10) @ [digit (n mod 10)])"

declare nat_str.simps [simp del]

text \<open>\<open>strconv.Itoa\<close> and \<open>strconv.FormatInt(_, 10)\<close>.\<close>

definition itoa :: "int \<Rightarrow> string" where
  "itoa n = (if n < 0 then CHR ''-'' # nat_str (nat (- n)) else nat_str (nat n))"

definition digits_val :: "string \<Rightarrow> nat" where
  "digits_val ds = foldl (\<lambda>a c. 10 * a + digit_val c) 0 ds"

definition parse_digits :: "string \<Rightarrow> nat option" where
  "parse_digits ds = (if ds = [] \<or> \<not> list_all is_digit ds then None else Some (digits_val ds))"

text \<open>
  \<open>strconv.Atoi\<close> and \<open>strconv.ParseInt(_, 10, 64)\<close>: an optional sign, digits, and a value
  in the range of \<open>int64\<close>; \<open>None\<close> is the error.
\<close>

definition atoi :: "string \<Rightarrow> int option" where
  "atoi s = (let neg = (case s of c # _ \<Rightarrow> c = CHR ''-'' | [] \<Rightarrow> False);
                 ds = (case s of c # cs \<Rightarrow> if c = CHR ''-'' \<or> c = CHR ''+'' then cs else s | [] \<Rightarrow> s)
             in case parse_digits ds of None \<Rightarrow> None
                | Some v \<Rightarrow> (let n = (if neg then - int v else int v) in if int64 n then Some n else None))"

text \<open>
  The number \<open>strconv.ParseInt\<close> returns beside its error: 0 for bad syntax, the nearest
  \<open>int64\<close> for a value out of range.
\<close>

definition parse_int64 :: "string \<Rightarrow> int" where
  "parse_int64 s = (let neg = (case s of c # _ \<Rightarrow> c = CHR ''-'' | [] \<Rightarrow> False);
                 ds = (case s of c # cs \<Rightarrow> if c = CHR ''-'' \<or> c = CHR ''+'' then cs else s | [] \<Rightarrow> s)
             in case parse_digits ds of None \<Rightarrow> 0
                | Some v \<Rightarrow> max (- (2 ^ 63)) (min (2 ^ 63 - 1) (if neg then - int v else int v)))"

lemma parse_int64_atoi: "atoi s = Some n \<Longrightarrow> parse_int64 s = n"
  by (auto simp: atoi_def parse_int64_def Let_def split: option.splits if_splits)

text \<open>A loop that adds up \<open>int64\<close> values.\<close>

definition sum64 :: "int list \<Rightarrow> int" where
  "sum64 xs = foldl (\<lambda>a x. wrap64 (a + x)) 0 xs"

lemma sum64_bounded:
  assumes "\<And>x. x \<in> set xs \<Longrightarrow> 0 \<le> x" "sum_list xs < 2 ^ 63"
  shows "sum64 xs = sum_list xs"
proof -
  have "foldl (\<lambda>a x. wrap64 (a + x)) a xs = a + sum_list xs"
    if "0 \<le> a" "\<And>x. x \<in> set xs \<Longrightarrow> 0 \<le> x" "a + sum_list xs < 2 ^ 63" for a xs
    using that
  proof (induction xs arbitrary: a)
    case (Cons x xs)
    have "0 \<le> sum_list xs" using Cons.prems by (intro sum_list_nonneg) auto
    with Cons.prems have "wrap64 (a + x) = a + x" by (intro wrap64_nonneg) auto
    with Cons.IH [of "a + x"] Cons.prems show ?case by (simp add: add.assoc)
  qed simp
  from this [of 0 xs] assms show ?thesis by (simp add: sum64_def)
qed

lemma of_char_digit: "n < 10 \<Longrightarrow> (of_char (digit n) :: nat) = 48 + n"
  by (simp add: digit_def)

lemma is_digit_digit [simp]: "n < 10 \<Longrightarrow> is_digit (digit n)"
  by (simp add: is_digit_def of_char_digit)

lemma digit_val_digit [simp]: "n < 10 \<Longrightarrow> digit_val (digit n) = n"
  by (simp add: digit_val_def of_char_digit)

lemma digits_val_snoc: "digits_val (ds @ [c]) = 10 * digits_val ds + digit_val c"
  by (simp add: digits_val_def)

lemma nat_str_nonempty [simp]: "nat_str n \<noteq> []"
  by (subst nat_str.simps) simp

lemma nat_str_digits: "list_all is_digit (nat_str n)"
proof (induction n rule: nat_str.induct)
  case (1 n)
  then show ?case by (subst nat_str.simps) auto
qed

lemma digits_val_nat_str [simp]: "digits_val (nat_str n) = n"
proof (induction n rule: nat_str.induct)
  case (1 n)
  show ?case
  proof (cases "n < 10")
    case True
    then show ?thesis by (subst nat_str.simps) (simp add: digits_val_def)
  next
    case False
    with 1 show ?thesis by (subst nat_str.simps) (simp add: digits_val_snoc)
  qed
qed

lemma parse_digits_nat_str [simp]: "parse_digits (nat_str n) = Some n"
  by (simp add: parse_digits_def nat_str_digits)

lemma is_digit_not_sign: "is_digit c \<Longrightarrow> c \<noteq> CHR ''-'' \<and> c \<noteq> CHR ''+''"
  by (auto simp: is_digit_def)

lemma nat_str_hd: "nat_str n = c # cs \<Longrightarrow> is_digit c"
  using nat_str_digits [of n] by simp

text \<open>Printing an \<open>int64\<close> and parsing it back.\<close>

lemma atoi_itoa: "int64 n \<Longrightarrow> atoi (itoa n) = Some n"
proof (cases "n < 0")
  case True
  moreover assume "int64 n"
  ultimately show ?thesis by (simp add: itoa_def atoi_def Let_def)
next
  case False
  moreover assume "int64 n"
  moreover obtain c cs where c: "nat_str (nat n) = c # cs" by (cases "nat_str (nat n)") auto
  moreover have "parse_digits (c # cs) = Some (nat n)" by (simp flip: c)
  ultimately show ?thesis
    using is_digit_not_sign [OF nat_str_hd [OF c]] by (auto simp: itoa_def atoi_def Let_def)
qed

lemma itoa_inject: "itoa m = itoa n \<Longrightarrow> m = n"
proof (cases "m < 0"; cases "n < 0")
  assume "m < 0" "n < 0" "itoa m = itoa n"
  then have "digits_val (nat_str (nat (- m))) = digits_val (nat_str (nat (- n)))" by (simp add: itoa_def)
  with \<open>m < 0\<close> \<open>n < 0\<close> show ?thesis by simp
next
  assume "\<not> m < 0" "\<not> n < 0" "itoa m = itoa n"
  then have "digits_val (nat_str (nat m)) = digits_val (nat_str (nat n))" by (simp add: itoa_def)
  with \<open>\<not> m < 0\<close> \<open>\<not> n < 0\<close> show ?thesis by simp
next
  assume "m < 0" "\<not> n < 0" "itoa m = itoa n"
  then show ?thesis by (metis is_digit_not_sign itoa_def nat_str_hd)
next
  assume "\<not> m < 0" "n < 0" "itoa m = itoa n"
  then show ?thesis by (metis is_digit_not_sign itoa_def nat_str_hd)
qed

lemma itoa_chars: "c \<in> set (itoa n) \<Longrightarrow> is_digit c \<or> c = CHR ''-''"
  using nat_str_digits by (auto simp: itoa_def list_all_iff split: if_splits)

text \<open>\<open>fmt.Sprintf\<close> with the verb \<open>%0wd\<close>.\<close>

definition pad0 :: "nat \<Rightarrow> string \<Rightarrow> string" where
  "pad0 w s = replicate (w - length s) CHR ''0'' @ s"

definition fmt0d :: "nat \<Rightarrow> int \<Rightarrow> string" where
  "fmt0d w n = (if n < 0 then CHR ''-'' # pad0 (w - 1) (nat_str (nat (- n))) else pad0 w (nat_str (nat n)))"

lemma digits_val_replicate0: "digits_val (replicate k CHR ''0'' @ ds) = digits_val ds"
proof -
  have "foldl (\<lambda>a c. 10 * a + digit_val c) 0 (replicate k CHR ''0'') = 0"
    by (induction k) (simp_all add: digit_val_def)
  then show ?thesis by (simp add: digits_val_def)
qed

lemma pad0_digits: "list_all is_digit (pad0 w (nat_str n))"
  using nat_str_digits [of n] by (auto simp: pad0_def list_all_iff is_digit_def)

lemma parse_digits_pad0 [simp]: "parse_digits (pad0 w (nat_str n)) = Some n"
  using pad0_digits [of w n]
  by (simp add: parse_digits_def) (simp add: pad0_def digits_val_replicate0)

lemma atoi_digits: "list_all is_digit ds \<Longrightarrow> parse_digits ds = Some v \<Longrightarrow> int v < 2 ^ 63 \<Longrightarrow> atoi ds = Some (int v)"
  by (cases ds) (auto simp: atoi_def Let_def dest: is_digit_not_sign)

lemma atoi_fmt0d: "0 \<le> n \<Longrightarrow> n < 2 ^ 63 \<Longrightarrow> atoi (fmt0d w n) = Some n"
  using atoi_digits [OF pad0_digits parse_digits_pad0, of "nat n" w] by (simp add: fmt0d_def)

subsection \<open>strings\<close>

text \<open>\<open>strings.Split(s, sep)\<close> for a separator of one byte.\<close>

fun split_on :: "char \<Rightarrow> string \<Rightarrow> string list" where
  "split_on c [] = [[]]"
| "split_on c (x # xs) = (if x = c then [] # split_on c xs
     else (case split_on c xs of [] \<Rightarrow> [[x]] | w # ws \<Rightarrow> (x # w) # ws))"

lemma split_on_nonempty [simp]: "split_on c s \<noteq> []"
  by (induction s) (auto split: list.splits)

lemma split_on_free [simp]: "c \<notin> set s \<Longrightarrow> split_on c s = [s]"
  by (induction s) auto

lemma split_on_append: "c \<notin> set s \<Longrightarrow> split_on c (s @ c # t) = s # split_on c t"
  by (induction s) auto

text \<open>\<open>strings.IndexByte\<close>: the first position of a byte, or -1.\<close>

fun index_byte :: "string \<Rightarrow> char \<Rightarrow> int" where
  "index_byte [] c = -1"
| "index_byte (x # xs) c = (if x = c then 0 else let i = index_byte xs c in if i < 0 then -1 else i + 1)"

lemma index_byte_append: "c \<notin> set s \<Longrightarrow> index_byte (s @ c # t) c = int (length s)"
  by (induction s) (auto simp: Let_def)

lemma index_byte_ge: "-1 \<le> index_byte s c"
  by (induction s) (auto simp: Let_def)

text \<open>\<open>s[lo:hi]\<close> with both bounds in range.\<close>

definition slice :: "'a list \<Rightarrow> int \<Rightarrow> int \<Rightarrow> 'a list" where
  "slice s lo hi = take (nat (hi - lo)) (drop (nat lo) s)"

definition has_prefix :: "string \<Rightarrow> string \<Rightarrow> bool" where
  "has_prefix s p \<longleftrightarrow> take (length p) s = p"

definition trim_suffix :: "string \<Rightarrow> string \<Rightarrow> string" where
  "trim_suffix s suf = (if length suf \<le> length s \<and> drop (length s - length suf) s = suf
     then take (length s - length suf) s else s)"

lemma trim_suffix_append [simp]: "trim_suffix (s @ suf) suf = s"
  by (simp add: trim_suffix_def)

definition contains_any :: "string \<Rightarrow> string \<Rightarrow> bool" where
  "contains_any s chars \<longleftrightarrow> list_ex (\<lambda>c. c \<in> set chars) s"

subsection \<open>hash/fnv\<close>

text \<open>\<open>fnv.New32a\<close>, \<open>Write\<close> of the bytes, \<open>Sum32\<close>.\<close>

definition fnv32a :: "string \<Rightarrow> 32 word" where
  "fnv32a bs = foldl (\<lambda>h b. (h XOR of_char b) * 16777619) 2166136261 bs"

subsection \<open>Allocation\<close>

text \<open>
  \<open>make([]T, 0, cap)\<close> panics when the capacity is negative or the block would exceed the
  address space (\<open>2 ^ 48\<close> bytes on 64-bit platforms).
\<close>

definition make_ok :: "int \<Rightarrow> int \<Rightarrow> bool" where
  "make_ok elem_size cap \<longleftrightarrow> 0 \<le> cap \<and> elem_size * cap \<le> 2 ^ 48"

end
