(* ===== verification/Go_Time.thy ===== *)
theory Go_Time
  imports Go_Runtime
begin

text \<open>
  The part of Go's package \<open>time\<close> the program uses, in UTC. An instant is the number of
  nanoseconds since 0001-01-01T00:00:00Z, so that the zero \<open>time.Time\<close> is \<open>0\<close>; a day is a
  number of days since that date (a Monday). The calendar is the proleptic Gregorian one.
  Years whose nanosecond count leaves Go's own range are not modelled: the numbers are unbounded.
\<close>

type_synonym gotime = int
type_synonym duration = int

definition second :: duration where "second = 1000000000"
definition day_ns :: duration where "day_ns = 86400 * second"

definition day_of :: "gotime \<Rightarrow> int" where
  "day_of t = t div day_ns"

definition is_zero :: "gotime \<Rightarrow> bool" where
  "is_zero t \<longleftrightarrow> t = 0"

lemma day_of_bounds: "day_of t * day_ns \<le> t" "t < (day_of t + 1) * day_ns"
  using pos_mod_bound [of day_ns t] pos_mod_sign [of day_ns t] div_mult_mod_eq [of t day_ns]
  by (simp_all add: day_of_def day_ns_def second_def algebra_simps)

lemma day_of_unique: "d * day_ns \<le> t \<Longrightarrow> t < (d + 1) * day_ns \<Longrightarrow> day_of t = d"
  unfolding day_of_def by (rule int_div_pos_eq [where r = "t - d * day_ns"]) (auto simp: algebra_simps)

subsection \<open>Years, months, days\<close>

definition days_before_year :: "int \<Rightarrow> int" where
  "days_before_year y = 365 * (y - 1) + (y - 1) div 4 - (y - 1) div 100 + (y - 1) div 400"

definition is_leap :: "int \<Rightarrow> bool" where
  "is_leap y \<longleftrightarrow> y mod 4 = 0 \<and> (y mod 100 \<noteq> 0 \<or> y mod 400 = 0)"

definition year_of :: "int \<Rightarrow> int" where
  "year_of d =
     (let n400 = d div 146097; r400 = d mod 146097;
          n100 = min 3 (r400 div 36524); r100 = r400 - 36524 * n100;
          n4 = r100 div 1461; r4 = r100 mod 1461;
          n1 = min 3 (r4 div 365)
      in 400 * n400 + 100 * n100 + 4 * n4 + n1 + 1)"

lemma div_bounds: "(0::int) < k \<Longrightarrow> k * (x div k) \<le> x \<and> x < k * (x div k) + k"
  by (metis add_strict_left_mono div_mod_decomp_int div_mult_mod_eq le_add_same_cancel1 mult.commute
      pos_mod_bound pos_mod_sign)

lemma div_pred:
  fixes y k :: int
  assumes "0 < k"
  shows "y div k = (y - 1) div k + (if k dvd y then 1 else 0)"
proof (cases "k dvd y")
  case True
  then obtain q where y: "y = k * q" by (auto simp: dvd_def)
  have "(y - 1) div k = q - 1"
    by (rule int_div_pos_eq [where r = "k - 1"]) (use assms y in \<open>auto simp: algebra_simps\<close>)
  with True y assms show ?thesis by simp
next
  case False
  then have "y mod k \<noteq> 0" by (simp add: mod_eq_0_iff_dvd)
  with assms have pos: "0 < y mod k" using pos_mod_sign [of k y] by linarith
  have lt: "y mod k < k" using assms by (rule pos_mod_bound)
  have "y - 1 = k * (y div k) + (y mod k - 1)" by simp
  then have "(y - 1) div k = y div k"
    by (rule int_div_pos_eq) (use pos lt in auto)
  with False show ?thesis by simp
qed

lemma days_before_year_decomp:
  assumes "0 \<le> b" "b \<le> 3" "0 \<le> c" "c \<le> 24" "0 \<le> e" "e \<le> 3"
  shows "days_before_year (400 * a + 100 * b + 4 * c + e + 1) = 146097 * a + 36524 * b + 1461 * c + 365 * e"
proof -
  have "(400 * a + 100 * b + 4 * c + e) div 4 = 100 * a + 25 * b + c"
    "(400 * a + 100 * b + 4 * c + e) div 100 = 4 * a + b"
    "(400 * a + 100 * b + 4 * c + e) div 400 = a"
    using assms
    by (auto intro: int_div_pos_eq [where r = e] int_div_pos_eq [where r = "4 * c + e"]
        int_div_pos_eq [where r = "100 * b + 4 * c + e"])
  then show ?thesis by (simp add: days_before_year_def)
qed

lemma year_of_bounds: "days_before_year (year_of d) \<le> d" "d < days_before_year (year_of d + 1)"
proof -
  define a r where "a = d div 146097" and "r = d mod 146097"
  define b where "b = min 3 (r div 36524)"
  define q where "q = r - 36524 * b"
  define c f where "c = q div 1461" and "f = q mod 1461"
  define e where "e = min 3 (f div 365)"
  have r: "0 \<le> r" "r < 146097" "d = 146097 * a + r" by (simp_all add: a_def r_def)
  then have b: "0 \<le> b" "b \<le> 3" by (simp_all add: b_def pos_imp_zdiv_nonneg_iff)
  have q: "0 \<le> q" "q < (if b = 3 then 36525 else 36524)"
    using r div_bounds [of 36524 r] unfolding q_def b_def min_def by (auto split: if_splits)
  then have c: "0 \<le> c" "c \<le> 24"
    unfolding c_def by (auto simp: pos_imp_zdiv_nonneg_iff split: if_splits)
  have f: "0 \<le> f" "f < 1461" "q = 1461 * c + f" by (simp_all add: c_def f_def)
  then have e: "0 \<le> e" "e \<le> 3" by (simp_all add: e_def pos_imp_zdiv_nonneg_iff)
  have y: "year_of d = 400 * a + 100 * b + 4 * c + e + 1"
    by (simp only: year_of_def Let_def a_def r_def b_def q_def c_def f_def e_def)
  have dby: "days_before_year (year_of d) = 146097 * a + 36524 * b + 1461 * c + 365 * e"
    unfolding y by (rule days_before_year_decomp [OF b c e])
  have d: "d = 146097 * a + 36524 * b + 1461 * c + f" using r f by (simp add: q_def)
  have ef: "365 * e \<le> f" using f div_bounds [of 365 f] unfolding e_def min_def by auto
  then show "days_before_year (year_of d) \<le> d" using dby d by linarith
  have next_year: "days_before_year (year_of d + 1) =
      (if e < 3 then 146097 * a + 36524 * b + 1461 * c + 365 * (e + 1)
       else if c < 24 then 146097 * a + 36524 * b + 1461 * (c + 1)
       else if b < 3 then 146097 * a + 36524 * (b + 1) else 146097 * (a + 1))"
  proof -
    have "e < 3 \<Longrightarrow> days_before_year (year_of d + 1) = 146097 * a + 36524 * b + 1461 * c + 365 * (e + 1)"
      using days_before_year_decomp [of b c "e + 1" a] b c e by (simp add: y)
    moreover have "e = 3 \<Longrightarrow> c < 24 \<Longrightarrow> days_before_year (year_of d + 1) = 146097 * a + 36524 * b + 1461 * (c + 1)"
      using days_before_year_decomp [of b "c + 1" 0 a] b c by (simp add: y algebra_simps)
    moreover have "e = 3 \<Longrightarrow> c = 24 \<Longrightarrow> b < 3 \<Longrightarrow> days_before_year (year_of d + 1) = 146097 * a + 36524 * (b + 1)"
      using days_before_year_decomp [of "b + 1" 0 0 a] b by (simp add: y algebra_simps)
    moreover have "e = 3 \<Longrightarrow> c = 24 \<Longrightarrow> b = 3 \<Longrightarrow> days_before_year (year_of d + 1) = 146097 * (a + 1)"
      using days_before_year_decomp [of 0 0 0 "a + 1"] by (simp add: y algebra_simps)
    moreover have "e < 3 \<or> e = 3" "c < 24 \<or> c = 24" "b < 3 \<or> b = 3" using b c e by linarith+
    ultimately show ?thesis by presburger
  qed
  have "e < 3 \<Longrightarrow> f < 365 * (e + 1)"
    using f div_bounds [of 365 f] unfolding e_def min_def by (auto split: if_splits)
  then have "d < (if e < 3 then 146097 * a + 36524 * b + 1461 * c + 365 * (e + 1)
       else if c < 24 then 146097 * a + 36524 * b + 1461 * (c + 1)
       else if b < 3 then 146097 * a + 36524 * (b + 1) else 146097 * (a + 1))"
    using q(2) f c b d r(3) r(2) by (simp split: if_splits)
  then show "d < days_before_year (year_of d + 1)" unfolding next_year .
qed

lemma days_before_year_step: "days_before_year (y + 1) = days_before_year y + (if is_leap y then 366 else 365)"
proof -
  have "100 dvd y \<Longrightarrow> 4 dvd y" "400 dvd y \<Longrightarrow> 100 dvd y"
    by (auto intro: dvd_trans [of 4 100 y] dvd_trans [of 100 400 y])
  moreover have "days_before_year (y + 1) = days_before_year y + 365 + (if 4 dvd y then 1 else 0)
      - (if 100 dvd y then 1 else 0) + (if 400 dvd y then 1 else 0)"
    unfolding days_before_year_def add_diff_cancel_right'
      div_pred [of 4 y, simplified] div_pred [of 100 y, simplified] div_pred [of 400 y, simplified]
    by (simp only: algebra_simps)
  moreover have "is_leap y \<longleftrightarrow> 4 dvd y \<and> (\<not> 100 dvd y \<or> 400 dvd y)"
    by (simp only: is_leap_def mod_eq_0_iff_dvd)
  moreover define P Q R where "P = (4 dvd y)" "Q = (100 dvd y)" "R = (400 dvd y)"
  ultimately have "days_before_year (y + 1) = days_before_year y + 365 + (if P then 1 else 0)
      - (if Q then 1 else 0) + (if R then 1 else 0)" "is_leap y \<longleftrightarrow> P \<and> (\<not> Q \<or> R)" "Q \<Longrightarrow> P" "R \<Longrightarrow> Q"
    by blast+
  then show ?thesis by (cases P; cases Q; cases R) auto
qed

lemma days_before_year_mono: "y \<le> z \<Longrightarrow> days_before_year y \<le> days_before_year z"
proof (induction "nat (z - y)" arbitrary: z)
  case (Suc n)
  then have "n = nat (z - 1 - y)" "y \<le> z - 1" by auto
  with Suc.hyps(1) have "days_before_year y \<le> days_before_year (z - 1)" by blast
  then show ?case using days_before_year_step [of "z - 1"] by (auto split: if_splits)
qed simp

lemma days_before_year_lt: "y < z \<Longrightarrow> days_before_year (y + 1) \<le> days_before_year z"
  by (rule days_before_year_mono) simp

lemma year_of_unique: "days_before_year y \<le> d \<Longrightarrow> d < days_before_year (y + 1) \<Longrightarrow> year_of d = y"
  using year_of_bounds [of d] days_before_year_lt [of y "year_of d"] days_before_year_lt [of "year_of d" y]
  by linarith

text \<open>Days of the year before month \<open>m\<close> (1 to 12).\<close>

definition month_start :: "bool \<Rightarrow> int \<Rightarrow> int" where
  "month_start leap m = (let k = (if leap then 1 else 0) in
     if m \<le> 1 then 0 else if m = 2 then 31 else if m = 3 then 59 + k else if m = 4 then 90 + k
     else if m = 5 then 120 + k else if m = 6 then 151 + k else if m = 7 then 181 + k
     else if m = 8 then 212 + k else if m = 9 then 243 + k else if m = 10 then 273 + k
     else if m = 11 then 304 + k else if m = 12 then 334 + k else 365 + k)"

definition month_of :: "bool \<Rightarrow> int \<Rightarrow> int" where
  "month_of leap yd = (let k = (if leap then 1 else 0) in
     if yd < 31 then 1 else if yd < 59 + k then 2 else if yd < 90 + k then 3
     else if yd < 120 + k then 4 else if yd < 151 + k then 5 else if yd < 181 + k then 6
     else if yd < 212 + k then 7 else if yd < 243 + k then 8 else if yd < 273 + k then 9
     else if yd < 304 + k then 10 else if yd < 334 + k then 11 else 12)"

lemma month_of_range: "1 \<le> month_of leap yd" "month_of leap yd \<le> 12"
  by (simp_all add: month_of_def Let_def)

lemma month_start_num:
  "month_start leap 1 = 0" "month_start leap 2 = 31"
  "month_start leap 3 = (if leap then 60 else 59)" "month_start leap 4 = (if leap then 91 else 90)"
  "month_start leap 5 = (if leap then 121 else 120)" "month_start leap 6 = (if leap then 152 else 151)"
  "month_start leap 7 = (if leap then 182 else 181)" "month_start leap 8 = (if leap then 213 else 212)"
  "month_start leap 9 = (if leap then 244 else 243)" "month_start leap 10 = (if leap then 274 else 273)"
  "month_start leap 11 = (if leap then 305 else 304)" "month_start leap 12 = (if leap then 335 else 334)"
  "month_start leap 13 = (if leap then 366 else 365)"
  by (simp_all add: month_start_def)

lemma month_of_bounds:
  assumes "0 \<le> yd" "yd < (if leap then 366 else 365)"
  shows "month_start leap (month_of leap yd) \<le> yd" "yd < month_start leap (month_of leap yd + 1)"
  using assms by (auto simp: month_of_def month_start_num Let_def)

text \<open>\<open>t.Date()\<close> and \<open>t.YearDay()\<close> (zero-based) of a day.\<close>

definition year_day :: "int \<Rightarrow> int" where
  "year_day d = d - days_before_year (year_of d)"

definition date_of :: "int \<Rightarrow> int \<times> int \<times> int" where
  "date_of d = (let y = year_of d; yd = year_day d; m = month_of (is_leap y) yd
                in (y, m, yd - month_start (is_leap y) m + 1))"

text \<open>\<open>time.Date(y, m, d, 0, 0, 0, 0, UTC)\<close> as a day number; a month out of range carries.\<close>

definition go_date :: "int \<Rightarrow> int \<Rightarrow> int \<Rightarrow> int" where
  "go_date y m d = (let y' = y + (m - 1) div 12; m' = (m - 1) mod 12 + 1
                    in days_before_year y' + month_start (is_leap y') m' + d - 1)"

lemma year_day_bounds: "0 \<le> year_day d" "year_day d < (if is_leap (year_of d) then 366 else 365)"
  using year_of_bounds [of d] by (simp_all add: year_day_def days_before_year_step)

lemma date_of_ranges:
  assumes "date_of d = (y, m, dd)"
  shows "1 \<le> m" "m \<le> 12" "1 \<le> dd" "dd \<le> month_start (is_leap y) (m + 1) - month_start (is_leap y) m"
    "y = year_of d"
  using assms month_of_bounds [OF year_day_bounds [of d]] month_of_range
  by (auto simp: date_of_def Let_def)

lemma go_date_in_range:
  "1 \<le> m \<Longrightarrow> m \<le> 12 \<Longrightarrow> go_date y m d = days_before_year y + month_start (is_leap y) m + d - 1"
  by (simp add: go_date_def Let_def)

lemma go_date_date_of: "date_of d = (y, m, dd) \<Longrightarrow> go_date y m dd = d"
proof -
  assume d: "date_of d = (y, m, dd)"
  then have y: "y = year_of d" and "dd = year_day d - month_start (is_leap y) m + 1"
    by (auto simp: date_of_def Let_def)
  then have "days_before_year y + month_start (is_leap y) m + dd - 1 = d" by (simp add: year_day_def)
  with date_of_ranges(1,2) [OF d] show ?thesis by (simp add: go_date_in_range)
qed

lemma go_date_month_first: "date_of d = (y, m, dd) \<Longrightarrow> go_date y m 1 \<le> d"
  using date_of_ranges(1-3) [of d y m dd] go_date_date_of [of d y m dd] by (simp add: go_date_in_range)

lemma go_date_next_month: "date_of d = (y, m, dd) \<Longrightarrow> d < go_date y (m + 1) 1"
proof -
  assume d: "date_of d = (y, m, dd)"
  note r = date_of_ranges(1-4) [OF d]
  have dd: "d = days_before_year y + month_start (is_leap y) m + dd - 1"
    using go_date_date_of [OF d] r by (simp add: go_date_in_range)
  show ?thesis
  proof (cases "m = 12")
    case True
    have "go_date y (m + 1) 1 = days_before_year (y + 1)"
      using True by (simp add: go_date_def Let_def month_start_def)
    also have "\<dots> = days_before_year y + month_start (is_leap y) (m + 1)"
      using True by (simp add: days_before_year_step month_start_def)
    finally show ?thesis using dd r(4) by linarith
  next
    case False
    then have "go_date y (m + 1) 1 = days_before_year y + month_start (is_leap y) (m + 1)"
      using r by (simp add: go_date_in_range)
    then show ?thesis using dd r(4) by linarith
  qed
qed

subsection \<open>Weeks\<close>

text \<open>\<open>(int(t.Weekday()) + 6) % 7\<close>: Monday is 0.\<close>

definition weekday_mon0 :: "int \<Rightarrow> int" where
  "weekday_mon0 d = d mod 7"

text \<open>\<open>t.ISOWeek()\<close>: the year of the week's Thursday and the number of Thursdays up to it.\<close>

definition iso_week :: "int \<Rightarrow> int \<times> int" where
  "iso_week d = (let thu = d - weekday_mon0 d + 3 in (year_of thu, year_day thu div 7 + 1))"

lemma iso_week_range: "iso_week d = (y, w) \<Longrightarrow> 1 \<le> w \<and> w \<le> 53"
  using year_day_bounds [of "d - weekday_mon0 d + 3"]
  by (auto simp: iso_week_def Let_def split: if_splits)

subsection \<open>Formatting and parsing\<close>

definition format_ym :: "int \<Rightarrow> string" where
  "format_ym d = (case date_of d of (y, m, dd) \<Rightarrow> fmt0d 4 y @ ''-'' @ fmt0d 2 m)"

definition format_ymd :: "int \<Rightarrow> string" where
  "format_ymd d = (case date_of d of (y, m, dd) \<Rightarrow> fmt0d 4 y @ ''-'' @ fmt0d 2 m @ ''-'' @ fmt0d 2 dd)"

text \<open>
  \<open>time.Parse\<close> with the layouts \<open>2006-01\<close> and \<open>2006-01-02\<close>: four digits of the year, two of
  the month and the day, both in range; the result is the day number.
\<close>

definition parse_ym :: "string \<Rightarrow> int option" where
  "parse_ym s = (if length s = 7 \<and> s ! 4 = CHR ''-'' then
     (case (parse_digits (take 4 s), parse_digits (drop 5 s)) of
        (Some y, Some m) \<Rightarrow> if 1 \<le> m \<and> m \<le> 12 then Some (go_date (int y) (int m) 1) else None
      | _ \<Rightarrow> None) else None)"

definition parse_ymd :: "string \<Rightarrow> int option" where
  "parse_ymd s = (if length s = 10 \<and> s ! 4 = CHR ''-'' \<and> s ! 7 = CHR ''-'' then
     (case (parse_digits (take 4 s), parse_digits (take 2 (drop 5 s)), parse_digits (drop 8 s)) of
        (Some y, Some m, Some d) \<Rightarrow>
          if 1 \<le> m \<and> m \<le> 12 \<and> 1 \<le> d \<and>
             int d \<le> month_start (is_leap (int y)) (int m + 1) - month_start (is_leap (int y)) (int m)
          then Some (go_date (int y) (int m) (int d)) else None
      | _ \<Rightarrow> None) else None)"

lemma length_nat_str_1: "n < 10 \<Longrightarrow> length (nat_str n) = 1"
  by (subst nat_str.simps) simp

lemma length_nat_str_le: "n < 10 ^ Suc k \<Longrightarrow> length (nat_str n) \<le> Suc k"
proof (induction k arbitrary: n)
  case 0
  then show ?case using length_nat_str_1 [of n] by simp
next
  case (Suc k)
  then have "n div 10 < 10 ^ Suc k" by simp
  with Suc.IH have "length (nat_str (n div 10)) \<le> Suc k" by blast
  then show ?case by (subst nat_str.simps) simp
qed

lemma length_fmt0d: "0 \<le> n \<Longrightarrow> n < 10 ^ Suc k \<Longrightarrow> length (fmt0d (Suc k) n) = Suc k"
proof -
  assume "0 \<le> n" "n < 10 ^ Suc k"
  then have "nat n < 10 ^ Suc k" by (simp add: nat_less_iff)
  then have "length (nat_str (nat n)) \<le> Suc k" by (rule length_nat_str_le)
  with \<open>0 \<le> n\<close> show ?thesis by (simp add: fmt0d_def pad0_def)
qed

lemma length_fmt0d_4: "0 \<le> n \<Longrightarrow> n \<le> 9999 \<Longrightarrow> length (fmt0d 4 n) = 4"
  using length_fmt0d [of n 3] by (simp add: eval_nat_numeral)

lemma length_fmt0d_2: "0 \<le> n \<Longrightarrow> n \<le> 99 \<Longrightarrow> length (fmt0d 2 n) = 2"
  using length_fmt0d [of n 1] by (simp add: eval_nat_numeral)

lemma parse_digits_fmt0d [simp]: "0 \<le> n \<Longrightarrow> parse_digits (fmt0d w n) = Some (nat n)"
  by (simp add: fmt0d_def)

lemma parse_ym_format:
  assumes "date_of d = (y, m, dd)" "0 \<le> y" "y \<le> 9999"
  shows "parse_ym (format_ym d) = Some (go_date y m 1)"
proof -
  note r = date_of_ranges [OF assms(1)]
  have l: "length (fmt0d 4 y) = 4" "length (fmt0d 2 m) = 2"
    using assms r by (simp_all add: length_fmt0d_4 length_fmt0d_2)
  then have "take 4 (format_ym d) = fmt0d 4 y" "drop 5 (format_ym d) = fmt0d 2 m"
    "format_ym d ! 4 = CHR ''-''" "length (format_ym d) = 7"
    by (simp_all add: format_ym_def assms(1) nth_append drop_Cons')
  with assms r show ?thesis by (auto simp: parse_ym_def)
qed

lemma parse_ymd_format:
  assumes "date_of d = (y, m, dd)" "0 \<le> y" "y \<le> 9999"
  shows "parse_ymd (format_ymd d) = Some d"
proof -
  note r = date_of_ranges [OF assms(1)]
  have dd: "dd \<le> 31" using r by (auto simp: month_start_def Let_def split: if_splits)
  have l: "length (fmt0d 4 y) = 4" "length (fmt0d 2 m) = 2" "length (fmt0d 2 dd) = 2"
    using assms r dd by (simp_all add: length_fmt0d_4 length_fmt0d_2)
  then have "take 4 (format_ymd d) = fmt0d 4 y" "take 2 (drop 5 (format_ymd d)) = fmt0d 2 m"
    "drop 8 (format_ymd d) = fmt0d 2 dd" "format_ymd d ! 4 = CHR ''-''" "format_ymd d ! 7 = CHR ''-''"
    "length (format_ymd d) = 10"
    by (simp_all add: format_ymd_def assms(1) nth_append drop_Cons')
  with assms r show ?thesis by (auto simp: parse_ymd_def go_date_date_of)
qed

end
