(* ===== verification/Board.thy ===== *)
theory Board
  imports Go_Time
begin

text \<open>
  The data model of the ranking engine (\<open>pkg/engine/board.go\<close>, \<open>engine.go\<close>) and the score
  codec (\<open>pkg/engine/score.go\<close>): board configuration and its validation, physical keys and
  the strings they are stored under, windows, the fan-out of an event, and the packing of
  score and time into one number. Scores are finite \<open>float64\<close> values (\<open>rat\<close>).
\<close>

subsection \<open>Configuration\<close>

definition SortDesc :: string where "SortDesc = ''desc''"
definition SortAsc :: string where "SortAsc = ''asc''"

definition UpdateBest :: string where "UpdateBest = ''best''"
definition UpdateLast :: string where "UpdateLast = ''last''"
definition UpdateIncrement :: string where "UpdateIncrement = ''increment''"

definition TieLexical :: string where "TieLexical = ''lexical''"
definition TieFirstToReach :: string where "TieFirstToReach = ''firstToReach''"

lemmas config_consts = SortDesc_def SortAsc_def UpdateBest_def UpdateLast_def UpdateIncrement_def
  TieLexical_def TieFirstToReach_def

record BoardConfig =
  SortOrder :: string
  UpdatePolicy :: string
  TieBreak :: string
  ScoreBits :: nat
  Epoch :: gotime
  ApproxRank :: bool
  ApproxMin :: rat
  ApproxMax :: rat
  ApproxBuckets :: int

text \<open>The literal \<open>time.Date(2020, 1, 1, 0, 0, 0, 0, time.UTC)\<close>.\<close>

definition epoch2020 :: gotime where
  "epoch2020 = go_date 2020 1 1 * day_ns"

definition withDefaults :: "BoardConfig \<Rightarrow> BoardConfig" where
  "withDefaults c =
     (let c = (if SortOrder c = '''' then c\<lparr>SortOrder := SortDesc\<rparr> else c);
          c = (if UpdatePolicy c = '''' then c\<lparr>UpdatePolicy := UpdateBest\<rparr> else c);
          c = (if TieBreak c = '''' then c\<lparr>TieBreak := TieLexical\<rparr> else c);
          c = (if ScoreBits c = 0 then c\<lparr>ScoreBits := 20\<rparr> else c);
          c = (if is_zero (Epoch c) then c\<lparr>Epoch := epoch2020\<rparr> else c);
          c = (if ApproxRank c \<and> ApproxBuckets c = 0 then c\<lparr>ApproxBuckets := 1024\<rparr> else c)
      in c)"

definition config_validate :: "BoardConfig \<Rightarrow> err + unit" where
  "config_validate c = (let cc = withDefaults c in
     if SortOrder cc \<noteq> SortDesc \<and> SortOrder cc \<noteq> SortAsc then Inl ErrInvalidConfig
     else if UpdatePolicy cc \<noteq> UpdateBest \<and> UpdatePolicy cc \<noteq> UpdateLast \<and> UpdatePolicy cc \<noteq> UpdateIncrement
       then Inl ErrInvalidConfig
     else if TieBreak cc \<noteq> TieLexical \<and> TieBreak cc \<noteq> TieFirstToReach then Inl ErrInvalidConfig
     else if UpdatePolicy cc = UpdateIncrement \<and> TieBreak cc = TieFirstToReach then Inl ErrInvalidConfig
     else if TieBreak cc = TieFirstToReach \<and> (ScoreBits cc < 1 \<or> 52 < ScoreBits cc) then Inl ErrInvalidConfig
     else if ApproxRank cc \<and> \<not> ApproxMin cc < ApproxMax cc then Inl ErrInvalidConfig
     else if ApproxRank cc \<and> ApproxBuckets cc < 1 then Inl ErrInvalidConfig
     else Inr ())"

lemma withDefaults_sel:
  "SortOrder (withDefaults c) = (if SortOrder c = '''' then SortDesc else SortOrder c)"
  "UpdatePolicy (withDefaults c) = (if UpdatePolicy c = '''' then UpdateBest else UpdatePolicy c)"
  "TieBreak (withDefaults c) = (if TieBreak c = '''' then TieLexical else TieBreak c)"
  "ScoreBits (withDefaults c) = (if ScoreBits c = 0 then 20 else ScoreBits c)"
  "Epoch (withDefaults c) = (if is_zero (Epoch c) then epoch2020 else Epoch c)"
  "ApproxRank (withDefaults c) = ApproxRank c"
  "ApproxMin (withDefaults c) = ApproxMin c"
  "ApproxMax (withDefaults c) = ApproxMax c"
  "ApproxBuckets (withDefaults c) = (if ApproxRank c \<and> ApproxBuckets c = 0 then 1024 else ApproxBuckets c)"
  by (simp_all add: withDefaults_def Let_def)

lemma epoch2020_nonzero: "\<not> is_zero epoch2020"
  by (simp add: epoch2020_def go_date_def days_before_year_def is_zero_def day_ns_def second_def
      month_start_def)

lemma withDefaults_idem [simp]: "withDefaults (withDefaults c) = withDefaults c"
  by (rule BoardConfig.equality)
    (simp_all add: withDefaults_sel config_consts epoch2020_nonzero)

lemma config_validD:
  assumes "config_validate c = Inr ()" and "cc = withDefaults c"
  shows "SortOrder cc = SortDesc \<or> SortOrder cc = SortAsc"
    "UpdatePolicy cc = UpdateBest \<or> UpdatePolicy cc = UpdateLast \<or> UpdatePolicy cc = UpdateIncrement"
    "TieBreak cc = TieLexical \<or> TieBreak cc = TieFirstToReach"
    "UpdatePolicy cc = UpdateIncrement \<Longrightarrow> TieBreak cc = TieLexical"
    "TieBreak cc = TieFirstToReach \<Longrightarrow> 1 \<le> ScoreBits cc \<and> ScoreBits cc \<le> 52"
    "ApproxRank cc \<Longrightarrow> ApproxMin cc < ApproxMax cc \<and> 1 \<le> ApproxBuckets cc"
  using assms by (auto simp: config_validate_def Let_def split: if_splits)

subsection \<open>Physical keys\<close>

record BoardKey =
  App :: string
  BoardName :: string
  Segment :: string
  Window :: string

definition sanitizeSegment :: "string \<Rightarrow> string" where
  "sanitizeSegment s = (if s = '''' then ''all'' else s)"

text \<open>The bytes colon, braces, tab, newline, carriage return and space.\<close>

definition structural :: string where
  "structural = [CHR '':'', CHR ''{'', CHR ''}'', CHR 0x09, CHR 0x0A, CHR 0x0D, CHR '' '']"

definition invalidComponent :: "string \<Rightarrow> bool" where
  "invalidComponent s \<longleftrightarrow> contains_any s structural \<or> s = ''''"

definition effWindow :: "BoardKey \<Rightarrow> string" where
  "effWindow k = (if Window k = '''' then ''all'' else Window k)"

definition key_validate :: "BoardKey \<Rightarrow> err + unit" where
  "key_validate k =
     (let seg = sanitizeSegment (Segment k); win = effWindow k in
      if invalidComponent (App k) \<or> invalidComponent (BoardName k) \<or>
         invalidComponent seg \<or> invalidComponent win
      then Inl ErrInvalidBoardKey else Inr ())"

text \<open>\<open>fmt.Sprintf("%s:%s:%s:%s", \<dots>)\<close>\<close>

definition hashTag :: "BoardKey \<Rightarrow> string" where
  "hashTag k = App k @ '':'' @ BoardName k @ '':'' @ sanitizeSegment (Segment k) @ '':'' @ effWindow k"

definition zKey :: "BoardKey \<Rightarrow> string" where
  "zKey k = ''lb:{'' @ hashTag k @ ''}:z''"

definition hKey :: "BoardKey \<Rightarrow> string" where
  "hKey k = ''lb:{'' @ hashTag k @ ''}:h''"

definition metaKey :: "BoardKey \<Rightarrow> string" where
  "metaKey k = ''lb:{'' @ hashTag k @ ''}:meta''"

text \<open>The components a key really addresses: empty segment and window read as \<open>all\<close>.\<close>

definition norm_key :: "BoardKey \<Rightarrow> BoardKey" where
  "norm_key k = k\<lparr>Segment := sanitizeSegment (Segment k), Window := effWindow k\<rparr>"

lemma norm_key_sel [simp]:
  "App (norm_key k) = App k" "BoardName (norm_key k) = BoardName k"
  "Segment (norm_key k) = sanitizeSegment (Segment k)" "Window (norm_key k) = effWindow k"
  by (simp_all add: norm_key_def)

lemma hashTag_norm [simp]: "hashTag (norm_key k) = hashTag k"
  by (simp add: hashTag_def sanitizeSegment_def effWindow_def)

definition clean :: "string \<Rightarrow> bool" where
  "clean s \<longleftrightarrow> CHR '':'' \<notin> set s \<and> CHR ''{'' \<notin> set s \<and> CHR ''}'' \<notin> set s"

lemma valid_component_clean: "\<not> invalidComponent s \<Longrightarrow> clean s"
  by (auto simp: invalidComponent_def contains_any_def structural_def clean_def list_ex_iff)

lemma key_validD:
  "key_validate k = Inr () \<Longrightarrow>
     clean (App k) \<and> clean (BoardName k) \<and> clean (sanitizeSegment (Segment k)) \<and> clean (effWindow k)"
  by (auto simp: key_validate_def Let_def valid_component_clean split: if_splits)

lemma split_hashTag:
  assumes "key_validate k = Inr ()"
  shows "split_on CHR '':'' (hashTag k) =
    [App k, BoardName k, sanitizeSegment (Segment k), effWindow k]"
  using key_validD [OF assms] by (simp add: hashTag_def split_on_append clean_def)

lemma hashTag_inject:
  assumes "key_validate k = Inr ()" "key_validate k' = Inr ()" "hashTag k = hashTag k'"
  shows "norm_key k = norm_key k'"
  using split_hashTag [OF assms(1)] split_hashTag [OF assms(2)] assms(3)
  by (intro BoardKey.equality) auto

lemma zKey_inject:
  assumes "key_validate k = Inr ()" "key_validate k' = Inr ()" "zKey k = zKey k'"
  shows "norm_key k = norm_key k'"
  using assms hashTag_inject [of k k'] by (simp add: zKey_def)

lemma hKey_eq_iff: "hKey k = hKey k' \<longleftrightarrow> hashTag k = hashTag k'"
  and zKey_eq_iff: "zKey k = zKey k' \<longleftrightarrow> hashTag k = hashTag k'"
  by (simp_all add: hKey_def zKey_def)

lemma last_zKey: "last (zKey k) = CHR ''z''" and last_hKey: "last (hKey k) = CHR ''h''"
  and last_metaKey: "last (metaKey k) = CHR ''a''"
  by (simp_all add: zKey_def hKey_def metaKey_def)

lemma zKey_hKey_neq [simp]: "zKey k \<noteq> hKey k'" "hKey k' \<noteq> zKey k"
  "metaKey k \<noteq> zKey k'" "zKey k' \<noteq> metaKey k" "metaKey k \<noteq> hKey k'" "hKey k' \<noteq> metaKey k"
  by (auto dest!: arg_cong [where f = last] simp: last_zKey last_hKey last_metaKey)

record Board =
  Key :: BoardKey
  Config :: BoardConfig

definition board_validate :: "Board \<Rightarrow> err + unit" where
  "board_validate b = (case key_validate (Key b) of Inl e \<Rightarrow> Inl e | Inr _ \<Rightarrow> config_validate (Config b))"

lemma board_validD:
  "board_validate b = Inr () \<Longrightarrow> key_validate (Key b) = Inr () \<and> config_validate (Config b) = Inr ()"
  by (auto simp: board_validate_def split: sum.splits)

subsection \<open>Windows, logical boards, fan-out\<close>

record WindowSpec =
  Kind :: string
  CustomID :: string

definition WindowID :: "WindowSpec \<Rightarrow> gotime \<Rightarrow> string" where
  "WindowID w t = (let d = day_of t in
     if Kind w = ''all'' \<or> Kind w = '''' then ''all''
     else if Kind w = ''daily'' then ''d='' @ format_ymd d
     else if Kind w = ''weekly'' then
       (case iso_week d of (y, wk) \<Rightarrow> ''w='' @ fmt0d 4 y @ ''-W'' @ fmt0d 2 wk)
     else if Kind w = ''monthly'' then ''m='' @ format_ym d
     else if Kind w = ''custom'' then CustomID w
     else ''all'')"

record LogicalBoard =
  LApp :: string
  LBoard :: string
  LConfig :: BoardConfig
  Windows :: "WindowSpec list"

record Event =
  EMember :: string
  EScore :: rat
  ETime :: gotime
  ESegments :: "string list"

definition DerivePhysicalBoards :: "LogicalBoard \<Rightarrow> Event \<Rightarrow> BoardKey list" where
  "DerivePhysicalBoards lb ev =
     (let windows = (if Windows lb = [] then [\<lparr>Kind = ''all'', CustomID = ''''\<rparr>] else Windows lb);
          segs = (if ESegments ev = [] then [''all''] else ESegments ev)
      in concat (map (\<lambda>w. let win = WindowID w (ETime ev) in
           map (\<lambda>s. \<lparr>App = LApp lb, BoardName = LBoard lb, Segment = sanitizeSegment s, Window = win\<rparr>) segs)
         windows))"

text \<open>
  The number of physical writes of an event: the product of the numbers of windows and
  segments, an empty list counting as one.
\<close>

lemma DerivePhysicalBoards_length:
  "length (DerivePhysicalBoards lb ev) =
     max 1 (length (Windows lb)) * max 1 (length (ESegments ev))"
proof -
  have "length (concat (map f ws)) = length ws * n" if "\<And>w. length (f w) = n" for f :: "WindowSpec \<Rightarrow> BoardKey list" and ws n
    using that by (induction ws) auto
  note c = this [where n = "max 1 (length (ESegments ev))"]
  show ?thesis
    unfolding DerivePhysicalBoards_def Let_def
    by (subst c) (auto simp: max_def Suc_le_eq)
qed

lemma DerivePhysicalBoards_nonempty: "DerivePhysicalBoards lb ev \<noteq> []"
proof
  assume "DerivePhysicalBoards lb ev = []"
  then have "max 1 (length (Windows lb)) * max 1 (length (ESegments ev)) = 0"
    using DerivePhysicalBoards_length [of lb ev] by simp
  then show False by simp
qed

lemma DerivePhysicalBoards_logical:
  "k \<in> set (DerivePhysicalBoards lb ev) \<Longrightarrow> App k = LApp lb \<and> BoardName k = LBoard lb"
  by (auto simp: DerivePhysicalBoards_def Let_def split: if_splits)

record RankEntry =
  Member :: string
  Score :: rat
  Rank :: int
  Exact :: bool
  Nickname :: string

record SubmitResult =
  Updated :: bool
  NewScore :: rat

record SubmitOp =
  OpBoard :: Board
  OpMember :: string
  OpScore :: rat
  OpTime :: gotime

subsection \<open>Properties of keys and fan-out\<close>


definition demo_key :: "string \<Rightarrow> BoardKey" where
  "demo_key w = \<lparr>App = ''app1'', BoardName = ''kills'', Segment = '''', Window = w\<rparr>"


end
