(* ===== verification/Score.thy ===== *)
theory Score
  imports Board
begin

text \<open>
  The score codec of \<open>pkg/engine/score.go\<close>. Bit operations and sums are those of \<open>int64\<close>, the
  conversions to and from \<open>float64\<close> are explicit, and the value of a conversion that does not
  fit is the platform's (\<open>oor\<close>).
\<close>

text \<open>\<open>t.Sub(u)\<close> saturates at the ends of the \<open>time.Duration\<close> range.\<close>

definition time_sub :: "gotime \<Rightarrow> gotime \<Rightarrow> duration" where
  "time_sub t u = max (- (2 ^ 63)) (min (2 ^ 63 - 1) (t - u))"

text \<open>\<open>d.Seconds()\<close>: whole seconds plus the fraction, each operation rounded.\<close>

definition dur_seconds :: "duration \<Rightarrow> rat" where
  "dur_seconds d = (let sec = sgn d * (\<bar>d\<bar> div second); nsec = d - second * sec
     in fl64 (fl64 (of_int sec) + fl64 (fl64 (of_int nsec) / of_int second)))"

text \<open>\<open>53 - c.cfg.ScoreBits\<close> on \<open>uint\<close>.\<close>

definition timeBits :: "BoardConfig \<Rightarrow> nat" where
  "timeBits cfg = nat ((53 - int (ScoreBits cfg)) mod 2 ^ 64)"

definition max_of_bits :: "nat \<Rightarrow> int" where
  "max_of_bits n = wrap64 (wrap64 (push_bit n 1) - 1)"

definition tsSec :: "(f64 \<Rightarrow> int) \<Rightarrow> BoardConfig \<Rightarrow> gotime \<Rightarrow> int" where
  "tsSec oor cfg t = f64_to_int64 oor (Fin (dur_seconds (time_sub t (Epoch cfg))))"

definition encode :: "(f64 \<Rightarrow> int) \<Rightarrow> BoardConfig \<Rightarrow> rat \<Rightarrow> gotime \<Rightarrow> err + rat" where
  "encode oor cfg score t =
     (if TieBreak cfg \<noteq> TieFirstToReach then Inr score
      else if score < 0 \<or> score \<noteq> of_int (trunc score) then Inl ErrScoreNotEncodable
      else let maxPrimary = max_of_bits (ScoreBits cfg); maxTime = max_of_bits (timeBits cfg);
               p = f64_to_int64 oor (Fin score) in
        if maxPrimary < p then Inl ErrScoreNotEncodable
        else let ts = tsSec oor cfg t in
          if ts < 0 \<or> maxTime < ts then Inl ErrScoreNotEncodable
          else let timeComp = (if SortOrder cfg = SortAsc then ts else wrap64 (maxTime - ts));
                   composite = wrap64 (push_bit (timeBits cfg) p) OR timeComp
               in Inr (fl64 (of_int composite)))"

definition decode :: "(f64 \<Rightarrow> int) \<Rightarrow> BoardConfig \<Rightarrow> rat \<Rightarrow> rat" where
  "decode oor cfg stored =
     (if TieBreak cfg \<noteq> TieFirstToReach then stored
      else fl64 (of_int (drop_bit (timeBits cfg) (f64_to_int64 oor (Fin stored)))))"

subsection \<open>The composite\<close>

definition codec_cfg :: "BoardConfig \<Rightarrow> bool" where
  "codec_cfg cfg \<longleftrightarrow> TieBreak cfg = TieFirstToReach \<and> 1 \<le> ScoreBits cfg \<and> ScoreBits cfg \<le> 52"

lemma timeBits_sum: "codec_cfg cfg \<Longrightarrow> timeBits cfg + ScoreBits cfg = 53 \<and> 1 \<le> timeBits cfg"
  by (auto simp: codec_cfg_def timeBits_def nat_diff_distrib)

lemma power_bound: "n \<le> (52::nat) \<Longrightarrow> (2::int) ^ n \<le> 2 ^ 52"
  by (rule power_increasing) auto

lemma max_of_bits: "n \<le> 52 \<Longrightarrow> max_of_bits n = 2 ^ n - 1"
proof -
  assume "n \<le> 52"
  then have b: "(2::int) ^ n \<le> 2 ^ 52" by (rule power_bound)
  then have w: "wrap64 (2 ^ n) = 2 ^ n" by (intro wrap64_nonneg) auto
  have "wrap64 (2 ^ n - 1) = 2 ^ n - 1" using b by (intro wrap64_nonneg) auto
  with w show ?thesis by (simp add: max_of_bits_def push_bit_eq_mult)
qed

lemma composite_or: "0 \<le> c \<Longrightarrow> c < 2 ^ n \<Longrightarrow> push_bit n p OR c = p * 2 ^ n + (c::int)"
  using concat_bit_eq [of n c p] concat_bit_def [of n c p]
  by (simp add: take_bit_int_eq_self push_bit_eq_mult or.commute)

lemma composite_bound:
  assumes "0 \<le> p" "p < 2 ^ sb" "0 \<le> c" "c < 2 ^ tb" "tb + sb = 53"
  shows "0 \<le> p * 2 ^ tb + c" "p * 2 ^ tb + c < (2::int) ^ 53"
proof -
  show "0 \<le> p * 2 ^ tb + c" using assms by simp
  have "p * 2 ^ tb + c < (p + 1) * 2 ^ tb" using assms by (simp add: algebra_simps)
  also have "\<dots> \<le> 2 ^ sb * 2 ^ tb" using assms by (intro mult_right_mono) auto
  also have "\<dots> = 2 ^ 53" using assms(5) by (simp flip: power_add add: add.commute)
  finally show "p * 2 ^ tb + c < 2 ^ 53" .
qed

definition time_comp :: "BoardConfig \<Rightarrow> int \<Rightarrow> int" where
  "time_comp cfg ts = (if SortOrder cfg = SortAsc then ts else 2 ^ timeBits cfg - 1 - ts)"

text \<open>
  What a successful encoding of a score below \<open>2 ^ 63\<close> is: an integer score of at most
  \<open>ScoreBits\<close> bits, a time of at most \<open>53 - ScoreBits\<close> bits, packed into 53 bits.
\<close>

lemma encode_Inr:
  assumes "codec_cfg cfg" "encode oor cfg score t = Inr e" "score < 2 ^ 63"
  shows "\<exists>p. score = of_int p \<and> 0 \<le> p \<and> p < 2 ^ ScoreBits cfg \<and>
    0 \<le> tsSec oor cfg t \<and> tsSec oor cfg t < 2 ^ timeBits cfg \<and>
    e = of_int (p * 2 ^ timeBits cfg + time_comp cfg (tsSec oor cfg t))"
proof -
  define p where "p = trunc score"
  note tb = timeBits_sum [OF assms(1)]
  have sb: "ScoreBits cfg \<le> 52" "timeBits cfg \<le> 52" "TieBreak cfg = TieFirstToReach"
    using assms(1) tb by (auto simp: codec_cfg_def)
  from assms(2) sb have sc: "0 \<le> score" "score = of_int p" "\<not> max_of_bits (ScoreBits cfg) < f64_to_int64 oor (Fin score)"
    and ts: "0 \<le> tsSec oor cfg t" "tsSec oor cfg t \<le> max_of_bits (timeBits cfg)"
    and e: "e = fl64 (of_int (wrap64 (push_bit (timeBits cfg) (f64_to_int64 oor (Fin score))) OR
        (if SortOrder cfg = SortAsc then tsSec oor cfg t else wrap64 (max_of_bits (timeBits cfg) - tsSec oor cfg t))))"
    by (auto simp: encode_def Let_def p_def split: if_splits)
  have p0: "0 \<le> p" using sc(1) by (simp add: p_def trunc_nonneg)
  have "(of_int p :: rat) < of_int (2 ^ 63)" using assms(3) sc(2) by simp
  then have "p < 2 ^ 63" by (simp only: of_int_less_iff)
  then have cp: "f64_to_int64 oor (Fin score) = p" using p0 by (simp add: p_def)
  have p: "p < 2 ^ ScoreBits cfg" using sc(3) sb unfolding cp by (simp add: max_of_bits)
  have ts2: "tsSec oor cfg t < 2 ^ timeBits cfg" using ts(2) sb by (simp add: max_of_bits)
  have tc: "0 \<le> time_comp cfg (tsSec oor cfg t)" "time_comp cfg (tsSec oor cfg t) < 2 ^ timeBits cfg"
    using ts(1) ts2 by (auto simp: time_comp_def)
  have tcw: "(if SortOrder cfg = SortAsc then tsSec oor cfg t
      else wrap64 (max_of_bits (timeBits cfg) - tsSec oor cfg t)) = time_comp cfg (tsSec oor cfg t)"
    using ts(1) ts2 sb power_bound [of "timeBits cfg"] by (simp add: time_comp_def max_of_bits)
  note cb = composite_bound [OF p0 p tc tb [THEN conjunct1]]
  have "p * 2 ^ timeBits cfg < 2 ^ 53" using cb tc by linarith
  then have "wrap64 (push_bit (timeBits cfg) p) = push_bit (timeBits cfg) p"
    unfolding push_bit_eq_mult using p0 by (intro wrap64_nonneg) auto
  with e cp tcw have "e = fl64 (of_int (push_bit (timeBits cfg) p OR time_comp cfg (tsSec oor cfg t)))" by simp
  also have "\<dots> = fl64 (of_int (p * 2 ^ timeBits cfg + time_comp cfg (tsSec oor cfg t)))"
    by (simp only: composite_or [OF tc])
  also have "\<dots> = of_int (p * 2 ^ timeBits cfg + time_comp cfg (tsSec oor cfg t))"
    using cb by (intro fl64_of_int) simp
  finally show ?thesis using sc(2) p0 p ts(1) ts2 by blast
qed

lemma decode_composite:
  assumes "codec_cfg cfg" "0 \<le> p" "p < 2 ^ ScoreBits cfg" "0 \<le> c" "c < 2 ^ timeBits cfg"
  shows "decode oor cfg (of_int (p * 2 ^ timeBits cfg + c)) = of_int p"
proof -
  note tb = timeBits_sum [OF assms(1)]
  note cb = composite_bound [OF assms(2-5) tb [THEN conjunct1]]
  have d: "drop_bit (timeBits cfg) (p * 2 ^ timeBits cfg + c) = p"
    using assms(4,5) by (simp add: drop_bit_eq_div)
  have "p < 2 ^ 52" using assms(1,3) power_bound [of "ScoreBits cfg"] by (simp add: codec_cfg_def)
  then have "fl64 (of_int p) = of_int p" using assms(2) by (intro fl64_of_int) simp
  moreover have "TieBreak cfg = TieFirstToReach" using assms(1) by (simp add: codec_cfg_def)
  moreover have "f64_to_int64 oor (Fin (of_int (p * 2 ^ timeBits cfg + c))) = p * 2 ^ timeBits cfg + c"
    using cb by (simp only: f64_to_int64.simps trunc_of_int) simp
  ultimately show ?thesis by (simp only: decode_def d) simp
qed

lemma time_comp_range:
  "0 \<le> ts \<Longrightarrow> ts < 2 ^ timeBits cfg \<Longrightarrow> 0 \<le> time_comp cfg ts \<and> time_comp cfg ts < 2 ^ timeBits cfg"
  by (auto simp: time_comp_def)

subsection \<open>Properties of the codec\<close>

lemma valid_codec:
  assumes "config_validate c = Inr ()" "TieBreak (withDefaults c) = TieFirstToReach"
  shows "codec_cfg (withDefaults c)"
  using config_validD(5) [OF assms(1) refl assms(2)] assms(2) by (simp add: codec_cfg_def)

text \<open>
  (C22) Round trip: on every valid configuration, a score below \<open>2 ^ 63\<close> that the codec accepts
  is what the codec reads back, with or without a packed time.
\<close>

theorem score_roundtrip:
  assumes "config_validate c = Inr ()" "encode oor (withDefaults c) score t = Inr e" "score < 2 ^ 63"
  shows "decode oor (withDefaults c) e = score"
proof (cases "TieBreak (withDefaults c) = TieFirstToReach")
  case True
  note cc = valid_codec [OF assms(1) True]
  obtain p where "score = of_int p" "0 \<le> p" "p < 2 ^ ScoreBits (withDefaults c)"
    and ts: "0 \<le> tsSec oor (withDefaults c) t" "tsSec oor (withDefaults c) t < 2 ^ timeBits (withDefaults c)"
    and "e = of_int (p * 2 ^ timeBits (withDefaults c) + time_comp (withDefaults c) (tsSec oor (withDefaults c) t))"
    using encode_Inr [OF cc assms(2,3)] by blast
  then show ?thesis using decode_composite [OF cc] time_comp_range [OF ts] by simp
next
  case False
  then show ?thesis using assms(2) by (simp add: encode_def decode_def)
qed

definition cfg_first :: BoardConfig where
  "cfg_first = \<lparr>SortOrder = '''', UpdatePolicy = '''', TieBreak = ''firstToReach'', ScoreBits = 20, Epoch = 0,
     ApproxRank = False, ApproxMin = 0, ApproxMax = 0, ApproxBuckets = 0\<rparr>"

definition t2024 :: gotime where
  "t2024 = go_date 2024 3 1 * day_ns"

lemma cfg_first_encodes:
  "config_validate cfg_first = Inr ()"
  "encode (\<lambda>_. - (2 ^ 63)) (withDefaults cfg_first) 100 t2024 = Inr 867451979391"
  "encode (\<lambda>_. - (2 ^ 63)) (withDefaults cfg_first) 100 (t2024 + 5 * second) = Inr 867451979386"
  by code_simp+

theorem score_roundtrip_witness:
  "decode (\<lambda>_. - (2 ^ 63)) (withDefaults cfg_first) 867451979391 = 100"
  by (rule score_roundtrip [OF cfg_first_encodes(1,2)]) simp

lemma composite_less_iff:
  assumes "0 \<le> c" "c < 2 ^ n" "0 \<le> d" "d < (2::int) ^ n"
  shows "p * 2 ^ n + c < q * 2 ^ n + d \<longleftrightarrow> p < q \<or> p = q \<and> c < d"
proof (cases p q rule: linorder_cases)
  case less
  then have "(p + 1) * 2 ^ n \<le> q * 2 ^ n" by (intro mult_right_mono) auto
  with less assms show ?thesis by (simp add: algebra_simps)
next
  case greater
  then have "(q + 1) * 2 ^ n \<le> p * 2 ^ n" by (intro mult_right_mono) auto
  with greater assms show ?thesis by (simp add: algebra_simps)
qed simp



text \<open>
  The conversion of the score to \<open>int64\<close> is not checked: on a platform where an out-of-range
  conversion yields the least \<open>int64\<close>, the score \<open>2 ^ 63\<close> passes the range check of a board with 20
  score bits and is stored as a score of 0 instead of being rejected with \<open>ErrScoreNotEncodable\<close>.
\<close>

theorem huge_score_accepted:
  "\<exists>e. encode (\<lambda>_. - (2 ^ 63)) (withDefaults cfg_first) (2 ^ 63) t2024 = Inr e \<and>
     decode (\<lambda>_. - (2 ^ 63)) (withDefaults cfg_first) e = 0"
proof -
  have "encode (\<lambda>_. - (2 ^ 63)) (withDefaults cfg_first) (2 ^ 63) t2024 = Inr 8458520191" by code_simp
  moreover have "decode (\<lambda>_. - (2 ^ 63)) (withDefaults cfg_first) 8458520191 = 0" by code_simp
  ultimately show ?thesis by blast
qed

end
