(* ===== verification/Redis.thy ===== *)
theory Redis
  imports Go_Runtime
begin

text \<open>
  The interface to the Redis server. The server is not part of the repository, so its commands
  are a parameter of every definition that calls it: the record \<open>'s env\<close>, over an opaque
  server state \<open>'s\<close>. What the program relies on is stated in the locale \<open>redis_docs\<close>, from
  the documentation of each command, as equations on the keyspace \<open>ks s\<close> a client can observe,
  for a server that answers (theorems about failing commands leave the parameter arbitrary).
  \<open>mem_redis\<close> is an executable server that satisfies the contract; it instantiates the
  parameter in witnesses.
\<close>

subsection \<open>Sorted sets\<close>

text \<open>A sorted set as the list of its entries in Redis order: by score, then by member bytewise.\<close>

type_synonym zset = "(rat \<times> string) list"

definition zset_ok :: "zset \<Rightarrow> bool" where
  "zset_ok l \<longleftrightarrow> sorted_wrt (<) l \<and> distinct (map snd l)"

fun zget :: "zset \<Rightarrow> string \<Rightarrow> rat option" where
  "zget [] m = None"
| "zget ((v, m') # l) m = (if m' = m then Some v else zget l m)"

definition zdel :: "zset \<Rightarrow> string \<Rightarrow> zset" where
  "zdel l m = filter (\<lambda>e. snd e \<noteq> m) l"

definition zput :: "zset \<Rightarrow> string \<Rightarrow> rat \<Rightarrow> zset" where
  "zput l m v = insort (v, m) (zdel l m)"

text \<open>Zero-based position of a member.\<close>

fun zpos :: "zset \<Rightarrow> string \<Rightarrow> nat option" where
  "zpos [] m = None"
| "zpos ((v, m') # l) m = (if m' = m then Some 0 else map_option Suc (zpos l m))"

lemma zset_ok_Nil [simp]: "zset_ok []"
  by (simp add: zset_ok_def)

lemma zget_None_iff: "zget l m = None \<longleftrightarrow> m \<notin> snd ` set l"
  by (induction l m rule: zget.induct) force+

lemma zget_in: "zget l m = Some v \<Longrightarrow> (v, m) \<in> set l"
  by (induction l m rule: zget.induct) (auto split: if_splits)

lemma zget_Some_iff: "distinct (map snd l) \<Longrightarrow> zget l m = Some v \<longleftrightarrow> (v, m) \<in> set l"
proof (induction l)
  case (Cons e l)
  then show ?case by (cases e) (force simp: image_iff)
qed simp

lemma zget_zdel: "zget (zdel l m) m' = (if m' = m then None else zget l m')"
  by (induction l) (auto simp: zdel_def)

lemma set_zdel: "set (zdel l m) = {e \<in> set l. snd e \<noteq> m}"
  by (auto simp: zdel_def)

lemma zset_ok_zdel: "zset_ok l \<Longrightarrow> zset_ok (zdel l m)"
  by (simp add: zset_ok_def zdel_def sorted_wrt_filter distinct_map_filter)

lemma sorted_insort_strict: "sorted_wrt (<) l \<Longrightarrow> x \<notin> set l \<Longrightarrow> sorted_wrt (<) (insort x l)"
  by (metis distinct_insort sorted_insort strict_sorted_iff)

lemma set_zput: "set (zput l m v) = insert (v, m) (set (zdel l m))"
  by (simp add: zput_def set_insort_key)

lemma zset_ok_zput: "zset_ok l \<Longrightarrow> zset_ok (zput l m v)"
proof -
  assume "zset_ok l"
  then have ok: "zset_ok (zdel l m)" by (rule zset_ok_zdel)
  have nin: "m \<notin> snd ` set (zdel l m)" by (auto simp: set_zdel)
  then have "(v, m) \<notin> set (zdel l m)" by force
  with ok have "sorted_wrt (<) (zput l m v)"
    unfolding zput_def by (intro sorted_insort_strict) (simp_all add: zset_ok_def)
  moreover have "distinct (map snd (zput l m v))"
  proof -
    have "mset (map snd (zput l m v)) = mset (m # map snd (zdel l m))"
      by (simp add: zput_def)
    moreover have "distinct (m # map snd (zdel l m))" using ok nin by (auto simp: zset_ok_def)
    ultimately show ?thesis by (metis mset_eq_imp_distinct_iff)
  qed
  ultimately show ?thesis by (simp add: zset_ok_def)
qed

lemma zget_zput:
  assumes "zset_ok l"
  shows "zget (zput l m v) m' = (if m' = m then Some v else zget l m')"
proof -
  have d: "distinct (map snd (zput l m v))" "distinct (map snd l)"
    using zset_ok_zput [OF assms] assms by (simp_all add: zset_ok_def)
  have "zget (zput l m v) m' = Some w \<longleftrightarrow> (if m' = m then Some v else zget l m') = Some w" for w
    unfolding zget_Some_iff [OF d(1)] set_zput set_zdel by (auto simp: zget_Some_iff [OF d(2)])
  then show ?thesis by (metis option.exhaust)
qed

lemma zput_nonempty [simp]: "zput l m v \<noteq> []"
  using set_zput [of l m v] by auto

lemma zset_eqI:
  assumes "zset_ok l" "zset_ok l'" "\<And>m. zget l m = zget l' m"
  shows "l = l'"
proof -
  have "(v, m) \<in> set l \<longleftrightarrow> (v, m) \<in> set l'" for v m
    using assms zget_Some_iff [of l m v] zget_Some_iff [of l' m v] by (simp add: zset_ok_def)
  then have "set l = set l'" by auto
  with assms(1,2) show ?thesis by (intro strict_sorted_equal) (auto simp: zset_ok_def)
qed

lemma zpos_Some: "zpos l m = Some i \<Longrightarrow> i < length l \<and> snd (l ! i) = m \<and> zget l m = Some (fst (l ! i))"
  by (induction l m arbitrary: i rule: zpos.induct) (auto split: if_splits)

lemma zpos_None_iff: "zpos l m = None \<longleftrightarrow> zget l m = None"
  by (induction l m rule: zpos.induct) auto

lemma zpos_nth: "distinct (map snd l) \<Longrightarrow> i < length l \<Longrightarrow> zpos l (snd (l ! i)) = Some i"
proof (induction l arbitrary: i)
  case (Cons e l)
  show ?case
  proof (cases i)
    case (Suc j)
    with Cons.prems have "l ! j \<in> set l" by simp
    with Cons.prems have "snd e \<noteq> snd (l ! j)" by force
    with Cons Suc show ?thesis by (cases e) auto
  qed (cases e, simp)
qed simp

text \<open>\<open>ZADD \<dots> CH\<close> of one member, without flag, with \<open>GT\<close> or with \<open>LT\<close>.\<close>

datatype zadd_mode = ZAlways | ZGT | ZLT

fun zadd_allows :: "zadd_mode \<Rightarrow> rat \<Rightarrow> rat \<Rightarrow> bool" where
  "zadd_allows ZAlways old new = True"
| "zadd_allows ZGT old new = (old < new)"
| "zadd_allows ZLT old new = (new < old)"

definition zadd_result :: "zadd_mode \<Rightarrow> zset \<Rightarrow> string \<Rightarrow> rat \<Rightarrow> zset" where
  "zadd_result mode l m v = (case zget l m of None \<Rightarrow> zput l m v
     | Some old \<Rightarrow> if zadd_allows mode old v then zput l m v else l)"

definition zadd_changed :: "zadd_mode \<Rightarrow> zset \<Rightarrow> string \<Rightarrow> rat \<Rightarrow> int" where
  "zadd_changed mode l m v = (case zget l m of None \<Rightarrow> 1
     | Some old \<Rightarrow> if zadd_allows mode old v \<and> v \<noteq> old then 1 else 0)"

lemma zset_ok_zadd: "zset_ok l \<Longrightarrow> zset_ok (zadd_result mode l m v)"
  by (auto simp: zadd_result_def zset_ok_zput split: option.splits)

lemma zadd_result_nonempty [simp]: "zadd_result mode l m v \<noteq> []"
  by (auto simp: zadd_result_def split: option.splits)

subsection \<open>Keyspace\<close>

datatype rval = VZset zset | VHash "string \<rightharpoonup> string" | VOther

type_synonym keyspace = "string \<rightharpoonup> rval"

text \<open>
  The sorted set or hash under a key: empty when the key is absent, undefined when the key holds
  another type (the server then replies \<open>WRONGTYPE\<close>).
\<close>

definition zset_at :: "keyspace \<Rightarrow> string \<Rightarrow> zset option" where
  "zset_at K k = (case K k of None \<Rightarrow> Some [] | Some (VZset l) \<Rightarrow> Some l | Some _ \<Rightarrow> None)"

definition hash_at :: "keyspace \<Rightarrow> string \<Rightarrow> (string \<rightharpoonup> string) option" where
  "hash_at K k = (case K k of None \<Rightarrow> Some Map.empty | Some (VHash h) \<Rightarrow> Some h | Some _ \<Rightarrow> None)"

text \<open>A key whose last element is removed is deleted.\<close>

definition zval :: "zset \<Rightarrow> rval option" where
  "zval l = (if l = [] then None else Some (VZset l))"

lemma zset_at_upd [simp]: "zset_at (K(k := zval l)) k' = (if k' = k then Some l else zset_at K k')"
  by (simp add: zset_at_def zval_def)

lemma hash_at_zupd: "k' \<noteq> k \<Longrightarrow> hash_at (K(k := v)) k' = hash_at K k'"
  by (simp add: hash_at_def)

lemma zset_at_other: "k' \<noteq> k \<Longrightarrow> zset_at (K(k := v)) k' = zset_at K k'"
  by (simp add: zset_at_def)

lemma hash_at_upd [simp]: "hash_at (K(k := Some (VHash h))) k = Some h"
  by (simp add: hash_at_def)

lemma at_None [simp]: "K k = None \<Longrightarrow> zset_at K k = Some []" "K k = None \<Longrightarrow> hash_at K k = Some Map.empty"
  by (simp_all add: zset_at_def hash_at_def)

text \<open>The value of a hash field as \<open>HINCRBY\<close> reads it.\<close>

definition hash_int :: "(string \<rightharpoonup> string) \<Rightarrow> string \<Rightarrow> int option" where
  "hash_int h f = (case h f of None \<Rightarrow> Some 0 | Some v \<Rightarrow> atoi v)"

text \<open>
  Glob patterns of the documented forms used here: a backslash quotes the next byte, a star
  matches any sequence, other bytes match themselves. \<open>simple_pat\<close> excludes the forms with
  brackets and question marks.
\<close>

fun glob :: "string \<Rightarrow> string \<Rightarrow> bool" where
  "glob [] k = (k = [])"
| "glob (p # ps) [] = (p = CHR ''*'' \<and> glob ps [])"
| "glob (p # ps) (c # cs) =
     (if p = CHR ''*'' then glob ps (c # cs) \<or> glob (p # ps) cs
      else if p = CHR 0x5C then (case ps of [] \<Rightarrow> False | q # qs \<Rightarrow> q = c \<and> glob qs cs)
      else p = c \<and> glob ps cs)"

fun simple_pat :: "string \<Rightarrow> bool" where
  "simple_pat [] = True"
| "simple_pat (p # ps) =
     (if p = CHR 0x5C then (case ps of [] \<Rightarrow> False | q # qs \<Rightarrow> simple_pat qs)
      else p \<noteq> CHR ''?'' \<and> p \<noteq> CHR ''['' \<and> simple_pat ps)"

subsection \<open>Commands\<close>

text \<open>
  The commands the ranking engine and the window reaper call, as the Go client exposes them, and
  the platform's result of an out-of-range float conversion. A score bound is \<open>None\<close> for an
  infinity.
\<close>

record 's env =
  ZADD :: "string \<Rightarrow> zadd_mode \<Rightarrow> rat \<Rightarrow> string \<Rightarrow> 's \<Rightarrow> int reply \<times> 's"
  ZINCRBY :: "string \<Rightarrow> rat \<Rightarrow> string \<Rightarrow> 's \<Rightarrow> rat reply \<times> 's"
  ZSCORE :: "string \<Rightarrow> string \<Rightarrow> 's \<Rightarrow> rat reply \<times> 's"
  ZRANK :: "string \<Rightarrow> string \<Rightarrow> 's \<Rightarrow> int reply \<times> 's"
  ZREVRANK :: "string \<Rightarrow> string \<Rightarrow> 's \<Rightarrow> int reply \<times> 's"
  ZRANGE :: "string \<Rightarrow> int \<Rightarrow> int \<Rightarrow> 's \<Rightarrow> zset reply \<times> 's"
  ZREVRANGE :: "string \<Rightarrow> int \<Rightarrow> int \<Rightarrow> 's \<Rightarrow> zset reply \<times> 's"
  ZRANGEBYSCORE :: "string \<Rightarrow> rat option \<Rightarrow> rat option \<Rightarrow> int \<Rightarrow> int \<Rightarrow> 's \<Rightarrow> zset reply \<times> 's"
  ZREVRANGEBYSCORE :: "string \<Rightarrow> rat option \<Rightarrow> rat option \<Rightarrow> int \<Rightarrow> int \<Rightarrow> 's \<Rightarrow> zset reply \<times> 's"
  ZCARD :: "string \<Rightarrow> 's \<Rightarrow> int reply \<times> 's"
  ZREM :: "string \<Rightarrow> string \<Rightarrow> 's \<Rightarrow> int reply \<times> 's"
  HINCRBY :: "string \<Rightarrow> string \<Rightarrow> int \<Rightarrow> 's \<Rightarrow> int reply \<times> 's"
  HGETALL :: "string \<Rightarrow> 's \<Rightarrow> (string \<times> string) list reply \<times> 's"
  DEL :: "string list \<Rightarrow> 's \<Rightarrow> int reply \<times> 's"
  SCAN :: "nat \<Rightarrow> string \<Rightarrow> int \<Rightarrow> 's \<Rightarrow> (string list \<times> nat) reply \<times> 's"
  EXPIRE :: "string \<Rightarrow> int \<Rightarrow> 's \<Rightarrow> bool reply \<times> 's"
  cvt_oor :: "f64 \<Rightarrow> int"

text \<open>A full iteration of \<open>SCAN\<close>: from cursor \<open>c\<close> until the server returns cursor 0.\<close>

fun scan_chain :: "(nat \<Rightarrow> (string list \<times> nat) reply \<times> 's) \<Rightarrow> 's \<Rightarrow> nat \<Rightarrow> (string list \<times> nat) list \<Rightarrow> bool" where
  "scan_chain f s c [] = False"
| "scan_chain f s c ((b, n) # bs) =
     (f c = (Reply (b, n), s) \<and> (if bs = [] then n = 0 else n \<noteq> 0 \<and> scan_chain f s n bs))"

definition in_bounds :: "rat option \<Rightarrow> rat option \<Rightarrow> rat \<times> string \<Rightarrow> bool" where
  "in_bounds lo hi e \<longleftrightarrow> (case lo of None \<Rightarrow> True | Some a \<Rightarrow> a \<le> fst e) \<and>
     (case hi of None \<Rightarrow> True | Some b \<Rightarrow> fst e \<le> b)"

definition window :: "int \<Rightarrow> int \<Rightarrow> 'a list \<Rightarrow> 'a list" where
  "window start stop xs = take (nat (stop - start + 1)) (drop (nat start) xs)"

definition opt_reply :: "'a option \<Rightarrow> 'a reply" where
  "opt_reply x = (case x of None \<Rightarrow> NilReply | Some v \<Rightarrow> Reply v)"

lemma opt_reply_simps [simp]: "opt_reply None = NilReply" "opt_reply (Some v) = Reply v"
  by (simp_all add: opt_reply_def)

locale redis_docs =
  fixes R :: "'s env" and ks :: "'s \<Rightarrow> keyspace"
  assumes zset_wf: "ks s k = Some (VZset l) \<Longrightarrow> zset_ok l \<and> l \<noteq> []"
    and ZADD: "zset_at (ks s) k = Some l \<Longrightarrow> fst (ZADD R k mode v m s) = Reply (zadd_changed mode l m v)"
      "zset_at (ks s) k = Some l \<Longrightarrow> ks (snd (ZADD R k mode v m s)) = (ks s)(k := zval (zadd_result mode l m v))"
    and ZINCRBY: "zset_at (ks s) k = Some l \<Longrightarrow> new = fl64 ((case zget l m of None \<Rightarrow> 0 | Some old \<Rightarrow> old) + x) \<Longrightarrow>
        \<bar>new\<bar> < 2 ^ 1024 \<Longrightarrow> fst (ZINCRBY R k x m s) = Reply new"
      "zset_at (ks s) k = Some l \<Longrightarrow> new = fl64 ((case zget l m of None \<Rightarrow> 0 | Some old \<Rightarrow> old) + x) \<Longrightarrow>
        \<bar>new\<bar> < 2 ^ 1024 \<Longrightarrow> ks (snd (ZINCRBY R k x m s)) = (ks s)(k := zval (zput l m new))"
    and ZSCORE: "zset_at (ks s) k = Some l \<Longrightarrow> ZSCORE R k m s = (opt_reply (zget l m), s)"
    and ZRANK: "zset_at (ks s) k = Some l \<Longrightarrow> ZRANK R k m s = (opt_reply (map_option int (zpos l m)), s)"
    and ZREVRANK: "zset_at (ks s) k = Some l \<Longrightarrow>
        ZREVRANK R k m s = (opt_reply (map_option (\<lambda>i. int (length l) - 1 - int i) (zpos l m)), s)"
    and ZRANGE: "zset_at (ks s) k = Some l \<Longrightarrow> 0 \<le> a \<Longrightarrow> a \<le> b \<Longrightarrow> ZRANGE R k a b s = (Reply (window a b l), s)"
    and ZREVRANGE: "zset_at (ks s) k = Some l \<Longrightarrow> 0 \<le> a \<Longrightarrow> a \<le> b \<Longrightarrow>
        ZREVRANGE R k a b s = (Reply (window a b (rev l)), s)"
    and ZRANGEBYSCORE: "zset_at (ks s) k = Some l \<Longrightarrow> 0 \<le> c \<Longrightarrow>
        ZRANGEBYSCORE R k lo hi 0 c s = (Reply (take (nat c) (filter (in_bounds lo hi) l)), s)"
    and ZREVRANGEBYSCORE: "zset_at (ks s) k = Some l \<Longrightarrow> 0 \<le> c \<Longrightarrow>
        ZREVRANGEBYSCORE R k lo hi 0 c s = (Reply (take (nat c) (filter (in_bounds lo hi) (rev l))), s)"
    and ZCARD: "zset_at (ks s) k = Some l \<Longrightarrow> ZCARD R k s = (Reply (int (length l)), s)"
    and ZREM: "zset_at (ks s) k = Some l \<Longrightarrow> fst (ZREM R k m s) = Reply (if zget l m = None then 0 else 1)"
      "zset_at (ks s) k = Some l \<Longrightarrow> ks (snd (ZREM R k m s)) = (ks s)(k := zval (zdel l m))"
    and HINCRBY: "hash_at (ks s) k = Some h \<Longrightarrow> hash_int h f = Some n \<Longrightarrow> int64 (n + d) \<Longrightarrow>
        fst (HINCRBY R k f d s) = Reply (n + d)"
      "hash_at (ks s) k = Some h \<Longrightarrow> hash_int h f = Some n \<Longrightarrow> int64 (n + d) \<Longrightarrow>
        ks (snd (HINCRBY R k f d s)) = (ks s)(k := Some (VHash (h(f \<mapsto> itoa (n + d)))))"
    and HGETALL: "hash_at (ks s) k = Some h \<Longrightarrow>
        \<exists>xs. HGETALL R k s = (Reply xs, s) \<and> distinct (map fst xs) \<and> map_of xs = h"
    and DEL: "\<exists>n. fst (DEL R keys s) = Reply n"
      "ks (snd (DEL R keys s)) = (\<lambda>k. if k \<in> set keys then None else ks s k)"
    and SCAN: "simple_pat pat \<Longrightarrow> \<exists>bs. scan_chain (\<lambda>c. SCAN R c pat cnt s) s 0 bs \<and>
        set (concat (map fst bs)) = {k. ks s k \<noteq> None \<and> glob pat k}"
    and EXPIRE: "\<exists>b. fst (EXPIRE R k ttl s) = Reply b" "ks (snd (EXPIRE R k ttl s)) = ks s"
begin

lemma zset_at_ok: "zset_at (ks s) k = Some l \<Longrightarrow> zset_ok l"
  by (auto simp: zset_at_def dest: zset_wf split: option.splits rval.splits)

lemma zset_at_nonempty: "ks s k \<noteq> None \<Longrightarrow> zset_at (ks s) k = Some l \<Longrightarrow> l \<noteq> []"
  by (auto simp: zset_at_def dest: zset_wf split: option.splits rval.splits)

end

subsection \<open>An executable server\<close>

text \<open>
  The store is an association list; a key written again moves to the front. One call of
  \<open>SCAN\<close> returns the first half of the matching keys and cursor 1, a second one the rest.
\<close>

datatype cell = CZset zset | CHash "(string \<times> string) list" | COther

type_synonym mem = "(string \<times> cell) list"

definition mset_key :: "string \<Rightarrow> cell option \<Rightarrow> mem \<Rightarrow> mem" where
  "mset_key k v s = (case v of None \<Rightarrow> filter (\<lambda>e. fst e \<noteq> k) s
     | Some c \<Rightarrow> (k, c) # filter (\<lambda>e. fst e \<noteq> k) s)"

fun cell_view :: "cell \<Rightarrow> rval" where
  "cell_view (CZset l) = VZset l"
| "cell_view (CHash h) = VHash (map_of h)"
| "cell_view COther = VOther"

text \<open>A stored sorted set that is not well formed reads as a value of another type.\<close>

definition mget :: "mem \<Rightarrow> string \<Rightarrow> cell option" where
  "mget s k = (case map_of s k of Some (CZset l) \<Rightarrow> (if zset_ok l \<and> l \<noteq> [] then Some (CZset l) else Some COther)
     | Some (CHash h) \<Rightarrow> (if distinct (map fst h) then Some (CHash h) else Some COther)
     | x \<Rightarrow> x)"

definition mem_ks :: "mem \<Rightarrow> keyspace" where
  "mem_ks s k = map_option cell_view (mget s k)"

definition mem_zset :: "mem \<Rightarrow> string \<Rightarrow> zset option" where
  "mem_zset s k = (case mget s k of None \<Rightarrow> Some [] | Some (CZset l) \<Rightarrow> Some l | Some _ \<Rightarrow> None)"

definition mem_hash :: "mem \<Rightarrow> string \<Rightarrow> (string \<times> string) list option" where
  "mem_hash s k = (case mget s k of None \<Rightarrow> Some [] | Some (CHash h) \<Rightarrow> Some h | Some _ \<Rightarrow> None)"

definition wrongtype :: "'a reply" where
  "wrongtype = ErrReply ''WRONGTYPE''"

definition on_zset :: "mem \<Rightarrow> string \<Rightarrow> (zset \<Rightarrow> 'a reply \<times> zset) \<Rightarrow> 'a reply \<times> mem" where
  "on_zset s k f = (case mem_zset s k of None \<Rightarrow> (wrongtype, s)
     | Some l \<Rightarrow> (case f l of (r, l') \<Rightarrow> (r, mset_key k (if l' = [] then None else Some (CZset l')) s)))"

definition of_zset :: "mem \<Rightarrow> string \<Rightarrow> (zset \<Rightarrow> 'a reply) \<Rightarrow> 'a reply \<times> mem" where
  "of_zset s k f = (case mem_zset s k of None \<Rightarrow> (wrongtype, s) | Some l \<Rightarrow> (f l, s))"

definition hset :: "(string \<times> string) list \<Rightarrow> string \<Rightarrow> string \<Rightarrow> (string \<times> string) list" where
  "hset h f v = (f, v) # filter (\<lambda>e. fst e \<noteq> f) h"

definition mem_redis :: "mem env" where
  "mem_redis = \<lparr>
     ZADD = (\<lambda>k mode v m s. on_zset s k (\<lambda>l. (Reply (zadd_changed mode l m v), zadd_result mode l m v))),
     ZINCRBY = (\<lambda>k d m s. on_zset s k (\<lambda>l.
        let new = fl64 ((case zget l m of None \<Rightarrow> 0 | Some old \<Rightarrow> old) + d)
        in if \<bar>new\<bar> < 2 ^ 1024 then (Reply new, zput l m new) else (ErrReply ''ERR'', l))),
     ZSCORE = (\<lambda>k m s. of_zset s k (\<lambda>l. opt_reply (zget l m))),
     ZRANK = (\<lambda>k m s. of_zset s k (\<lambda>l. opt_reply (map_option int (zpos l m)))),
     ZREVRANK = (\<lambda>k m s. of_zset s k (\<lambda>l. opt_reply (map_option (\<lambda>i. int (length l) - 1 - int i) (zpos l m)))),
     ZRANGE = (\<lambda>k a b s. of_zset s k (\<lambda>l. Reply (window a b l))),
     ZREVRANGE = (\<lambda>k a b s. of_zset s k (\<lambda>l. Reply (window a b (rev l)))),
     ZRANGEBYSCORE = (\<lambda>k lo hi off c s. of_zset s k (\<lambda>l. Reply (take (nat c) (drop (nat off) (filter (in_bounds lo hi) l))))),
     ZREVRANGEBYSCORE = (\<lambda>k lo hi off c s. of_zset s k (\<lambda>l. Reply (take (nat c) (drop (nat off) (filter (in_bounds lo hi) (rev l)))))),
     ZCARD = (\<lambda>k s. of_zset s k (\<lambda>l. Reply (int (length l)))),
     ZREM = (\<lambda>k m s. on_zset s k (\<lambda>l. (Reply (if zget l m = None then 0 else 1), zdel l m))),
     HINCRBY = (\<lambda>k f d s. case mem_hash s k of None \<Rightarrow> (wrongtype, s)
        | Some h \<Rightarrow> (case hash_int (map_of h) f of None \<Rightarrow> (ErrReply ''ERR hash value is not an integer'', s)
            | Some n \<Rightarrow> if int64 (n + d) then (Reply (n + d), mset_key k (Some (CHash (hset h f (itoa (n + d))))) s)
                else (ErrReply ''ERR increment or decrement would overflow'', s))),
     HGETALL = (\<lambda>k s. case mem_hash s k of None \<Rightarrow> (wrongtype, s) | Some h \<Rightarrow> (Reply h, s)),
     DEL = (\<lambda>keys s. (Reply (int (length (filter (\<lambda>k. k \<in> fst ` set s) keys))), filter (\<lambda>e. fst e \<notin> set keys) s)),
     SCAN = (\<lambda>c pat n s. let ms = filter (glob pat) (remdups (map fst s)); h = length ms div 2 in
        if c = 0 then (Reply (take h ms, 1), s) else (Reply (drop h ms, 0), s)),
     EXPIRE = (\<lambda>k ttl s. (Reply (map_of s k \<noteq> None), s)),
     cvt_oor = (\<lambda>_. - (2 ^ 63))\<rparr>"

lemma map_of_filter_ne: "map_of (filter (\<lambda>e. fst e \<noteq> k) s) k' = (if k' = k then None else map_of s k')"
  by (induction s) auto

lemma map_of_filter_notin: "map_of (filter (\<lambda>e. fst e \<notin> A) s) k = (if k \<in> A then None else map_of s k)"
  by (induction s) auto

lemma map_of_mset_key: "map_of (mset_key k v s) = (map_of s)(k := v)"
  by (auto simp: mset_key_def map_of_filter_ne split: option.splits)

lemma mem_zset_view: "mem_zset s k = zset_at (mem_ks s) k"
  by (simp add: mem_zset_def zset_at_def mem_ks_def split: option.splits cell.splits)

lemma mem_hash_view: "map_option map_of (mem_hash s k) = hash_at (mem_ks s) k"
  by (simp add: mem_hash_def hash_at_def mem_ks_def split: option.splits cell.splits)

lemma mem_hash_viewD:
  assumes "hash_at (mem_ks s) k = Some h"
  obtains xs where "mem_hash s k = Some xs" "map_of xs = h" "distinct (map fst xs)"
  using assms that
  by (auto simp: hash_at_def mem_ks_def mem_hash_def mget_def split: option.splits cell.splits if_splits)

lemma mem_zset_ok: "mem_zset s k = Some l \<Longrightarrow> zset_ok l"
  by (auto simp: mem_zset_def mget_def split: option.splits cell.splits if_splits)

lemma mem_ks_zset: "zset_ok l \<Longrightarrow> mem_ks (mset_key k (if l = [] then None else Some (CZset l)) s) = (mem_ks s)(k := zval l)"
  by (auto simp: fun_eq_iff mem_ks_def mget_def map_of_mset_key zval_def)

lemma mem_ks_hash: "distinct (map fst h) \<Longrightarrow> mem_ks (mset_key k (Some (CHash h)) s) = (mem_ks s)(k := Some (VHash (map_of h)))"
  by (auto simp: fun_eq_iff mem_ks_def mget_def map_of_mset_key)

lemma distinct_hset: "distinct (map fst h) \<Longrightarrow> distinct (map fst (hset h f v))"
  by (auto simp: hset_def distinct_map_filter)

lemma map_of_hset: "map_of (hset h f v) = (map_of h)(f \<mapsto> v)"
  by (auto simp: hset_def fun_eq_iff map_of_filter_ne)

lemma mem_ks_dom: "mem_ks s k \<noteq> None \<longleftrightarrow> k \<in> fst ` set s"
proof -
  have "mem_ks s k = None \<longleftrightarrow> map_of s k = None"
    by (simp add: mem_ks_def mget_def split: option.splits cell.splits)
  then show ?thesis by (simp add: map_of_eq_None_iff)
qed

lemma on_zset_view:
  assumes "zset_at (mem_ks s) k = Some l" "f l = (r, l')" "zset_ok l'"
  shows "fst (on_zset s k f) = r" "mem_ks (snd (on_zset s k f)) = (mem_ks s)(k := zval l')"
  using assms by (simp_all add: on_zset_def mem_zset_view mem_ks_zset)

lemma of_zset_view: "zset_at (mem_ks s) k = Some l \<Longrightarrow> of_zset s k f = (f l, s)"
  by (simp add: of_zset_def mem_zset_view)

interpretation mem_docs: redis_docs mem_redis mem_ks
proof (unfold_locales, goal_cases)
  case (1 s k l)
  then show ?case by (auto simp: mem_ks_def mget_def split: option.splits cell.splits if_splits)
next
  case (2 s k l mode v m)
  then show ?case using mem_zset_ok mem_zset_view zset_ok_zadd
    by (simp add: mem_redis_def on_zset_view [OF 2 refl])
next
  case (3 s k l mode v m)
  then show ?case using mem_zset_ok mem_zset_view zset_ok_zadd
    by (simp add: mem_redis_def on_zset_view [OF 3 refl])
next
  case (4 s k l new m d)
  then have "zset_ok (zput l m new)" by (metis mem_zset_ok mem_zset_view zset_ok_zput)
  with 4 show ?case by (simp add: mem_redis_def Let_def on_zset_view(1) [OF 4(1), where r = "Reply new" and l' = "zput l m new"])
next
  case (5 s k l new m d)
  then have "zset_ok (zput l m new)" by (metis mem_zset_ok mem_zset_view zset_ok_zput)
  with 5 show ?case by (simp add: mem_redis_def Let_def on_zset_view(2) [OF 5(1), where r = "Reply new" and l' = "zput l m new"])
next
  case (14 s k l m)
  then have "zset_ok (zdel l m)" by (metis mem_zset_ok mem_zset_view zset_ok_zdel)
  then show ?case by (simp add: mem_redis_def on_zset_view(1) [OF 14 refl])
next
  case (15 s k l m)
  then have "zset_ok (zdel l m)" by (metis mem_zset_ok mem_zset_view zset_ok_zdel)
  then show ?case by (simp add: mem_redis_def on_zset_view(2) [OF 15 refl])
next
  case (16 s k h f n d)
  then obtain xs where "mem_hash s k = Some xs" "map_of xs = h" by (elim mem_hash_viewD)
  with 16 show ?case by (simp add: mem_redis_def)
next
  case (17 s k h f n d)
  then obtain xs where "mem_hash s k = Some xs" "map_of xs = h" "distinct (map fst xs)" by (elim mem_hash_viewD)
  with 17 show ?case by (simp add: mem_redis_def mem_ks_hash distinct_hset map_of_hset)
next
  case (18 s k h)
  then obtain xs where "mem_hash s k = Some xs" "map_of xs = h" "distinct (map fst xs)" by (elim mem_hash_viewD)
  then show ?case by (auto simp: mem_redis_def)
next
  case (19 keys s)
  show ?case by (simp add: mem_redis_def)
next
  case (20 keys s)
  show ?case by (simp add: mem_redis_def fun_eq_iff mem_ks_def mget_def map_of_filter_notin)
next
  case (21 pat cnt s)
  define ms where "ms = filter (glob pat) (remdups (map fst s))"
  define h where "h = length ms div 2"
  have "scan_chain (\<lambda>c. SCAN mem_redis c pat cnt s) s 0 [(take h ms, 1), (drop h ms, 0)]"
    by (simp add: mem_redis_def Let_def ms_def h_def)
  moreover have "set ms = {k. mem_ks s k \<noteq> None \<and> glob pat k}"
    unfolding mem_ks_dom by (auto simp: ms_def)
  ultimately show ?case by (intro exI [of _ "[(take h ms, 1), (drop h ms, 0)]"]) simp
next
  case (22 k ttl s)
  show ?case by (simp add: mem_redis_def)
next
  case (23 k ttl s)
  show ?case by (simp add: mem_redis_def)
qed (simp_all add: mem_redis_def of_zset_view)

end
