(* ===== verification/Histogram.thy ===== *)
theory Histogram
  imports Score Redis
begin

text \<open>
  The approximate-rank tier, \<open>pkg/engine/histogram.go\<close>: a hash with one counter per bucket of
  equal score width, kept by \<open>HINCRBY\<close>.
\<close>

record Histogram =
  hkey :: string
  hmin :: rat
  hmax :: rat
  hbuckets :: int

definition NewHistogram :: "BoardKey \<Rightarrow> rat \<Rightarrow> rat \<Rightarrow> int \<Rightarrow> Histogram" where
  "NewHistogram b mn mx n =
     (let n = (if n < 1 then 1 else n) in \<lparr>hkey = hKey b, hmin = mn, hmax = mx, hbuckets = n\<rparr>)"

definition boardHistogram :: "Board \<Rightarrow> Histogram" where
  "boardHistogram b = (let cfg = withDefaults (Config b)
     in NewHistogram (Key b) (ApproxMin cfg) (ApproxMax cfg) (ApproxBuckets cfg))"

definition bucketIndex :: "(f64 \<Rightarrow> int) \<Rightarrow> Histogram \<Rightarrow> rat \<Rightarrow> int" where
  "bucketIndex oor h score =
     (if score \<le> hmin h then 0
      else if hmax h \<le> score then hbuckets h - 1
      else let frac = f64_div (f64_sub score (hmin h)) (f64_sub (hmax h) (hmin h));
               idx = f64_to_int64 oor (f64_mul frac (Fin (fl64 (of_int (hbuckets h)))))
           in if hbuckets h \<le> idx then hbuckets h - 1 else idx)"

definition hist_add :: "'s env \<Rightarrow> Histogram \<Rightarrow> rat \<Rightarrow> int \<Rightarrow> ('s, unit) io" where
  "hist_add R h score delta =
     io_bind (io_cmd (HINCRBY R (hkey h) (itoa (bucketIndex (cvt_oor R) h score)) delta)) (\<lambda>_. io_ret ())"

definition hist_Add :: "'s env \<Rightarrow> Histogram \<Rightarrow> rat \<Rightarrow> ('s, unit) io" where
  "hist_Add R h score = hist_add R h score 1"

definition hist_Remove :: "'s env \<Rightarrow> Histogram \<Rightarrow> rat \<Rightarrow> ('s, unit) io" where
  "hist_Remove R h score = hist_add R h score (- 1)"

text \<open>One field of the \<open>HGETALL\<close> map goes into its slot, unless it is no bucket number.\<close>

definition count_field :: "Histogram \<Rightarrow> int list \<Rightarrow> string \<times> string \<Rightarrow> int list" where
  "count_field h counts fv = (case atoi (fst fv) of None \<Rightarrow> counts
     | Some idx \<Rightarrow> if idx < 0 \<or> hbuckets h \<le> idx then counts
         else counts[nat idx := parse_int64 (snd fv)])"

definition countsFrom :: "Histogram \<Rightarrow> (string \<times> string) list \<Rightarrow> err + int list" where
  "countsFrom h all = (if \<not> make_ok 8 (hbuckets h) then Inl Panic
     else Inr (foldl (count_field h) (replicate (nat (hbuckets h)) 0) all))"

definition hist_counts :: "'s env \<Rightarrow> Histogram \<Rightarrow> ('s, int list) io" where
  "hist_counts R h = io_bind (io_cmd (HGETALL R (hkey h))) (\<lambda>all. io_lift (countsFrom h all))"

text \<open>
  The loop from \<open>idx + 1\<close> indexes the slice and panics below 0; the loop up to \<open>idx\<close> starts
  at 0 (\<open>idx\<close> is below the number of buckets).
\<close>

definition ApproxRankDesc :: "'s env \<Rightarrow> Histogram \<Rightarrow> rat \<Rightarrow> ('s, int) io" where
  "ApproxRankDesc R h score = io_bind (hist_counts R h) (\<lambda>counts.
     let idx = bucketIndex (cvt_oor R) h score in
     if wrap64 (idx + 1) < 0 then io_fail Panic
     else io_ret (wrap64 (sum64 (drop (nat (wrap64 (idx + 1))) counts) + 1)))"

definition ApproxRankAsc :: "'s env \<Rightarrow> Histogram \<Rightarrow> rat \<Rightarrow> ('s, int) io" where
  "ApproxRankAsc R h score = io_bind (hist_counts R h) (\<lambda>counts.
     let idx = bucketIndex (cvt_oor R) h score
     in io_ret (wrap64 (sum64 (take (nat idx) counts) + 1)))"

definition approxRankFromCounts :: "int list \<Rightarrow> int \<Rightarrow> bool \<Rightarrow> err + int" where
  "approxRankFromCounts counts idx asc =
     (if asc then Inr (wrap64 (sum64 (take (nat idx) counts) + 1))
      else if wrap64 (idx + 1) < 0 \<and> wrap64 (idx + 1) < int (length counts) then Inl Panic
      else Inr (wrap64 (sum64 (drop (nat (wrap64 (idx + 1))) counts) + 1)))"

subsection \<open>Buckets\<close>

text \<open>
  A histogram whose range and width are finite numbers: what a valid approximate board has
  unless its bounds are more than \<open>2 ^ 1023\<close> apart.
\<close>

definition hist_sane :: "Histogram \<Rightarrow> bool" where
  "hist_sane h \<longleftrightarrow> hmin h < hmax h \<and> 1 \<le> hbuckets h \<and> hbuckets h < 2 ^ 53 \<and>
     hmax h - hmin h < 2 ^ 1023 \<and> 0 < fl64 (hmax h - hmin h)"

lemma f64_of_fin: "0 \<le> x \<Longrightarrow> x \<le> y \<Longrightarrow> fl64 y = y \<Longrightarrow> y < 2 ^ 1024 \<Longrightarrow> f64_of x = Fin (fl64 x)"
  using fl64_mono [of x y] fl64_nonneg [of x] by (simp add: f64_of_def Let_def)

lemma fl64_pow2_1023: "fl64 (2 ^ 1023) = 2 ^ 1023"
proof -
  have "pow2 1023 = 2 ^ 1023" unfolding pow2_def by simp
  with fl64_pow2 [of 1023] show ?thesis by simp
qed

lemma fl64_1: "fl64 1 = 1"
  using fl64_of_int [of 1] by simp

lemma bucketIndex_mid:
  assumes "hist_sane h" "hmin h < score" "score < hmax h"
  defines "raw \<equiv> fl64 (fl64 (fl64 (score - hmin h) / fl64 (hmax h - hmin h)) * of_int (hbuckets h))"
  shows "bucketIndex oor h score = min (hbuckets h - 1) \<lfloor>raw\<rfloor>" "0 \<le> raw" "raw \<le> of_int (hbuckets h)"
proof -
  define n where "n = hbuckets h"
  define w where "w = fl64 (hmax h - hmin h)"
  define a where "a = fl64 (score - hmin h)"
  define q where "q = fl64 (a / w)"
  have n: "1 \<le> n" "n < 2 ^ 53" "fl64 (of_int n) = of_int n"
    using assms(1) by (auto simp: hist_sane_def n_def intro!: fl64_of_int)
  have wpos: "0 < w" and width: "hmax h - hmin h < 2 ^ 1023"
    using assms(1) by (auto simp: hist_sane_def w_def)
  have w: "f64_sub (hmax h) (hmin h) = Fin w"
    unfolding f64_sub_def w_def using assms width
    by (intro f64_of_fin [where y = "2 ^ 1023"] fl64_pow2_1023) (auto simp: hist_sane_def)
  have a: "f64_sub score (hmin h) = Fin a"
    unfolding f64_sub_def a_def using assms width
    by (intro f64_of_fin [where y = "2 ^ 1023"] fl64_pow2_1023) auto
  have a0: "0 \<le> a" "a \<le> w"
    unfolding a_def w_def using assms by (auto intro!: fl64_nonneg fl64_mono)
  then have aw: "0 \<le> a / w" "a / w \<le> 1" using wpos by (auto simp: field_simps)
  have q: "f64_div (Fin a) (Fin w) = Fin q"
    unfolding q_def using wpos aw by (simp add: f64_of_fin [where y = 1] fl64_1)
  have q0: "0 \<le> q" "q \<le> 1"
    unfolding q_def using aw fl64_mono [of "a / w" 1] by (auto intro: fl64_nonneg simp: fl64_1)
  then have qn: "0 \<le> q * of_int n" "q * of_int n \<le> of_int n"
    using n by (auto simp: mult_le_cancel_right1)
  have raw: "raw = fl64 (q * of_int n)" by (simp add: raw_def q_def a_def w_def n_def)
  have nlt: "(of_int n :: rat) < 2 ^ 1024"
  proof -
    have "(of_int n :: rat) < of_int (2 ^ 53)" using n(2) by (simp only: of_int_less_iff)
    also have "\<dots> < 2 ^ 1024" by simp
    finally show ?thesis .
  qed
  have m: "f64_mul (Fin q) (Fin (fl64 (of_int n))) = Fin raw"
    unfolding raw using qn n(3) nlt by (simp add: f64_of_fin [where y = "of_int n"])
  show r0: "0 \<le> raw" unfolding raw using qn by (intro fl64_nonneg)
  show r1: "raw \<le> of_int (hbuckets h)"
    unfolding raw using fl64_mono [OF qn(2)] n(3) by (simp add: n_def)
  have "0 \<le> \<lfloor>raw\<rfloor>" "\<lfloor>raw\<rfloor> \<le> n" using r0 r1 by (auto simp: floor_le_iff n_def)
  then have "int64 \<lfloor>raw\<rfloor>" using n(2) by (rule int64_small)
  moreover have "trunc raw = \<lfloor>raw\<rfloor>" using r0 by (simp only: trunc_def) simp
  ultimately have "f64_to_int64 oor (Fin raw) = \<lfloor>raw\<rfloor>" by (simp only: f64_to_int64.simps) simp
  then show "bucketIndex oor h score = min (hbuckets h - 1) \<lfloor>raw\<rfloor>"
    using assms(2,3)
    by (simp only: bucketIndex_def w a q m [unfolded n_def] Let_def) (simp add: min_def)
qed

lemma bucketIndex_range:
  assumes "hist_sane h"
  shows "0 \<le> bucketIndex oor h x" "bucketIndex oor h x \<le> hbuckets h - 1"
proof -
  have n: "1 \<le> hbuckets h" "hmin h < hmax h" using assms by (auto simp: hist_sane_def)
  have "0 \<le> bucketIndex oor h x \<and> bucketIndex oor h x \<le> hbuckets h - 1"
  proof (cases "x \<le> hmin h \<or> hmax h \<le> x")
    case True
    then show ?thesis using n by (auto simp: bucketIndex_def)
  next
    case False
    with bucketIndex_mid [OF assms, of x] show ?thesis using n by auto
  qed
  then show "0 \<le> bucketIndex oor h x" "bucketIndex oor h x \<le> hbuckets h - 1" by auto
qed

text \<open>A higher score never falls into a lower bucket, rounding included.\<close>

lemma bucketIndex_mono:
  assumes "hist_sane h" "x \<le> y"
  shows "bucketIndex oor h x \<le> bucketIndex oor h y"
proof -
  note rx = bucketIndex_range [OF assms(1), of oor x] and ry = bucketIndex_range [OF assms(1), of oor y]
  consider "x \<le> hmin h" | "hmax h \<le> y" "hmin h < x" | "hmin h < x" "y < hmax h" by linarith
  then show ?thesis
  proof cases
    case 1
    then show ?thesis using ry by (simp add: bucketIndex_def)
  next
    case 2
    then have "bucketIndex oor h y = hbuckets h - 1" using assms by (simp add: bucketIndex_def)
    then show ?thesis using rx by simp
  next
    case 3
    define w where "w = fl64 (hmax h - hmin h)"
    have w: "0 < w" and n: "0 \<le> hbuckets h" using assms(1) by (auto simp: hist_sane_def w_def)
    have "fl64 (x - hmin h) / w \<le> fl64 (y - hmin h) / w"
      using assms(2) w by (intro divide_right_mono fl64_mono) auto
    then have "fl64 (fl64 (fl64 (x - hmin h) / w) * of_int (hbuckets h)) \<le>
        fl64 (fl64 (fl64 (y - hmin h) / w) * of_int (hbuckets h))"
      using n by (intro fl64_mono mult_right_mono) auto
    then show ?thesis
      using bucketIndex_mid(1) [OF assms(1), of x oor] bucketIndex_mid(1) [OF assms(1), of y oor] 3 assms(2)
      by (simp add: w_def floor_mono min.coboundedI2)
  qed
qed

subsection \<open>Reading the counters\<close>

lemma length_count_fields [simp]: "length (foldl (count_field h) cs xs) = length cs"
  by (induction xs arbitrary: cs) (auto simp: count_field_def split: option.splits)

text \<open>Fields are distinct and written by \<open>strconv.Itoa\<close>: each slot gets its own field.\<close>

lemma count_fields_nth:
  assumes "distinct (map fst xs)" "fst ` set xs \<subseteq> itoa ` {0..<hbuckets h}" "hbuckets h < 2 ^ 63"
    "i < length cs" "length cs = nat (hbuckets h)"
  shows "foldl (count_field h) cs xs ! i =
    (case map_of xs (itoa (int i)) of None \<Rightarrow> cs ! i | Some v \<Rightarrow> parse_int64 v)"
  using assms
proof (induction xs arbitrary: cs)
  case (Cons fv xs)
  obtain f v where fv: "fv = (f, v)" by (cases fv)
  from Cons.prems(2) fv obtain j where j: "f = itoa j" "0 \<le> j" "j < hbuckets h" by auto
  have "atoi f = Some j" using j Cons.prems(3) by (simp add: atoi_itoa)
  then have cf: "count_field h cs fv = cs[nat j := parse_int64 v]"
    using j by (simp add: count_field_def fv)
  have ih: "foldl (count_field h) (cs[nat j := parse_int64 v]) xs ! i =
      (case map_of xs (itoa (int i)) of None \<Rightarrow> cs[nat j := parse_int64 v] ! i | Some v \<Rightarrow> parse_int64 v)"
    using Cons.prems by (intro Cons.IH) auto
  show ?case
  proof (cases "int i = j")
    case True
    with Cons.prems(1) fv j have "map_of xs (itoa (int i)) = None"
      by (auto simp: map_of_eq_None_iff)
    with ih cf True fv j Cons.prems(4) show ?thesis by auto
  next
    case False
    then have "itoa (int i) \<noteq> f" using itoa_inject j by blast
    with ih cf False fv j show ?thesis by (auto split: option.splits)
  qed
qed simp

end
