(* ===== verification/Redis_Engine.thy ===== *)
theory Redis_Engine
  imports Histogram
begin

text \<open>
  The sorted-set engine, \<open>pkg/engine/redis_engine.go\<close>: the operations of \<open>RedisEngine\<close> over
  the commands of \<open>'s env\<close>, every pipeline as the sequence of its commands, every early return
  as a branch. Positions and counts that the cardinality of a set bounds are not reduced to 64
  bits; sums that a caller's argument can drive out of range are.
\<close>

subsection \<open>Writes\<close>

text \<open>The futures of one queued submission, resolved: \<open>None\<close> is a nil pointer.\<close>

record submitCmds =
  policy :: string
  codec :: BoardConfig
  ch :: "int reply option"
  score_cmd :: "rat reply option"
  inc :: "rat reply option"
  pre :: "rat reply option"

definition newScoreCodec :: "BoardConfig \<Rightarrow> BoardConfig" where
  "newScoreCodec cfg = withDefaults cfg"

definition sc_result :: "(f64 \<Rightarrow> int) \<Rightarrow> submitCmds \<Rightarrow> err + SubmitResult" where
  "sc_result oor sc =
     (if policy sc = UpdateIncrement then
        (case inc sc of None \<Rightarrow> Inl Panic
         | Some r \<Rightarrow> (case result_of r of Inl e \<Rightarrow> Inl e | Inr v \<Rightarrow> Inr \<lparr>Updated = True, NewScore = v\<rparr>))
      else
        (case ch sc of None \<Rightarrow> Inl Panic
         | Some c \<Rightarrow> (case result_of c of Inl e \<Rightarrow> Inl e
             | Inr changed \<Rightarrow> (case score_cmd sc of None \<Rightarrow> Inl Panic
                 | Some q \<Rightarrow> (case result_of q of Inl e \<Rightarrow> Inl e
                     | Inr cur \<Rightarrow> Inr \<lparr>Updated = 0 < changed, NewScore = decode oor (codec sc) cur\<rparr>)))))"

definition queueSubmit :: "'s env \<Rightarrow> SubmitOp \<Rightarrow> rat \<Rightarrow> 's \<Rightarrow> submitCmds \<times> 's" where
  "queueSubmit R op enc s =
     (let cfg = withDefaults (Config (OpBoard op));
          key = zKey (Key (OpBoard op));
          sc = \<lparr>policy = UpdatePolicy cfg, codec = newScoreCodec cfg, ch = None, score_cmd = None,
                inc = None, pre = None\<rparr>
      in case (if ApproxRank cfg
               then (case ZSCORE R key (OpMember op) s of (r, s1) \<Rightarrow> (sc\<lparr>pre := Some r\<rparr>, s1))
               else (sc, s)) of (sc, s1) \<Rightarrow>
        if UpdatePolicy cfg = UpdateIncrement
        then (case ZINCRBY R key (OpScore op) (OpMember op) s1 of (r, s2) \<Rightarrow> (sc\<lparr>inc := Some r\<rparr>, s2))
        else (let mode = (if UpdatePolicy cfg = UpdateBest
                          then if SortOrder cfg = SortAsc then ZLT else ZGT else ZAlways)
              in case ZADD R key mode enc (OpMember op) s1 of (c, s2) \<Rightarrow>
                 case ZSCORE R key (OpMember op) s2 of (q, s3) \<Rightarrow>
                   (sc\<lparr>ch := Some c, score_cmd := Some q\<rparr>, s3)))"

text \<open>The errors of the commands of a submission in the order they were queued.\<close>

definition opt_err :: "'a reply option \<Rightarrow> err option list" where
  "opt_err r = (case r of None \<Rightarrow> [] | Some x \<Rightarrow> [reply_err x])"

definition cmd_errs :: "submitCmds \<Rightarrow> err option list" where
  "cmd_errs sc = opt_err (pre sc) @ opt_err (inc sc) @ opt_err (ch sc) @ opt_err (score_cmd sc)"

text \<open>Validation and encoding of all operations, before anything is sent.\<close>

fun prepare :: "(f64 \<Rightarrow> int) \<Rightarrow> SubmitOp list \<Rightarrow> err + rat list" where
  "prepare oor [] = Inr []"
| "prepare oor (op # ops) =
     (case board_validate (OpBoard op) of Inl e \<Rightarrow> Inl e
      | Inr _ \<Rightarrow>
          (let cfg = withDefaults (Config (OpBoard op)) in
           case encode oor (newScoreCodec cfg) (OpScore op) (OpTime op) of Inl e \<Rightarrow> Inl e
           | Inr enc \<Rightarrow> (case prepare oor ops of Inl e \<Rightarrow> Inl e | Inr encs \<Rightarrow> Inr (enc # encs))))"

fun all_results :: "(err + 'a) list \<Rightarrow> err + 'a list" where
  "all_results [] = Inr []"
| "all_results (r # rs) = (case r of Inl e \<Rightarrow> Inl e
     | Inr x \<Rightarrow> (case all_results rs of Inl e \<Rightarrow> Inl e | Inr xs \<Rightarrow> Inr (x # xs)))"

text \<open>The increments queued by \<open>maintainHistograms\<close>: histogram, score, delta.\<close>

fun hist_deltas :: "(f64 \<Rightarrow> int) \<Rightarrow> (SubmitOp \<times> submitCmds \<times> SubmitResult) list \<Rightarrow> err + (Histogram \<times> rat \<times> int) list" where
  "hist_deltas oor [] = Inr []"
| "hist_deltas oor ((op, sc, res) # rest) =
     (case pre sc of None \<Rightarrow> hist_deltas oor rest
      | Some r \<Rightarrow>
          (let h = boardHistogram (OpBoard op); newPrimary = NewScore res in
           case result_of r of
             Inl e \<Rightarrow> if e = RedisNil
               then (case hist_deltas oor rest of Inl e' \<Rightarrow> Inl e' | Inr ds \<Rightarrow> Inr ((h, newPrimary, 1) # ds))
               else Inl e
           | Inr prev \<Rightarrow>
               (let oldPrimary = decode oor (codec sc) prev in
                if oldPrimary = newPrimary then hist_deltas oor rest
                else (case hist_deltas oor rest of Inl e' \<Rightarrow> Inl e'
                  | Inr ds \<Rightarrow> Inr ((h, oldPrimary, -1) # (h, newPrimary, 1) # ds)))))"

definition queueDelta :: "'s env \<Rightarrow> Histogram \<times> rat \<times> int \<Rightarrow> 's \<Rightarrow> int reply \<times> 's" where
  "queueDelta R d = (case d of (h, score, delta) \<Rightarrow>
     HINCRBY R (hkey h) (itoa (bucketIndex (cvt_oor R) h score)) delta)"

definition maintainHistograms ::
  "'s env \<Rightarrow> SubmitOp list \<Rightarrow> submitCmds list \<Rightarrow> SubmitResult list \<Rightarrow> ('s, unit) io" where
  "maintainHistograms R ops cmds results =
     io_bind (io_lift (hist_deltas (cvt_oor R) (zip ops (zip cmds results)))) (\<lambda>ds.
       if ds = [] then io_ret ()
       else (\<lambda>s. case pipe_run (queueDelta R) ds s of (rs, s') \<Rightarrow>
               (case first_err (map reply_err rs) of Some e \<Rightarrow> (Inl e, s') | None \<Rightarrow> (Inr (), s'))))"

definition SubmitBatch :: "'s env \<Rightarrow> SubmitOp list \<Rightarrow> ('s, SubmitResult list) io" where
  "SubmitBatch R ops =
     (if ops = [] then io_ret []
      else io_bind (io_lift (prepare (cvt_oor R) ops)) (\<lambda>encs s.
        case pipe_run (\<lambda>(op, enc). queueSubmit R op enc) (zip ops encs) s of (cmds, s1) \<Rightarrow>
        case exec_failed (concat (map cmd_errs cmds)) of Some e \<Rightarrow> (Inl e, s1)
        | None \<Rightarrow>
            (io_bind (io_lift (all_results (map (sc_result (cvt_oor R)) cmds))) (\<lambda>results.
             io_bind (maintainHistograms R ops cmds results) (\<lambda>_. io_ret results))) s1))"

definition Submit :: "'s env \<Rightarrow> Board \<Rightarrow> string \<Rightarrow> rat \<Rightarrow> gotime \<Rightarrow> ('s, SubmitResult) io" where
  "Submit R b member score t =
     io_bind (SubmitBatch R [\<lparr>OpBoard = b, OpMember = member, OpScore = score, OpTime = t\<rparr>])
       (\<lambda>res. case res of r # _ \<Rightarrow> io_ret r | [] \<Rightarrow> io_fail Panic)"

subsection \<open>Reads\<close>

definition GetRank :: "'s env \<Rightarrow> Board \<Rightarrow> string \<Rightarrow> ('s, RankEntry) io" where
  "GetRank R b member =
     io_bind (io_lift (board_validate b)) (\<lambda>_ s.
       let cfg = withDefaults (Config b); key = zKey (Key b) in
       case (if SortOrder cfg = SortAsc then ZRANK R key member s else ZREVRANK R key member s) of (rk, s1) \<Rightarrow>
       case ZSCORE R key member s1 of (sc, s2) \<Rightarrow>
       case exec_failed [reply_err rk, reply_err sc] of Some e \<Rightarrow> (Inl e, s2)
       | None \<Rightarrow>
         (case rk of NilReply \<Rightarrow> (Inl ErrMemberNotFound, s2) | ErrReply m \<Rightarrow> (Inl (RedisErr m), s2)
          | Reply rank \<Rightarrow>
            (case sc of NilReply \<Rightarrow> (Inl ErrMemberNotFound, s2) | ErrReply m \<Rightarrow> (Inl (RedisErr m), s2)
             | Reply v \<Rightarrow> (Inr \<lparr>Member = member, Score = decode (cvt_oor R) (newScoreCodec cfg) v,
                               Rank = rank + 1, Exact = True, Nickname = ''''\<rparr>, s2))))"

definition GetApproxRank :: "'s env \<Rightarrow> Board \<Rightarrow> string \<Rightarrow> ('s, RankEntry) io" where
  "GetApproxRank R b member =
     io_bind (io_lift (board_validate b)) (\<lambda>_.
       let cfg = withDefaults (Config b) in
       if \<not> ApproxRank cfg then io_fail ErrApproxDisabled
       else io_bind (io_catch_nil (io_cmd (ZSCORE R (zKey (Key b)) member)) (io_fail ErrMemberNotFound)) (\<lambda>stored.
         let primary = decode (cvt_oor R) (newScoreCodec cfg) stored; h = boardHistogram b in
         io_bind (if SortOrder cfg = SortAsc then ApproxRankAsc R h primary else ApproxRankDesc R h primary) (\<lambda>rank.
         io_ret \<lparr>Member = member, Score = primary, Rank = rank, Exact = False, Nickname = ''''\<rparr>)))"

text \<open>Entries for a slice of the ranking that starts at position \<open>start\<close>.\<close>

definition rank_entries :: "(rat \<Rightarrow> rat) \<Rightarrow> int \<Rightarrow> zset \<Rightarrow> RankEntry list" where
  "rank_entries dec start zs =
     map (\<lambda>(i, (v, m)). \<lparr>Member = m, Score = dec v, Rank = start + int i + 1, Exact = True, Nickname = ''''\<rparr>)
       (enumerate 0 zs)"

definition rangeByRank :: "'s env \<Rightarrow> Board \<Rightarrow> int \<Rightarrow> int \<Rightarrow> ('s, RankEntry list) io" where
  "rangeByRank R b start stop =
     io_bind (io_lift (board_validate b)) (\<lambda>_.
       if stop < start then io_ret []
       else let cfg = withDefaults (Config b); key = zKey (Key b) in
         io_bind (io_cmd (if SortOrder cfg = SortAsc then ZRANGE R key start stop else ZREVRANGE R key start stop)) (\<lambda>zs.
         io_ret (rank_entries (decode (cvt_oor R) (newScoreCodec cfg)) start zs)))"

definition TopN :: "'s env \<Rightarrow> Board \<Rightarrow> int \<Rightarrow> ('s, RankEntry list) io" where
  "TopN R b n = (if n \<le> 0 then io_ret [] else rangeByRank R b 0 (n - 1))"

definition Page :: "'s env \<Rightarrow> Board \<Rightarrow> int \<Rightarrow> int \<Rightarrow> ('s, RankEntry list) io" where
  "Page R b offset limit =
     (if limit \<le> 0 \<or> offset < 0 then io_ret []
      else rangeByRank R b offset (wrap64 (wrap64 (offset + limit) - 1)))"

definition Neighbors :: "'s env \<Rightarrow> Board \<Rightarrow> string \<Rightarrow> int \<Rightarrow> ('s, RankEntry list) io" where
  "Neighbors R b member k =
     io_bind (io_lift (board_validate b)) (\<lambda>_.
       let k = (if k < 0 then 0 else k); cfg = withDefaults (Config b); key = zKey (Key b) in
       io_bind (io_catch_nil
           (io_cmd (if SortOrder cfg = SortAsc then ZRANK R key member else ZREVRANK R key member))
           (io_fail ErrMemberNotFound)) (\<lambda>rank.
       let start = rank - k; start = (if start < 0 then 0 else start) in
       rangeByRank R b start (wrap64 (rank + k))))"

text \<open>The comparison closure of \<open>FriendRank\<close> on pairs of stored score and member.\<close>

definition friend_less :: "bool \<Rightarrow> rat \<times> string \<Rightarrow> rat \<times> string \<Rightarrow> bool" where
  "friend_less asc x y =
     (if fst x \<noteq> fst y then (if asc then fst x < fst y else fst y < fst x)
      else if asc then snd x < snd y else snd y < snd x)"

text \<open>The replies of the \<open>ZSCORE\<close> commands: absent members are skipped, an error ends the loop.\<close>

fun collect_found :: "string list \<Rightarrow> rat reply list \<Rightarrow> err + zset" where
  "collect_found (m # ms) (r # rs) =
     (case result_of r of
        Inl e \<Rightarrow> if e = RedisNil then collect_found ms rs else Inl e
      | Inr v \<Rightarrow> (case collect_found ms rs of Inl e \<Rightarrow> Inl e | Inr l \<Rightarrow> Inr ((v, m) # l)))"
| "collect_found _ _ = Inr []"

definition FriendRank :: "'s env \<Rightarrow> Board \<Rightarrow> string list \<Rightarrow> ('s, RankEntry list) io" where
  "FriendRank R b members =
     io_bind (io_lift (board_validate b)) (\<lambda>_.
       if members = [] then io_ret []
       else let cfg = withDefaults (Config b); key = zKey (Key b) in (\<lambda>s.
         case pipe_run (ZSCORE R key) members s of (rs, s1) \<Rightarrow>
         case exec_failed (map reply_err rs) of Some e \<Rightarrow> (Inl e, s1)
         | None \<Rightarrow>
           (io_bind (io_lift (collect_found members rs)) (\<lambda>found.
              let asc = (SortOrder cfg = SortAsc); found = go_sort (friend_less asc) found
              in io_ret (rank_entries (decode (cvt_oor R) (newScoreCodec cfg)) 0 found))) s1))"

definition Count :: "'s env \<Rightarrow> Board \<Rightarrow> ('s, int) io" where
  "Count R b = io_bind (io_lift (key_validate (Key b))) (\<lambda>_. io_cmd (ZCARD R (zKey (Key b))))"

subsection \<open>Removal\<close>

definition Remove :: "'s env \<Rightarrow> Board \<Rightarrow> string \<Rightarrow> ('s, unit) io" where
  "Remove R b member =
     io_bind (io_lift (key_validate (Key b))) (\<lambda>_.
       let cfg = withDefaults (Config b); key = zKey (Key b) in
       if \<not> ApproxRank cfg then io_bind (io_cmd (ZREM R key member)) (\<lambda>_. io_ret ())
       else (\<lambda>s.
         case ZSCORE R key member s of (sc, s1) \<Rightarrow>
         case ZREM R key member s1 of (rm, s2) \<Rightarrow>
         case exec_failed [reply_err sc, reply_err rm] of Some e \<Rightarrow> (Inl e, s2)
         | None \<Rightarrow>
           (case result_of rm of Inl e \<Rightarrow> (Inl e, s2)
            | Inr removed \<Rightarrow>
              if sc = NilReply \<or> removed = 0 then (Inr (), s2)
              else (case result_of sc of Inl e \<Rightarrow> (Inl e, s2)
                | Inr stored \<Rightarrow>
                    hist_Remove R (boardHistogram b) (decode (cvt_oor R) (newScoreCodec cfg) stored) s2))))"

text \<open>The escaped bytes: star, question mark, brackets, caret, backslash.\<close>

definition glob_special :: string where
  "glob_special = [CHR ''*'', CHR ''?'', CHR ''['', CHR '']'', CHR ''^'', CHR 0x5C]"

definition globEscape :: "string \<Rightarrow> string" where
  "globEscape s = concat (map (\<lambda>c. if c \<in> set glob_special then [CHR 0x5C, c] else [c]) s)"

text \<open>One raw key of a batch: the four components between the braces, if it has that shape.\<close>

definition parse_board_key :: "string \<Rightarrow> BoardKey option" where
  "parse_board_key raw =
     (let opn = index_byte raw CHR ''{''; cls = index_byte raw CHR ''}'' in
      if opn < 0 \<or> cls < opn then None
      else (case split_on CHR '':'' (slice raw (opn + 1) cls) of
              [a, b, c, d] \<Rightarrow> Some \<lparr>App = a, BoardName = b, Segment = c, Window = d\<rparr>
            | _ \<Rightarrow> None))"

fun scan_loop :: "nat \<Rightarrow> 's env \<Rightarrow> string \<Rightarrow> nat \<Rightarrow> BoardKey list \<Rightarrow> ('s, BoardKey list) io" where
  "scan_loop 0 R pattern cursor acc = io_fail OutOfFuel"
| "scan_loop (Suc fuel) R pattern cursor acc =
     io_bind (io_cmd (SCAN R cursor pattern 200)) (\<lambda>(batch, nxt).
       let acc = acc @ List.map_filter parse_board_key batch in
       if nxt = 0 then io_ret acc else scan_loop fuel R pattern nxt acc)"

definition scan_pattern :: "string \<Rightarrow> string \<Rightarrow> string" where
  "scan_pattern app board = ''lb:{'' @ globEscape app @ '':'' @ globEscape board @ '':*}:z''"

definition scanBoardKeys :: "nat \<Rightarrow> 's env \<Rightarrow> string \<Rightarrow> string \<Rightarrow> ('s, BoardKey list) io" where
  "scanBoardKeys fuel R app board = scan_loop fuel R (scan_pattern app board) 0 []"

definition RemoveFromAll :: "nat \<Rightarrow> 's env \<Rightarrow> LogicalBoard \<Rightarrow> string \<Rightarrow> ('s, unit) io" where
  "RemoveFromAll fuel R lb member =
     io_bind (scanBoardKeys fuel R (LApp lb) (LBoard lb)) (\<lambda>keys.
       io_each (\<lambda>k. Remove R \<lparr>Key = k, Config = LConfig lb\<rparr> member) keys)"

text \<open>The elements of a list in the order of their first occurrence.\<close>

definition dedup :: "'a list \<Rightarrow> 'a list" where
  "dedup xs = foldl (\<lambda>acc x. if x \<in> set acc then acc else acc @ [x]) [] xs"

definition Segments :: "nat \<Rightarrow> 's env \<Rightarrow> LogicalBoard \<Rightarrow> ('s, string list) io" where
  "Segments fuel R lb =
     io_bind (scanBoardKeys fuel R (LApp lb) (LBoard lb)) (\<lambda>keys.
       io_ret (go_sort (<) (dedup (map Segment keys))))"

definition Reset :: "'s env \<Rightarrow> Board \<Rightarrow> ('s, unit) io" where
  "Reset R b = io_bind (io_lift (key_validate (Key b))) (\<lambda>_.
     io_bind (io_cmd (DEL R [zKey (Key b), hKey (Key b), metaKey (Key b)])) (\<lambda>_. io_ret ()))"

end
