(* ===== verification/Engine_Reads.thy ===== *)
theory Engine_Reads
  imports Redis_Engine
begin

text \<open>
  What the read operations of the sorted-set engine return. The specification of a board is its
  \<open>standings\<close>: the list of all entries in ranking order, numbered from 1. Every read is shown to
  be a function of the standings, on the contract \<open>redis_docs\<close> of the server.
\<close>

subsection \<open>Standings\<close>

definition is_asc :: "Board \<Rightarrow> bool" where
  "is_asc b \<longleftrightarrow> SortOrder (withDefaults (Config b)) = SortAsc"

definition board_decode :: "(f64 \<Rightarrow> int) \<Rightarrow> Board \<Rightarrow> rat \<Rightarrow> rat" where
  "board_decode oor b = decode oor (newScoreCodec (withDefaults (Config b)))"

definition ranking :: "bool \<Rightarrow> zset \<Rightarrow> zset" where
  "ranking asc l = (if asc then l else rev l)"

definition standings :: "(f64 \<Rightarrow> int) \<Rightarrow> Board \<Rightarrow> zset \<Rightarrow> RankEntry list" where
  "standings oor b l = rank_entries (board_decode oor b) 0 (ranking (is_asc b) l)"

definition the_entry :: "string \<Rightarrow> RankEntry list \<Rightarrow> RankEntry option" where
  "the_entry m es = find (\<lambda>e. Member e = m) es"

lemma length_rank_entries [simp]: "length (rank_entries d i zs) = length zs"
  by (simp add: rank_entries_def)

lemma nth_rank_entries:
  "j < length zs \<Longrightarrow> rank_entries d i zs ! j =
     \<lparr>Member = snd (zs ! j), Score = d (fst (zs ! j)), Rank = i + int j + 1, Exact = True, Nickname = ''''\<rparr>"
  by (simp add: rank_entries_def nth_enumerate_eq split_beta)

lemma take_rank_entries: "take n (rank_entries d i zs) = rank_entries d i (take n zs)"
  by (intro nth_equalityI) (auto simp: nth_rank_entries)

lemma drop_rank_entries: "drop n (rank_entries d i zs) = rank_entries d (i + int n) (drop n zs)"
  by (intro nth_equalityI) (auto simp: nth_rank_entries)

lemma rank_entries_window: "0 \<le> a \<Longrightarrow> rank_entries d a (window a b zs) = window a b (rank_entries d 0 zs)"
  by (simp add: window_def take_rank_entries drop_rank_entries)

lemma map_Member_rank_entries [simp]: "map Member (rank_entries d i zs) = map snd zs"
  by (intro nth_equalityI) (auto simp: nth_rank_entries)

lemma length_ranking [simp]: "length (ranking asc l) = length l"
  by (simp add: ranking_def)

lemma set_ranking [simp]: "set (ranking asc l) = set l"
  by (simp add: ranking_def)

lemma distinct_ranking: "zset_ok l \<Longrightarrow> distinct (map snd (ranking asc l))"
  by (simp add: ranking_def zset_ok_def rev_map [symmetric])

lemma length_standings [simp]: "length (standings oor b l) = length l"
  by (simp add: standings_def)

lemma standings_Rank: "i < length l \<Longrightarrow> Rank (standings oor b l ! i) = int i + 1"
  by (simp add: standings_def nth_rank_entries)

lemma distinct_standings: "zset_ok l \<Longrightarrow> distinct (map Member (standings oor b l))"
  by (simp add: standings_def distinct_ranking)

lemma find_distinct:
  assumes "distinct (map f xs)" "i < length xs" "f (xs ! i) = m"
  shows "find (\<lambda>e. f e = m) xs = Some (xs ! i)"
  using assms
proof (induction xs arbitrary: i)
  case (Cons x xs)
  then show ?case by (cases i) (auto simp: image_iff)
qed simp

text \<open>The position of a member in the ranking: counted from the other end on a descending board.\<close>

lemma zpos_ranking:
  assumes "zset_ok l"
  shows "zpos (ranking asc l) m =
    (if asc then zpos l m else map_option (\<lambda>i. length l - 1 - i) (zpos l m))"
proof (cases "zpos l m")
  case None
  then have "m \<notin> snd ` set l" by (simp add: zpos_None_iff zget_None_iff)
  then have "zpos (ranking asc l) m = None" by (simp add: zpos_None_iff zget_None_iff)
  with None show ?thesis by simp
next
  case (Some i)
  then have i: "i < length l" "snd (l ! i) = m" by (auto dest: zpos_Some)
  have "zpos (rev l) (snd (rev l ! (length l - 1 - i))) = Some (length l - 1 - i)"
    using assms i by (intro zpos_nth) (auto simp: zset_ok_def rev_map [symmetric])
  moreover have "rev l ! (length l - 1 - i) = l ! i"
    using i by (subst rev_nth) auto
  ultimately have "zpos (rev l) m = Some (length l - 1 - i)" using i by simp
  with Some show ?thesis by (simp add: ranking_def)
qed

lemma the_entry_standings:
  assumes "zset_ok l"
  shows "the_entry m (standings oor b l) = map_option (\<lambda>i. standings oor b l ! i) (zpos (ranking (is_asc b) l) m)"
proof (cases "zpos (ranking (is_asc b) l) m")
  case None
  then have "m \<notin> snd ` set l" by (simp add: zpos_None_iff zget_None_iff)
  then have "m \<notin> set (map Member (standings oor b l))" by (simp add: standings_def)
  then have "find (\<lambda>e. Member e = m) (standings oor b l) = None" by (auto simp: find_None_iff)
  with None show ?thesis by (simp add: the_entry_def)
next
  case (Some i)
  then have i: "i < length l" "snd (ranking (is_asc b) l ! i) = m" by (auto dest: zpos_Some)
  have "find (\<lambda>e. Member e = m) (standings oor b l) = Some (standings oor b l ! i)"
    using distinct_standings [OF assms] i by (intro find_distinct) (auto simp: standings_def nth_rank_entries)
  with Some show ?thesis by (simp add: the_entry_def)
qed

subsection \<open>The comparison closure of the engine\<close>

text \<open>The closure is a strict total order, and the ranking of a well-formed set is its sorted list.\<close>

interpretation friend_order: go_less "friend_less asc"
  by unfold_locales (auto simp: friend_less_def split: if_splits intro: prod_eqI)

lemma ranking_sorted: "zset_ok l \<Longrightarrow> sorted_wrt (friend_less asc) (ranking asc l)"
proof -
  assume "zset_ok l"
  then have "sorted_wrt (<) l" by (simp add: zset_ok_def)
  moreover have "x < y \<Longrightarrow> friend_less True x y" "x < y \<Longrightarrow> friend_less False y x" for x y :: "rat \<times> string"
    by (auto simp: friend_less_def less_prod_def split: if_splits)
  ultimately show ?thesis
    by (auto simp: ranking_def sorted_wrt_rev elim!: sorted_wrt_mono_rel [rotated])
qed

lemma mset_ranking [simp]: "mset (ranking asc l) = mset l"
  by (simp add: ranking_def)

lemma go_sort_ranking: "zset_ok l \<Longrightarrow> mset xs = mset l \<Longrightarrow> go_sort (friend_less asc) xs = ranking asc l"
  by (rule friend_order.go_sort_unique) (auto intro: friend_order.strict_imp_leq ranking_sorted)

text \<open>A subset of the members ranked on its own is the ranking restricted to it.\<close>

lemma go_sort_filter_ranking:
  assumes "zset_ok l" "mset xs = mset (filter P l)"
  shows "go_sort (friend_less asc) xs = filter P (ranking asc l)"
  by (rule friend_order.go_sort_unique)
    (use assms in \<open>auto intro!: friend_order.strict_imp_leq sorted_wrt_filter ranking_sorted\<close>)

lemma collect_found_opt:
  "collect_found ms (map (\<lambda>m. opt_reply (zget l m)) ms) =
    Inr (List.map_filter (\<lambda>m. map_option (\<lambda>v. (v, m)) (zget l m)) ms)"
  by (induction ms) (auto simp: List.map_filter_simps opt_reply_def split: option.splits)

lemma mset_map_filter_zget:
  assumes "zset_ok l" "distinct ms"
  shows "mset (List.map_filter (\<lambda>m. map_option (\<lambda>v. (v, m)) (zget l m)) ms) =
    mset (filter (\<lambda>e. snd e \<in> set ms) l)"
proof -
  have d: "distinct l" "distinct (map snd l)" using assms(1) by (auto simp: zset_ok_def strict_sorted_iff distinct_map)
  define f where "f = (\<lambda>m. map_option (\<lambda>v. (v, m)) (zget l m))"
  have "set (List.map_filter f ms) = set (filter (\<lambda>e. snd e \<in> set ms) l)"
    by (auto simp: f_def set_map_filter zget_Some_iff [OF d(2)])
  moreover have "distinct (List.map_filter f ms)"
    using assms(2) by (auto simp: f_def List.map_filter_def distinct_map inj_on_def)
  ultimately show ?thesis using d(1) unfolding f_def [symmetric]
    by (metis distinct_filter set_eq_iff_mset_eq_distinct)
qed

subsection \<open>Reads on a server that keeps its contract\<close>

context redis_docs
begin

lemma rank_cmd:
  assumes "zset_at (ks s) k = Some l"
  shows "(if asc then ZRANK R k m s else ZREVRANK R k m s) = (opt_reply (map_option int (zpos (ranking asc l) m)), s)"
proof (cases "zpos l m")
  case None
  then show ?thesis using assms zset_at_ok [OF assms] by (simp add: ZRANK ZREVRANK zpos_ranking)
next
  case (Some i)
  then have "i < length l" by (auto dest: zpos_Some)
  then have "int (length l) - 1 - int i = int (length l - 1 - i)" by (simp add: of_nat_diff)
  with Some show ?thesis using assms zset_at_ok [OF assms] by (simp add: ZRANK ZREVRANK zpos_ranking)
qed

lemma zscore_ranking: "zset_at (ks s) k = Some l \<Longrightarrow> zpos (ranking asc l) m = Some i \<Longrightarrow>
    ZSCORE R k m s = (Reply (fst (ranking asc l ! i)), s)"
proof -
  assume l: "zset_at (ks s) k = Some l" and i: "zpos (ranking asc l) m = Some i"
  have "(fst (ranking asc l ! i), m) \<in> set l"
    using zpos_Some [OF i] nth_mem [of i "ranking asc l"] by (metis prod.collapse set_ranking)
  with zset_at_ok [OF l] have "zget l m = Some (fst (ranking asc l ! i))"
    by (simp add: zget_Some_iff zset_ok_def)
  with l show ?thesis by (simp add: ZSCORE)
qed

lemma zscore_absent: "zset_at (ks s) k = Some l \<Longrightarrow> zpos (ranking asc l) m = None \<Longrightarrow>
    ZSCORE R k m s = (NilReply, s)"
  by (simp add: ZSCORE zpos_None_iff opt_reply_def split: option.splits)
    (metis option.distinct(1) set_ranking zget_None_iff)

lemma GetRank_standings:
  assumes "board_validate b = Inr ()" "zset_at (ks s) (zKey (Key b)) = Some l"
  shows "GetRank R b m s = (case the_entry m (standings (cvt_oor R) b l) of
     None \<Rightarrow> (Inl ErrMemberNotFound, s) | Some e \<Rightarrow> (Inr e, s))"
proof -
  note rc = rank_cmd [OF assms(2), where asc = "is_asc b" and m = m, unfolded is_asc_def]
  show ?thesis
  proof (cases "zpos (ranking (is_asc b) l) m")
    case None
    with zscore_absent [OF assms(2) this] rc the_entry_standings [OF zset_at_ok [OF assms(2)]] assms(1)
    show ?thesis by (simp add: GetRank_def io_simps Let_def is_asc_def exec_failed_def)
  next
    case (Some i)
    then have "i < length l" "snd (ranking (is_asc b) l ! i) = m" by (auto dest: zpos_Some)
    then have "standings (cvt_oor R) b l ! i = \<lparr>Member = m,
        Score = board_decode (cvt_oor R) b (fst (ranking (is_asc b) l ! i)),
        Rank = int i + 1, Exact = True, Nickname = ''''\<rparr>"
      by (simp add: standings_def nth_rank_entries)
    with Some zscore_ranking [OF assms(2) Some] rc the_entry_standings [OF zset_at_ok [OF assms(2)]] assms(1)
    show ?thesis by (simp add: GetRank_def io_simps Let_def is_asc_def exec_failed_def board_decode_def)
  qed
qed

lemma rangeByRank_standings:
  assumes "board_validate b = Inr ()" "zset_at (ks s) (zKey (Key b)) = Some l" "0 \<le> start"
  shows "rangeByRank R b start stop s = (Inr (window start stop (standings (cvt_oor R) b l)), s)"
proof (cases "stop < start")
  case False
  have "io_cmd (if is_asc b then ZRANGE R (zKey (Key b)) start stop else ZREVRANGE R (zKey (Key b)) start stop) s =
      (Inr (window start stop (ranking (is_asc b) l)), s)"
    using False assms by (simp add: io_simps ranking_def ZRANGE ZREVRANGE)
  with False assms show ?thesis
    by (simp add: rangeByRank_def is_asc_def [symmetric] board_decode_def [symmetric] io_simps Let_def
        standings_def rank_entries_window)
qed (use assms in \<open>simp add: rangeByRank_def io_simps window_def\<close>)

lemma TopN_standings:
  assumes "board_validate b = Inr ()" "zset_at (ks s) (zKey (Key b)) = Some l"
  shows "TopN R b n s = (Inr (take (nat n) (standings (cvt_oor R) b l)), s)"
  using assms by (simp add: TopN_def rangeByRank_standings window_def io_simps)

lemma Page_standings:
  assumes "board_validate b = Inr ()" "zset_at (ks s) (zKey (Key b)) = Some l"
    "0 \<le> offset" "offset + limit < 2 ^ 63"
  shows "Page R b offset limit s =
    (Inr (take (nat limit) (drop (nat offset) (standings (cvt_oor R) b l))), s)"
proof (cases "limit \<le> 0")
  case False
  have "wrap64 (offset + limit) = offset + limit"
    using assms False by (intro wrap64_nonneg) auto
  moreover have "wrap64 (offset + limit - 1) = offset + limit - 1"
    using assms False by (intro wrap64_nonneg) auto
  ultimately show ?thesis
    using assms False by (simp add: Page_def rangeByRank_standings window_def)
qed (simp add: Page_def io_simps)

lemma Neighbors_standings:
  assumes "board_validate b = Inr ()" "zset_at (ks s) (zKey (Key b)) = Some l"
    "int (length l) + max 0 k < 2 ^ 63"
  shows "Neighbors R b m k s = (case the_entry m (standings (cvt_oor R) b l) of
     None \<Rightarrow> (Inl ErrMemberNotFound, s)
   | Some e \<Rightarrow> (Inr (window (max 0 (Rank e - 1 - max 0 k)) (Rank e - 1 + max 0 k) (standings (cvt_oor R) b l)), s))"
proof -
  note rc = rank_cmd [OF assms(2), where asc = "is_asc b" and m = m, unfolded is_asc_def]
  note te = the_entry_standings [OF zset_at_ok [OF assms(2)], of m "cvt_oor R" b]
  have if_app: "(if c then f else g) = (\<lambda>s. if c then f s else g s)" for c and f g :: "'s \<Rightarrow> int reply \<times> 's"
    by simp
  show ?thesis
  proof (cases "zpos (ranking (is_asc b) l) m")
    case None
    with rc te assms(1) show ?thesis
      by (simp add: Neighbors_def io_simps Let_def is_asc_def if_app)
  next
    case (Some i)
    then have i: "i < length l" by (auto dest: zpos_Some)
    define k' where "k' = max 0 k"
    have k': "(if k < 0 then 0 else k) = k'" by (simp add: k'_def)
    have "int i + k' < 2 ^ 63" "0 \<le> int i + k'" using i assms(3) by (auto simp: k'_def)
    then have w: "wrap64 (int i + k') = int i + k'" by (intro wrap64_nonneg) auto
    have st: "(if int i - k' < 0 then 0 else int i - k') = max 0 (int i - k')" by auto
    from Some rc assms(1,2) show ?thesis unfolding te
      by (simp add: Neighbors_def io_simps Let_def is_asc_def if_app k' w st rangeByRank_standings
          standings_Rank i k'_def [symmetric])
  qed
qed

lemma FriendRank_standings:
  assumes "board_validate b = Inr ()" "zset_at (ks s) (zKey (Key b)) = Some l" "distinct ms"
  shows "FriendRank R b ms s = (Inr (rank_entries (board_decode (cvt_oor R) b) 0
     (filter (\<lambda>e. snd e \<in> set ms) (ranking (is_asc b) l))), s)"
proof (cases "ms = []")
  case False
  note ok = zset_at_ok [OF assms(2)]
  have p: "pipe_run (ZSCORE R (zKey (Key b))) ms s = (map (\<lambda>m. opt_reply (zget l m)) ms, s)"
    using assms(2) by (intro pipe_run_readonly) (simp add: ZSCORE)
  have e: "exec_failed (map reply_err (map (\<lambda>m. opt_reply (zget l m)) ms)) = None"
    by (rule exec_failed_no_error) (auto simp: opt_reply_def split: option.splits)
  have g: "go_sort (friend_less (is_asc b)) (List.map_filter (\<lambda>m. map_option (\<lambda>v. (v, m)) (zget l m)) ms) =
      filter (\<lambda>e. snd e \<in> set ms) (ranking (is_asc b) l)"
    by (rule go_sort_filter_ranking [OF ok mset_map_filter_zget [OF ok assms(3)]])
  show ?thesis
    using False assms(1) e g
    by (simp add: FriendRank_def io_simps Let_def p collect_found_opt is_asc_def [symmetric]
        board_decode_def [symmetric])
qed (use assms in \<open>simp add: FriendRank_def io_simps rank_entries_def\<close>)

lemma Count_standings:
  assumes "key_validate (Key b) = Inr ()" "zset_at (ks s) (zKey (Key b)) = Some l"
  shows "Count R b s = (Inr (int (length l)), s)"
  using assms by (simp add: Count_def io_simps ZCARD)

end

end
