(* ===== verification/Engine_Writes.thy ===== *)
theory Engine_Writes
  imports Engine_Reads
begin

text \<open>
  What the writes of the sorted-set engine do. The specification of one submission is a function
  on the sorted set of its board (\<open>apply_submit\<close>); a batch is the sequence of its submissions
  on the keyspace (\<open>batch_spec\<close>). The engine is shown to refine it on the contract
  \<open>redis_docs\<close>, and to leave every other board alone.
\<close>

subsection \<open>Specification of a submission\<close>

definition zadd_mode_of :: "BoardConfig \<Rightarrow> zadd_mode" where
  "zadd_mode_of cfg = (if UpdatePolicy cfg = UpdateBest
     then if SortOrder cfg = SortAsc then ZLT else ZGT else ZAlways)"

definition increments :: "SubmitOp \<Rightarrow> bool" where
  "increments op \<longleftrightarrow> UpdatePolicy (withDefaults (Config (OpBoard op))) = UpdateIncrement"

definition approx_op :: "SubmitOp \<Rightarrow> bool" where
  "approx_op op \<longleftrightarrow> ApproxRank (withDefaults (Config (OpBoard op)))"

definition inc_value :: "SubmitOp \<Rightarrow> zset \<Rightarrow> rat" where
  "inc_value op l = fl64 ((case zget l (OpMember op) of None \<Rightarrow> 0 | Some old \<Rightarrow> old) + OpScore op)"

definition apply_submit :: "SubmitOp \<Rightarrow> rat \<Rightarrow> zset \<Rightarrow> zset" where
  "apply_submit op enc l =
     (if increments op then zput l (OpMember op) (inc_value op l)
      else zadd_result (zadd_mode_of (withDefaults (Config (OpBoard op)))) l (OpMember op) enc)"

definition submit_result :: "(f64 \<Rightarrow> int) \<Rightarrow> SubmitOp \<Rightarrow> rat \<Rightarrow> zset \<Rightarrow> SubmitResult" where
  "submit_result oor op enc l =
     (if increments op then \<lparr>Updated = True, NewScore = inc_value op l\<rparr>
      else \<lparr>Updated = 0 < zadd_changed (zadd_mode_of (withDefaults (Config (OpBoard op)))) l (OpMember op) enc,
            NewScore = board_decode oor (OpBoard op) (the (zget (apply_submit op enc l) (OpMember op)))\<rparr>)"

text \<open>
  The key of the operation holds a sorted set, and an increment stays within the range of
  \<open>float64\<close>.
\<close>

definition op_ready :: "keyspace \<Rightarrow> SubmitOp \<Rightarrow> bool" where
  "op_ready K op = (case zset_at K (zKey (Key (OpBoard op))) of None \<Rightarrow> False
     | Some l \<Rightarrow> increments op \<longrightarrow> \<bar>inc_value op l\<bar> < 2 ^ 1024)"

lemma op_ready_simple: "zset_at K (zKey (Key (OpBoard op))) \<noteq> None \<Longrightarrow> \<not> increments op \<Longrightarrow> op_ready K op"
  by (auto simp: op_ready_def)

definition op_zset :: "keyspace \<Rightarrow> SubmitOp \<Rightarrow> zset" where
  "op_zset K op = (case zset_at K (zKey (Key (OpBoard op))) of None \<Rightarrow> [] | Some l \<Rightarrow> l)"

definition op_step :: "SubmitOp \<times> rat \<Rightarrow> keyspace \<Rightarrow> keyspace" where
  "op_step oe K = K(zKey (Key (OpBoard (fst oe))) := zval (apply_submit (fst oe) (snd oe) (op_zset K (fst oe))))"

fun batch_ready :: "keyspace \<Rightarrow> (SubmitOp \<times> rat) list \<Rightarrow> bool" where
  "batch_ready K [] = True"
| "batch_ready K (oe # oes) = (op_ready K (fst oe) \<and> batch_ready (op_step oe K) oes)"

fun batch_results :: "(f64 \<Rightarrow> int) \<Rightarrow> keyspace \<Rightarrow> (SubmitOp \<times> rat) list \<Rightarrow> SubmitResult list" where
  "batch_results oor K [] = []"
| "batch_results oor K (oe # oes) =
     submit_result oor (fst oe) (snd oe) (op_zset K (fst oe)) # batch_results oor (op_step oe K) oes"

fun batch_pres :: "keyspace \<Rightarrow> (SubmitOp \<times> rat) list \<Rightarrow> rat option list" where
  "batch_pres K [] = []"
| "batch_pres K (oe # oes) = zget (op_zset K (fst oe)) (OpMember (fst oe)) # batch_pres (op_step oe K) oes"

definition batch_spec :: "(SubmitOp \<times> rat) list \<Rightarrow> keyspace \<Rightarrow> keyspace" where
  "batch_spec oes K = fold op_step oes K"

lemma op_zset_Some: "zset_at K (zKey (Key (OpBoard op))) = Some l \<Longrightarrow> op_zset K op = l"
  by (simp add: op_zset_def)

lemma op_readyE:
  assumes "op_ready K op"
  obtains l where "zset_at K (zKey (Key (OpBoard op))) = Some l" "op_zset K op = l"
    "increments op \<Longrightarrow> \<bar>inc_value op l\<bar> < 2 ^ 1024"
  using assms that by (auto simp: op_ready_def op_zset_def split: option.splits)

lemma zset_ok_apply_submit: "zset_ok l \<Longrightarrow> zset_ok (apply_submit op enc l)"
  by (simp add: apply_submit_def zset_ok_zput zset_ok_zadd)

lemma zget_zadd_result:
  assumes "zset_ok l"
  shows "zget (zadd_result mode l m v) m' = (if m' \<noteq> m then zget l m'
    else case zget l m of None \<Rightarrow> Some v | Some old \<Rightarrow> Some (if zadd_allows mode old v then v else old))"
  using assms by (auto simp: zadd_result_def zget_zput split: option.splits)

lemma zget_apply_submit_other:
  "zset_ok l \<Longrightarrow> m \<noteq> OpMember op \<Longrightarrow> zget (apply_submit op enc l) m = zget l m"
  by (simp add: apply_submit_def zget_zput zget_zadd_result)

lemma zget_apply_submit_member:
  "zset_ok l \<Longrightarrow> zget (apply_submit op enc l) (OpMember op) \<noteq> None"
  by (auto simp: apply_submit_def zget_zput zget_zadd_result split: option.splits)

lemma zset_at_op_step:
  "zset_at (op_step oe K) k = (if k = zKey (Key (OpBoard (fst oe)))
     then Some (apply_submit (fst oe) (snd oe) (op_zset K (fst oe))) else zset_at K k)"
  by (simp add: op_step_def)

lemma op_step_other: "k \<noteq> zKey (Key (OpBoard (fst oe))) \<Longrightarrow> op_step oe K k = K k"
  by (simp add: op_step_def)

lemma batch_spec_other:
  "(\<And>oe. oe \<in> set oes \<Longrightarrow> zKey (Key (OpBoard (fst oe))) \<noteq> k) \<Longrightarrow> batch_spec oes K k = K k"
  unfolding batch_spec_def
proof (induction oes arbitrary: K)
  case (Cons oe oes)
  have "k \<noteq> zKey (Key (OpBoard (fst oe)))" using Cons.prems [of oe] by auto
  then have "op_step oe K k = K k" by (rule op_step_other)
  with Cons show ?case by simp
qed simp

lemma batch_spec_hKey [simp]: "batch_spec oes K (hKey k) = K (hKey k)"
  by (rule batch_spec_other) simp

lemma prepare_length: "prepare oor ops = Inr encs \<Longrightarrow> length encs = length ops"
  by (induction ops arbitrary: encs) (auto simp: Let_def split: sum.splits)

lemma prepare_valid:
  "prepare oor ops = Inr encs \<Longrightarrow> op \<in> set ops \<Longrightarrow> board_validate (OpBoard op) = Inr ()"
  by (induction ops arbitrary: encs) (auto simp: Let_def split: sum.splits)

subsection \<open>Refinement\<close>

lemma reply_err_result: "reply_err r = None \<longleftrightarrow> (\<exists>v. r = Reply v)"
  by (cases r) auto

context redis_docs
begin

lemma queueSubmit_spec:
  assumes "op_ready (ks s) op" and q: "queueSubmit R op enc s = (sc, s')"
  shows "ks s' = op_step (op, enc) (ks s)"
    and "set (cmd_errs sc) \<subseteq> {None, Some RedisNil}"
    and "sc_result (cvt_oor R) sc = Inr (submit_result (cvt_oor R) op enc (op_zset (ks s) op))"
    and "pre sc = (if approx_op op then Some (opt_reply (zget (op_zset (ks s) op) (OpMember op))) else None)"
    and "codec sc = newScoreCodec (withDefaults (Config (OpBoard op)))"
proof -
  define key where "key = zKey (Key (OpBoard op))"
  define cfg where "cfg = withDefaults (Config (OpBoard op))"
  define mode where "mode = zadd_mode_of cfg"
  define p where "p = (if approx_op op then Some (opt_reply (zget (op_zset (ks s) op) (OpMember op))) else None)"
  obtain l where l: "zset_at (ks s) key = Some l" "op_zset (ks s) op = l"
    "increments op \<Longrightarrow> \<bar>inc_value op l\<bar> < 2 ^ 1024"
    using assms(1) by (auto elim: op_readyE simp: key_def)
  have pre_eq: "(if ApproxRank cfg
       then (case ZSCORE R key (OpMember op) s of (r, s1) \<Rightarrow> (sc0\<lparr>pre := Some r\<rparr>, s1)) else (sc0, s)) =
     (sc0\<lparr>pre := p\<rparr>, s)" if "pre sc0 = None" for sc0 :: submitCmds
    using that l by (simp add: ZSCORE p_def approx_op_def cfg_def [symmetric])
  have perr: "set (opt_err p) \<subseteq> {None, Some RedisNil}"
    by (auto simp: p_def opt_err_def opt_reply_def split: option.splits)
  have all: "ks s' = op_step (op, enc) (ks s) \<and>
      set (cmd_errs sc) \<subseteq> {None, Some RedisNil} \<and>
      sc_result (cvt_oor R) sc = Inr (submit_result (cvt_oor R) op enc (op_zset (ks s) op)) \<and>
      pre sc = p \<and> codec sc = newScoreCodec cfg"
  proof (cases "increments op")
    case True
    obtain r s2 where z: "ZINCRBY R key (OpScore op) (OpMember op) s = (r, s2)" by (cases "ZINCRBY R key (OpScore op) (OpMember op) s")
    have r: "r = Reply (inc_value op l)"
      using ZINCRBY(1) [OF l(1) refl, of "OpMember op" "OpScore op"] l(3) [OF True] z by (simp add: inc_value_def)
    have k2: "ks s2 = (ks s)(key := zval (zput l (OpMember op) (inc_value op l)))"
      using ZINCRBY(2) [OF l(1) refl, of "OpMember op" "OpScore op"] l(3) [OF True] z by (simp add: inc_value_def)
    from q True z have "sc = \<lparr>policy = UpdateIncrement, codec = newScoreCodec cfg, ch = None, score_cmd = None,
        inc = Some r, pre = p\<rparr>" "s' = s2"
      by (auto simp: queueSubmit_def Let_def increments_def cfg_def [symmetric] key_def [symmetric] pre_eq)
    with r k2 l(2) True perr show ?thesis
      by (auto simp: op_step_def apply_submit_def submit_result_def sc_result_def cmd_errs_def opt_err_def key_def)
  next
    case False
    define l' where "l' = zadd_result mode l (OpMember op) enc"
    obtain c s2 where z: "ZADD R key mode enc (OpMember op) s = (c, s2)" by (cases "ZADD R key mode enc (OpMember op) s")
    have c: "c = Reply (zadd_changed mode l (OpMember op) enc)" using ZADD(1) [OF l(1)] z by (metis fst_conv)
    have k2: "ks s2 = (ks s)(key := zval l')" using ZADD(2) [OF l(1)] z by (metis snd_conv l'_def)
    then have "zset_at (ks s2) key = Some l'" by simp
    then have q2: "ZSCORE R key (OpMember op) s2 = (opt_reply (zget l' (OpMember op)), s2)" by (rule ZSCORE)
    have l'_eq: "l' = apply_submit op enc l" using False by (simp add: l'_def apply_submit_def mode_def cfg_def)
    obtain v where v: "zget l' (OpMember op) = Some v"
      using zget_apply_submit_member [OF zset_at_ok [OF l(1)]] l'_eq by blast
    from q False z q2 have sc: "sc = \<lparr>policy = UpdatePolicy cfg, codec = newScoreCodec cfg, ch = Some c,
        score_cmd = Some (Reply v), inc = None, pre = p\<rparr>" "s' = s2"
      by (auto simp: queueSubmit_def Let_def increments_def cfg_def [symmetric] key_def [symmetric] pre_eq
          mode_def zadd_mode_of_def v)
    have pol: "UpdatePolicy cfg \<noteq> UpdateIncrement" using False by (simp add: increments_def cfg_def)
    show ?thesis
      using sc c k2 l(2) False perr pol l'_eq v
      by (auto simp: op_step_def submit_result_def sc_result_def cmd_errs_def opt_err_def key_def
          board_decode_def cfg_def mode_def)
  qed
  then show "ks s' = op_step (op, enc) (ks s)"
    and "set (cmd_errs sc) \<subseteq> {None, Some RedisNil}"
    and "sc_result (cvt_oor R) sc = Inr (submit_result (cvt_oor R) op enc (op_zset (ks s) op))"
    and "pre sc = (if approx_op op then Some (opt_reply (zget (op_zset (ks s) op) (OpMember op))) else None)"
    and "codec sc = newScoreCodec (withDefaults (Config (OpBoard op)))"
    by (simp_all add: p_def cfg_def)
qed

text \<open>The pipeline of a batch.\<close>

lemma pipe_submits_spec:
  assumes "batch_ready (ks s) oes" "pipe_run (\<lambda>(op, enc). queueSubmit R op enc) oes s = (cmds, s')"
  shows "ks s' = batch_spec oes (ks s)"
    and "set (concat (map cmd_errs cmds)) \<subseteq> {None, Some RedisNil}"
    and "all_results (map (sc_result (cvt_oor R)) cmds) = Inr (batch_results (cvt_oor R) (ks s) oes)"
    and "map pre cmds = map2 (\<lambda>oe p. if approx_op (fst oe) then Some (opt_reply p) else None) oes (batch_pres (ks s) oes)"
    and "map codec cmds = map (\<lambda>oe. newScoreCodec (withDefaults (Config (OpBoard (fst oe))))) oes"
  using assms
proof (atomize (full), induction oes arbitrary: s s' cmds)
  case (Cons oe oes)
  obtain op enc where oe: "oe = (op, enc)" by (cases oe)
  obtain sc s1 where q: "queueSubmit R op enc s = (sc, s1)" by (cases "queueSubmit R op enc s")
  obtain cmds' s2 where p: "pipe_run (\<lambda>(op, enc). queueSubmit R op enc) oes s1 = (cmds', s2)"
    by (cases "pipe_run (\<lambda>(op, enc). queueSubmit R op enc) oes s1")
  have r: "op_ready (ks s) op" using Cons.prems oe by simp
  note sp = queueSubmit_spec [OF r q]
  have "batch_ready (ks s1) oes" using Cons.prems oe sp(1) by simp
  note ih = Cons.IH [OF this p]
  have "cmds = sc # cmds'" "s' = s2" using Cons.prems(2) oe q p by auto
  with ih sp oe show ?case by (auto simp: batch_spec_def)
qed (auto simp: batch_spec_def)

end

subsection \<open>The value an update leaves\<close>

text \<open>The documented effect of the three update policies on the stored value of a member.\<close>

definition policy_value :: "BoardConfig \<Rightarrow> rat option \<Rightarrow> rat \<Rightarrow> rat \<Rightarrow> rat" where
  "policy_value cfg old score enc =
     (if UpdatePolicy cfg = UpdateIncrement then fl64 ((case old of None \<Rightarrow> 0 | Some v \<Rightarrow> v) + score)
      else if UpdatePolicy cfg = UpdateBest
      then (case old of None \<Rightarrow> enc | Some v \<Rightarrow> if SortOrder cfg = SortAsc then min v enc else max v enc)
      else enc)"

lemma zget_apply_submit:
  assumes "zset_ok l"
  shows "zget (apply_submit op enc l) m = (if m = OpMember op
    then Some (policy_value (withDefaults (Config (OpBoard op))) (zget l m) (OpScore op) enc) else zget l m)"
proof (cases "increments op")
  case True
  then show ?thesis using assms by (auto simp: apply_submit_def zget_zput inc_value_def policy_value_def increments_def)
next
  case False
  then show ?thesis using assms
    by (auto simp: apply_submit_def zget_zadd_result policy_value_def increments_def zadd_mode_of_def min_def max_def
        split: option.splits)
qed

lemma submit_result_spec:
  assumes "zset_ok l" "increments op \<Longrightarrow> (\<And>v. board_decode oor (OpBoard op) v = v)"
    and new_def: "new = policy_value (withDefaults (Config (OpBoard op))) (zget l (OpMember op)) (OpScore op) enc"
  shows "submit_result oor op enc l =
    \<lparr>Updated = (increments op \<or> zget l (OpMember op) \<noteq> Some new), NewScore = board_decode oor (OpBoard op) new\<rparr>"
proof (cases "increments op")
  case True
  then show ?thesis using assms(2) [OF True]
    by (simp add: submit_result_def new_def policy_value_def inc_value_def increments_def)
next
  case False
  have "0 < zadd_changed (zadd_mode_of (withDefaults (Config (OpBoard op)))) l (OpMember op) enc \<longleftrightarrow>
      zget l (OpMember op) \<noteq> Some new"
    using False by (auto simp: zadd_changed_def new_def policy_value_def increments_def zadd_mode_of_def min_def max_def
        split: option.splits)
  then show ?thesis using False assms(1)
    by (simp add: submit_result_def zget_apply_submit new_def)
qed

text \<open>Best-wins updates: the outcome of a set of submissions.\<close>

definition apply_all :: "(SubmitOp \<times> rat) list \<Rightarrow> zset \<Rightarrow> zset" where
  "apply_all oes l = fold (\<lambda>oe. apply_submit (fst oe) (snd oe)) oes l"

definition bestof :: "bool \<Rightarrow> rat set \<Rightarrow> rat option" where
  "bestof asc A = (if A = {} then None else Some (if asc then Min A else Max A))"

definition best_op :: "bool \<Rightarrow> SubmitOp \<Rightarrow> bool" where
  "best_op asc op \<longleftrightarrow> UpdatePolicy (withDefaults (Config (OpBoard op))) = UpdateBest \<and>
     (SortOrder (withDefaults (Config (OpBoard op))) = SortAsc) = asc"

lemma bestof_absorb: "finite A \<Longrightarrow> finite B \<Longrightarrow> A \<noteq> {} \<Longrightarrow> bestof asc (set_option (bestof asc A) \<union> B) = bestof asc (A \<union> B)"
  by (cases "B = {}") (auto simp: bestof_def Max_Un Min_Un)

lemma zset_ok_apply_all: "zset_ok l \<Longrightarrow> zset_ok (apply_all oes l)"
  by (induction oes arbitrary: l) (auto simp: apply_all_def zset_ok_apply_submit)

lemma policy_value_best:
  "best_op asc op \<Longrightarrow> Some (policy_value (withDefaults (Config (OpBoard op))) old score enc) =
     bestof asc (set_option old \<union> {enc})"
  by (cases old) (auto simp: best_op_def policy_value_def bestof_def config_consts)

lemma zget_apply_all:
  assumes "zset_ok l" "\<And>oe. oe \<in> set oes \<Longrightarrow> best_op asc (fst oe)"
  shows "zget (apply_all oes l) m = bestof asc (set_option (zget l m) \<union> {e. \<exists>op. (op, e) \<in> set oes \<and> OpMember op = m})"
  using assms
proof (induction oes arbitrary: l)
  case Nil
  then show ?case by (cases "zget l m") (simp_all add: apply_all_def bestof_def)
next
  case (Cons oe oes)
  define E where "E = {e. \<exists>op. (op, e) \<in> set oes \<and> OpMember op = m}"
  have fin: "finite E"
    by (rule finite_subset [of _ "snd ` set oes"]) (force simp: E_def)+
  have ih: "zget (apply_all (oe # oes) l) m = bestof asc (set_option (zget (apply_submit (fst oe) (snd oe) l) m) \<union> E)"
    using Cons by (simp add: apply_all_def zset_ok_apply_submit E_def)
  show ?case
  proof (cases "OpMember (fst oe) = m")
    case True
    have "{e. \<exists>op. (op, e) \<in> set (oe # oes) \<and> OpMember op = m} = insert (snd oe) E"
      using True by (cases oe) (auto simp: E_def)
    moreover have "zget (apply_submit (fst oe) (snd oe) l) m = bestof asc (set_option (zget l m) \<union> {snd oe})"
      using True zget_apply_submit [OF Cons.prems(1)] policy_value_best [OF Cons.prems(2) [of oe]] by simp
    ultimately show ?thesis using ih bestof_absorb [of "set_option (zget l m) \<union> {snd oe}" E asc] fin by simp
  next
    case False
    then have "{e. \<exists>op. (op, e) \<in> set (oe # oes) \<and> OpMember op = m} = E" by (cases oe) (auto simp: E_def)
    then show ?thesis using ih False Cons.prems(1) by (simp add: zget_apply_submit)
  qed
qed

lemma apply_all_best_cong:
  assumes "zset_ok l" "\<And>oe. oe \<in> set oes \<Longrightarrow> best_op asc (fst oe)" "set oes = set oes'"
  shows "apply_all oes l = apply_all oes' l"
proof (rule zset_eqI)
  fix m
  have "\<And>oe. oe \<in> set oes' \<Longrightarrow> best_op asc (fst oe)" using assms(2,3) by simp
  from zget_apply_all [OF assms(1) this, of oes' m] zget_apply_all [OF assms(1,2), of oes m]
  show "zget (apply_all oes l) m = zget (apply_all oes' l) m" by (simp add: assms(3))
qed (use assms(1) in \<open>simp_all add: zset_ok_apply_all\<close>)

end
