(* ===== verification/Engine_Histogram.thy ===== *)
theory Engine_Histogram
  imports Engine_Writes
begin

text \<open>
  The invariant of the approximate-rank tier: every counter of a board's histogram is the number
  of members whose score falls into its bucket. The batch write, the removal and the reset keep
  it, on the contract \<open>redis_docs\<close>, and it bounds the error of the approximate rank.
\<close>

subsection \<open>Counters and bucket populations\<close>

definition bucket_of :: "(f64 \<Rightarrow> int) \<Rightarrow> Board \<Rightarrow> rat \<Rightarrow> int" where
  "bucket_of oor b v = bucketIndex oor (boardHistogram b) (board_decode oor b v)"

definition bucket_count :: "(f64 \<Rightarrow> int) \<Rightarrow> Board \<Rightarrow> zset \<Rightarrow> int \<Rightarrow> int" where
  "bucket_count oor b l i = int (length (filter (\<lambda>e. bucket_of oor b (fst e) = i) l))"

definition hist_fields :: "int \<Rightarrow> (string \<rightharpoonup> string) \<Rightarrow> (int \<Rightarrow> int) \<Rightarrow> bool" where
  "hist_fields n h f \<longleftrightarrow> dom h \<subseteq> itoa ` {0..<n} \<and> (\<forall>i \<in> {0..<n}. hash_int h (itoa i) = Some (f i))"

definition approx_board :: "Board \<Rightarrow> bool" where
  "approx_board b \<longleftrightarrow> ApproxRank (withDefaults (Config b))"

text \<open>The counters in \<open>Kh\<close> agree with the sorted set in \<open>Kz\<close> (the same keyspace between operations).\<close>

definition hist_inv :: "(f64 \<Rightarrow> int) \<Rightarrow> keyspace \<Rightarrow> keyspace \<Rightarrow> Board \<Rightarrow> bool" where
  "hist_inv oor Kz Kh b = (case (zset_at Kz (zKey (Key b)), hash_at Kh (hKey (Key b))) of
     (Some l, Some h) \<Rightarrow> hist_fields (hbuckets (boardHistogram b)) h (bucket_count oor b l)
   | _ \<Rightarrow> False)"

text \<open>Boards that share a physical key share the configuration the engine applies.\<close>

definition same_config :: "Board \<Rightarrow> Board \<Rightarrow> bool" where
  "same_config b b' \<longleftrightarrow> (hashTag (Key b) = hashTag (Key b') \<longrightarrow> withDefaults (Config b) = withDefaults (Config b'))"

lemma hkey_boardHistogram [simp]: "hkey (boardHistogram b) = hKey (Key b)"
  by (simp add: boardHistogram_def NewHistogram_def Let_def)

lemma hist_fields_upd:
  assumes "hist_fields n h f" "0 \<le> i" "i < n" "n \<le> 2 ^ 63" "int64 (f i + d)"
  shows "hist_fields n (h(itoa i \<mapsto> itoa (f i + d))) (f(i := f i + d))"
proof -
  have "hash_int (h(itoa i \<mapsto> itoa (f i + d))) (itoa j) = Some ((f(i := f i + d)) j)" if "j \<in> {0..<n}" for j
    using assms that by (auto simp: hist_fields_def hash_int_def atoi_itoa dest: itoa_inject)
  moreover have "dom (h(itoa i \<mapsto> itoa (f i + d))) \<subseteq> itoa ` {0..<n}"
    using assms by (auto simp: hist_fields_def)
  ultimately show ?thesis by (simp add: hist_fields_def)
qed

lemma bucket_count_nonneg: "0 \<le> bucket_count oor b l i"
  and bucket_count_le: "bucket_count oor b l i \<le> int (length l)"
  by (simp_all add: bucket_count_def)

lemma mset_zdel:
  assumes "zset_ok l"
  shows "mset l = (case zget l m of None \<Rightarrow> {#} | Some v \<Rightarrow> {#(v, m)#}) + mset (zdel l m)"
proof -
  have d: "distinct l" "distinct (map snd l)" using assms by (auto simp: zset_ok_def strict_sorted_iff distinct_map)
  have "filter (\<lambda>e. snd e = m) l = (case zget l m of None \<Rightarrow> [] | Some v \<Rightarrow> [(v, m)])"
    using d(2)
  proof (induction l)
    case (Cons e l)
    then have "zget l (snd e) = None" by (simp add: zget_None_iff)
    with Cons show ?case by (cases e) (auto split: if_splits)
  qed simp
  moreover have "mset l = mset (filter (\<lambda>e. snd e = m) l) + mset (filter (\<lambda>e. snd e \<noteq> m) l)"
    by (simp add: multiset_partition)
  ultimately show ?thesis by (simp add: zdel_def split: option.splits)
qed

lemma bucket_count_split:
  assumes "mset l = M + mset l'"
  shows "bucket_count oor b l i = int (size (filter_mset (\<lambda>e. bucket_of oor b (fst e) = i) M)) + bucket_count oor b l' i"
  using assms by (simp add: bucket_count_def flip: size_mset)

lemma bucket_count_zdel:
  assumes "zset_ok l"
  shows "bucket_count oor b (zdel l m) i = bucket_count oor b l i -
    (case zget l m of None \<Rightarrow> 0 | Some v \<Rightarrow> if bucket_of oor b v = i then 1 else 0)"
  using bucket_count_split [OF mset_zdel [OF assms, of m]] by (auto split: option.splits)

lemma bucket_count_zput:
  assumes "zset_ok l"
  shows "bucket_count oor b (zput l m v) i = bucket_count oor b l i -
    (case zget l m of None \<Rightarrow> 0 | Some v \<Rightarrow> if bucket_of oor b v = i then 1 else 0) +
    (if bucket_of oor b v = i then 1 else 0)"
proof -
  have "mset (zput l m v) = {#(v, m)#} + mset (zdel l m)" by (simp add: zput_def)
  from bucket_count_split [OF this] bucket_count_zdel [OF assms] show ?thesis by simp
qed

lemma length_zput: "zset_ok l \<Longrightarrow> length (zput l m v) \<le> Suc (length l)"
  by (simp add: zput_def zdel_def le_SucI)

lemma length_apply_submit: "length (apply_submit op enc l) \<le> Suc (length l)"
  by (auto simp: apply_submit_def zadd_result_def zput_def zdel_def le_SucI split: option.splits)

subsection \<open>The increments of a batch\<close>

definition op_deltas :: "(f64 \<Rightarrow> int) \<Rightarrow> SubmitOp \<Rightarrow> rat option \<Rightarrow> SubmitResult \<Rightarrow> (Histogram \<times> rat \<times> int) list" where
  "op_deltas oor op prev res =
     (let h = boardHistogram (OpBoard op); new = NewScore res in
      if \<not> approx_op op then []
      else case prev of None \<Rightarrow> [(h, new, 1)]
        | Some v \<Rightarrow> if board_decode oor (OpBoard op) v = new then []
            else [(h, board_decode oor (OpBoard op) v, -1), (h, new, 1)])"

fun batch_deltas :: "(f64 \<Rightarrow> int) \<Rightarrow> keyspace \<Rightarrow> (SubmitOp \<times> rat) list \<Rightarrow> (Histogram \<times> rat \<times> int) list" where
  "batch_deltas oor K [] = []"
| "batch_deltas oor K (oe # oes) =
     op_deltas oor (fst oe) (zget (op_zset K (fst oe)) (OpMember (fst oe)))
       (submit_result oor (fst oe) (snd oe) (op_zset K (fst oe))) @ batch_deltas oor (op_step oe K) oes"

lemma hist_deltas_spec:
  assumes "map pre cmds = map2 (\<lambda>oe p. if approx_op (fst oe) then Some (opt_reply p) else None) oes (batch_pres K oes)"
    "map codec cmds = map (\<lambda>oe. newScoreCodec (withDefaults (Config (OpBoard (fst oe))))) oes"
  shows "hist_deltas oor (zip (map fst oes) (zip cmds (batch_results oor K oes))) = Inr (batch_deltas oor K oes)"
  using assms
proof (induction oes arbitrary: cmds K)
  case (Cons oe oes)
  then obtain sc cmds' where c: "cmds = sc # cmds'" by (cases cmds) auto
  with Cons.prems have ih: "hist_deltas oor (zip (map fst oes) (zip cmds' (batch_results oor (op_step oe K) oes))) =
      Inr (batch_deltas oor (op_step oe K) oes)"
    by (intro Cons.IH) auto
  from Cons.prems c have "codec sc = newScoreCodec (withDefaults (Config (OpBoard (fst oe))))"
    "pre sc = (if approx_op (fst oe) then Some (opt_reply (zget (op_zset K (fst oe)) (OpMember (fst oe)))) else None)"
    by auto
  with ih c show ?case
    by (cases "zget (op_zset K (fst oe)) (OpMember (fst oe))")
      (auto simp: op_deltas_def Let_def board_decode_def)
qed simp

lemma op_deltas_nonapprox: "\<not> approx_op op \<Longrightarrow> op_deltas oor op prev res = []"
  by (simp add: op_deltas_def)

lemma batch_deltas_nonapprox: "(\<And>oe. oe \<in> set oes \<Longrightarrow> \<not> approx_op (fst oe)) \<Longrightarrow> batch_deltas oor K oes = []"
  by (induction oes arbitrary: K) (auto simp: op_deltas_nonapprox)

text \<open>
  The deltas of one submission move the counters from the populations before it to those after
  it: \<open>f0\<close> before, \<open>f1\<close> between the two increments, \<open>f2\<close> after.
\<close>

definition add_delta :: "(f64 \<Rightarrow> int) \<Rightarrow> (int \<Rightarrow> int) \<Rightarrow> Histogram \<times> rat \<times> int \<Rightarrow> int \<Rightarrow> int" where
  "add_delta oor f d = (case d of (h, sc, x) \<Rightarrow> f(bucketIndex oor h sc := f (bucketIndex oor h sc) + x))"

lemma increments_decode:
  assumes "board_validate (OpBoard op) = Inr ()" "increments op"
  shows "board_decode oor (OpBoard op) v = v"
  using board_validD [OF assms(1)] assms(2) config_validD(4) [OF _ refl, of "Config (OpBoard op)"]
  by (auto simp: increments_def board_decode_def decode_def newScoreCodec_def config_consts)

lemma submit_moves:
  assumes "board_validate (OpBoard op) = Inr ()" "zset_ok l"
  shows "(\<exists>v. apply_submit op enc l = l \<and> zget l (OpMember op) = Some v \<and>
      NewScore (submit_result oor op enc l) = board_decode oor (OpBoard op) v)
    \<or> (\<exists>w. apply_submit op enc l = zput l (OpMember op) w \<and>
      NewScore (submit_result oor op enc l) = board_decode oor (OpBoard op) w)"
proof (cases "increments op")
  case True
  then show ?thesis
    using increments_decode [OF assms(1) True, of oor] by (auto simp: apply_submit_def submit_result_def)
next
  case False
  define mode where "mode = zadd_mode_of (withDefaults (Config (OpBoard op)))"
  have ap: "apply_submit op enc l = zadd_result mode l (OpMember op) enc"
    using False by (simp add: apply_submit_def mode_def)
  have ns: "NewScore (submit_result oor op enc l) =
      board_decode oor (OpBoard op) (the (zget (apply_submit op enc l) (OpMember op)))"
    using False by (simp add: submit_result_def)
  show ?thesis
  proof (cases "zget l (OpMember op)")
    case None
    then have "apply_submit op enc l = zput l (OpMember op) enc" by (simp add: ap zadd_result_def)
    with ns assms(2) show ?thesis by (auto simp: zget_zput)
  next
    case (Some old)
    show ?thesis
    proof (cases "zadd_allows mode old enc")
      case True
      with Some have "apply_submit op enc l = zput l (OpMember op) enc" by (simp add: ap zadd_result_def)
      with ns assms(2) show ?thesis by (auto simp: zget_zput)
    next
      case False
      with Some have "apply_submit op enc l = l" by (simp add: ap zadd_result_def)
      with ns Some show ?thesis by auto
    qed
  qed
qed

lemma op_deltas_counts:
  assumes "board_validate (OpBoard op) = Inr ()" "zset_ok l" "approx_op op" "b = OpBoard op"
    and ds_def: "ds = op_deltas oor op (zget l (OpMember op)) (submit_result oor op enc l)"
  shows "foldl (add_delta oor) (bucket_count oor b l) ds = bucket_count oor b (apply_submit op enc l)"
    and "d \<in> set ds \<Longrightarrow> fst d = boardHistogram b"
    and "ds = [] \<or> (\<exists>x y. ds = [x] \<and> snd (snd x) = 1 \<or> ds = [x, y] \<and> snd (snd x) = -1 \<and> snd (snd y) = 1 \<and>
       1 \<le> bucket_count oor b l (bucketIndex oor (fst x) (fst (snd x))))"
proof -
  define m where "m = OpMember op"
  obtain v where v: "zget l m = Some v \<or> zget l m = None" by (cases "zget l m") auto
  note mv = submit_moves [OF assms(1,2), of enc oor, folded m_def]
  show "d \<in> set ds \<Longrightarrow> fst d = boardHistogram b"
    by (auto simp: ds_def op_deltas_def Let_def assms(4) split: option.splits if_splits)
  have pos: "1 \<le> bucket_count oor b l (bucket_of oor b v)" if "zget l m = Some v"
  proof -
    have "filter (\<lambda>e. bucket_of oor b (fst e) = bucket_of oor b v) l \<noteq> []"
      using zget_in [OF that] by (force simp: filter_empty_conv)
    then show ?thesis by (cases "filter (\<lambda>e. bucket_of oor b (fst e) = bucket_of oor b v) l") (auto simp: bucket_count_def)
  qed
  with v show "ds = [] \<or> (\<exists>x y. ds = [x] \<and> snd (snd x) = 1 \<or> ds = [x, y] \<and> snd (snd x) = -1 \<and> snd (snd y) = 1 \<and>
       1 \<le> bucket_count oor b l (bucketIndex oor (fst x) (fst (snd x))))"
    using assms(3) by (cases "zget l m") (simp_all add: ds_def op_deltas_def Let_def m_def bucket_of_def assms(4))
  from mv show "foldl (add_delta oor) (bucket_count oor b l) ds = bucket_count oor b (apply_submit op enc l)"
  proof
    assume "\<exists>v. apply_submit op enc l = l \<and> zget l m = Some v \<and>
      NewScore (submit_result oor op enc l) = board_decode oor (OpBoard op) v"
    then show ?thesis using assms(3) by (auto simp: ds_def op_deltas_def Let_def m_def [symmetric])
  next
    assume "\<exists>w. apply_submit op enc l = zput l m w \<and> NewScore (submit_result oor op enc l) = board_decode oor (OpBoard op) w"
    then obtain w where w: "apply_submit op enc l = zput l m w"
      "NewScore (submit_result oor op enc l) = board_decode oor (OpBoard op) w" by blast
    from v show ?thesis
    proof
      assume "zget l m = Some v"
      then show ?thesis using assms(3) w
        by (auto simp: fun_eq_iff ds_def op_deltas_def Let_def m_def [symmetric] add_delta_def assms(4)
            bucket_count_zput [OF assms(2)] bucket_of_def)
    next
      assume "zget l m = None"
      then show ?thesis using assms(3) w
        by (auto simp: fun_eq_iff ds_def op_deltas_def Let_def m_def [symmetric] add_delta_def assms(4)
            bucket_count_zput [OF assms(2)] bucket_of_def)
    qed
  qed
qed

lemma hist_inv_cong:
  assumes "hashTag (Key b) = hashTag (Key b')" "withDefaults (Config b) = withDefaults (Config b')"
  shows "hist_inv oor Kz Kh b = hist_inv oor Kz Kh b'"
proof -
  have k: "zKey (Key b) = zKey (Key b')" "hKey (Key b) = hKey (Key b')"
    using assms(1) by (simp_all add: zKey_def hKey_def)
  have h: "boardHistogram b = boardHistogram b'"
    using assms k by (simp add: boardHistogram_def NewHistogram_def Let_def)
  have c: "bucket_count oor b = bucket_count oor b'"
    by (simp add: fun_eq_iff bucket_count_def bucket_of_def board_decode_def assms(2) h)
  show ?thesis unfolding hist_inv_def k h c ..
qed

lemma hist_inv_frame:
  assumes "zset_at Kz' (zKey (Key b)) = zset_at Kz (zKey (Key b))" "hash_at Kh' (hKey (Key b)) = hash_at Kh (hKey (Key b))"
  shows "hist_inv oor Kz' Kh' b = hist_inv oor Kz Kh b"
  using assms by (simp add: hist_inv_def)

lemma hash_at_cong: "K k = K' k \<Longrightarrow> hash_at K k = hash_at K' k"
  and zset_at_cong: "K k = K' k \<Longrightarrow> zset_at K k = zset_at K' k"
  by (simp_all add: hash_at_def zset_at_def)

context redis_docs
begin

lemma queueDelta_run:
  assumes "hash_at (ks s) (hkey h) = Some hm" "hist_fields (hbuckets h) hm f" "hist_sane h"
    "int64 (f (bucketIndex (cvt_oor R) h sc) + x)"
  obtains r s' hm' where "queueDelta R (h, sc, x) s = (Reply r, s')"
    "hash_at (ks s') (hkey h) = Some hm'" "hist_fields (hbuckets h) hm' (add_delta (cvt_oor R) f (h, sc, x))"
    "\<And>k. k \<noteq> hkey h \<Longrightarrow> ks s' k = ks s k"
proof -
  define i where "i = bucketIndex (cvt_oor R) h sc"
  have i: "0 \<le> i" "i < hbuckets h" using bucketIndex_range [OF assms(3), of "cvt_oor R" sc] by (auto simp: i_def)
  have hi: "hash_int hm (itoa i) = Some (f i)" using assms(2) i by (auto simp: hist_fields_def)
  have x: "int64 (f i + x)" using assms(4) by (simp add: i_def)
  obtain s' where run: "HINCRBY R (hkey h) (itoa i) x s = (Reply (f i + x), s')"
    using HINCRBY(1) [OF assms(1) hi x] by (metis prod.collapse)
  then have ks': "ks s' = (ks s)(hkey h := Some (VHash (hm(itoa i \<mapsto> itoa (f i + x)))))"
    using HINCRBY(2) [OF assms(1) hi x] by simp
  have "hbuckets h \<le> 2 ^ 63" using assms(3) by (simp add: hist_sane_def)
  then have "hist_fields (hbuckets h) (hm(itoa i \<mapsto> itoa (f i + x))) (f(i := f i + x))"
    by (intro hist_fields_upd assms(2) i x)
  with run ks' show ?thesis
    by (intro that [of "f i + x" s' "hm(itoa i \<mapsto> itoa (f i + x))"])
      (simp_all add: queueDelta_def add_delta_def i_def)
qed

lemma op_deltas_run:
  assumes "board_validate (OpBoard op) = Inr ()" "zset_ok l" "approx_op op" "b = OpBoard op"
    "hist_sane (boardHistogram b)" "int (length l) + 1 < 2 ^ 63"
    "hash_at (ks s) (hKey (Key b)) = Some hm"
    "hist_fields (hbuckets (boardHistogram b)) hm (bucket_count (cvt_oor R) b l)"
    and ds: "ds = op_deltas (cvt_oor R) op (zget l (OpMember op)) (submit_result (cvt_oor R) op enc l)"
  obtains rs s' hm' where "pipe_run (queueDelta R) ds s = (rs, s')" "set (map reply_err rs) \<subseteq> {None}"
    "hash_at (ks s') (hKey (Key b)) = Some hm'"
    "hist_fields (hbuckets (boardHistogram b)) hm' (bucket_count (cvt_oor R) b (apply_submit op enc l))"
    "\<And>k. k \<noteq> hKey (Key b) \<Longrightarrow> ks s' k = ks s k"
proof -
  define h where "h = boardHistogram b"
  note oc = op_deltas_counts [OF assms(1-4) ds]
  have small: "int64 (bucket_count (cvt_oor R) b l i + 1)" "int64 (bucket_count (cvt_oor R) b l i)" for i
    using bucket_count_nonneg [of "cvt_oor R" b l i] bucket_count_le [of "cvt_oor R" b l i] assms(6) by linarith+
  have hm: "hash_at (ks s) (hkey h) = Some hm" "hist_fields (hbuckets h) hm (bucket_count (cvt_oor R) b l)"
    "hist_sane h" using assms by (simp_all add: h_def)
  from oc(3) consider "ds = []" | x where "ds = [x]" "snd (snd x) = 1"
    | x y where "ds = [x, y]" "snd (snd x) = -1" "snd (snd y) = 1"
       "1 \<le> bucket_count (cvt_oor R) b l (bucketIndex (cvt_oor R) (fst x) (fst (snd x)))" by blast
  then show ?thesis
  proof cases
    case 1
    then show ?thesis using that [of "[]" s hm] oc(1) assms by simp
  next
    case 2
    obtain sc where x: "x = (h, sc, 1)" using oc(2) [of x] 2 by (cases x) (auto simp: h_def)
    obtain r s' hm' where "queueDelta R (h, sc, 1) s = (Reply r, s')"
      "hash_at (ks s') (hkey h) = Some hm'" "hist_fields (hbuckets h) hm' (add_delta (cvt_oor R) (bucket_count (cvt_oor R) b l) (h, sc, 1))"
      "\<And>k. k \<noteq> hkey h \<Longrightarrow> ks s' k = ks s k"
      by (rule queueDelta_run [OF hm small(1) [of "bucketIndex (cvt_oor R) h sc"]]) blast
    with that [of "[Reply r]" s' hm'] oc(1) 2 x show ?thesis by (simp add: h_def)
  next
    case 3
    obtain sc sc' where x: "x = (h, sc, -1)" "y = (h, sc', 1)"
      using oc(2) [of x] oc(2) [of y] 3 by (cases x; cases y) (auto simp: h_def)
    define f where "f = bucket_count (cvt_oor R) b l"
    define f1 where "f1 = add_delta (cvt_oor R) f (h, sc, -1)"
    have "1 \<le> f (bucketIndex (cvt_oor R) h sc)" using 3 x by (simp add: f_def)
    then have i1: "int64 (f (bucketIndex (cvt_oor R) h sc) + -1)"
      using small(2) [of "bucketIndex (cvt_oor R) h sc"] by (simp add: f_def)
    have i2: "int64 (f1 (bucketIndex (cvt_oor R) h sc') + 1)"
      using small(2) [of "bucketIndex (cvt_oor R) h sc'"] small(1) [of "bucketIndex (cvt_oor R) h sc'"]
      by (auto simp: f1_def add_delta_def f_def)
    obtain r s1 hm1 where 1: "queueDelta R (h, sc, -1) s = (Reply r, s1)"
      "hash_at (ks s1) (hkey h) = Some hm1" "hist_fields (hbuckets h) hm1 f1" "\<And>k. k \<noteq> hkey h \<Longrightarrow> ks s1 k = ks s k"
      using queueDelta_run [OF hm(1) hm(2) [folded f_def] hm(3) i1] by (metis f1_def)
    obtain r' s' hm' where "queueDelta R (h, sc', 1) s1 = (Reply r', s')"
      "hash_at (ks s') (hkey h) = Some hm'" "hist_fields (hbuckets h) hm' (add_delta (cvt_oor R) f1 (h, sc', 1))"
      "\<And>k. k \<noteq> hkey h \<Longrightarrow> ks s' k = ks s1 k"
      by (rule queueDelta_run [OF 1(2,3) hm(3) i2]) blast
    with 1 that [of "[Reply r, Reply r']" s' hm'] oc(1) 3(1) x show ?thesis
      by (simp add: h_def f1_def f_def)
  qed
qed

text \<open>One submission, seen by a board that may or may not be its target.\<close>

lemma op_deltas_inv:
  assumes "op_ready Kz op" "board_validate (OpBoard op) = Inr ()"
    "\<And>k l. zset_at Kz k = Some l \<Longrightarrow> zset_ok l"
    "approx_op op \<Longrightarrow> hist_sane (boardHistogram (OpBoard op)) \<and> hist_inv (cvt_oor R) Kz (ks s) (OpBoard op) \<and>
       int (length (op_zset Kz op)) + 1 < 2 ^ 63"
    and ds: "ds = op_deltas (cvt_oor R) op (zget (op_zset Kz op) (OpMember op)) (submit_result (cvt_oor R) op enc (op_zset Kz op))"
  obtains rs s' where "pipe_run (queueDelta R) ds s = (rs, s')" "set (map reply_err rs) \<subseteq> {None}"
    "\<And>k. k \<noteq> hKey (Key (OpBoard op)) \<Longrightarrow> ks s' k = ks s k"
    "\<And>b. same_config b (OpBoard op) \<Longrightarrow> approx_board b \<Longrightarrow> hist_inv (cvt_oor R) Kz (ks s) b \<Longrightarrow>
       hist_inv (cvt_oor R) (op_step (op, enc) Kz) (ks s') b"
proof -
  define b0 where "b0 = OpBoard op"
  obtain l where l: "zset_at Kz (zKey (Key b0)) = Some l" "op_zset Kz op = l"
    using assms(1) by (auto elim: op_readyE simp: b0_def)
  have other: "hist_inv (cvt_oor R) (op_step (op, enc) Kz) (ks s') b"
    if "hashTag (Key b) \<noteq> hashTag (Key b0)" "hist_inv (cvt_oor R) Kz (ks s) b" "\<And>k. k \<noteq> hKey (Key b0) \<Longrightarrow> ks s' k = ks s k"
    for b s'
  proof -
    have "hKey (Key b) \<noteq> hKey (Key b0)" "zKey (Key b) \<noteq> zKey (Key b0)" using that(1) by (simp_all add: hKey_eq_iff zKey_eq_iff)
    then show ?thesis using that(2,3) hash_at_cong [of "ks s'" _ "ks s"]
      by (subst hist_inv_frame [of _ b Kz _ "ks s"]) (simp_all add: zset_at_op_step b0_def)
  qed
  show ?thesis
  proof (cases "approx_op op")
    case False
    then have "ds = []" by (simp add: ds op_deltas_nonapprox)
    moreover have "hist_inv (cvt_oor R) (op_step (op, enc) Kz) (ks s) b"
      if "same_config b b0" "approx_board b" "hist_inv (cvt_oor R) Kz (ks s) b" for b
      using that False by (intro other) (auto simp: same_config_def approx_board_def approx_op_def b0_def)
    ultimately show ?thesis by (intro that [of "[]" s]) (simp_all add: b0_def)
  next
    case True
    with assms(4) l obtain hm where hm: "hash_at (ks s) (hKey (Key b0)) = Some hm"
      "hist_fields (hbuckets (boardHistogram b0)) hm (bucket_count (cvt_oor R) b0 l)"
      by (auto simp: hist_inv_def b0_def split: option.splits)
    have ds': "ds = op_deltas (cvt_oor R) op (zget l (OpMember op)) (submit_result (cvt_oor R) op enc l)"
      using ds l(2) by simp
    have sane: "hist_sane (boardHistogram b0)" "int (length l) + 1 < 2 ^ 63" using assms(4) True l(2) by (auto simp: b0_def)
    obtain rs s' hm' where run: "pipe_run (queueDelta R) ds s = (rs, s')" "set (map reply_err rs) \<subseteq> {None}"
      "hash_at (ks s') (hKey (Key b0)) = Some hm'"
      "hist_fields (hbuckets (boardHistogram b0)) hm' (bucket_count (cvt_oor R) b0 (apply_submit op enc l))"
      "\<And>k. k \<noteq> hKey (Key b0) \<Longrightarrow> ks s' k = ks s k"
      by (rule op_deltas_run [OF assms(2) assms(3) [OF l(1)] True b0_def sane hm ds']) blast
    have b0inv: "hist_inv (cvt_oor R) (op_step (op, enc) Kz) (ks s') b0"
      using run l by (simp add: hist_inv_def zset_at_op_step b0_def)
    show ?thesis
    proof (rule that [OF run(1,2)])
      fix b assume b: "same_config b (OpBoard op)" "hist_inv (cvt_oor R) Kz (ks s) b"
      show "hist_inv (cvt_oor R) (op_step (op, enc) Kz) (ks s') b"
      proof (cases "hashTag (Key b) = hashTag (Key b0)")
        case True
        with b(1) b0inv show ?thesis by (simp add: same_config_def b0_def hist_inv_cong [of b "OpBoard op"])
      next
        case False
        then show ?thesis using b(2) run(5) by (rule other)
      qed
    qed (use run(5) in \<open>simp add: b0_def\<close>)
  qed
qed

end

definition room :: "keyspace \<Rightarrow> Board \<Rightarrow> nat \<Rightarrow> bool" where
  "room K b n = (case zset_at K (zKey (Key b)) of None \<Rightarrow> False | Some l \<Rightarrow> int (length l) + int n < 2 ^ 63)"

text \<open>
  A set of boards whose histograms agree with their sorted sets, with room for \<open>n\<close> more members
  each.
\<close>

definition hist_world :: "(f64 \<Rightarrow> int) \<Rightarrow> Board set \<Rightarrow> nat \<Rightarrow> keyspace \<Rightarrow> keyspace \<Rightarrow> bool" where
  "hist_world oor Bs n Kz Kh \<longleftrightarrow>
     (\<forall>b \<in> Bs. \<forall>b' \<in> Bs. same_config b b') \<and>
     (\<forall>b \<in> Bs. approx_board b \<longrightarrow> hist_sane (boardHistogram b) \<and> hist_inv oor Kz Kh b \<and> room Kz b n)"

lemma room_op_step: "room K b (Suc n) \<Longrightarrow> room (op_step oe K) b n"
proof -
  assume r: "room K b (Suc n)"
  then obtain l where l: "zset_at K (zKey (Key b)) = Some l" "int (length l) + int (Suc n) < 2 ^ 63"
    by (auto simp: room_def split: option.splits)
  show ?thesis
  proof (cases "zKey (Key b) = zKey (Key (OpBoard (fst oe)))")
    case True
    with l have "op_zset K (fst oe) = l" by (simp add: op_zset_def)
    with True l length_apply_submit [of "fst oe" "snd oe" l] show ?thesis by (simp add: room_def zset_at_op_step)
  next
    case False
    with l show ?thesis by (simp add: room_def zset_at_op_step)
  qed
qed

lemma op_step_wf:
  assumes "\<And>k l. zset_at K k = Some l \<Longrightarrow> zset_ok l" "zset_at (op_step oe K) k = Some l"
  shows "zset_ok l"
proof -
  have "zset_ok (op_zset K (fst oe))"
    using assms(1) by (auto simp: op_zset_def split: option.splits)
  with assms show ?thesis by (auto simp: zset_at_op_step zset_ok_apply_submit split: if_splits)
qed

context redis_docs
begin

lemma batch_deltas_run:
  assumes "batch_ready Kz oes" "\<And>oe. oe \<in> set oes \<Longrightarrow> board_validate (OpBoard (fst oe)) = Inr () \<and> OpBoard (fst oe) \<in> Bs"
    "\<And>k l. zset_at Kz k = Some l \<Longrightarrow> zset_ok l"
    "hist_world (cvt_oor R) Bs (length oes + n) Kz (ks s)"
  shows "\<exists>rs s'. pipe_run (queueDelta R) (batch_deltas (cvt_oor R) Kz oes) s = (rs, s') \<and> set (map reply_err rs) \<subseteq> {None} \<and>
    hist_world (cvt_oor R) Bs n (batch_spec oes Kz) (ks s') \<and> (\<forall>k. (\<forall>k'. k \<noteq> hKey k') \<longrightarrow> ks s' k = ks s k)"
  using assms
proof (induction oes arbitrary: Kz s)
  case (Cons oe oes)
  obtain op enc where oe: "oe = (op, enc)" by (cases oe)
  have op: "board_validate (OpBoard op) = Inr ()" "OpBoard op \<in> Bs" "op_ready Kz op"
    using Cons.prems(1) Cons.prems(2) [of oe] oe by auto
  have ap: "hist_sane (boardHistogram (OpBoard op)) \<and> hist_inv (cvt_oor R) Kz (ks s) (OpBoard op) \<and>
       int (length (op_zset Kz op)) + 1 < 2 ^ 63" if "approx_op op"
  proof -
    from that op(2) Cons.prems(4) have "hist_sane (boardHistogram (OpBoard op))" "hist_inv (cvt_oor R) Kz (ks s) (OpBoard op)"
      "room Kz (OpBoard op) (length (oe # oes) + n)" by (auto simp: hist_world_def approx_op_def approx_board_def)
    then show ?thesis by (auto simp: room_def op_zset_def split: option.splits)
  qed
  obtain rs s1 where one: "pipe_run (queueDelta R) (op_deltas (cvt_oor R) op (zget (op_zset Kz op) (OpMember op))
        (submit_result (cvt_oor R) op enc (op_zset Kz op))) s = (rs, s1)"
    "set (map reply_err rs) \<subseteq> {None}" "\<And>k. k \<noteq> hKey (Key (OpBoard op)) \<Longrightarrow> ks s1 k = ks s k"
    "\<And>b. same_config b (OpBoard op) \<Longrightarrow> approx_board b \<Longrightarrow> hist_inv (cvt_oor R) Kz (ks s) b \<Longrightarrow>
       hist_inv (cvt_oor R) (op_step (op, enc) Kz) (ks s1) b"
    by (rule op_deltas_inv [OF op(3,1) Cons.prems(3) ap refl]) blast+
  have "hist_world (cvt_oor R) Bs (length oes + n) (op_step oe Kz) (ks s1)"
    using Cons.prems(4) op(2) one(4) room_op_step unfolding oe hist_world_def by simp
  moreover have "zset_ok l" if "zset_at (op_step oe Kz) k = Some l" for k l
    by (rule op_step_wf [OF _ that]) (rule Cons.prems(3))
  moreover have "batch_ready (op_step oe Kz) oes" using Cons.prems(1) by simp
  ultimately obtain rs' s2 where rest: "pipe_run (queueDelta R) (batch_deltas (cvt_oor R) (op_step oe Kz) oes) s1 = (rs', s2)"
    "set (map reply_err rs') \<subseteq> {None}" "hist_world (cvt_oor R) Bs n (batch_spec oes (op_step oe Kz)) (ks s2)"
    "\<forall>k. (\<forall>k'. k \<noteq> hKey k') \<longrightarrow> ks s2 k = ks s1 k"
    using Cons.IH [of "op_step oe Kz" s1] Cons.prems(2) by auto
  show ?case
    using one rest by (intro exI [of _ "rs @ rs'"] exI [of _ s2]) (auto simp: oe pipe_run_append batch_spec_def)
qed (simp add: batch_spec_def)

end

lemma hist_world_frame:
  assumes "hist_world oor Bs n Kz Kh" "\<And>k. Kz' (zKey k) = Kz (zKey k)" "\<And>k. Kh' (hKey k) = Kh (hKey k)"
  shows "hist_world oor Bs n Kz' Kh'"
proof -
  have z: "zset_at Kz' (zKey (Key b)) = zset_at Kz (zKey (Key b))" and h: "hash_at Kh' (hKey (Key b)) = hash_at Kh (hKey (Key b))" for b
    using assms(2,3) by (auto intro: zset_at_cong hash_at_cong)
  have "hist_inv oor Kz' Kh' b = hist_inv oor Kz Kh b" "room Kz' b n = room Kz b n" for b
    by (rule hist_inv_frame [OF z h]) (simp add: room_def z)
  with assms(1) show ?thesis by (simp add: hist_world_def)
qed

context redis_docs
begin

theorem SubmitBatch_refines:
  assumes "prepare (cvt_oor R) ops = Inr encs" "batch_ready (ks s) (zip ops encs)"
    "hist_world (cvt_oor R) Bs (length ops + n) (ks s) (ks s)" "OpBoard ` set ops \<subseteq> Bs"
  shows "\<exists>s'. SubmitBatch R ops s = (Inr (batch_results (cvt_oor R) (ks s) (zip ops encs)), s') \<and>
    (\<forall>k. (\<forall>k'. k \<noteq> hKey k') \<longrightarrow> ks s' k = batch_spec (zip ops encs) (ks s) k) \<and>
    hist_world (cvt_oor R) Bs n (ks s') (ks s')"
proof (cases "ops = []")
  case True
  then show ?thesis using assms by (simp add: SubmitBatch_def io_simps batch_spec_def)
next
  case False
  define oes where "oes = zip ops encs"
  have len: "length encs = length ops" by (rule prepare_length [OF assms(1)])
  have fsts: "map fst oes = ops" "length oes = length ops" using len by (simp_all add: oes_def)
  obtain cmds s1 where p: "pipe_run (\<lambda>(op, enc). queueSubmit R op enc) oes s = (cmds, s1)"
    by (cases "pipe_run (\<lambda>(op, enc). queueSubmit R op enc) oes s")
  note ps = pipe_submits_spec [OF assms(2) [folded oes_def] p]
  have hd: "hist_deltas (cvt_oor R) (zip ops (zip cmds (batch_results (cvt_oor R) (ks s) oes))) =
      Inr (batch_deltas (cvt_oor R) (ks s) oes)"
    using hist_deltas_spec [OF ps(4,5)] fsts by simp
  have val: "board_validate (OpBoard (fst oe)) = Inr () \<and> OpBoard (fst oe) \<in> Bs" if "oe \<in> set oes" for oe
  proof -
    from that fsts(1) have "fst oe \<in> set ops" by (metis imageI list.set_map)
    with assms(4) show ?thesis by (auto intro: prepare_valid [OF assms(1)])
  qed
  have hw: "hist_world (cvt_oor R) Bs (length oes + n) (ks s) (ks s1)"
    by (rule hist_world_frame [OF assms(3) [folded fsts(2)]]) (simp_all add: ps(1))
  obtain rs s2 where run: "pipe_run (queueDelta R) (batch_deltas (cvt_oor R) (ks s) oes) s1 = (rs, s2)"
    "set (map reply_err rs) \<subseteq> {None}" "hist_world (cvt_oor R) Bs n (batch_spec oes (ks s)) (ks s2)"
    "\<forall>k. (\<forall>k'. k \<noteq> hKey k') \<longrightarrow> ks s2 k = ks s1 k"
    using batch_deltas_run [OF assms(2) [folded oes_def] _ _ hw] val zset_at_ok by blast
  have m: "maintainHistograms R ops cmds (batch_results (cvt_oor R) (ks s) oes) s1 = (Inr (), s2)"
    using run hd by (auto simp: maintainHistograms_def io_simps first_err_None_iff [THEN iffD2])
  have "SubmitBatch R ops s = (Inr (batch_results (cvt_oor R) (ks s) oes), s2)"
    using False assms(1) p ps(3) m exec_failed_no_error [OF ps(2)]
    by (simp add: SubmitBatch_def io_simps oes_def [symmetric])
  moreover have "ks s2 k = batch_spec oes (ks s) k" if "\<forall>k'. k \<noteq> hKey k'" for k
    using run(4) that ps(1) by simp
  moreover from this have "hist_world (cvt_oor R) Bs n (ks s2) (ks s2)"
    by (intro hist_world_frame [OF run(3)]) simp_all
  ultimately show ?thesis by (auto simp: oes_def)
qed

subsection \<open>Removal and reset\<close>

lemma Remove_spec:
  assumes "key_validate (Key b) = Inr ()" "zset_at (ks s) (zKey (Key b)) = Some l"
    "approx_board b \<Longrightarrow> hist_sane (boardHistogram b) \<and> hist_inv (cvt_oor R) (ks s) (ks s) b \<and> int (length l) < 2 ^ 63"
  shows "\<exists>s'. Remove R b m s = (Inr (), s') \<and>
    (\<forall>k. k \<noteq> hKey (Key b) \<longrightarrow> ks s' k = ((ks s)(zKey (Key b) := zval (zdel l m))) k) \<and>
    (approx_board b \<longrightarrow> hist_inv (cvt_oor R) (ks s') (ks s') b) \<and>
    (\<not> approx_board b \<longrightarrow> ks s' = (ks s)(zKey (Key b) := zval (zdel l m)))"
proof -
  define key where "key = zKey (Key b)"
  define h where "h = boardHistogram b"
  note ok = zset_at_ok [OF assms(2)]
  obtain s2 where rem: "ZREM R key m s = (Reply (if zget l m = None then 0 else 1), s2)"
    using ZREM(1) [OF assms(2), of m] by (metis prod.collapse key_def)
  then have ks2: "ks s2 = (ks s)(key := zval (zdel l m))"
    using ZREM(2) [OF assms(2), of m] by (simp add: key_def)
  show ?thesis
  proof (cases "approx_board b")
    case False
    then have "Remove R b m s = (Inr (), s2)"
      using assms(1) rem by (simp add: Remove_def io_simps Let_def approx_board_def key_def)
    with False ks2 show ?thesis by (auto simp: key_def)
  next
    case True
    with assms(2,3) obtain hm where hm: "hash_at (ks s) (hKey (Key b)) = Some hm" "hist_sane h"
      "hist_fields (hbuckets h) hm (bucket_count (cvt_oor R) b l)" "int (length l) < 2 ^ 63"
      by (auto simp: hist_inv_def h_def split: option.splits)
    have z: "ZSCORE R key m s = (opt_reply (zget l m), s)" using assms(2) by (simp add: ZSCORE key_def)
    have h2: "hash_at (ks s2) (hkey h) = Some hm" using hm(1) ks2 by (simp add: h_def key_def hash_at_def)
    show ?thesis
    proof (cases "zget l m")
      case None
      then have "Remove R b m s = (Inr (), s2)"
        using assms(1) True rem z by (simp add: Remove_def io_simps Let_def approx_board_def key_def exec_failed_def)
      moreover have "hist_inv (cvt_oor R) (ks s2) (ks s2) b"
        using h2 hm(3) ks2 bucket_count_zdel [OF ok, of "cvt_oor R" b m] None
        by (simp add: hist_inv_def h_def key_def hist_fields_def)
      ultimately show ?thesis using ks2 True by (auto simp: key_def)
    next
      case (Some v)
      define i where "i = bucketIndex (cvt_oor R) h (board_decode (cvt_oor R) b v)"
      have "int64 (bucket_count (cvt_oor R) b l i + -1)"
        using bucket_count_nonneg [of "cvt_oor R" b l i] bucket_count_le [of "cvt_oor R" b l i] hm(4) by linarith
      then obtain r s3 hm' where d: "queueDelta R (h, board_decode (cvt_oor R) b v, -1) s2 = (Reply r, s3)"
        "hash_at (ks s3) (hkey h) = Some hm'"
        "hist_fields (hbuckets h) hm' (add_delta (cvt_oor R) (bucket_count (cvt_oor R) b l) (h, board_decode (cvt_oor R) b v, -1))"
        "\<And>k. k \<noteq> hkey h \<Longrightarrow> ks s3 k = ks s2 k"
        using queueDelta_run [OF h2 hm(3,2), of "board_decode (cvt_oor R) b v" "-1"] by (metis i_def)
      have "add_delta (cvt_oor R) (bucket_count (cvt_oor R) b l) (h, board_decode (cvt_oor R) b v, -1) =
          bucket_count (cvt_oor R) b (zdel l m)"
        by (auto simp: fun_eq_iff add_delta_def bucket_count_zdel [OF ok] Some bucket_of_def h_def)
      moreover have "zset_at (ks s3) key = Some (zdel l m)"
        using d(4) [of key] ks2 by (simp add: h_def key_def zset_at_def zval_def)
      ultimately have "hist_inv (cvt_oor R) (ks s3) (ks s3) b"
        using d by (simp add: hist_inv_def h_def key_def)
      moreover have "Remove R b m s = (Inr (), s3)"
        using assms(1) True rem z Some d(1)
        by (simp add: Remove_def io_simps Let_def approx_board_def key_def exec_failed_def hist_Remove_def
            hist_add_def queueDelta_def h_def board_decode_def)
      ultimately show ?thesis using ks2 d(4) True by (auto simp: key_def h_def)
    qed
  qed
qed

lemma Reset_spec:
  assumes "key_validate (Key b) = Inr ()"
  shows "\<exists>s'. Reset R b s = (Inr (), s') \<and>
    ks s' = (\<lambda>k. if k \<in> {zKey (Key b), hKey (Key b), metaKey (Key b)} then None else ks s k)"
proof -
  obtain n s' where d: "DEL R [zKey (Key b), hKey (Key b), metaKey (Key b)] s = (Reply n, s')"
    using DEL(1) by (metis prod.collapse)
  then have "ks s' = (\<lambda>k. if k \<in> {zKey (Key b), hKey (Key b), metaKey (Key b)} then None else ks s k)"
    using DEL(2) [of "[zKey (Key b), hKey (Key b), metaKey (Key b)]" s] by simp
  with d assms show ?thesis by (simp add: Reset_def io_simps)
qed

end

lemma hist_inv_empty:
  assumes "K (zKey (Key b)) = None" "K (hKey (Key b)) = None"
  shows "hist_inv oor K K b"
  using assms by (simp add: hist_inv_def hist_fields_def hash_int_def bucket_count_def)

subsection \<open>One submission\<close>

definition the_op :: "Board \<Rightarrow> string \<Rightarrow> rat \<Rightarrow> gotime \<Rightarrow> SubmitOp" where
  "the_op b m score t = \<lparr>OpBoard = b, OpMember = m, OpScore = score, OpTime = t\<rparr>"

lemma the_op_sel [simp]: "OpBoard (the_op b m score t) = b" "OpMember (the_op b m score t) = m"
  "OpScore (the_op b m score t) = score" "OpTime (the_op b m score t) = t"
  by (simp_all add: the_op_def)

context redis_docs
begin

lemma Submit_spec:
  assumes "board_validate b = Inr ()" "zset_at (ks s) (zKey (Key b)) = Some l"
    "encode (cvt_oor R) (withDefaults (Config b)) score t = Inr enc"
    and new: "new = policy_value (withDefaults (Config b)) (zget l m) score enc" "\<bar>new\<bar> < 2 ^ 1024"
    and "hist_world (cvt_oor R) {b} 1 (ks s) (ks s)"
  obtains s' where "Submit R b m score t s = (Inr \<lparr>Updated = (UpdatePolicy (withDefaults (Config b)) = UpdateIncrement \<or>
        zget l m \<noteq> Some new), NewScore = board_decode (cvt_oor R) b new\<rparr>, s')"
    "zset_at (ks s') (zKey (Key b)) = Some (apply_submit (the_op b m score t) enc l)"
    "\<And>k. k \<noteq> zKey (Key b) \<Longrightarrow> (\<forall>k'. k \<noteq> hKey k') \<Longrightarrow> ks s' k = ks s k"
    "hist_world (cvt_oor R) {b} 0 (ks s') (ks s')"
proof -
  define op where "op = the_op b m score t"
  have sel: "OpBoard op = b" "OpMember op = m" "OpScore op = score" "OpTime op = t" by (simp_all add: op_def)
  have ok: "zset_ok l" by (rule zset_at_ok [OF assms(2)])
  have prep: "prepare (cvt_oor R) [op] = Inr [enc]" using assms(1,3) by (simp add: sel newScoreCodec_def)
  have oz: "op_zset (ks s) op = l" using assms(2) by (simp add: op_zset_def sel)
  have "inc_value op l = new" if "increments op"
    using that by (simp add: new(1) sel inc_value_def policy_value_def increments_def)
  with new(2) have "increments op \<longrightarrow> \<bar>inc_value op l\<bar> < 2 ^ 1024" by metis
  then have ready: "batch_ready (ks s) (zip [op] [enc])"
    using assms(2) unfolding batch_ready.simps zip.simps list.case fst_conv op_ready_def sel by simp
  obtain s' where s': "SubmitBatch R [op] s = (Inr (batch_results (cvt_oor R) (ks s) (zip [op] [enc])), s')"
    "\<forall>k. (\<forall>k'. k \<noteq> hKey k') \<longrightarrow> ks s' k = batch_spec (zip [op] [enc]) (ks s) k"
    "hist_world (cvt_oor R) {b} 0 (ks s') (ks s')"
    using SubmitBatch_refines [OF prep ready, of "{b}" 0] assms(6) by (auto simp: sel)
  have "increments op \<Longrightarrow> board_decode (cvt_oor R) (OpBoard op) v = v" for v
    using assms(1) by (intro increments_decode) (simp_all add: sel)
  note res = submit_result_spec [OF ok this refl, of enc]
  have z1: "zset_at (ks s') (zKey (Key b)) = zset_at (op_step (op, enc) (ks s)) (zKey (Key b))"
    by (rule zset_at_cong) (use s'(2) in \<open>simp add: batch_spec_def\<close>)
  have z2: "zset_at (ks s') (zKey (Key b)) = Some (apply_submit op enc l)"
    unfolding z1 zset_at_op_step fst_conv snd_conv sel oz by simp
  have fr: "ks s' k = ks s k" if "k \<noteq> zKey (Key b)" "\<forall>k'. k \<noteq> hKey k'" for k
    using s'(2) that by (simp add: batch_spec_def op_step_def sel)
  have "Submit R b m score t s = (Inr (submit_result (cvt_oor R) op enc l), s')"
    using s'(1) unfolding Submit_def the_op_def [symmetric] op_def [symmetric] by (simp add: io_simps oz)
  with res z2 fr s'(3) show ?thesis
    by (intro that [of s']) (simp_all add: op_def increments_def new(1))
qed

end

end
