(* ===== verification/Engine_Approx.thy ===== *)
theory Engine_Approx
  imports Engine_Histogram
begin

text \<open>
  The accuracy of the approximate rank: it counts the members in better buckets exactly, so it is
  off by less than the population of the member's own bucket.
\<close>

subsection \<open>Decoding keeps the order\<close>

definition stored_range :: "BoardConfig \<Rightarrow> rat \<Rightarrow> bool" where
  "stored_range cfg v \<longleftrightarrow> (TieBreak cfg = TieFirstToReach \<longrightarrow> 0 \<le> v \<and> v < 2 ^ 53)"

lemma trunc_floor: "0 \<le> v \<Longrightarrow> trunc v = \<lfloor>v\<rfloor>"
  by (simp add: trunc_def)

lemma stored_floor:
  assumes "0 \<le> v" "v < 2 ^ 53"
  shows "f64_to_int64 oor (Fin v) = \<lfloor>v\<rfloor>"
proof -
  have "0 \<le> \<lfloor>v\<rfloor>" using assms(1) by simp
  moreover have "\<lfloor>v\<rfloor> < 2 ^ 53" using assms(2) by (simp add: floor_less_iff)
  ultimately have "int64 \<lfloor>v\<rfloor>" by simp
  then show ?thesis using trunc_floor [OF assms(1)] by (simp only: f64_to_int64.simps) simp
qed

lemma decode_mono:
  assumes "stored_range cfg v" "stored_range cfg w" "v \<le> w"
  shows "decode oor cfg v \<le> decode oor cfg w"
proof (cases "TieBreak cfg = TieFirstToReach")
  case True
  with assms have r: "0 \<le> v" "v < 2 ^ 53" "0 \<le> w" "w < 2 ^ 53" by (auto simp: stored_range_def)
  have "\<lfloor>v\<rfloor> div 2 ^ timeBits cfg \<le> \<lfloor>w\<rfloor> div 2 ^ timeBits cfg"
    using assms(3) by (intro zdiv_mono1 floor_mono) auto
  then show ?thesis
    by (simp only: decode_def True simp_thms if_False stored_floor [OF r(1,2)] stored_floor [OF r(3,4)] drop_bit_eq_div)
      (intro fl64_mono, simp)
qed (simp add: decode_def assms)

lemma encode_stored_range:
  assumes "codec_cfg cfg \<or> TieBreak cfg \<noteq> TieFirstToReach" "encode oor cfg score t = Inr e" "score < 2 ^ 63"
  shows "stored_range cfg e"
proof (cases "TieBreak cfg = TieFirstToReach")
  case True
  with assms(1) have c: "codec_cfg cfg" by simp
  obtain p where p: "0 \<le> p" "p < 2 ^ ScoreBits cfg" "0 \<le> tsSec oor cfg t" "tsSec oor cfg t < 2 ^ timeBits cfg"
    "e = of_int (p * 2 ^ timeBits cfg + time_comp cfg (tsSec oor cfg t))"
    using encode_Inr [OF c assms(2,3)] by blast
  note tc = time_comp_range [OF p(3,4)]
  note cb = composite_bound [OF p(1,2) tc [THEN conjunct1] tc [THEN conjunct2] timeBits_sum [OF c, THEN conjunct1]]
  have "e < of_int (2 ^ 53)" unfolding p(5) using cb(2) by (simp only: of_int_less_iff)
  then show ?thesis using cb(1) unfolding p(5) stored_range_def by (metis of_int_0_le_iff of_int_numeral of_int_power)
qed (simp add: stored_range_def)

subsection \<open>Counting by buckets\<close>

lemma length_filter_Cons: "int (length (filter P (x # l))) = (if P x then 1 else 0) + int (length (filter P l))"
  by simp

lemma sum_counts:
  "(\<Sum>i \<in> {a..b}. int (length (filter (\<lambda>e. g e = i) l))) = int (length (filter (\<lambda>e. a \<le> g e \<and> g e \<le> b) l))"
  for g :: "'a \<Rightarrow> int"
proof (induction l)
  case (Cons x l)
  have "(\<Sum>i \<in> {a..b}. if g x = i then 1 else 0 :: int) = (if a \<le> g x \<and> g x \<le> b then 1 else 0)"
    by (simp add: sum.delta')
  with Cons show ?case by (simp only: length_filter_Cons sum.distrib)
qed simp

lemma drop_upto: "0 \<le> k \<Longrightarrow> drop (nat k) [0..n] = [k..n]"
  by (intro nth_equalityI) auto

lemma take_upto: "0 \<le> k \<Longrightarrow> k \<le> n + 1 \<Longrightarrow> take (nat k) [0..n] = [0..k - 1]"
  by (intro nth_equalityI) auto

lemma bucket_count_sum:
  "sum_list (map (bucket_count oor b l) [i..j]) =
     int (length (filter (\<lambda>e. i \<le> bucket_of oor b (fst e) \<and> bucket_of oor b (fst e) \<le> j) l))"
  by (simp add: sum_counts bucket_count_def flip: sum_set_upto_conv_sum_list_int)

text \<open>Being in a better bucket than bucket \<open>i\<close>.\<close>

definition better :: "(f64 \<Rightarrow> int) \<Rightarrow> Board \<Rightarrow> int \<Rightarrow> rat \<times> string \<Rightarrow> bool" where
  "better oor b i e = (if is_asc b then bucket_of oor b (fst e) < i else i < bucket_of oor b (fst e))"

lemma filter_pos_le:
  assumes "\<And>j. j < length xs \<Longrightarrow> P (xs ! j) \<Longrightarrow> j < i"
  shows "length (filter P xs) \<le> i"
proof -
  have "filter P (drop i xs) = []"
  proof -
    have "\<not> P (xs ! (i + j))" if "j < length xs - i" for j
      using assms [of "i + j"] that by fastforce
    then show ?thesis by (auto simp: filter_empty_conv in_set_conv_nth)
  qed
  then have "filter P xs = filter P (take i xs)"
    by (metis append_Nil2 append_take_drop_id filter_append)
  then show ?thesis by (metis length_filter_le length_take min.bounded_iff)
qed

lemma filter_pos_ge:
  assumes "i < length xs" "\<And>j. j \<le> i \<Longrightarrow> P (xs ! j)"
  shows "Suc i \<le> length (filter P xs)"
proof -
  have "filter P (take (Suc i) xs) = take (Suc i) xs"
    using assms by (intro filter_True) (auto simp: in_set_conv_nth)
  then have "length (take (Suc i) xs) \<le> length (filter P xs)"
    by (metis append_take_drop_id filter_append length_append le_add1)
  then show ?thesis using assms(1) by simp
qed

text \<open>
  Where the bucket of a member leaves its exact position: not before the members of better
  buckets, and before the members of worse ones.
\<close>

lemma rank_bucket_bounds:
  assumes "zset_ok l" "hist_sane (boardHistogram b)"
    "\<And>e. e \<in> set l \<Longrightarrow> stored_range (newScoreCodec (withDefaults (Config b))) (fst e)"
    and r: "r = ranking (is_asc b) l" "i < length l" and k: "k = bucket_of oor b (fst (r ! i))"
  shows "length (filter (better oor b k) l) \<le> i"
    "Suc i \<le> length (filter (better oor b k) l) + nat (bucket_count oor b l k)"
proof -
  have len: "length r = length l" by (simp add: r)
  have st: "sorted_wrt (friend_less (is_asc b)) r" unfolding r by (rule ranking_sorted [OF assms(1)])
  have mono: "bucket_of oor b v \<le> bucket_of oor b w" if "v \<le> w" "(v, m) \<in> set l" "(w, m') \<in> set l" for v w m m'
    unfolding bucket_of_def board_decode_def using that
    by (intro bucketIndex_mono [OF assms(2)] decode_mono) (auto dest: assms(3))
  have ordered: "if is_asc b then bucket_of oor b (fst (r ! j)) \<le> bucket_of oor b (fst (r ! j'))
      else bucket_of oor b (fst (r ! j')) \<le> bucket_of oor b (fst (r ! j))" if "j \<le> j'" "j' < length l" for j j'
  proof (cases "j = j'")
    case False
    with that len have "j < j'" "j' < length r" by auto
    then have fl: "friend_less (is_asc b) (r ! j) (r ! j')" by (rule sorted_wrt_nth_less [OF st])
    have "r ! j \<in> set l" "r ! j' \<in> set l"
      using nth_mem [of j r] nth_mem [of j' r] that len by (simp_all add: r)
    then show ?thesis using fl mono [of "fst (r ! j)" "fst (r ! j')" "snd (r ! j)" "snd (r ! j')"]
        mono [of "fst (r ! j')" "fst (r ! j)" "snd (r ! j')" "snd (r ! j)"]
      by (cases "r ! j"; cases "r ! j'") (auto simp: friend_less_def split: if_splits)
  qed simp
  have fr: "length (filter P l) = length (filter P r)" for P
    by (simp add: r ranking_def rev_filter [symmetric])
  show "length (filter (better oor b k) l) \<le> i"
    unfolding fr
  proof (rule filter_pos_le)
    fix j assume "j < length r" "better oor b k (r ! j)"
    then show "j < i" using ordered [of i j] len by (force simp: better_def k split: if_splits)
  qed
  define Q where "Q = (\<lambda>e. better oor b k e \<or> bucket_of oor b (fst e) = k)"
  have "Suc i \<le> length (filter Q r)"
  proof (rule filter_pos_ge)
    show "i < length r" using r by simp
    fix j assume "j \<le> i"
    then show "Q (r ! j)" using ordered [of j i] r(2) by (auto simp: Q_def better_def k split: if_splits)
  qed
  also have "length (filter Q r) = length (filter (better oor b k) l) + length (filter (\<lambda>e. bucket_of oor b (fst e) = k) l)"
    unfolding fr [symmetric] by (induction l) (auto simp: Q_def better_def)
  finally show "Suc i \<le> length (filter (better oor b k) l) + nat (bucket_count oor b l k)"
    by (simp add: bucket_count_def)
qed

subsection \<open>The approximate rank\<close>

lemma countsFrom_spec:
  assumes "distinct (map fst xs)" "map_of xs = hm" "hist_fields (hbuckets h) hm f" "make_ok 8 (hbuckets h)"
  shows "countsFrom h xs = Inr (map f [0..hbuckets h - 1])"
proof -
  define cs where "cs = replicate (nat (hbuckets h)) (0::int)"
  have n: "0 \<le> hbuckets h" "hbuckets h < 2 ^ 63" using assms(4) by (auto simp: make_ok_def)
  have dom: "fst ` set xs \<subseteq> itoa ` {0..<hbuckets h}"
    using assms(2,3) dom_map_of_conv_image_fst [of xs] by (simp add: hist_fields_def)
  have "foldl (count_field h) cs xs = map f [0..hbuckets h - 1]"
  proof (rule nth_equalityI)
    fix i assume i: "i < length (foldl (count_field h) cs xs)"
    then have i': "int i \<in> {0..<hbuckets h}" by (auto simp: cs_def)
    then have hi: "hash_int hm (itoa (int i)) = Some (f (int i))" using assms(3) by (auto simp: hist_fields_def)
    have "foldl (count_field h) cs xs ! i = (case map_of xs (itoa (int i)) of None \<Rightarrow> cs ! i | Some v \<Rightarrow> parse_int64 v)"
      using i n by (intro count_fields_nth assms(1) dom) (auto simp: cs_def)
    also have "\<dots> = f (int i)"
      using hi assms(2) i' by (auto simp: hash_int_def cs_def parse_int64_atoi split: option.splits)
    finally show "foldl (count_field h) cs xs ! i = map f [0..hbuckets h - 1] ! i" using i' by simp
  qed (simp add: cs_def)
  then show ?thesis using assms(4) by (simp add: countsFrom_def cs_def)
qed

text \<open>The sum over a range of buckets, plus one, in \<open>int64\<close>.\<close>

lemma bucket_sum64:
  assumes "int (length l) + 1 < 2 ^ 63"
  shows "wrap64 (sum64 (map (bucket_count oor b l) [i..j]) + 1) =
    int (length (filter (\<lambda>e. i \<le> bucket_of oor b (fst e) \<and> bucket_of oor b (fst e) \<le> j) l)) + 1"
proof -
  define c where "c = int (length (filter (\<lambda>e. i \<le> bucket_of oor b (fst e) \<and> bucket_of oor b (fst e) \<le> j) l))"
  have c: "c \<le> int (length l)" "0 \<le> c" by (simp_all add: c_def)
  have sl: "sum_list (map (bucket_count oor b l) [i..j]) = c" unfolding c_def by (rule bucket_count_sum)
  have "sum64 (map (bucket_count oor b l) [i..j]) = sum_list (map (bucket_count oor b l) [i..j])"
    by (rule sum64_bounded) (use c assms sl bucket_count_nonneg in auto)
  moreover have "wrap64 (c + 1) = c + 1" using c assms by (intro wrap64_nonneg) auto
  ultimately show ?thesis using sl by (simp add: c_def)
qed

lemma approxRankFromCounts_spec:
  assumes "hist_sane (boardHistogram b)" "int (length l) + 1 < 2 ^ 63" "k = bucket_of oor b v" "n = hbuckets (boardHistogram b)"
    "n \<le> 2 ^ 48"
  shows "approxRankFromCounts (map (bucket_count oor b l) [0..n - 1]) k (is_asc b) =
    Inr (int (length (filter (better oor b k) l)) + 1)"
proof -
  have range: "0 \<le> bucket_of oor b x" "bucket_of oor b x \<le> n - 1" for x
    using bucketIndex_range [OF assms(1), of oor] by (auto simp: bucket_of_def assms(4))
  have k: "0 \<le> k" "k \<le> n - 1" using range assms(3) by auto
  have w: "wrap64 (k + 1) = k + 1" using k assms(5) by (intro wrap64_nonneg) auto
  show ?thesis
  proof (cases "is_asc b")
    case True
    have "filter (\<lambda>e. 0 \<le> bucket_of oor b (fst e) \<and> bucket_of oor b (fst e) \<le> k - 1) l = filter (better oor b k) l"
      using range True by (intro filter_cong) (auto simp: better_def)
    then show ?thesis using True k bucket_sum64 [OF assms(2), of oor b 0 "k - 1"]
      by (simp add: approxRankFromCounts_def take_map take_upto)
  next
    case False
    have "filter (\<lambda>e. k + 1 \<le> bucket_of oor b (fst e) \<and> bucket_of oor b (fst e) \<le> n - 1) l = filter (better oor b k) l"
      using range False by (intro filter_cong) (auto simp: better_def)
    then show ?thesis using False k bucket_sum64 [OF assms(2), of oor b "k + 1" "n - 1"]
      by (simp add: approxRankFromCounts_def drop_map drop_upto w)
  qed
qed

context redis_docs
begin

lemma hist_counts_spec:
  assumes "hash_at (ks s) (hkey h) = Some hm" "hist_fields (hbuckets h) hm f" "make_ok 8 (hbuckets h)"
  shows "hist_counts R h s = (Inr (map f [0..hbuckets h - 1]), s)"
proof -
  obtain xs where xs: "HGETALL R (hkey h) s = (Reply xs, s)" "distinct (map fst xs)" "map_of xs = hm"
    using HGETALL [OF assms(1)] by blast
  then show ?thesis using countsFrom_spec [OF xs(2,3) assms(2,3)] by (simp add: hist_counts_def io_simps)
qed

lemma GetApproxRank_spec:
  assumes "board_validate b = Inr ()" "approx_board b" "hist_sane (boardHistogram b)" "make_ok 8 (hbuckets (boardHistogram b))"
    "zset_at (ks s) (zKey (Key b)) = Some l" "hist_inv (cvt_oor R) (ks s) (ks s) b" "int (length l) + 1 < 2 ^ 63"
  shows "GetApproxRank R b m s = (case zget l m of None \<Rightarrow> (Inl ErrMemberNotFound, s)
    | Some v \<Rightarrow> (Inr \<lparr>Member = m, Score = board_decode (cvt_oor R) b v,
        Rank = int (length (filter (better (cvt_oor R) b (bucket_of (cvt_oor R) b v)) l)) + 1,
        Exact = False, Nickname = ''''\<rparr>, s))"
proof (cases "zget l m")
  case None
  then show ?thesis using assms(1,2) ZSCORE [OF assms(5), of m]
    by (simp add: GetApproxRank_def io_simps Let_def approx_board_def)
next
  case (Some v)
  define h where "h = boardHistogram b"
  define k where "k = bucket_of (cvt_oor R) b v"
  define f where "f = bucket_count (cvt_oor R) b l"
  obtain hm where hm: "hash_at (ks s) (hkey h) = Some hm" "hist_fields (hbuckets h) hm f"
    using assms(5,6) by (auto simp: hist_inv_def h_def f_def split: option.splits)
  note hc = hist_counts_spec [OF hm assms(4) [folded h_def]]
  have k: "0 \<le> k" "k \<le> hbuckets h - 1" "bucketIndex (cvt_oor R) h (board_decode (cvt_oor R) b v) = k"
    using bucketIndex_range [OF assms(3), of "cvt_oor R"] by (auto simp: k_def bucket_of_def h_def)
  have n: "hbuckets h \<le> 2 ^ 48" using assms(4) by (simp add: make_ok_def h_def)
  have w: "0 \<le> wrap64 (k + 1)" using k n by (subst wrap64_nonneg) auto
  have "approxRankFromCounts (map f [0..hbuckets h - 1]) k (is_asc b) =
      Inr (int (length (filter (better (cvt_oor R) b k) l)) + 1)"
    unfolding f_def using n by (intro approxRankFromCounts_spec [OF assms(3,7) k_def]) (simp_all add: h_def)
  then have rk: "(if is_asc b then ApproxRankAsc R h (board_decode (cvt_oor R) b v)
       else ApproxRankDesc R h (board_decode (cvt_oor R) b v)) s =
     (Inr (int (length (filter (better (cvt_oor R) b k) l)) + 1), s)"
    using w k(3) by (auto simp: ApproxRankAsc_def ApproxRankDesc_def io_simps hc Let_def approxRankFromCounts_def split: if_splits)
  show ?thesis using assms(1,2) ZSCORE [OF assms(5), of m] Some rk
    by (simp add: GetApproxRank_def io_simps approx_board_def is_asc_def [symmetric] board_decode_def [symmetric]
        h_def [symmetric] Let_def k_def)
qed

end

end
