(* ===== verification/Engine_Scan.thy ===== *)
theory Engine_Scan
  imports Engine_Approx
begin

text \<open>
  Operations that range over all physical boards of a logical board: the glob pattern of the scan
  matches exactly the board's sorted sets, the cursor loop ends and returns their keys, and
  \<open>RemoveFromAll\<close> and \<open>Segments\<close> act on exactly these.
\<close>

subsection \<open>The pattern\<close>

definition plain :: "char \<Rightarrow> bool" where
  "plain c \<longleftrightarrow> c \<notin> set glob_special"

lemma glob_plain: "plain c \<Longrightarrow> glob (c # p) k \<longleftrightarrow> (\<exists>k'. k = c # k' \<and> glob p k')"
  by (cases k) (auto simp: plain_def glob_special_def)

lemma glob_quoted: "glob (CHR 0x5C # c # p) k \<longleftrightarrow> (\<exists>k'. k = c # k' \<and> glob p k')"
  by (cases k) auto

lemma glob_escape: "glob (globEscape s @ p) k \<longleftrightarrow> (\<exists>k'. k = s @ k' \<and> glob p k')"
proof (induction s arbitrary: k)
  case (Cons c s)
  then show ?case
    by (cases "c \<in> set glob_special") (auto simp: globEscape_def glob_quoted glob_plain plain_def)
qed (simp add: globEscape_def)

lemma glob_literal: "list_all plain s \<Longrightarrow> glob (s @ p) k \<longleftrightarrow> (\<exists>k'. k = s @ k' \<and> glob p k')"
  by (induction s arbitrary: k) (auto simp: glob_plain)

lemma glob_star: "glob (CHR ''*'' # p) k \<longleftrightarrow> (\<exists>k1 k2. k = k1 @ k2 \<and> glob p k2)"
proof (induction k)
  case (Cons c k)
  have "glob (CHR ''*'' # p) (c # k) \<longleftrightarrow> glob p (c # k) \<or> (\<exists>k1 k2. k = k1 @ k2 \<and> glob p k2)"
    using Cons by simp
  also have "\<dots> \<longleftrightarrow> (\<exists>k1 k2. c # k = k1 @ k2 \<and> glob p k2)"
    by (metis append_Cons append_Nil list.exhaust list.inject)
  finally show ?case .
qed simp

lemma simple_pat_escape: "simple_pat (globEscape s @ p) = simple_pat p"
  by (induction s) (auto simp: globEscape_def glob_special_def)

lemma simple_scan_pattern: "simple_pat (scan_pattern app board)"
  by (simp add: scan_pattern_def simple_pat_escape)

lemma glob_scan_pattern:
  "glob (scan_pattern app board) k \<longleftrightarrow> (\<exists>mid. k = ''lb:{'' @ app @ '':'' @ board @ '':'' @ mid @ ''}:z'')"
proof -
  have l1: "glob (''lb:{'' @ p) k \<longleftrightarrow> (\<exists>k'. k = ''lb:{'' @ k' \<and> glob p k')" for p k
    by (rule glob_literal) (simp add: plain_def glob_special_def)
  have l2: "glob ('':'' @ p) k \<longleftrightarrow> (\<exists>k'. k = '':'' @ k' \<and> glob p k')" for p k
    by (rule glob_literal) (simp add: plain_def glob_special_def)
  have l3: "glob ''}:z'' k \<longleftrightarrow> k = ''}:z''" for k
    using glob_literal [of "''}:z''" "[]" k] by (simp add: plain_def glob_special_def)
  have "scan_pattern app board = ''lb:{'' @ globEscape app @ '':'' @ globEscape board @ '':'' @ (CHR ''*'' # ''}:z'')"
    by (simp add: scan_pattern_def)
  then have "glob (scan_pattern app board) k \<longleftrightarrow> (\<exists>mid. k = ''lb:{'' @ (app @ ('':'' @ (board @ ('':'' @ (mid @ ''}:z''))))))"
    by (simp only: l1 glob_escape l2 glob_star l3) blast
  then show ?thesis by simp
qed

subsection \<open>Parsing a key\<close>

lemma clean_hashTag: "key_validate k = Inr () \<Longrightarrow> CHR ''}'' \<notin> set (hashTag k)"
  using key_validD [of k] by (auto simp: hashTag_def clean_def)

lemma parse_zKey:
  assumes "key_validate k = Inr ()"
  shows "parse_board_key (zKey k) = Some (norm_key k)"
proof -
  have o: "index_byte (zKey k) CHR ''{'' = 3"
    using index_byte_append [of "CHR ''{''" "''lb:''" "hashTag k @ ''}:z''"] by (simp add: zKey_def)
  have c: "index_byte (zKey k) CHR ''}'' = 4 + int (length (hashTag k))"
    using index_byte_append [of "CHR ''}''" "''lb:{'' @ hashTag k" "'':z''"] clean_hashTag [OF assms] by (simp add: zKey_def)
  have "slice (zKey k) 4 (4 + int (length (hashTag k))) = hashTag k"
    by (simp add: slice_def zKey_def)
  then show ?thesis
    by (simp add: parse_board_key_def o c split_hashTag [OF assms] norm_key_def)
qed

lemma key_validate_norm [simp]: "key_validate (norm_key k) = key_validate k"
  by (simp add: key_validate_def sanitizeSegment_def effWindow_def)

lemma zKey_norm [simp]: "zKey (norm_key k) = zKey k" and hKey_norm [simp]: "hKey (norm_key k) = hKey k"
  by (simp_all add: zKey_def hKey_def)

text \<open>A well-formed keyspace has only keys written by the engine under the board's pattern.\<close>

definition of_board :: "string \<Rightarrow> string \<Rightarrow> BoardKey \<Rightarrow> bool" where
  "of_board app board k \<longleftrightarrow> key_validate k = Inr () \<and> App k = app \<and> BoardName k = board"

definition lb_keys :: "keyspace \<Rightarrow> string \<Rightarrow> string \<Rightarrow> bool" where
  "lb_keys K app board \<longleftrightarrow>
     (\<forall>raw. K raw \<noteq> None \<and> glob (scan_pattern app board) raw \<longrightarrow> (\<exists>k. key_validate k = Inr () \<and> raw = zKey k))"

lemma append_colon_inject:
  "a @ '':'' @ x = b @ '':'' @ y \<Longrightarrow> CHR '':'' \<notin> set a \<Longrightarrow> CHR '':'' \<notin> set b \<Longrightarrow> a = b \<and> x = y"
proof (induction a arbitrary: b)
  case Nil
  then show ?case by (cases b) auto
next
  case (Cons c a)
  then show ?case by (cases b) auto
qed

lemma glob_zKey:
  assumes "key_validate k = Inr ()" "clean app" "clean board"
  shows "glob (scan_pattern app board) (zKey k) \<longleftrightarrow> App k = app \<and> BoardName k = board"
proof
  assume "glob (scan_pattern app board) (zKey k)"
  then obtain mid where "hashTag k @ ''}:z'' = (app @ '':'' @ board @ '':'' @ mid) @ ''}:z''"
    by (auto simp: glob_scan_pattern zKey_def)
  then have "hashTag k = app @ '':'' @ board @ '':'' @ mid" by (simp only: append_same_eq)
  then show "App k = app \<and> BoardName k = board"
    using key_validD [OF assms(1)] assms(2,3) append_colon_inject unfolding hashTag_def clean_def by metis
qed (auto simp: glob_scan_pattern zKey_def hashTag_def)

subsection \<open>The loop\<close>

lemma scan_loop_chain:
  assumes "scan_chain (\<lambda>c. SCAN R c pat 200 s) s c bs" "length bs \<le> fuel"
  shows "scan_loop fuel R pat c acc s = (Inr (acc @ List.map_filter parse_board_key (concat (map fst bs))), s)"
  using assms
proof (induction bs arbitrary: c acc fuel)
  case (Cons x bs)
  obtain b n where x: "x = (b, n)" by (cases x)
  obtain f where f: "fuel = Suc f" "length bs \<le> f" using Cons.prems(2) by (cases fuel) auto
  have sc: "SCAN R c pat 200 s = (Reply (b, n), s)" using Cons.prems(1) x by simp
  show ?case
  proof (cases "bs = []")
    case True
    with Cons.prems(1) x have "n = 0" by simp
    with True sc f x show ?thesis by (simp add: io_simps)
  next
    case False
    with Cons.prems(1) x have n: "n \<noteq> 0" "scan_chain (\<lambda>c. SCAN R c pat 200 s) s n bs" by auto
    with Cons.IH [OF n(2) f(2)] sc f x show ?thesis by (simp add: io_simps map_filter_append)
  qed
qed simp

context redis_docs
begin

lemma scanBoardKeys_spec:
  assumes "lb_keys (ks s) app board" "clean app" "clean board"
  shows "\<exists>F keys. (\<forall>fuel \<ge> F. scanBoardKeys fuel R app board s = (Inr keys, s)) \<and>
    set keys = {norm_key k | k. of_board app board k \<and> ks s (zKey k) \<noteq> None}"
proof -
  obtain bs where bs: "scan_chain (\<lambda>c. SCAN R c (scan_pattern app board) 200 s) s 0 bs"
    "set (concat (map fst bs)) = {k. ks s k \<noteq> None \<and> glob (scan_pattern app board) k}"
    using SCAN [OF simple_scan_pattern] by blast
  define keys where "keys = List.map_filter parse_board_key (concat (map fst bs))"
  have "set keys = {k'. \<exists>raw. ks s raw \<noteq> None \<and> glob (scan_pattern app board) raw \<and> parse_board_key raw = Some k'}"
    unfolding keys_def set_map_filter bs(2) by blast
  also have "\<dots> = {norm_key k | k. of_board app board k \<and> ks s (zKey k) \<noteq> None}"
  proof (intro set_eqI iffI)
    fix k' assume "k' \<in> {k'. \<exists>raw. ks s raw \<noteq> None \<and> glob (scan_pattern app board) raw \<and> parse_board_key raw = Some k'}"
    then obtain raw where raw: "ks s raw \<noteq> None" "glob (scan_pattern app board) raw" "parse_board_key raw = Some k'" by blast
    with assms(1) obtain k where k: "key_validate k = Inr ()" "raw = zKey k" by (auto simp: lb_keys_def)
    with raw assms show "k' \<in> {norm_key k | k. of_board app board k \<and> ks s (zKey k) \<noteq> None}"
      by (auto simp: parse_zKey of_board_def glob_zKey)
  next
    fix k' assume "k' \<in> {norm_key k | k. of_board app board k \<and> ks s (zKey k) \<noteq> None}"
    then obtain k where k: "k' = norm_key k" "of_board app board k" "ks s (zKey k) \<noteq> None" by blast
    with assms(2,3) show "k' \<in> {k'. \<exists>raw. ks s raw \<noteq> None \<and> glob (scan_pattern app board) raw \<and> parse_board_key raw = Some k'}"
      by (intro CollectI exI [of _ "zKey k"]) (auto simp: parse_zKey of_board_def glob_zKey)
  qed
  finally have "set keys = {norm_key k | k. of_board app board k \<and> ks s (zKey k) \<noteq> None}" .
  moreover have "scanBoardKeys fuel R app board s = (Inr keys, s)" if "length bs \<le> fuel" for fuel
    using scan_loop_chain [OF bs(1) that, of "[]"] by (simp add: scanBoardKeys_def keys_def)
  ultimately show ?thesis by blast
qed

end

subsection \<open>Removal everywhere\<close>

definition board_good :: "(f64 \<Rightarrow> int) \<Rightarrow> keyspace \<Rightarrow> Board \<Rightarrow> bool" where
  "board_good oor K b = (case zset_at K (zKey (Key b)) of None \<Rightarrow> False
     | Some l \<Rightarrow> approx_board b \<longrightarrow> hist_sane (boardHistogram b) \<and> hist_inv oor K K b \<and> int (length l) < 2 ^ 63)"

lemma board_good_cong:
  assumes "hashTag (Key b) = hashTag (Key b')" "withDefaults (Config b) = withDefaults (Config b')"
  shows "board_good oor K b = board_good oor K b'"
proof -
  have k: "zKey (Key b) = zKey (Key b')" "hKey (Key b) = hKey (Key b')"
    using assms(1) by (simp_all add: zKey_def hKey_def)
  have "boardHistogram b = boardHistogram b'"
    using assms k by (simp add: boardHistogram_def NewHistogram_def Let_def)
  then show ?thesis
    by (simp add: board_good_def k approx_board_def assms(2) hist_inv_cong [OF assms] split: option.splits)
qed

lemma length_zdel: "length (zdel l m) \<le> length l"
  by (simp add: zdel_def)

lemma zdel_absent: "zget l m = None \<Longrightarrow> zdel l m = l"
  unfolding zget_None_iff zdel_def by (intro filter_True) force

lemma zdel_idem [simp]: "zdel (zdel l m) m = zdel l m"
  by (simp add: zdel_def)

context redis_docs
begin

lemma Remove_good:
  assumes "key_validate (Key b) = Inr ()" "board_good (cvt_oor R) (ks s) b"
  obtains s' where "Remove R b m s = (Inr (), s')"
    "\<And>k. zset_at (ks s') (zKey k) =
       (if hashTag k = hashTag (Key b) then map_option (\<lambda>l. zdel l m) (zset_at (ks s) (zKey k)) else zset_at (ks s) (zKey k))"
    "\<And>k. k \<noteq> hKey (Key b) \<Longrightarrow> k \<noteq> zKey (Key b) \<Longrightarrow> ks s' k = ks s k"
    "\<And>b'. same_config b' b \<Longrightarrow> board_good (cvt_oor R) (ks s) b' \<Longrightarrow> board_good (cvt_oor R) (ks s') b'"
proof -
  obtain l where l: "zset_at (ks s) (zKey (Key b)) = Some l"
    "approx_board b \<Longrightarrow> hist_sane (boardHistogram b) \<and> hist_inv (cvt_oor R) (ks s) (ks s) b \<and> int (length l) < 2 ^ 63"
    using assms(2) by (auto simp: board_good_def split: option.splits)
  obtain s' where r: "Remove R b m s = (Inr (), s')"
    "\<And>k. k \<noteq> hKey (Key b) \<Longrightarrow> ks s' k = ((ks s)(zKey (Key b) := zval (zdel l m))) k"
    "approx_board b \<Longrightarrow> hist_inv (cvt_oor R) (ks s') (ks s') b"
    using Remove_spec [OF assms(1) l, of m] by blast
  have z: "zset_at (ks s') (zKey k) =
       (if hashTag k = hashTag (Key b) then map_option (\<lambda>l. zdel l m) (zset_at (ks s) (zKey k)) else zset_at (ks s) (zKey k))" for k
  proof -
    have "zset_at (ks s') (zKey k) = zset_at ((ks s)(zKey (Key b) := zval (zdel l m))) (zKey k)"
      by (rule zset_at_cong) (rule r(2), simp)
    moreover have "zKey k = zKey (Key b) \<Longrightarrow> zset_at (ks s) (zKey k) = Some l" using l(1) by simp
    ultimately show ?thesis by (simp add: zKey_eq_iff)
  qed
  show ?thesis
  proof (rule that [OF r(1) z])
    fix b' assume b': "same_config b' b" "board_good (cvt_oor R) (ks s) b'"
    show "board_good (cvt_oor R) (ks s') b'"
    proof (cases "hashTag (Key b') = hashTag (Key b)")
      case True
      have "board_good (cvt_oor R) (ks s') b"
        using l r(3) z [of "Key b"] length_zdel [of l m] by (auto simp: board_good_def)
      with True b'(1) show ?thesis by (simp add: same_config_def board_good_cong [of b' b])
    next
      case False
      have h: "hash_at (ks s') (hKey (Key b')) = hash_at (ks s) (hKey (Key b'))"
        by (rule hash_at_cong) (use False r(2) in \<open>simp add: hKey_eq_iff\<close>)
      have z': "zset_at (ks s') (zKey (Key b')) = zset_at (ks s) (zKey (Key b'))" using False z by simp
      show ?thesis using b'(2) unfolding board_good_def z' hist_inv_frame [OF z' h] .
    qed
  qed (use r(2) in auto)
qed

lemma Remove_each:
  assumes "\<And>k. k \<in> set keys \<Longrightarrow> key_validate k = Inr ()"
    "\<And>k. k \<in> set keys \<Longrightarrow> board_good (cvt_oor R) (ks s) \<lparr>Key = k, Config = cfg\<rparr>"
  shows "\<exists>s'. io_each (\<lambda>k. Remove R \<lparr>Key = k, Config = cfg\<rparr> m) keys s = (Inr (), s') \<and>
    (\<forall>k. zset_at (ks s') (zKey k) =
       (if hashTag k \<in> hashTag ` set keys then map_option (\<lambda>l. zdel l m) (zset_at (ks s) (zKey k)) else zset_at (ks s) (zKey k))) \<and>
    (\<forall>k. k \<notin> hKey ` set keys \<and> k \<notin> zKey ` set keys \<longrightarrow> ks s' k = ks s k) \<and>
    (\<forall>b'. (\<forall>k \<in> set keys. same_config b' \<lparr>Key = k, Config = cfg\<rparr>) \<and> board_good (cvt_oor R) (ks s) b' \<longrightarrow>
       board_good (cvt_oor R) (ks s') b')"
  using assms
proof (induction keys arbitrary: s)
  case (Cons k0 keys)
  let ?b = "\<lparr>Key = k0, Config = cfg\<rparr>"
  have g: "key_validate (Key ?b) = Inr ()" "board_good (cvt_oor R) (ks s) ?b" using Cons.prems by auto
  obtain s1 where s1: "Remove R ?b m s = (Inr (), s1)"
    "\<And>k. zset_at (ks s1) (zKey k) =
       (if hashTag k = hashTag (Key ?b) then map_option (\<lambda>l. zdel l m) (zset_at (ks s) (zKey k)) else zset_at (ks s) (zKey k))"
    "\<And>k. k \<noteq> hKey (Key ?b) \<Longrightarrow> k \<noteq> zKey (Key ?b) \<Longrightarrow> ks s1 k = ks s k"
    "\<And>b'. same_config b' ?b \<Longrightarrow> board_good (cvt_oor R) (ks s) b' \<Longrightarrow> board_good (cvt_oor R) (ks s1) b'"
    by (rule Remove_good [OF g]) blast+
  have "board_good (cvt_oor R) (ks s1) \<lparr>Key = k, Config = cfg\<rparr>" if "k \<in> set keys" for k
    using that Cons.prems(2) by (intro s1(4)) (simp_all add: same_config_def)
  then obtain s2 where s2: "io_each (\<lambda>k. Remove R \<lparr>Key = k, Config = cfg\<rparr> m) keys s1 = (Inr (), s2)"
    "\<forall>k. zset_at (ks s2) (zKey k) =
       (if hashTag k \<in> hashTag ` set keys then map_option (\<lambda>l. zdel l m) (zset_at (ks s1) (zKey k)) else zset_at (ks s1) (zKey k))"
    "\<forall>k. k \<notin> hKey ` set keys \<and> k \<notin> zKey ` set keys \<longrightarrow> ks s2 k = ks s1 k"
    "\<forall>b'. (\<forall>k \<in> set keys. same_config b' \<lparr>Key = k, Config = cfg\<rparr>) \<and> board_good (cvt_oor R) (ks s1) b' \<longrightarrow>
       board_good (cvt_oor R) (ks s2) b'"
    using Cons.IH [of s1] Cons.prems(1) by auto
  have "io_each (\<lambda>k. Remove R \<lparr>Key = k, Config = cfg\<rparr> m) (k0 # keys) s = (Inr (), s2)"
    using s1(1) s2(1) by (simp add: io_simps)
  moreover have "zset_at (ks s2) (zKey k) = (if hashTag k \<in> hashTag ` set (k0 # keys)
      then map_option (\<lambda>l. zdel l m) (zset_at (ks s) (zKey k)) else zset_at (ks s) (zKey k))" for k
    using s1(2) s2(2) by (auto simp: option.map_comp comp_def)
  moreover have "ks s2 k = ks s k" if "k \<notin> hKey ` set (k0 # keys)" "k \<notin> zKey ` set (k0 # keys)" for k
    using s1(3) s2(3) that by simp
  moreover have "board_good (cvt_oor R) (ks s2) b'"
    if "\<forall>k \<in> set (k0 # keys). same_config b' \<lparr>Key = k, Config = cfg\<rparr>" "board_good (cvt_oor R) (ks s) b'" for b'
    using s1(4) [of b'] s2(4) that by simp
  ultimately show ?case by blast
qed (simp add: io_simps)

lemma RemoveFromAll_full:
  assumes "lb_keys (ks s) (LApp lb) (LBoard lb)" "clean (LApp lb)" "clean (LBoard lb)"
    "\<And>k. of_board (LApp lb) (LBoard lb) k \<Longrightarrow> board_good (cvt_oor R) (ks s) \<lparr>Key = k, Config = LConfig lb\<rparr>"
  shows "\<exists>F s'. (\<forall>fuel \<ge> F. RemoveFromAll fuel R lb m s = (Inr (), s')) \<and>
    (\<forall>k. key_validate k = Inr () \<longrightarrow> zset_at (ks s') (zKey k) =
       (if App k = LApp lb \<and> BoardName k = LBoard lb then map_option (\<lambda>l. zdel l m) (zset_at (ks s) (zKey k))
        else zset_at (ks s) (zKey k))) \<and>
    (\<forall>raw. (\<forall>k. key_validate k = Inr () \<longrightarrow> raw \<noteq> hKey k \<and> raw \<noteq> zKey k) \<longrightarrow> ks s' raw = ks s raw) \<and>
    (\<forall>b'. (\<forall>k. of_board (LApp lb) (LBoard lb) k \<longrightarrow> same_config b' \<lparr>Key = k, Config = LConfig lb\<rparr>) \<and>
       board_good (cvt_oor R) (ks s) b' \<longrightarrow> board_good (cvt_oor R) (ks s') b')"
proof -
  obtain F keys where fk: "\<forall>fuel \<ge> F. scanBoardKeys fuel R (LApp lb) (LBoard lb) s = (Inr keys, s)"
    "set keys = {norm_key k | k. of_board (LApp lb) (LBoard lb) k \<and> ks s (zKey k) \<noteq> None}"
    using scanBoardKeys_spec [OF assms(1-3)] by blast
  have v: "key_validate k = Inr ()" if "k \<in> set keys" for k
    using that unfolding fk(2) by (auto simp: of_board_def)
  have g: "board_good (cvt_oor R) (ks s) \<lparr>Key = k, Config = LConfig lb\<rparr>" if kin: "k \<in> set keys" for k
  proof -
    obtain k0 where k0: "k = norm_key k0" "of_board (LApp lb) (LBoard lb) k0" using kin unfolding fk(2) by auto
    show ?thesis using assms(4) [OF k0(2)] by (subst board_good_cong [of _ "\<lparr>Key = k0, Config = LConfig lb\<rparr>"]) (simp_all add: k0)
  qed
  obtain s' where s': "io_each (\<lambda>k. Remove R \<lparr>Key = k, Config = LConfig lb\<rparr> m) keys s = (Inr (), s')"
    "\<And>k. zset_at (ks s') (zKey k) =
       (if hashTag k \<in> hashTag ` set keys then map_option (\<lambda>l. zdel l m) (zset_at (ks s) (zKey k)) else zset_at (ks s) (zKey k))"
    "\<And>k. k \<notin> hKey ` set keys \<Longrightarrow> k \<notin> zKey ` set keys \<Longrightarrow> ks s' k = ks s k"
    "\<And>b'. (\<forall>k \<in> set keys. same_config b' \<lparr>Key = k, Config = LConfig lb\<rparr>) \<Longrightarrow> board_good (cvt_oor R) (ks s) b' \<Longrightarrow>
       board_good (cvt_oor R) (ks s') b'"
    using Remove_each [of keys s "LConfig lb" m] v g by blast
  have fr: "ks s' raw = ks s raw" if "\<forall>k. key_validate k = Inr () \<longrightarrow> raw \<noteq> hKey k \<and> raw \<noteq> zKey k" for raw
    by (rule s'(3)) (use that v in blast)+
  have gd: "board_good (cvt_oor R) (ks s') b'"
    if b': "\<forall>k. of_board (LApp lb) (LBoard lb) k \<longrightarrow> same_config b' \<lparr>Key = k, Config = LConfig lb\<rparr>"
      "board_good (cvt_oor R) (ks s) b'" for b'
  proof (rule s'(4) [OF _ b'(2)])
    show "\<forall>k \<in> set keys. same_config b' \<lparr>Key = k, Config = LConfig lb\<rparr>"
      using b'(1) unfolding fk(2) same_config_def by auto
  qed
  have "zset_at (ks s') (zKey k) =
       (if App k = LApp lb \<and> BoardName k = LBoard lb then map_option (\<lambda>l. zdel l m) (zset_at (ks s) (zKey k))
        else zset_at (ks s) (zKey k))" if k: "key_validate k = Inr ()" for k
  proof -
    have ob: "App k = LApp lb \<and> BoardName k = LBoard lb \<longleftrightarrow> of_board (LApp lb) (LBoard lb) k" using k by (simp add: of_board_def)
    have "hashTag k \<in> hashTag ` set keys \<longleftrightarrow> of_board (LApp lb) (LBoard lb) k \<and> ks s (zKey k) \<noteq> None"
    proof
      assume "hashTag k \<in> hashTag ` set keys"
      then obtain k0 where k0: "hashTag k = hashTag k0" "of_board (LApp lb) (LBoard lb) k0" "ks s (zKey k0) \<noteq> None"
        unfolding fk(2) by auto
      then have "norm_key k = norm_key k0" using k by (intro hashTag_inject) (simp_all add: of_board_def)
      then have "App k = App k0" "BoardName k = BoardName k0" by (metis norm_key_sel(1), metis norm_key_sel(2))
      with k0 k show "of_board (LApp lb) (LBoard lb) k \<and> ks s (zKey k) \<noteq> None" by (simp add: of_board_def zKey_def)
    next
      assume "of_board (LApp lb) (LBoard lb) k \<and> ks s (zKey k) \<noteq> None"
      then have "norm_key k \<in> set keys" unfolding fk(2) by blast
      then show "hashTag k \<in> hashTag ` set keys" by (metis hashTag_norm imageI)
    qed
    moreover have "map_option (\<lambda>l. zdel l m) (zset_at (ks s) (zKey k)) = zset_at (ks s) (zKey k)" if "ks s (zKey k) = None"
      using that by (simp add: zdel_def)
    ultimately show ?thesis unfolding s'(2) ob by auto
  qed
  moreover have "RemoveFromAll fuel R lb m s = (Inr (), s')" if "F \<le> fuel" for fuel
    using that fk(1) s'(1) by (simp add: RemoveFromAll_def io_simps)
  ultimately show ?thesis using fr gd by blast
qed

lemma RemoveFromAll_spec:
  assumes "lb_keys (ks s) (LApp lb) (LBoard lb)" "clean (LApp lb)" "clean (LBoard lb)"
    "\<And>k. of_board (LApp lb) (LBoard lb) k \<Longrightarrow> board_good (cvt_oor R) (ks s) \<lparr>Key = k, Config = LConfig lb\<rparr>"
  shows "\<exists>F s'. (\<forall>fuel \<ge> F. RemoveFromAll fuel R lb m s = (Inr (), s')) \<and>
    (\<forall>k. key_validate k = Inr () \<longrightarrow> zset_at (ks s') (zKey k) =
       (if App k = LApp lb \<and> BoardName k = LBoard lb then map_option (\<lambda>l. zdel l m) (zset_at (ks s) (zKey k))
        else zset_at (ks s) (zKey k)))"
  using RemoveFromAll_full [OF assms, of m] by blast

end

subsection \<open>Segments\<close>

lemma dedup_aux:
  "distinct acc \<Longrightarrow> distinct (foldl (\<lambda>acc x. if x \<in> set acc then acc else acc @ [x]) acc xs) \<and>
     set (foldl (\<lambda>acc x. if x \<in> set acc then acc else acc @ [x]) acc xs) = set acc \<union> set xs"
  by (induction xs arbitrary: acc) auto

lemma dedup_props [simp]: "distinct (dedup xs)" "set (dedup xs) = set xs"
  using dedup_aux [of "[]" xs] by (simp_all add: dedup_def)

interpretation string_order: go_less "(<) :: string \<Rightarrow> string \<Rightarrow> bool"
  by unfold_locales auto

lemma sort_strings: "distinct xs \<Longrightarrow> sorted_wrt (<) (go_sort (<) (xs :: string list))"
  by (rule string_order.sorted_distinct_strict) (simp_all add: string_order.sorted_go_sort)

context redis_docs
begin

lemma Segments_spec:
  assumes "lb_keys (ks s) (LApp lb) (LBoard lb)" "clean (LApp lb)" "clean (LBoard lb)"
  shows "\<exists>F segs. (\<forall>fuel \<ge> F. Segments fuel R lb s = (Inr segs, s)) \<and> sorted_wrt (<) segs \<and>
    set segs = {sanitizeSegment (Segment k) | k. of_board (LApp lb) (LBoard lb) k \<and> ks s (zKey k) \<noteq> None}"
proof -
  obtain F keys where fk: "\<forall>fuel \<ge> F. scanBoardKeys fuel R (LApp lb) (LBoard lb) s = (Inr keys, s)"
    "set keys = {norm_key k | k. of_board (LApp lb) (LBoard lb) k \<and> ks s (zKey k) \<noteq> None}"
    using scanBoardKeys_spec [OF assms] by blast
  define segs where "segs = go_sort (<) (dedup (map Segment keys))"
  have "sorted_wrt (<) segs" unfolding segs_def by (rule sort_strings) simp
  moreover have "set segs = {sanitizeSegment (Segment k) | k. of_board (LApp lb) (LBoard lb) k \<and> ks s (zKey k) \<noteq> None}"
  proof -
    have "set segs = Segment ` norm_key ` {k. of_board (LApp lb) (LBoard lb) k \<and> ks s (zKey k) \<noteq> None}"
      unfolding segs_def set_go_sort dedup_props set_map fk(2) by (rule arg_cong [where f = "image Segment"]) blast
    then show ?thesis unfolding image_image norm_key_sel by blast
  qed
  moreover have "Segments fuel R lb s = (Inr segs, s)" if "F \<le> fuel" for fuel
    using that fk(1) by (simp add: Segments_def io_simps segs_def)
  ultimately show ?thesis by blast
qed

end

end
