(* ===== verification/Engine_Properties.thy ===== *)
theory Engine_Properties
  imports Engine_Scan
begin

text \<open>
  The properties of the sorted-set engine, for any server that keeps the contract
  \<open>redis_docs\<close>, each with an instance on the executable server.
\<close>

subsection \<open>A board for the instances\<close>

definition demo_cfg :: BoardConfig where
  "demo_cfg = \<lparr>SortOrder = '''', UpdatePolicy = '''', TieBreak = '''', ScoreBits = 0, Epoch = 0,
     ApproxRank = False, ApproxMin = 0, ApproxMax = 0, ApproxBuckets = 0\<rparr>"

definition demo_board :: Board where
  "demo_board = \<lparr>Key = demo_key '''', Config = demo_cfg\<rparr>"

definition demo_zset :: zset where
  "demo_zset = [(5, ''bob''), (10, ''al''), (10, ''cy'')]"

definition demo_mem :: mem where
  "demo_mem = [(zKey (Key demo_board), CZset demo_zset)]"

lemma demo_valid: "board_validate demo_board = Inr ()" "key_validate (Key demo_board) = Inr ()"
  by code_simp+

lemma demo_at: "zset_at (mem_ks demo_mem) (zKey (Key demo_board)) = Some demo_zset"
  by code_simp

lemma demo_standings: "standings oor demo_board demo_zset =
    [\<lparr>Member = ''cy'', Score = 10, Rank = 1, Exact = True, Nickname = ''''\<rparr>,
     \<lparr>Member = ''al'', Score = 10, Rank = 2, Exact = True, Nickname = ''''\<rparr>,
     \<lparr>Member = ''bob'', Score = 5, Rank = 3, Exact = True, Nickname = ''''\<rparr>]"
  by (simp add: standings_def rank_entries_def ranking_def is_asc_def demo_board_def demo_cfg_def demo_zset_def
      withDefaults_sel config_consts board_decode_def newScoreCodec_def decode_def)

subsection \<open>Reads\<close>

text \<open>
  (C23) Pages are slices of the standings: \<open>Page\<close> and \<open>TopN\<close> return the entries of the requested
  positions, with their scores decoded and their ranks counted from 1, and change nothing.
\<close>

theorem page_correct:
  assumes "redis_docs R ks" "board_validate b = Inr ()" "zset_at (ks s) (zKey (Key b)) = Some l"
    "0 \<le> offset" "offset + limit < 2 ^ 63"
  shows "Page R b offset limit s = (Inr (take (nat limit) (drop (nat offset) (standings (cvt_oor R) b l))), s) \<and>
    TopN R b n s = (Inr (take (nat n) (standings (cvt_oor R) b l)), s)"
  using redis_docs.Page_standings [OF assms] redis_docs.TopN_standings [OF assms(1-3)] by blast

theorem page_correct_witness:
  "Page mem_redis demo_board 1 1 demo_mem =
    (Inr [\<lparr>Member = ''al'', Score = 10, Rank = 2, Exact = True, Nickname = ''''\<rparr>], demo_mem)"
  using page_correct [OF mem_docs.redis_docs_axioms demo_valid(1) demo_at, of 1 1] by (simp add: demo_standings)

text \<open>
  The standings are the ranking of the board: every member once, entry \<open>i\<close> has rank
  \<open>i + 1\<close>, and an entry comes before another exactly in the order of the stored value (descending
  or ascending as configured), ties broken by member name.
\<close>

theorem standings_ranked:
  assumes "redis_docs R ks" "zset_at (ks s) (zKey (Key b)) = Some l" "i < j" "j < length l"
  shows "Rank (standings oor b l ! i) = int i + 1 \<and>
    Member (standings oor b l ! i) \<noteq> Member (standings oor b l ! j) \<and>
    friend_less (is_asc b) (ranking (is_asc b) l ! i) (ranking (is_asc b) l ! j) \<and>
    set (map Member (standings oor b l)) = snd ` set l"
proof -
  have ok: "zset_ok l" by (rule redis_docs.zset_at_ok [OF assms(1,2)])
  have "friend_less (is_asc b) (ranking (is_asc b) l ! i) (ranking (is_asc b) l ! j)"
    using assms(3,4) by (intro sorted_wrt_nth_less [OF ranking_sorted [OF ok]]) simp_all
  moreover have "map Member (standings oor b l) ! i \<noteq> map Member (standings oor b l) ! j"
    using distinct_standings [OF ok] assms(3,4) by (simp only: nth_eq_iff_index_eq length_map length_standings)
  moreover have "set (map Member (standings oor b l)) = snd ` set l"
    unfolding standings_def map_Member_rank_entries by simp
  ultimately show ?thesis using assms(3,4) by (simp add: standings_Rank)
qed

theorem standings_ranked_witness:
  "Member (standings (cvt_oor mem_redis) demo_board demo_zset ! 0) \<noteq>
   Member (standings (cvt_oor mem_redis) demo_board demo_zset ! 2)"
  using standings_ranked [OF mem_docs.redis_docs_axioms demo_at, of 0 2 "cvt_oor mem_redis"] by (simp add: demo_zset_def)

text \<open>
  (C4) Rank lookups agree with the standings: \<open>GetRank\<close> returns the member's entry, or
  \<open>ErrMemberNotFound\<close> exactly for a member that is not on the board, and the page of length 1 at
  that rank is this entry.
\<close>

theorem rank_correct:
  assumes "redis_docs R ks" "board_validate b = Inr ()" "zset_at (ks s) (zKey (Key b)) = Some l"
    "int (length l) < 2 ^ 63"
  shows "case zget l m of
      None \<Rightarrow> GetRank R b m s = (Inl ErrMemberNotFound, s)
    | Some v \<Rightarrow> \<exists>e. GetRank R b m s = (Inr e, s) \<and> Member e = m \<and> Score e = board_decode (cvt_oor R) b v \<and>
        Page R b (Rank e - 1) 1 s = (Inr [e], s)"
proof -
  note ok = redis_docs.zset_at_ok [OF assms(1,3)]
  note gr = redis_docs.GetRank_standings [OF assms(1-3), of m] and te = the_entry_standings [OF ok, of m "cvt_oor R" b]
  show ?thesis
  proof (cases "zpos (ranking (is_asc b) l) m")
    case None
    then have "zget l m = None" by (simp add: zpos_None_iff zget_None_iff)
    with None gr te show ?thesis by simp
  next
    case (Some i)
    then have i: "i < length l" "snd (ranking (is_asc b) l ! i) = m" by (auto dest: zpos_Some)
    then have "ranking (is_asc b) l ! i \<in> set l" using nth_mem [of i "ranking (is_asc b) l"] by simp
    with i ok have v: "zget l m = Some (fst (ranking (is_asc b) l ! i))"
      by (simp add: zget_Some_iff zset_ok_def) (metis prod.collapse)
    define e where "e = standings (cvt_oor R) b l ! i"
    have e: "Member e = m" "Score e = board_decode (cvt_oor R) b (fst (ranking (is_asc b) l ! i))" "Rank e = int i + 1"
      using i by (simp_all add: e_def standings_def nth_rank_entries)
    have "Page R b (int i) 1 s = (Inr (take 1 (drop i (standings (cvt_oor R) b l))), s)"
      using redis_docs.Page_standings [OF assms(1-3), of "int i" 1] i assms(4) by simp
    also have "take 1 (drop i (standings (cvt_oor R) b l)) = [e]"
      using i by (simp add: take_Suc_conv_app_nth e_def hd_drop_conv_nth take_Suc)
    finally show ?thesis using Some gr te v e by (simp add: e_def [symmetric])
  qed
qed

theorem rank_correct_witness:
  "GetRank mem_redis demo_board ''dan'' demo_mem = (Inl ErrMemberNotFound, demo_mem)"
  using rank_correct [OF mem_docs.redis_docs_axioms demo_valid(1) demo_at, of "''dan''"] by (simp add: demo_zset_def)

lemma filter_interval: "filter (\<lambda>i. a \<le> i \<and> i \<le> a + c) [0..<n] = [a..<min n (Suc (a + c))]"
proof (induction n)
  case (Suc n)
  consider "n < a" | "a \<le> n" "n \<le> a + c" | "a + c < n" by linarith
  then show ?case
  proof cases
    case 3
    then have "min n (Suc (a + c)) = Suc (a + c)" "min (Suc n) (Suc (a + c)) = Suc (a + c)" by simp_all
    with Suc 3 show ?thesis by simp
  qed (use Suc in \<open>auto simp: min_def\<close>)
qed simp

lemma window_filter:
  "window (int a) (int a + int c) xs = map (\<lambda>i. xs ! i) (filter (\<lambda>i. a \<le> i \<and> i \<le> a + c) [0..<length xs])"
proof -
  have "nat (int c + 1) = Suc c" by simp
  moreover have "take (Suc c) (drop a xs) = map (\<lambda>i. xs ! i) [a..<min (length xs) (Suc (a + c))]"
    by (rule nth_equalityI) (auto simp del: upt_Suc simp: min_def split: if_splits)
  ultimately show ?thesis by (simp add: window_def filter_interval del: upt_Suc)
qed

text \<open>
  \<open>Neighbors\<close> returns the member's entry with the up to \<open>k\<close> entries on each side of it (a
  negative \<open>k\<close> counts as 0), cut off at the ends of the standings.
\<close>

theorem neighbors_correct:
  assumes "redis_docs R ks" "board_validate b = Inr ()" "zset_at (ks s) (zKey (Key b)) = Some l"
    "int (length l) + max 0 k < 2 ^ 63" "the_entry m (standings (cvt_oor R) b l) = Some e"
  shows "\<exists>es. Neighbors R b m k s = (Inr es, s) \<and> e \<in> set es \<and>
    es = filter (\<lambda>x. \<bar>Rank x - Rank e\<bar> \<le> max 0 k) (standings (cvt_oor R) b l)"
proof -
  define st where "st = standings (cvt_oor R) b l"
  define k' where "k' = max 0 k"
  define w where "w = window (max 0 (Rank e - 1 - k')) (Rank e - 1 + k') st"
  have rk: "i < length st \<Longrightarrow> Rank (st ! i) = int i + 1" for i
    unfolding st_def by (simp add: standings_Rank)
  have eset: "e \<in> set st" using assms(5) unfolding st_def the_entry_def by (metis find_Some_iff nth_mem)
  then obtain j where j: "j < length st" "st ! j = e" by (auto simp: in_set_conv_nth)
  define a where "a = nat (max 0 (Rank e - 1 - k'))"
  define c where "c = nat (Rank e - 1 + k' - int a)"
  have re: "Rank e = int j + 1" using rk j by blast
  have k'0: "0 \<le> k'" by (simp add: k'_def)
  have ac: "max 0 (Rank e - 1 - k') = int a" "Rank e - 1 + k' = int a + int c"
    using re k'0 by (auto simp: a_def c_def)
  have "w = map (\<lambda>i. st ! i) (filter (\<lambda>i. a \<le> i \<and> i \<le> a + c) [0..<length st])"
    unfolding w_def ac by (rule window_filter)
  also have "\<dots> = map (\<lambda>i. st ! i) (filter (\<lambda>i. \<bar>Rank (st ! i) - Rank e\<bar> \<le> k') [0..<length st])"
    using ac re k'0 by (intro arg_cong [where f = "map _"] filter_cong) (auto simp: rk)
  also have "\<dots> = filter (\<lambda>x. \<bar>Rank x - Rank e\<bar> \<le> k') (map (\<lambda>i. st ! i) [0..<length st])"
    by (simp add: filter_map comp_def)
  also have "map (\<lambda>i. st ! i) [0..<length st] = st" by (rule map_nth)
  finally have w: "w = filter (\<lambda>x. \<bar>Rank x - Rank e\<bar> \<le> k') st" .
  have "Neighbors R b m k s = (Inr w, s)"
    using redis_docs.Neighbors_standings [OF assms(1-4), of m] assms(5) by (simp add: w_def st_def k'_def)
  then show ?thesis using w eset k'0 by (simp add: st_def k'_def)
qed

theorem neighbors_correct_witness:
  "Neighbors mem_redis demo_board ''bob'' 1 demo_mem =
    (Inr [\<lparr>Member = ''al'', Score = 10, Rank = 2, Exact = True, Nickname = ''''\<rparr>,
          \<lparr>Member = ''bob'', Score = 5, Rank = 3, Exact = True, Nickname = ''''\<rparr>], demo_mem)"
  using neighbors_correct [OF mem_docs.redis_docs_axioms demo_valid(1) demo_at, of 1 "''bob''"]
  by (simp add: demo_standings the_entry_def) (simp add: demo_zset_def)

text \<open>
  A friend leaderboard is the ranking restricted to the requested members, renumbered from 1:
  members that are not on the board are left out and the relative order is that of the board, ties
  included.
\<close>

theorem friend_rank_correct:
  assumes "redis_docs R ks" "board_validate b = Inr ()" "zset_at (ks s) (zKey (Key b)) = Some l" "distinct ms"
  shows "\<exists>es. FriendRank R b ms s = (Inr es, s) \<and>
    map Member es = filter (\<lambda>m. m \<in> set ms) (map Member (standings (cvt_oor R) b l)) \<and>
    map Rank es = map (\<lambda>i. int i + 1) [0..<length es] \<and>
    (\<forall>e \<in> set es. zget l (Member e) \<noteq> None \<and> Score e = board_decode (cvt_oor R) b (the (zget l (Member e))))"
proof -
  define zs where "zs = filter (\<lambda>e. snd e \<in> set ms) (ranking (is_asc b) l)"
  define es where "es = rank_entries (board_decode (cvt_oor R) b) 0 zs"
  have ok: "zset_ok l" by (rule redis_docs.zset_at_ok [OF assms(1,3)])
  have "map Member es = filter (\<lambda>m. m \<in> set ms) (map Member (standings (cvt_oor R) b l))"
    by (simp add: es_def zs_def standings_def filter_map comp_def)
  moreover have "map Rank es = map (\<lambda>i. int i + 1) [0..<length es]"
    by (rule nth_equalityI) (auto simp: es_def nth_rank_entries)
  moreover have "zget l (Member e) \<noteq> None \<and> Score e = board_decode (cvt_oor R) b (the (zget l (Member e)))" if "e \<in> set es" for e
  proof -
    from that obtain i where i: "i < length zs" "e = es ! i" by (auto simp: in_set_conv_nth es_def)
    have "zs ! i \<in> set l" using nth_mem [OF i(1)] by (simp add: zs_def)
    with ok have "zget l (snd (zs ! i)) = Some (fst (zs ! i))" by (simp add: zget_Some_iff zset_ok_def)
    with i show ?thesis by (simp add: es_def nth_rank_entries)
  qed
  ultimately show ?thesis
    using redis_docs.FriendRank_standings [OF assms] by (intro exI [of _ es]) (simp add: es_def zs_def)
qed

theorem friend_rank_correct_witness:
  "\<exists>es. FriendRank mem_redis demo_board [''bob'', ''zed'', ''cy''] demo_mem = (Inr es, demo_mem) \<and>
    map Member es = [''cy'', ''bob'']"
  using friend_rank_correct [OF mem_docs.redis_docs_axioms demo_valid(1) demo_at, of "[''bob'', ''zed'', ''cy'']"]
  by (simp add: demo_standings) (elim exE conjE, intro exI conjI)

subsection \<open>Writes\<close>

lemma demo_hist_world: "\<not> approx_board b \<Longrightarrow> hist_world oor {b} n K K"
  by (simp add: hist_world_def same_config_def)




definition approx_cfg :: BoardConfig where
  "approx_cfg = demo_cfg\<lparr>ApproxRank := True, ApproxMax := 100, ApproxBuckets := 4\<rparr>"

definition approx_demo :: Board where
  "approx_demo = \<lparr>Key = demo_key '''', Config = approx_cfg\<rparr>"

definition approx_mem :: mem where
  "approx_mem = [(zKey (Key approx_demo), CZset [(5, ''bob''), (30, ''al'')]),
     (hKey (Key approx_demo), CHash [(''0'', ''1''), (''1'', ''1'')])]"

definition approx_ops :: "SubmitOp list" where
  "approx_ops = [\<lparr>OpBoard = approx_demo, OpMember = ''bob'', OpScore = 60, OpTime = 0\<rparr>,
     \<lparr>OpBoard = approx_demo, OpMember = ''cy'', OpScore = 99, OpTime = 0\<rparr>]"

lemma hist_fields_code:
  "(\<forall>f \<in> set fs. atoi (fst f) \<noteq> None \<and> itoa (the (atoi (fst f))) = fst f \<and> the (atoi (fst f)) \<in> {0..<n}) \<Longrightarrow>
   list_all (\<lambda>i. hash_int (map_of fs) (itoa i) = Some (f i)) [0..n - 1] \<Longrightarrow> hist_fields n (map_of fs) f"
  by (force simp: hist_fields_def list_all_iff dom_map_of_conv_image_fst image_iff)

lemma approx_demo_facts:
  "board_validate approx_demo = Inr ()" "approx_board approx_demo"
  "hbuckets (boardHistogram approx_demo) = 4"
  "zset_at (mem_ks approx_mem) (zKey (Key approx_demo)) = Some [(5, ''bob''), (30, ''al'')]"
  "mem_hash approx_mem (hKey (Key approx_demo)) = Some [(''0'', ''1''), (''1'', ''1'')]"
  "prepare (cvt_oor mem_redis) approx_ops = Inr [60, 99]"
  by code_simp+

lemma approx_demo_sane: "hist_sane (boardHistogram approx_demo)"
proof -
  have "hmin (boardHistogram approx_demo) = 0" "hmax (boardHistogram approx_demo) = 100"
    "hbuckets (boardHistogram approx_demo) = 4" by code_simp+
  moreover have "fl64 100 = 100" using fl64_of_int [of 100] by simp
  moreover have "(100::rat) < 2 ^ 1023" by simp
  ultimately show ?thesis unfolding hist_sane_def by simp
qed

lemma approx_demo_inv: "hist_inv (cvt_oor mem_redis) (mem_ks approx_mem) (mem_ks approx_mem) approx_demo"
proof -
  have h: "hash_at (mem_ks approx_mem) (hKey (Key approx_demo)) = Some (map_of [(''0'', ''1''), (''1'', ''1'')])"
    using mem_hash_view [of approx_mem "hKey (Key approx_demo)"] by (simp add: approx_demo_facts)
  have "hist_fields 4 (map_of [(''0'', ''1''), (''1'', ''1'')])
     (bucket_count (cvt_oor mem_redis) approx_demo [(5, ''bob''), (30, ''al'')])"
    by (rule hist_fields_code) code_simp+
  then show ?thesis by (simp add: hist_inv_def h approx_demo_facts(3,4) del: map_of.simps)
qed




lemma batch_rejects:
  assumes "op \<in> set ops" "board_validate (OpBoard op) \<noteq> Inr () \<or>
    encode (cvt_oor R) (withDefaults (Config (OpBoard op))) (OpScore op) (OpTime op) = Inl e"
  shows "\<exists>e'. SubmitBatch R ops s = (Inl e', s)"
proof -
  have "\<exists>e'. prepare (cvt_oor R) ops = Inl e'"
    using assms by (induction ops) (fastforce simp: Let_def newScoreCodec_def split: sum.splits)+
  then show ?thesis using assms(1) by (auto simp: SubmitBatch_def io_simps)
qed

text \<open>
  A batch with an operation that does not validate, or whose score cannot be encoded, is
  rejected as a whole: an error is returned and the server's state is what it was, whatever the
  server is.
\<close>

theorem invalid_batch_rejected:
  assumes "op \<in> set ops" "board_validate (OpBoard op) \<noteq> Inr () \<or>
    encode (cvt_oor R) (withDefaults (Config (OpBoard op))) (OpScore op) (OpTime op) = Inl e"
  shows "\<exists>e'. SubmitBatch R ops s = (Inl e', s)"
  by (rule batch_rejects [OF assms])

definition bad_op :: SubmitOp where
  "bad_op = \<lparr>OpBoard = \<lparr>Key = demo_key ''a:b'', Config = demo_cfg\<rparr>, OpMember = ''bob'', OpScore = 1, OpTime = 0\<rparr>"

theorem invalid_batch_rejected_witness:
  "\<exists>e'. SubmitBatch mem_redis (approx_ops @ [bad_op]) approx_mem = (Inl e', approx_mem)"
proof -
  have "board_validate (OpBoard bad_op) \<noteq> Inr ()" by code_simp
  then show ?thesis using invalid_batch_rejected [of bad_op "approx_ops @ [bad_op]" mem_redis] by simp
qed

subsection \<open>Approximate ranks\<close>

text \<open>
  (C19) Accuracy of the approximate rank: on a board whose histogram is exact, the estimate never
  exceeds the exact rank and is below it by less than the number of members in the member's own
  bucket; the score is exact and the entry is marked as inexact.
\<close>

theorem approx_rank_error:
  assumes "redis_docs R ks" "board_validate b = Inr ()" "approx_board b" "hist_sane (boardHistogram b)"
    "make_ok 8 (hbuckets (boardHistogram b))" "zset_at (ks s) (zKey (Key b)) = Some l"
    "hist_inv (cvt_oor R) (ks s) (ks s) b" "int (length l) + 1 < 2 ^ 63"
    "\<And>e. e \<in> set l \<Longrightarrow> stored_range (withDefaults (Config b)) (fst e)" "zget l m = Some v"
  shows "\<exists>a e. GetApproxRank R b m s = (Inr a, s) \<and> GetRank R b m s = (Inr e, s) \<and>
    Score a = Score e \<and> \<not> Exact a \<and> Rank a \<le> Rank e \<and>
    Rank e < Rank a + bucket_count (cvt_oor R) b l (bucket_of (cvt_oor R) b v)"
proof -
  note ok = redis_docs.zset_at_ok [OF assms(1,6)]
  define k where "k = bucket_of (cvt_oor R) b v"
  obtain i where i: "zpos (ranking (is_asc b) l) m = Some i"
  proof (cases "zpos (ranking (is_asc b) l) m")
    case None
    then have "m \<notin> snd ` set l" by (simp add: zpos_None_iff zget_None_iff)
    with zget_in [OF assms(10)] show ?thesis by force
  qed blast
  then have il: "i < length l" "snd (ranking (is_asc b) l ! i) = m" by (auto dest: zpos_Some)
  have "ranking (is_asc b) l ! i \<in> set l" using nth_mem [of i "ranking (is_asc b) l"] il(1) by simp
  with il(2) have "zget l m = Some (fst (ranking (is_asc b) l ! i))"
    using ok by (simp add: zget_Some_iff zset_ok_def) (metis prod.collapse)
  with assms(10) have fv: "fst (ranking (is_asc b) l ! i) = v" by simp
  have sr: "\<And>e. e \<in> set l \<Longrightarrow> stored_range (newScoreCodec (withDefaults (Config b))) (fst e)"
    using assms(9) by (simp add: newScoreCodec_def)
  note rb = rank_bucket_bounds [OF ok assms(4) sr refl il(1) k_def [folded fv]]
  define e where "e = standings (cvt_oor R) b l ! i"
  have "GetRank R b m s = (Inr e, s)"
    using redis_docs.GetRank_standings [OF assms(1,2,6), of m] the_entry_standings [OF ok, of m "cvt_oor R" b] i
    by (simp add: e_def)
  moreover have "Rank e = int i + 1" "Score e = board_decode (cvt_oor R) b v"
    using il fv by (simp_all add: e_def standings_def nth_rank_entries)
  ultimately show ?thesis
    using redis_docs.GetApproxRank_spec [OF assms(1-8), of m] assms(10) rb bucket_count_nonneg [of "cvt_oor R" b l k]
    by (simp add: k_def [symmetric])
qed

theorem approx_rank_error_witness:
  "\<exists>a e. GetApproxRank mem_redis approx_demo ''al'' approx_mem = (Inr a, approx_mem) \<and>
     GetRank mem_redis approx_demo ''al'' approx_mem = (Inr e, approx_mem) \<and> Rank a \<le> Rank e"
proof -
  have "make_ok 8 (hbuckets (boardHistogram approx_demo))" "zget [(5, ''bob''), (30, ''al'')] ''al'' = Some 30"
    "list_all (\<lambda>e. stored_range (withDefaults (Config approx_demo)) (fst e)) [(5, ''bob''), (30, ''al'')]" by code_simp+
  then show ?thesis
    using approx_rank_error [OF mem_docs.redis_docs_axioms approx_demo_facts(1,2) approx_demo_sane _ approx_demo_facts(4)
        approx_demo_inv, of "''al''" 30] by (fastforce simp: list_all_iff)
qed

text \<open>
  Removal keeps the histogram exact: \<open>Remove\<close> takes the member out of the sorted set, leaves
  the other members and all other boards as they are, and decrements exactly the bucket the member
  was counted in.
\<close>

theorem remove_correct:
  assumes "redis_docs R ks" "key_validate (Key b) = Inr ()" "zset_at (ks s) (zKey (Key b)) = Some l"
    "board_good (cvt_oor R) (ks s) b"
  shows "\<exists>s'. Remove R b m s = (Inr (), s') \<and> zset_at (ks s') (zKey (Key b)) = Some (zdel l m) \<and>
    (\<forall>k. k \<noteq> zKey (Key b) \<and> k \<noteq> hKey (Key b) \<longrightarrow> ks s' k = ks s k) \<and> board_good (cvt_oor R) (ks s') b"
proof -
  obtain s' where s': "Remove R b m s = (Inr (), s')"
    "\<And>k. zset_at (ks s') (zKey k) =
       (if hashTag k = hashTag (Key b) then map_option (\<lambda>l. zdel l m) (zset_at (ks s) (zKey k)) else zset_at (ks s) (zKey k))"
    "\<And>k. k \<noteq> hKey (Key b) \<Longrightarrow> k \<noteq> zKey (Key b) \<Longrightarrow> ks s' k = ks s k"
    "\<And>b'. same_config b' b \<Longrightarrow> board_good (cvt_oor R) (ks s) b' \<Longrightarrow> board_good (cvt_oor R) (ks s') b'"
    by (rule redis_docs.Remove_good [OF assms(1,2,4)]) blast
  have "board_good (cvt_oor R) (ks s') b" by (rule s'(4)) (simp_all add: same_config_def assms(4))
  with s' assms(3) show ?thesis by auto
qed

theorem remove_correct_witness:
  "\<exists>s'. Remove mem_redis approx_demo ''bob'' approx_mem = (Inr (), s') \<and>
     zset_at (mem_ks s') (zKey (Key approx_demo)) = Some [(30, ''al'')]"
proof -
  have "board_good (cvt_oor mem_redis) (mem_ks approx_mem) approx_demo"
    using approx_demo_facts(4) approx_demo_sane approx_demo_inv by (simp add: board_good_def)
  moreover have "zdel [(5, ''bob''), (30, ''al'')] ''bob'' = [(30, ''al'')]" by code_simp
  moreover have "key_validate (Key approx_demo) = Inr ()" by code_simp
  ultimately show ?thesis
    using remove_correct [OF mem_docs.redis_docs_axioms _ approx_demo_facts(4), of "''bob''"] by auto
qed

subsection \<open>All boards of a game\<close>


definition demo_lb :: LogicalBoard where
  "demo_lb = \<lparr>LApp = ''app1'', LBoard = ''kills'', LConfig = demo_cfg, Windows = []\<rparr>"

lemma demo_lb_keys: "lb_keys (mem_ks demo_mem) (LApp demo_lb) (LBoard demo_lb)"
  unfolding lb_keys_def mem_ks_dom using demo_valid(2) by (auto simp: demo_mem_def)

lemma demo_lb_good: "board_good (cvt_oor mem_redis) (mem_ks demo_mem) \<lparr>Key = k, Config = LConfig demo_lb\<rparr>"
proof -
  have "\<not> approx_board \<lparr>Key = k, Config = LConfig demo_lb\<rparr>"
    by (simp add: approx_board_def demo_lb_def demo_cfg_def withDefaults_sel)
  moreover have "zset_at (mem_ks demo_mem) (zKey k) \<noteq> None"
  proof (cases "zKey k = zKey (Key demo_board)")
    case False
    then have "mem_ks demo_mem (zKey k) = None" using mem_ks_dom [of demo_mem "zKey k"] by (auto simp: demo_mem_def)
    then show ?thesis by simp
  qed (simp add: demo_at)
  ultimately show ?thesis by (auto simp: board_good_def)
qed


text \<open>
  \<open>Segments\<close> lists, in increasing order and without repetition, exactly the segments that
  have a live sorted set on the logical board.
\<close>

theorem segments_correct:
  assumes "redis_docs R ks" "lb_keys (ks s) (LApp lb) (LBoard lb)" "clean (LApp lb)" "clean (LBoard lb)"
  shows "\<exists>F segs. (\<forall>fuel \<ge> F. Segments fuel R lb s = (Inr segs, s)) \<and> sorted_wrt (<) segs \<and>
    set segs = {sanitizeSegment (Segment k) | k. of_board (LApp lb) (LBoard lb) k \<and> ks s (zKey k) \<noteq> None}"
  using assms by (rule redis_docs.Segments_spec)

theorem segments_correct_witness:
  "\<exists>F segs. Segments F mem_redis demo_lb demo_mem = (Inr segs, demo_mem) \<and> ''all'' \<in> set segs"
proof -
  have c: "clean (LApp demo_lb)" "clean (LBoard demo_lb)" by (simp_all add: demo_lb_def clean_def)
  have "of_board (LApp demo_lb) (LBoard demo_lb) (Key demo_board)"
    using demo_valid(2) by (simp add: of_board_def demo_board_def demo_key_def demo_lb_def)
  moreover have "mem_ks demo_mem (zKey (Key demo_board)) \<noteq> None" unfolding mem_ks_dom by (simp add: demo_mem_def)
  moreover have "sanitizeSegment (Segment (Key demo_board)) = ''all''" by code_simp
  ultimately have "''all'' \<in> {sanitizeSegment (Segment k) | k. of_board (LApp demo_lb) (LBoard demo_lb) k \<and> mem_ks demo_mem (zKey k) \<noteq> None}"
    by (intro CollectI exI [of _ "Key demo_board"]) simp
  with segments_correct [OF mem_docs.redis_docs_axioms demo_lb_keys c] show ?thesis by (metis order_refl)
qed

text \<open>
  \<open>Reset\<close> deletes the sorted set, the histogram and the metadata of the board and nothing
  else; afterwards the board counts no member, knows no rank, and its histogram is exact again.
\<close>

theorem reset_correct:
  assumes "redis_docs R ks" "board_validate b = Inr ()"
  shows "\<exists>s'. Reset R b s = (Inr (), s') \<and> Count R b s' = (Inr 0, s') \<and>
    GetRank R b m s' = (Inl ErrMemberNotFound, s') \<and> hist_inv (cvt_oor R) (ks s') (ks s') b \<and>
    (\<forall>k. k \<notin> {zKey (Key b), hKey (Key b), metaKey (Key b)} \<longrightarrow> ks s' k = ks s k)"
proof -
  have kv: "key_validate (Key b) = Inr ()" using board_validD [OF assms(2)] by simp
  obtain s' where s': "Reset R b s = (Inr (), s')"
    "ks s' = (\<lambda>k. if k \<in> {zKey (Key b), hKey (Key b), metaKey (Key b)} then None else ks s k)"
    using redis_docs.Reset_spec [OF assms(1) kv] by blast
  have gone: "ks s' (zKey (Key b)) = None" "ks s' (hKey (Key b)) = None" by (simp_all add: s'(2))
  then have z: "zset_at (ks s') (zKey (Key b)) = Some []" by simp
  have "the_entry m (standings (cvt_oor R) b []) = None"
    by (simp add: the_entry_def standings_def ranking_def rank_entries_def)
  then show ?thesis
    using s' redis_docs.Count_standings [OF assms(1) kv z] redis_docs.GetRank_standings [OF assms z, of m]
      hist_inv_empty [OF gone] by simp
qed

theorem reset_correct_witness:
  "\<exists>s'. Reset mem_redis demo_board demo_mem = (Inr (), s') \<and> Count mem_redis demo_board s' = (Inr 0, s')"
  using reset_correct [OF mem_docs.redis_docs_axioms demo_valid(1)] by blast

end
