(* ===== verification/Sharded_Engine.thy ===== *)
theory Sharded_Engine
  imports Engine_Scan
begin

text \<open>
  The sharded engine, \<open>pkg/engine/sharded_engine.go\<close>: a board split over \<open>n\<close> sorted sets by a
  hash of the member. The engine is its number of shards, which the constructor makes at least
  one. Conversions to \<open>uint32\<close> of the number of shards assume fewer than \<open>2 ^ 32\<close> shards.
\<close>

subsection \<open>Shards\<close>

definition NewShardedEngine :: "int \<Rightarrow> int" where
  "NewShardedEngine shards = (if shards < 1 then 1 else shards)"

definition shardOf :: "int \<Rightarrow> string \<Rightarrow> int" where
  "shardOf n member = uint (fnv32a member) mod n"

definition shardBoard :: "Board \<Rightarrow> int \<Rightarrow> Board" where
  "shardBoard b i = (let k = Key b; k = k\<lparr>BoardName := BoardName (Key b) @ ''#s'' @ itoa i\<rparr>
     in \<lparr>Key = k, Config = Config b\<rparr>)"

definition shardLogical :: "LogicalBoard \<Rightarrow> int \<Rightarrow> LogicalBoard" where
  "shardLogical lb i = lb\<lparr>LBoard := LBoard lb @ ''#s'' @ itoa i\<rparr>"

subsection \<open>Writes\<close>

definition sh_Submit :: "'s env \<Rightarrow> int \<Rightarrow> Board \<Rightarrow> string \<Rightarrow> rat \<Rightarrow> gotime \<Rightarrow> ('s, SubmitResult) io" where
  "sh_Submit R n b member score t = Submit R (shardBoard b (shardOf n member)) member score t"

definition sh_route :: "int \<Rightarrow> SubmitOp \<Rightarrow> SubmitOp" where
  "sh_route n op = op\<lparr>OpBoard := shardBoard (OpBoard op) (shardOf n (OpMember op))\<rparr>"

definition sh_SubmitBatch :: "'s env \<Rightarrow> int \<Rightarrow> SubmitOp list \<Rightarrow> ('s, SubmitResult list) io" where
  "sh_SubmitBatch R n ops = SubmitBatch R (map (sh_route n) ops)"

definition sh_Remove :: "'s env \<Rightarrow> int \<Rightarrow> Board \<Rightarrow> string \<Rightarrow> ('s, unit) io" where
  "sh_Remove R n b member = Remove R (shardBoard b (shardOf n member)) member"

definition sh_RemoveFromAll :: "nat \<Rightarrow> 's env \<Rightarrow> int \<Rightarrow> LogicalBoard \<Rightarrow> string \<Rightarrow> ('s, unit) io" where
  "sh_RemoveFromAll fuel R n lb member = RemoveFromAll fuel R (shardLogical lb (shardOf n member)) member"

definition sh_Segments :: "nat \<Rightarrow> 's env \<Rightarrow> int \<Rightarrow> LogicalBoard \<Rightarrow> ('s, string list) io" where
  "sh_Segments fuel R n lb =
     io_bind (io_map (\<lambda>i. Segments fuel R (shardLogical lb i)) [0..n - 1]) (\<lambda>parts.
       io_ret (go_sort (<) (dedup (concat parts))))"

definition sh_Reset :: "'s env \<Rightarrow> int \<Rightarrow> Board \<Rightarrow> ('s, unit) io" where
  "sh_Reset R n b = io_each (\<lambda>i. Reset R (shardBoard b i)) [0..n - 1]"

definition sh_Count :: "'s env \<Rightarrow> int \<Rightarrow> Board \<Rightarrow> ('s, int) io" where
  "sh_Count R n b = io_bind (io_map (\<lambda>i. Count R (shardBoard b i)) [0..n - 1]) (\<lambda>ns. io_ret (sum64 ns))"

subsection \<open>Merged reads\<close>

definition lessInOrder :: "bool \<Rightarrow> string \<Rightarrow> rat \<Rightarrow> string \<Rightarrow> rat \<Rightarrow> bool" where
  "lessInOrder asc am as bm bs =
     (if as \<noteq> bs then (if asc then as < bs else bs < as) else if asc then am < bm else bm < am)"

text \<open>The closure over two candidates (pairs of stored score and member).\<close>

definition cand_less :: "bool \<Rightarrow> rat \<times> string \<Rightarrow> rat \<times> string \<Rightarrow> bool" where
  "cand_less asc x y = lessInOrder asc (snd x) (fst x) (snd y) (fst y)"

definition shardRange :: "'s env \<Rightarrow> Board \<Rightarrow> int \<Rightarrow> int \<Rightarrow> ('s, zset) io" where
  "shardRange R b i stop =
     (let key = zKey (Key (shardBoard b i)) in
      io_cmd (if SortOrder (withDefaults (Config b)) = SortAsc then ZRANGE R key 0 stop else ZREVRANGE R key 0 stop))"

definition rangeMerged :: "'s env \<Rightarrow> int \<Rightarrow> Board \<Rightarrow> int \<Rightarrow> int \<Rightarrow> ('s, RankEntry list) io" where
  "rangeMerged R n b start stop =
     io_bind (io_lift (board_validate b)) (\<lambda>_.
       if stop < start \<or> stop < 0 then io_ret []
       else let cfg = withDefaults (Config b); asc = (SortOrder cfg = SortAsc) in
         if \<not> make_ok 24 (wrap64 (wrap64 (stop + 1) * n)) then io_fail Panic
         else io_bind (io_map (\<lambda>i. shardRange R b i stop) [0..n - 1]) (\<lambda>cands.
           let everything = go_sort (cand_less asc) (concat cands) in
           if int (length everything) \<le> start then io_ret []
           else let end = min (wrap64 (stop + 1)) (int (length everything))
             in io_ret (rank_entries (decode (cvt_oor R) (newScoreCodec cfg)) start (slice everything start end))))"

definition sh_TopN :: "'s env \<Rightarrow> int \<Rightarrow> Board \<Rightarrow> int \<Rightarrow> ('s, RankEntry list) io" where
  "sh_TopN R n b k = (if k \<le> 0 then io_ret [] else rangeMerged R n b 0 (k - 1))"

definition sh_Page :: "'s env \<Rightarrow> int \<Rightarrow> Board \<Rightarrow> int \<Rightarrow> int \<Rightarrow> ('s, RankEntry list) io" where
  "sh_Page R n b offset limit =
     (if limit \<le> 0 \<or> offset < 0 then io_ret []
      else rangeMerged R n b offset (wrap64 (wrap64 (offset + limit) - 1)))"

subsection \<open>Approximate rank\<close>

text \<open>The value of a resolved \<open>HGETALL\<close>: an empty map when the command failed.\<close>

definition map_val :: "(string \<times> string) list reply \<Rightarrow> (string \<times> string) list" where
  "map_val r = (case r of Reply xs \<Rightarrow> xs | _ \<Rightarrow> [])"

definition add_counts :: "int list \<Rightarrow> int list \<Rightarrow> int list" where
  "add_counts tot cs = map (\<lambda>j. if j < length cs then wrap64 (tot ! j + cs ! j) else tot ! j) [0..<length tot]"

fun sum_counts :: "Histogram list \<Rightarrow> (string \<times> string) list reply list \<Rightarrow> int list \<Rightarrow> err + int list" where
  "sum_counts (h # hs) (r # rs) tot =
     (case countsFrom h (map_val r) of Inl e \<Rightarrow> Inl e | Inr cs \<Rightarrow> sum_counts hs rs (add_counts tot cs))"
| "sum_counts _ _ tot = Inr tot"

definition sh_approxRank :: "'s env \<Rightarrow> int \<Rightarrow> Board \<Rightarrow> string \<Rightarrow> ('s, RankEntry) io" where
  "sh_approxRank R n b member =
     io_bind (io_lift (board_validate b)) (\<lambda>_.
       let cfg = withDefaults (Config b) in
       if \<not> ApproxRank cfg then io_fail ErrApproxDisabled
       else let sb = shardBoard b (shardOf n member) in
         io_bind (io_catch_nil (io_cmd (ZSCORE R (zKey (Key sb)) member)) (io_fail ErrMemberNotFound)) (\<lambda>stored s.
         let primary = decode (cvt_oor R) (newScoreCodec cfg) stored;
             hists = map (\<lambda>i. boardHistogram (shardBoard b i)) [0..n - 1]
         in case pipe_run (\<lambda>h. HGETALL R (hkey h)) hists s of (rs, s1) \<Rightarrow>
            case exec_failed (map reply_err rs) of Some e \<Rightarrow> (Inl e, s1)
            | None \<Rightarrow>
              if \<not> make_ok 8 (ApproxBuckets cfg) then (Inl Panic, s1)
              else (io_bind (io_lift (sum_counts hists rs (replicate (nat (ApproxBuckets cfg)) 0))) (\<lambda>tot.
                 let idx = bucketIndex (cvt_oor R) (hd hists) primary in
                 io_bind (io_lift (approxRankFromCounts tot idx (SortOrder cfg = SortAsc))) (\<lambda>rank.
                 io_ret \<lparr>Member = member, Score = primary, Rank = rank, Exact = False, Nickname = ''''\<rparr>))) s1))"

definition sh_GetRank :: "'s env \<Rightarrow> int \<Rightarrow> Board \<Rightarrow> string \<Rightarrow> ('s, RankEntry) io" where
  "sh_GetRank R n b member = sh_approxRank R n b member"

definition sh_GetApproxRank :: "'s env \<Rightarrow> int \<Rightarrow> Board \<Rightarrow> string \<Rightarrow> ('s, RankEntry) io" where
  "sh_GetApproxRank R n b member = sh_approxRank R n b member"

subsection \<open>Friends\<close>

definition sh_FriendRank :: "'s env \<Rightarrow> int \<Rightarrow> Board \<Rightarrow> string list \<Rightarrow> ('s, RankEntry list) io" where
  "sh_FriendRank R n b members =
     io_bind (io_lift (board_validate b)) (\<lambda>_.
       if members = [] then io_ret []
       else let cfg = withDefaults (Config b) in (\<lambda>s.
         case pipe_run (\<lambda>m. ZSCORE R (zKey (Key (shardBoard b (shardOf n m)))) m) members s of (rs, s1) \<Rightarrow>
         case exec_failed (map reply_err rs) of Some e \<Rightarrow> (Inl e, s1)
         | None \<Rightarrow>
           (io_bind (io_lift (collect_found members rs)) (\<lambda>found.
              let asc = (SortOrder cfg = SortAsc); found = go_sort (cand_less asc) found
              in io_ret (rank_entries (decode (cvt_oor R) (newScoreCodec cfg)) 0 found))) s1))"

subsection \<open>Neighbors\<close>

text \<open>The closure \<open>add\<close>: candidates of a reply whose member was not seen before.\<close>

definition add_cands :: "zset \<Rightarrow> zset \<Rightarrow> zset" where
  "add_cands cands zs = foldl (\<lambda>acc z. if snd z \<in> snd ` set acc then acc else acc @ [z]) cands zs"

definition shardNear :: "'s env \<Rightarrow> Board \<Rightarrow> rat \<Rightarrow> int \<Rightarrow> int \<Rightarrow> zset \<Rightarrow> ('s, zset) io" where
  "shardNear R b stored cnt i cands =
     (let key = zKey (Key (shardBoard b i)) in
      io_bind (io_cmd (ZRANGEBYSCORE R key (Some stored) None 0 cnt)) (\<lambda>geq.
      io_bind (io_cmd (ZREVRANGEBYSCORE R key None (Some stored) 0 cnt)) (\<lambda>leq.
      io_ret (add_cands (add_cands cands geq) leq))))"

fun near_loop :: "'s env \<Rightarrow> Board \<Rightarrow> rat \<Rightarrow> int \<Rightarrow> int list \<Rightarrow> zset \<Rightarrow> ('s, zset) io" where
  "near_loop R b stored cnt [] cands = io_ret cands"
| "near_loop R b stored cnt (i # is) cands =
     io_bind (shardNear R b stored cnt i cands) (near_loop R b stored cnt is)"

definition sh_Neighbors :: "'s env \<Rightarrow> int \<Rightarrow> Board \<Rightarrow> string \<Rightarrow> int \<Rightarrow> ('s, RankEntry list) io" where
  "sh_Neighbors R n b member k =
     io_bind (io_lift (board_validate b)) (\<lambda>_.
       let k = (if k < 0 then 0 else k); cfg = withDefaults (Config b); asc = (SortOrder cfg = SortAsc);
           sb = shardBoard b (shardOf n member) in
       io_bind (io_catch_nil (io_cmd (ZSCORE R (zKey (Key sb)) member)) (io_fail ErrMemberNotFound)) (\<lambda>stored.
       if \<not> make_ok 24 (wrap64 (wrap64 (2 * k + 2) * n)) then io_fail Panic
       else io_bind (near_loop R b stored (wrap64 (k + 1)) [0..n - 1] []) (\<lambda>cands.
         let cands = go_sort (cand_less asc) cands in
         case zpos cands member of None \<Rightarrow> io_fail ErrMemberNotFound
         | Some mi \<Rightarrow>
             (let lo = (if int mi - k < 0 then 0 else int mi - k);
                  hi = (let hi = wrap64 (int mi + k) in if int (length cands) - 1 < hi then int (length cands) - 1 else hi)
              in (\<lambda>s. case (case sh_approxRank R n b member s of
                       (Inr me, s1) \<Rightarrow> (Inr (Rank me), s1)
                     | (Inl e, s1) \<Rightarrow> (if e = ErrApproxDisabled then Inr (int mi + 1) else Inl e, s1)) of
                   (Inl e, s1) \<Rightarrow> (Inl e, s1)
                 | (Inr base, s1) \<Rightarrow>
                     if \<not> make_ok 56 (hi - lo + 1) then (Inl Panic, s1)
                     else (Inr (map (\<lambda>i. \<lparr>Member = snd (cands ! nat i),
                             Score = decode (cvt_oor R) (newScoreCodec cfg) (fst (cands ! nat i)),
                             Rank = base + (i - int mi), Exact = False, Nickname = ''''\<rparr>) [lo..hi]), s1))))))"

subsection \<open>The board as one set\<close>

text \<open>
  The abstraction: all entries of all shards as one sorted set. It is meaningful when every shard
  holds only the members that hash to it (\<open>sharded_ok\<close>), which routing establishes.
\<close>

definition shard_zset :: "keyspace \<Rightarrow> Board \<Rightarrow> int \<Rightarrow> zset" where
  "shard_zset K b i = (case zset_at K (zKey (Key (shardBoard b i))) of None \<Rightarrow> [] | Some l \<Rightarrow> l)"

definition sharded_ok :: "keyspace \<Rightarrow> int \<Rightarrow> Board \<Rightarrow> bool" where
  "sharded_ok K n b \<longleftrightarrow> 1 \<le> n \<and> (\<forall>i \<in> {0..<n}. zset_at K (zKey (Key (shardBoard b i))) \<noteq> None \<and>
     zset_ok (shard_zset K b i) \<and> (\<forall>e \<in> set (shard_zset K b i). shardOf n (snd e) = i))"

definition union_zset :: "keyspace \<Rightarrow> int \<Rightarrow> Board \<Rightarrow> zset" where
  "union_zset K n b = sort (concat (map (shard_zset K b) [0..n - 1]))"

lemma cand_less_friend: "cand_less asc = friend_less asc"
  by (simp add: fun_eq_iff cand_less_def lessInOrder_def friend_less_def)

lemma shardOf_range: "1 \<le> n \<Longrightarrow> 0 \<le> shardOf n m \<and> shardOf n m < n"
  by (simp add: shardOf_def)

lemma Config_shardBoard [simp]: "Config (shardBoard b i) = Config b"
  by (simp add: shardBoard_def)

lemma shard_zset_at:
  "sharded_ok K n b \<Longrightarrow> i \<in> {0..<n} \<Longrightarrow> zset_at K (zKey (Key (shardBoard b i))) = Some (shard_zset K b i)"
  by (auto simp: sharded_ok_def shard_zset_def split: option.splits)

lemma concat_shards_distinct:
  assumes "sharded_ok K n b"
  shows "distinct (map snd (concat (map (shard_zset K b) [0..n - 1])))"
proof -
  have "distinct (map snd (concat (map (shard_zset K b) is)))" if "distinct is" "set is \<subseteq> {0..<n}" for "is"
    using that
  proof (induction "is")
    case (Cons i "is")
    have "distinct (map snd (shard_zset K b i))" using assms Cons.prems by (auto simp: sharded_ok_def zset_ok_def)
    moreover have "snd ` set (shard_zset K b i) \<inter> snd ` set (concat (map (shard_zset K b) is)) = {}"
    proof -
      have "shardOf n m = i" if "m \<in> snd ` set (shard_zset K b i)" for m
        using that assms Cons.prems by (auto simp: sharded_ok_def)
      moreover have "shardOf n m \<in> set is" if "m \<in> snd ` set (concat (map (shard_zset K b) is))" for m
        using that assms Cons.prems by (fastforce simp: sharded_ok_def)
      ultimately show ?thesis using Cons.prems(1) by (metis disjoint_iff distinct.simps(2))
    qed
    ultimately show ?case using Cons by simp
  qed simp
  moreover have "{0..n - 1} \<subseteq> {0..<n}" by auto
  ultimately show ?thesis by simp
qed

lemma zset_ok_sort: "distinct (map snd l) \<Longrightarrow> zset_ok (sort l)"
proof -
  assume d: "distinct (map snd l)"
  then have "distinct l" by (simp add: distinct_map)
  then have "sorted_wrt (<) (sort l)" by (simp add: strict_sorted_iff)
  moreover have "mset (map snd (sort l)) = mset (map snd l)" by simp
  with d have "distinct (map snd (sort l))" by (metis mset_eq_imp_distinct_iff)
  ultimately show ?thesis by (simp add: zset_ok_def)
qed

lemma zset_ok_union: "sharded_ok K n b \<Longrightarrow> zset_ok (union_zset K n b)"
  unfolding union_zset_def by (intro zset_ok_sort concat_shards_distinct)

lemma mset_union: "mset (union_zset K n b) = mset (concat (map (shard_zset K b) [0..n - 1]))"
  by (simp add: union_zset_def)

lemma set_union: "set (union_zset K n b) = (\<Union>i \<in> {0..<n}. set (shard_zset K b i))"
  by (auto simp: union_zset_def)

text \<open>A member is looked up in the shard it hashes to.\<close>

lemma zget_union:
  assumes "sharded_ok K n b"
  shows "zget (union_zset K n b) m = zget (shard_zset K b (shardOf n m)) m"
proof -
  have s: "shardOf n m \<in> {0..<n}" using assms shardOf_range [of n m] by (auto simp: sharded_ok_def)
  have d: "distinct (map snd (union_zset K n b))" "distinct (map snd (shard_zset K b (shardOf n m)))"
    using zset_ok_union [OF assms] assms s by (auto simp: zset_ok_def sharded_ok_def)
  have "zget (union_zset K n b) m = Some v \<longleftrightarrow> zget (shard_zset K b (shardOf n m)) m = Some v" for v
    unfolding zget_Some_iff [OF d(1)] zget_Some_iff [OF d(2)] set_union
    using assms s by (fastforce simp: sharded_ok_def)
  then show ?thesis by (metis option.exhaust)
qed

text \<open>A submission to the member's shard is the submission to the union.\<close>

lemma union_update:
  assumes "sharded_ok K n b" "sharded_ok K' n b" "i = shardOf n m"
    "\<And>j. j \<in> {0..<n} \<Longrightarrow> j \<noteq> i \<Longrightarrow> shard_zset K' b j = shard_zset K b j"
    "\<And>m'. m' \<noteq> m \<Longrightarrow> zget (shard_zset K' b i) m' = zget (shard_zset K b i) m'"
    "zset_ok l'" "\<And>m'. zget l' m' = (if m' = m then zget (shard_zset K' b i) m else zget (union_zset K n b) m')"
  shows "union_zset K' n b = l'"
proof (rule zset_eqI [OF zset_ok_union [OF assms(2)] assms(6)])
  fix m'
  have "shardOf n m' \<in> {0..<n}" using assms(1) shardOf_range [of n m'] by (auto simp: sharded_ok_def)
  then show "zget (union_zset K' n b) m' = zget l' m'"
    using assms(3,4,5,7) unfolding zget_union [OF assms(1)] zget_union [OF assms(2)] by (cases "shardOf n m' = i") auto
qed

subsection \<open>Merged reads\<close>

lemma go_sort_union:
  assumes "sharded_ok K n b"
  shows "go_sort (friend_less asc) (concat (map (\<lambda>i. ranking asc (shard_zset K b i)) [0..n - 1])) = ranking asc (union_zset K n b)"
proof (rule go_sort_ranking [OF zset_ok_union [OF assms]])
  have "mset (concat (map (\<lambda>i. ranking asc (shard_zset K b i)) is)) = mset (concat (map (shard_zset K b) is))" for "is"
    by (induction "is") auto
  then show "mset (concat (map (\<lambda>i. ranking asc (shard_zset K b i)) [0..n - 1])) = mset (union_zset K n b)"
    by (simp add: mset_union)
qed

lemma take_merge_union:
  assumes "sharded_ok K n b"
  shows "take k (go_sort (friend_less asc) (concat (map (\<lambda>i. take k (ranking asc (shard_zset K b i))) [0..n - 1]))) =
    take k (ranking asc (union_zset K n b))"
proof -
  define yss where "yss = map (\<lambda>i. ranking asc (shard_zset K b i)) [0..n - 1]"
  have "sorted_wrt (friend_order.leq asc) ys" if "ys \<in> set yss" for ys
    using that assms by (auto simp: yss_def sharded_ok_def intro!: friend_order.strict_imp_leq ranking_sorted)
  from friend_order.take_go_sort_merge [OF this, of yss k "[]"]
  show ?thesis using go_sort_union [OF assms, of asc] by (simp add: yss_def comp_def)
qed

lemma window_drop_take: "0 \<le> start \<Longrightarrow> start \<le> stop \<Longrightarrow> window start stop xs = drop (nat start) (take (nat (stop + 1)) xs)"
  by (simp add: window_def drop_take flip: nat_diff_distrib) (simp add: algebra_simps)

lemma slice_window:
  assumes "0 \<le> start" "start \<le> stop"
  shows "slice xs start (min (stop + 1) (int (length xs))) = window start stop xs"
proof (cases "stop + 1 \<le> int (length xs)")
  case True
  then show ?thesis by (simp add: slice_def window_def algebra_simps)
next
  case False
  then have "length (drop (nat start) xs) \<le> nat (int (length xs) - start)"
    "length (drop (nat start) xs) \<le> nat (stop - start + 1)" using assms by auto
  with False show ?thesis by (simp add: slice_def window_def)
qed

context redis_docs
begin

lemma shardRange_spec:
  assumes "sharded_ok (ks s) n b" "i \<in> {0..<n}" "0 \<le> stop"
  shows "shardRange R b i stop s = (Inr (take (nat (stop + 1)) (ranking (is_asc b) (shard_zset (ks s) b i))), s)"
  using shard_zset_at [OF assms(1,2)] assms(3)
  by (simp add: shardRange_def io_simps is_asc_def ranking_def window_def ZRANGE ZREVRANGE)

lemma rangeMerged_spec:
  assumes "board_validate b = Inr ()" "sharded_ok (ks s) n b" "0 \<le> start" "start \<le> stop" "stop + 1 < 2 ^ 63"
    "make_ok 24 ((stop + 1) * n)" "(stop + 1) * n < 2 ^ 63"
  shows "rangeMerged R n b start stop s =
    (Inr (window start stop (standings (cvt_oor R) b (union_zset (ks s) n b))), s)"
proof -
  define asc where "asc = is_asc b"
  define k where "k = nat (stop + 1)"
  define cands where "cands = map (\<lambda>i. take k (ranking asc (shard_zset (ks s) b i))) [0..n - 1]"
  define al where "al = go_sort (friend_less asc) (concat cands)"
  define G where "G = ranking asc (union_zset (ks s) n b)"
  have w: "wrap64 (stop + 1) = stop + 1" using assms(3-5) by (intro wrap64_nonneg) auto
  have n1: "1 \<le> n" using assms(2) by (simp add: sharded_ok_def)
  have w2: "wrap64 ((stop + 1) * n) = (stop + 1) * n"
    using assms(3,4,7) n1 by (intro wrap64_nonneg) auto
  have tk: "take k al = take k G"
    unfolding al_def cands_def G_def by (rule take_merge_union [OF assms(2)])
  have loop: "io_map (\<lambda>i. shardRange R b i stop) [0..n - 1] s = (Inr cands, s)"
    unfolding cands_def asc_def k_def using assms(2-4)
    by (intro io_map_readonly shardRange_spec) auto
  have win: "window start stop al = window start stop G"
    unfolding window_drop_take [OF assms(3,4)] k_def [symmetric] tk ..
  have tail: "(if int (length al) \<le> start then io_ret []
      else io_ret (rank_entries (board_decode (cvt_oor R) b) start (slice al start (min (stop + 1) (int (length al)))))) s =
     (Inr (window start stop (standings (cvt_oor R) b (union_zset (ks s) n b))), s)"
  proof -
    have "window start stop (standings (cvt_oor R) b (union_zset (ks s) n b)) =
        rank_entries (board_decode (cvt_oor R) b) start (window start stop G)"
      using assms(3) by (simp add: standings_def G_def asc_def rank_entries_window)
    also have "window start stop G = window start stop al" by (simp only: win)
    finally have eq: "window start stop (standings (cvt_oor R) b (union_zset (ks s) n b)) =
        rank_entries (board_decode (cvt_oor R) b) start (window start stop al)" .
    moreover have "window start stop al = []" if "int (length al) \<le> start"
      using that by (simp add: window_def)
    ultimately show ?thesis by (simp add: io_simps slice_window [OF assms(3,4)] rank_entries_def)
  qed
  show ?thesis
    using assms(1,3,4,6) w w2 loop tail
    by (simp add: rangeMerged_def io_bind_def io_lift_def Let_def cand_less_friend is_asc_def [symmetric]
        board_decode_def [symmetric] asc_def [symmetric] al_def [symmetric] del: length_go_sort split: if_splits)
qed

end

subsection \<open>Keys of the shards\<close>

lemma shardBoard_sel [simp]:
  "App (Key (shardBoard b i)) = App (Key b)" "BoardName (Key (shardBoard b i)) = BoardName (Key b) @ ''#s'' @ itoa i"
  "Segment (Key (shardBoard b i)) = Segment (Key b)" "Window (Key (shardBoard b i)) = Window (Key b)"
  by (simp_all add: shardBoard_def)

lemma itoa_no_structural: "set (itoa i) \<inter> set structural = {}"
  using itoa_chars by (fastforce simp: structural_def is_digit_def)

lemma shard_key_valid: "key_validate (Key b) = Inr () \<Longrightarrow> key_validate (Key (shardBoard b i)) = Inr ()"
proof -
  have "\<not> invalidComponent (x @ ''#s'' @ itoa i)" if "\<not> invalidComponent x" for x
    using that itoa_no_structural [of i] by (auto simp: invalidComponent_def contains_any_def list_ex_iff structural_def)
  then show "key_validate (Key b) = Inr () \<Longrightarrow> key_validate (Key (shardBoard b i)) = Inr ()"
    by (auto simp: key_validate_def Let_def effWindow_def split: if_splits)
qed

lemma shard_board_valid: "board_validate b = Inr () \<Longrightarrow> board_validate (shardBoard b i) = Inr ()"
  using shard_key_valid [of b i] by (auto simp: board_validate_def split: sum.splits)

lemma append_digits_inject:
  assumes "a @ ''#s'' @ x = b @ ''#s'' @ y" "CHR ''#'' \<notin> set x" "CHR ''#'' \<notin> set y"
  shows "a = b \<and> x = y"
proof -
  have "rev x @ ''s#'' @ rev a = rev y @ ''s#'' @ rev b" using arg_cong [OF assms(1), of rev] by simp
  then have eq: "takeWhile (\<lambda>c. c \<noteq> CHR ''#'') (rev x @ ''s#'' @ rev a) = takeWhile (\<lambda>c. c \<noteq> CHR ''#'') (rev y @ ''s#'' @ rev b)" by simp
  have tw: "takeWhile (\<lambda>c. c \<noteq> CHR ''#'') (rev z @ ''s#'' @ w) = rev z @ ''s''" if "CHR ''#'' \<notin> set z" for z w
  proof -
    have "\<And>c. c \<in> set (rev z) \<Longrightarrow> c \<noteq> CHR ''#''" using that by auto
    then show ?thesis by (subst takeWhile_append2) auto
  qed
  have "x = y" using eq tw [OF assms(2)] tw [OF assms(3)] by simp
  with assms(1) show ?thesis by simp
qed

lemma itoa_no_hash: "CHR ''#'' \<notin> set (itoa i)"
  using itoa_chars [of "CHR ''#''" i] by (auto simp: is_digit_def)

lemma shard_keys_inject:
  assumes "key_validate (Key b) = Inr ()" "key_validate (Key b') = Inr ()"
    "hashTag (Key (shardBoard b i)) = hashTag (Key (shardBoard b' j))"
  shows "norm_key (Key b) = norm_key (Key b') \<and> i = j"
proof -
  have n: "norm_key (Key (shardBoard b i)) = norm_key (Key (shardBoard b' j))"
    by (rule hashTag_inject [OF shard_key_valid [OF assms(1)] shard_key_valid [OF assms(2)] assms(3)])
  then have "BoardName (Key b) @ ''#s'' @ itoa i = BoardName (Key b') @ ''#s'' @ itoa j"
    by (metis norm_key_sel(2) shardBoard_sel(2))
  then have "BoardName (Key b) = BoardName (Key b')" "itoa i = itoa j"
    using append_digits_inject itoa_no_hash by blast+
  moreover have "App (Key b) = App (Key b')" "sanitizeSegment (Segment (Key b)) = sanitizeSegment (Segment (Key b'))"
    "effWindow (Key b) = effWindow (Key b')"
    using n by (metis norm_key_sel(1) shardBoard_sel(1), metis norm_key_sel(3) shardBoard_sel(3),
      metis (no_types) effWindow_def norm_key_sel(4) shardBoard_sel(4))
  ultimately show ?thesis using itoa_inject by (auto intro: BoardKey.equality)
qed

subsection \<open>Writes, friends and counts\<close>

lemma shard_zset_frame:
  assumes "K' (zKey (Key (shardBoard b i))) = K (zKey (Key (shardBoard b i)))"
  shows "shard_zset K' b i = shard_zset K b i" "zset_at K' (zKey (Key (shardBoard b i))) = zset_at K (zKey (Key (shardBoard b i)))"
  using assms by (simp_all add: shard_zset_def zset_at_def)

context redis_docs
begin

lemma sh_Submit_spec:
  assumes "board_validate b = Inr ()" "sharded_ok (ks s) n b"
    "encode (cvt_oor R) (withDefaults (Config b)) score t = Inr enc"
    and new: "new = policy_value (withDefaults (Config b)) (zget (union_zset (ks s) n b) m) score enc" "\<bar>new\<bar> < 2 ^ 1024"
    and "hist_world (cvt_oor R) {shardBoard b (shardOf n m)} 1 (ks s) (ks s)"
  obtains s' where "sh_Submit R n b m score t s = (Inr \<lparr>Updated = (UpdatePolicy (withDefaults (Config b)) = UpdateIncrement \<or>
        zget (union_zset (ks s) n b) m \<noteq> Some new), NewScore = board_decode (cvt_oor R) b new\<rparr>, s')"
    "sharded_ok (ks s') n b"
    "union_zset (ks s') n b = apply_submit (the_op b m score t) enc (union_zset (ks s) n b)"
proof -
  define i where "i = shardOf n m"
  define sb where "sb = shardBoard b i"
  define l where "l = shard_zset (ks s) b i"
  have i: "i \<in> {0..<n}" using assms(2) shardOf_range [of n m] by (auto simp: i_def sharded_ok_def)
  have l: "zset_at (ks s) (zKey (Key sb)) = Some l" unfolding sb_def l_def by (rule shard_zset_at [OF assms(2) i])
  have ok: "zset_ok l" by (rule zset_at_ok [OF l])
  have gl: "zget (union_zset (ks s) n b) m = zget l m" unfolding l_def i_def by (rule zget_union [OF assms(2)])
  have v: "board_validate sb = Inr ()" unfolding sb_def by (rule shard_board_valid [OF assms(1)])
  have enc: "encode (cvt_oor R) (withDefaults (Config sb)) score t = Inr enc" using assms(3) by (simp add: sb_def)
  have new': "new = policy_value (withDefaults (Config sb)) (zget l m) score enc" using new(1) gl by (simp add: sb_def)
  obtain s' where s': "Submit R sb m score t s = (Inr \<lparr>Updated = (UpdatePolicy (withDefaults (Config sb)) = UpdateIncrement \<or>
        zget l m \<noteq> Some new), NewScore = board_decode (cvt_oor R) sb new\<rparr>, s')"
    "zset_at (ks s') (zKey (Key sb)) = Some (apply_submit (the_op sb m score t) enc l)"
    "\<And>k. k \<noteq> zKey (Key sb) \<Longrightarrow> (\<forall>k'. k \<noteq> hKey k') \<Longrightarrow> ks s' k = ks s k"
    using Submit_spec [OF v l enc new' new(2)] assms(6) unfolding sb_def i_def by blast
  define l' where "l' = apply_submit (the_op sb m score t) enc l"
  have ok': "zset_ok l'" unfolding l'_def by (rule zset_ok_apply_submit [OF ok])
  have zl': "zget l' m' = (if m' = m then Some new else zget l m')" for m'
    using zget_apply_submit [OF ok, of "the_op sb m score t" enc m'] new' by (simp add: l'_def)
  have si: "shard_zset (ks s') b i = l'" using s'(2) by (simp add: shard_zset_def sb_def l'_def)
  have other: "shard_zset (ks s') b j = shard_zset (ks s) b j"
    "zset_at (ks s') (zKey (Key (shardBoard b j))) = zset_at (ks s) (zKey (Key (shardBoard b j)))" if "j \<noteq> i" for j
  proof -
    have "zKey (Key (shardBoard b j)) \<noteq> zKey (Key sb)"
      using that shard_keys_inject [of b b j i] board_validD [OF assms(1)] by (auto simp: zKey_eq_iff sb_def)
    then have "ks s' (zKey (Key (shardBoard b j))) = ks s (zKey (Key (shardBoard b j)))" by (intro s'(3)) simp_all
    then show "shard_zset (ks s') b j = shard_zset (ks s) b j"
      "zset_at (ks s') (zKey (Key (shardBoard b j))) = zset_at (ks s) (zKey (Key (shardBoard b j)))"
      by (rule shard_zset_frame)+
  qed
  have lm: "shardOf n m' = i" if "zget l m' \<noteq> None" for m'
  proof -
    from that have "m' \<in> snd ` set l" by (simp add: zget_None_iff)
    with assms(2) i show ?thesis by (auto simp: sharded_ok_def l_def)
  qed
  have mem: "shardOf n (snd e) = i" if "e \<in> set l'" for e
  proof -
    from that have "zget l' (snd e) \<noteq> None" by (simp add: zget_None_iff)
    then show ?thesis using lm [of "snd e"] by (cases "snd e = m") (simp_all add: zl' i_def)
  qed
  have sok: "sharded_ok (ks s') n b"
    unfolding sharded_ok_def
  proof (intro conjI ballI)
    show "1 \<le> n" using assms(2) by (simp add: sharded_ok_def)
    fix j assume j: "j \<in> {0..<n}"
    show "zset_at (ks s') (zKey (Key (shardBoard b j))) \<noteq> None"
      using s'(2) other(2) [of j] assms(2) j by (cases "j = i") (auto simp: sharded_ok_def sb_def)
    show "zset_ok (shard_zset (ks s') b j)"
      using si ok' other(1) [of j] assms(2) j by (cases "j = i") (auto simp: sharded_ok_def)
    fix e assume "e \<in> set (shard_zset (ks s') b j)"
    then show "shardOf n (snd e) = j"
      using si mem other(1) [of j] assms(2) j by (cases "j = i") (auto simp: sharded_ok_def)
  qed
  have uok: "zset_ok (union_zset (ks s) n b)" by (rule zset_ok_union [OF assms(2)])
  have "union_zset (ks s') n b = apply_submit (the_op b m score t) enc (union_zset (ks s) n b)"
  proof (rule union_update [OF assms(2) sok i_def])
    show "zset_ok (apply_submit (the_op b m score t) enc (union_zset (ks s) n b))" by (rule zset_ok_apply_submit [OF uok])
    show "zget (apply_submit (the_op b m score t) enc (union_zset (ks s) n b)) m' =
        (if m' = m then zget (shard_zset (ks s') b i) m else zget (union_zset (ks s) n b) m')" for m'
      using zget_apply_submit [OF uok, of "the_op b m score t" enc m'] new(1) by (simp add: si zl')
  qed (use other(1) si zl' in \<open>auto simp: l_def\<close>)
  moreover have "sh_Submit R n b m score t s = (Inr \<lparr>Updated = (UpdatePolicy (withDefaults (Config b)) = UpdateIncrement \<or>
        zget (union_zset (ks s) n b) m \<noteq> Some new), NewScore = board_decode (cvt_oor R) b new\<rparr>, s')"
    using s'(1) gl by (simp add: sh_Submit_def i_def [symmetric] sb_def [symmetric]) (simp add: sb_def board_decode_def)
  ultimately show ?thesis using sok that by blast
qed

lemma sh_FriendRank_spec:
  assumes "board_validate b = Inr ()" "sharded_ok (ks s) n b" "distinct ms"
  shows "sh_FriendRank R n b ms s = (Inr (rank_entries (board_decode (cvt_oor R) b) 0
     (filter (\<lambda>e. snd e \<in> set ms) (ranking (is_asc b) (union_zset (ks s) n b)))), s)"
proof (cases "ms = []")
  case False
  define l where "l = union_zset (ks s) n b"
  note ok = zset_ok_union [OF assms(2), folded l_def]
  have zs: "ZSCORE R (zKey (Key (shardBoard b (shardOf n m)))) m s = (opt_reply (zget l m), s)" for m
  proof -
    have "shardOf n m \<in> {0..<n}" using assms(2) shardOf_range [of n m] by (auto simp: sharded_ok_def)
    from ZSCORE [OF shard_zset_at [OF assms(2) this]] show ?thesis by (simp add: l_def zget_union [OF assms(2)])
  qed
  have p: "pipe_run (\<lambda>m. ZSCORE R (zKey (Key (shardBoard b (shardOf n m)))) m) ms s = (map (\<lambda>m. opt_reply (zget l m)) ms, s)"
    by (intro pipe_run_readonly zs)
  have e: "exec_failed (map reply_err (map (\<lambda>m. opt_reply (zget l m)) ms)) = None"
    by (rule exec_failed_no_error) (auto simp: opt_reply_def split: option.splits)
  have cf: "collect_found ms (map (\<lambda>m. opt_reply (zget l m)) ms) =
      Inr (List.map_filter (\<lambda>m. map_option (\<lambda>v. (v, m)) (zget l m)) ms)"
    by (rule collect_found_opt)
  have g: "go_sort (friend_less (is_asc b)) (List.map_filter (\<lambda>m. map_option (\<lambda>v. (v, m)) (zget l m)) ms) =
      filter (\<lambda>e. snd e \<in> set ms) (ranking (is_asc b) l)"
    by (rule go_sort_filter_ranking [OF ok mset_map_filter_zget [OF ok assms(3)]])
  show ?thesis
    using False assms(1) e g
    by (simp add: sh_FriendRank_def io_simps Let_def p cf is_asc_def [symmetric] board_decode_def [symmetric]
        l_def [symmetric] cand_less_friend)
qed (use assms in \<open>simp add: sh_FriendRank_def io_simps rank_entries_def\<close>)

lemma sh_Count_spec:
  assumes "key_validate (Key b) = Inr ()" "sharded_ok (ks s) n b" "int (length (union_zset (ks s) n b)) < 2 ^ 63"
  shows "sh_Count R n b s = (Inr (int (length (union_zset (ks s) n b))), s)"
proof -
  define f where "f = (\<lambda>i. int (length (shard_zset (ks s) b i)))"
  have "io_map (\<lambda>i. Count R (shardBoard b i)) [0..n - 1] s = (Inr (map f [0..n - 1]), s)"
    using Count_standings [OF shard_key_valid [OF assms(1)] shard_zset_at [OF assms(2)]] unfolding f_def
    by (intro io_map_readonly) simp
  moreover have "sum_list (map f is) = int (length (concat (map (shard_zset (ks s) b) is)))" for "is"
    by (induction "is") (auto simp: f_def)
  then have "sum_list (map f [0..n - 1]) = int (length (union_zset (ks s) n b))" by (simp add: union_zset_def)
  moreover from this assms(3) have "sum64 (map f [0..n - 1]) = sum_list (map f [0..n - 1])"
    by (intro sum64_bounded) (auto simp: f_def)
  ultimately show ?thesis by (simp add: sh_Count_def io_simps)
qed

end

subsection \<open>The approximate rank over all shards\<close>

lemma boardHistogram_shard: "boardHistogram (shardBoard b i) = (boardHistogram b)\<lparr>hkey := hKey (Key (shardBoard b i))\<rparr>"
  by (simp add: boardHistogram_def NewHistogram_def Let_def)

lemma bucketIndex_shard [simp]: "bucketIndex oor (boardHistogram (shardBoard b i)) x = bucketIndex oor (boardHistogram b) x"
  by (simp add: bucketIndex_def boardHistogram_shard Let_def)

lemma hbuckets_shard [simp]: "hbuckets (boardHistogram (shardBoard b i)) = hbuckets (boardHistogram b)"
  by (simp add: boardHistogram_shard)

lemma bucket_count_shard [simp]: "bucket_count oor (shardBoard b i) = bucket_count oor b"
  by (simp add: fun_eq_iff bucket_count_def bucket_of_def board_decode_def)

lemma add_counts_map:
  assumes "\<And>j. j \<in> {0..<N} \<Longrightarrow> 0 \<le> g j + f j \<and> g j + f j < 2 ^ 63"
  shows "add_counts (map g [0..N - 1]) (map f [0..N - 1]) = map (\<lambda>j. g j + f j) [0..N - 1]"
proof (rule nth_equalityI)
  fix i assume "i < length (add_counts (map g [0..N - 1]) (map f [0..N - 1]))"
  then have i: "int i \<in> {0..<N}" "i < nat N" by (auto simp: add_counts_def)
  then have "wrap64 (g (int i) + f (int i)) = g (int i) + f (int i)" using assms [OF i(1)] by (intro wrap64_nonneg) auto
  then show "add_counts (map g [0..N - 1]) (map f [0..N - 1]) ! i = map (\<lambda>j. g j + f j) [0..N - 1] ! i"
    using i by (simp add: add_counts_def)
qed (simp add: add_counts_def)

lemma sum_counts_spec:
  assumes "\<And>i. i \<in> set is \<Longrightarrow> countsFrom (hs i) (map_val (rs i)) = Inr (map (f i) [0..N - 1])"
    "\<And>i j. 0 \<le> f i j" "\<And>j. 0 \<le> g j" "\<And>j. j \<in> {0..<N} \<Longrightarrow> g j + (\<Sum>i\<leftarrow>is. f i j) < 2 ^ 63"
  shows "sum_counts (map hs is) (map rs is) (map g [0..N - 1]) = Inr (map (\<lambda>j. g j + (\<Sum>i\<leftarrow>is. f i j)) [0..N - 1])"
  using assms
proof (induction "is" arbitrary: g)
  case (Cons i "is")
  have nn: "0 \<le> (\<Sum>i\<leftarrow>is. f i j)" for j using Cons.prems(2) by (intro sum_list_nonneg) auto
  have add: "add_counts (map g [0..N - 1]) (map (f i) [0..N - 1]) = map (\<lambda>j. g j + f i j) [0..N - 1]"
  proof (rule add_counts_map)
    fix j assume "j \<in> {0..<N}"
    then have "g j + (f i j + (\<Sum>i\<leftarrow>is. f i j)) < 2 ^ 63" using Cons.prems(4) by simp
    then show "0 \<le> g j + f i j \<and> g j + f i j < 2 ^ 63" using nn [of j] Cons.prems(2) [of i j] Cons.prems(3) [of j] by linarith
  qed
  have "sum_counts (map hs is) (map rs is) (map (\<lambda>j. g j + f i j) [0..N - 1]) =
      Inr (map (\<lambda>j. g j + f i j + (\<Sum>i\<leftarrow>is. f i j)) [0..N - 1])"
    using Cons.prems by (intro Cons.IH) (auto simp: add.assoc)
  then show ?case using Cons.prems(1) [of i] add by (simp add: add.assoc)
qed simp

lemma bucket_count_concat: "bucket_count oor b (concat ls) j = (\<Sum>l\<leftarrow>ls. bucket_count oor b l j)"
  by (induction ls) (auto simp: bucket_count_def)

lemma bucket_count_union:
  "bucket_count oor b (union_zset K n b) j = (\<Sum>i\<leftarrow>[0..n - 1]. bucket_count oor b (shard_zset K b i) j)"
proof -
  have "bucket_count oor b (union_zset K n b) j = bucket_count oor b (concat (map (shard_zset K b) [0..n - 1])) j"
    using bucket_count_split [of "union_zset K n b" "{#}" "concat (map (shard_zset K b) [0..n - 1])"] mset_union by simp
  then show ?thesis by (simp add: bucket_count_concat comp_def)
qed

context redis_docs
begin

lemma sh_approxRank_spec:
  assumes "board_validate b = Inr ()" "approx_board b" "hist_sane (boardHistogram b)" "make_ok 8 (hbuckets (boardHistogram b))"
    "sharded_ok (ks s) n b" "\<And>i. i \<in> {0..<n} \<Longrightarrow> hist_inv (cvt_oor R) (ks s) (ks s) (shardBoard b i)"
    "int (length (union_zset (ks s) n b)) + 1 < 2 ^ 63"
  shows "sh_approxRank R n b m s = (case zget (union_zset (ks s) n b) m of None \<Rightarrow> (Inl ErrMemberNotFound, s)
    | Some v \<Rightarrow> (Inr \<lparr>Member = m, Score = board_decode (cvt_oor R) b v,
        Rank = int (length (filter (better (cvt_oor R) b (bucket_of (cvt_oor R) b v)) (union_zset (ks s) n b))) + 1,
        Exact = False, Nickname = ''''\<rparr>, s))"
proof -
  define l where "l = union_zset (ks s) n b"
  define N where "N = hbuckets (boardHistogram b)"
  have n1: "1 \<le> n" using assms(5) by (simp add: sharded_ok_def)
  have "shardOf n m \<in> {0..<n}" using shardOf_range [OF n1] by auto
  from ZSCORE [OF shard_zset_at [OF assms(5) this], of m]
  have zs: "ZSCORE R (zKey (Key (shardBoard b (shardOf n m)))) m s = (opt_reply (zget l m), s)"
    by (simp add: l_def zget_union [OF assms(5)])
  have abk: "ApproxBuckets (withDefaults (Config b)) = N"
    using board_validD [OF assms(1)] config_validD(6) [OF _ refl, of "Config b"] assms(2)
    by (auto simp: N_def boardHistogram_def NewHistogram_def Let_def approx_board_def)
  have "\<exists>xs. HGETALL R (hKey (Key (shardBoard b i))) s = (Reply xs, s) \<and>
      countsFrom (boardHistogram (shardBoard b i)) xs = Inr (map (bucket_count (cvt_oor R) b (shard_zset (ks s) b i)) [0..N - 1])"
    if i: "i \<in> {0..<n}" for i
  proof -
    obtain hm where hm: "hash_at (ks s) (hKey (Key (shardBoard b i))) = Some hm"
      "hist_fields N hm (bucket_count (cvt_oor R) b (shard_zset (ks s) b i))"
      using assms(6) [OF i] shard_zset_at [OF assms(5) i] by (auto simp: hist_inv_def N_def split: option.splits)
    obtain xs where xs: "HGETALL R (hKey (Key (shardBoard b i))) s = (Reply xs, s)" "distinct (map fst xs)" "map_of xs = hm"
      using HGETALL [OF hm(1)] by blast
    have "countsFrom (boardHistogram (shardBoard b i)) xs = Inr (map (bucket_count (cvt_oor R) b (shard_zset (ks s) b i)) [0..N - 1])"
      using countsFrom_spec [OF xs(2,3), of "boardHistogram (shardBoard b i)"] hm(2) assms(4) by (simp add: N_def)
    with xs(1) show ?thesis by blast
  qed
  then obtain xs where xs: "\<And>i. i \<in> {0..<n} \<Longrightarrow> HGETALL R (hKey (Key (shardBoard b i))) s = (Reply (xs i), s)"
    "\<And>i. i \<in> {0..<n} \<Longrightarrow> countsFrom (boardHistogram (shardBoard b i)) (xs i) =
       Inr (map (bucket_count (cvt_oor R) b (shard_zset (ks s) b i)) [0..N - 1])" by metis
  define hists where "hists = map (\<lambda>i. boardHistogram (shardBoard b i)) [0..n - 1]"
  define rs where "rs = map (\<lambda>i. Reply (xs i)) [0..n - 1]"
  have "pipe_run (\<lambda>i. HGETALL R (hkey (boardHistogram (shardBoard b i)))) [0..n - 1] s = (rs, s)"
    unfolding rs_def by (rule pipe_run_readonly) (simp add: xs(1))
  then have p: "pipe_run (\<lambda>h. HGETALL R (hkey h)) hists s = (rs, s)" by (simp add: hists_def pipe_run_map)
  have e: "exec_failed (map reply_err rs) = None" by (rule exec_failed_no_error) (auto simp: rs_def)
  have z: "replicate (nat N) 0 = map (\<lambda>_. 0::int) [0..N - 1]" by (rule nth_equalityI) auto
  have tot: "sum_counts hists rs (replicate (nat N) 0) = Inr (map (bucket_count (cvt_oor R) b l) [0..N - 1])"
  proof -
    have eq: "(\<Sum>i\<leftarrow>[0..n - 1]. bucket_count (cvt_oor R) b (shard_zset (ks s) b i) j) = bucket_count (cvt_oor R) b l j" for j
      by (simp add: l_def bucket_count_union)
    have "sum_counts hists rs (map (\<lambda>_. 0) [0..N - 1]) =
        Inr (map (\<lambda>j. 0 + (\<Sum>i\<leftarrow>[0..n - 1]. bucket_count (cvt_oor R) b (shard_zset (ks s) b i) j)) [0..N - 1])"
      unfolding hists_def rs_def
    proof (rule sum_counts_spec)
      fix j show "0 + (\<Sum>i\<leftarrow>[0..n - 1]. bucket_count (cvt_oor R) b (shard_zset (ks s) b i) j) < 2 ^ 63"
        unfolding eq using bucket_count_le [of "cvt_oor R" b l j] assms(7) by (simp add: l_def)
    qed (auto simp: map_val_def xs(2) bucket_count_nonneg)
    then show ?thesis unfolding z eq by simp
  qed
  have hd: "hd hists = boardHistogram (shardBoard b 0)" using n1 by (simp add: hists_def upto_rec1)
  have N: "N \<le> 2 ^ 48" using assms(4) by (simp add: make_ok_def N_def)
  show ?thesis
  proof (cases "zget l m")
    case None
    then show ?thesis using assms(1,2) zs by (simp add: sh_approxRank_def io_simps Let_def approx_board_def l_def [symmetric])
  next
    case (Some v)
    have "approxRankFromCounts (map (bucket_count (cvt_oor R) b l) [0..N - 1]) (bucket_of (cvt_oor R) b v) (is_asc b) =
        Inr (int (length (filter (better (cvt_oor R) b (bucket_of (cvt_oor R) b v)) l)) + 1)"
      using N assms(3,7) by (intro approxRankFromCounts_spec refl) (simp_all add: N_def l_def)
    then have ar: "approxRankFromCounts (map (bucket_count (cvt_oor R) b l) [0..N - 1])
        (bucketIndex (cvt_oor R) (boardHistogram b) (board_decode (cvt_oor R) b v)) (is_asc b) =
        Inr (int (length (filter (better (cvt_oor R) b (bucket_of (cvt_oor R) b v)) l)) + 1)" by (simp add: bucket_of_def)
    show ?thesis using assms(1,2,4) zs Some p e tot hd ar abk
      by (simp add: sh_approxRank_def io_simps Let_def approx_board_def is_asc_def [symmetric] board_decode_def [symmetric]
          l_def [symmetric] hists_def [symmetric] N_def [symmetric])
  qed
qed

end

end
