(* ===== verification/Sharded_Properties.thy ===== *)
theory Sharded_Properties
  imports Sharded_Engine Engine_Properties
begin

text \<open>
  The properties of the sharded engine: seen through the union of its shards it behaves like the
  single sorted set, up to the approximate ranks, except for \<open>Neighbors\<close> when scores tie.
\<close>

lemma demo_shards: "shardOf 2 ''bob'' = 0" "shardOf 2 ''cy'' = 1"
  by code_simp+

definition shard_mem :: mem where
  "shard_mem = [(zKey (Key (shardBoard approx_demo 0)), CZset [(5, ''bob'')]),
     (hKey (Key (shardBoard approx_demo 0)), CHash [(''0'', ''1'')]),
     (zKey (Key (shardBoard approx_demo 1)), CZset [(30, ''cy'')]),
     (hKey (Key (shardBoard approx_demo 1)), CHash [(''1'', ''1'')])]"

lemma two_shards: "{0..<2} = {0, 1 :: int}"
  by auto

lemma shard_mem_at:
  "zset_at (mem_ks shard_mem) (zKey (Key (shardBoard approx_demo 0))) = Some [(5, ''bob'')]"
  "zset_at (mem_ks shard_mem) (zKey (Key (shardBoard approx_demo 1))) = Some [(30, ''cy'')]"
  by code_simp+

lemma two_ints: "[0..2 - 1] = [0, 1 :: int]"
  by code_simp

lemma shard_mem_ok: "sharded_ok (mem_ks shard_mem) 2 approx_demo"
  "union_zset (mem_ks shard_mem) 2 approx_demo = [(5, ''bob''), (30, ''cy'')]"
  unfolding sharded_ok_def two_shards union_zset_def two_ints
  by (auto simp: shard_zset_def shard_mem_at demo_shards zset_ok_def)



text \<open>
  (C27) Writes of a sharded board refine those of a single set: a submission routed to the shard
  of its member has the result and, on the union of the shards, the effect of the submission on
  one set, and every member stays on the shard it hashes to.
\<close>

theorem sharded_submit_refines:
  assumes "redis_docs R ks" "board_validate b = Inr ()" "sharded_ok (ks s) n b"
    "encode (cvt_oor R) (withDefaults (Config b)) score t = Inr enc"
    and "new = policy_value (withDefaults (Config b)) (zget (union_zset (ks s) n b) m) score enc" "\<bar>new\<bar> < 2 ^ 1024"
    and "hist_world (cvt_oor R) {shardBoard b (shardOf n m)} 1 (ks s) (ks s)"
  shows "\<exists>s'. sh_Submit R n b m score t s = (Inr \<lparr>Updated = (UpdatePolicy (withDefaults (Config b)) = UpdateIncrement \<or>
        zget (union_zset (ks s) n b) m \<noteq> Some new), NewScore = board_decode (cvt_oor R) b new\<rparr>, s') \<and>
    sharded_ok (ks s') n b \<and>
    union_zset (ks s') n b = apply_submit (the_op b m score t) enc (union_zset (ks s) n b)"
  by (rule redis_docs.sh_Submit_spec [OF assms]) blast

definition plain_shards :: mem where
  "plain_shards = [(zKey (Key (shardBoard demo_board 0)), CZset [(5, ''bob'')])]"

lemma plain_shards_at:
  "zset_at (mem_ks plain_shards) (zKey (Key (shardBoard demo_board 0))) = Some [(5, ''bob'')]"
  "zset_at (mem_ks plain_shards) (zKey (Key (shardBoard demo_board 1))) = Some []"
  by code_simp+

lemma plain_shards_ok: "sharded_ok (mem_ks plain_shards) 2 demo_board"
  "union_zset (mem_ks plain_shards) 2 demo_board = [(5, ''bob'')]"
  unfolding sharded_ok_def two_shards union_zset_def two_ints
  by (auto simp: shard_zset_def plain_shards_at demo_shards zset_ok_def)

theorem sharded_submit_refines_witness:
  "\<exists>s'. union_zset (mem_ks s') 2 demo_board = [(5, ''bob''), (7, ''cy'')] \<and> sharded_ok (mem_ks s') 2 demo_board"
proof -
  have f: "encode (cvt_oor mem_redis) (withDefaults (Config demo_board)) 7 0 = Inr 7"
    "policy_value (withDefaults (Config demo_board)) (zget [(5, ''bob'')] ''cy'') 7 7 = 7"
    "apply_submit (the_op demo_board ''cy'' 7 0) 7 [(5, ''bob'')] = [(5, ''bob''), (7, ''cy'')]" by code_simp+
  have "hist_world oor {shardBoard demo_board i} 1 K K" for oor i K
    by (rule demo_hist_world) (simp add: approx_board_def demo_board_def demo_cfg_def withDefaults_sel)
  then show ?thesis
    using sharded_submit_refines [OF mem_docs.redis_docs_axioms demo_valid(1) plain_shards_ok(1) f(1), of 7 "''cy''"]
      f(2,3) plain_shards_ok(2) by auto
qed

text \<open>
  (C28) The rank of a sharded board is estimated from the summed histograms: it never exceeds the
  member's position in the standings of the union and is below it by less than the population of
  the member's bucket.
\<close>

theorem sharded_rank_error:
  assumes "redis_docs R ks" "board_validate b = Inr ()" "approx_board b" "hist_sane (boardHistogram b)"
    "make_ok 8 (hbuckets (boardHistogram b))" "sharded_ok (ks s) n b"
    "\<And>i. i \<in> {0..<n} \<Longrightarrow> hist_inv (cvt_oor R) (ks s) (ks s) (shardBoard b i)"
    and l: "l = union_zset (ks s) n b" "int (length l) + 1 < 2 ^ 63"
    and "\<And>e. e \<in> set l \<Longrightarrow> stored_range (withDefaults (Config b)) (fst e)"
    and i: "zpos (ranking (is_asc b) l) m = Some i" "v = fst (ranking (is_asc b) l ! i)"
  shows "\<exists>e. sh_GetRank R n b m s = (Inr e, s) \<and> Score e = board_decode (cvt_oor R) b v \<and> \<not> Exact e \<and>
    Rank e \<le> int i + 1 \<and> int i + 1 < Rank e + bucket_count (cvt_oor R) b l (bucket_of (cvt_oor R) b v)"
proof -
  have ok: "zset_ok l" unfolding l by (rule zset_ok_union [OF assms(6)])
  have il: "i < length l" "snd (ranking (is_asc b) l ! i) = m" using zpos_Some [OF i(1)] by auto
  have "ranking (is_asc b) l ! i \<in> set l" using nth_mem [of i "ranking (is_asc b) l"] il(1) by simp
  with il(2) i(2) have z: "zget l m = Some v"
    using ok by (simp add: zget_Some_iff zset_ok_def) (metis prod.collapse)
  have sr: "\<And>e. e \<in> set l \<Longrightarrow> stored_range (newScoreCodec (withDefaults (Config b))) (fst e)"
    using assms(10) by (simp add: newScoreCodec_def)
  note rb = rank_bucket_bounds [OF ok assms(4) sr refl il(1) refl, of "cvt_oor R", folded i(2)]
  show ?thesis
    using redis_docs.sh_approxRank_spec [OF assms(1-7) l(2) [unfolded l(1)], of m] z rb
      bucket_count_nonneg [of "cvt_oor R" b l "bucket_of (cvt_oor R) b v"]
    by (simp add: sh_GetRank_def l(1) [symmetric])
qed

lemma shard_mem_inv: "i \<in> {0..<2} \<Longrightarrow> hist_inv (cvt_oor mem_redis) (mem_ks shard_mem) (mem_ks shard_mem) (shardBoard approx_demo i)"
proof -
  have inv: "hist_inv (cvt_oor mem_redis) (mem_ks shard_mem) (mem_ks shard_mem) (shardBoard approx_demo j)"
    if "mem_hash shard_mem (hKey (Key (shardBoard approx_demo j))) = Some fs"
      "zset_at (mem_ks shard_mem) (zKey (Key (shardBoard approx_demo j))) = Some l"
      "hist_fields 4 (map_of fs) (bucket_count (cvt_oor mem_redis) approx_demo l)" for j fs l
  proof -
    have "hash_at (mem_ks shard_mem) (hKey (Key (shardBoard approx_demo j))) = Some (map_of fs)"
      using mem_hash_view [of shard_mem "hKey (Key (shardBoard approx_demo j))"] that(1) by simp
    then show ?thesis using that(2,3) by (simp add: hist_inv_def approx_demo_facts(3))
  qed
  have 1: "hist_inv (cvt_oor mem_redis) (mem_ks shard_mem) (mem_ks shard_mem) (shardBoard approx_demo 0)"
  proof (rule inv [of _ "[(''0'', ''1'')]" "[(5, ''bob'')]"])
    show "mem_hash shard_mem (hKey (Key (shardBoard approx_demo 0))) = Some [(''0'', ''1'')]" by code_simp
    show "hist_fields 4 (map_of [(''0'', ''1'')]) (bucket_count (cvt_oor mem_redis) approx_demo [(5, ''bob'')])"
      by (rule hist_fields_code) code_simp+
  qed (rule shard_mem_at)
  have 2: "hist_inv (cvt_oor mem_redis) (mem_ks shard_mem) (mem_ks shard_mem) (shardBoard approx_demo 1)"
  proof (rule inv [of _ "[(''1'', ''1'')]" "[(30, ''cy'')]"])
    show "mem_hash shard_mem (hKey (Key (shardBoard approx_demo 1))) = Some [(''1'', ''1'')]" by code_simp
    show "hist_fields 4 (map_of [(''1'', ''1'')]) (bucket_count (cvt_oor mem_redis) approx_demo [(30, ''cy'')])"
      by (rule hist_fields_code) code_simp+
  qed (rule shard_mem_at)
  assume "i \<in> {0..<2}"
  with 1 2 show ?thesis by (auto simp: two_shards)
qed

theorem sharded_rank_error_witness:
  "\<exists>e. sh_GetRank mem_redis 2 approx_demo ''cy'' shard_mem = (Inr e, shard_mem) \<and> Rank e \<le> 1"
proof -
  have "make_ok 8 (hbuckets (boardHistogram approx_demo))"
    "zpos (ranking (is_asc approx_demo) [(5, ''bob''), (30, ''cy'')]) ''cy'' = Some 0"
    "fst (ranking (is_asc approx_demo) [(5, ''bob''), (30, ''cy'')] ! 0) = 30"
    "list_all (\<lambda>e. stored_range (withDefaults (Config approx_demo)) (fst e)) [(5, ''bob''), (30, ''cy'')]" by code_simp+
  then show ?thesis
    using sharded_rank_error [OF mem_docs.redis_docs_axioms approx_demo_facts(1,2) approx_demo_sane _ shard_mem_ok(1)
        shard_mem_inv shard_mem_ok(2) [symmetric], of "''cy''" 0] by (fastforce simp: list_all_iff)
qed

text \<open>
  Shards never share keys: the sorted sets of two shards have the same key only if they are
  the same shard of the same board, also when a board's name contains the shard suffix.
\<close>

theorem shard_keys_disjoint:
  assumes "key_validate (Key b) = Inr ()" "key_validate (Key b') = Inr ()"
    "zKey (Key (shardBoard b i)) = zKey (Key (shardBoard b' j))"
  shows "norm_key (Key b) = norm_key (Key b') \<and> i = j"
  using shard_keys_inject [OF assms(1,2)] assms(3) by (simp add: zKey_eq_iff)

theorem shard_keys_disjoint_witness:
  "zKey (Key (shardBoard demo_board 1)) \<noteq> zKey (Key (shardBoard demo_board 11))"
  using shard_keys_disjoint [OF demo_valid(2) demo_valid(2), of 1 11] by auto

text \<open>
  Friend leaderboards and counts of a sharded board are exact: they are those of the union
  of the shards.
\<close>

theorem sharded_friends_exact:
  assumes "redis_docs R ks" "board_validate b = Inr ()" "sharded_ok (ks s) n b" "distinct ms"
    "int (length (union_zset (ks s) n b)) < 2 ^ 63"
  shows "\<exists>es. sh_FriendRank R n b ms s = (Inr es, s) \<and>
    map Member es = filter (\<lambda>m. m \<in> set ms) (map Member (standings (cvt_oor R) b (union_zset (ks s) n b))) \<and>
    map Rank es = map (\<lambda>i. int i + 1) [0..<length es] \<and>
    sh_Count R n b s = (Inr (int (length (union_zset (ks s) n b))), s)"
proof -
  define es where "es = rank_entries (board_decode (cvt_oor R) b) 0
     (filter (\<lambda>e. snd e \<in> set ms) (ranking (is_asc b) (union_zset (ks s) n b)))"
  have "map Rank es = map (\<lambda>i. int i + 1) [0..<length es]"
    by (rule nth_equalityI) (auto simp: es_def nth_rank_entries)
  moreover have "map Member es = filter (\<lambda>m. m \<in> set ms) (map Member (standings (cvt_oor R) b (union_zset (ks s) n b)))"
    by (simp add: es_def standings_def filter_map comp_def)
  ultimately show ?thesis
    using redis_docs.sh_FriendRank_spec [OF assms(1-4)] redis_docs.sh_Count_spec [OF assms(1) _ assms(3,5)] board_validD [OF assms(2)]
    by (intro exI [of _ es]) (simp add: es_def)
qed

theorem sharded_friends_exact_witness:
  "sh_Count mem_redis 2 approx_demo shard_mem = (Inr 2, shard_mem)"
  using sharded_friends_exact [OF mem_docs.redis_docs_axioms approx_demo_facts(1) shard_mem_ok(1), of "[]"]
  by (simp add: shard_mem_ok(2))

definition tie_mem :: mem where
  "tie_mem = [(zKey (Key (shardBoard demo_board 0)),
     CZset [(10, ''a''), (10, ''b''), (10, ''c''), (10, ''d''), (10, ''e'')])]"

text \<open>
  With ties, the neighbors of a member of a sharded board may be missing: on one shard with
  five members of equal score, the two best and the two worst of them are fetched, and the
  neighborhood of the middle one is reported as \<open>ErrMemberNotFound\<close> although the member is on the
  board.
\<close>

theorem sharded_neighbors_tied:
  "sh_Neighbors mem_redis 1 demo_board ''c'' 1 tie_mem = (Inl ErrMemberNotFound, tie_mem) \<and>
   sh_Count mem_redis 1 demo_board tie_mem = (Inr 5, tie_mem) \<and>
   zget (union_zset (mem_ks tie_mem) 1 demo_board) ''c'' = Some 10"
  by code_simp

end
