(* ===== verification/Window.thy ===== *)
theory Window
  imports Engine_Scan
begin

text \<open>
  Time windows, \<open>pkg/window\<close>: the window id of a query, the end of a dated window, and the reaper
  that lets aged-out boards expire. Instants are unbounded integers (Go's \<open>time.Time\<close> covers far
  more than the years 0 to 9999 the ids can express); \<open>strings.ToLower\<close> is the ASCII one.
\<close>

subsection \<open>Window ids\<close>

definition lower :: "char \<Rightarrow> char" where
  "lower c = (if CHR ''A'' \<le> c \<and> c \<le> CHR ''Z'' then char_of (of_char c + 32 :: nat) else c)"

definition to_lower :: "string \<Rightarrow> string" where
  "to_lower s = map lower s"

definition Resolve :: "string \<Rightarrow> gotime \<Rightarrow> string" where
  "Resolve param now = (let p = to_lower param in
     if p = '''' \<or> p = ''all'' \<or> p = ''alltime'' then ''all''
     else if p = ''daily'' then WindowID \<lparr>Kind = ''daily'', CustomID = ''''\<rparr> now
     else if p = ''weekly'' then WindowID \<lparr>Kind = ''weekly'', CustomID = ''''\<rparr> now
     else if p = ''monthly'' then WindowID \<lparr>Kind = ''monthly'', CustomID = ''''\<rparr> now
     else param)"

text \<open>\<open>d.AddDate(y, m, d)\<close> on a day number.\<close>

definition add_date :: "int \<Rightarrow> int \<Rightarrow> int \<Rightarrow> int \<Rightarrow> int" where
  "add_date d years months days = (case date_of d of (y, m, dd) \<Rightarrow> go_date (y + years) (m + months) (dd + days))"

definition isoWeekStart :: "int \<Rightarrow> int \<Rightarrow> int" where
  "isoWeekStart year week =
     (let jan4 = go_date year 1 4; weekday = weekday_mon0 jan4; week1Monday = add_date jan4 0 0 (- weekday)
      in add_date week1Monday 0 0 ((week - 1) * 7))"

text \<open>\<open>strings.SplitN(body, "-W", 2)\<close> when it has two parts.\<close>

fun cut_W :: "string \<Rightarrow> (string \<times> string) option" where
  "cut_W [] = None"
| "cut_W (c # cs) = (if c = CHR ''-'' \<and> cs \<noteq> [] \<and> hd cs = CHR ''W'' then Some ([], tl cs)
     else map_option (\<lambda>(a, b). (c # a, b)) (cut_W cs))"

definition ParseEnd :: "string \<Rightarrow> gotime option" where
  "ParseEnd wid =
     (if has_prefix wid ''d='' then
        map_option (\<lambda>d. add_date d 0 0 1 * day_ns) (parse_ymd (drop 2 wid))
      else if has_prefix wid ''m='' then
        map_option (\<lambda>m. add_date m 0 1 0 * day_ns) (parse_ym (drop 2 wid))
      else if has_prefix wid ''w='' then
        (case cut_W (drop 2 wid) of None \<Rightarrow> None
         | Some (a, b) \<Rightarrow> (case (atoi a, atoi b) of
             (Some year, Some week) \<Rightarrow> Some (add_date (isoWeekStart year week) 0 0 7 * day_ns)
           | _ \<Rightarrow> None))
      else None)"

subsection \<open>Reaper\<close>

record Reaper =
  retain :: duration
  ttl :: duration

definition NewReaper :: "duration \<Rightarrow> duration \<Rightarrow> Reaper" where
  "NewReaper rt lifetime = \<lparr>retain = rt, ttl = (if lifetime \<le> 0 then 3600 * second else lifetime)\<rparr>"

definition windowFromZKey :: "string \<Rightarrow> string option" where
  "windowFromZKey key =
     (let opn = index_byte key CHR ''{''; cls = index_byte key CHR ''}'' in
      if opn < 0 \<or> cls < 0 \<or> cls < opn then None
      else (case split_on CHR '':'' (slice key (opn + 1) cls) of [a, b, c, d] \<Rightarrow> Some d | _ \<Rightarrow> None))"

text \<open>The decision for one key: its window is dated and ended more than the grace period ago.\<close>

definition aged_out :: "Reaper \<Rightarrow> gotime \<Rightarrow> string \<Rightarrow> bool" where
  "aged_out r now key = (case windowFromZKey key of None \<Rightarrow> False
     | Some win \<Rightarrow> (case ParseEnd win of None \<Rightarrow> False | Some end \<Rightarrow> end + retain r < now))"

definition expire_keys :: "string \<Rightarrow> string list" where
  "expire_keys key = (let base = trim_suffix key '':z'' in [key, base @ '':h'', base @ '':meta''])"

text \<open>The keys of one batch; the count so far is returned with an error, too.\<close>

fun sweep_batch :: "'s env \<Rightarrow> Reaper \<Rightarrow> gotime \<Rightarrow> string list \<Rightarrow> int \<Rightarrow> 's \<Rightarrow> (int \<times> err option) \<times> 's" where
  "sweep_batch R r now [] expired s = ((expired, None), s)"
| "sweep_batch R r now (key # keys) expired s =
     (if aged_out r now key then
        (case pipe_run (\<lambda>k. EXPIRE R k (ttl r)) (expire_keys key) s of (rs, s1) \<Rightarrow>
           (case first_err (map reply_err rs) of Some e \<Rightarrow> ((expired, Some e), s1)
            | None \<Rightarrow> sweep_batch R r now keys (expired + 1) s1))
      else sweep_batch R r now keys expired s)"

fun sweep_loop :: "nat \<Rightarrow> 's env \<Rightarrow> Reaper \<Rightarrow> gotime \<Rightarrow> nat \<Rightarrow> int \<Rightarrow> 's \<Rightarrow> (int \<times> err option) \<times> 's" where
  "sweep_loop 0 R r now cursor expired s = ((expired, Some OutOfFuel), s)"
| "sweep_loop (Suc fuel) R r now cursor expired s =
     (case SCAN R cursor ''lb:{*}:z'' 200 s of (rep, s1) \<Rightarrow>
        (case result_of rep of Inl e \<Rightarrow> ((expired, Some e), s1)
         | Inr (keys, nxt) \<Rightarrow>
             (case sweep_batch R r now keys expired s1 of
                ((n, Some e), s2) \<Rightarrow> ((n, Some e), s2)
              | ((n, None), s2) \<Rightarrow> if nxt = 0 then ((n, None), s2) else sweep_loop fuel R r now nxt n s2)))"

definition Sweep :: "nat \<Rightarrow> 's env \<Rightarrow> Reaper \<Rightarrow> gotime \<Rightarrow> 's \<Rightarrow> (int \<times> err option) \<times> 's" where
  "Sweep fuel R r now s = sweep_loop fuel R r now 0 0 s"

text \<open>
  \<open>Run\<close>: the ticker fires every \<open>run_period\<close>; a run is determined by what its \<open>select\<close>
  receives, a tick (with the clock's time at the sweep) or the cancelled context. \<open>None\<close> is a
  reaper still waiting.
\<close>

definition run_period :: "duration \<Rightarrow> duration" where
  "run_period interval = (if interval \<le> 0 then 3600 * second else interval)"

datatype run_event = Tick gotime | Done string

fun Run :: "nat \<Rightarrow> 's env \<Rightarrow> Reaper \<Rightarrow> run_event list \<Rightarrow> 's \<Rightarrow> err option \<times> 's" where
  "Run fuel R r [] s = (None, s)"
| "Run fuel R r (Done e # evs) s = (Some (CtxErr e), s)"
| "Run fuel R r (Tick now # evs) s =
     (case Sweep fuel R r now s of
        ((_, Some e), s1) \<Rightarrow> (Some e, s1)
      | ((_, None), s1) \<Rightarrow> Run fuel R r evs s1)"

subsection \<open>The end of a window\<close>

lemma add_days: "add_date d 0 0 k = d + k"
proof -
  obtain y m dd where d: "date_of d = (y, m, dd)" by (cases "date_of d")
  note r = date_of_ranges(1,2) [OF d]
  have "go_date y m (dd + k) = go_date y m dd + k" using r by (simp add: go_date_in_range)
  then show ?thesis using go_date_date_of [OF d] by (simp add: add_date_def d)
qed

lemma month_of_start: "1 \<le> m \<Longrightarrow> m \<le> 12 \<Longrightarrow> month_of leap (month_start leap m) = m \<and>
    0 \<le> month_start leap m \<and> month_start leap m < 365"
proof -
  assume "1 \<le> m" "m \<le> 12"
  then have "m = 1 \<or> m = 2 \<or> m = 3 \<or> m = 4 \<or> m = 5 \<or> m = 6 \<or> m = 7 \<or> m = 8 \<or> m = 9 \<or> m = 10 \<or> m = 11 \<or> m = 12"
    by presburger
  then show ?thesis by (cases leap; elim disjE; simp add: month_of_def month_start_def)
qed

lemma date_of_month_first:
  assumes "1 \<le> m" "m \<le> 12"
  shows "date_of (go_date y m 1) = (y, m, 1)"
proof -
  note ms = month_of_start [OF assms, of "is_leap y"]
  have g: "go_date y m 1 = days_before_year y + month_start (is_leap y) m" using assms by (simp add: go_date_in_range)
  have y: "year_of (days_before_year y + month_start (is_leap y) m) = y"
    by (rule year_of_unique) (use ms in \<open>auto simp: days_before_year_step\<close>)
  show ?thesis using ms by (simp add: date_of_def Let_def year_day_def g y)
qed

lemma add_month: "1 \<le> m \<Longrightarrow> m \<le> 12 \<Longrightarrow> add_date (go_date y m 1) 0 1 0 = go_date y (m + 1) 1"
  by (simp add: add_date_def date_of_month_first)

lemma isoWeekStart_iso_week:
  assumes "iso_week d = (y, w)"
  shows "isoWeekStart y w = d - weekday_mon0 d"
proof -
  define thu where "thu = d - weekday_mon0 d + 3"
  define b where "b = days_before_year y"
  define q where "q = (thu - b) div 7"
  define r where "r = (thu - b) mod 7"
  have yw: "y = year_of thu" "w = q + 1"
    using assms by (auto simp: iso_week_def Let_def thu_def [symmetric] year_day_def q_def b_def)
  have tb: "thu = b + 7 * q + r" "0 \<le> r" "r \<le> 6" by (simp_all add: q_def r_def)
  have t7: "thu mod 7 = 3" by (simp add: thu_def weekday_mon0_def) presburger
  have "go_date y 1 4 = b + 3" by (simp add: go_date_in_range b_def month_start_def)
  moreover have "b + 3 - (b + 3) mod 7 = b + r - 3"
    using tb t7 by presburger
  ultimately show ?thesis
    using tb(1) yw(2) by (simp add: isoWeekStart_def Let_def add_days weekday_mon0_def) (simp add: thu_def weekday_mon0_def)
qed

lemma month_of_unique:
  assumes "1 \<le> m" "m \<le> 12" "month_start leap m \<le> yd" "yd < month_start leap (m + 1)"
  shows "month_of leap yd = m"
proof -
  have "m = 1 \<or> m = 2 \<or> m = 3 \<or> m = 4 \<or> m = 5 \<or> m = 6 \<or> m = 7 \<or> m = 8 \<or> m = 9 \<or> m = 10 \<or> m = 11 \<or> m = 12"
    using assms by presburger
  then show ?thesis using assms(3,4) by (cases leap; elim disjE; simp add: month_of_def month_start_num)
qed

lemma month_end:
  assumes "1 \<le> m" "m \<le> 12"
  shows "go_date y (m + 1) 1 = days_before_year y + month_start (is_leap y) (m + 1)"
    "month_start leap (m + 1) \<le> month_start leap m + 31"
    "month_start leap (m + 1) \<le> (if leap then 366 else 365)"
proof -
  have c: "m = 1 \<or> m = 2 \<or> m = 3 \<or> m = 4 \<or> m = 5 \<or> m = 6 \<or> m = 7 \<or> m = 8 \<or> m = 9 \<or> m = 10 \<or> m = 11 \<or> m = 12"
    using assms by presburger
  show "go_date y (m + 1) 1 = days_before_year y + month_start (is_leap y) (m + 1)"
    using assms by (cases "m = 12") (simp_all add: go_date_def Let_def month_start_num days_before_year_step)
  show "month_start leap (m + 1) \<le> month_start leap m + 31" "month_start leap (m + 1) \<le> (if leap then 366 else 365)"
    using c by (cases leap; elim disjE; simp add: month_start_num)+
qed

lemma date_of_same_month:
  assumes "1 \<le> m" "m \<le> 12" "go_date y m 1 \<le> d" "d < go_date y (m + 1) 1"
  shows "\<exists>dd. date_of d = (y, m, dd)"
proof -
  have r: "days_before_year y + month_start (is_leap y) m \<le> d" "d < days_before_year y + month_start (is_leap y) (m + 1)"
    using assms month_end(1) [OF assms(1,2)] by (simp_all add: go_date_in_range)
  have y: "year_of d = y"
  proof (rule year_of_unique)
    show "days_before_year y \<le> d" using r(1) month_of_start [OF assms(1,2), of "is_leap y"] by linarith
    show "d < days_before_year (y + 1)" using r(2) month_end(3) [OF assms(1,2), of "is_leap y"] by (simp add: days_before_year_step)
  qed
  have "month_of (is_leap y) (year_day d) = m"
    by (rule month_of_unique [OF assms(1,2)]) (use r in \<open>simp_all add: year_day_def y\<close>)
  then show ?thesis by (simp add: date_of_def Let_def y)
qed

subsection \<open>The span of a window id\<close>

text \<open>
  For each cadence: the end \<open>e\<close> of the id is the number of days the cadence promises, and the
  id is the same on every day from the one it was computed for up to \<open>e\<close>.
\<close>

definition spans :: "string \<Rightarrow> int \<Rightarrow> int \<Rightarrow> bool" where
  "spans kind d e \<longleftrightarrow> d < e \<and> e \<le> d + 31 \<and>
     (\<forall>t t'. day_of t = d \<and> d \<le> day_of t' \<and> day_of t' < e \<longrightarrow>
        WindowID \<lparr>Kind = kind, CustomID = ''''\<rparr> t' = WindowID \<lparr>Kind = kind, CustomID = ''''\<rparr> t) \<and>
     (\<forall>t. day_of t = d \<longrightarrow> ParseEnd (WindowID \<lparr>Kind = kind, CustomID = ''''\<rparr> t) = Some (e * day_ns))"

lemma spansI:
  assumes "\<And>t. WindowID \<lparr>Kind = kind, CustomID = ''''\<rparr> t = f (day_of t)" "d < e" "e \<le> d + 31"
    "\<And>d'. d \<le> d' \<Longrightarrow> d' < e \<Longrightarrow> f d' = f d" "ParseEnd (f d) = Some (e * day_ns)"
  shows "spans kind d e"
  unfolding spans_def assms(1) using assms(2-5) by blast

lemma spansD:
  assumes "spans kind d e"
  shows "d < e" "e \<le> d + 31"
    "day_of t = d \<Longrightarrow> ParseEnd (WindowID \<lparr>Kind = kind, CustomID = ''''\<rparr> t) = Some (e * day_ns)"
  using assms by (auto simp only: spans_def)

lemma spans_same: "spans kind (day_of t) e \<Longrightarrow> day_of t \<le> day_of t' \<and> day_of t' < e \<Longrightarrow>
    WindowID \<lparr>Kind = kind, CustomID = ''''\<rparr> t' = WindowID \<lparr>Kind = kind, CustomID = ''''\<rparr> t"
  unfolding spans_def by blast

lemma year_nonneg: "0 \<le> d \<Longrightarrow> 1 \<le> year_of d"
proof (rule ccontr)
  assume "0 \<le> d" "\<not> 1 \<le> year_of d"
  then have "days_before_year (year_of d + 1) \<le> days_before_year 1" by (intro days_before_year_mono) simp
  then show False using year_of_bounds(2) [of d] \<open>0 \<le> d\<close> by (simp add: days_before_year_def)
qed

lemma daily_spans:
  assumes "0 \<le> d" "year_of d \<le> 9999"
  shows "spans ''daily'' d (d + 1)"
proof -
  obtain y m dd where d: "date_of d = (y, m, dd)" by (cases "date_of d")
  have "parse_ymd (format_ymd d) = Some d"
    using parse_ymd_format [OF d] date_of_ranges(5) [OF d] assms year_nonneg [of d] by simp
  then have "ParseEnd (''d='' @ format_ymd d) = Some ((d + 1) * day_ns)"
    by (simp add: ParseEnd_def has_prefix_def add_days)
  then show ?thesis by (intro spansI [where f = "\<lambda>d. ''d='' @ format_ymd d"]) (simp_all add: WindowID_def)
qed

lemma monthly_spans:
  assumes "0 \<le> d" "year_of d \<le> 9999" and d: "date_of d = (y, m, dd)"
  shows "spans ''monthly'' d (go_date y (m + 1) 1)"
proof -
  note r = date_of_ranges [OF d] and b = go_date_month_first [OF d] go_date_next_month [OF d]
  have p: "parse_ym (format_ym d) = Some (go_date y m 1)"
    using parse_ym_format [OF d] r(5) assms year_nonneg [of d] by simp
  have len: "go_date y (m + 1) 1 \<le> d + 31"
    using month_end(1) [OF r(1,2)] month_end(2) [OF r(1,2), of "is_leap y"] b(1) r(1,2) by (simp add: go_date_in_range)
  have same: "''m='' @ format_ym d' = ''m='' @ format_ym d" if "d \<le> d'" "d' < go_date y (m + 1) 1" for d'
    using date_of_same_month [OF r(1,2), of y d'] that b(1) d by (auto simp: format_ym_def)
  have "ParseEnd (''m='' @ format_ym d) = Some (go_date y (m + 1) 1 * day_ns)"
    using p r by (simp add: ParseEnd_def has_prefix_def add_month)
  then show ?thesis
    by (rule spansI [where f = "\<lambda>d. ''m='' @ format_ym d", rotated, OF b(2) len same, rotated 2]) (simp add: WindowID_def)
qed

lemma iso_week_congI: "d - weekday_mon0 d = d' - weekday_mon0 d' \<Longrightarrow> iso_week d = iso_week d'"
  by (simp add: iso_week_def Let_def)

lemma cut_W_digits: "list_all is_digit ds \<Longrightarrow> cut_W (ds @ ''-W'' @ rest) = Some (ds, rest)"
proof (induction ds)
  case (Cons c ds)
  then show ?case using is_digit_not_sign [of c] by auto
qed simp

lemma fmt0d_digits: "0 \<le> n \<Longrightarrow> list_all is_digit (fmt0d w n)"
  by (simp add: fmt0d_def pad0_digits)

lemma weekly_spans:
  assumes "0 \<le> d" "year_of d \<le> 9999"
  shows "spans ''weekly'' d (d - weekday_mon0 d + 7)"
proof -
  obtain y w where w: "iso_week d = (y, w)" by (cases "iso_week d")
  have r: "0 \<le> weekday_mon0 d" "weekday_mon0 d \<le> 6" by (simp_all add: weekday_mon0_def)
  define thu where "thu = d - weekday_mon0 d + 3"
  have "0 \<le> d - weekday_mon0 d" using assms(1) by (simp add: weekday_mon0_def) (simp add: zmod_le_nonneg_dividend)
  then have y1: "1 \<le> y" using year_nonneg [of thu] w by (simp add: iso_week_def Let_def thu_def)
  have "thu < days_before_year (year_of d + 2)"
    using year_of_bounds(2) [of d] days_before_year_step [of "year_of d + 1"] r by (simp add: thu_def add.assoc split: if_splits)
  then have "\<not> year_of d + 2 \<le> y"
    using days_before_year_mono [of "year_of d + 2" y] year_of_bounds(1) [of thu] w by (auto simp: iso_week_def Let_def thu_def)
  then have y2: "y < 2 ^ 63" using assms(2) by simp
  note wr = iso_week_range [OF w]
  have "ParseEnd (''w='' @ fmt0d 4 y @ ''-W'' @ fmt0d 2 w) = Some ((d - weekday_mon0 d + 7) * day_ns)"
    using cut_W_digits [OF fmt0d_digits, of y 4 "fmt0d 2 w"] atoi_fmt0d [of y 4] atoi_fmt0d [of w 2] y1 y2 wr
      isoWeekStart_iso_week [OF w]
    by (simp add: ParseEnd_def has_prefix_def add_days)
  moreover have "iso_week d' = iso_week d" if "d \<le> d'" "d' < d - weekday_mon0 d + 7" for d'
  proof (rule iso_week_congI)
    show "d' - weekday_mon0 d' = d - weekday_mon0 d" using that unfolding weekday_mon0_def by presburger
  qed
  ultimately show ?thesis using r w
    by (intro spansI [where f = "\<lambda>d. case iso_week d of (y, wk) \<Rightarrow> ''w='' @ fmt0d 4 y @ ''-W'' @ fmt0d 2 wk"])
      (simp_all add: WindowID_def)
qed

lemma kind_spans:
  assumes "kind \<in> {''daily'', ''weekly'', ''monthly''}" "0 \<le> d" "year_of d \<le> 9999"
  shows "\<exists>e. spans kind d e"
proof -
  obtain y m dd where "date_of d = (y, m, dd)" by (cases "date_of d")
  then show ?thesis
    using assms(1) daily_spans [OF assms(2,3)] weekly_spans [OF assms(2,3)] monthly_spans [OF assms(2,3)] by blast
qed

lemma year_of_soon: "d \<le> e \<Longrightarrow> e \<le> d + 31 \<Longrightarrow> year_of e \<le> year_of d + 1"
proof (rule ccontr)
  assume e: "e \<le> d + 31" and "\<not> year_of e \<le> year_of d + 1"
  then have "days_before_year (year_of d + 1 + 1) \<le> days_before_year (year_of e)" by (intro days_before_year_mono) simp
  then show False
    using year_of_bounds(2) [of d] year_of_bounds(1) [of e] days_before_year_step [of "year_of d + 1"] e by (simp split: if_splits)
qed

lemma day_of_mono: "t \<le> t' \<Longrightarrow> day_of t \<le> day_of t'"
  by (simp add: day_of_def day_ns_def second_def zdiv_mono1)

lemma day_of_within: "t \<le> t' \<Longrightarrow> t' < e * day_ns \<Longrightarrow> day_of t \<le> day_of t' \<and> day_of t' < e"
proof
  assume "t \<le> t'" "t' < e * day_ns"
  then have "day_of t' * day_ns < e * day_ns" using day_of_bounds(1) [of t'] by linarith
  then show "day_of t' < e" by (simp add: day_ns_def second_def)
qed (rule day_of_mono)

lemma span_instants: "day_of t < e \<Longrightarrow> e \<le> day_of t + 31 \<Longrightarrow> t < e * day_ns \<and> e * day_ns \<le> t + 31 * day_ns"
  using day_of_bounds [of t] by (simp add: day_ns_def second_def)

lemma day_of_nonneg: "0 \<le> t \<Longrightarrow> 0 \<le> day_of t"
  by (simp add: day_of_def day_ns_def second_def pos_imp_zdiv_nonneg_iff)

lemma WindowID_kind: "Kind w \<noteq> ''custom'' \<Longrightarrow> WindowID w t = WindowID \<lparr>Kind = Kind w, CustomID = ''''\<rparr> t"
  by (simp add: WindowID_def Let_def)

text \<open>The end of a dated window lies within 31 days of every instant in it.\<close>

lemma dated_end:
  assumes "Kind w \<in> {''daily'', ''weekly'', ''monthly''}" "0 \<le> t" "year_of (day_of t) \<le> 9999"
  shows "\<exists>e. ParseEnd (WindowID w t) = Some e \<and> t < e \<and> e \<le> t + 31 * day_ns"
proof -
  obtain e where e: "spans (Kind w) (day_of t) e" using kind_spans [OF assms(1) day_of_nonneg [OF assms(2)] assms(3)] by blast
  have "WindowID w t = WindowID \<lparr>Kind = Kind w, CustomID = ''''\<rparr> t" using assms(1) by (intro WindowID_kind) auto
  then show ?thesis using spansD(3) [OF e refl] span_instants [OF spansD(1,2) [OF e]] by simp
qed

lemma undated_never: "Kind w \<in> {'''', ''all''} \<Longrightarrow> WindowID w t = ''all'' \<and> ParseEnd ''all'' = None"
  by (auto simp: WindowID_def ParseEnd_def has_prefix_def)

subsection \<open>Boards of the engine\<close>

lemma windowFromZKey_zKey: "key_validate k = Inr () \<Longrightarrow> windowFromZKey (zKey k) = Some (effWindow k)"
proof -
  assume k: "key_validate k = Inr ()"
  have "index_byte (zKey k) CHR ''{'' = 3"
    using index_byte_append [of "CHR ''{''" "''lb:''" "hashTag k @ ''}:z''"] by (simp add: zKey_def)
  moreover have "index_byte (zKey k) CHR ''}'' = 4 + int (length (hashTag k))"
    using index_byte_append [of "CHR ''}''" "''lb:{'' @ hashTag k" "'':z''"] clean_hashTag [OF k] by (simp add: zKey_def)
  moreover have "slice (zKey k) 4 (4 + int (length (hashTag k))) = hashTag k"
    by (simp add: slice_def zKey_def)
  ultimately show ?thesis by (simp add: windowFromZKey_def split_hashTag [OF k])
qed

lemma expire_keys_zKey: "expire_keys (zKey k) = [zKey k, hKey k, metaKey k]"
proof -
  have "zKey k = (''lb:{'' @ hashTag k @ ''}'') @ '':z''" by (simp add: zKey_def)
  then have "trim_suffix (zKey k) '':z'' = ''lb:{'' @ hashTag k @ ''}''" by (metis trim_suffix_append)
  then show ?thesis by (simp add: expire_keys_def hKey_def metaKey_def)
qed

lemma aged_out_zKey: "key_validate k = Inr () \<Longrightarrow>
    aged_out r now (zKey k) \<longleftrightarrow> (\<exists>e. ParseEnd (effWindow k) = Some e \<and> e + retain r < now)"
  by (auto simp: aged_out_def windowFromZKey_zKey split: option.splits)

subsection \<open>Time to live\<close>

text \<open>
  What the reaper relies on beyond the keyspace: \<open>EXPIRE\<close> sets the time to live of a key that
  exists and of no other, and the state of a scan is in its cursor only, so that a \<open>SCAN\<close>
  answers alike as long as the keyspace does not change.
\<close>

locale redis_expiry = redis_docs R ks for R :: "'s env" and ks :: "'s \<Rightarrow> keyspace" +
  fixes ttls :: "'s \<Rightarrow> string \<rightharpoonup> duration"
  assumes EXPIRE_ttl: "ttls (snd (EXPIRE R k d s)) = (if ks s k = None then ttls s else (ttls s)(k \<mapsto> d))"
    and SCAN_stateless: "ks s' = ks s \<Longrightarrow> SCAN R c pat cnt s' = (fst (SCAN R c pat cnt s), s')"

definition ttl_set :: "keyspace \<Rightarrow> duration \<Rightarrow> string set \<Rightarrow> (string \<rightharpoonup> duration) \<Rightarrow> string \<rightharpoonup> duration" where
  "ttl_set K d A T = (\<lambda>k. if k \<in> A \<and> K k \<noteq> None then Some d else T k)"

lemma ttl_set_union: "ttl_set K d A (ttl_set K d B T) = ttl_set K d (A \<union> B) T"
  by (auto simp: ttl_set_def fun_eq_iff)

context redis_expiry
begin

lemma expire_pipe:
  "\<exists>rs s'. pipe_run (\<lambda>k. EXPIRE R k d) keys s = (rs, s') \<and> first_err (map reply_err rs) = None \<and>
     ks s' = ks s \<and> ttls s' = ttl_set (ks s) d (set keys) (ttls s)"
proof (induction keys arbitrary: s)
  case (Cons k keys)
  obtain b s1 where e: "EXPIRE R k d s = (Reply b, s1)" using EXPIRE(1) [of k d s] by (metis prod.collapse)
  have k1: "ks s1 = ks s" using EXPIRE(2) [of k d s] e by simp
  have t1: "ttls s1 = ttl_set (ks s) d {k} (ttls s)"
    using EXPIRE_ttl [of k d s] e by (auto simp: ttl_set_def fun_eq_iff)
  obtain rs s' where "pipe_run (\<lambda>k. EXPIRE R k d) keys s1 = (rs, s')" "first_err (map reply_err rs) = None"
    "ks s' = ks s1" "ttls s' = ttl_set (ks s1) d (set keys) (ttls s1)" using Cons.IH [of s1] by blast
  then show ?case using e k1 t1 by (simp add: ttl_set_union insert_def [symmetric])
qed (simp add: ttl_set_def)

abbreviation aged_keys :: "Reaper \<Rightarrow> gotime \<Rightarrow> string list \<Rightarrow> string list" where
  "aged_keys r now keys \<equiv> concat (map expire_keys (filter (aged_out r now) keys))"

lemma sweep_batch_spec:
  "\<exists>s'. sweep_batch R r now keys n s = ((n + int (length (filter (aged_out r now) keys)), None), s') \<and>
     ks s' = ks s \<and> ttls s' = ttl_set (ks s) (ttl r) (set (aged_keys r now keys)) (ttls s)"
proof (induction keys arbitrary: n s)
  case Nil
  show ?case by (simp add: ttl_set_def)
next
  case (Cons key keys)
  show ?case
  proof (cases "aged_out r now key")
    case True
    obtain rs s1 where p: "pipe_run (\<lambda>k. EXPIRE R k (ttl r)) (expire_keys key) s = (rs, s1)"
      "first_err (map reply_err rs) = None" "ks s1 = ks s" "ttls s1 = ttl_set (ks s) (ttl r) (set (expire_keys key)) (ttls s)"
      using expire_pipe by blast
    obtain s' where "sweep_batch R r now keys (n + 1) s1 = ((n + 1 + int (length (filter (aged_out r now) keys)), None), s')"
      "ks s' = ks s1" "ttls s' = ttl_set (ks s1) (ttl r) (set (aged_keys r now keys)) (ttls s1)"
      using Cons.IH by blast
    with p True show ?thesis by (simp add: ttl_set_union Un_commute)
  next
    case False
    then show ?thesis using Cons.IH [of n s] by simp
  qed
qed

lemma sweep_loop_chain:
  assumes "scan_chain (\<lambda>c. SCAN R c ''lb:{*}:z'' 200 s0) s0 c bs" "length bs \<le> fuel" "ks s = ks s0"
  shows "\<exists>s'. sweep_loop fuel R r now c n s =
      ((n + int (length (filter (aged_out r now) (concat (map fst bs)))), None), s') \<and> ks s' = ks s0 \<and>
      ttls s' = ttl_set (ks s0) (ttl r) (set (aged_keys r now (concat (map fst bs)))) (ttls s)"
  using assms
proof (induction bs arbitrary: c n s fuel)
  case (Cons x bs)
  obtain b m where x: "x = (b, m)" by (cases x)
  obtain f where f: "fuel = Suc f" "length bs \<le> f" using Cons.prems(2) by (cases fuel) auto
  have sc: "SCAN R c ''lb:{*}:z'' 200 s = (Reply (b, m), s)"
    using Cons.prems(1) x SCAN_stateless [OF Cons.prems(3)] by simp
  obtain s1 where b1: "sweep_batch R r now b n s = ((n + int (length (filter (aged_out r now) b)), None), s1)"
    "ks s1 = ks s" "ttls s1 = ttl_set (ks s) (ttl r) (set (aged_keys r now b)) (ttls s)"
    using sweep_batch_spec by blast
  show ?case
  proof (cases "bs = []")
    case True
    with Cons.prems x have "m = 0" by simp
    then show ?thesis using True sc f x b1 Cons.prems(3) by simp
  next
    case False
    with Cons.prems(1) x have m: "m \<noteq> 0" "scan_chain (\<lambda>c. SCAN R c ''lb:{*}:z'' 200 s0) s0 m bs" by auto
    have "ks s1 = ks s0" using b1 Cons.prems(3) by simp
    from Cons.IH [OF m(2) f(2) this, of "n + int (length (filter (aged_out r now) b))"] obtain s' where
      "sweep_loop f R r now m (n + int (length (filter (aged_out r now) b))) s1 =
        ((n + int (length (filter (aged_out r now) b)) + int (length (filter (aged_out r now) (concat (map fst bs)))), None), s')"
      "ks s' = ks s0" "ttls s' = ttl_set (ks s0) (ttl r) (set (aged_keys r now (concat (map fst bs)))) (ttls s1)" by blast
    then show ?thesis using m(1) sc f x b1 Cons.prems(3) by (simp add: ttl_set_union Un_commute)
  qed
qed simp

lemma simple_z_pattern: "simple_pat ''lb:{*}:z''"
  by simp

lemma Sweep_spec:
  fixes r :: Reaper and s :: 's and now :: gotime
  defines "aged \<equiv> {key. ks s key \<noteq> None \<and> glob ''lb:{*}:z'' key \<and> aged_out r now key}"
  shows "\<exists>F n. int (card aged) \<le> n \<and> (\<forall>fuel \<ge> F. \<exists>s'. Sweep fuel R r now s = ((n, None), s') \<and> ks s' = ks s \<and>
     ttls s' = ttl_set (ks s) (ttl r) (\<Union>key \<in> aged. set (expire_keys key)) (ttls s))"
proof -
  obtain bs where bs: "scan_chain (\<lambda>c. SCAN R c ''lb:{*}:z'' 200 s) s 0 bs"
    "set (concat (map fst bs)) = {k. ks s k \<noteq> None \<and> glob ''lb:{*}:z'' k}"
    using SCAN [OF simple_z_pattern] by blast
  define hits where "hits = filter (aged_out r now) (concat (map fst bs))"
  have hits: "set hits = aged" unfolding hits_def set_filter bs(2) aged_def by blast
  show ?thesis
  proof (intro exI [of _ "length bs"] exI [of _ "int (length hits)"] conjI allI impI)
    show "int (card aged) \<le> int (length hits)" unfolding hits [symmetric] using card_length by (simp add: card_length)
    fix fuel assume "length bs \<le> fuel"
    from sweep_loop_chain [OF bs(1) this refl, of r now 0]
    show "\<exists>s'. Sweep fuel R r now s = ((int (length hits), None), s') \<and> ks s' = ks s \<and>
        ttls s' = ttl_set (ks s) (ttl r) (\<Union>key \<in> aged. set (expire_keys key)) (ttls s)"
      unfolding Sweep_def hits_def [symmetric] set_concat set_map hits image_image by simp
  qed
qed

end

subsection \<open>The executable server with times to live\<close>

definition lift_cmd :: "('s \<Rightarrow> 'a \<times> 's) \<Rightarrow> 's \<times> 't \<Rightarrow> 'a \<times> 's \<times> 't" where
  "lift_cmd c = (\<lambda>(s, t). case c s of (r, s') \<Rightarrow> (r, s', t))"

definition ttl_redis :: "(mem \<times> (string \<rightharpoonup> duration)) env" where
  "ttl_redis = \<lparr>
     ZADD = (\<lambda>k mode v m. lift_cmd (ZADD mem_redis k mode v m)),
     ZINCRBY = (\<lambda>k d m. lift_cmd (ZINCRBY mem_redis k d m)),
     ZSCORE = (\<lambda>k m. lift_cmd (ZSCORE mem_redis k m)),
     ZRANK = (\<lambda>k m. lift_cmd (ZRANK mem_redis k m)),
     ZREVRANK = (\<lambda>k m. lift_cmd (ZREVRANK mem_redis k m)),
     ZRANGE = (\<lambda>k a b. lift_cmd (ZRANGE mem_redis k a b)),
     ZREVRANGE = (\<lambda>k a b. lift_cmd (ZREVRANGE mem_redis k a b)),
     ZRANGEBYSCORE = (\<lambda>k lo hi off c. lift_cmd (ZRANGEBYSCORE mem_redis k lo hi off c)),
     ZREVRANGEBYSCORE = (\<lambda>k lo hi off c. lift_cmd (ZREVRANGEBYSCORE mem_redis k lo hi off c)),
     ZCARD = (\<lambda>k. lift_cmd (ZCARD mem_redis k)),
     ZREM = (\<lambda>k m. lift_cmd (ZREM mem_redis k m)),
     HINCRBY = (\<lambda>k f d. lift_cmd (HINCRBY mem_redis k f d)),
     HGETALL = (\<lambda>k. lift_cmd (HGETALL mem_redis k)),
     DEL = (\<lambda>keys. lift_cmd (DEL mem_redis keys)),
     SCAN = (\<lambda>c pat n (s, t). (Reply (filter (glob pat) (sort (remdups (map fst s))), 0), s, t)),
     EXPIRE = (\<lambda>k d (s, t). (Reply (map_of s k \<noteq> None), s, if map_of s k = None then t else t(k \<mapsto> d))),
     cvt_oor = cvt_oor mem_redis\<rparr>"

lemma lift_cmd_simps [simp]:
  "fst (lift_cmd c x) = fst (c (fst x))" "fst (snd (lift_cmd c x)) = snd (c (fst x))"
  by (simp_all add: lift_cmd_def split: prod.splits)

lemma lift_cmd_eq: "c (fst x) = (r, fst x) \<Longrightarrow> lift_cmd c x = (r, x)"
  by (cases x) (simp add: lift_cmd_def)

lemma mem_ks_map_of: "mem_ks s k = None \<longleftrightarrow> map_of s k = None"
  using mem_ks_dom [of s k] unfolding map_of_eq_None_iff by blast

interpretation ttl_docs: redis_expiry ttl_redis "\<lambda>x. mem_ks (fst x)" snd
proof (unfold_locales, goal_cases)
  case (18 x k h)
  then show ?case using mem_docs.HGETALL [of "fst x" k h] by (auto simp: ttl_redis_def lift_cmd_eq)
next
  case (19 keys x)
  then show ?case using mem_docs.DEL(1) [of keys "fst x"] by (simp add: ttl_redis_def)
next
  case (21 pat cnt x)
  define ms where "ms = filter (glob pat) (sort (remdups (map fst (fst x))))"
  have "scan_chain (\<lambda>c. SCAN ttl_redis c pat cnt x) x 0 [(ms, 0)]"
    by (simp add: ttl_redis_def ms_def split: prod.splits)
  moreover have "set ms = {k. mem_ks (fst x) k \<noteq> None \<and> glob pat k}"
    unfolding mem_ks_dom by (auto simp: ms_def)
  ultimately show ?case by (intro exI [of _ "[(ms, 0)]"]) simp
next
  case (25 x' x c pat cnt)
  then have "set (map fst (fst x')) = set (map fst (fst x))"
    using mem_ks_dom [of "fst x"] mem_ks_dom [of "fst x'"] by (simp add: set_eq_iff)
  then have "sort (remdups (map fst (fst x'))) = sort (remdups (map fst (fst x)))"
    by (metis sorted_list_of_set_sort_remdups)
  then show ?case by (cases x; cases x') (simp add: ttl_redis_def)
qed (auto simp: ttl_redis_def lift_cmd_eq mem_docs.zset_wf mem_docs.ZADD mem_docs.ZINCRBY mem_docs.ZSCORE mem_docs.ZRANK
    mem_docs.ZREVRANK mem_docs.ZRANGE mem_docs.ZREVRANGE mem_docs.ZRANGEBYSCORE mem_docs.ZREVRANGEBYSCORE mem_docs.ZCARD
    mem_docs.ZREM mem_docs.HINCRBY mem_docs.DEL mem_ks_map_of split: prod.splits)

subsection \<open>Properties\<close>

text \<open>
  (C32) The end that \<open>ParseEnd\<close> reads back from the id of a daily, weekly or monthly window is the
  first instant after that window: it lies after every instant that has the id, at most 31 days
  away, every instant between the two has the same id, and the instant of the end has another.
\<close>

theorem window_end_exact:
  assumes "kind \<in> {''daily'', ''weekly'', ''monthly''}" "0 \<le> t" "year_of (day_of t) \<le> 9998"
  shows "\<exists>e. ParseEnd (WindowID \<lparr>Kind = kind, CustomID = ''''\<rparr> t) = Some e \<and> t < e \<and> e \<le> t + 31 * day_ns \<and>
    (\<forall>t'. t \<le> t' \<and> t' < e \<longrightarrow> WindowID \<lparr>Kind = kind, CustomID = ''''\<rparr> t' = WindowID \<lparr>Kind = kind, CustomID = ''''\<rparr> t) \<and>
    WindowID \<lparr>Kind = kind, CustomID = ''''\<rparr> e \<noteq> WindowID \<lparr>Kind = kind, CustomID = ''''\<rparr> t"
proof -
  define wid where "wid = WindowID \<lparr>Kind = kind, CustomID = ''''\<rparr>"
  note d0 = day_of_nonneg [OF assms(2)]
  obtain e where e: "spans kind (day_of t) e" using kind_spans [OF assms(1) d0] assms(3) by auto
  note es = spansD(1,2) [OF e]
  then have "year_of e \<le> 9999" using year_of_soon [of "day_of t" e] assms(3) by simp
  then obtain e' where e': "spans kind e e'" using kind_spans [OF assms(1), of e] d0 es by auto
  have de: "day_of (e * day_ns) = e" by (simp add: day_of_def day_ns_def second_def)
  have ends: "ParseEnd (wid (e * day_ns)) = Some (e' * day_ns)" "ParseEnd (wid t) = Some (e * day_ns)"
    using spansD(3) [OF e] spansD(3) [OF e' de] by (simp_all add: wid_def)
  moreover have "e' * day_ns \<noteq> e * day_ns" using spansD(1) [OF e'] by (simp add: day_ns_def second_def)
  ultimately have "wid (e * day_ns) \<noteq> wid t" by auto
  moreover have "wid t' = wid t" if "t \<le> t'" "t' < e * day_ns" for t'
    unfolding wid_def by (rule spans_same [OF e day_of_within [OF that]])
  moreover note span_instants [OF es]
  ultimately show ?thesis using ends(2) unfolding wid_def by blast
qed

theorem window_end_exact_witness:
  "\<exists>e. ParseEnd (WindowID \<lparr>Kind = ''weekly'', CustomID = ''''\<rparr> t2024) = Some e \<and> t2024 < e"
proof -
  have "0 \<le> t2024" "year_of (day_of t2024) \<le> 9998" by code_simp+
  then show ?thesis using window_end_exact [of "''weekly''" t2024] by blast
qed


definition reaper_mem :: mem where
  "reaper_mem = [(zKey (demo_key ''d=2020-01-01''), CZset [(1, ''m'')]), (zKey (demo_key ''d=2999-01-01''), CZset [(1, ''m'')]),
     (zKey (demo_key ''all''), CZset [(1, ''m'')])]"




end
