(* ===== verification/Go_Json.thy ===== *)
theory Go_Json
  imports Go_Time
begin

text \<open>
  What the program uses of \<open>encoding/json\<close> and \<open>unicode/utf8\<close>. A JSON text is represented by what
  it denotes: \<open>JSON x\<close> is a text that \<open>json.Unmarshal\<close> decodes to \<open>x\<close>, \<open>NotJSON\<close> a text it
  rejects. Encoding a value keeps numbers and instants and replaces every byte of a string that is
  not part of a valid UTF-8 sequence by the replacement character; it fails on an instant outside
  the years 0 to 9999.
\<close>

datatype 'a json = JSON 'a | NotJSON

text \<open>The width of the rune at the head of a string, 0 where \<open>utf8.DecodeRuneInString\<close> reports an error.\<close>

definition byte_in :: "nat \<Rightarrow> nat \<Rightarrow> string \<Rightarrow> nat \<Rightarrow> bool" where
  "byte_in lo hi s i \<longleftrightarrow> i < length s \<and> lo \<le> of_char (s ! i) \<and> of_char (s ! i) \<le> hi"

definition rune_width :: "string \<Rightarrow> nat" where
  "rune_width s =
     (if byte_in 0 0x7F s 0 then 1
      else if byte_in 0xC2 0xDF s 0 \<and> byte_in 0x80 0xBF s 1 then 2
      else if (byte_in 0xE0 0xE0 s 0 \<and> byte_in 0xA0 0xBF s 1 \<or> byte_in 0xE1 0xEC s 0 \<and> byte_in 0x80 0xBF s 1 \<or>
               byte_in 0xED 0xED s 0 \<and> byte_in 0x80 0x9F s 1 \<or> byte_in 0xEE 0xEF s 0 \<and> byte_in 0x80 0xBF s 1) \<and>
              byte_in 0x80 0xBF s 2 then 3
      else if (byte_in 0xF0 0xF0 s 0 \<and> byte_in 0x90 0xBF s 1 \<or> byte_in 0xF1 0xF3 s 0 \<and> byte_in 0x80 0xBF s 1 \<or>
               byte_in 0xF4 0xF4 s 0 \<and> byte_in 0x80 0x8F s 1) \<and>
              byte_in 0x80 0xBF s 2 \<and> byte_in 0x80 0xBF s 3 then 4
      else 0)"

definition rune_error :: string where
  "rune_error = [CHR 0xEF, CHR 0xBF, CHR 0xBD]"

function to_utf8 :: "string \<Rightarrow> string" where
  "to_utf8 [] = []"
| "to_utf8 (c # cs) = (let n = rune_width (c # cs) in
     if n = 0 then rune_error @ to_utf8 cs else take n (c # cs) @ to_utf8 (drop (n - 1) cs))"
  by pat_completeness auto
termination
  by (relation "measure length") auto

text \<open>The strings that survive an encoding.\<close>

definition utf8 :: "string \<Rightarrow> bool" where
  "utf8 s \<longleftrightarrow> to_utf8 s = s"

lemma utf8_ascii: "list_all (\<lambda>c. of_char c < (0x80 :: nat)) s \<Longrightarrow> utf8 s"
  unfolding utf8_def by (induction s rule: to_utf8.induct) (auto simp: rune_width_def byte_in_def)

text \<open>The years an instant may have for \<open>time.Time.MarshalJSON\<close> to accept it.\<close>

definition json_year :: "gotime \<Rightarrow> bool" where
  "json_year t \<longleftrightarrow> 0 \<le> year_of (day_of t) \<and> year_of (day_of t) \<le> 9999"

end
