(* ===== verification/Ingest_Log.thy ===== *)
theory Ingest_Log
  imports Board Go_Json
begin

text \<open>
  The event log of the write path, \<open>pkg/ingest\<close>: records (\<open>log.go\<close>), the routing of a record to
  a partition, the ownership of partitions by workers, the interface \<open>Log\<close>, and the in-memory log
  (\<open>memlog.go\<close>). The interface is a record of the operations over the state \<open>'w\<close> they run in;
  what a client may rely on is the locale \<open>event_log\<close>, interpreted here on the in-memory log and
  in \<open>Redis_Log\<close> on the log of Redis streams.
\<close>

subsection \<open>Records\<close>

definition OpSubmit :: string where "OpSubmit = ''''"
definition OpRemove :: string where "OpRemove = ''remove''"

record Record =
  ID :: string
  RApp :: string
  RBoard :: string
  RMember :: string
  RScore :: rat
  RTime :: gotime
  RSegments :: "string list"
  Idem :: string
  Op :: string

text \<open>A log may store a record as JSON, which keeps strings of UTF-8.\<close>

definition utf8_rec :: "Record \<Rightarrow> bool" where
  "utf8_rec rec \<longleftrightarrow> list_all utf8 (RApp rec # RBoard rec # RMember rec # Idem rec # Op rec # RSegments rec)"

subsection \<open>Partitions\<close>

text \<open>The FNV-1a hash of the three strings, a zero byte between them; \<open>uint32(partitions)\<close> wraps.\<close>

definition partitionOf :: "string \<Rightarrow> string \<Rightarrow> string \<Rightarrow> int \<Rightarrow> int" where
  "partitionOf app board member partitions =
     (if partitions \<le> 1 then 0
      else uint (fnv32a (app @ CHR 0x00 # board @ CHR 0x00 # member) mod word_of_int partitions))"

definition OwnedPartitions :: "int \<Rightarrow> int \<Rightarrow> int \<Rightarrow> int list" where
  "OwnedPartitions partitions workerIndex workerCount =
     (if workerCount \<le> 1 then [0..partitions - 1]
      else filter (\<lambda>p. p mod workerCount = workerIndex) [0..partitions - 1])"

text \<open>The partition of a record in a log of \<open>n\<close> partitions.\<close>

definition route :: "int \<Rightarrow> Record \<Rightarrow> int" where
  "route n rec = partitionOf (RApp rec) (RBoard rec) (RMember rec) n"

lemma partitionOf_range:
  assumes "1 \<le> n" "n < 2 ^ 32"
  shows "0 \<le> partitionOf app board member n \<and> partitionOf app board member n < n"
proof (cases "n \<le> 1")
  case False
  then have u: "uint (word_of_int n :: 32 word) = n" using assms by (simp add: uint_word_of_int take_bit_int_eq_self)
  then show ?thesis using False by (simp add: partitionOf_def uint_mod)
qed (use assms in \<open>simp add: partitionOf_def\<close>)

subsection \<open>The interface\<close>

text \<open>\<open>Append\<close> returns the record with the id the log assigned (Go sets it through the pointer).\<close>

record 'w Log =
  Append :: "Record \<Rightarrow> ('w, Record) io"
  Partitions :: int
  ReadPartition :: "int \<Rightarrow> string \<Rightarrow> int \<Rightarrow> ('w, Record list) io"

text \<open>The cursor of a reader that has seen the first \<open>i\<close> records of a partition.\<close>

definition cursor_at :: "Record list \<Rightarrow> nat \<Rightarrow> string" where
  "cursor_at rs i = (if i = 0 then '''' else ID (rs ! (i - 1)))"

text \<open>
  The contract: a log is a list of records for each partition (\<open>recs\<close>). An accepted record is
  appended to the partition of its board and member under an id; a rejected one leaves the log as
  it was; a reader that passes the id of the last record it saw gets the records after it in order.
\<close>

locale event_log =
  fixes lg :: "'w Log" and recs :: "'w \<Rightarrow> int \<Rightarrow> Record list" and lok :: "'w \<Rightarrow> bool"
  assumes partitions: "1 \<le> Partitions lg"
    and routed: "lok w \<Longrightarrow> rec \<in> set (recs w p) \<Longrightarrow> route (Partitions lg) rec = p"
    and in_range: "lok w \<Longrightarrow> \<not> (0 \<le> p \<and> p < Partitions lg) \<Longrightarrow> recs w p = []"
    and append_ok: "lok w \<Longrightarrow> utf8_rec rec \<Longrightarrow> Append lg rec w = (Inr rec', w') \<Longrightarrow> lok w' \<and> (\<exists>i. rec' = rec\<lparr>ID := i\<rparr>) \<and>
        recs w' = (recs w)(route (Partitions lg) rec := recs w (route (Partitions lg) rec) @ [rec'])"
    and append_err: "lok w \<Longrightarrow> Append lg rec w = (Inl e, w') \<Longrightarrow> lok w' \<and> recs w' = recs w"
    and read: "lok w \<Longrightarrow> 0 \<le> p \<Longrightarrow> p < Partitions lg \<Longrightarrow> i \<le> length (recs w p) \<Longrightarrow> 0 < k \<Longrightarrow> k \<le> 65536 \<Longrightarrow>
        int (length (recs w p)) < 2 ^ 62 \<Longrightarrow> ReadPartition lg p (cursor_at (recs w p) i) k w = (Inr (take (nat k) (drop i (recs w p))), w)"

subsection \<open>The in-memory log\<close>

type_synonym MemLog = "Record list"

definition NewMemLog :: MemLog where
  "NewMemLog = []"

definition mem_Partitions :: int where
  "mem_Partitions = 1"

text \<open>\<open>fmt.Sprintf("%012d", len(l.records)+1)\<close>\<close>

definition mem_id :: "nat \<Rightarrow> string" where
  "mem_id n = fmt0d 12 (int n + 1)"

definition mem_Append :: "Record \<Rightarrow> (MemLog, Record) io" where
  "mem_Append rec l = (let rec = rec\<lparr>ID := mem_id (length l)\<rparr> in (Inr rec, l @ [rec]))"

text \<open>A negative start makes the slice expression panic.\<close>

definition mem_ReadPartition :: "int \<Rightarrow> string \<Rightarrow> int \<Rightarrow> (MemLog, Record list) io" where
  "mem_ReadPartition p after k l =
     (if p \<noteq> 0 then (Inl ErrPartitionRange, l)
      else (case (if after = '''' then Some 0 else atoi after) of
          None \<Rightarrow> (Inl ErrBadCursor, l)
        | Some n \<Rightarrow>
            (let len = int (length l);
                 start = (if len < n then len else n);
                 stop = (if 0 < k \<and> wrap64 (start + k) < len then wrap64 (start + k) else len)
             in if start < 0 \<or> stop < start then (Inl Panic, l)
                else (Inr (slice l start stop), l))))"

definition mem_log :: "MemLog Log" where
  "mem_log = \<lparr>Append = mem_Append, Partitions = mem_Partitions, ReadPartition = mem_ReadPartition\<rparr>"

text \<open>The ids are the positions.\<close>

definition mem_wf :: "MemLog \<Rightarrow> bool" where
  "mem_wf l \<longleftrightarrow> map ID l = map mem_id [0..<length l]"

definition mem_recs :: "MemLog \<Rightarrow> int \<Rightarrow> Record list" where
  "mem_recs l p = (if p = 0 then l else [])"

lemma mem_id_nonempty: "mem_id n \<noteq> ''''"
  by (simp add: mem_id_def fmt0d_def pad0_def)

lemma slice_take_drop: "0 \<le> a \<Longrightarrow> a \<le> b \<Longrightarrow> slice l a b = take (nat (b - a)) (drop (nat a) l)"
  by (simp add: slice_def drop_take nat_diff_distrib)

lemma mem_read_ok:
  assumes "mem_wf l" "i \<le> length l" "0 < k" "k \<le> 65536" "int (length l) < 2 ^ 62"
  shows "mem_ReadPartition 0 (cursor_at l i) k l = (Inr (take (nat k) (drop i l)), l)"
proof -
  have cur: "(if cursor_at l i = '''' then Some 0 else atoi (cursor_at l i)) = Some (int i)"
  proof (cases i)
    case (Suc j)
    then have "ID (l ! j) = map ID l ! j" using assms(2) by simp
    also have "\<dots> = mem_id j" using assms(1,2) Suc unfolding mem_wf_def by simp
    finally have "cursor_at l i = mem_id j" using Suc by (simp add: cursor_at_def)
    moreover have "atoi (mem_id j) = Some (int j + 1)"
      unfolding mem_id_def using assms(2,5) Suc by (intro atoi_fmt0d) auto
    ultimately show ?thesis using Suc mem_id_nonempty [of j] by simp
  qed (simp add: cursor_at_def)
  have w: "wrap64 (int i + k) = int i + k" using assms by (intro wrap64_id) auto
  show ?thesis
    using assms by (auto simp: mem_ReadPartition_def cur w Let_def slice_take_drop nat_add_distrib)
qed

lemma route_one: "route 1 rec = 0"
  by (simp add: route_def partitionOf_def)

interpretation mem_events: event_log mem_log mem_recs mem_wf
proof unfold_locales
  fix w rec rec' w' assume "mem_wf w" "Append mem_log rec w = (Inr rec', w')"
  then show "mem_wf w' \<and> (\<exists>i. rec' = rec\<lparr>ID := i\<rparr>) \<and>
        mem_recs w' = (mem_recs w)(route (Partitions mem_log) rec := mem_recs w (route (Partitions mem_log) rec) @ [rec'])"
    by (auto simp: mem_log_def mem_Append_def Let_def mem_wf_def mem_recs_def fun_eq_iff mem_Partitions_def route_one)
next
  fix w p i and k :: int
  assume "mem_wf w" "0 \<le> p" "p < Partitions mem_log" "i \<le> length (mem_recs w p)" "0 < k" "k \<le> 65536"
    "int (length (mem_recs w p)) < 2 ^ 62"
  then show "ReadPartition mem_log p (cursor_at (mem_recs w p) i) k w = (Inr (take (nat k) (drop i (mem_recs w p))), w)"
    using mem_read_ok [of w i k] by (cases "p = 0") (simp_all add: mem_log_def mem_recs_def mem_Partitions_def)
qed (auto simp: mem_log_def mem_Partitions_def mem_recs_def route_one mem_Append_def Let_def split: if_splits)

lemma mem_wf_New [simp]: "mem_wf NewMemLog"
  by (simp add: mem_wf_def NewMemLog_def)

subsection \<open>Ownership\<close>

text \<open>
  (C35) Static assignment covers the log: with the workers numbered from 0, every partition is
  owned by exactly one of them, once, and nothing else is owned. A member's records on a board all
  go to one partition of the log, so one worker applies them.
\<close>

theorem partitions_owned_once:
  assumes "1 \<le> n" "n < 2 ^ 32" "0 < workers"
  shows "(\<forall>p. 0 \<le> p \<and> p < n \<longleftrightarrow> (\<exists>i. 0 \<le> i \<and> i < workers \<and> p \<in> set (OwnedPartitions n i workers))) \<and>
    (\<forall>i j p. 0 \<le> i \<and> i < workers \<and> 0 \<le> j \<and> j < workers \<and> p \<in> set (OwnedPartitions n i workers) \<and>
       p \<in> set (OwnedPartitions n j workers) \<longrightarrow> i = j) \<and>
    (\<forall>i. distinct (OwnedPartitions n i workers)) \<and>
    (\<exists>!i. 0 \<le> i \<and> i < workers \<and> partitionOf app board member n \<in> set (OwnedPartitions n i workers))"
proof -
  have own: "p \<in> set (OwnedPartitions n i workers) \<longleftrightarrow> 0 \<le> p \<and> p < n \<and> (p mod workers = i)" if "0 \<le> i" "i < workers" for p i
  proof (cases "workers = 1")
    case False
    with assms(3) show ?thesis by (auto simp: OwnedPartitions_def)
  qed (use that in \<open>auto simp: OwnedPartitions_def\<close>)
  have m: "0 \<le> p mod workers" "p mod workers < workers" for p using assms(3) by simp_all
  have ex: "\<exists>!i. 0 \<le> i \<and> i < workers \<and> p \<in> set (OwnedPartitions n i workers)" if "0 \<le> p" "p < n" for p
    by (rule ex1I [of _ "p mod workers"]) (use own m that in auto)
  have c1: "\<forall>p. 0 \<le> p \<and> p < n \<longleftrightarrow> (\<exists>i. 0 \<le> i \<and> i < workers \<and> p \<in> set (OwnedPartitions n i workers))"
    using own m by blast
  have c2: "\<forall>i j p. 0 \<le> i \<and> i < workers \<and> 0 \<le> j \<and> j < workers \<and> p \<in> set (OwnedPartitions n i workers) \<and>
       p \<in> set (OwnedPartitions n j workers) \<longrightarrow> i = j" by (intro allI impI, elim conjE) (simp add: own)
  have c3: "\<forall>i. distinct (OwnedPartitions n i workers)" by (simp add: OwnedPartitions_def)
  have "\<exists>!i. 0 \<le> i \<and> i < workers \<and> partitionOf app board member n \<in> set (OwnedPartitions n i workers)"
    by (rule ex) (use partitionOf_range [OF assms(1,2), of app board member] in auto)
  with c1 c2 c3 show ?thesis by (intro conjI)
qed

theorem partitions_owned_once_witness:
  "\<exists>!i. 0 \<le> i \<and> i < 3 \<and> partitionOf ''app1'' ''kills'' ''al'' 16 \<in> set (OwnedPartitions 16 i 3)"
proof -
  have "(1::int) \<le> 16" "(16::int) < 2 ^ 32" "(0::int) < 3" by simp_all
  from partitions_owned_once [OF this, of "''app1''" "''kills''" "''al''"] show ?thesis by (elim conjE)
qed
end
