(* ===== verification/Redis_Log.thy ===== *)
theory Redis_Log
  imports Ingest_Log Redis "HOL-Library.AList"
begin

text \<open>
  The durable log of Redis streams, \<open>pkg/ingest/redislog.go\<close>. The stream commands are a record over
  an opaque server state; \<open>redis_streams\<close> states what their documentation promises, \<open>mem_streams\<close>
  is an executable server that keeps it. On every such server the log keeps the contract
  \<open>event_log\<close>, as long as its streams are not trimmed.
\<close>

subsection \<open>Stream commands\<close>

record XMessage =
  MID :: string
  Values :: "(string \<times> Record json) list"

record 's streams =
  XADD :: "string \<Rightarrow> (string \<times> Record json) list \<Rightarrow> int option \<Rightarrow> 's \<Rightarrow> string reply \<times> 's"
  XRANGE :: "string \<Rightarrow> string \<Rightarrow> string \<Rightarrow> 's \<Rightarrow> XMessage list reply \<times> 's"
  XRANGEN :: "string \<Rightarrow> string \<Rightarrow> string \<Rightarrow> int \<Rightarrow> 's \<Rightarrow> XMessage list reply \<times> 's"
  XGROUPCREATE :: "string \<Rightarrow> string \<Rightarrow> string \<Rightarrow> 's \<Rightarrow> unit reply \<times> 's"
  XREADGROUP :: "string \<Rightarrow> string \<Rightarrow> string \<Rightarrow> string \<Rightarrow> int \<Rightarrow> 's \<Rightarrow> (string \<times> XMessage list) list reply \<times> 's"
  XAUTOCLAIM :: "string \<Rightarrow> string \<Rightarrow> string \<Rightarrow> duration \<Rightarrow> string \<Rightarrow> int \<Rightarrow> 's \<Rightarrow> (XMessage list \<times> string) reply \<times> 's"
  XACK :: "string \<Rightarrow> string \<Rightarrow> string list \<Rightarrow> 's \<Rightarrow> int reply \<times> 's"
  XEXISTS :: "string \<Rightarrow> 's \<Rightarrow> int reply \<times> 's"
  XSET :: "string \<Rightarrow> string \<Rightarrow> duration \<Rightarrow> 's \<Rightarrow> unit reply \<times> 's"

text \<open>
  What a client can observe of a key: the entries of a stream in the order of their ids, and for each
  consumer group how many of them were delivered and which of those are not acknowledged.
\<close>

type_synonym groups = "string \<rightharpoonup> nat \<times> string list"

datatype xval = XNone | XStream "XMessage list" groups | XOther

definition stream_at :: "(string \<Rightarrow> xval) \<Rightarrow> string \<Rightarrow> (XMessage list \<times> groups) option" where
  "stream_at K k = (case K k of XNone \<Rightarrow> Some ([], Map.empty) | XStream es gs \<Rightarrow> Some (es, gs) | XOther \<Rightarrow> None)"

definition str_contains :: "string \<Rightarrow> string \<Rightarrow> bool" where
  "str_contains s sub \<longleftrightarrow> list_ex (\<lambda>i. take (length sub) (drop i s) = sub) [0..<Suc (length s)]"

text \<open>
  The documented behaviour. \<open>XADD\<close> appends under a fresh id or fails without effect; an exclusive
  \<open>XRANGE\<close> from the id of an entry gives the entries after it; \<open>XREADGROUP\<close> with \<open>>\<close> delivers the
  next entries and makes them pending; \<open>XAUTOCLAIM\<close> scans the pending entries from the cursor on
  (which of them it claims depends on their idle time) and returns where to go on; \<open>XACK\<close> takes
  entries off the pending list.
\<close>

locale redis_streams =
  fixes X :: "'s streams" and xks :: "'s \<Rightarrow> string \<Rightarrow> xval"
  assumes XADD: "stream_at (xks s) k = Some (es, gs) \<Longrightarrow>
      (\<exists>e s'. XADD X k v None s = (ErrReply e, s') \<and> xks s' = xks s) \<or>
      (\<exists>i s'. XADD X k v None s = (Reply i, s') \<and> i \<noteq> '''' \<and> i \<notin> MID ` set es \<and>
         xks s' = (xks s)(k := XStream (es @ [\<lparr>MID = i, Values = v\<rparr>]) gs))"
    and XRANGEN: "stream_at (xks s) k = Some (es, gs) \<Longrightarrow> 0 < n \<Longrightarrow> XRANGEN X k ''-'' ''+'' n s = (Reply (take (nat n) es), s)"
      "stream_at (xks s) k = Some (pre @ m # post, gs) \<Longrightarrow> distinct (map MID (pre @ m # post)) \<Longrightarrow> 0 < n \<Longrightarrow>
         XRANGEN X k (CHR ''('' # MID m) ''+'' n s = (Reply (take (nat n) post), s)"
    and XGROUPCREATE: "stream_at (xks s) k = Some (es, gs) \<Longrightarrow> gs g = None \<Longrightarrow>
        \<exists>s'. XGROUPCREATE X k g ''0'' s = (Reply (), s') \<and> xks s' = (xks s)(k := XStream es (gs(g \<mapsto> (0, []))))"
      "xks s k = XStream es gs \<Longrightarrow> gs g \<noteq> None \<Longrightarrow>
        \<exists>e s'. XGROUPCREATE X k g ''0'' s = (ErrReply e, s') \<and> str_contains e ''BUSYGROUP'' \<and> xks s' = xks s"
    and XREADGROUP: "xks s k = XStream es gs \<Longrightarrow> gs g = Some (d, p) \<Longrightarrow> 0 < n \<Longrightarrow> take (nat n) (drop d es) = [] \<Longrightarrow>
        \<exists>s'. XREADGROUP X g c k ''>'' n s = (NilReply, s') \<and> xks s' = xks s"
      "xks s k = XStream es gs \<Longrightarrow> gs g = Some (d, p) \<Longrightarrow> 0 < n \<Longrightarrow> take (nat n) (drop d es) = ms \<Longrightarrow> ms \<noteq> [] \<Longrightarrow>
        \<exists>s'. XREADGROUP X g c k ''>'' n s = (Reply [(k, ms)], s') \<and>
          xks s' = (xks s)(k := XStream es (gs(g \<mapsto> (d + length ms, p @ map MID ms))))"
      "stream_at (xks s) k = Some (es, gs) \<Longrightarrow> gs g = None \<Longrightarrow>
        \<exists>e s'. XREADGROUP X g c k ''>'' n s = (ErrReply e, s') \<and> str_contains e ''NOGROUP'' \<and> xks s' = xks s"
    and XAUTOCLAIM: "xks s k = XStream es gs \<Longrightarrow> gs g = Some (d, a @ b) \<Longrightarrow> 0 < n \<Longrightarrow>
        (if start = ''0-0'' then a = [] else b \<noteq> [] \<and> hd b = start) \<Longrightarrow> distinct (map MID es) \<Longrightarrow> distinct (a @ b) \<Longrightarrow>
        \<exists>ms b1 b2 s'. XAUTOCLAIM X k g c idle start n s = (Reply (ms, if b2 = [] then ''0-0'' else hd b2), s') \<and> xks s' = xks s \<and>
          b = b1 @ b2 \<and> (b1 = [] \<longrightarrow> b = []) \<and> set (map MID ms) \<subseteq> set b1 \<and> distinct (map MID ms) \<and> set ms \<subseteq> set es"
      "stream_at (xks s) k = Some (es, gs) \<Longrightarrow> gs g = None \<Longrightarrow>
        \<exists>e s'. XAUTOCLAIM X k g c idle start n s = (ErrReply e, s') \<and> str_contains e ''NOGROUP'' \<and> xks s' = xks s"
    and XACK: "xks s k = XStream es gs \<Longrightarrow> gs g = Some (d, p) \<Longrightarrow>
        \<exists>r s'. XACK X k g ids s = (Reply r, s') \<and> xks s' = (xks s)(k := XStream es (gs(g \<mapsto> (d, filter (\<lambda>i. i \<notin> set ids) p))))"
    and XEXISTS: "XEXISTS X k s = (Reply (if xks s k = XNone then 0 else 1), s)"
    and XSET: "\<exists>s'. XSET X k u t s = (Reply (), s') \<and> xks s' = (xks s)(k := XOther)"

subsection \<open>The log\<close>

record 's RedisLog =
  rdb :: "'s streams"
  prefix :: string
  partitions :: int
  maxLen :: int

definition NewRedisLog :: "'s streams \<Rightarrow> string \<Rightarrow> int \<Rightarrow> int \<Rightarrow> 's RedisLog" where
  "NewRedisLog X pre n mx = \<lparr>rdb = X, prefix = (if pre = '''' then ''lb:ingest'' else pre),
     partitions = (if n < 1 then 1 else n), maxLen = mx\<rparr>"

definition rl_Partitions :: "'s RedisLog \<Rightarrow> int" where
  "rl_Partitions l = partitions l"

definition StreamName :: "'s RedisLog \<Rightarrow> int \<Rightarrow> string" where
  "StreamName l p = prefix l @ '':'' @ itoa p"

text \<open>\<open>json.Marshal(rec)\<close> and \<open>json.Unmarshal(raw, &rec)\<close>.\<close>

definition marshal_rec :: "Record \<Rightarrow> err + Record json" where
  "marshal_rec rec = (if json_year (RTime rec)
     then Inr (JSON (rec\<lparr>ID := to_utf8 (ID rec), RApp := to_utf8 (RApp rec), RBoard := to_utf8 (RBoard rec),
       RMember := to_utf8 (RMember rec), RSegments := map to_utf8 (RSegments rec), Idem := to_utf8 (Idem rec), Op := to_utf8 (Op rec)\<rparr>))
     else Inl ErrBadRecord)"

definition rl_Append :: "'s RedisLog \<Rightarrow> Record \<Rightarrow> ('s, Record) io" where
  "rl_Append l rec =
     io_bind (io_lift (marshal_rec rec)) (\<lambda>payload.
       let p = partitionOf (RApp rec) (RBoard rec) (RMember rec) (partitions l) in
       io_bind (io_cmd (XADD (rdb l) (StreamName l p) [(''d'', payload)] (if 0 < maxLen l then Some (maxLen l) else None)))
         (\<lambda>i. io_ret (rec\<lparr>ID := i\<rparr>)))"

definition messageToRecord :: "XMessage \<Rightarrow> err + Record option" where
  "messageToRecord m = (case map_of (Values m) ''d'' of
       None \<Rightarrow> Inr None
     | Some NotJSON \<Rightarrow> Inl ErrBadRecord
     | Some (JSON rec) \<Rightarrow> Inr (Some (rec\<lparr>ID := MID m\<rparr>)))"

fun messagesToRecords :: "XMessage list \<Rightarrow> err + Record list" where
  "messagesToRecords [] = Inr []"
| "messagesToRecords (m # ms) =
     (case messageToRecord m of Inl e \<Rightarrow> Inl e
      | Inr r \<Rightarrow> (case messagesToRecords ms of Inl e \<Rightarrow> Inl e
          | Inr recs \<Rightarrow> Inr (case r of None \<Rightarrow> recs | Some rec \<Rightarrow> rec # recs)))"

definition rl_ReadPartition :: "'s RedisLog \<Rightarrow> int \<Rightarrow> string \<Rightarrow> int \<Rightarrow> ('s, Record list) io" where
  "rl_ReadPartition l p after mx =
     (if p < 0 \<or> partitions l \<le> p then io_fail ErrPartitionRange
      else let start = (if after = '''' then ''-'' else CHR ''('' # after) in
        io_bind (io_cmd (if 0 < mx then XRANGEN (rdb l) (StreamName l p) start ''+'' mx
                         else XRANGE (rdb l) (StreamName l p) start ''+''))
          (\<lambda>msgs. io_lift (messagesToRecords msgs)))"

definition redis_log :: "'s RedisLog \<Rightarrow> 's Log" where
  "redis_log l = \<lparr>Append = rl_Append l, Partitions = rl_Partitions l, ReadPartition = rl_ReadPartition l\<rparr>"

subsection \<open>The contract of a log\<close>

text \<open>
  The log of a server: the records of the entries of each partition's stream. It is well formed when
  the entries are the ones \<open>Append\<close> wrote: their ids differ, each decodes to a record, and the record
  belongs to the partition.
\<close>

definition entry_rec :: "XMessage \<Rightarrow> Record" where
  "entry_rec m = (case map_of (Values m) ''d'' of Some (JSON rec) \<Rightarrow> rec\<lparr>ID := MID m\<rparr> | _ \<Rightarrow> undefined)"

definition entry_ok :: "int \<Rightarrow> int \<Rightarrow> XMessage \<Rightarrow> bool" where
  "entry_ok n p m \<longleftrightarrow> (\<exists>rec. map_of (Values m) ''d'' = Some (JSON rec) \<and> route n rec = p) \<and> MID m \<noteq> ''''"

definition rl_msgs :: "'s RedisLog \<Rightarrow> (string \<Rightarrow> xval) \<Rightarrow> int \<Rightarrow> XMessage list" where
  "rl_msgs l K p = (if 0 \<le> p \<and> p < partitions l
     then (case stream_at K (StreamName l p) of None \<Rightarrow> [] | Some (es, gs) \<Rightarrow> es) else [])"

definition rl_recs :: "'s RedisLog \<Rightarrow> (string \<Rightarrow> xval) \<Rightarrow> int \<Rightarrow> Record list" where
  "rl_recs l K p = map entry_rec (rl_msgs l K p)"

definition rl_ok :: "'s RedisLog \<Rightarrow> (string \<Rightarrow> xval) \<Rightarrow> bool" where
  "rl_ok l K \<longleftrightarrow> (\<forall>p. 0 \<le> p \<and> p < partitions l \<longrightarrow> (\<exists>es gs. stream_at K (StreamName l p) = Some (es, gs) \<and>
     distinct (map MID es) \<and> (\<forall>m \<in> set es. entry_ok (partitions l) p m)))"

lemma StreamName_inject: "StreamName l p = StreamName l q \<longleftrightarrow> p = q"
  by (auto simp: StreamName_def dest: itoa_inject)

lemma messageToRecord_ok: "entry_ok n p m \<Longrightarrow> messageToRecord m = Inr (Some (entry_rec m))"
  by (auto simp: entry_ok_def messageToRecord_def entry_rec_def)

lemma messagesToRecords_ok: "(\<And>m. m \<in> set ms \<Longrightarrow> entry_ok n p m) \<Longrightarrow> messagesToRecords ms = Inr (map entry_rec ms)"
proof (induction ms)
  case (Cons m ms)
  have "messageToRecord m = Inr (Some (entry_rec m))" by (rule messageToRecord_ok [OF Cons.prems]) simp
  with Cons show ?case by simp
qed simp

lemma entry_rec_sel: "entry_ok n p m \<Longrightarrow> ID (entry_rec m) = MID m \<and> route n (entry_rec m) = p"
  by (auto simp: entry_ok_def entry_rec_def route_def)

lemma marshal_rec_utf8: "utf8_rec rec \<Longrightarrow> marshal_rec rec = Inr pl \<Longrightarrow> \<exists>i. pl = JSON (rec\<lparr>ID := i\<rparr>)"
  by (cases rec) (auto simp: marshal_rec_def utf8_rec_def utf8_def list_all_iff map_idI split: if_splits)

lemma rl_okE:
  assumes "rl_ok l K" "0 \<le> p" "p < partitions l"
  obtains es gs where "stream_at K (StreamName l p) = Some (es, gs)" "distinct (map MID es)"
    "\<And>m. m \<in> set es \<Longrightarrow> entry_ok (partitions l) p m" "rl_msgs l K p = es"
proof -
  from assms obtain es gs where e: "stream_at K (StreamName l p) = Some (es, gs)" "distinct (map MID es)"
    "\<forall>m \<in> set es. entry_ok (partitions l) p m" unfolding rl_ok_def by blast
  then have "rl_msgs l K p = es" using assms by (simp add: rl_msgs_def)
  with e that show thesis by blast
qed

lemma rl_recs_upd:
  assumes "0 \<le> p" "p < partitions l"
  shows "rl_recs l (K(StreamName l p := XStream es gs)) = (rl_recs l K)(p := map entry_rec es)"
  using assms by (auto simp: rl_recs_def rl_msgs_def stream_at_def StreamName_inject fun_eq_iff)

lemma rl_ok_upd:
  assumes "rl_ok l K" "distinct (map MID es)" "\<And>m. m \<in> set es \<Longrightarrow> entry_ok (partitions l) p m"
  shows "rl_ok l (K(StreamName l p := XStream es gs))"
  using assms by (auto simp: rl_ok_def stream_at_def StreamName_inject)

context redis_streams
begin

lemma append_stream:
  assumes "rl_ok l (xks s)" "rdb l = X" "maxLen l \<le> 0" "1 \<le> partitions l" "partitions l < 2 ^ 32"
    and "rl_Append l rec s = (res, s')"
  shows "case res of Inl e \<Rightarrow> xks s' = xks s
    | Inr rec' \<Rightarrow> utf8_rec rec \<longrightarrow> (\<exists>i. rec' = rec\<lparr>ID := i\<rparr>) \<and> rl_ok l (xks s') \<and> rl_recs l (xks s') =
        (rl_recs l (xks s))(route (partitions l) rec := rl_recs l (xks s) (route (partitions l) rec) @ [rec'])"
proof (cases "marshal_rec rec")
  case (Inl e)
  then show ?thesis using assms(6) by (auto simp: rl_Append_def io_simps)
next
  case (Inr pl)
  define p where "p = route (partitions l) rec"
  have p: "0 \<le> p" "p < partitions l" using partitionOf_range [OF assms(4,5)] by (auto simp: p_def route_def)
  obtain es gs where es: "stream_at (xks s) (StreamName l p) = Some (es, gs)" "distinct (map MID es)"
    "\<And>m. m \<in> set es \<Longrightarrow> entry_ok (partitions l) p m" "rl_msgs l (xks s) p = es" using rl_okE [OF assms(1) p] by blast
  have ap: "rl_Append l rec s = io_bind (io_cmd (XADD X (StreamName l p) [(''d'', pl)] None)) (\<lambda>i. io_ret (rec\<lparr>ID := i\<rparr>)) s"
    using assms(2,3) by (simp add: rl_Append_def Inr io_simps p_def route_def)
  from XADD [OF es(1), of "[(''d'', pl)]"] show ?thesis
  proof (elim disjE exE conjE)
    fix e s1 assume "XADD X (StreamName l p) [(''d'', pl)] None s = (ErrReply e, s1)" "xks s1 = xks s"
    then show ?thesis using ap assms(6) by (auto simp: io_simps)
  next
    fix i s1
    assume a: "XADD X (StreamName l p) [(''d'', pl)] None s = (Reply i, s1)" "i \<noteq> ''''" "i \<notin> MID ` set es"
      "xks s1 = (xks s)(StreamName l p := XStream (es @ [\<lparr>MID = i, Values = [(''d'', pl)]\<rparr>]) gs)"
    define m where "m = \<lparr>MID = i, Values = [(''d'', pl)]\<rparr>"
    have r: "res = Inr (rec\<lparr>ID := i\<rparr>)" "s' = s1" using ap a(1) assms(6) by (auto simp: io_simps)
    have "rl_ok l (xks s1) \<and> rl_recs l (xks s1) = (rl_recs l (xks s))(p := rl_recs l (xks s) p @ [rec\<lparr>ID := i\<rparr>])" if u: "utf8_rec rec"
    proof
      obtain j where pl: "pl = JSON (rec\<lparr>ID := j\<rparr>)" using marshal_rec_utf8 [OF u Inr] by blast
      have m: "entry_ok (partitions l) p m" "entry_rec m = rec\<lparr>ID := i\<rparr>"
        using a(2) by (simp_all add: m_def entry_ok_def entry_rec_def pl p_def route_def)
      show "rl_ok l (xks s1)" unfolding a(4) m_def [symmetric]
        using es a(3) m(1) by (intro rl_ok_upd assms(1)) (auto simp: m_def)
      show "rl_recs l (xks s1) = (rl_recs l (xks s))(p := rl_recs l (xks s) p @ [rec\<lparr>ID := i\<rparr>])"
        unfolding a(4) m_def [symmetric] rl_recs_upd [OF p] using m(2) es(4) by (simp add: rl_recs_def)
    qed
    then show ?thesis using r by (auto simp: p_def)
  qed
qed

lemma read_stream:
  assumes "rl_ok l (xks s)" "rdb l = X" "0 \<le> p" "p < partitions l" "i \<le> length (rl_recs l (xks s) p)" "0 < k"
  shows "rl_ReadPartition l p (cursor_at (rl_recs l (xks s) p) i) k s = (Inr (take (nat k) (drop i (rl_recs l (xks s) p))), s)"
proof -
  obtain es gs where es: "stream_at (xks s) (StreamName l p) = Some (es, gs)" "distinct (map MID es)"
    "\<And>m. m \<in> set es \<Longrightarrow> entry_ok (partitions l) p m" "rl_msgs l (xks s) p = es" using rl_okE [OF assms(1,3,4)] by blast
  have dec: "messagesToRecords (take n (drop j es)) = Inr (take n (drop j (map entry_rec es)))" for n j
    using messagesToRecords_ok [of "take n (drop j es)"] es(3) by (metis in_set_dropD in_set_takeD take_map drop_map)
  show ?thesis
  proof (cases i)
    case 0
    then show ?thesis using assms dec [of _ 0] XRANGEN(1) [OF es(1) assms(6)]
      by (simp add: rl_ReadPartition_def cursor_at_def io_simps rl_recs_def es(4))
  next
    case (Suc j)
    then have j: "j < length es" using assms(5) es(4) by (simp add: rl_recs_def)
    then have sp: "es = take j es @ es ! j # drop i es" by (simp add: Suc id_take_nth_drop)
    have cur: "cursor_at (rl_recs l (xks s) p) i = MID (es ! j)" "MID (es ! j) \<noteq> ''''"
      using Suc j entry_rec_sel [OF es(3) [OF nth_mem [OF j]]] es(3) [OF nth_mem [OF j]]
      by (simp_all add: cursor_at_def rl_recs_def es(4) entry_ok_def)
    have "XRANGEN X (StreamName l p) (CHR ''('' # MID (es ! j)) ''+'' k s = (Reply (take (nat k) (drop i es)), s)"
      using XRANGEN(2) [of s "StreamName l p" "take j es" "es ! j" "drop i es" gs k] es(1,2) assms(6) sp by simp
    then show ?thesis using assms dec cur
      by (simp add: rl_ReadPartition_def io_simps rl_recs_def es(4))
  qed
qed

lemma event_log_redis:
  assumes "rdb l = X" "maxLen l \<le> 0" "1 \<le> partitions l" "partitions l < 2 ^ 32"
  shows "event_log (redis_log l) (\<lambda>s. rl_recs l (xks s)) (\<lambda>s. rl_ok l (xks s))"
proof unfold_locales
  show "1 \<le> Partitions (redis_log l)" using assms(3) by (simp add: redis_log_def rl_Partitions_def)
next
  fix s rec p assume "rl_ok l (xks s)" "rec \<in> set (rl_recs l (xks s) p)"
  moreover from this(2) have p: "0 \<le> p \<and> p < partitions l" unfolding rl_recs_def rl_msgs_def by (metis (full_types) empty_iff list.set(1) map_is_Nil_conv)
  ultimately obtain m where m: "rec = entry_rec m" "entry_ok (partitions l) p m"
    using p unfolding rl_recs_def rl_ok_def rl_msgs_def by fastforce
  then show "route (Partitions (redis_log l)) rec = p" using entry_rec_sel [OF m(2)] by (simp add: redis_log_def rl_Partitions_def)
next
  fix s rec rec' s' assume "rl_ok l (xks s)" "utf8_rec rec" "Append (redis_log l) rec s = (Inr rec', s')"
  then show "rl_ok l (xks s') \<and> (\<exists>i. rec' = rec\<lparr>ID := i\<rparr>) \<and> rl_recs l (xks s') = (rl_recs l (xks s))
     (route (Partitions (redis_log l)) rec := rl_recs l (xks s) (route (Partitions (redis_log l)) rec) @ [rec'])"
    using append_stream [OF _ assms, of s rec "Inr rec'" s'] by (simp add: redis_log_def rl_Partitions_def)
next
  fix s rec e s' assume "rl_ok l (xks s)" "Append (redis_log l) rec s = (Inl e, s')"
  then have "xks s' = xks s" using append_stream [OF _ assms, of s rec "Inl e" s'] by (simp add: redis_log_def)
  then show "rl_ok l (xks s') \<and> rl_recs l (xks s') = rl_recs l (xks s)" using \<open>rl_ok l (xks s)\<close> by simp
next
  fix s p i and k :: int assume "rl_ok l (xks s)" "0 \<le> p" "p < Partitions (redis_log l)" "i \<le> length (rl_recs l (xks s) p)" "0 < k"
  then show "ReadPartition (redis_log l) p (cursor_at (rl_recs l (xks s) p) i) k s =
      (Inr (take (nat k) (drop i (rl_recs l (xks s) p))), s)"
    using read_stream [OF _ assms(1), of s p i k] by (simp add: redis_log_def rl_Partitions_def)
qed (auto simp: rl_recs_def rl_msgs_def redis_log_def rl_Partitions_def)

end

subsection \<open>An executable server\<close>

text \<open>
  Streams with ids \<open>1-0\<close>, \<open>2-0\<close>, and so on, groups as association lists, and the set of other
  keys. Every pending entry counts as idle for long enough.
\<close>

record xmem =
  xstreams :: "(string \<times> XMessage list \<times> (string \<times> nat \<times> string list) list) list"
  xkeys :: "string list"

definition xmem_new :: xmem where
  "xmem_new = \<lparr>xstreams = [], xkeys = []\<rparr>"

definition mem_xks :: "xmem \<Rightarrow> string \<Rightarrow> xval" where
  "mem_xks s k = (if k \<in> set (xkeys s) then XOther
     else case map_of (xstreams s) k of None \<Rightarrow> XNone | Some (es, gs) \<Rightarrow> XStream es (map_of gs))"

definition xput :: "string \<Rightarrow> XMessage list \<times> (string \<times> nat \<times> string list) list \<Rightarrow> xmem \<Rightarrow> xmem" where
  "xput k v s = s\<lparr>xstreams := AList.update k v (xstreams s)\<rparr>"

definition xget :: "xmem \<Rightarrow> string \<Rightarrow> (XMessage list \<times> (string \<times> nat \<times> string list) list) option" where
  "xget s k = (if k \<in> set (xkeys s) then None else Some (case map_of (xstreams s) k of None \<Rightarrow> ([], []) | Some v \<Rightarrow> v))"

definition after_id :: "string \<Rightarrow> XMessage list \<Rightarrow> XMessage list" where
  "after_id start es = (case start of [] \<Rightarrow> es
     | c # cs \<Rightarrow> if c = CHR ''('' then drop 1 (dropWhile (\<lambda>m. MID m \<noteq> cs) es) else es)"

definition no_group :: string where "no_group = ''NOGROUP No such key or consumer group''"
definition busy_group :: string where "busy_group = ''BUSYGROUP Consumer Group name already exists''"

definition mem_streams :: "xmem streams" where
  "mem_streams = \<lparr>
     XADD = (\<lambda>k v mx s. case xget s k of None \<Rightarrow> (wrongtype, s)
       | Some (es, gs) \<Rightarrow> (let i = itoa (int (length es) + 1) @ ''-0'' in
           if i \<in> MID ` set es then (ErrReply ''ERR The ID specified in XADD is equal or smaller'', s)
           else (Reply i, xput k (es @ [\<lparr>MID = i, Values = v\<rparr>], gs) s))),
     XRANGE = (\<lambda>k a b s. case xget s k of None \<Rightarrow> (wrongtype, s) | Some (es, gs) \<Rightarrow> (Reply (after_id a es), s)),
     XRANGEN = (\<lambda>k a b n s. case xget s k of None \<Rightarrow> (wrongtype, s) | Some (es, gs) \<Rightarrow> (Reply (take (nat n) (after_id a es)), s)),
     XGROUPCREATE = (\<lambda>k g i s. case xget s k of None \<Rightarrow> (wrongtype, s)
       | Some (es, gs) \<Rightarrow> if map_of gs g = None then (Reply (), xput k (es, (g, 0, []) # gs) s) else (ErrReply busy_group, s)),
     XREADGROUP = (\<lambda>g c k i n s. case xget s k of None \<Rightarrow> (wrongtype, s)
       | Some (es, gs) \<Rightarrow> (case map_of gs g of None \<Rightarrow> (ErrReply no_group, s)
           | Some (d, p) \<Rightarrow> (let ms = take (nat n) (drop d es) in
               if ms = [] then (NilReply, s)
               else (Reply [(k, ms)], xput k (es, AList.update g (d + length ms, p @ map MID ms) gs) s)))),
     XAUTOCLAIM = (\<lambda>k g c idle start n s. case xget s k of None \<Rightarrow> (wrongtype, s)
       | Some (es, gs) \<Rightarrow> (case map_of gs g of None \<Rightarrow> (ErrReply no_group, s)
           | Some (d, p) \<Rightarrow> (let b = (if start = ''0-0'' then p else dropWhile (\<lambda>i. i \<noteq> start) p);
                 b1 = take (nat n) b; b2 = drop (nat n) b in
               (Reply (filter (\<lambda>m. MID m \<in> set b1) es, if b2 = [] then ''0-0'' else hd b2), s)))),
     XACK = (\<lambda>k g ids s. case xget s k of None \<Rightarrow> (wrongtype, s)
       | Some (es, gs) \<Rightarrow> (case map_of gs g of None \<Rightarrow> (Reply 0, s)
           | Some (d, p) \<Rightarrow> (Reply (int (length (filter (\<lambda>i. i \<in> set ids) p))),
               xput k (es, AList.update g (d, filter (\<lambda>i. i \<notin> set ids) p) gs) s))),
     XEXISTS = (\<lambda>k s. (Reply (case mem_xks s k of XNone \<Rightarrow> 0 | _ \<Rightarrow> 1), s)),
     XSET = (\<lambda>k v t s. (Reply (), s\<lparr>xkeys := k # xkeys s\<rparr>))\<rparr>"

lemma mem_xks_xput: "k \<notin> set (xkeys s) \<Longrightarrow> mem_xks (xput k (es, gs) s) = (mem_xks s)(k := XStream es (map_of gs))"
  by (auto simp: mem_xks_def xput_def update_conv' fun_eq_iff)

lemma xget_stream: "stream_at (mem_xks s) k = Some (es, gs) \<Longrightarrow> k \<notin> set (xkeys s) \<and> (\<exists>gl. xget s k = Some (es, gl) \<and> map_of gl = gs)"
  by (auto simp: stream_at_def mem_xks_def xget_def split: option.splits if_splits)

lemma xget_XStream: "mem_xks s k = XStream es gs \<Longrightarrow> k \<notin> set (xkeys s) \<and> (\<exists>gl. xget s k = Some (es, gl) \<and> map_of gl = gs)"
  by (rule xget_stream) (simp add: stream_at_def)

lemma after_id_at: "distinct (map MID (pre @ m # post)) \<Longrightarrow> after_id (CHR ''('' # MID m) (pre @ m # post) = post"
  by (auto simp: after_id_def dropWhile_append3 dropWhile_append) (metis image_eqI)+

lemma contains_no_group: "str_contains no_group ''NOGROUP''" "str_contains busy_group ''BUSYGROUP''"
  by code_simp+

interpretation mem_streams: redis_streams mem_streams mem_xks
proof (unfold_locales, goal_cases)
  case (1 s k es gs v)
  then show ?case using xget_stream [OF 1]
    by (cases "itoa (int (length es) + 1) @ ''-0'' \<in> MID ` set es") (auto simp: mem_streams_def Let_def mem_xks_xput)
next
  case (2 s k es gs n)
  then show ?case using xget_stream [OF 2(1)] by (auto simp: mem_streams_def after_id_def)
next
  case (3 s k pre m post gs n)
  then show ?case using xget_stream [OF 3(1)] after_id_at [OF 3(2)] by (auto simp: mem_streams_def)
next
  case (4 s k es gs g)
  then show ?case using xget_stream [OF 4(1)] by (auto simp: mem_streams_def mem_xks_xput)
next
  case (5 s k es gs g)
  then show ?case using xget_XStream [OF 5(1)] by (auto simp: mem_streams_def contains_no_group)
next
  case (6 s k es gs g d p n c)
  then show ?case using xget_XStream [OF 6(1)] by (auto simp: mem_streams_def)
next
  case (7 s k es gs g d p n ms c)
  then show ?case using xget_XStream [OF 7(1)] by (auto simp: mem_streams_def mem_xks_xput update_conv' Let_def)
next
  case (8 s k es gs g c n)
  then show ?case using xget_stream [OF 8(1)] by (auto simp: mem_streams_def contains_no_group)
next
  case (9 s k es gs g d a b n start c idle)
  have b: "(if start = ''0-0'' then a @ b else dropWhile (\<lambda>i. i \<noteq> start) (a @ b)) = b"
    using 9(4,6) by (cases b) (auto simp: dropWhile_append3 split: if_splits)
  have "nat n \<noteq> 0" using 9(3) by simp
  then have tk: "take (nat n) b = [] \<longrightarrow> b = []" by simp
  obtain gl where "xget s k = Some (es, gl)" "map_of gl = gs" using xget_XStream [OF 9(1)] by blast
  then have "XAUTOCLAIM mem_streams k g c idle start n s =
      (Reply (filter (\<lambda>m. MID m \<in> set (take (nat n) b)) es, if drop (nat n) b = [] then ''0-0'' else hd (drop (nat n) b)), s)"
    unfolding mem_streams_def streams.simps using 9(2) by (simp only: option.case prod.case b Let_def)
  moreover have "b = take (nat n) b @ drop (nat n) b" by simp
  moreover have "set (map MID (filter (\<lambda>m. MID m \<in> set (take (nat n) b)) es)) \<subseteq> set (take (nat n) b)" by auto
  moreover have "distinct (map MID (filter (\<lambda>m. MID m \<in> set (take (nat n) b)) es))" using 9(5) by (rule distinct_map_filter)
  moreover have "set (filter (\<lambda>m. MID m \<in> set (take (nat n) b)) es) \<subseteq> set es" by auto
  ultimately show ?case using tk by blast
next
  case (10 s k es gs g c idle start n)
  then show ?case using xget_stream [OF 10(1)] by (auto simp: mem_streams_def contains_no_group)
next
  case (11 s k es gs g d p ids)
  then show ?case using xget_XStream [OF 11(1)] by (auto simp: mem_streams_def mem_xks_xput update_conv')
qed (auto simp: mem_streams_def mem_xks_def fun_eq_iff split: xval.splits option.splits)

interpretation redis_events: event_log "redis_log (NewRedisLog mem_streams pre 16 0)"
  "\<lambda>s. rl_recs (NewRedisLog mem_streams pre 16 0) (mem_xks s)"
  "\<lambda>s. rl_ok (NewRedisLog mem_streams pre 16 0) (mem_xks s)" for pre
  by (rule mem_streams.event_log_redis) (simp_all add: NewRedisLog_def)

end
