(* ===== verification/Redis_KV.thy ===== *)
theory Redis_KV
  imports Redis
begin

text \<open>
  The string, set and hash commands of Redis that the control plane uses (deduplication, player
  tokens, player registry, tenants, accounts), in the style of \<open>Redis\<close>: a record of commands over
  an opaque server state is the parameter, \<open>redis_kv\<close> states what the documentation promises about
  the keyspace \<open>kks s\<close>, and \<open>mem_kv\<close> is an executable server that keeps the promise. Strings are
  values of a type \<open>'v\<close>: where the program stores JSON, the value stands for what the text
  denotes. Expiry is left open: the contract speaks of the moment a command runs, and a key with a
  time to live may be gone at the next one.
\<close>

datatype 'v kval = KStr 'v | KSet "string list" | KHash "(string \<times> string) list"

record ('s, 'v) kv =
  GET :: "string \<Rightarrow> 's \<Rightarrow> 'v reply \<times> 's"
  SET :: "string \<Rightarrow> 'v \<Rightarrow> int \<Rightarrow> 's \<Rightarrow> unit reply \<times> 's"
  SETNX :: "string \<Rightarrow> 'v \<Rightarrow> int \<Rightarrow> 's \<Rightarrow> bool reply \<times> 's"
  GETDEL :: "string \<Rightarrow> 's \<Rightarrow> 'v reply \<times> 's"
  KDEL :: "string \<Rightarrow> 's \<Rightarrow> int reply \<times> 's"
  EXISTS :: "string \<Rightarrow> 's \<Rightarrow> int reply \<times> 's"
  KEXPIRE :: "string \<Rightarrow> int \<Rightarrow> 's \<Rightarrow> bool reply \<times> 's"
  SADD :: "string \<Rightarrow> string \<Rightarrow> 's \<Rightarrow> int reply \<times> 's"
  SREM :: "string \<Rightarrow> string \<Rightarrow> 's \<Rightarrow> int reply \<times> 's"
  SMEMBERS :: "string \<Rightarrow> 's \<Rightarrow> string list reply \<times> 's"
  HGET :: "string \<Rightarrow> string \<Rightarrow> 's \<Rightarrow> string reply \<times> 's"
  HSET :: "string \<Rightarrow> string \<Rightarrow> string \<Rightarrow> 's \<Rightarrow> int reply \<times> 's"
  HSETNX :: "string \<Rightarrow> string \<Rightarrow> string \<Rightarrow> 's \<Rightarrow> int reply \<times> 's"
  HDEL :: "string \<Rightarrow> string \<Rightarrow> 's \<Rightarrow> int reply \<times> 's"
  HMGET :: "string \<Rightarrow> string list \<Rightarrow> 's \<Rightarrow> string option list reply \<times> 's"
  HLEN :: "string \<Rightarrow> 's \<Rightarrow> int reply \<times> 's"

text \<open>
  What a client can observe of a key: the string, the set of members, the map of fields; \<open>VNone\<close>
  for an absent key. An empty set or hash is an absent key.
\<close>

datatype 'v kview = VNone | VStr 'v | VSet "string set" | VMap "string \<rightharpoonup> string"

definition set_view :: "string set \<Rightarrow> 'v kview" where
  "set_view A = (if A = {} then VNone else VSet A)"

definition map_view :: "(string \<rightharpoonup> string) \<Rightarrow> 'v kview" where
  "map_view h = (if h = Map.empty then VNone else VMap h)"

definition opt_view :: "'v option \<Rightarrow> 'v kview" where
  "opt_view v = (case v of None \<Rightarrow> VNone | Some x \<Rightarrow> VStr x)"

lemma opt_view_simps [simp]: "opt_view None = VNone" "opt_view (Some x) = VStr x"
  by (simp_all add: opt_view_def)

locale redis_kv =
  fixes C :: "('s, 'v) kv" and kks :: "'s \<Rightarrow> string \<Rightarrow> 'v kview"
  assumes GET: "kks s k = VNone \<Longrightarrow> GET C k s = (NilReply, s)" "kks s k = VStr v \<Longrightarrow> GET C k s = (Reply v, s)"
    and SET: "fst (SET C k v d s) = Reply ()" "kks (snd (SET C k v d s)) = (kks s)(k := VStr v)"
    and SETNX: "kks s k = VNone \<Longrightarrow> fst (SETNX C k v d s) = Reply True"
      "kks s k = VNone \<Longrightarrow> kks (snd (SETNX C k v d s)) = (kks s)(k := VStr v)"
      "kks s k \<noteq> VNone \<Longrightarrow> SETNX C k v d s = (Reply False, s)"
    and GETDEL: "kks s k = VNone \<Longrightarrow> GETDEL C k s = (NilReply, s)"
      "kks s k = VStr v \<Longrightarrow> fst (GETDEL C k s) = Reply v"
      "kks s k = VStr v \<Longrightarrow> kks (snd (GETDEL C k s)) = (kks s)(k := VNone)"
    and KDEL: "fst (KDEL C k s) = Reply (if kks s k = VNone then 0 else 1)" "kks (snd (KDEL C k s)) = (kks s)(k := VNone)"
    and EXISTS: "EXISTS C k s = (Reply (if kks s k = VNone then 0 else 1), s)"
    and KEXPIRE: "\<exists>b. fst (KEXPIRE C k d s) = Reply b" "kks (snd (KEXPIRE C k d s)) = kks s"
    and SADD: "kks s k = set_view A \<Longrightarrow> \<exists>n. fst (SADD C k x s) = Reply n"
      "kks s k = set_view A \<Longrightarrow> kks (snd (SADD C k x s)) = (kks s)(k := set_view (insert x A))"
    and SREM: "kks s k = set_view A \<Longrightarrow> \<exists>n. fst (SREM C k x s) = Reply n"
      "kks s k = set_view A \<Longrightarrow> kks (snd (SREM C k x s)) = (kks s)(k := set_view (A - {x}))"
    and SMEMBERS: "kks s k = set_view A \<Longrightarrow> \<exists>xs. SMEMBERS C k s = (Reply xs, s) \<and> distinct xs \<and> set xs = A"
    and HGET: "kks s k = map_view h \<Longrightarrow> HGET C k f s = (opt_reply (h f), s)"
    and HSET: "kks s k = map_view h \<Longrightarrow> \<exists>n. fst (HSET C k f x s) = Reply n"
      "kks s k = map_view h \<Longrightarrow> kks (snd (HSET C k f x s)) = (kks s)(k := map_view (h(f \<mapsto> x)))"
    and HSETNX: "kks s k = map_view h \<Longrightarrow> fst (HSETNX C k f x s) = Reply (if h f = None then 1 else 0)"
      "kks s k = map_view h \<Longrightarrow> kks (snd (HSETNX C k f x s)) = (if h f = None then (kks s)(k := map_view (h(f \<mapsto> x))) else kks s)"
    and HDEL: "kks s k = map_view h \<Longrightarrow> \<exists>n. fst (HDEL C k f s) = Reply n"
      "kks s k = map_view h \<Longrightarrow> kks (snd (HDEL C k f s)) = (kks s)(k := map_view (h(f := None)))"
    and HMGET: "kks s k = map_view h \<Longrightarrow> HMGET C k fs s = (Reply (map h fs), s)"
    and HLEN: "kks s k = map_view h \<Longrightarrow> finite (dom h) \<Longrightarrow> HLEN C k s = (Reply (int (card (dom h))), s)"

subsection \<open>An executable server\<close>

type_synonym 'v kmem = "(string \<times> 'v kval) list"

definition kput :: "string \<Rightarrow> 'v kval option \<Rightarrow> 'v kmem \<Rightarrow> 'v kmem" where
  "kput k v s = (case v of None \<Rightarrow> filter (\<lambda>e. fst e \<noteq> k) s | Some c \<Rightarrow> (k, c) # filter (\<lambda>e. fst e \<noteq> k) s)"

fun kval_view :: "'v kval \<Rightarrow> 'v kview" where
  "kval_view (KStr v) = VStr v"
| "kval_view (KSet xs) = set_view (set xs)"
| "kval_view (KHash h) = map_view (map_of h)"

definition mem_kks :: "'v kmem \<Rightarrow> string \<Rightarrow> 'v kview" where
  "mem_kks s k = (case map_of s k of None \<Rightarrow> VNone | Some c \<Rightarrow> kval_view c)"

definition kset :: "'v kmem \<Rightarrow> string \<Rightarrow> string list option" where
  "kset s k = (case map_of s k of None \<Rightarrow> Some [] | Some (KSet xs) \<Rightarrow> Some xs | Some (KHash []) \<Rightarrow> Some [] | _ \<Rightarrow> None)"

definition khash :: "'v kmem \<Rightarrow> string \<Rightarrow> (string \<times> string) list option" where
  "khash s k = (case map_of s k of None \<Rightarrow> Some [] | Some (KHash h) \<Rightarrow> Some h | Some (KSet []) \<Rightarrow> Some [] | _ \<Rightarrow> None)"

definition kgone :: "'v kmem \<Rightarrow> string \<Rightarrow> bool" where
  "kgone s k = (case map_of s k of None \<Rightarrow> True | Some (KStr v) \<Rightarrow> False | Some (KSet xs) \<Rightarrow> xs = [] | Some (KHash h) \<Rightarrow> h = [])"

definition kstr :: "'v kmem \<Rightarrow> string \<Rightarrow> 'v reply" where
  "kstr s k = (case map_of s k of Some (KStr v) \<Rightarrow> Reply v | _ \<Rightarrow> if kgone s k then NilReply else wrongtype)"

definition with_set :: "'v kmem \<Rightarrow> string \<Rightarrow> (string list \<Rightarrow> 'a \<times> string list) \<Rightarrow> 'a reply \<times> 'v kmem" where
  "with_set s k f = (case kset s k of None \<Rightarrow> (wrongtype, s) | Some xs \<Rightarrow> (case f xs of (r, ys) \<Rightarrow> (Reply r, kput k (Some (KSet ys)) s)))"

definition with_hash :: "'v kmem \<Rightarrow> string \<Rightarrow> ((string \<times> string) list \<Rightarrow> 'a \<times> (string \<times> string) list) \<Rightarrow> 'a reply \<times> 'v kmem" where
  "with_hash s k f = (case khash s k of None \<Rightarrow> (wrongtype, s) | Some h \<Rightarrow> (case f h of (r, h') \<Rightarrow> (Reply r, kput k (Some (KHash h')) s)))"

definition mem_kv :: "('v kmem, 'v) kv" where
  "mem_kv = \<lparr>
     GET = (\<lambda>k s. (kstr s k, s)),
     SET = (\<lambda>k v d s. (Reply (), kput k (Some (KStr v)) s)),
     SETNX = (\<lambda>k v d s. if kgone s k then (Reply True, kput k (Some (KStr v)) s) else (Reply False, s)),
     GETDEL = (\<lambda>k s. case kstr s k of Reply v \<Rightarrow> (Reply v, kput k None s) | r \<Rightarrow> (r, s)),
     KDEL = (\<lambda>k s. (Reply (if kgone s k then 0 else 1), kput k None s)),
     EXISTS = (\<lambda>k s. (Reply (if kgone s k then 0 else 1), s)),
     KEXPIRE = (\<lambda>k d s. (Reply (\<not> kgone s k), s)),
     SADD = (\<lambda>k x s. with_set s k (\<lambda>xs. if x \<in> set xs then (0, xs) else (1, x # xs))),
     SREM = (\<lambda>k x s. with_set s k (\<lambda>xs. (if x \<in> set xs then 1 else 0, filter (\<lambda>y. y \<noteq> x) xs))),
     SMEMBERS = (\<lambda>k s. case kset s k of None \<Rightarrow> (wrongtype, s) | Some xs \<Rightarrow> (Reply (remdups xs), s)),
     HGET = (\<lambda>k f s. case khash s k of None \<Rightarrow> (wrongtype, s) | Some h \<Rightarrow> (opt_reply (map_of h f), s)),
     HSET = (\<lambda>k f x s. with_hash s k (\<lambda>h. (if map_of h f = None then 1 else 0, hset h f x))),
     HSETNX = (\<lambda>k f x s. with_hash s k (\<lambda>h. if map_of h f = None then (1, hset h f x) else (0, h))),
     HDEL = (\<lambda>k f s. with_hash s k (\<lambda>h. (if map_of h f = None then 0 else 1, filter (\<lambda>e. fst e \<noteq> f) h))),
     HMGET = (\<lambda>k fs s. case khash s k of None \<Rightarrow> (wrongtype, s) | Some h \<Rightarrow> (Reply (map (map_of h) fs), s)),
     HLEN = (\<lambda>k s. case khash s k of None \<Rightarrow> (wrongtype, s) | Some h \<Rightarrow> (Reply (int (length (remdups (map fst h)))), s))\<rparr>"

lemma map_of_kput: "map_of (kput k v s) = (map_of s)(k := v)"
  by (auto simp: kput_def map_of_filter_ne fun_eq_iff split: option.splits)

lemma mem_kks_kput: "mem_kks (kput k (Some c) s) = (mem_kks s)(k := kval_view c)" "mem_kks (kput k None s) = (mem_kks s)(k := VNone)"
  by (auto simp: mem_kks_def map_of_kput fun_eq_iff)

lemma kgone_view: "kgone s k \<longleftrightarrow> mem_kks s k = VNone"
  by (auto simp: kgone_def mem_kks_def set_view_def map_view_def split: option.splits kval.splits)

lemma kstr_view: "mem_kks s k = VNone \<Longrightarrow> kstr s k = NilReply" "mem_kks s k = VStr v \<Longrightarrow> kstr s k = Reply v"
  by (auto simp: kstr_def kgone_view mem_kks_def set_view_def map_view_def split: option.splits kval.splits if_splits)

lemma kset_view: "mem_kks s k = set_view A \<Longrightarrow> \<exists>xs. kset s k = Some xs \<and> set xs = A"
  by (auto simp: kset_def mem_kks_def set_view_def map_view_def split: option.splits kval.splits if_splits list.splits)

lemma khash_view: "mem_kks s k = map_view h \<Longrightarrow> \<exists>xs. khash s k = Some xs \<and> map_of xs = h"
  by (auto simp: khash_def mem_kks_def set_view_def map_view_def split: option.splits kval.splits if_splits list.splits)

lemma map_of_filter_key: "map_of (filter (\<lambda>e. fst e \<noteq> f) h) = (map_of h)(f := None)"
  by (auto simp: map_of_filter_ne fun_eq_iff)

lemma with_set_view:
  assumes "mem_kks s k = set_view A" "\<And>xs. set xs = A \<Longrightarrow> set (snd (f xs)) = B"
  shows "\<exists>r. fst (with_set s k f) = Reply r" "mem_kks (snd (with_set s k f)) = (mem_kks s)(k := set_view B)"
  using kset_view [OF assms(1)] assms(2) by (auto simp: with_set_def mem_kks_kput case_prod_beta)

lemma with_hash_view:
  assumes "mem_kks s k = map_view h" "\<And>xs. map_of xs = h \<Longrightarrow> fst (f xs) = r \<and> map_of (snd (f xs)) = h'"
  shows "fst (with_hash s k f) = Reply r" "mem_kks (snd (with_hash s k f)) = (mem_kks s)(k := map_view h')"
  using khash_view [OF assms(1)] assms(2) by (auto simp: with_hash_def mem_kks_kput case_prod_beta)

lemma card_dom_map_of: "int (length (remdups (map fst h))) = int (card (dom (map_of h)))"
  by (simp add: dom_map_of_conv_image_fst length_remdups_card_conv)

interpretation mem_kv: redis_kv mem_kv mem_kks
proof (unfold_locales, goal_cases)
  case (16 s k A x)
  show ?case unfolding mem_kv_def by simp (rule with_set_view(1) [OF 16, where B = "insert x A"], auto)
next
  case (17 s k A x)
  show ?case unfolding mem_kv_def by simp (rule with_set_view(2) [OF 17], auto)
next
  case (18 s k A x)
  show ?case unfolding mem_kv_def by simp (rule with_set_view(1) [OF 18, where B = "A - {x}"], auto)
next
  case (19 s k A x)
  show ?case unfolding mem_kv_def by simp (rule with_set_view(2) [OF 19], auto)
next
  case (20 s k A)
  then show ?case using kset_view [OF 20] by (auto simp: mem_kv_def)
next
  case (21 s k h f)
  then show ?case using khash_view [OF 21] by (auto simp: mem_kv_def)
next
  case (22 s k h f x)
  show ?case unfolding mem_kv_def
    by simp (rule exI, rule with_hash_view(1) [OF 22, where h' = "h(f \<mapsto> x)"], auto simp: map_of_hset)
next
  case (23 s k h f x)
  show ?case unfolding mem_kv_def by simp (rule with_hash_view(2) [OF 23], auto simp: map_of_hset)
next
  case (24 s k h f x)
  show ?case unfolding mem_kv_def kv.simps
    by (rule with_hash_view(1) [OF 24, where h' = "if h f = None then h(f \<mapsto> x) else h"]) (auto simp: map_of_hset)
next
  case (25 s k h f x)
  have "mem_kks (snd (HSETNX mem_kv k f x s)) = (mem_kks s)(k := map_view (if h f = None then h(f \<mapsto> x) else h))"
    unfolding mem_kv_def kv.simps by (rule with_hash_view(2) [OF 25, where r = "if h f = None then 1 else 0"]) (auto simp: map_of_hset)
  then show ?case using 25 by (auto simp: fun_eq_iff)
next
  case (26 s k h f)
  show ?case unfolding mem_kv_def
    by simp (rule exI, rule with_hash_view(1) [OF 26, where h' = "h(f := None)"], auto simp: map_of_filter_key)
next
  case (27 s k h f)
  show ?case unfolding mem_kv_def by simp (rule with_hash_view(2) [OF 27], auto simp: map_of_filter_key)
next
  case (28 s k h fs)
  then show ?case using khash_view [OF 28] by (auto simp: mem_kv_def)
next
  case (29 s k h)
  then show ?case using khash_view [OF 29(1)] by (auto simp: mem_kv_def card_dom_map_of)
qed (auto simp: mem_kv_def mem_kks_kput kgone_view kstr_view)

end
