(* ===== verification/Ingest.thy ===== *)
theory Ingest
  imports Ingest_Log Redis_KV Score
begin

text \<open>
  The synchronous front of the write path, \<open>pkg/ingest\<close>: deduplication (\<open>dedup.go\<close>), the board
  registry (\<open>resolver.go\<close>) and the \<open>Ingestor\<close> (\<open>ingestor.go\<close>). An interface is the record of
  its operations over the state \<open>'w\<close> of the process and its servers.
\<close>

subsection \<open>Deduplication\<close>

record 'w Deduper =
  SeenOrMark :: "string \<Rightarrow> duration \<Rightarrow> ('w, bool) io"
  Unmark :: "string \<Rightarrow> ('w, unit) io"

definition dedup_prefix :: string where
  "dedup_prefix = ''lb:idem:''"

definition rd_SeenOrMark :: "('s, string) kv \<Rightarrow> string \<Rightarrow> duration \<Rightarrow> ('s, bool) io" where
  "rd_SeenOrMark C key ttl = io_bind (io_cmd (SETNX C (dedup_prefix @ key) ''1'' ttl)) (\<lambda>ok. io_ret (\<not> ok))"

definition rd_Unmark :: "('s, string) kv \<Rightarrow> string \<Rightarrow> ('s, unit) io" where
  "rd_Unmark C key = io_bind (io_cmd (KDEL C (dedup_prefix @ key))) (\<lambda>_. io_ret ())"

definition NewRedisDeduper :: "('s, string) kv \<Rightarrow> 's Deduper" where
  "NewRedisDeduper C = \<lparr>SeenOrMark = rd_SeenOrMark C, Unmark = rd_Unmark C\<rparr>"

type_synonym MemDeduper = "string set"

definition md_SeenOrMark :: "string \<Rightarrow> duration \<Rightarrow> (MemDeduper, bool) io" where
  "md_SeenOrMark key ttl seen = (if key \<in> seen then (Inr True, seen) else (Inr False, insert key seen))"

definition md_Unmark :: "string \<Rightarrow> (MemDeduper, unit) io" where
  "md_Unmark key seen = (Inr (), seen - {key})"

definition NewMemDeduper :: MemDeduper where
  "NewMemDeduper = {}"

definition mem_deduper :: "MemDeduper Deduper" where
  "mem_deduper = \<lparr>SeenOrMark = md_SeenOrMark, Unmark = md_Unmark\<rparr>"

definition NoopDeduper :: "'w Deduper" where
  "NoopDeduper = \<lparr>SeenOrMark = (\<lambda>_ _. io_ret False), Unmark = (\<lambda>_. io_ret ())\<rparr>"

text \<open>
  The contract of a deduper: a set of marked keys; \<open>SeenOrMark\<close> tells whether the key was in it and
  puts it there, \<open>Unmark\<close> takes it out.
\<close>

locale deduper =
  fixes dd :: "'w Deduper" and marks :: "'w \<Rightarrow> string set" and dok :: "'w \<Rightarrow> bool"
  assumes seen: "dok w \<Longrightarrow> key \<in> marks w \<Longrightarrow> SeenOrMark dd key d w = (Inr True, w)"
    and fresh: "dok w \<Longrightarrow> key \<notin> marks w \<Longrightarrow>
        \<exists>w'. SeenOrMark dd key d w = (Inr False, w') \<and> dok w' \<and> marks w' = insert key (marks w)"
    and unmark: "dok w \<Longrightarrow> \<exists>w'. Unmark dd key w = (Inr (), w') \<and> dok w' \<and> marks w' = marks w - {key}"

interpretation mem_dedup: deduper mem_deduper "\<lambda>seen. seen" "\<lambda>_. True"
  by unfold_locales (simp_all add: mem_deduper_def md_SeenOrMark_def md_Unmark_def)

text \<open>The Redis deduper keeps the contract on every server that keeps its own.\<close>

lemma redis_deduper:
  fixes C :: "('s, string) kv"
  assumes "redis_kv C kks"
  shows "deduper (NewRedisDeduper C) (\<lambda>s. {key. kks s (dedup_prefix @ key) \<noteq> VNone}) (\<lambda>_. True)"
proof -
  note d = redis_kv.SETNX [OF assms] redis_kv.KDEL [OF assms]
  show ?thesis
  proof unfold_locales
    fix w key ttl assume "key \<in> {key. kks w (dedup_prefix @ key) \<noteq> VNone}"
    then show "SeenOrMark (NewRedisDeduper C) key ttl w = (Inr True, w)"
      using d(3) by (simp add: NewRedisDeduper_def rd_SeenOrMark_def io_simps)
  next
    fix w key ttl assume "key \<notin> {key. kks w (dedup_prefix @ key) \<noteq> VNone}"
    then have "kks w (dedup_prefix @ key) = VNone" by simp
    from d(1,2) [OF this, of "''1''" ttl] obtain w' where
      "SETNX C (dedup_prefix @ key) ''1'' ttl w = (Reply True, w')" "kks w' = (kks w)(dedup_prefix @ key := VStr ''1'')"
      by (metis prod.collapse)
    then show "\<exists>w'. SeenOrMark (NewRedisDeduper C) key ttl w = (Inr False, w') \<and> True \<and>
        {key. kks w' (dedup_prefix @ key) \<noteq> VNone} = insert key {key. kks w (dedup_prefix @ key) \<noteq> VNone}"
      by (auto simp: NewRedisDeduper_def rd_SeenOrMark_def io_simps)
  next
    fix w key
    from d(4,5) [of "dedup_prefix @ key" w] obtain w' n where
      "KDEL C (dedup_prefix @ key) w = (Reply n, w')" "kks w' = (kks w)(dedup_prefix @ key := VNone)"
      by (metis prod.collapse)
    then show "\<exists>w'. Unmark (NewRedisDeduper C) key w = (Inr (), w') \<and> True \<and>
        {key. kks w' (dedup_prefix @ key) \<noteq> VNone} = {key. kks w (dedup_prefix @ key) \<noteq> VNone} - {key}"
      by (auto simp: NewRedisDeduper_def rd_Unmark_def io_simps)
  qed
qed

interpretation redis_dedup: deduper "NewRedisDeduper mem_kv" "\<lambda>s. {key. mem_kks s (dedup_prefix @ key) \<noteq> VNone}" "\<lambda>_. True"
  by (rule redis_deduper [OF mem_kv.redis_kv_axioms])

subsection \<open>Registry\<close>

type_synonym StaticRegistry = "string \<rightharpoonup> LogicalBoard"

definition NewStaticRegistry :: StaticRegistry where
  "NewStaticRegistry = Map.empty"

definition regKey :: "string \<Rightarrow> string \<Rightarrow> string" where
  "regKey app board = app @ CHR 0x00 # board"

definition Register :: "LogicalBoard \<Rightarrow> StaticRegistry \<Rightarrow> StaticRegistry" where
  "Register lb m = m(regKey (LApp lb) (LBoard lb) \<mapsto> lb)"

definition reg_Resolve :: "StaticRegistry \<Rightarrow> string \<Rightarrow> string \<Rightarrow> LogicalBoard option" where
  "reg_Resolve m app board = m (regKey app board)"

text \<open>
  A resolver answers with a board of the name that was asked for. The registry does for app ids
  without a zero byte (ids are minted by the tenant store from hex digits).
\<close>

type_synonym resolver = "string \<Rightarrow> string \<Rightarrow> LogicalBoard option"

definition nul_free :: "string \<Rightarrow> bool" where
  "nul_free s \<longleftrightarrow> CHR 0x00 \<notin> set s"

definition resolver_ok :: "resolver \<Rightarrow> bool" where
  "resolver_ok rs \<longleftrightarrow> (\<forall>app board lb. nul_free app \<and> rs app board = Some lb \<longrightarrow> LApp lb = app \<and> LBoard lb = board)"

lemma regKey_inject: "nul_free a \<Longrightarrow> nul_free a' \<Longrightarrow> regKey a b = regKey a' b' \<longleftrightarrow> a = a' \<and> b = b'"
proof (induction a arbitrary: a')
  case Nil
  then show ?case by (cases a') (auto simp: regKey_def nul_free_def)
next
  case (Cons c a)
  then show ?case by (cases a') (auto simp: regKey_def nul_free_def)
qed

definition registry_ok :: "StaticRegistry \<Rightarrow> bool" where
  "registry_ok m \<longleftrightarrow> (\<forall>k lb. m k = Some lb \<longrightarrow> k = regKey (LApp lb) (LBoard lb) \<and> nul_free (LApp lb))"

lemma registry_ok_New [simp]: "registry_ok NewStaticRegistry"
  by (simp add: registry_ok_def NewStaticRegistry_def)

lemma registry_ok_Register: "registry_ok m \<Longrightarrow> nul_free (LApp lb) \<Longrightarrow> registry_ok (Register lb m)"
  by (auto simp: registry_ok_def Register_def)

lemma Resolve_Register:
  assumes "nul_free (LApp lb)" "nul_free app"
  shows "reg_Resolve (Register lb m) app board = (if app = LApp lb \<and> board = LBoard lb then Some lb else reg_Resolve m app board)"
  using regKey_inject [OF assms(2,1), of board "LBoard lb"] by (auto simp: reg_Resolve_def Register_def)

lemma registry_resolves: "registry_ok m \<Longrightarrow> resolver_ok (reg_Resolve m)"
  by (auto simp: registry_ok_def resolver_ok_def reg_Resolve_def) (metis regKey_inject)+

subsection \<open>Ingestor\<close>

record 'w Ingestor =
  ilog :: "'w Log"
  iresolver :: resolver
  ideduper :: "'w Deduper"
  dedupTTL :: duration

definition NewIngestor :: "'w Log \<Rightarrow> resolver \<Rightarrow> 'w Deduper option \<Rightarrow> 'w Ingestor" where
  "NewIngestor lg rs dd = \<lparr>ilog = lg, iresolver = rs,
     ideduper = (case dd of None \<Rightarrow> NoopDeduper | Some d \<Rightarrow> d), dedupTTL = 24 * 3600 * second\<rparr>"

definition idem_key :: "Record \<Rightarrow> string" where
  "idem_key rec = RApp rec @ '':'' @ Idem rec"

text \<open>\<open>now\<close> is the reading of the clock where the code calls it.\<close>

definition stamp :: "gotime \<Rightarrow> Record \<Rightarrow> Record" where
  "stamp now rec = (if is_zero (RTime rec) then rec\<lparr>RTime := now\<rparr> else rec)"

text \<open>An error of \<open>Unmark\<close> is dropped.\<close>

definition ing_Submit :: "'w Ingestor \<Rightarrow> gotime \<Rightarrow> Record \<Rightarrow> ('w, bool) io" where
  "ing_Submit i now rec w =
     (case iresolver i (RApp rec) (RBoard rec) of None \<Rightarrow> (Inl ErrUnknownBoard, w)
      | Some _ \<Rightarrow>
        (let rec = stamp now rec in
         case (if Idem rec \<noteq> '''' then SeenOrMark (ideduper i) (idem_key rec) (dedupTTL i) w else (Inr False, w)) of
           (Inl e, w1) \<Rightarrow> (Inl e, w1)
         | (Inr True, w1) \<Rightarrow> (Inr False, w1)
         | (Inr False, w1) \<Rightarrow>
             (case Append (ilog i) rec w1 of
                (Inl e, w2) \<Rightarrow> (Inl e, if Idem rec \<noteq> '''' then snd (Unmark (ideduper i) (idem_key rec) w2) else w2)
              | (Inr _, w2) \<Rightarrow> (Inr True, w2))))"

definition ing_Remove :: "'w Ingestor \<Rightarrow> gotime \<Rightarrow> Record \<Rightarrow> ('w, unit) io" where
  "ing_Remove i now rec w =
     (case iresolver i (RApp rec) (RBoard rec) of None \<Rightarrow> (Inl ErrUnknownBoard, w)
      | Some _ \<Rightarrow> io_bind (Append (ilog i) (stamp now (rec\<lparr>Op := OpRemove\<rparr>))) (\<lambda>_. io_ret ()) w)"

lemma stamp_sel [simp]: "Idem (stamp now rec) = Idem rec" "idem_key (stamp now rec) = idem_key rec"
  "route n (stamp now rec) = route n rec" "utf8_rec (stamp now rec) = utf8_rec rec"
  by (simp_all add: stamp_def idem_key_def route_def utf8_rec_def)

subsection \<open>The contract of the front\<close>

text \<open>A log and a deduper that do not disturb each other.\<close>

locale ingest_front = event_log lg recs lok + deduper dd marks dok
  for lg :: "'w Log" and recs lok and dd :: "'w Deduper" and marks dok +
  assumes append_frame: "lok w \<Longrightarrow> dok w \<Longrightarrow> Append lg rec w = (r, w') \<Longrightarrow> dok w' \<and> marks w' = marks w"
    and mark_frame: "lok w \<Longrightarrow> dok w \<Longrightarrow> SeenOrMark dd key d w = (b, w') \<Longrightarrow> lok w' \<and> recs w' = recs w"
    and unmark_frame: "lok w \<Longrightarrow> dok w \<Longrightarrow> Unmark dd key w = (u, w') \<Longrightarrow> lok w' \<and> recs w' = recs w"
begin

text \<open>What a submission to a registered board does, for each of its outcomes.\<close>

definition outcome :: "Record \<Rightarrow> 'w \<Rightarrow> (err + bool) \<Rightarrow> 'w \<Rightarrow> bool" where
  "outcome rec w res w' \<longleftrightarrow> lok w' \<and> dok w' \<and>
     (case res of
        Inr True \<Rightarrow> (Idem rec \<noteq> '''' \<longrightarrow> idem_key rec \<notin> marks w) \<and>
          (\<exists>i. recs w' = (recs w)(route (Partitions lg) rec := recs w (route (Partitions lg) rec) @ [rec\<lparr>ID := i\<rparr>])) \<and>
          marks w' = (if Idem rec = '''' then marks w else insert (idem_key rec) (marks w))
      | Inr False \<Rightarrow> Idem rec \<noteq> '''' \<and> idem_key rec \<in> marks w \<and> w' = w
      | Inl e \<Rightarrow> recs w' = recs w \<and> marks w' = marks w)"

lemma append_outcome:
  assumes "utf8_rec rec" "lok w" "dok w" "lok w1" "dok w1" "recs w1 = recs w"
    "marks w1 = (if Idem rec = '''' then marks w else insert (idem_key rec) (marks w))"
    "Idem rec \<noteq> '''' \<Longrightarrow> idem_key rec \<notin> marks w"
    "(case Append lg rec w1 of
        (Inl e, w2) \<Rightarrow> (Inl e, if Idem rec \<noteq> '''' then snd (Unmark dd (idem_key rec) w2) else w2)
      | (Inr _, w2) \<Rightarrow> (Inr True, w2)) = (res, w')"
  shows "outcome rec w res w'"
proof (cases "Append lg rec w1")
  case (Pair r w2)
  note fr = append_frame [OF assms(4,5) Pair]
  show ?thesis
  proof (cases r)
    case (Inr rec')
    with append_ok [OF assms(4,1)] Pair have "lok w2" "\<exists>i. rec' = rec\<lparr>ID := i\<rparr>"
      "recs w2 = (recs w1)(route (Partitions lg) rec := recs w1 (route (Partitions lg) rec) @ [rec'])" by auto
    with fr assms Pair Inr show ?thesis by (auto simp: outcome_def)
  next
    case (Inl e)
    with append_err [OF assms(4)] Pair have k: "lok w2" "recs w2 = recs w1" by auto
    show ?thesis
    proof (cases "Idem rec = ''''")
      case True
      with k fr assms Pair Inl show ?thesis by (auto simp: outcome_def)
    next
      case False
      obtain w3 where u: "Unmark dd (idem_key rec) w2 = (Inr (), w3)" "dok w3" "marks w3 = marks w2 - {idem_key rec}"
        using unmark [of w2] fr by blast
      note uf = unmark_frame [OF k(1) _ u(1)]
      have "marks w3 = marks w" using u(3) fr assms(7,8) False by auto
      with False k fr uf u assms Pair Inl show ?thesis by (auto simp: outcome_def)
    qed
  qed
qed

lemma ing_Submit_outcome:
  assumes "lok w" "dok w" "utf8_rec rec" "ilog i = lg" "ideduper i = dd" "iresolver i (RApp rec) (RBoard rec) \<noteq> None"
    "ing_Submit i now rec w = (res, w')"
  shows "outcome (stamp now rec) w res w'"
proof (cases "Idem rec = ''''")
  case True
  show ?thesis by (rule append_outcome [OF _ assms(1,2,1,2) refl]) (use True assms in \<open>auto simp: ing_Submit_def Let_def\<close>)
next
  case False
  show ?thesis
  proof (cases "idem_key rec \<in> marks w")
    case True
    with seen [OF assms(2) True] False assms show ?thesis by (auto simp: ing_Submit_def Let_def outcome_def)
  next
    case fresh_key: False
    obtain w1 where w1: "SeenOrMark dd (idem_key rec) (dedupTTL i) w = (Inr False, w1)" "dok w1" "marks w1 = insert (idem_key rec) (marks w)"
      using fresh [OF assms(2) fresh_key] by blast
    note f1 = mark_frame [OF assms(1,2) w1(1)]
    show ?thesis
      by (rule append_outcome [OF _ assms(1,2) conjunct1 [OF f1] w1(2) conjunct2 [OF f1]])
        (use w1 False fresh_key assms in \<open>auto simp: ing_Submit_def Let_def\<close>)
  qed
qed

lemma ing_Submit_seen:
  assumes "dok w" "ideduper i = dd" "iresolver i (RApp rec) (RBoard rec) \<noteq> None" "Idem rec \<noteq> ''''" "idem_key rec \<in> marks w"
  shows "ing_Submit i now rec w = (Inr False, w)"
  using seen [OF assms(1,5)] assms by (auto simp: ing_Submit_def Let_def)

end

subsection \<open>Composition of states\<close>

text \<open>Operations on one component of a pair of states.\<close>

definition on_fst :: "('a, 'x) io \<Rightarrow> ('a \<times> 'b, 'x) io" where
  "on_fst m = (\<lambda>(a, b). case m a of (r, a') \<Rightarrow> (r, (a', b)))"

definition on_snd :: "('b, 'x) io \<Rightarrow> ('a \<times> 'b, 'x) io" where
  "on_snd m = (\<lambda>(a, b). case m b of (r, b') \<Rightarrow> (r, (a, b')))"

definition log_fst :: "'a Log \<Rightarrow> ('a \<times> 'b) Log" where
  "log_fst l = \<lparr>Append = (\<lambda>rec. on_fst (Append l rec)), Partitions = Partitions l,
     ReadPartition = (\<lambda>p c k. on_fst (ReadPartition l p c k))\<rparr>"

definition dedup_snd :: "'b Deduper \<Rightarrow> ('a \<times> 'b) Deduper" where
  "dedup_snd d = \<lparr>SeenOrMark = (\<lambda>key t. on_snd (SeenOrMark d key t)), Unmark = (\<lambda>key. on_snd (Unmark d key))\<rparr>"

lemma on_fst_eq: "on_fst m w = (r, w') \<longleftrightarrow> m (fst w) = (r, fst w') \<and> snd w' = snd w"
  by (cases w; cases w') (auto simp: on_fst_def split: prod.splits)

lemma on_snd_eq: "on_snd m w = (r, w') \<longleftrightarrow> m (snd w) = (r, snd w') \<and> fst w' = fst w"
  by (cases w; cases w') (auto simp: on_snd_def split: prod.splits)

lemma event_log_fst:
  assumes "event_log l recs lok"
  shows "event_log (log_fst l) (\<lambda>w. recs (fst w)) (\<lambda>w. lok (fst w))"
proof -
  note d = event_log.append_ok [OF assms] event_log.append_err [OF assms] event_log.routed [OF assms]
    event_log.in_range [OF assms] event_log.read [OF assms] event_log.partitions [OF assms]
  show ?thesis
  proof unfold_locales
    fix w rec rec' w' assume "lok (fst w)" "utf8_rec rec" "Append (log_fst l) rec w = (Inr rec', w')"
    then show "lok (fst w') \<and> (\<exists>i. rec' = rec\<lparr>ID := i\<rparr>) \<and> recs (fst w') =
        (recs (fst w))(route (Partitions (log_fst l)) rec := recs (fst w) (route (Partitions (log_fst l)) rec) @ [rec'])"
      using d(1) [of "fst w" rec rec' "fst w'"] by (simp add: log_fst_def on_fst_eq)
  next
    fix w rec e w' assume "lok (fst w)" "Append (log_fst l) rec w = (Inl e, w')"
    then show "lok (fst w') \<and> recs (fst w') = recs (fst w)"
      using d(2) [of "fst w" rec e "fst w'"] by (simp add: log_fst_def on_fst_eq)
  qed (use d(3-6) in \<open>simp_all add: log_fst_def on_fst_eq\<close>)
qed

lemma deduper_snd:
  assumes "deduper d marks dok"
  shows "deduper (dedup_snd d) (\<lambda>w. marks (snd w)) (\<lambda>w. dok (snd w))"
proof -
  note d = deduper.seen [OF assms] deduper.fresh [OF assms] deduper.unmark [OF assms]
  show ?thesis
    by unfold_locales (use d in \<open>fastforce simp: dedup_snd_def on_snd_eq\<close>)+
qed

lemma ingest_front_pair:
  assumes "event_log l recs lok" "deduper d marks dok"
  shows "ingest_front (log_fst l) (\<lambda>w. recs (fst w)) (\<lambda>w. lok (fst w)) (dedup_snd d) (\<lambda>w. marks (snd w)) (\<lambda>w. dok (snd w))"
  by (intro ingest_front.intro event_log_fst deduper_snd assms ingest_front_axioms.intro)
    (auto simp: log_fst_def dedup_snd_def on_fst_eq on_snd_eq)

interpretation mem_front: ingest_front "log_fst mem_log" "\<lambda>w. mem_recs (fst w)" "\<lambda>w. mem_wf (fst w)"
  "dedup_snd (NewRedisDeduper mem_kv)" "\<lambda>w. {key. mem_kks (snd w) (dedup_prefix @ key) \<noteq> VNone}" "\<lambda>_. True"
  by (rule ingest_front_pair [OF mem_events.event_log_axioms redis_dedup.deduper_axioms])

subsection \<open>Properties\<close>


definition demo_board2 :: LogicalBoard where
  "demo_board2 = \<lparr>LApp = ''app1'', LBoard = ''kills'', LConfig = cfg_first, Windows = []\<rparr>"

definition demo_rec :: Record where
  "demo_rec = \<lparr>ID = '''', RApp = ''app1'', RBoard = ''kills'', RMember = ''al'', RScore = 7, RTime = t2024,
     RSegments = [], Idem = ''i1'', Op = ''''\<rparr>"

definition demo_ing :: "(MemLog \<times> string kmem) Ingestor" where
  "demo_ing = NewIngestor (log_fst mem_log) (reg_Resolve (Register demo_board2 NewStaticRegistry))
     (Some (dedup_snd (NewRedisDeduper mem_kv)))"

lemma demo_ing_sel: "ilog demo_ing = log_fst mem_log" "ideduper demo_ing = dedup_snd (NewRedisDeduper mem_kv)"
  "iresolver demo_ing ''app1'' ''kills'' = Some demo_board2"
  by (simp_all add: demo_ing_def NewIngestor_def reg_Resolve_def Register_def demo_board2_def)

lemma demo_utf8: "utf8_rec demo_rec"
  by code_simp

lemma demo_submit: "ing_Submit demo_ing t2024 demo_rec ([], []) =
    (Inr True, ([demo_rec\<lparr>ID := mem_id 0\<rparr>], [(''lb:idem:app1:i1'', KStr ''1'')]))"
  by code_simp


text \<open>
  Retries are idempotent: once a submission with an idempotency key was accepted, every later
  submission of that app with the key (whatever else it carries) to a registered board is answered
  as a duplicate, and the log and all marks stay as they are.
\<close>

theorem ingest_retry_once:
  assumes "ingest_front lg recs lok dd marks dok" "lok w" "dok w" "utf8_rec rec" "ilog i = lg" "ideduper i = dd"
    "ing_Submit i now rec w = (Inr True, w')" "Idem rec \<noteq> ''''"
    and "RApp rec' = RApp rec" "Idem rec' = Idem rec" "iresolver i (RApp rec') (RBoard rec') \<noteq> None"
  shows "ing_Submit i now' rec' w' = (Inr False, w')"
proof -
  have "iresolver i (RApp rec) (RBoard rec) \<noteq> None"
    using assms(7) by (cases "iresolver i (RApp rec) (RBoard rec)") (simp_all add: ing_Submit_def)
  then have "ingest_front.outcome lg recs lok marks dok (stamp now rec) w (Inr True) w'"
    by (intro ingest_front.ing_Submit_outcome [OF assms(1-6) _ assms(7)])
  then have "dok w'" "idem_key rec \<in> marks w'"
    unfolding ingest_front.outcome_def [OF assms(1)] stamp_sel using assms(8) by simp_all
  moreover have "idem_key rec' = idem_key rec" "Idem rec' \<noteq> ''''" using assms(8-10) by (simp_all add: idem_key_def)
  ultimately show ?thesis by (intro ingest_front.ing_Submit_seen [OF assms(1) _ assms(6,11)]) simp_all
qed

theorem ingest_retry_once_witness:
  "ing_Submit demo_ing t2024 (demo_rec\<lparr>RScore := 9\<rparr>) ([demo_rec\<lparr>ID := mem_id 0\<rparr>], [(''lb:idem:app1:i1'', KStr ''1'')]) =
     (Inr False, ([demo_rec\<lparr>ID := mem_id 0\<rparr>], [(''lb:idem:app1:i1'', KStr ''1'')]))"
  by (rule ingest_retry_once [OF mem_front.ingest_front_axioms _ _ demo_utf8 demo_ing_sel(1,2) demo_submit])
    (simp_all add: demo_rec_def demo_ing_sel mem_wf_def)

end
