(* ===== verification/Consumer.thy ===== *)
theory Consumer
  imports Ingest Sharded_Engine
begin

text \<open>
  The projection of the log onto the ranking engine, \<open>pkg/ingest/consumer.go\<close>, over the interface
  \<open>engine.RankingEngine\<close> (\<open>pkg/engine/engine.go\<close>). The locale \<open>projection\<close> states what the consumer
  needs of a log and an engine; in it, draining the log is shown to give every member of every
  board the value that the member's own records produce in log order, however the log is
  partitioned and cut into batches.
\<close>

subsection \<open>The engine interface\<close>

record 'w RankingEngine =
  e_Submit :: "Board \<Rightarrow> string \<Rightarrow> rat \<Rightarrow> gotime \<Rightarrow> ('w, SubmitResult) io"
  e_SubmitBatch :: "SubmitOp list \<Rightarrow> ('w, SubmitResult list) io"
  e_GetRank :: "Board \<Rightarrow> string \<Rightarrow> ('w, RankEntry) io"
  e_GetApproxRank :: "Board \<Rightarrow> string \<Rightarrow> ('w, RankEntry) io"
  e_TopN :: "Board \<Rightarrow> int \<Rightarrow> ('w, RankEntry list) io"
  e_Page :: "Board \<Rightarrow> int \<Rightarrow> int \<Rightarrow> ('w, RankEntry list) io"
  e_Neighbors :: "Board \<Rightarrow> string \<Rightarrow> int \<Rightarrow> ('w, RankEntry list) io"
  e_FriendRank :: "Board \<Rightarrow> string list \<Rightarrow> ('w, RankEntry list) io"
  e_Count :: "Board \<Rightarrow> ('w, int) io"
  e_Remove :: "Board \<Rightarrow> string \<Rightarrow> ('w, unit) io"
  e_RemoveFromAll :: "LogicalBoard \<Rightarrow> string \<Rightarrow> ('w, unit) io"
  e_Segments :: "LogicalBoard \<Rightarrow> ('w, string list) io"
  e_Reset :: "Board \<Rightarrow> ('w, unit) io"

text \<open>The two backends; \<open>fuel\<close> bounds the iterations of their scan loops.\<close>

definition redis_engine :: "'s env \<Rightarrow> nat \<Rightarrow> 's RankingEngine" where
  "redis_engine R fuel = \<lparr>e_Submit = Submit R, e_SubmitBatch = SubmitBatch R, e_GetRank = GetRank R,
     e_GetApproxRank = GetApproxRank R, e_TopN = TopN R, e_Page = Page R, e_Neighbors = Neighbors R,
     e_FriendRank = FriendRank R, e_Count = Count R, e_Remove = Remove R,
     e_RemoveFromAll = RemoveFromAll fuel R, e_Segments = Segments fuel R, e_Reset = Reset R\<rparr>"

definition sharded_engine :: "'s env \<Rightarrow> int \<Rightarrow> nat \<Rightarrow> 's RankingEngine" where
  "sharded_engine R n fuel = \<lparr>e_Submit = sh_Submit R n, e_SubmitBatch = sh_SubmitBatch R n, e_GetRank = sh_GetRank R n,
     e_GetApproxRank = sh_GetApproxRank R n, e_TopN = sh_TopN R n, e_Page = sh_Page R n, e_Neighbors = sh_Neighbors R n,
     e_FriendRank = sh_FriendRank R n, e_Count = sh_Count R n, e_Remove = sh_Remove R n,
     e_RemoveFromAll = sh_RemoveFromAll fuel R n, e_Segments = sh_Segments fuel R n, e_Reset = sh_Reset R n\<rparr>"

text \<open>An engine on the second component of the state.\<close>

definition engine_snd :: "'b RankingEngine \<Rightarrow> ('a \<times> 'b) RankingEngine" where
  "engine_snd e = \<lparr>e_Submit = (\<lambda>b m x t. on_snd (e_Submit e b m x t)), e_SubmitBatch = (\<lambda>ops. on_snd (e_SubmitBatch e ops)),
     e_GetRank = (\<lambda>b m. on_snd (e_GetRank e b m)), e_GetApproxRank = (\<lambda>b m. on_snd (e_GetApproxRank e b m)),
     e_TopN = (\<lambda>b n. on_snd (e_TopN e b n)), e_Page = (\<lambda>b a n. on_snd (e_Page e b a n)),
     e_Neighbors = (\<lambda>b m k. on_snd (e_Neighbors e b m k)), e_FriendRank = (\<lambda>b ms. on_snd (e_FriendRank e b ms)),
     e_Count = (\<lambda>b. on_snd (e_Count e b)), e_Remove = (\<lambda>b m. on_snd (e_Remove e b m)),
     e_RemoveFromAll = (\<lambda>lb m. on_snd (e_RemoveFromAll e lb m)), e_Segments = (\<lambda>lb. on_snd (e_Segments e lb)),
     e_Reset = (\<lambda>b. on_snd (e_Reset e b))\<rparr>"

subsection \<open>Applying records\<close>

definition recordToOps :: "LogicalBoard \<Rightarrow> Record \<Rightarrow> SubmitOp list" where
  "recordToOps lb rec =
     map (\<lambda>k. \<lparr>OpBoard = \<lparr>Key = k, Config = LConfig lb\<rparr>, OpMember = RMember rec, OpScore = RScore rec, OpTime = RTime rec\<rparr>)
       (DerivePhysicalBoards lb \<lparr>EMember = RMember rec, EScore = RScore rec, ETime = RTime rec, ESegments = RSegments rec\<rparr>)"

text \<open>The closure \<open>flush\<close>, and the loop with the pending operations.\<close>

definition flush :: "'w RankingEngine \<Rightarrow> SubmitOp list \<Rightarrow> ('w, unit) io" where
  "flush eng ops = (if ops = [] then io_ret () else io_bind (e_SubmitBatch eng ops) (\<lambda>_. io_ret ()))"

fun apply_loop :: "'w RankingEngine \<Rightarrow> resolver \<Rightarrow> SubmitOp list \<Rightarrow> Record list \<Rightarrow> ('w, unit) io" where
  "apply_loop eng rs ops [] = flush eng ops"
| "apply_loop eng rs ops (rec # recs) =
     (case rs (RApp rec) (RBoard rec) of
        None \<Rightarrow> apply_loop eng rs ops recs
      | Some lb \<Rightarrow>
          if Op rec = OpRemove
          then io_bind (flush eng ops) (\<lambda>_. io_bind (e_RemoveFromAll eng lb (RMember rec)) (\<lambda>_. apply_loop eng rs [] recs))
          else apply_loop eng rs (ops @ recordToOps lb rec) recs)"

definition applyRecords :: "'w RankingEngine \<Rightarrow> resolver \<Rightarrow> Record list \<Rightarrow> ('w, unit) io" where
  "applyRecords eng rs recs = apply_loop eng rs [] recs"

subsection \<open>The consumer\<close>

record 'w Consumer =
  clog :: "'w Log"
  cresolver :: resolver
  ceng :: "'w RankingEngine"
  cbatch :: int
  cursors :: "int \<Rightarrow> string"

definition NewConsumer :: "'w Log \<Rightarrow> resolver \<Rightarrow> 'w RankingEngine \<Rightarrow> 'w Consumer" where
  "NewConsumer lg rs eng = \<lparr>clog = lg, cresolver = rs, ceng = eng, cbatch = 256, cursors = (\<lambda>_. '''')\<rparr>"

fun step_loop :: "'w Consumer \<Rightarrow> int list \<Rightarrow> int \<Rightarrow> 'w \<Rightarrow> (int \<times> err option) \<times> 'w Consumer \<times> 'w" where
  "step_loop c [] done w = ((done, None), c, w)"
| "step_loop c (p # ps) done w =
     (case ReadPartition (clog c) p (cursors c p) (cbatch c) w of
        (Inl e, w1) \<Rightarrow> ((done, Some e), c, w1)
      | (Inr recs, w1) \<Rightarrow>
          if recs = [] then step_loop c ps done w1
          else (case applyRecords (ceng c) (cresolver c) recs w1 of
              (Inl e, w2) \<Rightarrow> ((done, Some e), c, w2)
            | (Inr _, w2) \<Rightarrow>
                step_loop (c\<lparr>cursors := (cursors c)(p := ID (last recs))\<rparr>) ps (done + int (length recs)) w2))"

definition Step :: "'w Consumer \<Rightarrow> 'w \<Rightarrow> (int \<times> err option) \<times> 'w Consumer \<times> 'w" where
  "Step c w = step_loop c [0..Partitions (clog c) - 1] 0 w"

fun Drain :: "nat \<Rightarrow> 'w Consumer \<Rightarrow> 'w \<Rightarrow> err option \<times> 'w Consumer \<times> 'w" where
  "Drain 0 c w = (Some OutOfFuel, c, w)"
| "Drain (Suc fuel) c w =
     (case Step c w of
        ((n, Some e), c1, w1) \<Rightarrow> (Some e, c1, w1)
      | ((n, None), c1, w1) \<Rightarrow> if n = 0 then (None, c1, w1) else Drain fuel c1 w1)"

text \<open>
  \<open>Run\<close>: each turn of the loop is given by the state of the context at its head and at the wait
  of an idle turn (\<open>Some e\<close> when cancelled). The result \<open>None\<close> is a consumer still running.
\<close>

fun c_Run :: "(string option \<times> string option) list \<Rightarrow> 'w Consumer \<Rightarrow> 'w \<Rightarrow> err option \<times> 'w Consumer \<times> 'w" where
  "c_Run [] c w = (None, c, w)"
| "c_Run ((head, idle) # turns) c w =
     (case head of Some e \<Rightarrow> (Some (CtxErr e), c, w)
      | None \<Rightarrow>
        (case Step c w of
           ((n, Some e), c1, w1) \<Rightarrow> (Some e, c1, w1)
         | ((n, None), c1, w1) \<Rightarrow>
             if n = 0 then (case idle of Some e \<Rightarrow> (Some (CtxErr e), c1, w1) | None \<Rightarrow> c_Run turns c1 w1)
             else c_Run turns c1 w1))"

definition Rebuild :: "nat \<Rightarrow> 'w Log \<Rightarrow> resolver \<Rightarrow> 'w RankingEngine \<Rightarrow> 'w \<Rightarrow> err option \<times> 'w" where
  "Rebuild fuel lg rs eng w = (case Drain fuel (NewConsumer lg rs eng) w of (e, c, w') \<Rightarrow> (e, w'))"

subsection \<open>What a record does\<close>

text \<open>
  The entries of all boards as a function of board key and member. An operation sets one entry
  from its old value; a removal clears the member's entries on the boards of a logical board.
\<close>

type_synonym entries = "BoardKey \<Rightarrow> string \<Rightarrow> rat option"

definition put_op :: "(SubmitOp \<Rightarrow> rat option \<Rightarrow> rat) \<Rightarrow> SubmitOp \<Rightarrow> entries \<Rightarrow> entries" where
  "put_op upd op E = (\<lambda>k m. if norm_key k = norm_key (Key (OpBoard op)) \<and> m = OpMember op
     then Some (upd op (E k m)) else E k m)"

definition drop_member :: "LogicalBoard \<Rightarrow> string \<Rightarrow> entries \<Rightarrow> entries" where
  "drop_member lb m E = (\<lambda>k m'. if App k = LApp lb \<and> BoardName k = LBoard lb \<and> m' = m then None else E k m')"

definition rec_eff :: "(SubmitOp \<Rightarrow> rat option \<Rightarrow> rat) \<Rightarrow> resolver \<Rightarrow> Record \<Rightarrow> entries \<Rightarrow> entries" where
  "rec_eff upd rs rec E = (case rs (RApp rec) (RBoard rec) of None \<Rightarrow> E
     | Some lb \<Rightarrow> if Op rec = OpRemove then drop_member lb (RMember rec) E
         else fold (put_op upd) (recordToOps lb rec) E)"

text \<open>The records of one member of one board, and the value they leave it with.\<close>

definition touches :: "BoardKey \<Rightarrow> string \<Rightarrow> Record \<Rightarrow> bool" where
  "touches k m rec \<longleftrightarrow> RApp rec = App k \<and> RBoard rec = BoardName k \<and> RMember rec = m"

definition replay :: "(SubmitOp \<Rightarrow> rat option \<Rightarrow> rat) \<Rightarrow> resolver \<Rightarrow> BoardKey \<Rightarrow> string \<Rightarrow> Record list \<Rightarrow> rat option \<Rightarrow> rat option" where
  "replay upd rs k m recs v = fold (\<lambda>rec v. rec_eff upd rs rec (\<lambda>_ _. v) k m) (filter (touches k m) recs) v"

lemma replay_append: "replay upd rs k m (xs @ ys) v = replay upd rs k m ys (replay upd rs k m xs v)"
  by (simp add: replay_def)

lemma put_ops_local: "E k m = E' k m \<Longrightarrow> fold (put_op upd) ops E k m = fold (put_op upd) ops E' k m"
proof (induction ops arbitrary: E E')
  case (Cons op ops)
  have "put_op upd op E k m = put_op upd op E' k m" unfolding put_op_def Cons.prems ..
  then show ?case unfolding fold_Cons comp_apply by (rule Cons.IH)
qed simp

lemma rec_eff_cases:
  "rs (RApp rec) (RBoard rec) = None \<Longrightarrow> rec_eff upd rs rec E = E"
  "rs (RApp rec) (RBoard rec) = Some lb \<Longrightarrow> Op rec = OpRemove \<Longrightarrow> rec_eff upd rs rec E = drop_member lb (RMember rec) E"
  "rs (RApp rec) (RBoard rec) = Some lb \<Longrightarrow> Op rec \<noteq> OpRemove \<Longrightarrow> rec_eff upd rs rec E = fold (put_op upd) (recordToOps lb rec) E"
  by (simp_all add: rec_eff_def)

lemma rec_eff_local:
  assumes "E k m = E' k m"
  shows "rec_eff upd rs rec E k m = rec_eff upd rs rec E' k m"
proof (cases "rs (RApp rec) (RBoard rec)")
  case (Some lb)
  then show ?thesis
    using put_ops_local [of E k m E' upd "recordToOps lb rec", OF assms]
    by (cases "Op rec = OpRemove") (simp_all add: rec_eff_cases drop_member_def assms)
qed (simp add: rec_eff_cases assms)

lemma recordToOps_sel:
  "op \<in> set (recordToOps lb rec) \<Longrightarrow> OpMember op = RMember rec \<and> App (Key (OpBoard op)) = LApp lb \<and>
     BoardName (Key (OpBoard op)) = LBoard lb \<and> Config (OpBoard op) = LConfig lb \<and> OpScore op = RScore rec \<and> OpTime op = RTime rec"
  by (auto simp: recordToOps_def dest: DerivePhysicalBoards_logical)

lemma put_ops_other:
  "(\<And>op. op \<in> set ops \<Longrightarrow> \<not> (norm_key k = norm_key (Key (OpBoard op)) \<and> m = OpMember op)) \<Longrightarrow>
     fold (put_op upd) ops E k m = E k m"
  by (induction ops arbitrary: E) (auto simp: put_op_def)

lemma norm_key_names: "norm_key k = norm_key k' \<Longrightarrow> App k = App k' \<and> BoardName k = BoardName k'"
  by (metis norm_key_sel(1,2))

lemma rec_eff_other:
  assumes "resolver_ok rs" "nul_free (RApp rec)" "\<not> touches k m rec"
  shows "rec_eff upd rs rec E k m = E k m"
proof (cases "rs (RApp rec) (RBoard rec)")
  case (Some lb)
  then have lb: "LApp lb = RApp rec" "LBoard lb = RBoard rec" using assms(1,2) by (auto simp: resolver_ok_def)
  have "fold (put_op upd) (recordToOps lb rec) E k m = E k m"
    by (rule put_ops_other) (use assms(3) lb in \<open>auto simp: touches_def dest!: recordToOps_sel norm_key_names\<close>)
  then show ?thesis using Some lb assms(3)
    by (cases "Op rec = OpRemove") (auto simp: rec_eff_cases drop_member_def touches_def)
qed (simp add: rec_eff_cases)

lemma fold_rec_eff:
  assumes "resolver_ok rs" "\<And>rec. rec \<in> set recs \<Longrightarrow> nul_free (RApp rec)"
  shows "fold (rec_eff upd rs) recs E k m = replay upd rs k m recs (E k m)"
  using assms(2)
proof (induction recs arbitrary: E)
  case (Cons rec recs)
  have "rec_eff upd rs rec E k m = (if touches k m rec then rec_eff upd rs rec (\<lambda>_ _. E k m) k m else E k m)"
    using rec_eff_other [OF assms(1)] Cons.prems rec_eff_local [of E k m "\<lambda>_ _. E k m"] by simp
  with Cons show ?case by (simp add: replay_def)
qed (simp add: replay_def)

text \<open>
  The number of operations a record fans out to; the records an engine accepts that takes the
  operations \<open>op_ok\<close> and removals from \<open>lb_ok\<close>; and what is left of a log of \<open>N\<close> partitions to
  a reader at position \<open>c p\<close> of partition \<open>p\<close>, in records and in operations.
\<close>

definition rec_cost :: "resolver \<Rightarrow> Record \<Rightarrow> nat" where
  "rec_cost rs rec = (case rs (RApp rec) (RBoard rec) of None \<Rightarrow> 0
     | Some lb \<Rightarrow> if Op rec = OpRemove then 0 else length (recordToOps lb rec))"

definition rec_ok :: "(SubmitOp \<Rightarrow> bool) \<Rightarrow> (LogicalBoard \<Rightarrow> bool) \<Rightarrow> resolver \<Rightarrow> Record \<Rightarrow> bool" where
  "rec_ok op_ok lb_ok rs rec \<longleftrightarrow> nul_free (RApp rec) \<and> (\<forall>lb. rs (RApp rec) (RBoard rec) = Some lb \<longrightarrow>
     (if Op rec = OpRemove then lb_ok lb else (\<forall>op \<in> set (recordToOps lb rec). op_ok op)))"

definition log_ok :: "(SubmitOp \<Rightarrow> bool) \<Rightarrow> (LogicalBoard \<Rightarrow> bool) \<Rightarrow> resolver \<Rightarrow> (int \<Rightarrow> Record list) \<Rightarrow> bool" where
  "log_ok op_ok lb_ok rs L \<longleftrightarrow> resolver_ok rs \<and> (\<forall>p. int (length (L p)) < 2 ^ 62) \<and> (\<forall>p. \<forall>rec \<in> set (L p). rec_ok op_ok lb_ok rs rec)"

definition left :: "int \<Rightarrow> (int \<Rightarrow> Record list) \<Rightarrow> (int \<Rightarrow> nat) \<Rightarrow> nat" where
  "left N L c = (\<Sum>p \<in> {0..<N}. length (L p) - c p)"

definition todo :: "int \<Rightarrow> resolver \<Rightarrow> (int \<Rightarrow> Record list) \<Rightarrow> (int \<Rightarrow> nat) \<Rightarrow> nat" where
  "todo N rs L c = (\<Sum>p \<in> {0..<N}. sum_list (map (rec_cost rs) (drop (c p) (L p))))"

subsection \<open>The contract of a projection\<close>

text \<open>
  An engine keeps entries and answers a batch of acceptable operations by setting them one after
  the other, and a removal by clearing the member. \<open>ok n\<close> is the engine's own invariant, with room
  for \<open>n\<close> more operations. Neither touches the log.
\<close>

locale projection = event_log lg recs lok for lg :: "'w Log" and recs lok +
  fixes eng :: "nat \<Rightarrow> 'w RankingEngine" and entry :: "'w \<Rightarrow> entries" and ok :: "nat \<Rightarrow> 'w \<Rightarrow> bool"
    and upd :: "SubmitOp \<Rightarrow> rat option \<Rightarrow> rat" and op_ok :: "SubmitOp \<Rightarrow> bool" and lb_ok :: "LogicalBoard \<Rightarrow> bool"
  assumes batch: "lok w \<Longrightarrow> ok (length ops + n) w \<Longrightarrow> \<forall>op \<in> set ops. op_ok op \<Longrightarrow>
      \<exists>rs w'. (\<forall>fuel. e_SubmitBatch (eng fuel) ops w = (Inr rs, w')) \<and> lok w' \<and> ok n w' \<and> recs w' = recs w \<and>
        entry w' = fold (put_op upd) ops (entry w)"
    and removal: "lok w \<Longrightarrow> ok n w \<Longrightarrow> lb_ok lb \<Longrightarrow>
      \<exists>F w'. (\<forall>fuel \<ge> F. e_RemoveFromAll (eng fuel) lb m w = (Inr (), w')) \<and> lok w' \<and> ok n w' \<and> recs w' = recs w \<and>
        entry w' = drop_member lb m (entry w)"
begin

lemma flush_spec:
  assumes "lok w" "ok (length ops + n) w" "\<forall>op \<in> set ops. op_ok op"
  shows "\<exists>w'. (\<forall>fuel. flush (eng fuel) ops w = (Inr (), w')) \<and> lok w' \<and> ok n w' \<and> recs w' = recs w \<and>
    entry w' = fold (put_op upd) ops (entry w)"
proof (cases "ops = []")
  case True
  with assms show ?thesis by (auto simp: flush_def io_simps)
next
  case False
  obtain rs w' where "\<forall>fuel. e_SubmitBatch (eng fuel) ops w = (Inr rs, w')" "lok w'" "ok n w'" "recs w' = recs w"
    "entry w' = fold (put_op upd) ops (entry w)" using batch [OF assms] by blast
  with False show ?thesis by (intro exI [of _ w']) (simp add: flush_def io_simps)
qed

lemma apply_loop_spec:
  assumes "lok w" "ok (length ops + (sum_list (map (rec_cost rs) rcs) + n)) w" "\<forall>op \<in> set ops. op_ok op" "\<forall>rec \<in> set rcs. rec_ok op_ok lb_ok rs rec"
  shows "\<exists>F w'. (\<forall>fuel \<ge> F. apply_loop (eng fuel) rs ops rcs w = (Inr (), w')) \<and> lok w' \<and> ok n w' \<and> recs w' = recs w \<and>
    entry w' = fold (rec_eff upd rs) rcs (fold (put_op upd) ops (entry w))"
  using assms
proof (induction rcs arbitrary: ops w)
  case Nil
  then show ?case using flush_spec [of w ops n] by (auto intro: exI [of _ 0])
next
  case (Cons rec rcs)
  show ?case
  proof (cases "rs (RApp rec) (RBoard rec)")
    case None
    moreover have "rec_cost rs rec = 0" using None by (simp add: rec_cost_def)
    ultimately show ?thesis using Cons.IH [of w ops] Cons.prems by (simp add: rec_eff_cases)
  next
    case (Some lb)
    show ?thesis
    proof (cases "Op rec = OpRemove")
      case False
      then have "\<forall>op \<in> set (ops @ recordToOps lb rec). op_ok op" using Cons.prems Some by (auto simp: rec_ok_def)
      moreover have "rec_cost rs rec = length (recordToOps lb rec)" using Some False by (simp add: rec_cost_def)
      ultimately show ?thesis
        using Cons.IH [of w "ops @ recordToOps lb rec"] Cons.prems Some False by (simp add: rec_eff_cases add.assoc)
    next
      case True
      then have cost: "rec_cost rs rec = 0" and lb: "lb_ok lb" using Some Cons.prems by (auto simp: rec_cost_def rec_ok_def)
      obtain w1 where w1: "\<forall>fuel. flush (eng fuel) ops w = (Inr (), w1)" "lok w1"
        "ok (sum_list (map (rec_cost rs) rcs) + n) w1" "recs w1 = recs w" "entry w1 = fold (put_op upd) ops (entry w)"
        using flush_spec [of w ops "sum_list (map (rec_cost rs) rcs) + n"] Cons.prems cost by auto
      obtain F2 w2 where w2: "\<forall>fuel \<ge> F2. e_RemoveFromAll (eng fuel) lb (RMember rec) w1 = (Inr (), w2)" "lok w2"
        "ok (sum_list (map (rec_cost rs) rcs) + n) w2" "recs w2 = recs w1" "entry w2 = drop_member lb (RMember rec) (entry w1)"
        using removal [OF w1(2,3) lb] by blast
      obtain F3 w3 where w3: "\<forall>fuel \<ge> F3. apply_loop (eng fuel) rs [] rcs w2 = (Inr (), w3)" "lok w3" "ok n w3"
        "recs w3 = recs w2" "entry w3 = fold (rec_eff upd rs) rcs (entry w2)"
        using Cons.IH [of w2 "[]"] w2 Cons.prems by auto
      have "\<forall>fuel \<ge> max F2 F3. apply_loop (eng fuel) rs ops (rec # rcs) w = (Inr (), w3)"
        using Some True w1(1) w2(1) w3(1) by (simp add: io_simps)
      then show ?thesis using w1 w2 w3 Some True by (intro exI [of _ "max F2 F3"] exI [of _ w3]) (simp add: rec_eff_cases)
    qed
  qed
qed

lemma applyRecords_spec:
  assumes "lok w" "ok (sum_list (map (rec_cost rs) rcs) + n) w" "\<forall>rec \<in> set rcs. rec_ok op_ok lb_ok rs rec"
  shows "\<exists>F w'. (\<forall>fuel \<ge> F. applyRecords (eng fuel) rs rcs w = (Inr (), w')) \<and> lok w' \<and> ok n w' \<and> recs w' = recs w \<and>
    entry w' = fold (rec_eff upd rs) rcs (entry w)"
  using apply_loop_spec [OF assms(1) _ _ assms(3), of "[]" n] assms(2) by (simp add: applyRecords_def)

text \<open>
  The state of a consumer with position \<open>c p\<close> in partition \<open>p\<close> of the log \<open>L\<close>: the cursors are
  those positions, the engine has room for what is left, and every entry has the value of the
  member's records up to the position of its partition.
\<close>

definition consumer :: "nat \<Rightarrow> resolver \<Rightarrow> (int \<Rightarrow> string) \<Rightarrow> 'w Consumer" where
  "consumer fuel rs cur = (NewConsumer lg rs (eng fuel))\<lparr>cursors := cur\<rparr>"

definition home :: "BoardKey \<Rightarrow> string \<Rightarrow> int" where
  "home k m = partitionOf (App k) (BoardName k) m (Partitions lg)"

definition at_state :: "resolver \<Rightarrow> (int \<Rightarrow> Record list) \<Rightarrow> entries \<Rightarrow> nat \<Rightarrow> (int \<Rightarrow> nat) \<Rightarrow> (int \<Rightarrow> string) \<Rightarrow> 'w \<Rightarrow> bool" where
  "at_state rs L E0 n c cur w \<longleftrightarrow> lok w \<and> recs w = L \<and> ok (todo (Partitions lg) rs L c + n) w \<and>
     (\<forall>p. 0 \<le> p \<and> p < Partitions lg \<longrightarrow> c p \<le> length (L p) \<and> cur p = cursor_at (L p) (c p)) \<and>
     (\<forall>k m. entry w k m = replay upd rs k m (take (c (home k m)) (L (home k m))) (E0 k m))"

lemma sum_split: "0 \<le> p \<Longrightarrow> p < N \<Longrightarrow> (\<Sum>q \<in> {0..<N}. (f q :: nat)) = f p + (\<Sum>q \<in> {0..<N} - {p}. f q)" for N p :: int
  by (rule sum.remove) auto

lemma sum_upd:
  fixes p N :: int and f :: "int \<Rightarrow> nat"
  shows "0 \<le> p \<Longrightarrow> p < N \<Longrightarrow> f p = g p + d \<Longrightarrow> (\<And>q. q \<noteq> p \<Longrightarrow> f q = g q) \<Longrightarrow>
    (\<Sum>q \<in> {0..<N}. f q) = (\<Sum>q \<in> {0..<N}. g q) + d"
proof -
  assume "0 \<le> p" "p < N" and d: "f p = g p + d" "\<And>q. q \<noteq> p \<Longrightarrow> f q = g q"
  moreover have "(\<Sum>q \<in> {0..<N} - {p}. f q) = (\<Sum>q \<in> {0..<N} - {p}. g q)" using d(2) by (intro sum.cong) auto
  ultimately show ?thesis by (simp add: sum_split)
qed

lemma replay_elsewhere: "(\<And>rec. rec \<in> set rcs \<Longrightarrow> \<not> touches k m rec) \<Longrightarrow> replay upd rs k m rcs v = v"
  by (simp add: replay_def filter_False)

text \<open>Applying the next records of one partition, as many as there are up to \<open>N\<close>.\<close>

lemma apply_next:
  fixes N :: nat
  assumes "at_state rs L E0 n c cur w" "log_ok op_ok lb_ok rs L" "0 \<le> p" "p < Partitions lg"
  defines "b \<equiv> take N (drop (c p) (L p))" and "c' \<equiv> c(p := min (c p + N) (length (L p)))"
  shows "\<exists>F w'. (\<forall>fuel \<ge> F. applyRecords (eng fuel) rs b w = (Inr (), w')) \<and>
    at_state rs L E0 n c' (cur(p := cursor_at (L p) (c' p))) w'"
proof -
  have st: "lok w" "recs w = L" "ok (todo (Partitions lg) rs L c + n) w" "c p \<le> length (L p)"
    "\<And>k m. entry w k m = replay upd rs k m (take (c (home k m)) (L (home k m))) (E0 k m)"
    using assms(1,3,4) by (auto simp: at_state_def)
  have cb: "c' p = c p + length b" using st(4) by (simp add: c'_def b_def)
  have pre: "take (length b) (drop (c p) (L p)) = b" by (simp add: b_def min_def)
  then have tk: "take (c' p) (L p) = take (c p) (L p) @ b" unfolding cb by (simp add: take_add)
  have cost: "todo (Partitions lg) rs L c = sum_list (map (rec_cost rs) b) + todo (Partitions lg) rs L c'"
  proof -
    have "drop (c p) (L p) = b @ drop (c' p) (L p)"
      unfolding cb using append_take_drop_id [of "length b" "drop (c p) (L p)"] pre by (simp add: add.commute)
    then show ?thesis unfolding todo_def
      by (subst sum_upd [OF assms(3,4), where g = "\<lambda>q. sum_list (map (rec_cost rs) (drop (c' q) (L q)))"
            and d = "sum_list (map (rec_cost rs) b)"]) (simp_all add: c'_def)
  qed
  have bset: "set b \<subseteq> set (L p)" unfolding b_def by (meson set_drop_subset set_take_subset subset_trans)
  then have bok: "\<forall>rec \<in> set b. rec_ok op_ok lb_ok rs rec" using assms(2) by (auto simp: log_ok_def)
  have "ok (sum_list (map (rec_cost rs) b) + (todo (Partitions lg) rs L c' + n)) w" using st(3) cost by (simp add: add.assoc)
  then obtain F w' where w': "\<forall>fuel \<ge> F. applyRecords (eng fuel) rs b w = (Inr (), w')" "lok w'" "ok (todo (Partitions lg) rs L c' + n) w'"
    "recs w' = recs w" "entry w' = fold (rec_eff upd rs) b (entry w)" using applyRecords_spec [OF st(1) _ bok] by blast
  have "entry w' k m = replay upd rs k m (take (c' (home k m)) (L (home k m))) (E0 k m)" for k m
  proof -
    have e: "entry w' k m = replay upd rs k m b (entry w k m)"
      unfolding w'(5) using assms(2) bok by (intro fold_rec_eff) (auto simp: log_ok_def rec_ok_def)
    show ?thesis
    proof (cases "home k m = p")
      case True
      then show ?thesis using e st(5) tk by (simp add: replay_append)
    next
      case False
      have "\<not> touches k m rec" if "rec \<in> set b" for rec
        using routed [OF st(1), of rec p] that bset st(2) False by (auto simp: touches_def route_def home_def)
      then have "replay upd rs k m b (entry w k m) = entry w k m" by (rule replay_elsewhere)
      then show ?thesis using e st(5) False by (simp add: c'_def)
    qed
  qed
  then have "at_state rs L E0 n c' (cur(p := cursor_at (L p) (c' p))) w'"
    using assms(1) w' st(2) by (auto simp: at_state_def c'_def)
  then show ?thesis using w'(1) by blast
qed

lemma step_partition:
  assumes "at_state rs L E0 n c cur w" "log_ok op_ok lb_ok rs L" "0 \<le> p" "p < Partitions lg"
  defines "c' \<equiv> c(p := min (c p + 256) (length (L p)))"
  shows "\<exists>F cur' w'. (\<forall>fuel \<ge> F. \<forall>ps k. step_loop (consumer fuel rs cur) (p # ps) k w =
      step_loop (consumer fuel rs cur') ps (k + int (c' p - c p)) w') \<and> at_state rs L E0 n c' cur' w'"
proof -
  define b where "b = take 256 (drop (c p) (L p))"
  have st: "lok w" "recs w = L" "c p \<le> length (L p)" "cur p = cursor_at (L p) (c p)"
    using assms(1,3,4) by (auto simp: at_state_def)
  have rd: "ReadPartition lg p (cur p) 256 w = (Inr b, w)"
    using read [of w p "c p" 256] st assms(2-4) by (simp add: b_def log_ok_def)
  have cb: "c' p = c p + length b" using st(3) by (simp add: c'_def b_def)
  show ?thesis
  proof (cases "b = []")
    case True
    then have "c' = c" using cb by (auto simp: c'_def)
    then have "at_state rs L E0 n c' cur w" using assms(1) by simp
    moreover have "\<forall>fuel \<ge> 0. \<forall>ps k. step_loop (consumer fuel rs cur) (p # ps) k w = step_loop (consumer fuel rs cur) ps (k + int (c' p - c p)) w"
      using rd True cb by (simp add: consumer_def NewConsumer_def)
    ultimately show ?thesis by blast
  next
    case False
    have ix: "0 < length b" "c p + length b \<le> length (L p)" using False st(3) by (auto simp: b_def)
    have lastb: "cursor_at (L p) (c' p) = ID (last b)"
      using ix by (simp add: cb cursor_at_def last_conv_nth [OF False]) (simp add: b_def)
    obtain F w' where w': "\<forall>fuel \<ge> F. applyRecords (eng fuel) rs b w = (Inr (), w')" "at_state rs L E0 n c' (cur(p := ID (last b))) w'"
      using apply_next [OF assms(1-4), of 256] lastb unfolding b_def c'_def by auto
    have "\<forall>fuel \<ge> F. \<forall>ps k. step_loop (consumer fuel rs cur) (p # ps) k w =
        step_loop (consumer fuel rs (cur(p := ID (last b)))) ps (k + int (c' p - c p)) w'"
      using rd False w'(1) cb by (simp add: consumer_def NewConsumer_def)
    with w'(2) show ?thesis by blast
  qed
qed

lemma step_loop_spec:
  assumes "at_state rs L E0 n c cur w" "log_ok op_ok lb_ok rs L" "\<forall>p \<in> set ps. 0 \<le> p \<and> p < Partitions lg"
  shows "\<exists>F c' cur' w' d. (\<forall>fuel \<ge> F. \<forall>k. step_loop (consumer fuel rs cur) ps k w = ((k + int d, None), consumer fuel rs cur', w')) \<and>
    at_state rs L E0 n c' cur' w' \<and> left (Partitions lg) L c = left (Partitions lg) L c' + d \<and> (d = 0 \<longrightarrow> c' = c \<and> (\<forall>p \<in> set ps. c p = length (L p)))"
  using assms
proof (induction ps arbitrary: c cur w)
  case Nil
  then show ?case by (intro exI [of _ 0] exI [of _ c] exI [of _ cur] exI [of _ w]) simp
next
  case (Cons p ps)
  define c1 where "c1 = c(p := min (c p + 256) (length (L p)))"
  have p: "0 \<le> p" "p < Partitions lg" using Cons.prems(3) by auto
  then have cp: "c p \<le> length (L p)" using Cons.prems(1) by (simp add: at_state_def)
  obtain F1 cur1 w1 where s1: "\<forall>fuel \<ge> F1. \<forall>ps k. step_loop (consumer fuel rs cur) (p # ps) k w =
      step_loop (consumer fuel rs cur1) ps (k + int (c1 p - c p)) w1" "at_state rs L E0 n c1 cur1 w1"
    using step_partition [OF Cons.prems(1,2) p] unfolding c1_def by blast
  obtain F2 c2 cur2 w2 d where s2: "\<forall>fuel \<ge> F2. \<forall>k. step_loop (consumer fuel rs cur1) ps k w1 = ((k + int d, None), consumer fuel rs cur2, w2)"
    "at_state rs L E0 n c2 cur2 w2" "left (Partitions lg) L c1 = left (Partitions lg) L c2 + d" "d = 0 \<longrightarrow> c2 = c1 \<and> (\<forall>p \<in> set ps. c1 p = length (L p))"
    using Cons.IH [OF s1(2) Cons.prems(2)] Cons.prems(3) unfolding list.set by blast
  have l1: "left (Partitions lg) L c = left (Partitions lg) L c1 + (c1 p - c p)"
    unfolding left_def by (rule sum_upd [OF p]) (use cp in \<open>auto simp: c1_def\<close>)
  have "c1 = c \<and> c p = length (L p)" if "c1 p = c p" using that cp by (auto simp: c1_def fun_eq_iff)
  moreover have "c p \<le> c1 p" using cp by (simp add: c1_def)
  ultimately have z: "c1 p - c p = 0 \<longrightarrow> c1 = c \<and> c p = length (L p)" by auto
  have run: "\<forall>fuel \<ge> max F1 F2. \<forall>k. step_loop (consumer fuel rs cur) (p # ps) k w =
      ((k + int (c1 p - c p + d), None), consumer fuel rs cur2, w2)"
  proof (intro allI impI)
    fix fuel k assume "max F1 F2 \<le> fuel"
    then have "F1 \<le> fuel" "F2 \<le> fuel" by simp_all
    with s1(1) s2(1) have "step_loop (consumer fuel rs cur) (p # ps) k w = step_loop (consumer fuel rs cur1) ps (k + int (c1 p - c p)) w1"
      "step_loop (consumer fuel rs cur1) ps (k + int (c1 p - c p)) w1 =
        ((k + int (c1 p - c p) + int d, None), consumer fuel rs cur2, w2)" by blast+
    then show "step_loop (consumer fuel rs cur) (p # ps) k w = ((k + int (c1 p - c p + d), None), consumer fuel rs cur2, w2)"
      by (simp only: of_nat_add add.assoc)
  qed
  have "left (Partitions lg) L c = left (Partitions lg) L c2 + (c1 p - c p + d)" using l1 s2(3) by simp
  moreover have "c1 p - c p + d = 0 \<longrightarrow> c2 = c \<and> (\<forall>q \<in> set (p # ps). c q = length (L q))" using z s2(4) by auto
  ultimately show ?case using s2(2) run
    by (intro exI [of _ "max F1 F2"] exI [of _ c2] exI [of _ cur2] exI [of _ w2] exI [of _ "c1 p - c p + d"] conjI)
qed

lemma Drain_spec:
  assumes "at_state rs L E0 n c cur w" "log_ok op_ok lb_ok rs L"
  shows "\<exists>F c' cur' w'. (\<forall>fuel \<ge> F. \<forall>f > left (Partitions lg) L c. Drain f (consumer fuel rs cur) w = (None, consumer fuel rs cur', w')) \<and>
    at_state rs L E0 n c' cur' w' \<and> (\<forall>p. 0 \<le> p \<and> p < Partitions lg \<longrightarrow> c' p = length (L p))"
  using assms
proof (induction "left (Partitions lg) L c" arbitrary: c cur w rule: less_induct)
  case less
  have in_parts: "\<forall>p \<in> set [0..Partitions lg - 1]. 0 \<le> p \<and> p < Partitions lg" by simp
  obtain F c1 cur1 w1 d where s: "\<forall>fuel \<ge> F. \<forall>k. step_loop (consumer fuel rs cur) [0..Partitions lg - 1] k w =
      ((k + int d, None), consumer fuel rs cur1, w1)" "at_state rs L E0 n c1 cur1 w1" "left (Partitions lg) L c = left (Partitions lg) L c1 + d"
    "d = 0 \<longrightarrow> c1 = c \<and> (\<forall>p \<in> set [0..Partitions lg - 1]. c p = length (L p))"
    using step_loop_spec [OF less.prems, of "[0..Partitions lg - 1]"] in_parts by blast
  have st: "Step (consumer fuel rs cur) w = ((int d, None), consumer fuel rs cur1, w1)" if "F \<le> fuel" for fuel
    using s(1) that by (simp add: Step_def consumer_def NewConsumer_def)
  show ?case
  proof (cases "d = 0")
    case True
    have "\<forall>fuel \<ge> F. \<forall>f > left (Partitions lg) L c. Drain f (consumer fuel rs cur) w = (None, consumer fuel rs cur1, w1)"
    proof (intro allI impI)
      fix fuel f assume "F \<le> fuel" "left (Partitions lg) L c < f"
      then show "Drain f (consumer fuel rs cur) w = (None, consumer fuel rs cur1, w1)" using st True by (cases f) simp_all
    qed
    moreover have "\<forall>p. 0 \<le> p \<and> p < Partitions lg \<longrightarrow> c1 p = length (L p)" using s(4) True by auto
    ultimately show ?thesis using s(2) by blast
  next
    case False
    then have "left (Partitions lg) L c1 < left (Partitions lg) L c" using s(3) by simp
    from less.hyps [OF this s(2) less.prems(2)] obtain F2 c2 cur2 w2 where
      i: "\<forall>fuel \<ge> F2. \<forall>f > left (Partitions lg) L c1. Drain f (consumer fuel rs cur1) w1 = (None, consumer fuel rs cur2, w2)"
      "at_state rs L E0 n c2 cur2 w2" "\<forall>p. 0 \<le> p \<and> p < Partitions lg \<longrightarrow> c2 p = length (L p)" by blast
    have "\<forall>fuel \<ge> max F F2. \<forall>f > left (Partitions lg) L c. Drain f (consumer fuel rs cur) w = (None, consumer fuel rs cur2, w2)"
    proof (intro allI impI)
      fix fuel f assume "max F F2 \<le> fuel" "left (Partitions lg) L c < f"
      then show "Drain f (consumer fuel rs cur) w = (None, consumer fuel rs cur2, w2)"
        using st i(1) False s(3) by (cases f) simp_all
    qed
    then show ?thesis using i by blast
  qed
qed

text \<open>Replaying a log from the beginning.\<close>

lemma Rebuild_spec:
  assumes "lok w" "log_ok op_ok lb_ok rs (recs w)" "ok (todo (Partitions lg) rs (recs w) (\<lambda>_. 0) + n) w" "Partitions lg < 2 ^ 32"
  shows "\<exists>F w'. (\<forall>fuel \<ge> F. \<forall>f > left (Partitions lg) (recs w) (\<lambda>_. 0). Rebuild f lg rs (eng fuel) w = (None, w')) \<and>
    lok w' \<and> recs w' = recs w \<and> ok n w' \<and>
    (\<forall>k m. entry w' k m = replay upd rs k m (recs w (home k m)) (entry w k m))"
proof -
  have "at_state rs (recs w) (entry w) n (\<lambda>_. 0) (\<lambda>_. '''') w"
    using assms by (simp add: at_state_def cursor_at_def replay_def)
  from Drain_spec [OF this assms(2)] obtain F c' cur' w' where d:
    "\<forall>fuel \<ge> F. \<forall>f > left (Partitions lg) (recs w) (\<lambda>_. 0). Drain f (consumer fuel rs (\<lambda>_. '''')) w = (None, consumer fuel rs cur', w')"
    "at_state rs (recs w) (entry w) n c' cur' w'" "\<forall>p. 0 \<le> p \<and> p < Partitions lg \<longrightarrow> c' p = length (recs w p)" by blast
  have c0: "consumer fuel rs (\<lambda>_. '''') = NewConsumer lg rs (eng fuel)" for fuel by (simp add: consumer_def NewConsumer_def)
  have z: "todo (Partitions lg) rs (recs w) c' = 0" unfolding todo_def using d(3) by (intro sum.neutral) auto
  have "take (c' (home k m)) (recs w (home k m)) = recs w (home k m)" for k m
    using d(3) partitionOf_range [OF partitions assms(4), of "App k" "BoardName k" m] by (simp add: home_def)
  then show ?thesis using d(1,2) z unfolding c0
    by (intro exI [of _ F] exI [of _ w']) (auto simp: Rebuild_def at_state_def)
qed

end

end
