(* ===== verification/Projection.thy ===== *)
theory Projection
  imports Consumer Engine_Scan
begin

text \<open>
  The sorted-set engine as the target of the log: on every server that satisfies \<open>redis_docs\<close> it
  keeps the contract \<open>projection\<close> of the consumer, for boards of all update policies, with and
  without the histogram tier. The configuration of a board is what the resolver says of it.
\<close>

subsection \<open>The engine's invariant\<close>

text \<open>The physical boards of the registered logical boards.\<close>

definition boards_of :: "resolver \<Rightarrow> Board set" where
  "boards_of rs = {\<lparr>Key = k, Config = LConfig lb\<rparr> | k lb. key_validate k = Inr () \<and> rs (App k) (BoardName k) = Some lb}"

definition entries_of :: "keyspace \<Rightarrow> entries" where
  "entries_of K k m = (if key_validate k = Inr ()
     then (case zset_at K (zKey k) of None \<Rightarrow> None | Some l \<Rightarrow> zget l m) else None)"

text \<open>
  Sorted-set keys have the shape of a board key and hold sorted sets; the totals of increment
  boards leave room for \<open>n\<close> more increments of at most \<open>S\<close> below \<open>2 ^ 53\<close>.
\<close>

definition z_shape :: "keyspace \<Rightarrow> bool" where
  "z_shape K \<longleftrightarrow> (\<forall>raw mid. K raw \<noteq> None \<and> raw = ''lb:{'' @ mid @ ''}:z'' \<longrightarrow> (\<exists>k. key_validate k = Inr () \<and> raw = zKey k))"

definition z_types :: "keyspace \<Rightarrow> bool" where
  "z_types K \<longleftrightarrow> (\<forall>k. key_validate k = Inr () \<longrightarrow> zset_at K (zKey k) \<noteq> None)"

definition z_wf :: "keyspace \<Rightarrow> bool" where
  "z_wf K \<longleftrightarrow> (\<forall>k l. zset_at K k = Some l \<longrightarrow> zset_ok l)"

definition inc_board :: "resolver \<Rightarrow> BoardKey \<Rightarrow> bool" where
  "inc_board rs k \<longleftrightarrow> key_validate k = Inr () \<and>
     (\<exists>lb. rs (App k) (BoardName k) = Some lb \<and> UpdatePolicy (withDefaults (LConfig lb)) = UpdateIncrement)"

definition inc_room :: "resolver \<Rightarrow> int \<Rightarrow> nat \<Rightarrow> keyspace \<Rightarrow> bool" where
  "inc_room rs S n K \<longleftrightarrow> 0 \<le> S \<and> int n * S \<le> 2 ^ 53 - 1 \<and>
     (\<forall>k l m v. inc_board rs k \<and> zset_at K (zKey k) = Some l \<and> zget l m = Some v \<longrightarrow> \<bar>v\<bar> \<le> of_int (2 ^ 53 - 1 - int n * S))"

definition eng_ok :: "(f64 \<Rightarrow> int) \<Rightarrow> resolver \<Rightarrow> int \<Rightarrow> nat \<Rightarrow> keyspace \<Rightarrow> bool" where
  "eng_ok oor rs S n K \<longleftrightarrow> z_shape K \<and> z_types K \<and> inc_room rs S n K \<and> hist_world oor (boards_of rs) n K K"

text \<open>The value an operation stores, and the operations the engine accepts.\<close>

definition op_enc :: "(f64 \<Rightarrow> int) \<Rightarrow> SubmitOp \<Rightarrow> err + rat" where
  "op_enc oor op = encode oor (newScoreCodec (withDefaults (Config (OpBoard op)))) (OpScore op) (OpTime op)"

definition op_upd :: "(f64 \<Rightarrow> int) \<Rightarrow> SubmitOp \<Rightarrow> rat option \<Rightarrow> rat" where
  "op_upd oor op old = policy_value (withDefaults (Config (OpBoard op))) old (OpScore op)
     (case op_enc oor op of Inr e \<Rightarrow> e | Inl _ \<Rightarrow> 0)"

definition op_fine :: "(f64 \<Rightarrow> int) \<Rightarrow> resolver \<Rightarrow> int \<Rightarrow> SubmitOp \<Rightarrow> bool" where
  "op_fine oor rs S op \<longleftrightarrow> board_validate (OpBoard op) = Inr () \<and> OpBoard op \<in> boards_of rs \<and>
     (\<exists>e. op_enc oor op = Inr e) \<and> (increments op \<longrightarrow> \<bar>OpScore op\<bar> \<le> of_int S)"

definition lb_fine :: "resolver \<Rightarrow> LogicalBoard \<Rightarrow> bool" where
  "lb_fine rs lb \<longleftrightarrow> rs (LApp lb) (LBoard lb) = Some lb \<and> clean (LApp lb) \<and> clean (LBoard lb)"

lemma boards_of_same_config: "b \<in> boards_of rs \<Longrightarrow> b' \<in> boards_of rs \<Longrightarrow> same_config b b'"
  unfolding boards_of_def same_config_def
proof (elim CollectE exE conjE, intro impI)
  fix k lb k' lb'
  assume b: "b = \<lparr>Key = k, Config = LConfig lb\<rparr>" "key_validate k = Inr ()" "rs (App k) (BoardName k) = Some lb"
    "b' = \<lparr>Key = k', Config = LConfig lb'\<rparr>" "key_validate k' = Inr ()" "rs (App k') (BoardName k') = Some lb'"
    "hashTag (Key b) = hashTag (Key b')"
  then have "norm_key k = norm_key k'" by (intro hashTag_inject) simp_all
  then have "App k = App k'" "BoardName k = BoardName k'" by (metis norm_key_sel(1), metis norm_key_sel(2))
  with b show "withDefaults (Config b) = withDefaults (Config b')" by simp
qed

lemma lb_keys_shape: "z_shape K \<Longrightarrow> lb_keys K app board"
  unfolding lb_keys_def glob_scan_pattern z_shape_def
  by (metis append.assoc)

subsection \<open>One operation\<close>

lemma inc_bound:
  fixes a :: rat
  assumes "\<bar>a\<bar> \<le> of_int B" "\<bar>B\<bar> < 2 ^ 53"
  shows "\<bar>fl64 a\<bar> \<le> of_int B"
proof -
  have "fl64 (of_int B) = of_int B" "fl64 (- of_int B) = - of_int B"
    using fl64_of_int [OF assms(2)] by (simp_all add: fl64_minus)
  then show ?thesis using fl64_mono [of a "of_int B"] fl64_mono [of "- of_int B" a] assms(1) by (auto simp: abs_le_iff)
qed

lemma inc_board_op: "op_fine oor rs S op \<Longrightarrow> inc_board rs (Key (OpBoard op)) \<longleftrightarrow> increments op"
  by (auto simp: op_fine_def boards_of_def inc_board_def increments_def)

lemma op_step_ready:
  assumes "z_types K" "z_wf K" "inc_room rs S (Suc n) K" "op_fine oor rs S op"
  shows "op_ready K op"
    and "increments op \<Longrightarrow> \<bar>inc_value op (op_zset K op)\<bar> \<le> of_int (2 ^ 53 - 1 - int n * S)"
proof -
  have v: "key_validate (Key (OpBoard op)) = Inr ()" using assms(4) board_validD by (auto simp: op_fine_def)
  then obtain l where l: "zset_at K (zKey (Key (OpBoard op))) = Some l" using assms(1) by (auto simp: z_types_def)
  then have ol: "op_zset K op = l" by (simp add: op_zset_def)
  have S: "0 \<le> S" "int n * S + S \<le> 2 ^ 53 - 1" using assms(3) by (auto simp: inc_room_def algebra_simps)
  have b: "\<bar>inc_value op l\<bar> \<le> of_int (2 ^ 53 - 1 - int n * S)" if inc: "increments op"
  proof -
    define old where "old = (case zget l (OpMember op) of None \<Rightarrow> 0 | Some v \<Rightarrow> v)"
    have sc: "\<bar>OpScore op\<bar> \<le> of_int S" using assms(4) inc by (simp add: op_fine_def)
    have "\<bar>old\<bar> \<le> of_int (2 ^ 53 - 1 - int (Suc n) * S)"
    proof (cases "zget l (OpMember op)")
      case None
      then show ?thesis using S by (simp add: old_def algebra_simps del: of_int_diff of_int_mult)
    next
      case (Some v)
      then show ?thesis using assms(3) l inc inc_board_op [OF assms(4)] by (auto simp: inc_room_def old_def)
    qed
    then have "\<bar>old + OpScore op\<bar> \<le> of_int (2 ^ 53 - 1 - int (Suc n) * S) + of_int S" using sc by linarith
    also have "\<dots> = of_int (2 ^ 53 - 1 - int n * S)" by (simp add: algebra_simps)
    finally have "\<bar>old + OpScore op\<bar> \<le> of_int (2 ^ 53 - 1 - int n * S)" .
    moreover have "0 \<le> int n * S" using S(1) by simp
    then have "\<bar>2 ^ 53 - 1 - int n * S\<bar> < 2 ^ 53" using S by linarith
    ultimately show ?thesis unfolding inc_value_def old_def by (rule inc_bound)
  qed
  show "op_ready K op"
  proof (cases "increments op")
    case True
    have "0 \<le> int n * S" using S(1) by simp
    then have "(of_int (2 ^ 53 - 1 - int n * S) :: rat) \<le> of_int (2 ^ 53)" by (simp only: of_int_le_iff)
    also have "\<dots> < 2 ^ 1024"
    proof -
      have "(2 ^ 53 :: rat) < 2 ^ 1024" by (rule power_strict_increasing) simp_all
      then show ?thesis by simp
    qed
    finally have "\<bar>inc_value op l\<bar> < 2 ^ 1024" using b [OF True] by linarith
    with l show ?thesis by (simp add: op_ready_def)
  qed (use l in \<open>simp add: op_ready_def\<close>)
  show "increments op \<Longrightarrow> \<bar>inc_value op (op_zset K op)\<bar> \<le> of_int (2 ^ 53 - 1 - int n * S)" using b ol by simp
qed

lemma z_wf_op_step: "z_wf K \<Longrightarrow> z_wf (op_step oe K)"
  unfolding z_wf_def using op_step_wf by blast

lemma z_types_op_step: "z_types K \<Longrightarrow> z_types (op_step oe K)"
  by (auto simp: z_types_def zset_at_op_step)

lemma zget_op_step:
  assumes "z_wf K" "zset_at (op_step (op, enc) K) (zKey k) = Some l"
  shows "zget l m = (if hashTag k = hashTag (Key (OpBoard op)) \<and> m = OpMember op
    then Some (policy_value (withDefaults (Config (OpBoard op))) (zget (op_zset K op) m) (OpScore op) enc)
    else if hashTag k = hashTag (Key (OpBoard op)) then zget (op_zset K op) m
    else case zset_at K (zKey k) of None \<Rightarrow> None | Some l' \<Rightarrow> zget l' m)"
proof -
  have ok: "zset_ok (op_zset K op)" using assms(1) by (auto simp: op_zset_def z_wf_def split: option.splits)
  show ?thesis using assms(2) zget_apply_submit [OF ok, of op enc m]
    by (auto simp: zset_at_op_step zKey_eq_iff split: if_splits)
qed

lemma inc_room_op_step:
  assumes "z_types K" "z_wf K" "inc_room rs S (Suc n) K" "op_fine oor rs S op"
  shows "inc_room rs S n (op_step (op, enc) K)"
proof -
  have S: "0 \<le> S" "int n * S + S \<le> 2 ^ 53 - 1" using assms(3) by (auto simp: inc_room_def algebra_simps)
  have weak: "(of_int (2 ^ 53 - 1 - int (Suc n) * S) :: rat) \<le> of_int (2 ^ 53 - 1 - int n * S)"
    using S(1) by (simp only: of_int_le_iff) (simp add: algebra_simps)
  have vop: "key_validate (Key (OpBoard op)) = Inr ()" using assms(4) board_validD by (auto simp: op_fine_def)
  have "\<bar>v\<bar> \<le> of_int (2 ^ 53 - 1 - int n * S)"
    if h: "inc_board rs k" "zset_at (op_step (op, enc) K) (zKey k) = Some l" "zget l m = Some v" for k l m v
  proof (cases "hashTag k = hashTag (Key (OpBoard op))")
    case True
    then have nk: "norm_key k = norm_key (Key (OpBoard op))" using h(1) vop by (intro hashTag_inject) (auto simp: inc_board_def)
    then have names: "App k = App (Key (OpBoard op))" "BoardName k = BoardName (Key (OpBoard op))"
      by (metis norm_key_sel(1), metis norm_key_sel(2))
    then have inc: "increments op" using h(1) vop inc_board_op [OF assms(4)] by (auto simp: inc_board_def)
    show ?thesis
    proof (cases "m = OpMember op")
      case m: True
      then have "v = inc_value op (op_zset K op)"
        using zget_op_step [OF assms(2) h(2), of m] h(3) True inc
        by (auto simp: policy_value_def inc_value_def increments_def split: option.splits)
      then show ?thesis using op_step_ready(2) [OF assms inc] by simp
    next
      case m: False
      obtain l0 where l0: "zset_at K (zKey (Key (OpBoard op))) = Some l0" using assms(1) vop by (auto simp: z_types_def)
      then have "zget l0 m = Some v" using zget_op_step [OF assms(2) h(2), of m] h(3) True m by (simp add: op_zset_def)
      then have "\<bar>v\<bar> \<le> of_int (2 ^ 53 - 1 - int (Suc n) * S)"
        using assms(3) l0 inc inc_board_op [OF assms(4)] unfolding inc_room_def by blast
      with weak show ?thesis by linarith
    qed
  next
    case False
    then have "zset_at K (zKey k) = Some l" using h(2) by (simp add: zset_at_op_step zKey_eq_iff)
    then have "\<bar>v\<bar> \<le> of_int (2 ^ 53 - 1 - int (Suc n) * S)" using assms(3) h unfolding inc_room_def by blast
    with weak show ?thesis by linarith
  qed
  with S show ?thesis unfolding inc_room_def by auto
qed

lemma entries_op_step:
  assumes "z_types K" "z_wf K" "key_validate (Key (OpBoard op)) = Inr ()" "op_enc oor op = Inr enc"
  shows "entries_of (op_step (op, enc) K) = put_op (op_upd oor) op (entries_of K)"
proof (intro ext)
  fix k m
  show "entries_of (op_step (op, enc) K) k m = put_op (op_upd oor) op (entries_of K) k m"
  proof (cases "key_validate k = Inr ()")
    case True
    have hn: "hashTag k = hashTag (Key (OpBoard op)) \<longleftrightarrow> norm_key k = norm_key (Key (OpBoard op))"
      using hashTag_inject [OF True assms(3)] by (metis hashTag_norm)
    obtain l where l: "zset_at (op_step (op, enc) K) (zKey k) = Some l"
      using z_types_op_step [OF assms(1), of "(op, enc)"] True by (auto simp: z_types_def)
    obtain l0 where l0: "zset_at K (zKey k) = Some l0" using assms(1) True by (auto simp: z_types_def)
    have "hashTag k = hashTag (Key (OpBoard op)) \<Longrightarrow> op_zset K op = l0" using l0 by (simp add: op_zset_def zKey_def)
    then show ?thesis using zget_op_step [OF assms(2) l, of m] True l l0 assms(4)
      by (auto simp: entries_of_def put_op_def op_upd_def hn)
  next
    case False
    then have "norm_key k \<noteq> norm_key (Key (OpBoard op))" using assms(3) by (metis key_validate_norm)
    with False show ?thesis by (simp add: entries_of_def put_op_def)
  qed
qed

lemma z_shape_op_step:
  assumes "z_shape K" "key_validate (Key (OpBoard (fst oe))) = Inr ()"
  shows "z_shape (op_step oe K)"
  unfolding z_shape_def
proof (intro allI impI)
  fix raw mid assume r: "op_step oe K raw \<noteq> None \<and> raw = ''lb:{'' @ mid @ ''}:z''"
  show "\<exists>k. key_validate k = Inr () \<and> raw = zKey k"
  proof (cases "raw = zKey (Key (OpBoard (fst oe)))")
    case False
    with r have "K raw \<noteq> None" using op_step_other [OF False] by metis
    with r assms(1) show ?thesis unfolding z_shape_def by blast
  qed (use assms(2) in blast)
qed

subsection \<open>A batch\<close>

lemma batch_step:
  assumes "prepare oor ops = Inr encs" "z_shape K" "z_types K" "z_wf K" "inc_room rs S (length ops + n) K" "\<forall>op \<in> set ops. op_fine oor rs S op"
  shows "batch_ready K (zip ops encs) \<and> z_shape (batch_spec (zip ops encs) K) \<and> z_types (batch_spec (zip ops encs) K) \<and>
    inc_room rs S n (batch_spec (zip ops encs) K) \<and>
    entries_of (batch_spec (zip ops encs) K) = fold (put_op (op_upd oor)) ops (entries_of K)"
  using assms
proof (induction ops arbitrary: encs K)
  case Nil
  then show ?case by (simp add: batch_spec_def)
next
  case (Cons op ops)
  obtain enc encs' where e: "encs = enc # encs'" "op_enc oor op = Inr enc" "prepare oor ops = Inr encs'"
    using Cons.prems(1) by (auto simp: op_enc_def Let_def split: sum.splits)
  have op: "op_fine oor rs S op" and v: "key_validate (Key (OpBoard op)) = Inr ()"
    using Cons.prems(6) board_validD by (auto simp: op_fine_def)
  have r: "inc_room rs S (Suc (length ops + n)) K" using Cons.prems(5) by simp
  note ih = Cons.IH [OF e(3), of "op_step (op, enc) K"]
  have "batch_ready (op_step (op, enc) K) (zip ops encs') \<and> z_shape (batch_spec (zip ops encs') (op_step (op, enc) K)) \<and>
      z_types (batch_spec (zip ops encs') (op_step (op, enc) K)) \<and> inc_room rs S n (batch_spec (zip ops encs') (op_step (op, enc) K)) \<and>
      entries_of (batch_spec (zip ops encs') (op_step (op, enc) K)) = fold (put_op (op_upd oor)) ops (entries_of (op_step (op, enc) K))"
    using Cons.prems v by (intro ih z_shape_op_step z_types_op_step z_wf_op_step inc_room_op_step [OF _ _ r op]) auto
  then show ?case
    using op_step_ready(1) [OF Cons.prems(3,4) r op] entries_op_step [OF Cons.prems(3,4) v e(2)] e(1)
    by (simp add: batch_spec_def)
qed

lemma prepare_fine: "\<forall>op \<in> set ops. op_fine oor rs S op \<Longrightarrow> \<exists>encs. prepare oor ops = Inr encs"
  by (induction ops) (auto simp: op_fine_def op_enc_def Let_def)

text \<open>The invariant and the entries read sorted-set keys only, apart from the histograms.\<close>

lemma z_frame:
  assumes "\<And>k. (\<forall>k'. k \<noteq> hKey k') \<Longrightarrow> K' k = K k"
  shows "z_shape K' = z_shape K" "z_types K' = z_types K" "inc_room rs S n K' = inc_room rs S n K" "entries_of K' = entries_of K"
proof -
  have z: "zset_at K' (zKey k) = zset_at K (zKey k)" for k by (rule zset_at_cong) (rule assms, simp)
  have last_h: "last (hKey k) = CHR ''h''" for k by (simp add: hKey_def)
  have raw: "K' (''lb:{'' @ mid @ ''}:z'') = K (''lb:{'' @ mid @ ''}:z'')" for mid
  proof (rule assms, intro allI notI)
    fix k' assume "''lb:{'' @ mid @ ''}:z'' = hKey k'"
    then have "last (''lb:{'' @ mid @ ''}:z'') = CHR ''h''" using last_h by metis
    then show False by simp
  qed
  have "K' r \<noteq> None \<and> r = ''lb:{'' @ mid @ ''}:z'' \<longleftrightarrow> K r \<noteq> None \<and> r = ''lb:{'' @ mid @ ''}:z''" for r mid
    using raw [of mid] by metis
  then show "z_shape K' = z_shape K" unfolding z_shape_def by presburger
  show "z_types K' = z_types K" by (simp add: z_types_def z)
  show "inc_room rs S n K' = inc_room rs S n K" by (simp add: inc_room_def z)
  show "entries_of K' = entries_of K" by (simp add: entries_of_def z fun_eq_iff)
qed

context redis_docs
begin

lemma ks_wf: "z_wf (ks s)"
  unfolding z_wf_def using zset_at_ok by blast

lemma SubmitBatch_entries:
  assumes "eng_ok (cvt_oor R) rs S (length ops + n) (ks s)" "\<forall>op \<in> set ops. op_fine (cvt_oor R) rs S op"
  shows "\<exists>res s'. SubmitBatch R ops s = (Inr res, s') \<and> eng_ok (cvt_oor R) rs S n (ks s') \<and>
    entries_of (ks s') = fold (put_op (op_upd (cvt_oor R))) ops (entries_of (ks s))"
proof -
  obtain encs where e: "prepare (cvt_oor R) ops = Inr encs" using prepare_fine [OF assms(2)] by blast
  have a: "z_shape (ks s)" "z_types (ks s)" "inc_room rs S (length ops + n) (ks s)"
    "hist_world (cvt_oor R) (boards_of rs) (length ops + n) (ks s) (ks s)" using assms(1) by (auto simp: eng_ok_def)
  note b = batch_step [OF e a(1,2) ks_wf a(3) assms(2)]
  have "OpBoard ` set ops \<subseteq> boards_of rs" using assms(2) by (auto simp: op_fine_def)
  then obtain s' where s': "SubmitBatch R ops s = (Inr (batch_results (cvt_oor R) (ks s) (zip ops encs)), s')"
    "\<forall>k. (\<forall>k'. k \<noteq> hKey k') \<longrightarrow> ks s' k = batch_spec (zip ops encs) (ks s) k"
    "hist_world (cvt_oor R) (boards_of rs) n (ks s') (ks s')"
    using SubmitBatch_refines [OF e _ a(4)] b by blast
  have fr: "\<And>k. (\<forall>k'. k \<noteq> hKey k') \<Longrightarrow> ks s' k = batch_spec (zip ops encs) (ks s) k" using s'(2) by blast
  note zf = z_frame [of "ks s'" "batch_spec (zip ops encs) (ks s)", OF fr]
  have "eng_ok (cvt_oor R) rs S n (ks s')" using b s'(3) by (simp add: eng_ok_def zf)
  moreover have "entries_of (ks s') = fold (put_op (op_upd (cvt_oor R))) ops (entries_of (ks s))"
    using b by (simp add: zf)
  ultimately show ?thesis using s'(1) by blast
qed

lemma RemoveFromAll_entries:
  assumes "eng_ok (cvt_oor R) rs S n (ks s)" "lb_fine rs lb"
  shows "\<exists>F s'. (\<forall>fuel \<ge> F. RemoveFromAll fuel R lb m s = (Inr (), s')) \<and> eng_ok (cvt_oor R) rs S n (ks s') \<and>
    entries_of (ks s') = drop_member lb m (entries_of (ks s))"
proof -
  have a: "z_shape (ks s)" "z_types (ks s)" "inc_room rs S n (ks s)"
    "hist_world (cvt_oor R) (boards_of rs) n (ks s) (ks s)" using assms(1) by (auto simp: eng_ok_def)
  have lb: "rs (LApp lb) (LBoard lb) = Some lb" "clean (LApp lb)" "clean (LBoard lb)" using assms(2) by (auto simp: lb_fine_def)
  have in_bs: "\<lparr>Key = k, Config = LConfig lb\<rparr> \<in> boards_of rs" if "of_board (LApp lb) (LBoard lb) k" for k
    using that lb(1) by (auto simp: boards_of_def of_board_def)
  have good: "board_good (cvt_oor R) (ks s) b" if b: "b \<in> boards_of rs" for b
  proof -
    have "key_validate (Key b) = Inr ()" using b by (auto simp: boards_of_def)
    then obtain l where l: "zset_at (ks s) (zKey (Key b)) = Some l" using a(2) by (auto simp: z_types_def)
    moreover have "approx_board b \<Longrightarrow> hist_sane (boardHistogram b) \<and> hist_inv (cvt_oor R) (ks s) (ks s) b \<and> room (ks s) b n"
      using a(4) b by (auto simp: hist_world_def)
    ultimately show ?thesis by (auto simp: board_good_def room_def)
  qed
  obtain F s' where s': "\<forall>fuel \<ge> F. RemoveFromAll fuel R lb m s = (Inr (), s')"
    "\<And>k. key_validate k = Inr () \<Longrightarrow> zset_at (ks s') (zKey k) =
       (if App k = LApp lb \<and> BoardName k = LBoard lb then map_option (\<lambda>l. zdel l m) (zset_at (ks s) (zKey k))
        else zset_at (ks s) (zKey k))"
    "\<And>raw. (\<forall>k. key_validate k = Inr () \<longrightarrow> raw \<noteq> hKey k \<and> raw \<noteq> zKey k) \<Longrightarrow> ks s' raw = ks s raw"
    "\<And>b'. (\<forall>k. of_board (LApp lb) (LBoard lb) k \<longrightarrow> same_config b' \<lparr>Key = k, Config = LConfig lb\<rparr>) \<Longrightarrow>
       board_good (cvt_oor R) (ks s) b' \<Longrightarrow> board_good (cvt_oor R) (ks s') b'"
    using RemoveFromAll_full [OF lb_keys_shape [OF a(1)] lb(2,3) good [OF in_bs], of m] by blast
  have "z_types (ks s')" using a(2) s'(2) by (auto simp: z_types_def)
  moreover have "z_shape (ks s')" unfolding z_shape_def
  proof (intro allI impI)
    fix raw mid assume r: "ks s' raw \<noteq> None \<and> raw = ''lb:{'' @ mid @ ''}:z''"
    show "\<exists>k. key_validate k = Inr () \<and> raw = zKey k"
    proof (rule ccontr)
      assume n: "\<nexists>k. key_validate k = Inr () \<and> raw = zKey k"
      have "last raw = CHR ''z''" using r by simp
      then have "raw \<noteq> hKey k" for k using last_hKey [of k] by auto
      with n have "ks s' raw = ks s raw" by (intro s'(3)) blast
      with r n a(1) show False unfolding z_shape_def by metis
    qed
  qed
  moreover have "inc_room rs S n (ks s')" unfolding inc_room_def
  proof (intro conjI allI impI, goal_cases)
    case (3 k l m' v)
    then have k: "key_validate k = Inr ()" by (simp add: inc_board_def)
    then obtain l0 where l0: "zset_at (ks s) (zKey k) = Some l0" using a(2) by (auto simp: z_types_def)
    have "zget l0 m' = Some v" using 3 s'(2) [OF k] l0 by (auto simp: zget_zdel split: if_splits)
    then show ?case using 3 l0 a(3) unfolding inc_room_def by blast
  qed (use a(3) in \<open>auto simp: inc_room_def\<close>)
  moreover have "hist_world (cvt_oor R) (boards_of rs) n (ks s') (ks s')" unfolding hist_world_def
  proof (intro conjI ballI impI boards_of_same_config)
    fix b assume b: "b \<in> boards_of rs" "approx_board b"
    have g': "board_good (cvt_oor R) (ks s') b" using b(1) in_bs good by (intro s'(4)) (auto intro: boards_of_same_config)
    then show "hist_sane (boardHistogram b)" "hist_inv (cvt_oor R) (ks s') (ks s') b"
      using b(2) by (auto simp: board_good_def split: option.splits)
    have "room (ks s) b n" using a(4) b by (auto simp: hist_world_def)
    moreover have "key_validate (Key b) = Inr ()" using b(1) by (auto simp: boards_of_def)
    ultimately show "room (ks s') b n" using s'(2) [of "Key b"] length_zdel [of _ m]
      by (auto simp: room_def split: option.splits if_splits) (meson le_less_trans add_mono of_nat_le_iff order_refl)
  qed
  moreover have "entries_of (ks s') = drop_member lb m (entries_of (ks s))"
    using a(2) s'(2) by (auto simp: entries_of_def drop_member_def fun_eq_iff zget_zdel z_types_def split: option.splits)
  ultimately show ?thesis using s'(1) unfolding eng_ok_def by blast
qed

end

subsection \<open>The contract\<close>

text \<open>
  Any log beside any documented Redis server: the log in the first component of the state, the
  engine in the second.
\<close>

lemma redis_projection:
  assumes "event_log l recs lok" "redis_docs R ks"
  shows "projection (log_fst l) (\<lambda>w. recs (fst w)) (\<lambda>w. lok (fst w)) (\<lambda>fuel. engine_snd (redis_engine R fuel))
    (\<lambda>w. entries_of (ks (snd w))) (\<lambda>n w. eng_ok (cvt_oor R) rs S n (ks (snd w))) (op_upd (cvt_oor R))
    (op_fine (cvt_oor R) rs S) (lb_fine rs)"
proof (intro projection.intro event_log_fst assms(1) projection_axioms.intro)
  fix w ops n
  assume "lok (fst w)" "eng_ok (cvt_oor R) rs S (length ops + n) (ks (snd w))" "\<forall>op \<in> set ops. op_fine (cvt_oor R) rs S op"
  moreover from redis_docs.SubmitBatch_entries [OF assms(2) this(2,3)] obtain res s' where
    "SubmitBatch R ops (snd w) = (Inr res, s')" "eng_ok (cvt_oor R) rs S n (ks s')"
    "entries_of (ks s') = fold (put_op (op_upd (cvt_oor R))) ops (entries_of (ks (snd w)))" by blast
  ultimately show "\<exists>res w'. (\<forall>fuel. e_SubmitBatch (engine_snd (redis_engine R fuel)) ops w = (Inr res, w')) \<and>
      lok (fst w') \<and> eng_ok (cvt_oor R) rs S n (ks (snd w')) \<and> recs (fst w') = recs (fst w) \<and>
      entries_of (ks (snd w')) = fold (put_op (op_upd (cvt_oor R))) ops (entries_of (ks (snd w)))"
    by (intro exI [of _ res] exI [of _ "(fst w, s')"]) (simp add: engine_snd_def redis_engine_def on_snd_eq)
next
  fix w n lb m
  assume "lok (fst w)" "eng_ok (cvt_oor R) rs S n (ks (snd w))" "lb_fine rs lb"
  moreover from redis_docs.RemoveFromAll_entries [OF assms(2) this(2,3), of m] obtain F s' where
    "\<forall>fuel \<ge> F. RemoveFromAll fuel R lb m (snd w) = (Inr (), s')" "eng_ok (cvt_oor R) rs S n (ks s')"
    "entries_of (ks s') = drop_member lb m (entries_of (ks (snd w)))" by blast
  ultimately show "\<exists>F w'. (\<forall>fuel \<ge> F. e_RemoveFromAll (engine_snd (redis_engine R fuel)) lb m w = (Inr (), w')) \<and>
      lok (fst w') \<and> eng_ok (cvt_oor R) rs S n (ks (snd w')) \<and> recs (fst w') = recs (fst w) \<and>
      entries_of (ks (snd w')) = drop_member lb m (entries_of (ks (snd w)))"
    by (intro exI [of _ F] exI [of _ "(fst w, s')"]) (simp add: engine_snd_def redis_engine_def on_snd_eq)
qed

interpretation mem_projection: projection "log_fst mem_log" "\<lambda>w. mem_recs (fst w)" "\<lambda>w. mem_wf (fst w)"
  "\<lambda>fuel. engine_snd (redis_engine mem_redis fuel)" "\<lambda>w. entries_of (mem_ks (snd w))"
  "\<lambda>n w. eng_ok (cvt_oor mem_redis) rs S n (mem_ks (snd w))" "op_upd (cvt_oor mem_redis)"
  "op_fine (cvt_oor mem_redis) rs S" "lb_fine rs"
  for rs S
  by (rule redis_projection [OF mem_events.event_log_axioms mem_docs.redis_docs_axioms])

subsection \<open>Properties\<close>

text \<open>
  (C2) The ranking tier is a cache of the log. Replaying any log of acceptable records, however it
  is partitioned, into any documented Redis server ends without error within a number of rounds
  bounded by the number of records, leaves the log as it is, and gives every member of every board
  exactly the value that results from applying that member's own records in log order to the
  value it had before.
\<close>

theorem rebuild_from_log:
  assumes "event_log l recs lok" "redis_docs R ks" "Partitions l < 2 ^ 32" "lok lw"
    and "log_ok (op_fine (cvt_oor R) rs S) (lb_fine rs) rs (recs lw)"
    and "eng_ok (cvt_oor R) rs S (todo (Partitions l) rs (recs lw) (\<lambda>_. 0)) (ks s)"
  shows "\<exists>F s'. (\<forall>fuel \<ge> F. \<forall>rounds > left (Partitions l) (recs lw) (\<lambda>_. 0).
      \<exists>lw'. Rebuild rounds (log_fst l) rs (engine_snd (redis_engine R fuel)) (lw, s) = (None, (lw', s')) \<and> recs lw' = recs lw) \<and>
    (\<forall>k m. entries_of (ks s') k m =
      replay (op_upd (cvt_oor R)) rs k m (recs lw (partitionOf (App k) (BoardName k) m (Partitions l))) (entries_of (ks s) k m))"
proof -
  note pr = redis_projection [OF assms(1,2), of rs S]
  have pl: "Partitions (log_fst l) = Partitions l" by (simp add: log_fst_def)
  obtain F w' where "\<forall>fuel \<ge> F. \<forall>f > left (Partitions l) (recs lw) (\<lambda>_. 0).
      Rebuild f (log_fst l) rs (engine_snd (redis_engine R fuel)) (lw, s) = (None, w')"
    "recs (fst w') = recs lw" "\<forall>k m. entries_of (ks (snd w')) k m = replay (op_upd (cvt_oor R)) rs k m
       (recs lw (partitionOf (App k) (BoardName k) m (Partitions l))) (entries_of (ks s) k m)"
    using projection.Rebuild_spec [OF pr, of "(lw, s)" rs 0] assms unfolding projection.home_def [OF pr] pl by auto
  then show ?thesis by (intro exI [of _ F] exI [of _ "snd w'"]) (metis prod.collapse)
qed

definition demo_inc :: LogicalBoard where
  "demo_inc = \<lparr>LApp = ''app1'', LBoard = ''kills'',
     LConfig = cfg_first\<lparr>UpdatePolicy := UpdateIncrement, TieBreak := '''', ScoreBits := 0\<rparr>, Windows = []\<rparr>"

definition demo_rs :: resolver where
  "demo_rs = reg_Resolve (Register demo_inc NewStaticRegistry)"

definition demo_log :: MemLog where
  "demo_log = map (\<lambda>(i, x, op). demo_rec\<lparr>ID := mem_id i, RScore := x, Op := op\<rparr>)
     [(0, 7, OpSubmit), (1, 0, OpRemove), (2, 5, OpSubmit), (3, 3, OpSubmit)]"

lemma demo_rs_eq: "demo_rs a b = (if regKey a b = regKey ''app1'' ''kills'' then Some demo_inc else None)"
  by (auto simp: demo_rs_def reg_Resolve_def Register_def NewStaticRegistry_def demo_inc_def)

lemma demo_resolver_ok: "resolver_ok demo_rs"
  unfolding demo_rs_def
  by (intro registry_resolves registry_ok_Register registry_ok_New) (simp add: demo_inc_def nul_free_def)

lemma demo_log_ok: "log_ok (op_fine (cvt_oor mem_redis) demo_rs 10) (lb_fine demo_rs) demo_rs (mem_recs demo_log)"
proof -
  have lb: "clean (LApp demo_inc)" "clean (LBoard demo_inc)" "demo_rs (LApp demo_inc) (LBoard demo_inc) = Some demo_inc"
    by code_simp+
  have recs: "list_all (\<lambda>rec. nul_free (RApp rec) \<and> RApp rec = LApp demo_inc \<and> RBoard rec = LBoard demo_inc) demo_log"
    "list_all (\<lambda>rec. Op rec = OpRemove \<or> list_all (\<lambda>op. board_validate (OpBoard op) = Inr () \<and> key_validate (Key (OpBoard op)) = Inr () \<and>
       (case op_enc (cvt_oor mem_redis) op of Inl _ \<Rightarrow> False | Inr _ \<Rightarrow> True) \<and> \<bar>OpScore op\<bar> \<le> 10) (recordToOps demo_inc rec)) demo_log"
    by code_simp+
  have fine: "op_fine (cvt_oor mem_redis) demo_rs 10 op" if "rec \<in> set demo_log" "Op rec \<noteq> OpRemove" "op \<in> set (recordToOps demo_inc rec)" for rec op
  proof -
    have v: "board_validate (OpBoard op) = Inr ()" "key_validate (Key (OpBoard op)) = Inr ()"
      "\<exists>e. op_enc (cvt_oor mem_redis) op = Inr e" "\<bar>OpScore op\<bar> \<le> of_int 10"
      using recs(2) that by (cases "op_enc (cvt_oor mem_redis) op"; fastforce simp: list_all_iff)+
    have "OpBoard op = \<lparr>Key = Key (OpBoard op), Config = LConfig demo_inc\<rparr>" using recordToOps_sel [OF that(3)] by simp
    then have "OpBoard op \<in> boards_of demo_rs"
      using v(2) lb(3) recordToOps_sel [OF that(3)] unfolding boards_of_def by fastforce
    with v show ?thesis by (simp add: op_fine_def)
  qed
  have "rec_ok (op_fine (cvt_oor mem_redis) demo_rs 10) (lb_fine demo_rs) demo_rs rec" if "rec \<in> set demo_log" for rec
    using recs(1) that lb fine [OF that] by (auto simp: rec_ok_def list_all_iff lb_fine_def)
  then show ?thesis using demo_resolver_ok by (auto simp: log_ok_def mem_recs_def demo_log_def)
qed

text \<open>An empty server is ready for the boards of a registry without approximate ranks.\<close>

lemma fresh_engine_ok:
  assumes "\<And>a b lb. rs a b = Some lb \<Longrightarrow> \<not> ApproxRank (withDefaults (LConfig lb))" "0 \<le> S" "int n * S \<le> 2 ^ 53 - 1"
  shows "eng_ok oor rs S n (mem_ks [])"
proof -
  have "\<not> approx_board b" if "b \<in> boards_of rs" for b
    using that assms(1) by (auto simp: boards_of_def approx_board_def)
  then have "hist_world oor (boards_of rs) n (mem_ks []) (mem_ks [])"
    using boards_of_same_config by (auto simp: hist_world_def)
  then show ?thesis using assms(2,3)
    by (simp add: eng_ok_def z_shape_def z_types_def inc_room_def mem_ks_def mget_def zset_at_def)
qed

lemma demo_eng_ok:
  assumes "n \<le> 10"
  shows "eng_ok oor demo_rs 10 n (mem_ks [])"
proof (rule fresh_engine_ok)
  have "\<not> ApproxRank (withDefaults (LConfig demo_inc))" by code_simp
  then show "demo_rs a b = Some lb \<Longrightarrow> \<not> ApproxRank (withDefaults (LConfig lb))" for a b lb
    by (auto simp: demo_rs_eq split: if_splits)
qed (use assms in simp_all)

theorem rebuild_from_log_witness:
  "\<exists>F s'. (\<forall>fuel \<ge> F. \<exists>lw'. Rebuild 5 (log_fst mem_log) demo_rs (engine_snd (redis_engine mem_redis fuel)) (demo_log, []) =
       (None, (lw', s'))) \<and> entries_of (mem_ks s') (demo_key '''') ''al'' = Some 8"
proof -
  have N: "Partitions mem_log = 1" "mem_wf demo_log" by code_simp+
  have t: "todo 1 demo_rs (mem_recs demo_log) (\<lambda>_. 0) = 3" "left 1 (mem_recs demo_log) (\<lambda>_. 0) = 4"
    "replay (op_upd (cvt_oor mem_redis)) demo_rs (demo_key '''') ''al''
       (mem_recs demo_log (partitionOf (App (demo_key '''')) (BoardName (demo_key '''')) ''al'' 1)) (entries_of (mem_ks []) (demo_key '''') ''al'') = Some 8"
    by code_simp+
  have "Partitions mem_log < 2 ^ 32" by (simp add: N)
  moreover have "eng_ok (cvt_oor mem_redis) demo_rs 10 (todo (Partitions mem_log) demo_rs (mem_recs demo_log) (\<lambda>_. 0)) (mem_ks [])"
    unfolding N t by (rule demo_eng_ok) simp
  ultimately obtain F s' where fs: "\<forall>fuel \<ge> F. \<forall>rounds > 4. \<exists>lw'. Rebuild rounds (log_fst mem_log) demo_rs (engine_snd (redis_engine mem_redis fuel)) (demo_log, []) =
       (None, (lw', s')) \<and> mem_recs lw' = mem_recs demo_log"
    "entries_of (mem_ks s') (demo_key '''') ''al'' = Some 8"
    using rebuild_from_log [OF mem_events.event_log_axioms mem_docs.redis_docs_axioms _ N(2) demo_log_ok, of "[]"]
    unfolding N t(2) using t(3) by metis
  moreover have "(4::nat) < 5" by simp
  ultimately show ?thesis by (intro exI [of _ F] exI [of _ s']) blast
qed

end
