(* ===== verification/Group.thy ===== *)
theory Group
  imports Redis_Log Projection
begin

text \<open>
  The live consumer of the Redis log, \<open>pkg/ingest/group.go\<close>: a worker reads the partitions it owns
  through a consumer group, applies the entries to the engine, marks them as applied and acknowledges
  them. The log and the markers are the first component of the state, the engine the second.
\<close>

subsection \<open>The consumer\<close>

record 'w GroupConsumer =
  glog :: "'w RedisLog"
  gresolver :: resolver
  geng :: "'w RankingEngine"
  ggroup :: string
  gconsumer :: string
  owned :: "int list"
  gbatch :: int
  block :: duration
  appliedTTL :: duration
  claimMinIdle :: duration
  onConsumed :: "(int \<Rightarrow> 'w \<Rightarrow> 'w) option"

record 'w GroupOptions =
  oGroup :: string
  oConsumer :: string
  WorkerIndex :: int
  WorkerCount :: int
  oBatch :: int
  oBlock :: duration
  oAppliedTTL :: duration
  oClaimMinIdle :: duration
  oOnConsumed :: "(int \<Rightarrow> 'w \<Rightarrow> 'w) option"

definition NewGroupConsumer :: "'w RedisLog \<Rightarrow> resolver \<Rightarrow> 'w RankingEngine \<Rightarrow> 'w GroupOptions \<Rightarrow> 'w GroupConsumer" where
  "NewGroupConsumer lg rs eng opts = \<lparr>
     glog = lg, gresolver = rs, geng = eng,
     ggroup = (if oGroup opts = '''' then ''rankers'' else oGroup opts),
     gconsumer = (if oConsumer opts = '''' then ''c-0'' else oConsumer opts),
     owned = OwnedPartitions (rl_Partitions lg) (WorkerIndex opts) (WorkerCount opts),
     gbatch = (if oBatch opts \<le> 0 then 256 else oBatch opts),
     block = (if oBlock opts \<le> 0 then 2 * second else oBlock opts),
     appliedTTL = (if oAppliedTTL opts \<le> 0 then 24 * 3600 * second else oAppliedTTL opts),
     claimMinIdle = (if oClaimMinIdle opts \<le> 0 then 30 * second else oClaimMinIdle opts),
     onConsumed = oOnConsumed opts\<rparr>"

definition appliedKey :: "string \<Rightarrow> string \<Rightarrow> string" where
  "appliedKey stream i = ''lb:applied:'' @ stream @ ''-'' @ i"

definition isNoGroup :: "err option \<Rightarrow> bool" where
  "isNoGroup e = (case e of Some (RedisErr m) \<Rightarrow> str_contains m ''NOGROUP'' | _ \<Rightarrow> False)"

definition EnsureGroups :: "'w GroupConsumer \<Rightarrow> ('w, unit) io" where
  "EnsureGroups g = io_each (\<lambda>p w.
     case XGROUPCREATE (rdb (glog g)) (StreamName (glog g) p) (ggroup g) ''0'' w of
       (Reply _, w') \<Rightarrow> (Inr (), w')
     | (NilReply, w') \<Rightarrow> (Inl RedisNil, w')
     | (ErrReply m, w') \<Rightarrow> (if str_contains m ''BUSYGROUP'' then Inr () else Inl (RedisErr m), w')) (owned g)"

text \<open>
  The loop that collects the records to apply and their ids from the messages, each with the answer
  whether it was applied already.
\<close>

fun collect :: "resolver \<Rightarrow> (XMessage \<times> bool) list \<Rightarrow> err + Record list \<times> string list" where
  "collect rs [] = Inr ([], [])"
| "collect rs ((m, applied) # ms) =
     (if applied then collect rs ms
      else case messageToRecord m of
        Inl e \<Rightarrow> Inl e
      | Inr None \<Rightarrow> collect rs ms
      | Inr (Some rec) \<Rightarrow>
          (case collect rs ms of Inl e \<Rightarrow> Inl e
           | Inr (recs, ids) \<Rightarrow>
               if rs (RApp rec) (RBoard rec) = None then Inr (recs, ids) else Inr (rec # recs, MID m # ids)))"

text \<open>\<open>cmd.Val() > 0\<close>: a command with an error has the value 0.\<close>

fun reply_val :: "int reply \<Rightarrow> int" where
  "reply_val (Reply n) = n"
| "reply_val NilReply = 0"
| "reply_val (ErrReply m) = 0"

definition mark_applied :: "'w GroupConsumer \<Rightarrow> string \<Rightarrow> string list \<Rightarrow> ('w, unit) io" where
  "mark_applied g stream ids w =
     (if ids = [] then (Inr (), w)
      else case pipe_run (\<lambda>i. XSET (rdb (glog g)) (appliedKey stream i) ''1'' (appliedTTL g)) ids w of
        (rs, w') \<Rightarrow> (case first_err (map reply_err rs) of Some e \<Rightarrow> (Inl e, w') | None \<Rightarrow> (Inr (), w')))"

definition g_apply :: "'w GroupConsumer \<Rightarrow> string \<Rightarrow> XMessage list \<Rightarrow> ('w, int) io" where
  "g_apply g stream msgs w =
     (if msgs = [] then (Inr 0, w)
      else case pipe_run (\<lambda>m. XEXISTS (rdb (glog g)) (appliedKey stream (MID m))) msgs w of
        (ex, w1) \<Rightarrow>
          (case exec_failed (map reply_err ex) of Some e \<Rightarrow> (Inl e, w1)
           | None \<Rightarrow>
             (case collect (gresolver g) (zip msgs (map (\<lambda>r. 0 < reply_val r) ex)) of
                Inl e \<Rightarrow> (Inl e, w1)
              | Inr (recs, newIDs) \<Rightarrow>
                  io_bind (applyRecords (geng g) (gresolver g) recs) (\<lambda>_.
                  io_bind (mark_applied g stream newIDs) (\<lambda>_.
                  io_bind (io_cmd (XACK (rdb (glog g)) stream (ggroup g) (map MID msgs))) (\<lambda>_ w4.
                    (Inr (int (length msgs)), case onConsumed g of None \<Rightarrow> w4 | Some f \<Rightarrow> f (int (length msgs)) w4)))) w1)))"

fun apply_streams :: "'w GroupConsumer \<Rightarrow> (string \<times> XMessage list) list \<Rightarrow> int \<Rightarrow> 'w \<Rightarrow> (int \<times> err option) \<times> 'w" where
  "apply_streams g [] n w = ((n, None), w)"
| "apply_streams g ((st, msgs) # res) n w =
     (case g_apply g st msgs w of (Inl e, w') \<Rightarrow> ((n, Some e), w')
      | (Inr k, w') \<Rightarrow> apply_streams g res (n + k) w')"

fun gstep_loop :: "'w GroupConsumer \<Rightarrow> int list \<Rightarrow> int \<Rightarrow> 'w \<Rightarrow> (int \<times> err option) \<times> 'w" where
  "gstep_loop g [] n w = ((n, None), w)"
| "gstep_loop g (p # ps) n w =
     (case XREADGROUP (rdb (glog g)) (ggroup g) (gconsumer g) (StreamName (glog g) p) ''>'' (gbatch g) w of
        (NilReply, w1) \<Rightarrow> gstep_loop g ps n w1
      | (ErrReply m, w1) \<Rightarrow>
          if isNoGroup (Some (RedisErr m))
          then (case EnsureGroups g w1 of (Inl e, w2) \<Rightarrow> ((n, Some e), w2) | (Inr _, w2) \<Rightarrow> gstep_loop g ps n w2)
          else ((n, Some (RedisErr m)), w1)
      | (Reply res, w1) \<Rightarrow>
          (case apply_streams g res n w1 of
             ((k, Some e), w2) \<Rightarrow> ((k, Some e), w2)
           | ((k, None), w2) \<Rightarrow> gstep_loop g ps k w2))"

definition g_Step :: "'w GroupConsumer \<Rightarrow> 'w \<Rightarrow> (int \<times> err option) \<times> 'w" where
  "g_Step g w = gstep_loop g (owned g) 0 w"

text \<open>
  \<open>Reclaim\<close>: the inner loop over the cursors of one partition (with fuel), whose result \<open>Inr n\<close> goes
  on to the next partition, and \<open>Inl\<close> returns.
\<close>

fun claim_loop :: "nat \<Rightarrow> 'w GroupConsumer \<Rightarrow> string \<Rightarrow> string \<Rightarrow> int \<Rightarrow> 'w \<Rightarrow> ((int \<times> err option) + int) \<times> 'w" where
  "claim_loop 0 g stream start n w = (Inl (n, Some OutOfFuel), w)"
| "claim_loop (Suc fuel) g stream start n w =
     (case XAUTOCLAIM (rdb (glog g)) stream (ggroup g) (gconsumer g) (claimMinIdle g) start (gbatch g) w of
        (ErrReply m, w1) \<Rightarrow>
          if isNoGroup (Some (RedisErr m))
          then (case EnsureGroups g w1 of (Inl e, w2) \<Rightarrow> (Inl (n, Some e), w2) | (Inr _, w2) \<Rightarrow> (Inl (n, None), w2))
          else (Inl (n, Some (RedisErr m)), w1)
      | (NilReply, w1) \<Rightarrow> (Inl (n, Some RedisNil), w1)
      | (Reply (msgs, nxt), w1) \<Rightarrow>
          (case (if msgs = [] then (Inr 0, w1) else g_apply g stream msgs w1) of
             (Inl e, w2) \<Rightarrow> (Inl (n, Some e), w2)
           | (Inr k, w2) \<Rightarrow> if nxt = ''0-0'' \<or> nxt = '''' then (Inr (n + k), w2) else claim_loop fuel g stream nxt (n + k) w2))"

fun reclaim_loop :: "nat \<Rightarrow> 'w GroupConsumer \<Rightarrow> int list \<Rightarrow> int \<Rightarrow> 'w \<Rightarrow> (int \<times> err option) \<times> 'w" where
  "reclaim_loop fuel g [] n w = ((n, None), w)"
| "reclaim_loop fuel g (p # ps) n w =
     (case claim_loop fuel g (StreamName (glog g) p) ''0-0'' n w of
        (Inl r, w1) \<Rightarrow> (r, w1)
      | (Inr k, w1) \<Rightarrow> reclaim_loop fuel g ps k w1)"

definition Reclaim :: "nat \<Rightarrow> 'w GroupConsumer \<Rightarrow> 'w \<Rightarrow> (int \<times> err option) \<times> 'w" where
  "Reclaim fuel g w = reclaim_loop fuel g (owned g) 0 w"

text \<open>
  One turn of the loop of \<open>Run\<close>: the context (\<open>Some e\<close> when cancelled) at its head, after an error of
  \<open>Step\<close>, what the \<open>select\<close> takes, the context after an error of \<open>Reclaim\<close> and at the idle wait.
\<close>

datatype sel = Done string | Tick | Default

record turn =
  t_head :: "string option"
  t_steperr :: "string option"
  t_sel :: sel
  t_reclaim :: "string option"
  t_idle :: "string option"

definition after_select :: "nat \<Rightarrow> 'w GroupConsumer \<Rightarrow> turn \<Rightarrow> 'w \<Rightarrow> err option \<times> 'w" where
  "after_select fuel g t w = (case t_sel t of Done e \<Rightarrow> (Some (CtxErr e), w) | Default \<Rightarrow> (None, w)
     | Tick \<Rightarrow> (case Reclaim fuel g w of ((_, Some e), w') \<Rightarrow> (if t_reclaim t = None then Some e else None, w')
         | ((_, None), w') \<Rightarrow> (None, w')))"

fun run_loop :: "nat \<Rightarrow> 'w GroupConsumer \<Rightarrow> turn list \<Rightarrow> 'w \<Rightarrow> err option \<times> 'w" where
  "run_loop fuel g [] w = (None, w)"
| "run_loop fuel g (t # ts) w =
     (case t_head t of Some e \<Rightarrow> (Some (CtxErr e), w)
      | None \<Rightarrow>
        (case g_Step g w of
           ((n, Some e), w1) \<Rightarrow> (Some (case t_steperr t of Some c \<Rightarrow> CtxErr c | None \<Rightarrow> e), w1)
         | ((n, None), w1) \<Rightarrow>
             (case after_select fuel g t w1 of
                (Some e, w2) \<Rightarrow> (Some e, w2)
              | (None, w2) \<Rightarrow>
                  if n = 0 then (case t_idle t of Some e \<Rightarrow> (Some (CtxErr e), w2) | None \<Rightarrow> run_loop fuel g ts w2)
                  else run_loop fuel g ts w2)))"

definition g_Run :: "nat \<Rightarrow> 'w GroupConsumer \<Rightarrow> turn list \<Rightarrow> 'w \<Rightarrow> err option \<times> 'w" where
  "g_Run fuel g ts w = (case EnsureGroups g w of (Inl e, w1) \<Rightarrow> (Some e, w1) | (Inr _, w1) \<Rightarrow> run_loop fuel g ts w1)"

subsection \<open>The log and the engine side by side\<close>

definition x_fst :: "'a streams \<Rightarrow> ('a \<times> 'b) streams" where
  "x_fst X = \<lparr>
     XADD = (\<lambda>k v mx (a, b). case XADD X k v mx a of (r, a') \<Rightarrow> (r, (a', b))),
     XRANGE = (\<lambda>k i j (a, b). case XRANGE X k i j a of (r, a') \<Rightarrow> (r, (a', b))),
     XRANGEN = (\<lambda>k i j n (a, b). case XRANGEN X k i j n a of (r, a') \<Rightarrow> (r, (a', b))),
     XGROUPCREATE = (\<lambda>k g i (a, b). case XGROUPCREATE X k g i a of (r, a') \<Rightarrow> (r, (a', b))),
     XREADGROUP = (\<lambda>g c k i n (a, b). case XREADGROUP X g c k i n a of (r, a') \<Rightarrow> (r, (a', b))),
     XAUTOCLAIM = (\<lambda>k g c t i n (a, b). case XAUTOCLAIM X k g c t i n a of (r, a') \<Rightarrow> (r, (a', b))),
     XACK = (\<lambda>k g ids (a, b). case XACK X k g ids a of (r, a') \<Rightarrow> (r, (a', b))),
     XEXISTS = (\<lambda>k (a, b). case XEXISTS X k a of (r, a') \<Rightarrow> (r, (a', b))),
     XSET = (\<lambda>k v t (a, b). case XSET X k v t a of (r, a') \<Rightarrow> (r, (a', b)))\<rparr>"

text \<open>A worker on the log \<open>l\<close> and the engine \<open>eng\<close>; the metrics hook is not observed.\<close>

definition worker :: "'a RedisLog \<Rightarrow> resolver \<Rightarrow> 'b RankingEngine \<Rightarrow> ('a \<times> 'b) GroupOptions \<Rightarrow> ('a \<times> 'b) GroupConsumer" where
  "worker l rs eng opts = NewGroupConsumer
     \<lparr>rdb = x_fst (rdb l), prefix = prefix l, partitions = partitions l, maxLen = maxLen l\<rparr> rs (engine_snd eng) (opts\<lparr>oOnConsumed := None\<rparr>)"

lemma worker_sel [simp]:
  "rdb (glog (worker l rs eng opts)) = x_fst (rdb l)" "gresolver (worker l rs eng opts) = rs"
  "geng (worker l rs eng opts) = engine_snd eng" "onConsumed (worker l rs eng opts) = None"
  "StreamName (glog (worker l rs eng opts)) p = StreamName l p" "ggroup (worker l rs eng opts) \<noteq> ''''"
  "0 < gbatch (worker l rs eng opts)" "owned (worker l rs eng opts) = OwnedPartitions (partitions l) (WorkerIndex opts) (WorkerCount opts)"
  by (simp_all add: worker_def NewGroupConsumer_def StreamName_def rl_Partitions_def)

lemma on_snd_bind: "on_snd (io_bind m f) = io_bind (on_snd m) (\<lambda>x. on_snd (f x))"
  by (auto simp: io_bind_def on_snd_def fun_eq_iff split: prod.splits sum.splits)

lemma on_snd_ret: "on_snd (io_ret x) = io_ret x"
  by (auto simp: io_ret_def on_snd_def)

lemma flush_snd: "flush (engine_snd eng) ops = on_snd (flush eng ops)"
  by (simp add: flush_def engine_snd_def on_snd_bind on_snd_ret)

lemma remove_snd: "e_RemoveFromAll (engine_snd eng) lb m = on_snd (e_RemoveFromAll eng lb m)"
  by (simp add: engine_snd_def)

lemma apply_loop_snd: "apply_loop (engine_snd eng) rs ops recs = on_snd (apply_loop eng rs ops recs)"
proof (induction recs arbitrary: ops)
  case (Cons rec recs)
  then show ?case by (auto simp: flush_snd on_snd_bind remove_snd split: option.splits)
qed (simp add: flush_snd)

lemma applyRecords_snd: "applyRecords (engine_snd eng) rs recs (a, b) = (case applyRecords eng rs recs b of (r, b') \<Rightarrow> (r, (a, b')))"
  by (simp add: applyRecords_def apply_loop_snd on_snd_def)

lemma applyRecords_snd_eq: "applyRecords (engine_snd eng) rs recs w = (r, w') \<longleftrightarrow> applyRecords eng rs recs (snd w) = (r, snd w') \<and> fst w' = fst w"
  by (simp add: applyRecords_def apply_loop_snd on_snd_eq)

text \<open>Records of unregistered boards are skipped anyway.\<close>

lemma apply_loop_filter: "apply_loop eng rs ops (filter (\<lambda>rec. rs (RApp rec) (RBoard rec) \<noteq> None) recs) = apply_loop eng rs ops recs"
  by (induction recs arbitrary: ops) (auto split: option.splits)

lemma appliedKey_not_stream: "appliedKey st i \<noteq> st"
proof
  assume "appliedKey st i = st"
  then have "length (appliedKey st i) = length st" by simp
  then show False by (simp add: appliedKey_def)
qed

lemma appliedKey_inject: "appliedKey st i = appliedKey st j \<longleftrightarrow> i = j"
  by (simp add: appliedKey_def)

text \<open>The messages of a batch whose records are applied: neither marked nor malformed, and of a registered board.\<close>

definition registered :: "resolver \<Rightarrow> XMessage \<Rightarrow> bool" where
  "registered rs m = (case messageToRecord m of Inr (Some rec) \<Rightarrow> rs (RApp rec) (RBoard rec) \<noteq> None | _ \<Rightarrow> False)"

definition wanted :: "resolver \<Rightarrow> (XMessage \<Rightarrow> bool) \<Rightarrow> XMessage list \<Rightarrow> XMessage list" where
  "wanted rs mk msgs = filter (\<lambda>m. \<not> mk m \<and> registered rs m) msgs"

lemma registered_simps:
  "messageToRecord m = Inl e \<Longrightarrow> \<not> registered rs m" "messageToRecord m = Inr None \<Longrightarrow> \<not> registered rs m"
  "messageToRecord m = Inr (Some rec) \<Longrightarrow> registered rs m \<longleftrightarrow> rs (RApp rec) (RBoard rec) \<noteq> None"
  by (simp_all add: registered_def)

lemma messageToRecord_entry: "messageToRecord m = Inr (Some rec) \<Longrightarrow> rec = entry_rec m"
  by (auto simp: messageToRecord_def entry_rec_def split: option.splits json.splits)

lemma collect_wanted:
  "collect rs (map (\<lambda>m. (m, mk m)) msgs) = Inr (recs, ids) \<Longrightarrow>
     recs = map entry_rec (wanted rs mk msgs) \<and> ids = map MID (wanted rs mk msgs)"
  by (induction msgs arbitrary: recs ids)
    (auto simp: wanted_def messageToRecord_entry registered_simps split: if_splits sum.splits option.splits)

lemma collect_all:
  "(\<And>m e. m \<in> set msgs \<Longrightarrow> \<not> mk m \<Longrightarrow> messageToRecord m \<noteq> Inl e) \<Longrightarrow>
     collect rs (map (\<lambda>m. (m, mk m)) msgs) = Inr (map entry_rec (wanted rs mk msgs), map MID (wanted rs mk msgs))"
  by (induction msgs) (auto simp: wanted_def messageToRecord_entry registered_simps split: sum.splits option.splits)

lemma collect_decodes:
  "collect rs (map (\<lambda>m. (m, mk m)) msgs) = Inr r \<Longrightarrow> m \<in> set msgs \<Longrightarrow> \<not> mk m \<Longrightarrow> messageToRecord m \<noteq> Inl e"
  by (induction msgs arbitrary: r) (auto split: if_splits sum.splits option.splits prod.splits)

context redis_streams
begin

definition marked :: "'s \<Rightarrow> string \<Rightarrow> string \<Rightarrow> bool" where
  "marked s st i \<longleftrightarrow> xks s (appliedKey st i) \<noteq> XNone"

lemma exists_pipe:
  "pipe_run (\<lambda>m. XEXISTS (x_fst X) (appliedKey st (MID m))) msgs (s, b) =
     (map (\<lambda>m. Reply (if marked s st (MID m) then 1 else 0)) msgs, (s, b))"
  by (induction msgs) (auto simp: x_fst_def XEXISTS marked_def)

lemma mark_pipe:
  "\<exists>s'. pipe_run (\<lambda>i. XSET (x_fst X) (appliedKey st i) ''1'' t) ids (s, b) = (map (\<lambda>_. Reply ()) ids, (s', b)) \<and>
     xks s' = (\<lambda>k. if k \<in> appliedKey st ` set ids then XOther else xks s k)"
proof (induction ids arbitrary: s)
  case (Cons i ids)
  obtain s1 where s1: "XSET X (appliedKey st i) ''1'' t s = (Reply (), s1)" "xks s1 = (xks s)(appliedKey st i := XOther)"
    using XSET by blast
  obtain s2 where "pipe_run (\<lambda>i. XSET (x_fst X) (appliedKey st i) ''1'' t) ids (s1, b) = (map (\<lambda>_. Reply ()) ids, (s2, b))"
    "xks s2 = (\<lambda>k. if k \<in> appliedKey st ` set ids then XOther else xks s1 k)" using Cons.IH by blast
  then show ?case using s1 by (intro exI [of _ s2]) (auto simp: x_fst_def fun_eq_iff)
qed simp

lemma g_apply_unfold:
  fixes eng :: "'e RankingEngine"
  assumes "g = worker l rs eng opts" "rdb l = X" "msgs \<noteq> []"
  shows "g_apply g st msgs (s, b) = (case collect rs (map (\<lambda>m. (m, marked s st (MID m))) msgs) of
                Inl e \<Rightarrow> (Inl e, (s, b))
              | Inr (recs, newIDs) \<Rightarrow>
                  io_bind (applyRecords (engine_snd eng) rs recs) (\<lambda>_.
                  io_bind (mark_applied g st newIDs) (\<lambda>_.
                  io_bind (io_cmd (XACK (x_fst X) st (ggroup g) (map MID msgs))) (\<lambda>_ w4. (Inr (int (length msgs)), w4)))) (s, b))"
proof -
  have nf: "exec_failed (map (reply_err \<circ> (\<lambda>m. Reply (f m))) ms) = None" for f :: "XMessage \<Rightarrow> int" and ms
    by (rule exec_failed_no_error) auto
  have z: "zip msgs (map (\<lambda>r. 0 < reply_val r) (map (\<lambda>m. Reply (if marked s st (MID m) then 1 else 0)) msgs)) =
      map (\<lambda>m. (m, marked s st (MID m))) msgs"
    by (simp add: zip_map2 zip_same_conv_map)
  show ?thesis
    unfolding g_apply_def z [symmetric] unfolding assms(1) worker_sel option.case(1) unfolding assms(2) exists_pipe using assms(3)
    by (simp add: nf)
qed

text \<open>The engine enters only through the application of the collected records.\<close>

lemma g_apply_engine:
  fixes e e' :: "'e RankingEngine"
  assumes "collect rs (map (\<lambda>m. (m, marked s st (MID m))) msgs) = Inr (recs, ids)" "applyRecords e rs recs b = applyRecords e' rs recs b"
    "rdb l = X" "msgs \<noteq> []"
  shows "g_apply (worker l rs e opts) st msgs (s, b) = g_apply (worker l rs e' opts) st msgs (s, b)"
proof -
  have "mark_applied (worker l rs e opts) = mark_applied (worker l rs e' opts)" "ggroup (worker l rs e opts) = ggroup (worker l rs e' opts)"
    by (simp_all add: mark_applied_def worker_def NewGroupConsumer_def fun_eq_iff)
  then show ?thesis
    unfolding g_apply_unfold [OF refl assms(3,4)] assms(1) using assms(2) by (simp add: io_bind_def applyRecords_snd)
qed

text \<open>
  What \<open>apply\<close> does to a batch of one stream: the entries without a marker are decoded, the records of
  registered boards go to the engine in stream order, and only if the engine took them all are
  their markers set and the whole batch acknowledged.
\<close>

lemma g_apply_cases:
  fixes eng :: "'e RankingEngine"
  assumes "xks s st = XStream es gs" "gs (ggroup g) = Some (d, p)" "g = worker l rs eng opts" "rdb l = X" "msgs \<noteq> []"
  shows "case collect rs (map (\<lambda>m. (m, marked s st (MID m))) msgs) of
      Inl e \<Rightarrow> g_apply g st msgs (s, b) = (Inl e, (s, b))
    | Inr (recs, ids) \<Rightarrow>
        (case applyRecords eng rs recs b of
           (Inl e, b') \<Rightarrow> g_apply g st msgs (s, b) = (Inl e, (s, b'))
         | (Inr _, b') \<Rightarrow> \<exists>s'. g_apply g st msgs (s, b) = (Inr (int (length msgs)), (s', b')) \<and>
             xks s' = (\<lambda>k. if k \<in> appliedKey st ` set ids then XOther else xks s k)
               (st := XStream es (gs(ggroup g \<mapsto> (d, filter (\<lambda>i. i \<notin> MID ` set msgs) p)))))"
proof -
  note ga = g_apply_unfold [OF assms(3,4,5)]
  show ?thesis
  proof (cases "collect rs (map (\<lambda>m. (m, marked s st (MID m))) msgs)")
    case (Inl e)
    then show ?thesis using ga by simp
  next
    case (Inr ri)
    obtain recs ids where ri: "ri = (recs, ids)" by (cases ri)
    obtain r b' where ar: "applyRecords eng rs recs b = (r, b')" by (cases "applyRecords eng rs recs b")
    show ?thesis
    proof (cases r)
      case (Inl e)
      then show ?thesis using ga Inr ri ar by (simp add: io_simps applyRecords_snd)
    next
      case (Inr u)
      obtain s1 where s1: "mark_applied g st ids (s, b') = (Inr (), (s1, b'))"
        "xks s1 = (\<lambda>k. if k \<in> appliedKey st ` set ids then XOther else xks s k)"
      proof (cases "ids = []")
        case True
        with that [of s] show ?thesis by (simp add: mark_applied_def)
      next
        case False
        obtain s1 where p: "pipe_run (\<lambda>i. XSET (x_fst X) (appliedKey st i) ''1'' (appliedTTL g)) ids (s, b') = (map (\<lambda>_. Reply ()) ids, (s1, b'))"
          "xks s1 = (\<lambda>k. if k \<in> appliedKey st ` set ids then XOther else xks s k)"
          using mark_pipe [of st "appliedTTL g" ids s b'] by blast
        have "first_err (map reply_err (map (\<lambda>_. Reply ()) ids)) = None" by (auto simp: first_err_None_iff)
        with p False assms(3,4) that [of s1] show ?thesis by (simp add: mark_applied_def)
      qed
      have "st \<notin> appliedKey st ` set ids" using appliedKey_not_stream [of st] by (metis imageE)
      then have "xks s1 st = XStream es gs" using s1(2) assms(1) by simp
      from XACK [OF this assms(2), of "map MID msgs"] obtain n s2 where "XACK X st (ggroup g) (map MID msgs) s1 = (Reply n, s2)"
        "xks s2 = (xks s1)(st := XStream es (gs(ggroup g \<mapsto> (d, filter (\<lambda>i. i \<notin> set (map MID msgs)) p))))" by blast
      then show ?thesis using ga \<open>collect _ _ = Inr ri\<close> ri ar Inr s1
        by (simp add: io_simps applyRecords_snd x_fst_def)
    qed
  qed
qed

lemma g_apply_Inl:
  fixes eng :: "'e RankingEngine"
  assumes "xks s st = XStream es gs" "gs (ggroup g) = Some (d, p)" "g = worker l rs eng opts" "rdb l = X" "msgs \<noteq> []"
    "g_apply g st msgs (s, b) = (Inl e, (s', b'))"
  shows "s' = s"
proof (cases "collect rs (map (\<lambda>m. (m, marked s st (MID m))) msgs)")
  case (Inl e)
  then show ?thesis using g_apply_cases [OF assms(1-5), of b] assms(6) by simp
next
  case (Inr ri)
  obtain recs ids where ri: "ri = (recs, ids)" by (cases ri)
  obtain q b1 where a: "applyRecords eng rs recs b = (q, b1)" by (cases "applyRecords eng rs recs b")
  show ?thesis using g_apply_cases [OF assms(1-5), of b] assms(6) Inr ri a by (cases q) auto
qed

lemma g_apply_Inr:
  fixes eng :: "'e RankingEngine"
  assumes "xks s st = XStream es gs" "gs (ggroup g) = Some (d, p)" "g = worker l rs eng opts" "rdb l = X" "msgs \<noteq> []"
    "g_apply g st msgs (s, b) = (Inr n, (s', b'))"
  obtains recs ids where "collect rs (map (\<lambda>m. (m, marked s st (MID m))) msgs) = Inr (recs, ids)"
    "applyRecords eng rs recs b = (Inr (), b')" "n = int (length msgs)"
    "xks s' = (\<lambda>k. if k \<in> appliedKey st ` set ids then XOther else xks s k)
       (st := XStream es (gs(ggroup g \<mapsto> (d, filter (\<lambda>i. i \<notin> MID ` set msgs) p))))"
proof (cases "collect rs (map (\<lambda>m. (m, marked s st (MID m))) msgs)")
  case (Inl e)
  then show ?thesis using g_apply_cases [OF assms(1-5), of b] assms(6) by simp
next
  case (Inr ri)
  obtain recs ids where ri: "ri = (recs, ids)" by (cases ri)
  obtain q b1 where a: "applyRecords eng rs recs b = (q, b1)" by (cases "applyRecords eng rs recs b")
  show ?thesis
    using g_apply_cases [OF assms(1-5), of b] assms(6) Inr ri a that [of recs ids] by (cases q) auto
qed

end

subsection \<open>A worker that takes over\<close>

definition demo_rl :: "xmem RedisLog" where
  "demo_rl = NewRedisLog mem_streams ''lb:ingest'' 1 0"

definition demo_opts :: "'w GroupOptions" where
  "demo_opts = \<lparr>oGroup = '''', oConsumer = '''', WorkerIndex = 0, WorkerCount = 1, oBatch = 2, oBlock = 0, oAppliedTTL = 0,
     oClaimMinIdle = 0, oOnConsumed = None\<rparr>"

lemma demo_rl_sel: "rdb demo_rl = mem_streams" "maxLen demo_rl \<le> 0" "1 \<le> partitions demo_rl" "partitions demo_rl < 2 ^ 32" "partitions demo_rl = 1"
  by (simp_all add: demo_rl_def NewRedisLog_def)

definition demo_last :: LogicalBoard where
  "demo_last = demo_inc\<lparr>LConfig := (LConfig demo_inc)\<lparr>UpdatePolicy := UpdateLast\<rparr>\<rparr>"

definition demo_rs_last :: resolver where
  "demo_rs_last = reg_Resolve (Register demo_last NewStaticRegistry)"

text \<open>Two submissions of one member, the first delivered to a worker that died before it applied it.\<close>

definition crash_log :: MemLog where
  "crash_log = map (\<lambda>(i, x). demo_rec\<lparr>ID := mem_id i, RScore := x\<rparr>) [(0, 5), (1, 9)]"

definition crash_x :: xmem where
  "crash_x = \<lparr>xstreams = [(''lb:ingest:0'', map (\<lambda>rec. \<lparr>MID = ID rec, Values = [(''d'', JSON rec)]\<rparr>) crash_log,
     [(''rankers'', 1, [mem_id 0])])], xkeys = []\<rparr>"

definition crash_worker :: "(xmem \<times> mem) GroupConsumer" where
  "crash_worker = worker demo_rl demo_rs_last (redis_engine mem_redis 10) demo_opts"

definition crash_m :: XMessage where
  "crash_m = \<lparr>MID = mem_id 0, Values = [(''d'', JSON (hd crash_log))]\<rparr>"

lemma crash_stream: "mem_xks crash_x ''lb:ingest:0'' =
    XStream (map (\<lambda>rec. \<lparr>MID = ID rec, Values = [(''d'', JSON rec)]\<rparr>) crash_log) [''rankers'' \<mapsto> (1, [mem_id 0])]"
  by (simp add: mem_xks_def crash_x_def)

lemma crash_unmarked: "mem_xks crash_x (appliedKey st i) = XNone"
  by (simp add: mem_xks_def crash_x_def appliedKey_def)

lemma crash_group: "[''rankers'' \<mapsto> (1 :: nat, [mem_id 0])] (ggroup crash_worker) = Some (1, [mem_id 0])"
  by (simp add: crash_worker_def worker_def NewGroupConsumer_def demo_opts_def)

lemma crash_MID: "MID crash_m = mem_id 0"
  by (simp add: crash_m_def)

lemma crash_wanted: "wanted demo_rs_last (\<lambda>m. mem_xks crash_x (appliedKey st (MID m)) \<noteq> XNone) [crash_m] = [crash_m]"
proof -
  have "registered demo_rs_last crash_m" by code_simp
  then show ?thesis by (simp add: wanted_def crash_unmarked)
qed

lemma crash_apply: "\<exists>s b. g_apply crash_worker ''lb:ingest:0'' [crash_m] (crash_x, []) = (Inr 1, (s, b))"
proof -
  obtain r s b where a: "g_apply crash_worker ''lb:ingest:0'' [crash_m] (crash_x, []) = (r, (s, b))" by (rule prod_cases3)
  moreover have "case fst (g_apply crash_worker ''lb:ingest:0'' [crash_m] (crash_x, [])) of Inl _ \<Rightarrow> False | Inr n \<Rightarrow> n = 1" by code_simp
  ultimately have "r = Inr 1" by (cases r) simp_all
  with a show ?thesis by blast
qed

subsection \<open>Delivery\<close>



text \<open>
  Redelivery has no further effect: once a batch was applied, delivering any of its entries
  again, in any order, to any worker of the group, acknowledges them and leaves the engine exactly as
  it is, as long as the markers live.
\<close>

theorem redelivery_once:
  assumes "redis_streams X xks" "rdb l = X" "xks s st = XStream es gs" "gs (ggroup g) = Some (d, p)" "g = worker l rs eng opts"
    and "msgs \<noteq> []" "g_apply g st msgs (s, b) = (Inr n, (s', b'))"
    and "g' = worker l rs eng opts'" "ggroup g' = ggroup g" "again \<noteq> []" "set again \<subseteq> set msgs"
  shows "\<exists>s''. g_apply g' st again (s', b') = (Inr (int (length again)), (s'', b')) \<and>
    xks s'' = (xks s')(st := XStream es (gs(ggroup g \<mapsto> (d, filter (\<lambda>i. i \<notin> MID ` set msgs) p))))"
proof -
  note mk = redis_streams.marked_def [OF assms(1)]
  let ?mk = "\<lambda>m. xks s (appliedKey st (MID m)) \<noteq> XNone" and ?mk' = "\<lambda>m. xks s' (appliedKey st (MID m)) \<noteq> XNone"
  let ?gs = "gs(ggroup g \<mapsto> (d, filter (\<lambda>i. i \<notin> MID ` set msgs) p))"
  obtain recs ids where c1: "collect rs (map (\<lambda>m. (m, ?mk m)) msgs) = Inr (recs, ids)" "applyRecords eng rs recs b = (Inr (), b')"
    "n = int (length msgs)" "xks s' = (\<lambda>k. if k \<in> appliedKey st ` set ids then XOther else xks s k)(st := XStream es ?gs)"
    by (rule redis_streams.g_apply_Inr [OF assms(1,3,4,5,2,6,7), unfolded mk])
  note w = collect_wanted [OF c1(1)]
  have m': "?mk' m \<longleftrightarrow> ?mk m \<or> MID m \<in> set ids" for m
    using c1(4) appliedKey_not_stream by (auto simp: appliedKey_inject)
  have "wanted rs ?mk' again = []"
    unfolding wanted_def filter_empty_conv
  proof (intro ballI notI, elim conjE)
    fix m assume m: "m \<in> set again" "\<not> ?mk' m"
      "registered rs m"
    then have "m \<in> set (wanted rs ?mk msgs)" using assms(11) m' by (auto simp: wanted_def)
    then have "MID m \<in> set ids" using w by simp
    with m(2) m' show False by blast
  qed
  moreover have "collect rs (map (\<lambda>m. (m, ?mk' m)) again) = Inr (map entry_rec (wanted rs ?mk' again), map MID (wanted rs ?mk' again))"
    by (rule collect_all) (use collect_decodes [OF c1(1)] m' assms(11) in blast)
  ultimately have c2: "collect rs (map (\<lambda>m. (m, ?mk' m)) again) = Inr ([], [])" by simp
  have st': "xks s' st = XStream es ?gs" using c1(4) by simp
  have gg: "?gs (ggroup g') = Some (d, filter (\<lambda>i. i \<notin> MID ` set msgs) p)" using assms(9) by simp
  have "filter (\<lambda>i. i \<notin> MID ` set again) (filter (\<lambda>i. i \<notin> MID ` set msgs) p) = filter (\<lambda>i. i \<notin> MID ` set msgs) p"
    using assms(11) by (auto intro: filter_cong)
  moreover have "applyRecords eng rs [] b' = (Inr (), b')" by (simp add: applyRecords_def flush_def io_simps)
  ultimately show ?thesis
    using redis_streams.g_apply_cases [OF assms(1) st' gg assms(8,2,10), of b', unfolded mk c2] assms(9) by simp
qed

theorem redelivery_once_witness:
  "\<exists>s b s'. g_apply crash_worker ''lb:ingest:0'' [crash_m] (crash_x, []) = (Inr 1, (s, b)) \<and>
     g_apply crash_worker ''lb:ingest:0'' [crash_m, crash_m] (s, b) = (Inr 2, (s', b))"
proof -
  obtain s b where a: "g_apply crash_worker ''lb:ingest:0'' [crash_m] (crash_x, []) = (Inr 1, (s, b))" using crash_apply by blast
  obtain s' where "g_apply crash_worker ''lb:ingest:0'' [crash_m, crash_m] (s, b) = (Inr (int (length [crash_m, crash_m])), (s', b))"
    using redelivery_once [OF mem_streams.redis_streams_axioms demo_rl_sel(1) crash_stream crash_group crash_worker_def _ a
        crash_worker_def refl, of "[crash_m, crash_m]"] by auto
  then show ?thesis using a by (intro exI [of _ s] exI [of _ b] exI [of _ s']) simp
qed

subsection \<open>Draining the log\<close>

text \<open>A turn of the loop of \<open>Run\<close> with a live context in which the ticker does not fire.\<close>

definition quiet :: turn where
  "quiet = \<lparr>t_head = None, t_steperr = None, t_sel = Default, t_reclaim = None, t_idle = None\<rparr>"

text \<open>
  A log on a documented stream server beside an engine that the records project onto. The prefix of
  the streams must not make a stream key look like a marker.
\<close>

locale group_world = redis_streams X xks +
  projection "log_fst (redis_log l)" "\<lambda>w. rl_recs l (xks (fst w))" "\<lambda>w. rl_ok l (xks (fst w))" "\<lambda>fuel. engine_snd (eng fuel)"
    "\<lambda>w. en (snd w)" "\<lambda>n w. eok n (snd w)" upd op_ok lb_ok
  for X :: "'s streams" and xks and l :: "'s RedisLog" and eng :: "nat \<Rightarrow> 'e RankingEngine" and en eok upd op_ok lb_ok +
  assumes server: "rdb l = X" and apart: "appliedKey st i \<noteq> StreamName l q"
begin

lemma Partitions_l: "Partitions (log_fst (redis_log l)) = partitions l"
  by (simp add: log_fst_def redis_log_def rl_Partitions_def)

lemma home_l: "home k m = partitionOf (App k) (BoardName k) m (partitions l)"
  by (simp add: home_def Partitions_l)

text \<open>The group \<open>grp\<close> has taken \<open>c p\<close> entries of partition \<open>p\<close> and acknowledged them; the others are unmarked.\<close>

definition ready :: "string \<Rightarrow> (int \<Rightarrow> nat) \<Rightarrow> 's \<Rightarrow> bool" where
  "ready grp c s \<longleftrightarrow> (\<forall>p. 0 \<le> p \<and> p < partitions l \<longrightarrow> (\<exists>es gs. xks s (StreamName l p) = XStream es gs \<and>
     gs grp = Some (c p, []) \<and> (\<forall>m \<in> set (drop (c p) es). \<not> marked s (StreamName l p) (MID m))))"

lemma at_state_log:
  assumes "at_state rs L E0 n c cur (s, b)" "rl_recs l (xks s') = rl_recs l (xks s)" "rl_ok l (xks s')"
  shows "at_state rs L E0 n c cur (s', b)"
  using assms by (simp add: at_state_def)

lemma itoa_dash: "0 \<le> p \<Longrightarrow> 0 \<le> q \<Longrightarrow> itoa p @ CHR ''-'' # x = itoa q @ CHR ''-'' # y \<Longrightarrow> p = q \<and> x = y"
proof -
  assume a: "0 \<le> p" "0 \<le> q" "itoa p @ CHR ''-'' # x = itoa q @ CHR ''-'' # y"
  have d: "takeWhile (\<lambda>c. c \<noteq> CHR ''-'') (itoa r @ CHR ''-'' # z) = itoa r" if "0 \<le> r" for r z
  proof -
    have "\<forall>c \<in> set (itoa r). is_digit c" using that nat_str_digits [of "nat r"] by (simp add: itoa_def list_all_iff)
    then show ?thesis by (subst takeWhile_append2) (auto dest: is_digit_not_sign)
  qed
  have "itoa p = itoa q" using d [OF a(1), of x] d [OF a(2), of y] a(3) by simp
  then show ?thesis using a(3) by (auto dest: itoa_inject)
qed

lemma appliedKey_streams: "0 \<le> p \<Longrightarrow> 0 \<le> q \<Longrightarrow> appliedKey (StreamName l p) i = appliedKey (StreamName l q) j \<Longrightarrow> p = q \<and> i = j"
  by (auto simp: appliedKey_def StreamName_def dest: itoa_dash)

text \<open>The effect of delivering, marking and acknowledging the next entries on log and readiness.\<close>

lemma delivered_state:
  assumes "rl_ok l (xks s)" "ready grp c s" "0 \<le> p" "p < partitions l" "xks s (StreamName l p) = XStream es gs"
    and "xks s' = (\<lambda>k. if k \<in> appliedKey (StreamName l p) ` ids then XOther else xks s k)
      (StreamName l p := XStream es (gs(grp \<mapsto> (d, []))))" "c p \<le> d"
    and "ids \<subseteq> MID ` set (take (d - c p) (drop (c p) es))"
  shows "rl_recs l (xks s') = rl_recs l (xks s)" "rl_ok l (xks s')" "ready grp (c(p := d)) s'"
proof -
  have other: "xks s' (StreamName l q) = (if q = p then XStream es (gs(grp \<mapsto> (d, []))) else xks s (StreamName l q))" for q
    using assms(6) apart by (auto simp: StreamName_inject image_iff) metis+
  then show "rl_recs l (xks s') = rl_recs l (xks s)" using assms(5)
    by (auto simp: rl_recs_def rl_msgs_def stream_at_def fun_eq_iff)
  show "rl_ok l (xks s')" using assms(1,5) other by (auto simp: rl_ok_def stream_at_def)
  have mk: "marked s' (StreamName l q) i \<longleftrightarrow> marked s (StreamName l q) i \<or> (q = p \<and> i \<in> ids)" if "0 \<le> q" for q i
    using assms(3,6) apart that by (auto simp: marked_def appliedKey_inject image_iff dest: appliedKey_streams)
  have di: "distinct (map MID es)" using assms(1,3,4,5) by (fastforce simp: rl_ok_def stream_at_def)
  show "ready grp (c(p := d)) s'" unfolding ready_def
  proof (intro allI impI)
    fix q assume q: "0 \<le> q \<and> q < partitions l"
    show "\<exists>es gs. xks s' (StreamName l q) = XStream es gs \<and> gs grp = Some ((c(p := d)) q, []) \<and>
       (\<forall>m \<in> set (drop ((c(p := d)) q) es). \<not> marked s' (StreamName l q) (MID m))"
    proof (cases "q = p")
      case False
      then show ?thesis using assms(2) q other mk unfolding ready_def by auto
    next
      case True
      have "\<not> marked s' (StreamName l p) (MID m)" if m: "m \<in> set (drop d es)" for m
      proof -
        have "drop d es = drop (d - c p) (drop (c p) es)" using assms(7) by (simp add: add.commute)
        then have m': "m \<in> set (drop (d - c p) (drop (c p) es))" using m by simp
        then have "m \<in> set (drop (c p) es)" by (rule in_set_dropD)
        then have "\<not> marked s (StreamName l p) (MID m)" using assms(2,3,4,5) unfolding ready_def by fastforce
        moreover have "distinct (map MID (take (d - c p) (drop (c p) es) @ drop (d - c p) (drop (c p) es)))"
          using distinct_drop [OF di, of "c p"] by (simp only: append_take_drop_id drop_map)
        then have "MID m \<notin> MID ` set (take (d - c p) (drop (c p) es))" using m' by (auto simp del: append_take_drop_id)
        ultimately show ?thesis using mk assms(3,8) by blast
      qed
      with True show ?thesis using other by auto
    qed
  qed
qed

lemma group_partition:
  fixes opts :: "('s \<times> 'e) GroupOptions"
  assumes "at_state rs L E0 n c cur (s, b)" "log_ok op_ok lb_ok rs L" "ready grp c s" "0 \<le> p" "p < partitions l"
    and g: "\<And>fuel. ggroup (worker l rs (eng fuel) opts) = grp" "\<And>fuel. gbatch (worker l rs (eng fuel) opts) = N"
  defines "c' \<equiv> c(p := min (c p + nat N) (length (L p)))"
  shows "\<exists>F cur' s' b'. (\<forall>fuel \<ge> F. \<forall>ps k. gstep_loop (worker l rs (eng fuel) opts) (p # ps) k (s, b) =
      gstep_loop (worker l rs (eng fuel) opts) ps (k + int (c' p - c p)) (s', b')) \<and>
    at_state rs L E0 n c' cur' (s', b') \<and> ready grp c' s'"
proof -
  let ?st = "StreamName l p" and ?g = "\<lambda>fuel. worker l rs (eng fuel) opts"
  have N: "0 < N" using g(2) [of 0] worker_sel(7) [of l rs "eng 0" opts] by simp
  have st: "rl_ok l (xks s)" "rl_recs l (xks s) = L" "c p \<le> length (L p)"
    using assms(1,4,5) by (simp_all add: at_state_def Partitions_l)
  obtain es gs where es: "xks s ?st = XStream es gs" "gs grp = Some (c p, [])" "\<And>m. m \<in> set (drop (c p) es) \<Longrightarrow> \<not> marked s ?st (MID m)"
    using assms(3-5) unfolding ready_def by blast
  have Lp: "L p = map entry_rec es" using st(2) es(1) assms(4,5) by (auto simp: rl_recs_def rl_msgs_def stream_at_def)
  have eok: "entry_ok (partitions l) p m" if "m \<in> set es" for m
    using st(1) assms(4,5) es(1) that by (fastforce simp: rl_ok_def stream_at_def)
  define ms where "ms = take (nat N) (drop (c p) es)"
  have lms: "c' p = c p + length ms" using st(3) Lp by (simp add: c'_def ms_def)
  show ?thesis
  proof (cases "ms = []")
    case True
    obtain s1 where s1: "XREADGROUP X grp (gconsumer (?g 0)) ?st ''>'' N s = (NilReply, s1)" "xks s1 = xks s"
      using XREADGROUP(1) [OF es(1,2) N, of "gconsumer (?g 0)"] True unfolding ms_def by blast
    have gc: "gconsumer (?g fuel) = gconsumer (?g 0)" for fuel by (simp add: worker_def NewGroupConsumer_def)
    have "gstep_loop (?g fuel) (p # ps) k (s, b) = gstep_loop (?g fuel) ps (k + int (c' p - c p)) (s1, b)" for fuel ps k
    proof -
      have "XREADGROUP (x_fst X) grp (gconsumer (?g fuel)) ?st ''>'' N (s, b) = (NilReply, (s1, b))"
        unfolding gc [of fuel] using s1(1) by (simp add: x_fst_def)
      then show ?thesis using True lms by (simp add: g server)
    qed
    moreover have "c' = c" using lms True by (auto simp: c'_def)
    moreover have "ready grp c s1" using assms(3) s1 by (simp add: ready_def marked_def)
    ultimately show ?thesis using at_state_log [OF assms(1), of s1] s1 st(1) by (intro exI [of _ 0] exI [of _ cur] exI [of _ s1] exI [of _ b]) auto
  next
    case False
    obtain s1 where s1: "XREADGROUP X grp (gconsumer (?g 0)) ?st ''>'' N s = (Reply [(?st, ms)], s1)"
      "xks s1 = (xks s)(?st := XStream es (gs(grp \<mapsto> (c p + length ms, [] @ map MID ms))))"
      using XREADGROUP(2) [OF es(1,2) N refl False [unfolded ms_def], of "gconsumer (?g 0)"] unfolding ms_def by blast
    have mset: "set ms \<subseteq> set (drop (c p) es)" unfolding ms_def by (rule set_take_subset)
    have mk1: "marked s1 st i = marked s st i" if "\<And>i. appliedKey st i \<noteq> ?st" for st i
      using s1(2) that by (simp add: marked_def)
    have r1: "rl_recs l (xks s1) = rl_recs l (xks s)" unfolding s1(2) rl_recs_upd [OF assms(4,5)] using Lp st(2) by (simp add: fun_upd_idem)
    have "distinct (map MID es)" using st(1) assms(4,5) es(1) by (fastforce simp: rl_ok_def stream_at_def)
    then have r2: "rl_ok l (xks s1)" unfolding s1(2) using eok by (intro rl_ok_upd st(1))
    have unm: "\<not> marked s1 ?st (MID m)" if "m \<in> set ms" for m
      using es(3) mset that mk1 [of ?st] appliedKey_not_stream by auto
    have "messageToRecord m \<noteq> Inl e" if "m \<in> set ms" for m e
      using messageToRecord_ok [OF eok [of m]] mset that set_drop_subset by fastforce
    then have col: "collect rs (map (\<lambda>m. (m, marked s1 ?st (MID m))) ms) =
        Inr (map entry_rec (wanted rs (\<lambda>m. marked s1 ?st (MID m)) ms), map MID (wanted rs (\<lambda>m. marked s1 ?st (MID m)) ms))"
      by (intro collect_all)
    define new where "new = wanted rs (\<lambda>m. marked s1 ?st (MID m)) ms"
    have "map entry_rec new = filter (\<lambda>rec. rs (RApp rec) (RBoard rec) \<noteq> None) (map entry_rec ms)"
      unfolding new_def wanted_def filter_map
    proof (intro arg_cong [where f = "map entry_rec"] filter_cong refl)
      fix m assume m: "m \<in> set ms"
      then have "messageToRecord m = Inr (Some (entry_rec m))" using eok mset set_drop_subset messageToRecord_ok by fastforce
      then show "(\<not> marked s1 ?st (MID m) \<and> registered rs m) = ((\<lambda>rec. rs (RApp rec) (RBoard rec) \<noteq> None) \<circ> entry_rec) m"
        using unm m by (simp add: registered_simps)
    qed
    then have ap: "applyRecords e rs (map entry_rec new) w = applyRecords e rs (map entry_rec ms) w" for e :: "'e RankingEngine" and w
      by (simp only: applyRecords_def apply_loop_filter)
    have pp: "p < Partitions (log_fst (redis_log l) :: ('s \<times> 'e) Log)" using assms(5) by (simp add: Partitions_l)
    have bt: "map entry_rec ms = take (nat N) (drop (c p) (L p))" by (simp add: ms_def Lp take_map drop_map)
    obtain F w2 where w2: "\<forall>fuel \<ge> F. applyRecords (engine_snd (eng fuel)) rs (map entry_rec ms) (s1, b) = (Inr (), w2)"
      "at_state rs L E0 n c' (cur(p := cursor_at (L p) (c' p))) w2"
      using apply_next [OF at_state_log [OF assms(1) r1 r2] assms(2,4) pp, of "nat N"] unfolding bt c'_def by auto
    obtain b2 where b2: "w2 = (s1, b2)" "\<forall>fuel \<ge> F. applyRecords (eng fuel) rs (map entry_rec ms) b = (Inr (), b2)"
    proof -
      have "\<forall>fuel \<ge> F. applyRecords (eng fuel) rs (map entry_rec ms) b = (Inr (), snd w2) \<and> fst w2 = s1"
        using w2(1) by (simp add: applyRecords_snd_eq)
      then show thesis using that [of "snd w2"] by (metis order_refl prod.collapse)
    qed
    have st1: "xks s1 ?st = XStream es (gs(grp \<mapsto> (c p + length ms, map MID ms)))" using s1(2) by simp
    have gr: "(gs(grp \<mapsto> (c p + length ms, map MID ms))) (ggroup (?g F)) = Some (c p + length ms, map MID ms)" using g(1) by simp
    have fl: "filter (\<lambda>i. i \<notin> MID ` set ms) (map MID ms) = []" by (auto simp: filter_empty_conv)
    have "applyRecords (eng F) rs (map entry_rec new) b = (Inr (), b2)" using b2(2) ap by simp
    then obtain s3 where s3: "g_apply (?g F) ?st ms (s1, b) = (Inr (int (length ms)), (s3, b2))"
      "xks s3 = (\<lambda>k. if k \<in> appliedKey ?st ` set (map MID new) then XOther else xks s1 k)
         (?st := XStream es (gs(grp \<mapsto> (c p + length ms, []))))"
      using g_apply_cases [OF st1 gr refl server False, of b] unfolding col new_def [symmetric] g(1) fl by auto
    have run: "g_apply (?g fuel) ?st ms (s1, b) = (Inr (int (length ms)), (s3, b2))" if "F \<le> fuel" for fuel
      using g_apply_engine [OF col _ server False, of "eng fuel" b "eng F" opts] b2(2) that ap s3(1) unfolding new_def by simp
    have gc: "gconsumer (?g fuel) = gconsumer (?g 0)" for fuel by (simp add: worker_def NewGroupConsumer_def)
    have "gstep_loop (?g fuel) (p # ps) k (s, b) = gstep_loop (?g fuel) ps (k + int (c' p - c p)) (s3, b2)" if "F \<le> fuel" for fuel ps k
    proof -
      have "XREADGROUP (x_fst X) grp (gconsumer (?g fuel)) ?st ''>'' N (s, b) = (Reply [(?st, ms)], (s1, b))"
        unfolding gc [of fuel] using s1(1) by (simp add: x_fst_def)
      then show ?thesis using run [OF that] lms by (simp add: g server)
    qed
    moreover have "xks s3 = (\<lambda>k. if k \<in> appliedKey ?st ` (MID ` set new) then XOther else xks s k)
         (?st := XStream es (gs(grp \<mapsto> (c p + length ms, []))))" unfolding s3(2) s1(2) by auto
    note ds = delivered_state [OF st(1) assms(3-5) es(1) this]
    have "MID ` set new \<subseteq> MID ` set (take (c p + length ms - c p) (drop (c p) es))"
    proof -
      have "take (c p + length ms - c p) (drop (c p) es) = ms" by (simp add: ms_def min_def)
      then show ?thesis by (auto simp: new_def wanted_def)
    qed
    note ds = ds [OF le_add1 this]
    have "at_state rs L E0 n c' (cur(p := cursor_at (L p) (c' p))) (s3, b2)"
      using at_state_log [OF w2(2) [unfolded b2(1)], of s3] ds(1,2) r1 by simp
    moreover have "ready grp c' s3" using ds(3) lms by (simp add: c'_def)
    ultimately show ?thesis by blast
  qed
qed

lemma group_loop:
  fixes opts :: "('s \<times> 'e) GroupOptions"
  assumes "at_state rs L E0 n c cur (s, b)" "log_ok op_ok lb_ok rs L" "ready grp c s" "\<forall>p \<in> set ps. 0 \<le> p \<and> p < partitions l"
    and g: "\<And>fuel. ggroup (worker l rs (eng fuel) opts) = grp"
  shows "\<exists>F c' cur' s' b' d. (\<forall>fuel \<ge> F. \<forall>k. gstep_loop (worker l rs (eng fuel) opts) ps k (s, b) = ((k + int d, None), (s', b'))) \<and>
    at_state rs L E0 n c' cur' (s', b') \<and> ready grp c' s' \<and> left (partitions l) L c = left (partitions l) L c' + d \<and>
    (d = 0 \<longrightarrow> (\<forall>p \<in> set ps. c p = length (L p)) \<and> c' = c)"
  using assms(1,3,4)
proof (induction ps arbitrary: c cur s b)
  case Nil
  then show ?case by (intro exI [of _ 0] exI [of _ c] exI [of _ cur] exI [of _ s] exI [of _ b]) simp
next
  case (Cons p ps)
  let ?g = "\<lambda>fuel. worker l rs (eng fuel) opts"
  define N where "N = gbatch (?g 0)"
  have gN: "\<And>fuel. gbatch (?g fuel) = N" by (simp add: N_def worker_def NewGroupConsumer_def)
  have N: "0 < N" unfolding N_def by (rule worker_sel(7))
  have p: "0 \<le> p" "p < partitions l" using Cons.prems(3) by auto
  define c1 where "c1 = c(p := min (c p + nat N) (length (L p)))"
  have cp: "c p \<le> length (L p)" using Cons.prems(1) p by (simp add: at_state_def Partitions_l)
  obtain F1 cur1 s1 b1 where s1: "\<forall>fuel \<ge> F1. \<forall>ps k. gstep_loop (?g fuel) (p # ps) k (s, b) = gstep_loop (?g fuel) ps (k + int (c1 p - c p)) (s1, b1)"
    "at_state rs L E0 n c1 cur1 (s1, b1)" "ready grp c1 s1"
    using group_partition [OF Cons.prems(1) assms(2) Cons.prems(2) p g gN] unfolding c1_def by blast
  obtain F2 c2 cur2 s2 b2 d where s2: "\<forall>fuel \<ge> F2. \<forall>k. gstep_loop (?g fuel) ps k (s1, b1) = ((k + int d, None), (s2, b2))"
    "at_state rs L E0 n c2 cur2 (s2, b2)" "ready grp c2 s2" "left (partitions l) L c1 = left (partitions l) L c2 + d"
    "d = 0 \<longrightarrow> (\<forall>p \<in> set ps. c1 p = length (L p)) \<and> c2 = c1"
    using Cons.IH [OF s1(2,3)] Cons.prems(3) unfolding list.set by blast
  have l1: "left (partitions l) L c = left (partitions l) L c1 + (c1 p - c p)"
    unfolding left_def by (rule sum_upd [OF p]) (use cp in \<open>auto simp: c1_def\<close>)
  have "c1 = c \<and> c p = length (L p)" if "c1 p = c p" using that cp N by (auto simp: c1_def fun_eq_iff min_def split: if_splits)
  moreover have "c p \<le> c1 p" using cp by (simp add: c1_def)
  ultimately have z: "c1 p - c p = 0 \<longrightarrow> c1 = c \<and> c p = length (L p)" by auto
  have "gstep_loop (?g fuel) (p # ps) k (s, b) = ((k + int (c1 p - c p + d), None), (s2, b2))" if "max F1 F2 \<le> fuel" for fuel k
  proof -
    have "gstep_loop (?g fuel) (p # ps) k (s, b) = gstep_loop (?g fuel) ps (k + int (c1 p - c p)) (s1, b1)"
      "gstep_loop (?g fuel) ps (k + int (c1 p - c p)) (s1, b1) = ((k + int (c1 p - c p) + int d, None), (s2, b2))"
      using s1(1) s2(1) that by simp_all
    then show ?thesis by (simp only: of_nat_add add.assoc)
  qed
  moreover have "left (partitions l) L c = left (partitions l) L c2 + (c1 p - c p + d)" using l1 s2(4) by simp
  moreover have "c1 p - c p + d = 0 \<longrightarrow> (\<forall>q \<in> set (p # ps). c q = length (L q)) \<and> c2 = c" using z s2(5) by auto
  ultimately show ?case using s2(2,3)
    by (intro exI [of _ "max F1 F2"] exI [of _ c2] exI [of _ cur2] exI [of _ s2] exI [of _ b2] exI [of _ "c1 p - c p + d"] conjI) blast+
qed

lemma ensure_groups:
  fixes opts :: "('s \<times> 'e) GroupOptions"
  assumes "\<And>p. p \<in> set ps \<Longrightarrow> \<exists>es gs. stream_at (xks s) (StreamName l p) = Some (es, gs) \<and> gs grp = None"
    "distinct ps"
  shows "\<exists>s'. io_each (\<lambda>p w. case XGROUPCREATE (x_fst X) (StreamName l p) grp ''0'' w of
       (Reply _, w') \<Rightarrow> (Inr (), w') | (NilReply, w') \<Rightarrow> (Inl RedisNil, w')
     | (ErrReply m, w') \<Rightarrow> (if str_contains m ''BUSYGROUP'' then Inr () else Inl (RedisErr m), w')) ps (s, b) = (Inr (), (s', b)) \<and>
    (\<forall>k. k \<notin> StreamName l ` set ps \<longrightarrow> xks s' k = xks s k) \<and>
    (\<forall>p \<in> set ps. \<forall>es gs. stream_at (xks s) (StreamName l p) = Some (es, gs) \<longrightarrow> xks s' (StreamName l p) = XStream es (gs(grp \<mapsto> (0, []))))"
  using assms
proof (induction ps arbitrary: s)
  case (Cons p ps)
  obtain es gs where e: "stream_at (xks s) (StreamName l p) = Some (es, gs)" "gs grp = None" using Cons.prems(1) by force
  obtain s1 where s1: "XGROUPCREATE X (StreamName l p) grp ''0'' s = (Reply (), s1)"
    "xks s1 = (xks s)(StreamName l p := XStream es (gs(grp \<mapsto> (0, []))))" using XGROUPCREATE(1) [OF e] by blast
  have other: "stream_at (xks s1) (StreamName l q) = stream_at (xks s) (StreamName l q)" if "q \<in> set ps" for q
    using Cons.prems(2) that s1(2) by (auto simp: stream_at_def StreamName_inject)
  have ex: "\<exists>es gs. stream_at (xks s1) (StreamName l q) = Some (es, gs) \<and> gs grp = None" if "q \<in> set ps" for q
    using Cons.prems(1) that other by simp
  have di: "distinct ps" using Cons.prems(2) by simp
  from Cons.IH [OF ex di] obtain s2 where s2: "io_each (\<lambda>p w. case XGROUPCREATE (x_fst X) (StreamName l p) grp ''0'' w of
       (Reply _, w') \<Rightarrow> (Inr (), w') | (NilReply, w') \<Rightarrow> (Inl RedisNil, w')
     | (ErrReply m, w') \<Rightarrow> (if str_contains m ''BUSYGROUP'' then Inr () else Inl (RedisErr m), w')) ps (s1, b) = (Inr (), (s2, b))"
    "\<forall>k. k \<notin> StreamName l ` set ps \<longrightarrow> xks s2 k = xks s1 k"
    "\<forall>p \<in> set ps. \<forall>es gs. stream_at (xks s1) (StreamName l p) = Some (es, gs) \<longrightarrow> xks s2 (StreamName l p) = XStream es (gs(grp \<mapsto> (0, [])))"
    by blast
  have "XGROUPCREATE (x_fst X) (StreamName l p) grp ''0'' (s, b) = (Reply (), (s1, b))" using s1(1) by (simp add: x_fst_def)
  then have "io_each (\<lambda>p w. case XGROUPCREATE (x_fst X) (StreamName l p) grp ''0'' w of
       (Reply _, w') \<Rightarrow> (Inr (), w') | (NilReply, w') \<Rightarrow> (Inl RedisNil, w')
     | (ErrReply m, w') \<Rightarrow> (if str_contains m ''BUSYGROUP'' then Inr () else Inl (RedisErr m), w')) (p # ps) (s, b) = (Inr (), (s2, b))"
    using s2(1) by (simp add: io_bind_def)
  moreover have "StreamName l p \<notin> StreamName l ` set ps" using Cons.prems(2) by (auto simp: StreamName_inject)
  ultimately show ?case using s2(2,3) s1(2) e other by (intro exI [of _ s2]) auto
qed (simp add: io_simps)

text \<open>Turns in which nothing but the log drives the loop.\<close>

lemma run_quiet:
  fixes opts :: "('s \<times> 'e) GroupOptions"
  assumes "at_state rs L E0 n c cur (s, b)" "log_ok op_ok lb_ok rs L" "ready grp c s"
    and "\<And>fuel. ggroup (worker l rs (eng fuel) opts) = grp" "\<And>fuel. owned (worker l rs (eng fuel) opts) = [0..partitions l - 1]"
  shows "\<exists>F c' cur' s' b'. (\<forall>fuel \<ge> F. run_loop cf (worker l rs (eng fuel) opts) (replicate k quiet) (s, b) = (None, (s', b'))) \<and>
    at_state rs L E0 n c' cur' (s', b') \<and> ready grp c' s' \<and> left (partitions l) L c' \<le> left (partitions l) L c - k"
  using assms(1,3)
proof (induction k arbitrary: c cur s b)
  case 0
  then show ?case by (intro exI [of _ 0] exI [of _ c] exI [of _ cur] exI [of _ s] exI [of _ b]) simp
next
  case (Suc k)
  let ?g = "\<lambda>fuel. worker l rs (eng fuel) opts"
  have in_parts: "\<forall>p \<in> set [0..partitions l - 1]. 0 \<le> p \<and> p < partitions l" by simp
  obtain F1 c1 cur1 s1 b1 d where s1: "\<forall>fuel \<ge> F1. \<forall>k. gstep_loop (?g fuel) [0..partitions l - 1] k (s, b) = ((k + int d, None), (s1, b1))"
    "at_state rs L E0 n c1 cur1 (s1, b1)" "ready grp c1 s1" "left (partitions l) L c = left (partitions l) L c1 + d"
    "d = 0 \<longrightarrow> (\<forall>p \<in> set [0..partitions l - 1]. c p = length (L p)) \<and> c1 = c"
    using group_loop [OF Suc.prems(1) assms(2) Suc.prems(2) in_parts assms(4)] by blast
  have dec: "left (partitions l) L c1 \<le> left (partitions l) L c - 1"
  proof (cases "d = 0")
    case True
    then have "left (partitions l) L c = 0" using s1(5) by (auto simp: left_def)
    then show ?thesis using s1(4) by simp
  qed (use s1(4) in simp)
  obtain F2 c2 cur2 s2 b2 where s2: "\<forall>fuel \<ge> F2. run_loop cf (?g fuel) (replicate k quiet) (s1, b1) = (None, (s2, b2))"
    "at_state rs L E0 n c2 cur2 (s2, b2)" "ready grp c2 s2" "left (partitions l) L c2 \<le> left (partitions l) L c1 - k"
    using Suc.IH [OF s1(2,3)] by blast
  have "\<forall>fuel \<ge> max F1 F2. run_loop cf (?g fuel) (replicate (Suc k) quiet) (s, b) = (None, (s2, b2))"
  proof (intro allI impI)
    fix fuel assume "max F1 F2 \<le> fuel"
    then have "g_Step (?g fuel) (s, b) = ((int d, None), (s1, b1))" "run_loop cf (?g fuel) (replicate k quiet) (s1, b1) = (None, (s2, b2))"
      using s1(1) s2(1) by (simp_all add: g_Step_def assms(5) del: worker_sel)
    then show "run_loop cf (?g fuel) (replicate (Suc k) quiet) (s, b) = (None, (s2, b2))" by (simp add: quiet_def after_select_def)
  qed
  moreover have "left (partitions l) L c2 \<le> left (partitions l) L c - Suc k" using s2(4) dec by linarith
  ultimately show ?case using s2(2,3) by blast
qed

lemma Run_drains:
  fixes opts :: "('s \<times> 'e) GroupOptions"
  assumes "rl_ok l (xks s)" "log_ok op_ok lb_ok rs L" "L = rl_recs l (xks s)" "eok (todo (partitions l) rs L (\<lambda>_. 0) + n) b" "partitions l < 2 ^ 32"
    and g: "\<And>fuel. ggroup (worker l rs (eng fuel) opts) = grp" "\<And>fuel. owned (worker l rs (eng fuel) opts) = [0..partitions l - 1]"
    and unread: "\<forall>p es gs. 0 \<le> p \<and> p < partitions l \<and> stream_at (xks s) (StreamName l p) = Some (es, gs) \<longrightarrow> gs grp = None \<and>
      (\<forall>m \<in> set es. xks s (appliedKey (StreamName l p) (MID m)) = XNone)"
    and k: "left (partitions l) L (\<lambda>_. 0) \<le> k"
  shows "\<exists>F s' b'. (\<forall>fuel \<ge> F. g_Run cf (worker l rs (eng fuel) opts) (replicate k quiet) (s, b) = (None, (s', b'))) \<and>
    rl_recs l (xks s') = L \<and> (\<forall>k m. en b' k m = replay upd rs k m (L (home k m)) (en b k m)) \<and>
    (\<forall>p. 0 \<le> p \<and> p < partitions l \<longrightarrow> (\<exists>es gs. xks s' (StreamName l p) = XStream es gs \<and> gs grp = Some (length es, [])))"
proof -
  have new: "gs grp = None \<and> (\<forall>m \<in> set es. xks s (appliedKey (StreamName l p) (MID m)) = XNone)"
    if "0 \<le> p" "p < partitions l" "stream_at (xks s) (StreamName l p) = Some (es, gs)" for p es gs using unread that by blast
  have ex: "\<exists>es gs. stream_at (xks s) (StreamName l p) = Some (es, gs) \<and> gs grp = None" if "p \<in> set [0..partitions l - 1]" for p
    using that assms(1) new unfolding rl_ok_def by (metis atLeastAtMost_iff set_upto zle_diff1_eq)
  obtain s1 where s1: "\<And>fuel. EnsureGroups (worker l rs (eng fuel) opts) (s, b) = (Inr (), (s1, b))"
    "\<forall>k. k \<notin> StreamName l ` set [0..partitions l - 1] \<longrightarrow> xks s1 k = xks s k"
    "\<forall>p \<in> set [0..partitions l - 1]. \<forall>es gs. stream_at (xks s) (StreamName l p) = Some (es, gs) \<longrightarrow>
       xks s1 (StreamName l p) = XStream es (gs(grp \<mapsto> (0, [])))"
  proof -
    obtain s1 where "EnsureGroups (worker l rs (eng fuel) opts) (s, b) = (Inr (), (s1, b))"
        "\<forall>k. k \<notin> StreamName l ` set [0..partitions l - 1] \<longrightarrow> xks s1 k = xks s k"
        "\<forall>p \<in> set [0..partitions l - 1]. \<forall>es gs. stream_at (xks s) (StreamName l p) = Some (es, gs) \<longrightarrow>
           xks s1 (StreamName l p) = XStream es (gs(grp \<mapsto> (0, [])))" for fuel
      using ensure_groups [OF ex distinct_upto, where b = b] unfolding EnsureGroups_def g unfolding worker_sel server by blast
    then show thesis by (rule that)
  qed
  have p1: "xks s1 (StreamName l p) = XStream es (gs(grp \<mapsto> (0, [])))"
    if "0 \<le> p" "p < partitions l" "stream_at (xks s) (StreamName l p) = Some (es, gs)" for p es gs using s1(3) that by simp
  have mk: "xks s1 (appliedKey st i) = xks s (appliedKey st i)" for st i using s1(2) apart by (metis imageE)
  have r1: "rl_recs l (xks s1) = L" unfolding assms(3) rl_recs_def rl_msgs_def fun_eq_iff
    using p1 assms(1) by (auto simp: rl_ok_def) (fastforce simp: stream_at_def)
  have o1: "rl_ok l (xks s1)" using assms(1) p1 unfolding rl_ok_def by (fastforce simp: stream_at_def)
  have rd: "ready grp (\<lambda>_. 0) s1" unfolding ready_def
  proof (intro allI impI)
    fix p assume p: "0 \<le> p \<and> p < partitions l"
    then obtain es gs where e: "stream_at (xks s) (StreamName l p) = Some (es, gs)" using assms(1) unfolding rl_ok_def by blast
    then show "\<exists>es gs. xks s1 (StreamName l p) = XStream es gs \<and> gs grp = Some (0, []) \<and>
       (\<forall>m \<in> set (drop 0 es). \<not> marked s1 (StreamName l p) (MID m))"
      using p1 [OF _ _ e] p new [OF _ _ e] mk by (auto simp: marked_def)
  qed
  have "at_state rs L (en b) n (\<lambda>_. 0) (\<lambda>_. '''') (s1, b)"
    using r1 o1 assms(4) by (simp add: at_state_def cursor_at_def replay_def Partitions_l)
  from run_quiet [OF this assms(2) rd g, of cf k] obtain F c' cur' s' b' where
    f: "\<forall>fuel \<ge> F. run_loop cf (worker l rs (eng fuel) opts) (replicate k quiet) (s1, b) = (None, (s', b'))"
    "at_state rs L (en b) n c' cur' (s', b')" "ready grp c' s'" "left (partitions l) L c' \<le> left (partitions l) L (\<lambda>_. 0) - k" by blast
  have "left (partitions l) L c' = 0" using f(4) k by simp
  then have "length (L p) - c' p = 0" if "0 \<le> p" "p < partitions l" for p using that by (auto simp: left_def)
  moreover have "c' p \<le> length (L p)" if "0 \<le> p" "p < partitions l" for p using f(2) that by (auto simp: at_state_def Partitions_l)
  ultimately have full: "c' p = length (L p)" if "0 \<le> p" "p < partitions l" for p using that by (metis diff_is_0_eq' le_antisym diff_is_0_eq)
  have rec': "rl_recs l (xks s') = L" using f(2) by (simp add: at_state_def)
  have "1 \<le> partitions l" using partitions unfolding Partitions_l .
  then have "0 \<le> home k m" "home k m < partitions l" for k m
    using partitionOf_range [of "partitions l" "App k" "BoardName k" m] assms(5) by (simp_all add: home_def Partitions_l)
  then have "en b' k m = replay upd rs k m (L (home k m)) (en b k m)" for k m
    using f(2) full [of "home k m"] by (simp add: at_state_def)
  moreover have "\<exists>es gs. xks s' (StreamName l p) = XStream es gs \<and> gs grp = Some (length es, [])" if p: "0 \<le> p" "p < partitions l" for p
  proof -
    obtain es gs where e: "xks s' (StreamName l p) = XStream es gs" "gs grp = Some (c' p, [])" using f(3) p unfolding ready_def by blast
    moreover have "length es = length (L p)" using rec' [symmetric] p e(1) by (simp add: rl_recs_def rl_msgs_def stream_at_def)
    ultimately show ?thesis using full [OF p] by simp
  qed
  moreover have "\<forall>fuel \<ge> F. g_Run cf (worker l rs (eng fuel) opts) (replicate k quiet) (s, b) = (None, (s', b'))"
    using f(1) s1(1) by (simp add: g_Run_def)
  ultimately show ?thesis using rec' by blast
qed

end

lemma redis_group_world:
  assumes "redis_streams X xks" "redis_docs R ks" "rdb l = X" "maxLen l \<le> 0" "1 \<le> partitions l" "partitions l < 2 ^ 32"
    "\<And>st i q. appliedKey st i \<noteq> StreamName l q"
  shows "group_world X xks l (redis_engine R) (\<lambda>e. entries_of (ks e)) (\<lambda>n e. eng_ok (cvt_oor R) rs S n (ks e)) (op_upd (cvt_oor R))
    (op_fine (cvt_oor R) rs S) (lb_fine rs)"
  by (intro group_world.intro group_world_axioms.intro assms(1,3,7)
      redis_projection [OF redis_streams.event_log_redis [OF assms(1,3-6)] assms(2)])

lemma ingest_keys_apart: "appliedKey st i \<noteq> StreamName (NewRedisLog X ''lb:ingest'' n mx) q"
  by (simp add: appliedKey_def StreamName_def NewRedisLog_def)

interpretation mem_group: group_world mem_streams mem_xks "NewRedisLog mem_streams ''lb:ingest'' 16 0" "redis_engine mem_redis"
  "\<lambda>e. entries_of (mem_ks e)" "\<lambda>n e. eng_ok (cvt_oor mem_redis) rs S n (mem_ks e)" "op_upd (cvt_oor mem_redis)"
  "op_fine (cvt_oor mem_redis) rs S" "lb_fine rs" for rs S
  by (rule redis_group_world [OF mem_streams.redis_streams_axioms mem_docs.redis_docs_axioms _ _ _ _ ingest_keys_apart])
    (simp_all add: NewRedisLog_def)


definition demo_x :: xmem where
  "demo_x = \<lparr>xstreams = [(''lb:ingest:0'', map (\<lambda>rec. \<lparr>MID = ID rec, Values = [(''d'', JSON rec)]\<rparr>) demo_log, [])], xkeys = []\<rparr>"

lemma demo_stream: "mem_xks demo_x (StreamName demo_rl 0) = XStream (map (\<lambda>rec. \<lparr>MID = ID rec, Values = [(''d'', JSON rec)]\<rparr>) demo_log) Map.empty"
proof -
  have "StreamName demo_rl 0 = ''lb:ingest:0''" by code_simp
  then show ?thesis by (simp add: mem_xks_def demo_x_def)
qed

lemma demo_rl_recs: "rl_recs demo_rl (mem_xks demo_x) = mem_recs demo_log"
proof
  fix p
  have "map (\<lambda>rec. entry_rec \<lparr>MID = ID rec, Values = [(''d'', JSON rec)]\<rparr>) demo_log = demo_log" by (rule map_idI) (simp add: entry_rec_def)
  then show "rl_recs demo_rl (mem_xks demo_x) p = mem_recs demo_log p"
    by (simp add: rl_recs_def rl_msgs_def demo_rl_sel stream_at_def mem_recs_def demo_stream comp_def)
qed

lemma demo_rl_ok: "rl_ok demo_rl (mem_xks demo_x)"
proof -
  have "distinct (map ID demo_log)" "list_all (\<lambda>rec. ID rec \<noteq> '''') demo_log" by code_simp+
  then show ?thesis unfolding rl_ok_def
  proof (intro allI impI)
    fix p assume "0 \<le> p \<and> p < partitions demo_rl"
    then have p: "p = 0" by (simp add: demo_rl_sel)
    show "\<exists>es gs. stream_at (mem_xks demo_x) (StreamName demo_rl p) = Some (es, gs) \<and> distinct (map MID es) \<and>
        (\<forall>m \<in> set es. entry_ok (partitions demo_rl) p m)"
      unfolding p stream_at_def demo_stream using \<open>distinct _\<close> \<open>list_all _ _\<close>
      by (simp add: demo_rl_sel entry_ok_def list_all_iff comp_def route_one)
  qed
qed


subsection \<open>Reclaiming\<close>


context redis_streams
begin

text \<open>
  Every round of the claim loop moves the cursor past at least one pending entry, and what it
  applies lies behind the cursor, so the number of pending entries ahead bounds the rounds.
\<close>

lemma claim_loop_fuel:
  fixes eng :: "'e RankingEngine"
  assumes "xks s st = XStream es gs" "gs (ggroup g) = Some (d, a @ b)" "g = worker l rs eng opts" "rdb l = X"
    "distinct (map MID es)" "distinct (a @ b)" "if start = ''0-0'' then a = [] else b \<noteq> [] \<and> hd b = start"
    "length b < fuel" "length b < fuel'"
  shows "claim_loop fuel g st start n (s, e) = claim_loop fuel' g st start n (s, e) \<and>
    (\<forall>k. k \<noteq> st \<and> (\<forall>i. k \<noteq> appliedKey st i) \<longrightarrow> xks (fst (snd (claim_loop fuel g st start n (s, e)))) k = xks s k)"
  using assms(1,2,6-9)
proof (induction "length b" arbitrary: s e a b start fuel fuel' n gs rule: less_induct)
  case less
  obtain f f' where f: "fuel = Suc f" "fuel' = Suc f'" using less.prems(5,6) by (cases fuel; cases fuel') auto
  have N: "0 < gbatch g" using assms(3) by simp
  obtain ms b1 b2 s1 where c: "XAUTOCLAIM X st (ggroup g) (gconsumer g) (claimMinIdle g) start (gbatch g) s =
      (Reply (ms, if b2 = [] then ''0-0'' else hd b2), s1)" "xks s1 = xks s" "b = b1 @ b2" "b1 = [] \<longrightarrow> b = []"
      "set (map MID ms) \<subseteq> set b1"
    using XAUTOCLAIM(1) [OF less.prems(1,2) N less.prems(4) assms(5) less.prems(3), of "gconsumer g" "claimMinIdle g"] by blast
  have x: "XAUTOCLAIM (rdb (glog g)) st (ggroup g) (gconsumer g) (claimMinIdle g) start (gbatch g) (s, e) =
      (Reply (ms, if b2 = [] then ''0-0'' else hd b2), (s1, e))" using c(1) assms(3,4) by (simp add: x_fst_def)
  have st1: "xks s1 st = XStream es gs" using less.prems(1) c(2) by simp
  show ?case
  proof (cases "if ms = [] then (Inr 0, (s1, e)) else g_apply g st ms (s1, e)")
    case (fields r s2 e2)
    define w2 where w2: "w2 = (s2, e2)"
    note Pair = fields [folded w2]
    have step: "claim_loop (Suc h) g st start n (s, e) = (case r of Inl q \<Rightarrow> (Inl (n, Some q), w2)
       | Inr k \<Rightarrow> if b2 = [] \<or> hd b2 = ''0-0'' \<or> hd b2 = '''' then (Inr (n + k), w2) else claim_loop h g st (hd b2) (n + k) w2)" for h
      using x Pair by (simp split: sum.splits)
    show ?thesis
    proof (cases r)
      case (Inl q)
      have "s2 = s1" using g_apply_Inl [OF st1 less.prems(2) assms(3,4), of ms e q s2 e2] Pair Inl w2 by (auto split: if_splits)
      then show ?thesis using step f Inl w2 c(2) by simp
    next
      case (Inr k)
      have s2: "(\<exists>a'. xks s2 st = XStream es (gs(ggroup g \<mapsto> (d, a' @ b2))) \<and> distinct (a' @ b2)) \<and>
          (\<forall>k. k \<noteq> st \<and> (\<forall>i. k \<noteq> appliedKey st i) \<longrightarrow> xks s2 k = xks s k)"
      proof (cases "ms = []")
        case True
        then have "s2 = s1" using Pair w2 by simp
        moreover have "gs(ggroup g \<mapsto> (d, (a @ b1) @ b2)) = gs" using less.prems(2) c(3) by (auto simp: fun_eq_iff)
        moreover have "distinct ((a @ b1) @ b2)" using less.prems(3) c(3) by simp
        ultimately have "xks s2 st = XStream es (gs(ggroup g \<mapsto> (d, (a @ b1) @ b2))) \<and> distinct ((a @ b1) @ b2)" using st1 by simp
        moreover have "xks s2 k = xks s k" for k using \<open>s2 = s1\<close> c(2) by simp
        ultimately show ?thesis by blast
      next
        case False
        then have "g_apply g st ms (s1, e) = (Inr k, (s2, e2))" using Pair w2 Inr by simp
        from g_apply_Inr [OF st1 less.prems(2) assms(3,4) False this] obtain ids where
          k2: "xks s2 = (\<lambda>k. if k \<in> appliedKey st ` set ids then XOther else xks s1 k)
             (st := XStream es (gs(ggroup g \<mapsto> (d, filter (\<lambda>i. i \<notin> MID ` set ms) (a @ b)))))" by blast
        have "\<forall>i \<in> set b2. i \<notin> MID ` set ms" using c(3,5) less.prems(3) by auto
        then have "filter (\<lambda>i. i \<notin> MID ` set ms) (a @ b) = filter (\<lambda>i. i \<notin> MID ` set ms) (a @ b1) @ b2"
          using c(3) by simp
        moreover have "distinct (filter (\<lambda>i. i \<notin> MID ` set ms) (a @ b))" using less.prems(3) by (rule distinct_filter)
        ultimately have "xks s2 st = XStream es (gs(ggroup g \<mapsto> (d, filter (\<lambda>i. i \<notin> MID ` set ms) (a @ b1) @ b2))) \<and>
            distinct (filter (\<lambda>i. i \<notin> MID ` set ms) (a @ b1) @ b2)" using k2 by simp
        moreover have "xks s2 k = xks s k" if "k \<noteq> st \<and> (\<forall>i. k \<noteq> appliedKey st i)" for k using k2 c(2) that by auto
        ultimately show ?thesis by blast
      qed
      show ?thesis
      proof (cases "b2 = [] \<or> hd b2 = ''0-0'' \<or> hd b2 = ''''")
        case True
        then show ?thesis using step f Inr w2 s2 by auto
      next
        case False
        obtain a' where a': "xks s2 st = XStream es (gs(ggroup g \<mapsto> (d, a' @ b2)))" "distinct (a' @ b2)"
          "\<forall>k. k \<noteq> st \<and> (\<forall>i. k \<noteq> appliedKey st i) \<longrightarrow> xks s2 k = xks s k" using s2 by blast
        have "b1 \<noteq> []" using c(3,4) False by auto
        then have lt: "length b2 < length b" using c(3) by simp
        have gg: "(gs(ggroup g \<mapsto> (d, a' @ b2))) (ggroup g) = Some (d, a' @ b2)" by simp
        have cur: "if hd b2 = ''0-0'' then a' = [] else b2 \<noteq> [] \<and> hd b2 = hd b2" using False by simp
        have ff: "length b2 < f" "length b2 < f'" using lt f less.prems(5,6) by simp_all
        note ih = less.hyps [OF lt a'(1) gg a'(2) cur ff, of "n + k" e2]
        have "claim_loop (Suc h) g st start n (s, e) = claim_loop h g st (hd b2) (n + k) (s2, e2)" for h
          using step [of h] Inr w2 False by (simp only: sum.case if_False)
        then show ?thesis using ih a'(3) unfolding f by auto
      qed
    qed
  qed
qed

lemma reclaim_loop_fuel:
  fixes eng :: "'e RankingEngine"
  assumes "g = worker l rs eng opts" "rdb l = X" "\<And>st i q. appliedKey st i \<noteq> StreamName l q" "distinct ps"
    "\<And>p. p \<in> set ps \<Longrightarrow> \<exists>es gs d pend. xks s (StreamName l p) = XStream es gs \<and> gs (ggroup g) = Some (d, pend) \<and>
       distinct (map MID es) \<and> distinct pend \<and> length pend < fuel \<and> length pend < fuel'"
  shows "reclaim_loop fuel g ps n (s, e) = reclaim_loop fuel' g ps n (s, e)"
  using assms(4,5)
proof (induction ps arbitrary: s e n)
  case (Cons p ps)
  obtain es gs d pend where p: "xks s (StreamName l p) = XStream es gs" "gs (ggroup g) = Some (d, [] @ pend)"
    "distinct (map MID es)" "distinct ([] @ pend)" "length pend < fuel" "length pend < fuel'" using Cons.prems(2) by force
  note c = claim_loop_fuel [OF p(1,2) assms(1,2) p(3,4) _ p(5,6), of "''0-0''" n e]
  obtain r s1 e1 where r: "claim_loop fuel g (StreamName l p) ''0-0'' n (s, e) = (r, (s1, e1))" by (rule prod_cases3)
  have r': "claim_loop fuel' g (StreamName l p) ''0-0'' n (s, e) = (r, (s1, e1))" using c r by simp
  have same: "xks s1 (StreamName l q) = xks s (StreamName l q)" if "q \<in> set ps" for q
  proof -
    have "StreamName l q \<noteq> StreamName l p" using that Cons.prems(1) by (auto simp: StreamName_inject)
    then show ?thesis using c r assms(3) [symmetric] by auto
  qed
  have "reclaim_loop fuel g ps k (s1, e1) = reclaim_loop fuel' g ps k (s1, e1)" for k
    using Cons.prems same by (intro Cons.IH) auto
  then show ?case using r r' assms(1) by (auto split: sum.splits)
qed simp

end

text \<open>
  (C37) \<open>Reclaim\<close> ends: the loop of each partition makes at most one round more than the partition
  has pending entries, whatever the server claims and whatever the engine answers, so no bound on
  the rounds above that changes the outcome.
\<close>

theorem reclaim_terminates:
  assumes "redis_streams X xks" "rdb l = X" "g = worker l rs eng opts" "\<And>st i q. appliedKey st i \<noteq> StreamName l q"
    and "\<And>p. p \<in> set (owned g) \<Longrightarrow> \<exists>es gs d pend. xks s (StreamName l p) = XStream es gs \<and> gs (ggroup g) = Some (d, pend) \<and>
       distinct (map MID es) \<and> distinct pend \<and> length pend \<le> n"
    and "n < fuel"
  shows "Reclaim fuel g (s, e) = Reclaim (Suc n) g (s, e)"
proof -
  have d: "distinct (owned g)" using assms(3) by (simp add: OwnedPartitions_def)
  have "reclaim_loop fuel g (owned g) 0 (s, e) = reclaim_loop (Suc n) g (owned g) 0 (s, e)"
    by (rule redis_streams.reclaim_loop_fuel [OF assms(1,3,2,4) d]) (use assms(5,6) in \<open>fastforce simp: less_Suc_eq_le\<close>)
  then show ?thesis by (simp add: Reclaim_def)
qed

theorem reclaim_terminates_witness:
  "Reclaim 1000 crash_worker (crash_x, []) = Reclaim 2 crash_worker (crash_x, [])"
proof -
  have "owned crash_worker = [0]" "StreamName demo_rl 0 = ''lb:ingest:0''" "distinct (map ID crash_log)" by code_simp+
  moreover from this have "\<exists>es gs d pend. mem_xks crash_x (StreamName demo_rl p) = XStream es gs \<and> gs (ggroup crash_worker) = Some (d, pend) \<and>
      distinct (map MID es) \<and> distinct pend \<and> length pend \<le> 1" if "p \<in> set (owned crash_worker)" for p
    using that crash_stream crash_group by (simp add: comp_def)
  ultimately show ?thesis
    using reclaim_terminates [OF mem_streams.redis_streams_axioms demo_rl_sel(1) crash_worker_def
        ingest_keys_apart [where n = 1 and mx = 0 and X = mem_streams, folded demo_rl_def], of crash_x 1 1000 "[]"]
    by (simp add: numeral_2_eq_2)
qed

end
