(* ===== verification/Go_Crypto.thy ===== *)
theory Go_Crypto
  imports Prelude "HOL-Library.Word"
begin

text \<open>
  What the program uses of \<open>crypto/sha256\<close>, \<open>crypto/hmac\<close> and \<open>encoding/hex\<close>: SHA-256 as in FIPS
  180-4, HMAC as in RFC 2104, both on strings of bytes, and lower-case hexadecimal digits.
\<close>

unbundle bit_operations_syntax

subsection \<open>Hexadecimal digits\<close>

definition hex_digit :: "nat \<Rightarrow> char" where
  "hex_digit n = (''0123456789abcdef'' ! n)"

fun hex_encode :: "string \<Rightarrow> string" where
  "hex_encode [] = []"
| "hex_encode (c # cs) = (let n = (of_char c :: nat) in hex_digit (n div 16) # hex_digit (n mod 16) # hex_encode cs)"

lemma hex_digit_inject: "m < 16 \<Longrightarrow> n < 16 \<Longrightarrow> hex_digit m = hex_digit n \<Longrightarrow> m = n"
proof -
  assume a: "m < 16" "n < 16" "hex_digit m = hex_digit n"
  have "distinct ''0123456789abcdef''" by code_simp
  then show ?thesis using a unfolding hex_digit_def by (subst (asm) nth_eq_iff_index_eq) simp_all
qed

lemma length_hex_encode [simp]: "length (hex_encode s) = 2 * length s"
  by (induction s) (simp_all add: Let_def)

lemma of_char_div: "(of_char c :: nat) div 16 < 16"
  using nat_of_char_less_256 [of c] by (simp add: less_mult_imp_div_less)

lemma hex_encode_inject: "hex_encode s = hex_encode t \<Longrightarrow> s = t"
proof (induction s arbitrary: t)
  case (Cons c cs)
  then obtain d ds where t: "t = d # ds" by (cases t) (simp_all add: Let_def)
  have b: "(of_char c :: nat) div 16 < 16" "(of_char d :: nat) div 16 < 16" by (rule of_char_div)+
  have "(of_char c :: nat) div 16 = of_char d div 16" "(of_char c :: nat) mod 16 = of_char d mod 16"
    using Cons.prems t b by (auto simp: Let_def intro!: hex_digit_inject)
  then have "(of_char c :: nat) = of_char d" by (metis div_mult_mod_eq)
  then have "c = d" by (simp add: of_char_eq_iff)
  with Cons t show ?case by (simp add: Let_def)
next
  case Nil
  then show ?case by (cases t) (simp_all add: Let_def)
qed

definition is_hex :: "char \<Rightarrow> bool" where
  "is_hex c \<longleftrightarrow> c \<in> set ''0123456789abcdef''"

lemma is_hex_digit: "n < 16 \<Longrightarrow> is_hex (hex_digit n)"
  unfolding is_hex_def hex_digit_def by (rule nth_mem) simp

lemma hex_encode_chars: "list_all is_hex (hex_encode s)"
  by (induction s) (simp_all add: Let_def is_hex_digit of_char_div)

subsection \<open>SHA-256\<close>

definition K256 :: "32 word list" where
  "K256 = [
     0x428A2F98, 0x71374491, 0xB5C0FBCF, 0xE9B5DBA5, 0x3956C25B, 0x59F111F1, 0x923F82A4, 0xAB1C5ED5,
     0xD807AA98, 0x12835B01, 0x243185BE, 0x550C7DC3, 0x72BE5D74, 0x80DEB1FE, 0x9BDC06A7, 0xC19BF174,
     0xE49B69C1, 0xEFBE4786, 0x0FC19DC6, 0x240CA1CC, 0x2DE92C6F, 0x4A7484AA, 0x5CB0A9DC, 0x76F988DA,
     0x983E5152, 0xA831C66D, 0xB00327C8, 0xBF597FC7, 0xC6E00BF3, 0xD5A79147, 0x06CA6351, 0x14292967,
     0x27B70A85, 0x2E1B2138, 0x4D2C6DFC, 0x53380D13, 0x650A7354, 0x766A0ABB, 0x81C2C92E, 0x92722C85,
     0xA2BFE8A1, 0xA81A664B, 0xC24B8B70, 0xC76C51A3, 0xD192E819, 0xD6990624, 0xF40E3585, 0x106AA070,
     0x19A4C116, 0x1E376C08, 0x2748774C, 0x34B0BCB5, 0x391C0CB3, 0x4ED8AA4A, 0x5B9CCA4F, 0x682E6FF3,
     0x748F82EE, 0x78A5636F, 0x84C87814, 0x8CC70208, 0x90BEFFFA, 0xA4506CEB, 0xBEF9A3F7, 0xC67178F2]"

definition H256 :: "32 word list" where
  "H256 = [
     0x6A09E667, 0xBB67AE85, 0x3C6EF372, 0xA54FF53A, 0x510E527F, 0x9B05688C, 0x1F83D9AB, 0x5BE0CD19]"

text \<open>Big-endian words of bytes and back.\<close>

fun be_words :: "int list \<Rightarrow> 32 word list" where
  "be_words (a # b # c # d # rest) = word_of_int (((a * 256 + b) * 256 + c) * 256 + d) # be_words rest"
| "be_words _ = []"

definition be_bytes :: "nat \<Rightarrow> int \<Rightarrow> int list" where
  "be_bytes k n = map (\<lambda>i. n div 256 ^ (k - 1 - i) mod 256) [0..<k]"

definition sha_pad :: "int list \<Rightarrow> int list" where
  "sha_pad m = m @ 0x80 # replicate ((119 - length m mod 64) mod 64) 0 @ be_bytes 8 (8 * int (length m))"

definition small_sigma0 :: "32 word \<Rightarrow> 32 word" where
  "small_sigma0 x = word_rotr 7 x XOR word_rotr 18 x XOR drop_bit 3 x"

definition small_sigma1 :: "32 word \<Rightarrow> 32 word" where
  "small_sigma1 x = word_rotr 17 x XOR word_rotr 19 x XOR drop_bit 10 x"

definition big_sigma0 :: "32 word \<Rightarrow> 32 word" where
  "big_sigma0 x = word_rotr 2 x XOR word_rotr 13 x XOR word_rotr 22 x"

definition big_sigma1 :: "32 word \<Rightarrow> 32 word" where
  "big_sigma1 x = word_rotr 6 x XOR word_rotr 11 x XOR word_rotr 25 x"

text \<open>The message schedule, latest word first.\<close>

primrec sha_schedule :: "nat \<Rightarrow> 32 word list \<Rightarrow> 32 word list" where
  "sha_schedule 0 ws = ws"
| "sha_schedule (Suc n) ws = sha_schedule n ((small_sigma1 (ws ! 1) + ws ! 6 + small_sigma0 (ws ! 14) + ws ! 15) # ws)"

fun sha_round :: "32 word \<times> 32 word \<Rightarrow> 32 word list \<Rightarrow> 32 word list" where
  "sha_round (k, w) [a, b, c, d, e, f, g, h] =
     (let t1 = h + big_sigma1 e + ((e AND f) XOR (NOT e AND g)) + k + w;
          t2 = big_sigma0 a + ((a AND b) XOR (a AND c) XOR (b AND c))
      in [t1 + t2, a, b, c, d + t1, e, f, g])"
| "sha_round _ s = s"

definition sha_block :: "32 word list \<Rightarrow> 32 word list \<Rightarrow> 32 word list" where
  "sha_block ws hs = map2 (+) hs (fold sha_round (zip K256 (rev (sha_schedule 48 (rev ws)))) hs)"

fun sha_blocks :: "nat \<Rightarrow> 32 word list \<Rightarrow> 32 word list \<Rightarrow> 32 word list" where
  "sha_blocks 0 ws hs = hs"
| "sha_blocks (Suc n) ws hs = sha_blocks n (drop 16 ws) (sha_block (take 16 ws) hs)"

definition sha256 :: "string \<Rightarrow> string" where
  "sha256 s = (let ws = be_words (sha_pad (map of_char s)) in
     map char_of (concat (map (\<lambda>w. be_bytes 4 (uint w)) (sha_blocks (length ws div 16) ws H256))))"

lemma length_sha_round: "length (sha_round x hs) = length hs"
  by (cases "(x, hs)" rule: sha_round.cases) (simp_all add: Let_def)

lemma length_sha_rounds: "length (fold sha_round xs hs) = length hs"
  by (induction xs arbitrary: hs) (simp_all add: length_sha_round)

lemma length_sha_blocks: "length (sha_blocks n ws hs) = length hs"
  by (induction n ws hs rule: sha_blocks.induct) (simp_all add: sha_block_def length_sha_rounds)

lemma length_concat_const: "(\<And>x. length (f x) = n) \<Longrightarrow> length (concat (map f xs)) = n * length xs"
  by (induction xs) simp_all

lemma length_sha256: "length (sha256 s) = 32"
  unfolding sha256_def Let_def
  by (simp add: length_concat_const [where n = 4] be_bytes_def length_sha_blocks H256_def)

definition hmac_sha256 :: "string \<Rightarrow> string \<Rightarrow> string" where
  "hmac_sha256 key m =
     (let k0 = (if length key > 64 then sha256 key else key);
          k = map of_char k0 @ replicate (64 - length k0) (0 :: int);
          mask = (\<lambda>p. map (\<lambda>b. char_of (b XOR p)) k)
      in sha256 (mask 0x5c @ sha256 (mask 0x36 @ m)))"

text \<open>The example of FIPS 180-4.\<close>

lemma sha256_abc: "hex_encode (sha256 ''abc'') = ''ba7816bf8f01cfea414140de5dae2223b00361a396177a9cb410ff61f20015ad''"
  by code_simp

end
