(* ===== verification/Trust.thy ===== *)
theory Trust
  imports Go_Crypto Go_Time
begin

text \<open>
  Signed submissions, \<open>pkg/trust/hmac.go\<close>: the canonical message, its HMAC signature, the derivation
  of an app's signing secret, and the verifier with its freshness window.
\<close>

subsection \<open>\<open>strconv.FormatFloat(x, 'f', -1, 64)\<close>\<close>

text \<open>
  The shortest decimal digits that read back as the same float64, the nearest ones of that length:
  \<open>x\<close> lies in \<open>[10 ^ (e - 1), 10 ^ e)\<close>, and the two decimals of \<open>n\<close> digits next to it are tried for
  growing \<open>n\<close> (17 digits are enough for every float64).
\<close>

fun lead_zeros :: "nat \<Rightarrow> rat \<Rightarrow> int" where
  "lead_zeros 0 x = 0"
| "lead_zeros (Suc f) x = (if 1 / 10 \<le> x then 0 else 1 + lead_zeros f (10 * x))"

definition dec_exp :: "rat \<Rightarrow> int" where
  "dec_exp x = (if 1 \<le> x then int (length (itoa \<lfloor>x\<rfloor>)) else - lead_zeros 330 x)"

definition pow10 :: "int \<Rightarrow> rat" where
  "pow10 k = (if 0 \<le> k then 10 ^ nat k else 1 / 10 ^ nat (- k))"

fun shortest :: "nat \<Rightarrow> int \<Rightarrow> rat \<Rightarrow> int \<times> int" where
  "shortest 0 n x = (round_even (x / pow10 (dec_exp x - n)), dec_exp x - n)"
| "shortest (Suc f) n x =
     (let k = dec_exp x - n; lo = \<lfloor>x / pow10 k\<rfloor>; hi = lo + 1; near = round_even (x / pow10 k);
          good = (\<lambda>d. fl64 (of_int d * pow10 k) = x)
      in if good near then (near, k) else if good lo then (lo, k) else if good hi then (hi, k) else shortest f (n + 1) x)"

definition trim_zeros :: "string \<Rightarrow> string" where
  "trim_zeros s = rev (dropWhile (\<lambda>c. c = CHR ''0'') (rev s))"

text \<open>The digits \<open>ds\<close> with the decimal point after the first \<open>e\<close> of them.\<close>

definition place_point :: "string \<Rightarrow> int \<Rightarrow> string" where
  "place_point ds e =
     (if e \<le> 0 then ''0.'' @ replicate (nat (- e)) CHR ''0'' @ ds
      else if int (length ds) \<le> e then ds @ replicate (nat e - length ds) CHR ''0''
      else take (nat e) ds @ ''.'' @ drop (nat e) ds)"

definition format_pos :: "rat \<Rightarrow> string" where
  "format_pos x = (case shortest 17 1 x of (d, k) \<Rightarrow>
     let ds = itoa d in place_point (trim_zeros ds) (int (length ds) + k))"

definition format_float :: "rat \<Rightarrow> string" where
  "format_float x = (if x = 0 then ''0'' else if x < 0 then CHR ''-'' # format_pos (- x) else format_pos x)"

subsection \<open>Signing\<close>

fun join :: "string \<Rightarrow> string list \<Rightarrow> string" where
  "join sep [] = []"
| "join sep [s] = s"
| "join sep (s # t # ss) = s @ sep @ join sep (t # ss)"

definition newline :: char where "newline = CHR 0x0A"

definition canonical :: "string \<Rightarrow> string \<Rightarrow> string \<Rightarrow> rat \<Rightarrow> int \<Rightarrow> string \<Rightarrow> string" where
  "canonical app board member score ts nonce = join [newline] [app, board, member, format_float score, itoa ts, nonce]"

definition Sign :: "string \<Rightarrow> string \<Rightarrow> string \<Rightarrow> string \<Rightarrow> rat \<Rightarrow> int \<Rightarrow> string \<Rightarrow> string" where
  "Sign secret app board member score ts nonce = hex_encode (hmac_sha256 secret (canonical app board member score ts nonce))"

definition DeriveAppSecret :: "string \<Rightarrow> string \<Rightarrow> int \<Rightarrow> string" where
  "DeriveAppSecret master appID version =
     ''lbsk_'' @ hex_encode (hmac_sha256 master (''openleaderboard/app-signing/v1'' @ [newline] @ appID @ [newline] @ itoa version))"

subsection \<open>Verification\<close>

record Verifier =
  secret :: string
  maxSkew :: duration

definition NewVerifier :: "string \<Rightarrow> duration \<Rightarrow> Verifier" where
  "NewVerifier sec skew = \<lparr>secret = sec, maxSkew = (if skew \<le> 0 then 5 * 60 * second else skew)\<rparr>"

text \<open>
  \<open>time.Unix(ts, 0)\<close> counts seconds from the year 1 in an int64, and \<open>t.Sub(u)\<close> saturates at the
  least and the greatest duration.
\<close>

definition unixToInternal :: int where "unixToInternal = 62135596800"

definition go_unix :: "int \<Rightarrow> gotime" where
  "go_unix ts = wrap64 (ts + unixToInternal) * second"

definition go_sub :: "gotime \<Rightarrow> gotime \<Rightarrow> duration" where
  "go_sub t u = max (- (2 ^ 63)) (min (2 ^ 63 - 1) (t - u))"

definition Verify :: "Verifier \<Rightarrow> string \<Rightarrow> int \<Rightarrow> gotime \<Rightarrow> string \<Rightarrow> string \<Rightarrow> string \<Rightarrow> rat \<Rightarrow> string \<Rightarrow> err + unit" where
  "Verify v sig ts now app board member score nonce =
     (let skew = go_sub now (go_unix ts);
          skew = (if skew < 0 then wrap64 (- skew) else skew)
      in if maxSkew v < skew then Inl ErrStaleSubmission
         else if Sign (secret v) app board member score ts nonce \<noteq> sig then Inl ErrBadSignature
         else Inr ())"

subsection \<open>Properties\<close>

text \<open>A timestamp more than the range of a duration ahead of the clock: its distance is reported as negative.\<close>

definition far_future :: "gotime \<Rightarrow> int \<Rightarrow> bool" where
  "far_future now ts \<longleftrightarrow> now - go_unix ts \<le> - (2 ^ 63)"

lemma skew_cases:
  assumes "0 < m" "m < 2 ^ 63 - 1"
  shows "m < (let k = go_sub now (go_unix ts) in if k < 0 then wrap64 (- k) else k) \<longleftrightarrow> m < \<bar>now - go_unix ts\<bar> \<and> \<not> far_future now ts"
proof -
  define d where "d = now - go_unix ts"
  have f: "far_future now ts \<longleftrightarrow> d \<le> - (2 ^ 63)" by (simp add: far_future_def d_def)
  consider "d \<le> - (2 ^ 63)" | "- (2 ^ 63) < d" "d < 0" | "0 \<le> d" by linarith
  then show ?thesis
  proof cases
    case 1
    then have "go_sub now (go_unix ts) = - (2 ^ 63)" by (simp add: go_sub_def d_def)
    moreover have "wrap64 (- (- (2 ^ 63))) = - (2 ^ 63)" by code_simp
    ultimately show ?thesis using 1 f assms by simp
  next
    case 2
    then have "go_sub now (go_unix ts) = d" "wrap64 (- d) = - d" by (simp_all add: go_sub_def d_def)
    then show ?thesis using 2 f by (simp add: d_def)
  next
    case 3
    then have "go_sub now (go_unix ts) = min (2 ^ 63 - 1) d" by (simp add: go_sub_def d_def)
    then show ?thesis using 3 f assms by (auto simp: d_def min_def)
  qed
qed

text \<open>
  (C9) The verifier accepts a submission exactly when its signature is the one of its own fields
  and its timestamp is within the allowed skew of the clock, or so far in the future that the
  subtraction of the times overflows: such a timestamp is never stale.
\<close>

theorem verify_exact:
  assumes "skew < 2 ^ 63 - 1"
  shows "Verify (NewVerifier sec skew) sig ts now app board member score nonce =
    (let m = (if skew \<le> 0 then 5 * 60 * second else skew) in
     if m < \<bar>now - go_unix ts\<bar> \<and> \<not> far_future now ts then Inl ErrStaleSubmission
     else if sig = Sign sec app board member score ts nonce then Inr () else Inl ErrBadSignature)"
proof -
  define m where "m = (if skew \<le> 0 then 5 * 60 * second else skew)"
  have m: "0 < m" "m < 2 ^ 63 - 1" using assms by (auto simp: m_def second_def)
  show ?thesis
    using skew_cases [OF m, of now ts] by (auto simp: Verify_def NewVerifier_def Let_def m_def split: if_splits)
qed

theorem verify_exact_witness:
  "Verify (NewVerifier ''s3cret'' 0) (Sign ''s3cret'' ''app1'' ''kills'' ''al'' 7 20000000000 ''n1'') 20000000000 0 ''app1'' ''kills'' ''al'' 7 ''n1'' = Inr ()"
proof -
  have "far_future 0 20000000000" by code_simp
  then show ?thesis using verify_exact [of 0 "''s3cret''"] by simp
qed

end
