(* ===== verification/Go_Unicode.thy ===== *)
theory Go_Unicode
  imports Go_Json
begin

text \<open>
  What the program uses of \<open>unicode\<close>, \<open>unicode/utf8\<close> and of the functions of \<open>strings\<close> that work on
  runes. Ranging over a string decodes it into runes, one replacement character for every byte
  that is not part of a valid sequence; \<open>chunks\<close> keeps with each rune the bytes it was read from.
  The tables of white space and of the category C are those of Unicode 15 (Go 1.23). The table of
  lower-case letters is an argument \<open>low\<close>, a function on runes.
\<close>

subsection \<open>Runes\<close>

definition RuneError :: int where "RuneError = 0xFFFD"

definition cont_bits :: "char \<Rightarrow> int" where
  "cont_bits c = of_char c - 0x80"

fun rune_val :: "string \<Rightarrow> int" where
  "rune_val [a] = of_char a"
| "rune_val [a, b] = (of_char a - 0xC0) * 64 + cont_bits b"
| "rune_val [a, b, c] = ((of_char a - 0xE0) * 64 + cont_bits b) * 64 + cont_bits c"
| "rune_val [a, b, c, d] = (((of_char a - 0xF0) * 64 + cont_bits b) * 64 + cont_bits c) * 64 + cont_bits d"
| "rune_val _ = RuneError"

function chunks :: "string \<Rightarrow> (int \<times> string) list" where
  "chunks [] = []"
| "chunks (c # cs) = (let n = rune_width (c # cs) in
     if n = 0 then (RuneError, [c]) # chunks cs
     else (rune_val (take n (c # cs)), take n (c # cs)) # chunks (drop (n - 1) cs))"
  by pat_completeness auto
termination
  by (relation "measure length") auto

abbreviation chunk_bytes :: "(int \<times> string) list \<Rightarrow> string" where
  "chunk_bytes cs \<equiv> concat (map snd cs)"

definition runes :: "string \<Rightarrow> int list" where
  "runes s = map fst (chunks s)"

definition byte_char :: "int \<Rightarrow> char" where
  "byte_char n = char_of (nat n)"

text \<open>\<open>utf8.AppendRune\<close>: a rune out of range or in the surrogate range becomes the replacement character.\<close>

definition encode_rune :: "int \<Rightarrow> string" where
  "encode_rune r =
     (if 0 \<le> r \<and> r \<le> 0x7F then [byte_char r]
      else if 0x80 \<le> r \<and> r \<le> 0x7FF then [byte_char (0xC0 + r div 64), byte_char (0x80 + r mod 64)]
      else if 0x800 \<le> r \<and> r \<le> 0xFFFF \<and> \<not> (0xD800 \<le> r \<and> r \<le> 0xDFFF)
        then [byte_char (0xE0 + r div 4096), byte_char (0x80 + r div 64 mod 64), byte_char (0x80 + r mod 64)]
      else if 0x10000 \<le> r \<and> r \<le> 0x10FFFF
        then [byte_char (0xF0 + r div 262144), byte_char (0x80 + r div 4096 mod 64), byte_char (0x80 + r div 64 mod 64), byte_char (0x80 + r mod 64)]
      else rune_error)"

subsection \<open>Tables\<close>

definition in_table :: "(int \<times> int) list \<Rightarrow> int \<Rightarrow> bool" where
  "in_table t r = list_ex (\<lambda>(a, b). a \<le> r \<and> r \<le> b) t"

text \<open>\<open>unicode.IsSpace\<close>.\<close>

definition IsSpace :: "int \<Rightarrow> bool" where
  "IsSpace = in_table [(0x09, 0x0D), (0x20, 0x20), (0x85, 0x85), (0xA0, 0xA0), (0x1680, 0x1680), (0x2000, 0x200A),
     (0x2028, 0x2029), (0x202F, 0x202F), (0x205F, 0x205F), (0x3000, 0x3000)]"

text \<open>\<open>unicode.Is(unicode.C, r)\<close>: control, format, surrogate and private-use runes.\<close>

definition Is_C :: "int \<Rightarrow> bool" where
  "Is_C = in_table [(0x00, 0x1F), (0x7F, 0x9F), (0xAD, 0xAD), (0x600, 0x605), (0x61C, 0x61C), (0x6DD, 0x6DD), (0x70F, 0x70F),
     (0x890, 0x891), (0x8E2, 0x8E2), (0x180E, 0x180E), (0x200B, 0x200F), (0x202A, 0x202E), (0x2060, 0x2064), (0x2066, 0x206F),
     (0xD800, 0xF8FF), (0xFEFF, 0xFEFF), (0xFFF9, 0xFFFB), (0x110BD, 0x110BD), (0x110CD, 0x110CD), (0x13430, 0x1343F),
     (0x1BCA0, 0x1BCA3), (0x1D173, 0x1D17A), (0xE0001, 0xE0001), (0xE0020, 0xE007F), (0xF0000, 0xFFFFD), (0x100000, 0x10FFFD)]"

text \<open>A table of lower-case letters for ASCII only, to run the model with.\<close>

definition ascii_low :: "int \<Rightarrow> int" where
  "ascii_low r = (if 0x41 \<le> r \<and> r \<le> 0x5A then r + 32 else r)"

subsection \<open>Functions on strings\<close>

definition RuneCountInString :: "string \<Rightarrow> int" where
  "RuneCountInString s = int (length (chunks s))"

definition trim_chunks :: "(int \<times> string) list \<Rightarrow> (int \<times> string) list" where
  "trim_chunks cs = rev (dropWhile (IsSpace \<circ> fst) (rev (dropWhile (IsSpace \<circ> fst) cs)))"

definition TrimSpace :: "string \<Rightarrow> string" where
  "TrimSpace s = chunk_bytes (trim_chunks (chunks s))"

definition ToLower :: "(int \<Rightarrow> int) \<Rightarrow> string \<Rightarrow> string" where
  "ToLower low s = concat (map (encode_rune \<circ> low) (runes s))"

subsection \<open>Decoding\<close>

lemma byte_in_append: "byte_in lo hi s i \<Longrightarrow> byte_in lo hi (s @ t) i"
  by (auto simp: byte_in_def nth_append)

text \<open>The four shapes of a valid sequence, told apart by the first byte.\<close>

definition shape1 :: "string \<Rightarrow> bool" where
  "shape1 s \<longleftrightarrow> byte_in 0 0x7F s 0"

definition shape2 :: "string \<Rightarrow> bool" where
  "shape2 s \<longleftrightarrow> byte_in 0xC2 0xDF s 0 \<and> byte_in 0x80 0xBF s 1"

definition shape3 :: "string \<Rightarrow> bool" where
  "shape3 s \<longleftrightarrow> (byte_in 0xE0 0xE0 s 0 \<and> byte_in 0xA0 0xBF s 1 \<or> byte_in 0xE1 0xEC s 0 \<and> byte_in 0x80 0xBF s 1 \<or>
               byte_in 0xED 0xED s 0 \<and> byte_in 0x80 0x9F s 1 \<or> byte_in 0xEE 0xEF s 0 \<and> byte_in 0x80 0xBF s 1) \<and>
              byte_in 0x80 0xBF s 2"

definition shape4 :: "string \<Rightarrow> bool" where
  "shape4 s \<longleftrightarrow> (byte_in 0xF0 0xF0 s 0 \<and> byte_in 0x90 0xBF s 1 \<or> byte_in 0xF1 0xF3 s 0 \<and> byte_in 0x80 0xBF s 1 \<or>
               byte_in 0xF4 0xF4 s 0 \<and> byte_in 0x80 0x8F s 1) \<and>
              byte_in 0x80 0xBF s 2 \<and> byte_in 0x80 0xBF s 3"

definition shape :: "nat \<Rightarrow> string \<Rightarrow> bool" where
  "shape n s \<longleftrightarrow> n = 1 \<and> shape1 s \<or> n = 2 \<and> shape2 s \<or> n = 3 \<and> shape3 s \<or> n = 4 \<and> shape4 s"

lemmas shapes = shape1_def shape2_def shape3_def shape4_def

lemma shape1_append: "shape1 s \<Longrightarrow> shape1 (s @ t)"
  unfolding shapes by (rule byte_in_append)

lemma shape2_append: "shape2 s \<Longrightarrow> shape2 (s @ t)"
  unfolding shapes by (blast intro: byte_in_append)

lemma shape3_append: "shape3 s \<Longrightarrow> shape3 (s @ t)"
  unfolding shapes by (blast intro: byte_in_append)

lemma shape4_append: "shape4 s \<Longrightarrow> shape4 (s @ t)"
  unfolding shapes by (blast intro: byte_in_append)

lemma shape_append: "shape n s \<Longrightarrow> shape n (s @ t)"
  unfolding shape_def using shape1_append shape2_append shape3_append shape4_append by blast

lemma byte_in_take: "byte_in lo hi s i \<Longrightarrow> i < n \<Longrightarrow> byte_in lo hi (take n s) i"
  by (simp add: byte_in_def)

lemma shape1_take: "shape1 s \<Longrightarrow> shape1 (take 1 s)"
  unfolding shapes by (rule byte_in_take) simp_all

lemma shape2_take: "shape2 s \<Longrightarrow> shape2 (take 2 s)"
  unfolding shapes by (simp add: byte_in_take)

lemma shape3_take: "shape3 s \<Longrightarrow> shape3 (take 3 s)"
  unfolding shapes by (elim conjE disjE) (simp_all add: byte_in_take)

lemma shape4_take: "shape4 s \<Longrightarrow> shape4 (take 4 s)"
  unfolding shapes by (elim conjE disjE) (simp_all add: byte_in_take)

lemma shape_take: "shape n s \<Longrightarrow> shape n (take n s)"
  unfolding shape_def using shape1_take shape2_take shape3_take shape4_take by blast

lemma shape_len: "shape1 s \<Longrightarrow> s \<noteq> []" "shape2 s \<Longrightarrow> 1 < length s" "shape3 s \<Longrightarrow> 2 < length s" "shape4 s \<Longrightarrow> 3 < length s"
  by (simp_all only: shapes byte_in_def) auto

lemma shape_pos: "shape n s \<Longrightarrow> 0 < n \<and> n \<le> length s"
  unfolding shape_def by (auto simp: Suc_le_eq dest: shape_len)

lemma shape_first:
  assumes "shape n s"
  shows "n = (let b = of_char (s ! 0) :: nat in if b \<le> 0x7F then 1 else if b \<le> 0xDF then 2 else if b \<le> 0xEF then 3 else 4)"
  using assms unfolding shape_def shapes byte_in_def Let_def by (elim disjE conjE) simp_all

lemma shape_unique:
  assumes "shape m s" "shape n s"
  shows "m = n"
  by (rule trans [OF shape_first [OF assms(1)] shape_first [OF assms(2), symmetric]])

lemma rune_width_shape:
  "rune_width s = (if shape1 s then 1 else if shape2 s then 2 else if shape3 s then 3 else if shape4 s then 4 else 0)"
  unfolding rune_width_def shapes by (rule refl)

lemma shape_width: "shape n s \<Longrightarrow> rune_width s = n"
proof -
  assume a: "shape n s"
  have u: "shape m s \<Longrightarrow> m = n" for m using shape_unique [OF a] by simp
  have "0 < rune_width s" using a by (auto simp: shape_def rune_width_shape)
  then have "shape (rune_width s) s" by (simp add: rune_width_shape shape_def split: if_splits)
  then show ?thesis by (rule u)
qed

lemma width_shape: "0 < rune_width s \<Longrightarrow> shape (rune_width s) s"
  by (simp add: rune_width_shape shape_def split: if_splits)

lemma rune_width_append: "0 < rune_width s \<Longrightarrow> rune_width (s @ t) = rune_width s"
  by (rule shape_width [OF shape_append [OF width_shape]])

lemma rune_width_take: "0 < rune_width s \<Longrightarrow> rune_width (take (rune_width s) s) = rune_width s"
  by (rule shape_width [OF shape_take [OF width_shape]])

lemma rune_width_le: "rune_width s \<le> length s"
  using shape_pos [OF width_shape, of s] by (cases "rune_width s") auto

lemma chunk_bytes_chunks [simp]: "chunk_bytes (chunks s) = s"
proof (induction s rule: chunks.induct)
  case (2 c cs)
  define n where "n = rune_width (c # cs)"
  show ?case
  proof (cases "n = 0")
    case True
    then show ?thesis using 2(1) by (simp add: n_def Let_def)
  next
    case False
    then have "chunk_bytes (chunks (c # cs)) = take n (c # cs) @ drop (n - 1) cs"
      using 2(2) by (simp add: n_def Let_def)
    also have "\<dots> = take n (c # cs) @ drop n (c # cs)" using False by (cases n) simp_all
    finally show ?thesis by simp
  qed
qed simp

text \<open>A prefix of the runes of a string decodes to these runes.\<close>

lemma chunks_take: "chunks (chunk_bytes (take k (chunks s))) = take k (chunks s)"
proof (induction s arbitrary: k rule: chunks.induct)
  case (2 c cs)
  define n where "n = rune_width (c # cs)"
  show ?case
  proof (cases k)
    case (Suc j)
    show ?thesis
    proof (cases "n = 0")
      case True
      define u where "u = chunk_bytes (take j (chunks cs))"
      have "cs = u @ chunk_bytes (drop j (chunks cs))"
        unfolding u_def by (metis append_take_drop_id chunk_bytes_chunks concat_append map_append)
      then have "rune_width (c # u) = 0"
        using True rune_width_append [of "c # u" "chunk_bytes (drop j (chunks cs))"] unfolding n_def by (metis append_Cons gr0I)
      then show ?thesis using 2(1) [of n j] True Suc by (simp add: n_def Let_def u_def)
    next
      case False
      define b where "b = take n (c # cs)"
      define u where "u = chunk_bytes (take j (chunks (drop (n - 1) cs)))"
      have w: "rune_width b = n" using False rune_width_take [of "c # cs"] by (simp add: b_def n_def)
      then have wu: "rune_width (b @ u) = n" using False rune_width_append [of b u] by simp
      have lb: "length b = n" using rune_width_le [of "c # cs"] by (simp add: b_def n_def del: length_Cons)
      obtain b' where b: "b = c # b'" using False by (cases n) (auto simp: b_def)
      have "take n (c # b' @ u) = c # b'" "drop (n - 1) (b' @ u) = u" using lb by (auto simp: b)
      then have "chunks (b @ u) = (rune_val b, b) # chunks u"
        using wu False by (simp add: b Let_def)
      moreover have "chunks (c # cs) = (rune_val b, b) # chunks (drop (n - 1) cs)"
        using False by (simp add: n_def b_def Let_def)
      moreover have "chunks u = take j (chunks (drop (n - 1) cs))"
        using 2(2) [of n j] False by (simp add: n_def u_def)
      ultimately show ?thesis using Suc by (simp add: u_def)
    qed
  qed simp
qed simp

lemma chunks_drop: "chunks (chunk_bytes (drop k (chunks s))) = drop k (chunks s)"
proof (induction s arbitrary: k rule: chunks.induct)
  case (2 c cs)
  show ?case
  proof (cases k)
    case (Suc j)
    then show ?thesis using 2(1) [OF refl, of j] 2(2) [OF refl, of j] by (simp add: Let_def)
  qed (simp only: drop_0 chunk_bytes_chunks)
qed simp

lemma chunks_infix: "chunks (chunk_bytes (take j (drop k (chunks s)))) = take j (drop k (chunks s))"
  by (metis chunks_drop chunks_take)

lemma trim_chunks_infix: "\<exists>j k. trim_chunks cs = take j (drop k cs)"
proof -
  have "\<exists>k. dropWhile P xs = drop k xs" for P and xs :: "(int \<times> string) list" by (metis dropWhile_eq_drop)
  then obtain k j where "dropWhile (IsSpace \<circ> fst) cs = drop k cs" "dropWhile (IsSpace \<circ> fst) (rev (drop k cs)) = drop j (rev (drop k cs))"
    by meson
  then show ?thesis unfolding trim_chunks_def by (metis rev_drop rev_rev_ident)
qed

lemma chunks_TrimSpace: "chunks (TrimSpace s) = trim_chunks (chunks s)"
  using trim_chunks_infix [of "chunks s"] chunks_infix unfolding TrimSpace_def by metis

lemma dropWhile_rev_idem: "dropWhile P (rev (dropWhile P (rev (dropWhile P xs)))) = rev (dropWhile P (rev (dropWhile P xs)))"
proof (cases "rev (dropWhile P (rev (dropWhile P xs)))")
  case (Cons y ys)
  obtain zs where "rev (dropWhile P xs) = zs @ dropWhile P (rev (dropWhile P xs))"
    by (metis takeWhile_dropWhile_id)
  then have "dropWhile P xs = y # ys @ rev zs" using Cons by (metis append_Cons rev_append rev_rev_ident)
  then have "hd (dropWhile P xs) = y" "dropWhile P xs \<noteq> []" by simp_all
  then have "\<not> P y" using hd_dropWhile by metis
  then show ?thesis using Cons by simp
qed (simp only: dropWhile.simps)

lemma trim_chunks_idem: "trim_chunks (trim_chunks cs) = trim_chunks cs"
  unfolding trim_chunks_def by (simp add: dropWhile_rev_idem dropWhile_idem)

lemma TrimSpace_idem [simp]: "TrimSpace (TrimSpace s) = TrimSpace s"
  by (simp add: TrimSpace_def [of "TrimSpace s"] chunks_TrimSpace trim_chunks_idem) (simp add: TrimSpace_def)

lemma TrimSpace_nil [simp]: "TrimSpace [] = []"
  by (simp add: TrimSpace_def trim_chunks_def)

text \<open>Valid strings are those whose chunks are all valid; so trimming keeps them valid.\<close>

lemma to_utf8_chunks: "to_utf8 s = concat (map (\<lambda>(r, b). if rune_width b = 0 then rune_error else b) (chunks s))"
proof (induction s rule: chunks.induct)
  case (2 c cs)
  define n where "n = rune_width (c # cs)"
  have "n \<noteq> 0 \<Longrightarrow> rune_width (take n (c # cs)) = n" using rune_width_take [of "c # cs"] by (simp add: n_def)
  moreover have "n = 0 \<Longrightarrow> rune_width [c] = 0" using rune_width_append [of "[c]" cs] by (auto simp: n_def)
  ultimately show ?case using 2(1) [OF n_def] 2(2) [OF n_def] by (simp add: Let_def n_def [symmetric])
qed simp

lemma sum_list_strict_less:
  fixes f g :: "'a \<Rightarrow> nat"
  assumes "x \<in> set xs" "f x < g x" "\<And>y. y \<in> set xs \<Longrightarrow> f y \<le> g y"
  shows "sum_list (map f xs) < sum_list (map g xs)"
  using assms
proof (induction xs)
  case (Cons a xs)
  have "sum_list (map f xs) \<le> sum_list (map g xs)" using Cons.prems(3) by (intro sum_list_mono) simp
  moreover have "f a \<le> g a" using Cons.prems(3) by simp
  ultimately show ?case using Cons by (cases "x = a") fastforce+
qed simp

lemma utf8_chunks: "utf8 s \<longleftrightarrow> (\<forall>c \<in> set (chunks s). 0 < rune_width (snd c))"
proof
  assume u: "utf8 s"
  have len: "length (snd c) \<le> length (if rune_width (snd c) = 0 then rune_error else snd c) \<and>
    (rune_width (snd c) = 0 \<longrightarrow> length (snd c) < length rune_error)" if "c \<in> set (chunks s)" for c
    using that
  proof (induction s rule: chunks.induct)
    case (2 d ds)
    define n where "n = rune_width (d # ds)"
    have "n \<noteq> 0 \<Longrightarrow> rune_width (take n (d # ds)) = n" using rune_width_take [of "d # ds"] by (simp add: n_def)
    then show ?case using 2 by (auto simp: Let_def n_def [symmetric] rune_error_def split: if_splits)
  qed simp
  show "\<forall>c \<in> set (chunks s). 0 < rune_width (snd c)"
  proof (rule ccontr)
    assume "\<not> ?thesis"
    then obtain c where c: "c \<in> set (chunks s)" "rune_width (snd c) = 0" by auto
    have "length (chunk_bytes (chunks s)) < length (to_utf8 s)"
      unfolding to_utf8_chunks length_concat map_map
      by (rule sum_list_strict_less [OF c(1)]) (use c len in \<open>auto simp: case_prod_beta\<close>)
    then show False using u by (simp add: utf8_def)
  qed
next
  assume "\<forall>c \<in> set (chunks s). 0 < rune_width (snd c)"
  then have "map (\<lambda>(r, b). if rune_width b = 0 then rune_error else b) (chunks s) = map snd (chunks s)" by auto
  then have "to_utf8 s = chunk_bytes (chunks s)" by (simp only: to_utf8_chunks)
  then show "utf8 s" by (simp add: utf8_def)
qed

lemma utf8_TrimSpace: "utf8 s \<Longrightarrow> utf8 (TrimSpace s)"
proof -
  assume "utf8 s"
  moreover have "set (trim_chunks cs) \<subseteq> set cs" for cs
    using trim_chunks_infix [of cs] by (metis set_drop_subset set_take_subset subset_trans)
  ultimately show ?thesis by (auto simp: utf8_chunks chunks_TrimSpace)
qed

end
