(* ===== verification/Refine.thy ===== *)
theory Refine
  imports Prelude
begin

text \<open>
  Functional refinement of an operation on a store: under the invariant \<open>good\<close> the concrete
  operation \<open>c\<close> returns what the abstract one \<open>a\<close> returns on the abstraction of the state, moves to
  a state of the new abstraction, and keeps the invariant. Sequences of refining operations refine
  the sequence of their specifications.
\<close>

definition refines :: "('s \<Rightarrow> 'm) \<Rightarrow> ('s \<Rightarrow> bool) \<Rightarrow> ('s \<Rightarrow> 'r \<times> 's) \<Rightarrow> ('m \<Rightarrow> 'r \<times> 'm) \<Rightarrow> bool" where
  "refines view good c a \<longleftrightarrow> (\<forall>s. good s \<longrightarrow> fst (c s) = fst (a (view s)) \<and> view (snd (c s)) = snd (a (view s)) \<and> good (snd (c s)))"

lemma refinesI:
  assumes "\<And>s. good s \<Longrightarrow> fst (c s) = fst (a (view s)) \<and> view (snd (c s)) = snd (a (view s)) \<and> good (snd (c s))"
  shows "refines view good c a"
  using assms by (simp add: refines_def)

lemma refinesD: "refines view good c a \<Longrightarrow> good s \<Longrightarrow> fst (c s) = fst (a (view s)) \<and> view (snd (c s)) = snd (a (view s)) \<and> good (snd (c s))"
  by (simp add: refines_def)

lemma refines_read: "(\<And>s. good s \<Longrightarrow> c s = (fst (a (view s)), s)) \<Longrightarrow> (\<And>m. snd (a m) = m) \<Longrightarrow> refines view good c a"
  by (simp add: refines_def)

text \<open>Operations that return something of another type: the result is mapped on both sides.\<close>

definition map_res :: "('r \<Rightarrow> 'q) \<Rightarrow> ('s \<Rightarrow> 'r \<times> 's) \<Rightarrow> 's \<Rightarrow> 'q \<times> 's" where
  "map_res f c = (\<lambda>s. case c s of (r, s') \<Rightarrow> (f r, s'))"

lemma map_res_simps [simp]: "fst (map_res f c s) = f (fst (c s))" "snd (map_res f c s) = snd (c s)"
  by (simp_all add: map_res_def split: prod.splits)

lemma refines_map_res: "refines view good c a \<Longrightarrow> refines view good (map_res f c) (map_res f a)"
  by (simp add: refines_def)

lemma refines_run:
  assumes "\<forall>x \<in> set xs. refines view good (c x) (a x)" "good s"
  shows "fst (pipe_run c xs s) = fst (pipe_run a xs (view s)) \<and> view (snd (pipe_run c xs s)) = snd (pipe_run a xs (view s)) \<and>
    good (snd (pipe_run c xs s))"
  using assms
proof (induction xs arbitrary: s)
  case (Cons x xs)
  have r: "fst (c x s) = fst (a x (view s))" "view (snd (c x s)) = snd (a x (view s))" "good (snd (c x s))"
    using refinesD [of view good "c x" "a x" s] Cons.prems by auto
  show ?case using Cons.IH [OF _ r(3)] Cons.prems(1) r by (auto simp: case_prod_beta)
qed simp

text \<open>An invariant of the specification along a run.\<close>

lemma pipe_run_inv:
  assumes "\<forall>x \<in> set xs. \<forall>m. P m \<longrightarrow> P (snd (a x m))" "P m"
  shows "P (snd (pipe_run a xs m))"
  using assms by (induction xs arbitrary: m) (auto simp: case_prod_beta)

subsection \<open>Simulation\<close>

text \<open>
  The same with a relation in place of an abstraction function, and a guard \<open>P\<close> on the abstract
  state: what a caller has to provide for, such as fresh random identifiers.
\<close>

definition sim :: "('s \<Rightarrow> 'm \<Rightarrow> bool) \<Rightarrow> ('m \<Rightarrow> bool) \<Rightarrow> ('s \<Rightarrow> 'r \<times> 's) \<Rightarrow> ('m \<Rightarrow> 'r \<times> 'm) \<Rightarrow> bool" where
  "sim R P c a \<longleftrightarrow> (\<forall>s m. R s m \<longrightarrow> P m \<longrightarrow> fst (c s) = fst (a m) \<and> R (snd (c s)) (snd (a m)))"

lemma simI: "(\<And>s m. R s m \<Longrightarrow> P m \<Longrightarrow> fst (c s) = fst (a m) \<and> R (snd (c s)) (snd (a m))) \<Longrightarrow> sim R P c a"
  by (simp add: sim_def)

lemma simD: "sim R P c a \<Longrightarrow> R s m \<Longrightarrow> P m \<Longrightarrow> fst (c s) = fst (a m) \<and> R (snd (c s)) (snd (a m))"
  by (simp add: sim_def)

lemma sim_map_res: "sim R P c a \<Longrightarrow> sim R P (map_res f c) (map_res f a)"
  by (simp add: sim_def)

text \<open>The guards hold along a run of the specification.\<close>

fun guarded :: "('x \<Rightarrow> 'm \<Rightarrow> bool) \<Rightarrow> ('x \<Rightarrow> 'm \<Rightarrow> 'r \<times> 'm) \<Rightarrow> 'x list \<Rightarrow> 'm \<Rightarrow> bool" where
  "guarded P a [] m = True"
| "guarded P a (x # xs) m = (P x m \<and> guarded P a xs (snd (a x m)))"

lemma sim_run:
  assumes "\<forall>x. sim R (P x) (c x) (a x)" "R s m" "guarded P a xs m"
  shows "fst (pipe_run c xs s) = fst (pipe_run a xs m) \<and> R (snd (pipe_run c xs s)) (snd (pipe_run a xs m))"
  using assms(2,3)
proof (induction xs arbitrary: s m)
  case (Cons x xs)
  have r: "fst (c x s) = fst (a x m)" "R (snd (c x s)) (snd (a x m))"
    using simD [of R "P x" "c x" "a x" s m] assms(1) Cons.prems by auto
  show ?case using Cons.IH [OF r(2)] Cons.prems(2) r by (auto simp: case_prod_beta)
qed simp

lemma guarded_append: "guarded P a (xs @ ys) m \<longleftrightarrow> guarded P a xs m \<and> guarded P a ys (snd (pipe_run a xs m))"
  by (induction xs arbitrary: m) (auto simp: case_prod_beta)

subsection \<open>Transactions\<close>

text \<open>
  A \<open>TxPipeline\<close>: the commands run in order as one step, and \<open>Exec\<close> returns the first error among
  their replies.
\<close>

definition cmd_err :: "('s \<Rightarrow> 'a reply \<times> 's) \<Rightarrow> 's \<Rightarrow> err option \<times> 's" where
  "cmd_err c = (\<lambda>s. case c s of (r, s') \<Rightarrow> (reply_err r, s'))"

definition tx_exec :: "('s \<Rightarrow> err option \<times> 's) list \<Rightarrow> ('s, unit) io" where
  "tx_exec cs = (\<lambda>s. case pipe_run (\<lambda>c. c) cs s of (es, s') \<Rightarrow>
     ((case first_err es of None \<Rightarrow> Inr () | Some e \<Rightarrow> Inl e), s'))"

lemma tx_exec_Nil: "tx_exec [] s = (Inr (), s)"
  by (simp add: tx_exec_def)

lemma tx_exec_Cons: "c s = (Reply v, s1) \<Longrightarrow> tx_exec (cmd_err c # cs) s = tx_exec cs s1"
  by (auto simp: tx_exec_def cmd_err_def split: prod.splits)

subsection \<open>Keys made of parts\<close>

lemma append_sep_inject [key_simps]:
  "c \<notin> set a \<Longrightarrow> c \<notin> set b \<Longrightarrow> a @ c # x = b @ c # y \<longleftrightarrow> a = b \<and> x = y"
proof (induction a arbitrary: b)
  case Nil
  then show ?case by (cases b) auto
next
  case (Cons d a)
  then show ?case by (cases b) auto
qed

end
