(* ===== verification/Players.thy ===== *)
theory Players
  imports Go_Crypto Go_Unicode Redis_KV Refine
begin

text \<open>
  Player tokens, \<open>pkg/players\<close>: a token is bound to a member of an app on its first use, and the
  store keeps its SHA-256. \<open>player_store\<close> is the contract of the \<open>Store\<close> interface over the abstract
  map from (app, member) to the hash bound to it; the in-memory store and the Redis store
  implement it.
\<close>

subsection \<open>Tokens (\<open>store.go\<close>)\<close>

definition token_rune :: "int \<Rightarrow> bool" where
  "token_rune r \<longleftrightarrow> 0x30 \<le> r \<and> r \<le> 0x39 \<or> 0x61 \<le> r \<and> r \<le> 0x7A \<or> 0x41 \<le> r \<and> r \<le> 0x5A \<or> r = 0x5F \<or> r = 0x2D"

definition ValidToken :: "string \<Rightarrow> bool" where
  "ValidToken t \<longleftrightarrow> (if length t < 32 \<or> 128 < length t then False else list_all token_rune (runes t))"

definition hashToken :: "string \<Rightarrow> string" where
  "hashToken t = hex_encode (sha256 t)"

definition check_token :: "string \<Rightarrow> err + unit" where
  "check_token token = (if token = [] then Inl ErrTokenRequired else if \<not> ValidToken token then Inl ErrInvalidToken else Inr ())"

subsection \<open>The in-memory store (\<open>memstore.go\<close>)\<close>

record PlayersMem =
  pm_m :: "string \<Rightarrow> string option"
  pm_n :: "string \<Rightarrow> int"

definition NewPlayersMem :: PlayersMem where
  "NewPlayersMem = \<lparr>pm_m = Map.empty, pm_n = (\<lambda>_. 0)\<rparr>"

definition mem_tok_key :: "string \<Rightarrow> string \<Rightarrow> string" where
  "mem_tok_key app member = app @ [CHR 0x00] @ member"

definition mem_Authorize :: "string \<Rightarrow> string \<Rightarrow> string \<Rightarrow> (PlayersMem, unit) io" where
  "mem_Authorize appID member token s =
     (case check_token token of
        Inl e \<Rightarrow> (Inl e, s)
      | Inr _ \<Rightarrow>
          let h = hashToken token; k = mem_tok_key appID member in
          (case pm_m s k of
             None \<Rightarrow> (Inr (), \<lparr>pm_m = (pm_m s)(k \<mapsto> h), pm_n = (pm_n s)(appID := wrap64 (pm_n s appID + 1))\<rparr>)
           | Some bound \<Rightarrow> if bound \<noteq> h then (Inl ErrTokenMismatch, s) else (Inr (), s)))"

definition mem_Bindings :: "string \<Rightarrow> (PlayersMem, int) io" where
  "mem_Bindings appID s = (Inr (pm_n s appID), s)"

subsection \<open>The Redis store (\<open>redisstore.go\<close>)\<close>

definition countKey :: "string \<Rightarrow> string" where
  "countKey app = ''ply:count:'' @ app"

definition tokKey :: "string \<Rightarrow> string \<Rightarrow> string" where
  "tokKey app member = ''ply:tok:'' @ app @ '':'' @ member"

text \<open>\<open>INCR\<close> is the command of the server beside those of \<open>C\<close>. Its error is dropped.\<close>

definition rp_Authorize :: "('s, string) kv \<Rightarrow> (string \<Rightarrow> 's \<Rightarrow> int reply \<times> 's) \<Rightarrow> string \<Rightarrow> string \<Rightarrow> string \<Rightarrow> ('s, unit) io" where
  "rp_Authorize C INCR appID member token =
     io_bind (io_lift (check_token token)) (\<lambda>_.
     let h = hashToken token; k = tokKey appID member in
     io_bind (io_cmd (SETNX C k h 0)) (\<lambda>bound.
     if bound then (\<lambda>s. (Inr (), snd (INCR (countKey appID) s)))
     else io_bind (io_cmd (GET C k)) (\<lambda>cur. if cur \<noteq> h then io_fail ErrTokenMismatch else io_ret ())))"

text \<open>\<open>Get(...).Int64()\<close> of a string that is no integer is an error of the client.\<close>

definition rp_Bindings :: "('s, string) kv \<Rightarrow> string \<Rightarrow> ('s, int) io" where
  "rp_Bindings C appID =
     io_catch_nil
       (io_bind (io_cmd (GET C (countKey appID))) (\<lambda>v.
          case atoi v of Some n \<Rightarrow> io_ret n | None \<Rightarrow> io_fail (RedisErr ''strconv.ParseInt: invalid syntax'')))
       (io_ret 0)"

subsection \<open>The contract\<close>

definition auth_result :: "string option \<Rightarrow> string \<Rightarrow> err + unit" where
  "auth_result bound token =
     (case check_token token of Inl e \<Rightarrow> Inl e
      | Inr _ \<Rightarrow> (case bound of None \<Rightarrow> Inr () | Some h \<Rightarrow> if h = hashToken token then Inr () else Inl ErrTokenMismatch))"

definition bind_token :: "string option \<Rightarrow> string \<Rightarrow> string option" where
  "bind_token bound token = (if bound = None \<and> check_token token = Inr () then Some (hashToken token) else bound)"

abbreviation members_of :: "(string \<times> string \<Rightarrow> string option) \<Rightarrow> string \<Rightarrow> string set" where
  "members_of b app \<equiv> {m. b (app, m) \<noteq> None}"

locale player_store =
  fixes authorize :: "string \<Rightarrow> string \<Rightarrow> string \<Rightarrow> ('s, unit) io" and bindings :: "string \<Rightarrow> ('s, int) io"
    and tok_abs :: "'s \<Rightarrow> string \<times> string \<Rightarrow> string option" and tok_inv :: "'s \<Rightarrow> bool" and app_ok :: "string \<Rightarrow> bool"
  assumes authorize: "tok_inv s \<Longrightarrow> app_ok a \<Longrightarrow> int (card (members_of (tok_abs s) a)) < 2 ^ 63 - 1 \<Longrightarrow>
      fst (authorize a m t s) = auth_result (tok_abs s (a, m)) t"
    and authorize_abs: "tok_inv s \<Longrightarrow> app_ok a \<Longrightarrow> int (card (members_of (tok_abs s) a)) < 2 ^ 63 - 1 \<Longrightarrow>
      tok_abs (snd (authorize a m t s)) = (tok_abs s)((a, m) := bind_token (tok_abs s (a, m)) t)"
    and authorize_inv: "tok_inv s \<Longrightarrow> app_ok a \<Longrightarrow> int (card (members_of (tok_abs s) a)) < 2 ^ 63 - 1 \<Longrightarrow>
      tok_inv (snd (authorize a m t s))"
    and bindings: "tok_inv s \<Longrightarrow> app_ok a \<Longrightarrow> int (card (members_of (tok_abs s) a)) < 2 ^ 63 \<Longrightarrow>
      bindings a s = (Inr (int (card (members_of (tok_abs s) a))), s)"
    and finite_members: "tok_inv s \<Longrightarrow> finite (members_of (tok_abs s) a)"

text \<open>
  A history of calls (app, member, token), and what it binds: the hash of the first well-formed
  token that was sent for the member.
\<close>

type_synonym auth_call = "string \<times> string \<times> string"

fun bound_by :: "auth_call list \<Rightarrow> string \<times> string \<Rightarrow> string option" where
  "bound_by [] k = None"
| "bound_by ((a, m, t) # cs) k = (if (a, m) = k \<and> check_token t = Inr () then Some (hashToken t) else bound_by cs k)"

definition auth_results :: "auth_call list \<Rightarrow> (err + unit) list" where
  "auth_results cs = map (\<lambda>i. case cs ! i of (a, m, t) \<Rightarrow> auth_result (bound_by (take i cs) (a, m)) t) [0 ..< length cs]"

definition or_else :: "'a option \<Rightarrow> 'a option \<Rightarrow> 'a option" where
  "or_else x y = (case x of None \<Rightarrow> y | Some v \<Rightarrow> Some v)"

lemma or_else_simps [simp]: "or_else None y = y" "or_else (Some v) y = Some v" "or_else x None = x"
  by (simp_all add: or_else_def split: option.splits)

lemma bound_by_append: "bound_by (cs @ ds) k = or_else (bound_by cs k) (bound_by ds k)"
  by (induction cs k rule: bound_by.induct) auto

lemma bound_by_snoc: "bound_by (cs @ [(a, m, t)]) = (bound_by cs)((a, m) := bind_token (bound_by cs (a, m)) t)"
proof
  fix k
  show "bound_by (cs @ [(a, m, t)]) k = ((bound_by cs)((a, m) := bind_token (bound_by cs (a, m)) t)) k"
    by (cases "bound_by cs k") (auto simp: bound_by_append bind_token_def)
qed

lemma auth_results_snoc: "auth_results (cs @ [(a, m, t)]) = auth_results cs @ [auth_result (bound_by cs (a, m)) t]"
  by (auto simp: auth_results_def nth_append intro!: map_cong)

lemma members_of_bound_by: "members_of (bound_by cs) a \<subseteq> fst ` set (map snd cs)"
  by (induction cs) (force split: if_splits)+

lemma card_members_of_bound_by: "finite (members_of (bound_by cs) a)" "card (members_of (bound_by cs) a) \<le> length cs"
proof -
  show "finite (members_of (bound_by cs) a)" by (rule finite_subset [OF members_of_bound_by]) simp
  have "card (members_of (bound_by cs) a) \<le> card (fst ` set (map snd cs))"
    by (rule card_mono [OF _ members_of_bound_by]) simp
  also have "\<dots> \<le> card (set (map snd cs))" by (rule card_image_le) simp
  also have "\<dots> \<le> length cs" using card_length [of "map snd cs"] by simp
  finally show "card (members_of (bound_by cs) a) \<le> length cs" .
qed

context player_store
begin

abbreviation auth_run :: "auth_call list \<Rightarrow> 's \<Rightarrow> (err + unit) list \<times> 's" where
  "auth_run \<equiv> pipe_run (\<lambda>(a, m, t). authorize a m t)"

lemma auth_run:
  assumes "tok_inv s" "tok_abs s = Map.empty" "\<forall>(a, m, t) \<in> set cs. app_ok a" "int (length cs) < 2 ^ 63 - 1"
  shows "fst (auth_run cs s) = auth_results cs \<and> tok_abs (snd (auth_run cs s)) = bound_by cs \<and> tok_inv (snd (auth_run cs s))"
  using assms(3,4)
proof (induction cs rule: rev_induct)
  case Nil
  have "bound_by [] = Map.empty" by auto
  then show ?case using assms by (simp add: auth_results_def)
next
  case (snoc c cs)
  obtain a m t where c: "c = (a, m, t)" by (cases c) auto
  define s' where "s' = snd (auth_run cs s)"
  have ih: "fst (auth_run cs s) = auth_results cs" "tok_abs s' = bound_by cs" "tok_inv s'"
    using snoc by (auto simp: s'_def)
  have room: "app_ok a" "int (card (members_of (tok_abs s') a)) < 2 ^ 63 - 1"
    using snoc.prems card_members_of_bound_by(2) [of cs a] ih by (auto simp: c)
  have "auth_run (cs @ [c]) s = (auth_results cs @ [fst (authorize a m t s')], snd (authorize a m t s'))"
    using ih(1) by (auto simp: pipe_run_append c s'_def split: prod.splits)
  then show ?case
    using authorize [OF ih(3) room] authorize_abs [OF ih(3) room] authorize_inv [OF ih(3) room]
    by (simp only: fst_conv snd_conv c auth_results_snoc bound_by_snoc ih(2))
qed

lemma first_use_binds:
  assumes "tok_inv s" "tok_abs s = Map.empty" "\<forall>(a, m, t) \<in> set cs. app_ok a" "int (length cs) < 2 ^ 63 - 1" "app_ok a"
  shows "fst (auth_run cs s) = auth_results cs \<and>
    fst (bindings a (snd (auth_run cs s))) = Inr (int (card (members_of (bound_by cs) a)))"
  using auth_run [OF assms(1-4)] bindings [OF _ assms(5), of "snd (auth_run cs s)"] assms(4)
    card_members_of_bound_by(2) [of cs a] by simp

end

subsection \<open>Both stores keep the contract\<close>

text \<open>App ids are minted as \<open>app_\<close> and hexadecimal digits, so neither separator occurs in one.\<close>

definition clean_app :: "string \<Rightarrow> bool" where
  "clean_app a \<longleftrightarrow> CHR 0x00 \<notin> set a \<and> CHR '':'' \<notin> set a"

lemma mem_tok_key_inject: "clean_app a \<Longrightarrow> clean_app b \<Longrightarrow> mem_tok_key a m = mem_tok_key b n \<longleftrightarrow> a = b \<and> m = n"
  by (simp add: mem_tok_key_def clean_app_def append_sep_inject)

lemma tokKey_inject: "clean_app a \<Longrightarrow> clean_app b \<Longrightarrow> tokKey a m = tokKey b n \<longleftrightarrow> a = b \<and> m = n"
  by (simp add: tokKey_def clean_app_def append_sep_inject)

lemma countKey_inject [simp]: "countKey a = countKey b \<longleftrightarrow> a = b" "countKey a \<noteq> tokKey b m" "tokKey b m \<noteq> countKey a"
  by (simp_all add: countKey_def tokKey_def)

lemma members_of_upd:
  "members_of (b((a, m) := v)) a' = (if a = a' then (if v = None then members_of b a - {m} else insert m (members_of b a)) else members_of b a')"
  by auto

definition mem_tok_abs :: "PlayersMem \<Rightarrow> string \<times> string \<Rightarrow> string option" where
  "mem_tok_abs s = (\<lambda>(a, m). if clean_app a then pm_m s (mem_tok_key a m) else None)"

definition mem_tok_inv :: "PlayersMem \<Rightarrow> bool" where
  "mem_tok_inv s \<longleftrightarrow> (\<forall>a. finite (members_of (mem_tok_abs s) a)) \<and>
     (\<forall>a. clean_app a \<longrightarrow> pm_n s a = wrap64 (int (card (members_of (mem_tok_abs s) a))))"

lemma mem_tok_abs_bind:
  "clean_app a \<Longrightarrow> mem_tok_abs \<lparr>pm_m = (pm_m s)(mem_tok_key a m \<mapsto> h), pm_n = n\<rparr> = (mem_tok_abs s)((a, m) \<mapsto> h)"
  by (auto simp: mem_tok_abs_def fun_eq_iff mem_tok_key_inject)

lemma mem_Authorize_spec:
  assumes "mem_tok_inv s" "clean_app a" "int (card (members_of (mem_tok_abs s) a)) < 2 ^ 63 - 1"
  shows "fst (mem_Authorize a m t s) = auth_result (mem_tok_abs s (a, m)) t \<and>
    mem_tok_abs (snd (mem_Authorize a m t s)) = (mem_tok_abs s)((a, m) := bind_token (mem_tok_abs s (a, m)) t) \<and>
    mem_tok_inv (snd (mem_Authorize a m t s))"
proof (cases "check_token t = Inr () \<and> pm_m s (mem_tok_key a m) = None")
  case True
  define s' where "s' = \<lparr>pm_m = (pm_m s)(mem_tok_key a m \<mapsto> hashToken t), pm_n = (pm_n s)(a := wrap64 (pm_n s a + 1))\<rparr>"
  have r: "mem_Authorize a m t s = (Inr (), s')" using True by (simp add: mem_Authorize_def s'_def)
  have n: "mem_tok_abs s (a, m) = None" using True by (simp add: mem_tok_abs_def)
  have ab: "mem_tok_abs s' = (mem_tok_abs s)((a, m) \<mapsto> hashToken t)" unfolding s'_def by (rule mem_tok_abs_bind [OF assms(2)])
  have "m \<notin> members_of (mem_tok_abs s) a" using n by simp
  then have c: "card (members_of (mem_tok_abs s') a) = Suc (card (members_of (mem_tok_abs s) a))"
    using assms(1) unfolding ab members_of_upd by (simp add: mem_tok_inv_def)
  have "mem_tok_inv s'"
    unfolding mem_tok_inv_def
  proof (intro conjI allI impI)
    fix b
    show "finite (members_of (mem_tok_abs s') b)" using assms(1) unfolding ab members_of_upd by (simp add: mem_tok_inv_def)
    assume b: "clean_app b"
    show "pm_n s' b = wrap64 (int (card (members_of (mem_tok_abs s') b)))"
    proof (cases "b = a")
      case True
      then show ?thesis using c assms by (simp add: s'_def mem_tok_inv_def add.commute)
    next
      case False
      then have "members_of (mem_tok_abs s') b = members_of (mem_tok_abs s) b" unfolding ab by auto
      then show ?thesis using False b assms(1) by (simp add: s'_def mem_tok_inv_def)
    qed
  qed
  then show ?thesis using r n ab True by (simp add: auth_result_def bind_token_def)
next
  case False
  then have "snd (mem_Authorize a m t s) = s" "bind_token (mem_tok_abs s (a, m)) t = mem_tok_abs s (a, m)"
    using assms(2) by (auto simp: mem_Authorize_def mem_tok_abs_def bind_token_def Let_def split: sum.splits option.splits)
  moreover have "fst (mem_Authorize a m t s) = auth_result (mem_tok_abs s (a, m)) t"
    using assms(2) by (auto simp: mem_Authorize_def mem_tok_abs_def auth_result_def Let_def split: sum.splits option.splits)
  ultimately show ?thesis using assms(1) by simp
qed

interpretation mp: player_store mem_Authorize mem_Bindings mem_tok_abs mem_tok_inv clean_app
proof (unfold_locales, goal_cases)
  case (1 s a m t)
  then show ?case using mem_Authorize_spec [OF 1] by blast
next
  case (2 s a m t)
  then show ?case using mem_Authorize_spec [OF 2] by blast
next
  case (3 s a m t)
  then show ?case using mem_Authorize_spec [OF 3] by blast
qed (simp_all add: mem_Bindings_def mem_tok_inv_def)

lemma mem_tok_start: "mem_tok_inv NewPlayersMem" "mem_tok_abs NewPlayersMem = Map.empty"
proof -
  show "mem_tok_abs NewPlayersMem = Map.empty" by (auto simp: mem_tok_abs_def NewPlayersMem_def)
  then show "mem_tok_inv NewPlayersMem" by (simp add: mem_tok_inv_def) (simp add: NewPlayersMem_def)
qed

text \<open>
  For Redis: \<open>INCR\<close> adds one to the decimal number at the key, an absent key counting as 0. The
  keys of the package hold nothing but what the package wrote.
\<close>

locale redis_counter = redis_kv C kks for C :: "('s, string) kv" and kks +
  fixes INCR :: "string \<Rightarrow> 's \<Rightarrow> int reply \<times> 's"
  assumes INCR_new: "kks s k = VNone \<Longrightarrow> kks (snd (INCR k s)) = (kks s)(k := VStr (itoa 1))"
    and INCR_old: "kks s k = VStr (itoa n) \<Longrightarrow> int64 n \<Longrightarrow> n < 2 ^ 63 - 1 \<Longrightarrow> kks (snd (INCR k s)) = (kks s)(k := VStr (itoa (n + 1)))"

fun str_view :: "'v kview \<Rightarrow> 'v option" where
  "str_view (VStr v) = Some v"
| "str_view _ = None"

definition rp_abs :: "('s \<Rightarrow> string \<Rightarrow> string kview) \<Rightarrow> 's \<Rightarrow> string \<times> string \<Rightarrow> string option" where
  "rp_abs kks s = (\<lambda>(a, m). if clean_app a then str_view (kks s (tokKey a m)) else None)"

definition count_view :: "nat \<Rightarrow> string kview" where
  "count_view n = (if n = 0 then VNone else VStr (itoa (int n)))"

definition rp_inv :: "('s \<Rightarrow> string \<Rightarrow> string kview) \<Rightarrow> 's \<Rightarrow> bool" where
  "rp_inv kks s \<longleftrightarrow> (\<forall>a m. clean_app a \<longrightarrow> kks s (tokKey a m) = VNone \<or> (\<exists>h. kks s (tokKey a m) = VStr h)) \<and>
     (\<forall>a. finite (members_of (rp_abs kks s) a)) \<and>
     (\<forall>a. clean_app a \<longrightarrow> kks s (countKey a) = count_view (card (members_of (rp_abs kks s) a)))"

lemma rp_view: "rp_inv kks s \<Longrightarrow> clean_app a \<Longrightarrow> kks s (tokKey a m) = VNone \<or> (\<exists>h. kks s (tokKey a m) = VStr h)"
  by (simp add: rp_inv_def)

context redis_counter
begin

lemma rp_Authorize_bind:
  assumes "rp_inv kks s" "clean_app a" "int (card (members_of (rp_abs kks s) a)) < 2 ^ 63 - 1"
    and "check_token t = Inr ()" "kks s (tokKey a m) = VNone"
  shows "fst (rp_Authorize C INCR a m t s) = Inr ()"
    and "kks (snd (rp_Authorize C INCR a m t s)) =
      (kks s)(tokKey a m := VStr (hashToken t), countKey a := count_view (Suc (card (members_of (rp_abs kks s) a))))"
proof -
  define k where "k = tokKey a m"
  define s1 where "s1 = snd (SETNX C k (hashToken t) 0 s)"
  define n where "n = card (members_of (rp_abs kks s) a)"
  have s1: "SETNX C k (hashToken t) 0 s = (Reply True, s1)" "kks s1 = (kks s)(k := VStr (hashToken t))"
    using SETNX(1,2) [of s k] assms(5) by (auto simp: s1_def k_def prod_eq_iff)
  have r: "rp_Authorize C INCR a m t s = (Inr (), snd (INCR (countKey a) s1))"
    using assms(4) s1(1) by (simp add: rp_Authorize_def io_simps k_def [symmetric] Let_def)
  then show "fst (rp_Authorize C INCR a m t s) = Inr ()" by simp
  have cv: "kks s1 (countKey a) = count_view n" using assms(1,2) s1(2) by (simp add: rp_inv_def n_def k_def)
  have "kks (snd (INCR (countKey a) s1)) = (kks s1)(countKey a := count_view (Suc n))"
  proof (cases "n = 0")
    case True
    then show ?thesis using INCR_new [of s1 "countKey a"] cv by (simp add: count_view_def)
  next
    case False
    then have "kks s1 (countKey a) = VStr (itoa (int n))" using cv by (simp add: count_view_def)
    then show ?thesis using INCR_old [of s1 "countKey a" "int n"] assms(3) by (simp add: n_def count_view_def add.commute)
  qed
  then show "kks (snd (rp_Authorize C INCR a m t s)) = (kks s)(tokKey a m := VStr (hashToken t), countKey a := count_view (Suc n))"
    using r s1(2) by (simp add: k_def)
qed

lemma rp_Authorize_bound:
  assumes "rp_inv kks s" "clean_app a" "check_token t = Inr () \<Longrightarrow> kks s (tokKey a m) \<noteq> VNone"
  shows "rp_Authorize C INCR a m t s = (auth_result (rp_abs kks s (a, m)) t, s)"
proof (cases "check_token t")
  case (Inr u)
  then have n: "kks s (tokKey a m) \<noteq> VNone" using assms(3) by simp
  then obtain h where h: "kks s (tokKey a m) = VStr h" using rp_view [OF assms(1,2), of m] by blast
  show ?thesis
    using Inr assms(2) SETNX(3) [OF n] GET(2) [OF h] h by (simp add: rp_Authorize_def io_simps Let_def auth_result_def rp_abs_def)
qed (simp add: rp_Authorize_def io_simps auth_result_def)

lemma rp_abs_bind:
  assumes "clean_app a" "kks s' = (kks s)(tokKey a m := VStr h, countKey a := v)"
  shows "rp_abs kks s' = (rp_abs kks s)((a, m) \<mapsto> h)"
  using assms by (auto simp: rp_abs_def fun_eq_iff tokKey_inject)

lemma rp_Authorize_spec:
  assumes "rp_inv kks s" "clean_app a" "int (card (members_of (rp_abs kks s) a)) < 2 ^ 63 - 1"
  shows "fst (rp_Authorize C INCR a m t s) = auth_result (rp_abs kks s (a, m)) t \<and>
    rp_abs kks (snd (rp_Authorize C INCR a m t s)) = (rp_abs kks s)((a, m) := bind_token (rp_abs kks s (a, m)) t) \<and>
    rp_inv kks (snd (rp_Authorize C INCR a m t s))"
proof (cases "check_token t = Inr () \<and> kks s (tokKey a m) = VNone")
  case True
  then have t: "check_token t = Inr ()" and k: "kks s (tokKey a m) = VNone" by auto
  define s' where "s' = snd (rp_Authorize C INCR a m t s)"
  have ks: "kks s' = (kks s)(tokKey a m := VStr (hashToken t), countKey a := count_view (Suc (card (members_of (rp_abs kks s) a))))"
    unfolding s'_def by (rule rp_Authorize_bind(2) [OF assms t k])
  have n: "rp_abs kks s (a, m) = None" using k by (simp add: rp_abs_def)
  have ab: "rp_abs kks s' = (rp_abs kks s)((a, m) \<mapsto> hashToken t)" by (rule rp_abs_bind [OF assms(2) ks])
  have mem: "members_of (rp_abs kks s') b = (if b = a then insert m (members_of (rp_abs kks s) a) else members_of (rp_abs kks s) b)" for b
    unfolding ab by auto
  have "rp_inv kks s'"
    unfolding rp_inv_def
  proof (intro conjI allI impI)
    fix b x
    assume b: "clean_app b"
    show "kks s' (tokKey b x) = VNone \<or> (\<exists>h. kks s' (tokKey b x) = VStr h)"
      using assms(1) b by (simp add: ks rp_inv_def)
  next
    fix b
    show "finite (members_of (rp_abs kks s') b)" using assms(1) unfolding mem by (simp add: rp_inv_def)
  next
    fix b
    assume b: "clean_app b"
    show "kks s' (countKey b) = count_view (card (members_of (rp_abs kks s') b))"
      using assms(1) b n unfolding mem by (simp add: ks rp_inv_def)
  qed
  then show ?thesis using rp_Authorize_bind(1) [OF assms t k] n ab t by (simp add: s'_def auth_result_def bind_token_def)
next
  case False
  then have "rp_Authorize C INCR a m t s = (auth_result (rp_abs kks s (a, m)) t, s)"
    using rp_Authorize_bound [OF assms(1,2)] by blast
  moreover have "bind_token (rp_abs kks s (a, m)) t = rp_abs kks s (a, m)"
    using False rp_view [OF assms(1,2), of m] by (auto simp: bind_token_def rp_abs_def assms(2))
  ultimately show ?thesis using assms(1) by simp
qed

lemma rp_Bindings_spec:
  assumes "rp_inv kks s" "clean_app a" "int (card (members_of (rp_abs kks s) a)) < 2 ^ 63"
  shows "rp_Bindings C a s = (Inr (int (card (members_of (rp_abs kks s) a))), s)"
proof -
  define n where "n = card (members_of (rp_abs kks s) a)"
  have cv: "kks s (countKey a) = count_view n" using assms(1,2) by (simp add: rp_inv_def n_def)
  show ?thesis
  proof (cases "n = 0")
    case True
    then show ?thesis using GET(1) [of s "countKey a"] cv by (simp add: rp_Bindings_def io_simps count_view_def n_def)
  next
    case False
    then have "kks s (countKey a) = VStr (itoa (int n))" using cv by (simp add: count_view_def)
    then show ?thesis using GET(2) [of s "countKey a"] assms(3) by (simp add: rp_Bindings_def io_simps atoi_itoa n_def)
  qed
qed

end

sublocale redis_counter \<subseteq> rp: player_store "rp_Authorize C INCR" "rp_Bindings C" "rp_abs kks" "rp_inv kks" clean_app
proof (unfold_locales, goal_cases)
  case (1 s a m t)
  then show ?case using rp_Authorize_spec [OF 1] by blast
next
  case (2 s a m t)
  then show ?case using rp_Authorize_spec [OF 2] by blast
next
  case (3 s a m t)
  then show ?case using rp_Authorize_spec [OF 3] by blast
next
  case (4 s a)
  then show ?case by (rule rp_Bindings_spec)
next
  case (5 s a)
  then show ?case by (simp add: rp_inv_def)
qed

context redis_counter
begin

lemma rp_start:
  assumes "\<forall>k. kks s k = VNone"
  shows "rp_inv kks s" "rp_abs kks s = Map.empty"
proof -
  show e: "rp_abs kks s = Map.empty" using assms by (auto simp: rp_abs_def)
  show "rp_inv kks s" unfolding rp_inv_def e using assms by (simp add: count_view_def)
qed

lemmas rp_first_use = rp.first_use_binds [OF rp_start]

end

text \<open>The executable server counts, too.\<close>

definition mem_incr :: "string \<Rightarrow> string kmem \<Rightarrow> int reply \<times> string kmem" where
  "mem_incr k s = (case kstr s k of
      NilReply \<Rightarrow> (Reply 1, kput k (Some (KStr (itoa 1))) s)
    | Reply v \<Rightarrow> (case atoi v of Some n \<Rightarrow>
         if n < 2 ^ 63 - 1 then (Reply (n + 1), kput k (Some (KStr (itoa (n + 1)))) s) else (ErrReply ''ERR increment or decrement would overflow'', s)
       | None \<Rightarrow> (ErrReply ''ERR value is not an integer or out of range'', s))
    | ErrReply m \<Rightarrow> (ErrReply m, s))"

interpretation mem_counter: redis_counter mem_kv mem_kks mem_incr
  by unfold_locales (simp_all add: mem_incr_def kstr_view atoi_itoa mem_kks_kput)

text \<open>
  (C31) From an empty store, whatever sequence of calls is made: a malformed token is rejected; the
  first well-formed token sent for a member of an app binds, from then on a call for that member
  succeeds exactly with a token of the same hash, members of other apps and other members are not
  affected, and \<open>Bindings\<close> counts the bound members. The in-memory store and the Redis store agree.
\<close>

theorem player_tokens_bind_once:
  assumes "redis_counter C kks INCR" "\<forall>k. kks s k = VNone"
    and "\<forall>(a, m, t) \<in> set cs. clean_app a" "int (length cs) < 2 ^ 63 - 1" "clean_app a"
  shows "fst (pipe_run (\<lambda>(a, m, t). mem_Authorize a m t) cs NewPlayersMem) = auth_results cs \<and>
    fst (mem_Bindings a (snd (pipe_run (\<lambda>(a, m, t). mem_Authorize a m t) cs NewPlayersMem))) = Inr (int (card (members_of (bound_by cs) a))) \<and>
    fst (pipe_run (\<lambda>(a, m, t). rp_Authorize C INCR a m t) cs s) = auth_results cs \<and>
    fst (rp_Bindings C a (snd (pipe_run (\<lambda>(a, m, t). rp_Authorize C INCR a m t) cs s))) = Inr (int (card (members_of (bound_by cs) a)))"
  using mp.first_use_binds [OF mem_tok_start assms(3-5)] redis_counter.rp_first_use [OF assms(1,2,2-5)]
  by blast

theorem player_tokens_bind_once_witness:
  "let t = replicate 40 CHR ''a''; cs = [(''app_1'', ''al'', ''short''), (''app_1'', ''al'', t), (''app_1'', ''al'', []), (''app_1'', ''al'', t)] in
   fst (pipe_run (\<lambda>(a, m, t). rp_Authorize mem_kv mem_incr a m t) cs []) = [Inl ErrInvalidToken, Inr (), Inl ErrTokenRequired, Inr ()]"
proof -
  define t where "t = replicate 40 CHR ''a''"
  define cs where "cs = [(''app_1'', ''al'', ''short''), (''app_1'', ''al'', t), (''app_1'', ''al'', []), (''app_1'', ''al'', t)]"
  have c: "check_token ''short'' = Inl ErrInvalidToken" "check_token [] = Inl ErrTokenRequired" by code_simp+
  have c': "check_token t = Inr ()" unfolding t_def by code_simp
  have a: "clean_app ''app_1''" by code_simp
  have "\<forall>k. mem_kks [] k = (VNone :: string kview)" by (simp add: mem_kks_def)
  moreover have "\<forall>(a, m, t) \<in> set cs. clean_app a" using a by (simp add: cs_def)
  moreover have "int (length cs) < 2 ^ 63 - 1" by (simp add: cs_def)
  ultimately have "fst (pipe_run (\<lambda>(a, m, t). rp_Authorize mem_kv mem_incr a m t) cs []) = auth_results cs"
    using player_tokens_bind_once [OF mem_counter.redis_counter_axioms _ _ _ a, of "[]" cs] by blast
  also have "auth_results cs = [Inl ErrInvalidToken, Inr (), Inl ErrTokenRequired, Inr ()]"
    using c c' by (simp add: auth_results_def cs_def auth_result_def upt_rec)
  finally show ?thesis unfolding Let_def cs_def t_def .
qed

end
