(* ===== verification/Go_Maps.thy ===== *)
theory Go_Maps
  imports Prelude "HOL-Library.AList"
begin

text \<open>
  A Go map of maps: reading through an absent (nil) inner map finds nothing and deleting from it
  does nothing, writing to it panics. Inner maps are association lists with distinct keys.
\<close>

type_synonym ('k, 'v) map2 = "string \<Rightarrow> ('k \<times> 'v) list option"

definition get2 :: "('k, 'v) map2 \<Rightarrow> string \<Rightarrow> 'k \<Rightarrow> 'v option" where
  "get2 f a k = (case f a of None \<Rightarrow> None | Some xs \<Rightarrow> map_of xs k)"

definition put2 :: "('k, 'v) map2 \<Rightarrow> string \<Rightarrow> 'k \<Rightarrow> 'v \<Rightarrow> ('k, 'v) map2 option" where
  "put2 f a k v = map_option (\<lambda>xs. f(a \<mapsto> AList.update k v xs)) (f a)"

definition del2 :: "('k, 'v) map2 \<Rightarrow> string \<Rightarrow> 'k \<Rightarrow> ('k, 'v) map2" where
  "del2 f a k = f(a := map_option (AList.delete k) (f a))"

definition len2 :: "('k, 'v) map2 \<Rightarrow> string \<Rightarrow> int" where
  "len2 f a = (case f a of None \<Rightarrow> 0 | Some xs \<Rightarrow> int (length xs))"

definition keys_distinct :: "('k, 'v) map2 \<Rightarrow> bool" where
  "keys_distinct f \<longleftrightarrow> (\<forall>a xs. f a = Some xs \<longrightarrow> distinct (map fst xs))"

lemma get2_new [simp]: "f a = None \<Longrightarrow> get2 (f(a \<mapsto> [])) = get2 f"
  by (auto simp: get2_def fun_eq_iff)

lemma put2_get2: "put2 f a k v = Some g \<Longrightarrow> get2 g a' k' = (if a' = a \<and> k' = k then Some v else get2 f a' k')"
  by (auto simp: put2_def get2_def update_conv' split: option.splits if_splits)

lemma put2_defined: "f a \<noteq> None \<Longrightarrow> \<exists>g. put2 f a k v = Some g"
  by (auto simp: put2_def)

lemma put2_None: "put2 f a k v = Some g \<Longrightarrow> g a' = None \<longleftrightarrow> f a' = None"
  by (auto simp: put2_def split: if_splits)

lemma del2_get2: "get2 (del2 f a k) a' k' = (if a' = a \<and> k' = k then None else get2 f a' k')"
  by (auto simp: del2_def get2_def delete_conv' split: option.splits if_splits)

lemma del2_None: "del2 f a k a' = None \<longleftrightarrow> f a' = None"
  by (auto simp: del2_def)

lemma keys_distinct_put2: "keys_distinct f \<Longrightarrow> put2 f a k v = Some g \<Longrightarrow> keys_distinct g"
  by (auto simp: keys_distinct_def put2_def distinct_update split: if_splits)

lemma keys_distinct_del2: "keys_distinct f \<Longrightarrow> keys_distinct (del2 f a k)"
  by (auto simp: keys_distinct_def del2_def distinct_delete split: if_splits)

lemma keys_distinct_new: "keys_distinct f \<Longrightarrow> keys_distinct (f(a \<mapsto> []))"
  by (auto simp: keys_distinct_def)

lemma len2_card: "keys_distinct f \<Longrightarrow> len2 f a = int (card (dom (get2 f a)))"
proof (cases "f a")
  case (Some xs)
  moreover assume "keys_distinct f"
  ultimately have "distinct (map fst xs)" by (auto simp: keys_distinct_def)
  then have "length xs = card (dom (map_of xs))"
    by (metis distinct_card dom_map_of_conv_image_fst length_map set_map)
  moreover have "get2 f a = map_of xs" using Some by (auto simp: get2_def)
  ultimately show ?thesis using Some by (simp add: len2_def)
next
  case None
  then have "get2 f a = Map.empty" by (auto simp: get2_def)
  then show ?thesis using None by (simp add: len2_def)
qed

end
