(* ===== verification/Users.thy ===== *)
theory Users
  imports Go_Crypto Go_Unicode Refine Go_Maps
begin

text \<open>
  The player registry, \<open>pkg/users\<close>: player ids, minted or claimed, with nicknames that are unique
  per app up to letter case. This theory holds the names and ids (\<open>store.go\<close>), the \<open>Store\<close>
  interface, its specification over a plain map from players to records, and the in-memory store
  (\<open>memstore.go\<close>), which refines the specification. \<open>low\<close> is the table of lower-case letters, \<open>rnd\<close>
  what \<open>rand.Read\<close> delivers, \<open>now\<close> the clock.
\<close>

subsection \<open>Players, names, ids (\<open>store.go\<close>)\<close>

record User =
  UserID :: string
  Nickname :: string
  CreatedAt :: gotime
  UpdatedAt :: gotime

definition normalizeNickname :: "(int \<Rightarrow> int) \<Rightarrow> string \<Rightarrow> err + string \<times> string" where
  "normalizeNickname low nick =
     (let display = TrimSpace nick in
      if display = [] \<or> 32 < RuneCountInString display then Inl ErrInvalidNickname
      else if list_ex Is_C (runes display) then Inl ErrInvalidNickname
      else Inr (display, ToLower low display))"

definition normalizeMemberID :: "string \<Rightarrow> err + string" where
  "normalizeMemberID member =
     (let member = TrimSpace member in
      if member = [] \<or> 64 < RuneCountInString member \<or> has_prefix member ''plr_'' then Inl ErrInvalidMember
      else if list_ex Is_C (runes member) then Inl ErrInvalidMember
      else Inr member)"

definition newPlayerID :: "err + string \<Rightarrow> err + string" where
  "newPlayerID rnd = (case rnd of Inl e \<Rightarrow> Inl e | Inr b \<Rightarrow> Inr (''plr_'' @ hex_encode b))"

text \<open>The id of a new player: minted, or the member id the caller claims.\<close>

definition choose_id :: "string \<Rightarrow> err + string \<Rightarrow> err + string" where
  "choose_id member rnd = (if member = [] then newPlayerID rnd else normalizeMemberID member)"

record 's users_Store =
  us_Create :: "string \<Rightarrow> string \<Rightarrow> string \<Rightarrow> err + string \<Rightarrow> gotime \<Rightarrow> ('s, User) io"
  us_Get :: "string \<Rightarrow> string \<Rightarrow> ('s, User) io"
  us_GetByNickname :: "string \<Rightarrow> string \<Rightarrow> ('s, User) io"
  us_Rename :: "string \<Rightarrow> string \<Rightarrow> string \<Rightarrow> (nat \<Rightarrow> gotime) \<Rightarrow> ('s, User) io"
  us_Nicknames :: "string \<Rightarrow> string list \<Rightarrow> ('s, string \<Rightarrow> string option) io"
  us_Delete :: "string \<Rightarrow> string \<Rightarrow> ('s, unit) io"
  us_Count :: "string \<Rightarrow> ('s, int) io"

subsection \<open>The specification\<close>

text \<open>The registry as a map from apps and ids to players. A name is taken if some player of the app has it up to case.\<close>

type_synonym registry = "string \<Rightarrow> string \<Rightarrow> User option"

definition owner_of :: "(int \<Rightarrow> int) \<Rightarrow> registry \<Rightarrow> string \<Rightarrow> string \<Rightarrow> string \<Rightarrow> bool" where
  "owner_of low M app lower i \<longleftrightarrow> (\<exists>u. M app i = Some u \<and> ToLower low (Nickname u) = lower)"

definition name_taken :: "(int \<Rightarrow> int) \<Rightarrow> registry \<Rightarrow> string \<Rightarrow> string \<Rightarrow> bool" where
  "name_taken low M app lower \<longleftrightarrow> (\<exists>i. owner_of low M app lower i)"

definition put_user :: "registry \<Rightarrow> string \<Rightarrow> string \<Rightarrow> User option \<Rightarrow> registry" where
  "put_user M app i u = M(app := (M app)(i := u))"

lemma put_user_apply [simp]: "put_user M app i u app' i' = (if app' = app \<and> i' = i then u else M app' i')"
  by (simp add: put_user_def)

definition create_spec :: "(int \<Rightarrow> int) \<Rightarrow> string \<Rightarrow> string \<Rightarrow> string \<Rightarrow> err + string \<Rightarrow> gotime \<Rightarrow> registry \<Rightarrow> (err + User) \<times> registry" where
  "create_spec low app nick member rnd now M =
     (case normalizeNickname low nick of Inl e \<Rightarrow> (Inl e, M)
      | Inr (display, lower) \<Rightarrow>
     (case choose_id member rnd of Inl e \<Rightarrow> (Inl e, M)
      | Inr i \<Rightarrow>
        let u = \<lparr>UserID = i, Nickname = display, CreatedAt = now, UpdatedAt = now\<rparr> in
        if M app i \<noteq> None then (Inl ErrMemberTaken, M)
        else if name_taken low M app lower then (Inl ErrNicknameTaken, M)
        else (Inr u, put_user M app i (Some u))))"

definition get_spec :: "string \<Rightarrow> string \<Rightarrow> registry \<Rightarrow> (err + User) \<times> registry" where
  "get_spec app i M = ((case M app i of None \<Rightarrow> Inl ErrNotFound | Some u \<Rightarrow> Inr u), M)"

definition by_nick_spec :: "(int \<Rightarrow> int) \<Rightarrow> string \<Rightarrow> string \<Rightarrow> registry \<Rightarrow> (err + User) \<times> registry" where
  "by_nick_spec low app nick M =
     ((case normalizeNickname low nick of Inl e \<Rightarrow> Inl e
       | Inr (display, lower) \<Rightarrow> if name_taken low M app lower then Inr (the (M app (SOME i. owner_of low M app lower i))) else Inl ErrNotFound), M)"

definition rename_spec :: "(int \<Rightarrow> int) \<Rightarrow> string \<Rightarrow> string \<Rightarrow> string \<Rightarrow> gotime \<Rightarrow> registry \<Rightarrow> (err + User) \<times> registry" where
  "rename_spec low app i nick now M =
     (case normalizeNickname low nick of Inl e \<Rightarrow> (Inl e, M)
      | Inr (display, lower) \<Rightarrow>
     (case M app i of None \<Rightarrow> (Inl ErrNotFound, M)
      | Some u \<Rightarrow>
        if \<exists>j. j \<noteq> i \<and> owner_of low M app lower j then (Inl ErrNicknameTaken, M)
        else let v = u\<lparr>Nickname := display, UpdatedAt := now\<rparr> in (Inr v, put_user M app i (Some v))))"

definition nicknames_spec :: "string \<Rightarrow> string list \<Rightarrow> registry \<Rightarrow> (err + (string \<Rightarrow> string option)) \<times> registry" where
  "nicknames_spec app ids M = (Inr (\<lambda>i. if i \<in> set ids then map_option Nickname (M app i) else None), M)"

definition delete_spec :: "string \<Rightarrow> string \<Rightarrow> registry \<Rightarrow> (err + unit) \<times> registry" where
  "delete_spec app i M = (Inr (), put_user M app i None)"

definition count_spec :: "string \<Rightarrow> registry \<Rightarrow> (err + int) \<times> registry" where
  "count_spec app M = (Inr (int (card (dom (M app)))), M)"

text \<open>
  Well-formed registries: a player is kept under its id, its nickname is in normal form and
  survives an encoding, no two players of an app have the same name up to case.
\<close>

definition nick_ok :: "(int \<Rightarrow> int) \<Rightarrow> string \<Rightarrow> bool" where
  "nick_ok low n \<longleftrightarrow> normalizeNickname low n = Inr (n, ToLower low n) \<and> utf8 n"

definition user_ok :: "(int \<Rightarrow> int) \<Rightarrow> string \<Rightarrow> User \<Rightarrow> bool" where
  "user_ok low i u \<longleftrightarrow> UserID u = i \<and> utf8 i \<and> nick_ok low (Nickname u) \<and> json_year (CreatedAt u) \<and> json_year (UpdatedAt u)"

definition names_unique :: "(int \<Rightarrow> int) \<Rightarrow> registry \<Rightarrow> bool" where
  "names_unique low M \<longleftrightarrow> (\<forall>app l i j. owner_of low M app l i \<longrightarrow> owner_of low M app l j \<longrightarrow> i = j)"

definition registry_ok :: "(int \<Rightarrow> int) \<Rightarrow> registry \<Rightarrow> bool" where
  "registry_ok low M \<longleftrightarrow> (\<forall>app i u. M app i = Some u \<longrightarrow> user_ok low i u) \<and> names_unique low M \<and> (\<forall>app. finite (dom (M app)))"

subsection \<open>Operations on a store\<close>

datatype user_op =
    UCreate string string string "err + string" gotime
  | UGet string string
  | UByNick string string
  | URename string string string "nat \<Rightarrow> gotime"
  | UNicknames string "string list"
  | UDelete string string
  | UCount string

datatype user_res = RUser "err + User" | RNames "err + (string \<Rightarrow> string option)" | RUnit "err + unit" | RInt "err + int"

fun user_exec :: "'s users_Store \<Rightarrow> user_op \<Rightarrow> 's \<Rightarrow> user_res \<times> 's" where
  "user_exec S (UCreate app nick member rnd now) = map_res RUser (us_Create S app nick member rnd now)"
| "user_exec S (UGet app i) = map_res RUser (us_Get S app i)"
| "user_exec S (UByNick app nick) = map_res RUser (us_GetByNickname S app nick)"
| "user_exec S (URename app i nick nows) = map_res RUser (us_Rename S app i nick nows)"
| "user_exec S (UNicknames app ids) = map_res RNames (us_Nicknames S app ids)"
| "user_exec S (UDelete app i) = map_res RUnit (us_Delete S app i)"
| "user_exec S (UCount app) = map_res RInt (us_Count S app)"

fun user_spec :: "(int \<Rightarrow> int) \<Rightarrow> user_op \<Rightarrow> registry \<Rightarrow> user_res \<times> registry" where
  "user_spec low (UCreate app nick member rnd now) = map_res RUser (create_spec low app nick member rnd now)"
| "user_spec low (UGet app i) = map_res RUser (get_spec app i)"
| "user_spec low (UByNick app nick) = map_res RUser (by_nick_spec low app nick)"
| "user_spec low (URename app i nick nows) = map_res RUser (rename_spec low app i nick (nows 0))"
| "user_spec low (UNicknames app ids) = map_res RNames (nicknames_spec app ids)"
| "user_spec low (UDelete app i) = map_res RUnit (delete_spec app i)"
| "user_spec low (UCount app) = map_res RInt (count_spec app)"

text \<open>
  What the callers guarantee: names and ids are valid UTF-8 (they come from decoded JSON and URLs),
  the clock shows a year of four digits, and app ids, which the server mints, have no brace.
\<close>

definition app_tag :: "string \<Rightarrow> bool" where
  "app_tag a \<longleftrightarrow> CHR ''}'' \<notin> set a"

fun user_op_ok :: "user_op \<Rightarrow> bool" where
  "user_op_ok (UCreate app nick member rnd now) = (app_tag app \<and> utf8 nick \<and> utf8 member \<and> json_year now)"
| "user_op_ok (UGet app i) = app_tag app"
| "user_op_ok (UByNick app nick) = app_tag app"
| "user_op_ok (URename app i nick nows) = (app_tag app \<and> utf8 nick \<and> json_year (nows 0))"
| "user_op_ok (UNicknames app ids) = app_tag app"
| "user_op_ok (UDelete app i) = app_tag app"
| "user_op_ok (UCount app) = app_tag app"

text \<open>The contract of the interface.\<close>

locale user_store =
  fixes S :: "'s users_Store" and low :: "int \<Rightarrow> int" and reg :: "'s \<Rightarrow> registry" and user_inv :: "'s \<Rightarrow> bool"
  assumes exec_refines: "user_op_ok op \<Longrightarrow> refines reg user_inv (user_exec S op) (user_spec low op)"
    and inv_registry: "user_inv s \<Longrightarrow> registry_ok low (reg s)"
begin

lemma run_refines:
  assumes "\<forall>op \<in> set ops. user_op_ok op" "user_inv s"
  shows "fst (pipe_run (user_exec S) ops s) = fst (pipe_run (user_spec low) ops (reg s)) \<and>
    registry_ok low (snd (pipe_run (user_spec low) ops (reg s)))"
proof -
  have "\<forall>op \<in> set ops. refines reg user_inv (user_exec S op) (user_spec low op)" using assms(1) exec_refines by blast
  from refines_run [OF this assms(2)] show ?thesis using inv_registry by metis
qed

end

subsection \<open>Facts on names\<close>

lemma normalizeNickname_ok: "normalizeNickname low n = Inr (d, l) \<Longrightarrow> utf8 n \<Longrightarrow> nick_ok low d \<and> l = ToLower low d"
  by (auto simp: normalizeNickname_def nick_ok_def Let_def utf8_TrimSpace split: if_splits)

lemma normalizeNickname_nonempty: "nick_ok low n \<Longrightarrow> n \<noteq> []"
  by (auto simp: normalizeNickname_def nick_ok_def Let_def split: if_splits)

lemma utf8_hex: "utf8 (''plr_'' @ hex_encode b)"
proof (rule utf8_ascii)
  have "is_hex c \<Longrightarrow> of_char c < (0x80 :: nat)" for c by (auto simp: is_hex_def)
  then have "list_all (\<lambda>c. of_char c < (0x80 :: nat)) (hex_encode b)"
    using hex_encode_chars [of b] by (auto simp: list_all_iff)
  then show "list_all (\<lambda>c. of_char c < (0x80 :: nat)) (''plr_'' @ hex_encode b)" by simp
qed

lemma choose_id_utf8: "choose_id member rnd = Inr i \<Longrightarrow> utf8 member \<Longrightarrow> utf8 i"
  using utf8_hex by (auto simp: choose_id_def newPlayerID_def normalizeMemberID_def Let_def utf8_TrimSpace split: if_splits sum.splits)

text \<open>A claimed id never has the prefix of minted ones.\<close>

lemma claimed_not_minted: "member \<noteq> [] \<Longrightarrow> choose_id member rnd = Inr i \<Longrightarrow> \<not> has_prefix i ''plr_''"
  by (auto simp: choose_id_def normalizeMemberID_def Let_def split: if_splits)

lemma names_uniqueD: "names_unique low M \<Longrightarrow> owner_of low M app l i \<Longrightarrow> owner_of low M app l j \<Longrightarrow> i = j"
  unfolding names_unique_def by blast

lemma owner_some: "names_unique low M \<Longrightarrow> owner_of low M app l i \<Longrightarrow> (SOME j. owner_of low M app l j) = i"
  by (rule some_equality) (auto dest: names_uniqueD)

lemma owner_of_put:
  "owner_of low (put_user M app i v) app' l j \<longleftrightarrow>
     (if app' = app \<and> j = i then \<exists>u. v = Some u \<and> ToLower low (Nickname u) = l else owner_of low M app' l j)"
  by (auto simp: owner_of_def)

lemma registry_ok_put:
  assumes "registry_ok low M" "\<And>u. v = Some u \<Longrightarrow> user_ok low i u \<and> \<not> (\<exists>j. j \<noteq> i \<and> owner_of low M app (ToLower low (Nickname u)) j)"
  shows "registry_ok low (put_user M app i v)"
proof -
  have "names_unique low (put_user M app i v)"
    unfolding names_unique_def owner_of_put using assms by (auto simp: registry_ok_def dest: names_uniqueD split: if_splits)
  moreover have "dom (put_user M app i v app') \<subseteq> insert i (dom (M app'))" for app' by (auto split: if_splits)
  then have "finite (dom (put_user M app i v app'))" for app'
    using assms(1) by (meson finite.insertI finite_subset registry_ok_def)
  moreover have "\<forall>app' j u. put_user M app i v app' j = Some u \<longrightarrow> user_ok low j u"
    using assms by (auto simp: registry_ok_def split: if_splits)
  ultimately show ?thesis by (simp add: registry_ok_def)
qed

lemma registry_ok_create:
  assumes "registry_ok low M" "utf8 nick" "utf8 member" "json_year now"
  shows "registry_ok low (snd (create_spec low app nick member rnd now M))"
proof -
  have "registry_ok low (put_user M app i (Some \<lparr>UserID = i, Nickname = d, CreatedAt = now, UpdatedAt = now\<rparr>))"
    if "normalizeNickname low nick = Inr (d, l)" "choose_id member rnd = Inr i" "\<not> name_taken low M app l" for d l i
    using that assms normalizeNickname_ok [of low nick d l] choose_id_utf8 [of member rnd i]
    by (intro registry_ok_put) (auto simp: user_ok_def name_taken_def)
  then show ?thesis using assms(1) by (auto simp: create_spec_def Let_def split: sum.splits)
qed

lemma registry_ok_rename:
  assumes "registry_ok low M" "utf8 nick" "json_year now"
  shows "registry_ok low (snd (rename_spec low app i nick now M))"
proof -
  have "registry_ok low (put_user M app i (Some (u\<lparr>Nickname := d, UpdatedAt := now\<rparr>)))"
    if "normalizeNickname low nick = Inr (d, l)" "M app i = Some u" "\<not> (\<exists>j. j \<noteq> i \<and> owner_of low M app l j)" for d l u
    using that assms normalizeNickname_ok [of low nick d l]
    by (intro registry_ok_put) (auto simp: user_ok_def registry_ok_def)
  then show ?thesis using assms(1) by (auto simp: rename_spec_def Let_def split: sum.splits option.splits)
qed

lemma registry_ok_delete: "registry_ok low M \<Longrightarrow> registry_ok low (snd (delete_spec app i M))"
  unfolding delete_spec_def snd_conv by (rule registry_ok_put) auto

subsection \<open>The in-memory store (\<open>memstore.go\<close>)\<close>

record UsersMem =
  um_users :: "(string, User) map2"
  um_nicks :: "(string, string) map2"

definition NewUsersMem :: UsersMem where
  "NewUsersMem = \<lparr>um_users = Map.empty, um_nicks = Map.empty\<rparr>"

definition zero_user :: User where
  "zero_user = \<lparr>UserID = [], Nickname = [], CreatedAt = 0, UpdatedAt = 0\<rparr>"

definition mu_Create :: "(int \<Rightarrow> int) \<Rightarrow> string \<Rightarrow> string \<Rightarrow> string \<Rightarrow> err + string \<Rightarrow> gotime \<Rightarrow> (UsersMem, User) io" where
  "mu_Create low appID nickname member rnd now m =
     (case normalizeNickname low nickname of Inl e \<Rightarrow> (Inl e, m)
      | Inr (display, lower) \<Rightarrow>
     (case choose_id member rnd of Inl e \<Rightarrow> (Inl e, m)
      | Inr i \<Rightarrow>
        if get2 (um_users m) appID i \<noteq> None then (Inl ErrMemberTaken, m)
        else if get2 (um_nicks m) appID lower \<noteq> None then (Inl ErrNicknameTaken, m)
        else let u = \<lparr>UserID = i, Nickname = display, CreatedAt = now, UpdatedAt = now\<rparr>;
                 m1 = (if um_users m appID = None
                       then \<lparr>um_users = (um_users m)(appID \<mapsto> []), um_nicks = (um_nicks m)(appID \<mapsto> [])\<rparr> else m)
             in (case put2 (um_users m1) appID i u of None \<Rightarrow> (Inl Panic, m1)
                 | Some us \<Rightarrow> (case put2 (um_nicks m1) appID lower i of None \<Rightarrow> (Inl Panic, m1\<lparr>um_users := us\<rparr>)
                     | Some ns \<Rightarrow> (Inr u, \<lparr>um_users = us, um_nicks = ns\<rparr>)))))"

definition mu_Get :: "string \<Rightarrow> string \<Rightarrow> (UsersMem, User) io" where
  "mu_Get appID i m = ((case get2 (um_users m) appID i of None \<Rightarrow> Inl ErrNotFound | Some u \<Rightarrow> Inr u), m)"

definition mu_GetByNickname :: "(int \<Rightarrow> int) \<Rightarrow> string \<Rightarrow> string \<Rightarrow> (UsersMem, User) io" where
  "mu_GetByNickname low appID nickname m =
     (case normalizeNickname low nickname of Inl e \<Rightarrow> (Inl e, m)
      | Inr (display, lower) \<Rightarrow>
     (case get2 (um_nicks m) appID lower of None \<Rightarrow> (Inl ErrNotFound, m)
      | Some i \<Rightarrow> (Inr (case get2 (um_users m) appID i of Some u \<Rightarrow> u | None \<Rightarrow> zero_user), m)))"

definition lower_of :: "(int \<Rightarrow> int) \<Rightarrow> string \<Rightarrow> string" where
  "lower_of low nick = (case normalizeNickname low nick of Inl e \<Rightarrow> [] | Inr (display, lower) \<Rightarrow> lower)"

definition mu_Rename :: "(int \<Rightarrow> int) \<Rightarrow> string \<Rightarrow> string \<Rightarrow> string \<Rightarrow> gotime \<Rightarrow> (UsersMem, User) io" where
  "mu_Rename low appID i nickname now m =
     (case normalizeNickname low nickname of Inl e \<Rightarrow> (Inl e, m)
      | Inr (display, lower) \<Rightarrow>
     (case get2 (um_users m) appID i of None \<Rightarrow> (Inl ErrNotFound, m)
      | Some u \<Rightarrow>
        let oldLower = lower_of low (Nickname u); v = u\<lparr>Nickname := display, UpdatedAt := now\<rparr>;
            store = (\<lambda>m. case put2 (um_users m) appID i v of None \<Rightarrow> (Inl Panic, m) | Some us \<Rightarrow> (Inr v, m\<lparr>um_users := us\<rparr>))
        in if lower \<noteq> oldLower then
             (if get2 (um_nicks m) appID lower \<noteq> None then (Inl ErrNicknameTaken, m)
              else (case put2 (del2 (um_nicks m) appID oldLower) appID lower i of
                      None \<Rightarrow> (Inl Panic, m) | Some ns \<Rightarrow> store (m\<lparr>um_nicks := ns\<rparr>)))
           else store m))"

definition mu_Nicknames :: "string \<Rightarrow> string list \<Rightarrow> (UsersMem, string \<Rightarrow> string option) io" where
  "mu_Nicknames appID ids m =
     (Inr (fold (\<lambda>i out. case get2 (um_users m) appID i of Some u \<Rightarrow> out(i \<mapsto> Nickname u) | None \<Rightarrow> out) ids Map.empty), m)"

definition mu_Delete :: "(int \<Rightarrow> int) \<Rightarrow> string \<Rightarrow> string \<Rightarrow> (UsersMem, unit) io" where
  "mu_Delete low appID i m =
     (case get2 (um_users m) appID i of None \<Rightarrow> (Inr (), m)
      | Some u \<Rightarrow>
        let m1 = (case normalizeNickname low (Nickname u) of Inl e \<Rightarrow> m
                  | Inr (display, lower) \<Rightarrow> if get2 (um_nicks m) appID lower = Some i
                      then m\<lparr>um_nicks := del2 (um_nicks m) appID lower\<rparr> else m)
        in (Inr (), m1\<lparr>um_users := del2 (um_users m1) appID i\<rparr>))"

definition mu_Count :: "string \<Rightarrow> (UsersMem, int) io" where
  "mu_Count appID m = (Inr (len2 (um_users m) appID), m)"

definition users_mem :: "(int \<Rightarrow> int) \<Rightarrow> UsersMem users_Store" where
  "users_mem low = \<lparr>us_Create = mu_Create low, us_Get = mu_Get, us_GetByNickname = mu_GetByNickname low,
     us_Rename = (\<lambda>app i nick nows. mu_Rename low app i nick (nows 0)), us_Nicknames = mu_Nicknames,
     us_Delete = mu_Delete low, us_Count = mu_Count\<rparr>"

text \<open>The index of names is exactly the set of names that are taken.\<close>

definition mu_reg :: "UsersMem \<Rightarrow> registry" where
  "mu_reg m = get2 (um_users m)"

definition mu_inv :: "(int \<Rightarrow> int) \<Rightarrow> UsersMem \<Rightarrow> bool" where
  "mu_inv low m \<longleftrightarrow> registry_ok low (mu_reg m) \<and>
     (\<forall>app l i. get2 (um_nicks m) app l = Some i \<longleftrightarrow> owner_of low (mu_reg m) app l i) \<and>
     (\<forall>app. um_users m app = None \<longleftrightarrow> um_nicks m app = None) \<and> keys_distinct (um_users m)"

lemma mu_inv_start: "mu_inv low NewUsersMem" "mu_reg NewUsersMem = (\<lambda>_ _. None)"
proof -
  have e: "get2 Map.empty = (\<lambda>_ _. None)" by (intro ext) (simp add: get2_def)
  show "mu_reg NewUsersMem = (\<lambda>_ _. None)" by (simp add: mu_reg_def NewUsersMem_def e)
  then show "mu_inv low NewUsersMem"
    by (simp add: mu_inv_def registry_ok_def names_unique_def owner_of_def) (simp add: NewUsersMem_def keys_distinct_def e)
qed

lemma mu_taken: "mu_inv low m \<Longrightarrow> get2 (um_nicks m) app l \<noteq> None \<longleftrightarrow> name_taken low (mu_reg m) app l"
  by (auto simp: mu_inv_def name_taken_def)

lemma lower_of_ok: "nick_ok low n \<Longrightarrow> lower_of low n = ToLower low n"
  by (simp add: lower_of_def nick_ok_def)

lemma mu_Create_refines:
  assumes "utf8 nick" "utf8 member" "json_year now"
  shows "refines mu_reg (mu_inv low) (mu_Create low app nick member rnd now) (create_spec low app nick member rnd now)"
proof (rule refinesI)
  fix m
  assume i: "mu_inv low m"
  define M where "M = mu_reg m"
  have ok: "registry_ok low (snd (create_spec low app nick member rnd now M))"
    using registry_ok_create assms i by (auto simp: mu_inv_def M_def)
  show "fst (mu_Create low app nick member rnd now m) = fst (create_spec low app nick member rnd now (mu_reg m)) \<and>
    mu_reg (snd (mu_Create low app nick member rnd now m)) = snd (create_spec low app nick member rnd now (mu_reg m)) \<and>
    mu_inv low (snd (mu_Create low app nick member rnd now m))"
  proof (cases "\<exists>d l j. normalizeNickname low nick = Inr (d, l) \<and> choose_id member rnd = Inr j \<and> M app j = None \<and> \<not> name_taken low M app l")
    case False
    then have "mu_Create low app nick member rnd now m = (fst (create_spec low app nick member rnd now M), m)"
      "snd (create_spec low app nick member rnd now M) = M"
      using mu_taken [OF i, of app] unfolding M_def
      by (auto simp: mu_Create_def create_spec_def mu_reg_def Let_def split: sum.splits)
    then show ?thesis using i by (simp add: M_def)
  next
    case True
    then obtain d l j where c: "normalizeNickname low nick = Inr (d, l)" "choose_id member rnd = Inr j" "M app j = None" "\<not> name_taken low M app l"
      by blast
    define u where "u = \<lparr>UserID = j, Nickname = d, CreatedAt = now, UpdatedAt = now\<rparr>"
    define m1 where "m1 = (if um_users m app = None
      then \<lparr>um_users = (um_users m)(app \<mapsto> []), um_nicks = (um_nicks m)(app \<mapsto> [])\<rparr> else m)"
    have nil: "\<forall>a. um_users m a = None \<longleftrightarrow> um_nicks m a = None" using i unfolding mu_inv_def by blast
    have m1: "get2 (um_users m1) = get2 (um_users m)" "get2 (um_nicks m1) = get2 (um_nicks m)" "keys_distinct (um_users m1)"
      using i nil by (simp_all add: m1_def mu_inv_def keys_distinct_new)
    have m1u: "um_users m1 app \<noteq> None" by (simp add: m1_def)
    have m1i: "\<forall>a. um_users m1 a = None \<longleftrightarrow> um_nicks m1 a = None" using nil unfolding m1_def by simp
    have m1n: "um_nicks m1 app \<noteq> None" using m1u m1i by metis
    obtain us ns where p: "put2 (um_users m1) app j u = Some us" "put2 (um_nicks m1) app l j = Some ns"
      using put2_defined [of "um_users m1", OF m1u] put2_defined [of "um_nicks m1", OF m1n] by blast
    have sp: "create_spec low app nick member rnd now M = (Inr u, put_user M app j (Some u))"
      using c by (simp add: create_spec_def Let_def u_def)
    have t: "get2 (um_nicks m) app l = None" using mu_taken [OF i, of app l] c(4) by (simp add: M_def)
    have r: "mu_Create low app nick member rnd now m = (Inr u, \<lparr>um_users = us, um_nicks = ns\<rparr>)"
      using c t p unfolding mu_Create_def M_def mu_reg_def by (simp add: Let_def u_def [symmetric] m1_def [symmetric])
    have rg: "mu_reg \<lparr>um_users = us, um_nicks = ns\<rparr> = put_user M app j (Some u)"
      using put2_get2 [OF p(1)] by (auto simp: mu_reg_def M_def m1 fun_eq_iff)
    have l: "l = ToLower low d" using normalizeNickname_ok [OF c(1) assms(1)] by simp
    have "\<forall>a k x. get2 ns a k = Some x \<longleftrightarrow> owner_of low (put_user M app j (Some u)) a k x"
    proof (intro allI)
      fix a k x
      have "get2 (um_nicks m) a k = Some x \<longleftrightarrow> owner_of low M a k x" using i by (simp add: mu_inv_def M_def)
      moreover have "\<not> owner_of low M app l x" "\<not> owner_of low M app k j" using c(3,4) by (auto simp: name_taken_def owner_of_def)
      ultimately show "get2 ns a k = Some x \<longleftrightarrow> owner_of low (put_user M app j (Some u)) a k x"
        using put2_get2 [OF p(2), of a k] l by (auto simp: m1 owner_of_put u_def)
    qed
    then have "mu_inv low \<lparr>um_users = us, um_nicks = ns\<rparr>"
      using ok sp m1i put2_None [OF p(1)] put2_None [OF p(2)] keys_distinct_put2 [OF m1(3) p(1)] by (simp add: mu_inv_def rg)
    then show ?thesis using r sp rg by (simp add: M_def)
  qed
qed

lemma mu_Rename_refines:
  assumes "utf8 nick" "json_year now"
  shows "refines mu_reg (mu_inv low) (mu_Rename low app j nick now) (rename_spec low app j nick now)"
proof (rule refinesI)
  fix m
  assume i: "mu_inv low m"
  define M where "M = mu_reg m"
  have ok: "registry_ok low (snd (rename_spec low app j nick now M))" and rok: "registry_ok low M"
    using registry_ok_rename assms i by (auto simp: mu_inv_def M_def)
  have nk: "get2 (um_nicks m) a k = Some x \<longleftrightarrow> owner_of low M a k x" for a k x using i by (simp add: mu_inv_def M_def)
  have nil: "um_users m a = None \<longleftrightarrow> um_nicks m a = None" for a using i unfolding mu_inv_def by blast
  show "fst (mu_Rename low app j nick now m) = fst (rename_spec low app j nick now (mu_reg m)) \<and>
    mu_reg (snd (mu_Rename low app j nick now m)) = snd (rename_spec low app j nick now (mu_reg m)) \<and>
    mu_inv low (snd (mu_Rename low app j nick now m))"
  proof (cases "\<exists>d l u. normalizeNickname low nick = Inr (d, l) \<and> M app j = Some u")
    case False
    then have "mu_Rename low app j nick now m = (fst (rename_spec low app j nick now M), m)" "snd (rename_spec low app j nick now M) = M"
      unfolding M_def by (auto simp: mu_Rename_def rename_spec_def mu_reg_def split: sum.splits option.splits)
    then show ?thesis using i by (simp add: M_def)
  next
    case True
    then obtain d l u where c: "normalizeNickname low nick = Inr (d, l)" "M app j = Some u" by blast
    define k where "k = ToLower low (Nickname u)"
    define v where "v = u\<lparr>Nickname := d, UpdatedAt := now\<rparr>"
    have k: "lower_of low (Nickname u) = k" using rok c(2) by (auto simp: registry_ok_def user_ok_def k_def intro: lower_of_ok)
    have own: "owner_of low M app k j" using c(2) by (auto simp: owner_of_def k_def)
    have l: "l = ToLower low d" using normalizeNickname_ok [OF c(1) assms(1)] by simp
    have uj: "get2 (um_users m) app j = Some u" using c(2) by (simp add: M_def mu_reg_def)
    then have un: "um_users m app \<noteq> None" by (auto simp: get2_def split: option.splits)
    obtain us where p: "put2 (um_users m) app j v = Some us" using put2_defined [of "um_users m", OF un] by blast
    have uniq: "owner_of low M app k x \<Longrightarrow> x = j" for x using rok own by (auto simp: registry_ok_def dest: names_uniqueD)
    consider (same) "l = k" | (taken) "l \<noteq> k" "get2 (um_nicks m) app l \<noteq> None" | (free) "l \<noteq> k" "get2 (um_nicks m) app l = None" by blast
    then show ?thesis
    proof cases
      case taken
      then obtain x where x: "owner_of low M app l x" using nk by blast
      then have "x \<noteq> j" using taken(1) c(2) by (auto simp: owner_of_def k_def)
      then have "rename_spec low app j nick now M = (Inl ErrNicknameTaken, M)" using x c by (auto simp: rename_spec_def)
      moreover have "mu_Rename low app j nick now m = (Inl ErrNicknameTaken, m)"
        using taken c k uj by (simp add: mu_Rename_def Let_def)
      ultimately show ?thesis using i by (simp add: M_def)
    next
      case same
      have onlyk: "owner_of low M app x j \<Longrightarrow> x = k" for x using c(2) by (auto simp: owner_of_def k_def)
      from same have "\<not> (\<exists>x. x \<noteq> j \<and> owner_of low M app l x)" using uniq by blast
      then have sp: "rename_spec low app j nick now M = (Inr v, put_user M app j (Some v))" using c by (simp add: rename_spec_def v_def Let_def)
      have r: "mu_Rename low app j nick now m = (Inr v, m\<lparr>um_users := us\<rparr>)"
        using same c k uj p by (simp add: mu_Rename_def Let_def v_def)
      have rg: "mu_reg (m\<lparr>um_users := us\<rparr>) = put_user M app j (Some v)"
        using put2_get2 [OF p] by (auto simp: mu_reg_def M_def fun_eq_iff)
      have "get2 (um_nicks m) a x = Some y \<longleftrightarrow> owner_of low (put_user M app j (Some v)) a x y" for a x y
        using own l same by (auto simp: owner_of_put nk v_def dest: onlyk)
      then have "mu_inv low (m\<lparr>um_users := us\<rparr>)"
        using ok sp nil put2_None [OF p] keys_distinct_put2 [OF _ p] i by (simp add: mu_inv_def rg)
      then show ?thesis using r sp rg by (simp add: M_def)
    next
      case free
      have onlyk: "owner_of low M app x j \<Longrightarrow> x = k" for x using c(2) by (auto simp: owner_of_def k_def)
      have fr: "\<not> owner_of low M app l x" for x using free(2) nk by (metis option.distinct(1))
      then have sp: "rename_spec low app j nick now M = (Inr v, put_user M app j (Some v))" using c by (simp add: rename_spec_def v_def Let_def)
      have "del2 (um_nicks m) app k app \<noteq> None" using un nil by (simp add: del2_None)
      then obtain ns where q: "put2 (del2 (um_nicks m) app k) app l j = Some ns"
        using put2_defined [of "del2 (um_nicks m) app k" app l j] by blast
      define m' where "m' = m\<lparr>um_nicks := ns, um_users := us\<rparr>"
      have r: "mu_Rename low app j nick now m = (Inr v, m')"
        using free c k uj p q by (simp add: mu_Rename_def Let_def v_def m'_def)
      have rg: "mu_reg m' = put_user M app j (Some v)"
        using put2_get2 [OF p] by (auto simp: mu_reg_def M_def m'_def fun_eq_iff)
      have "get2 ns a x = Some y \<longleftrightarrow> owner_of low (put_user M app j (Some v)) a x y" for a x y
        using l free(1) by (auto simp: put2_get2 [OF q] del2_get2 owner_of_put nk fr [unfolded l] v_def dest: uniq onlyk)
      moreover have "us a = None \<longleftrightarrow> ns a = None" for a
        using nil [of a] put2_None [OF p, of a] put2_None [OF q, of a] by (simp add: del2_None)
      ultimately have "mu_inv low m'"
        using ok sp keys_distinct_put2 [OF _ p] i by (simp add: mu_inv_def rg) (simp add: m'_def)
      then show ?thesis using r sp rg by (simp add: M_def)
    qed
  qed
qed

lemma mu_Delete_refines: "refines mu_reg (mu_inv low) (mu_Delete low app j) (delete_spec app j)"
proof (rule refinesI)
  fix m
  assume i: "mu_inv low m"
  define M where "M = mu_reg m"
  have nk: "get2 (um_nicks m) a k = Some x \<longleftrightarrow> owner_of low M a k x" for a k x using i by (simp add: mu_inv_def M_def)
  show "fst (mu_Delete low app j m) = fst (delete_spec app j (mu_reg m)) \<and>
    mu_reg (snd (mu_Delete low app j m)) = snd (delete_spec app j (mu_reg m)) \<and> mu_inv low (snd (mu_Delete low app j m))"
  proof (cases "M app j")
    case None
    then have "put_user M app j None = M" by (auto simp: fun_eq_iff)
    then show ?thesis using i None by (simp add: mu_Delete_def delete_spec_def M_def mu_reg_def)
  next
    case (Some u)
    define k where "k = ToLower low (Nickname u)"
    define m' where "m' = m\<lparr>um_nicks := del2 (um_nicks m) app k, um_users := del2 (um_users m) app j\<rparr>"
    have n: "normalizeNickname low (Nickname u) = Inr (Nickname u, k)"
      using i Some by (auto simp: mu_inv_def registry_ok_def user_ok_def nick_ok_def M_def k_def)
    have own: "owner_of low M app k j" using Some by (auto simp: owner_of_def k_def)
    then have "get2 (um_nicks m) app k = Some j" using nk by simp
    then have r: "mu_Delete low app j m = (Inr (), m')"
      using Some n by (simp add: mu_Delete_def m'_def M_def mu_reg_def Let_def)
    have rg: "mu_reg m' = put_user M app j None" by (simp add: mu_reg_def M_def m'_def fun_eq_iff del2_get2)
    have uniq: "owner_of low M app k x \<Longrightarrow> x = j" for x
      using i own by (auto simp: mu_inv_def registry_ok_def M_def dest: names_uniqueD)
    have onlyk: "owner_of low M app x j \<Longrightarrow> x = k" for x using Some by (auto simp: owner_of_def k_def)
    have "get2 (del2 (um_nicks m) app k) a x = Some y \<longleftrightarrow> owner_of low (put_user M app j None) a x y" for a x y
      by (auto simp: del2_get2 owner_of_put nk dest: uniq onlyk)
    moreover have "registry_ok low (put_user M app j None)"
      using registry_ok_delete [of low M app j] i by (simp add: mu_inv_def M_def delete_spec_def)
    ultimately have "mu_inv low m'"
      using i unfolding mu_inv_def rg by (simp add: m'_def del2_None keys_distinct_del2)
    then show ?thesis using r rg by (simp add: delete_spec_def M_def)
  qed
qed

lemma mu_GetByNickname_refines: "refines mu_reg (mu_inv low) (mu_GetByNickname low app nick) (by_nick_spec low app nick)"
proof (rule refines_read)
  fix m
  assume i: "mu_inv low m"
  have f: "name_taken low (mu_reg m) app l \<and> get2 (um_users m) app j = Some (the (mu_reg m app (SOME i. owner_of low (mu_reg m) app l i)))"
    if "get2 (um_nicks m) app l = Some j" for l j
  proof -
    have o: "owner_of low (mu_reg m) app l j" using that i by (simp add: mu_inv_def)
    have "names_unique low (mu_reg m)" using i by (simp add: mu_inv_def registry_ok_def)
    from owner_some [OF this o] o show ?thesis by (auto simp: name_taken_def owner_of_def mu_reg_def)
  qed
  show "mu_GetByNickname low app nick m = (fst (by_nick_spec low app nick (mu_reg m)), m)"
  proof (cases "normalizeNickname low nick")
    case (Inr p)
    obtain d l where p: "p = (d, l)" by (cases p)
    show ?thesis
    proof (cases "get2 (um_nicks m) app l")
      case None
      then have "\<not> name_taken low (mu_reg m) app l" using mu_taken [OF i, of app l] by simp
      then show ?thesis using Inr p None by (simp add: mu_GetByNickname_def by_nick_spec_def)
    next
      case (Some j)
      then show ?thesis using f [OF Some] Inr p by (simp add: mu_GetByNickname_def by_nick_spec_def)
    qed
  qed (simp add: mu_GetByNickname_def by_nick_spec_def)
qed (simp add: by_nick_spec_def)

lemma mu_Nicknames_fold:
  "fold (\<lambda>i out. case g i of Some u \<Rightarrow> out(i \<mapsto> Nickname u) | None \<Rightarrow> out) ids f =
     (\<lambda>i. if i \<in> set ids \<and> g i \<noteq> None then map_option Nickname (g i) else f i)"
  by (induction ids arbitrary: f) (auto simp: fun_eq_iff split: option.splits)

lemma mu_Nicknames_refines: "refines mu_reg (mu_inv low) (mu_Nicknames app ids) (nicknames_spec app ids)"
  by (rule refines_read) (auto simp: mu_Nicknames_def nicknames_spec_def mu_Nicknames_fold mu_reg_def fun_eq_iff)

lemma mu_Count_refines: "refines mu_reg (mu_inv low) (mu_Count app) (count_spec app)"
  by (rule refines_read) (simp_all add: mu_Count_def count_spec_def len2_card mu_inv_def mu_reg_def)

lemma mu_Get_refines: "refines mu_reg (mu_inv low) (mu_Get app j) (get_spec app j)"
  by (rule refines_read) (simp_all add: mu_Get_def get_spec_def mu_reg_def)

interpretation um: user_store "users_mem low" low mu_reg "mu_inv low" for low
proof
  fix op
  show "user_op_ok op \<Longrightarrow> refines mu_reg (mu_inv low) (user_exec (users_mem low) op) (user_spec low op)"
    by (cases op) (simp_all add: users_mem_def refines_map_res mu_Create_refines mu_Get_refines mu_GetByNickname_refines
      mu_Rename_refines mu_Nicknames_refines mu_Delete_refines mu_Count_refines)
qed (simp add: mu_inv_def)

end
