(* ===== verification/Users_Redis.thy ===== *)
theory Users_Redis
  imports Users Redis_KV
begin

text \<open>
  The Redis store of the player registry, \<open>pkg/users/redisstore.go\<close>: three keys per app, written by
  Lua scripts that the server runs atomically. The scripts keep the invariant that the index of
  names is exactly the names of the players whatever snapshot their arguments were computed from,
  so it holds under every interleaving of clients; run by one client, the store refines the same
  specification as the in-memory one. A JSON text is \<open>JSON u\<close> with the record it denotes; an error
  of \<open>encoding/json\<close> is \<open>ErrBadRecord\<close>.
\<close>

subsection \<open>Keys and scripts\<close>

definition playerKey :: "string \<Rightarrow> string \<Rightarrow> string" where
  "playerKey app i = ''plr:{'' @ app @ ''}:user:'' @ i"

definition namesKey :: "string \<Rightarrow> string" where
  "namesKey app = ''plr:{'' @ app @ ''}:names''"

definition nickKey :: "string \<Rightarrow> string" where
  "nickKey app = ''plr:{'' @ app @ ''}:nick''"

text \<open>Inside a script an error of a command ends the script with that error, and a nil reply is \<open>false\<close>.\<close>

definition lua_get :: "('s \<Rightarrow> 'a reply \<times> 's) \<Rightarrow> ('s, 'a option) io" where
  "lua_get c = io_catch_nil (io_bind (io_cmd c) (\<lambda>v. io_ret (Some v))) (io_ret None)"

definition createScript :: "('s, User json) kv \<Rightarrow> string \<Rightarrow> string \<Rightarrow> string \<Rightarrow> string \<Rightarrow> string \<Rightarrow> string \<Rightarrow> User json \<Rightarrow> ('s, int) io" where
  "createScript C k1 k2 k3 lower i display data =
     io_bind (io_cmd (EXISTS C k3)) (\<lambda>e. if e = 1 then io_ret (- 2) else
     io_bind (io_cmd (HSETNX C k1 lower i)) (\<lambda>n. if n = 0 then io_ret 0 else
     io_bind (io_cmd (HSET C k2 i display)) (\<lambda>_.
     io_bind (io_cmd (SET C k3 data 0)) (\<lambda>_. io_ret 1))))"

definition renameScript :: "('s, User json) kv \<Rightarrow> string \<Rightarrow> string \<Rightarrow> string \<Rightarrow> string \<Rightarrow> string \<Rightarrow> string \<Rightarrow> string \<Rightarrow> User json \<Rightarrow> ('s, int) io" where
  "renameScript C k1 k2 k3 lower oldLower i display data =
     io_bind (lua_get (HGET C k1 oldLower)) (\<lambda>own. if own \<noteq> Some i then io_ret (- 1) else
     io_bind (if lower \<noteq> oldLower
              then io_bind (io_cmd (HSETNX C k1 lower i)) (\<lambda>n. if n = 0 then io_ret False
                   else io_bind (io_cmd (HDEL C k1 oldLower)) (\<lambda>_. io_ret True))
              else io_ret True) (\<lambda>claimed. if \<not> claimed then io_ret 0 else
     io_bind (io_cmd (HSET C k2 i display)) (\<lambda>_.
     io_bind (io_cmd (SET C k3 data 0)) (\<lambda>_. io_ret 1))))"

definition deleteScript :: "('s, User json) kv \<Rightarrow> string \<Rightarrow> string \<Rightarrow> string \<Rightarrow> string \<Rightarrow> string \<Rightarrow> ('s, int) io" where
  "deleteScript C k1 k2 k3 lower i =
     io_bind (io_cmd (EXISTS C k3)) (\<lambda>e. if e = 0 then io_ret 1 else
     io_bind (lua_get (HGET C k1 lower)) (\<lambda>own. if own \<noteq> Some i then io_ret (- 1) else
     io_bind (io_cmd (HDEL C k1 lower)) (\<lambda>_.
     io_bind (io_cmd (HDEL C k2 i)) (\<lambda>_.
     io_bind (io_cmd (KDEL C k3)) (\<lambda>_. io_ret 1)))))"

subsection \<open>The operations\<close>

definition marshal_user :: "User \<Rightarrow> err + User json" where
  "marshal_user u = (if json_year (CreatedAt u) \<and> json_year (UpdatedAt u)
     then Inr (JSON (u\<lparr>UserID := to_utf8 (UserID u), Nickname := to_utf8 (Nickname u)\<rparr>)) else Inl ErrBadRecord)"

definition unmarshal_user :: "User json \<Rightarrow> err + User" where
  "unmarshal_user data = (case data of JSON u \<Rightarrow> Inr u | NotJSON \<Rightarrow> Inl ErrBadRecord)"

definition ru_Create :: "('s, User json) kv \<Rightarrow> (int \<Rightarrow> int) \<Rightarrow> string \<Rightarrow> string \<Rightarrow> string \<Rightarrow> err + string \<Rightarrow> gotime \<Rightarrow> ('s, User) io" where
  "ru_Create C low appID nickname member rnd now =
     io_bind (io_lift (normalizeNickname low nickname)) (\<lambda>(display, lower).
     io_bind (io_lift (choose_id member rnd)) (\<lambda>i.
     let u = \<lparr>UserID = i, Nickname = display, CreatedAt = now, UpdatedAt = now\<rparr> in
     io_bind (io_lift (marshal_user u)) (\<lambda>data.
     io_bind (createScript C (nickKey appID) (namesKey appID) (playerKey appID i) lower i display data) (\<lambda>ok.
     if ok = 0 then io_fail ErrNicknameTaken else if ok = - 2 then io_fail ErrMemberTaken else io_ret u))))"

definition ru_Get :: "('s, User json) kv \<Rightarrow> string \<Rightarrow> string \<Rightarrow> ('s, User) io" where
  "ru_Get C appID i =
     io_bind (io_catch_nil (io_cmd (GET C (playerKey appID i))) (io_fail ErrNotFound)) (\<lambda>data. io_lift (unmarshal_user data))"

definition ru_GetByNickname :: "('s, User json) kv \<Rightarrow> (int \<Rightarrow> int) \<Rightarrow> string \<Rightarrow> string \<Rightarrow> ('s, User) io" where
  "ru_GetByNickname C low appID nickname =
     io_bind (io_lift (normalizeNickname low nickname)) (\<lambda>(display, lower).
     io_bind (io_catch_nil (io_cmd (HGET C (nickKey appID) lower)) (io_fail ErrNotFound)) (\<lambda>i. ru_Get C appID i))"

text \<open>The retry loop: \<open>n\<close> attempts are left, \<open>k\<close> were made.\<close>

fun rename_loop :: "('s, User json) kv \<Rightarrow> (int \<Rightarrow> int) \<Rightarrow> string \<Rightarrow> string \<Rightarrow> string \<Rightarrow> string \<Rightarrow> (nat \<Rightarrow> gotime) \<Rightarrow> nat \<Rightarrow> nat \<Rightarrow> ('s, User) io" where
  "rename_loop C low appID i display lower nows k 0 = io_fail ErrRenameContention"
| "rename_loop C low appID i display lower nows k (Suc n) =
     io_bind (ru_Get C appID i) (\<lambda>u.
     io_bind (io_lift (normalizeNickname low (Nickname u))) (\<lambda>(_, oldLower).
     let v = u\<lparr>Nickname := display, UpdatedAt := nows k\<rparr> in
     io_bind (io_lift (marshal_user v)) (\<lambda>data.
     io_bind (renameScript C (nickKey appID) (namesKey appID) (playerKey appID i) lower oldLower i display data) (\<lambda>res.
     if res = 1 then io_ret v else if res = 0 then io_fail ErrNicknameTaken
     else rename_loop C low appID i display lower nows (Suc k) n))))"

definition maxAttempts :: nat where "maxAttempts = 32"

definition ru_Rename :: "('s, User json) kv \<Rightarrow> (int \<Rightarrow> int) \<Rightarrow> string \<Rightarrow> string \<Rightarrow> string \<Rightarrow> (nat \<Rightarrow> gotime) \<Rightarrow> ('s, User) io" where
  "ru_Rename C low appID i nickname nows =
     io_bind (io_lift (normalizeNickname low nickname)) (\<lambda>(display, lower).
       rename_loop C low appID i display lower nows 0 maxAttempts)"

definition ru_Nicknames :: "('s, User json) kv \<Rightarrow> string \<Rightarrow> string list \<Rightarrow> ('s, string \<Rightarrow> string option) io" where
  "ru_Nicknames C appID ids =
     (if ids = [] then io_ret Map.empty
      else io_bind (io_cmd (HMGET C (namesKey appID) ids)) (\<lambda>vals.
        io_ret (fold (\<lambda>(i, v) out. case v of Some name \<Rightarrow> out(i \<mapsto> name) | None \<Rightarrow> out) (zip ids vals) Map.empty)))"

fun delete_loop :: "('s, User json) kv \<Rightarrow> (int \<Rightarrow> int) \<Rightarrow> string \<Rightarrow> string \<Rightarrow> nat \<Rightarrow> ('s, unit) io" where
  "delete_loop C low appID i 0 = io_fail ErrDeleteContention"
| "delete_loop C low appID i (Suc n) = (\<lambda>s.
     case ru_Get C appID i s of
       (Inl e, s1) \<Rightarrow> if e = ErrNotFound then (Inr (), s1) else (Inl e, s1)
     | (Inr u, s1) \<Rightarrow>
         io_bind (io_lift (normalizeNickname low (Nickname u))) (\<lambda>(_, lower).
         io_bind (deleteScript C (nickKey appID) (namesKey appID) (playerKey appID i) lower i) (\<lambda>res.
         if res = 1 then io_ret () else delete_loop C low appID i n)) s1)"

definition ru_Delete :: "('s, User json) kv \<Rightarrow> (int \<Rightarrow> int) \<Rightarrow> string \<Rightarrow> string \<Rightarrow> ('s, unit) io" where
  "ru_Delete C low appID i = delete_loop C low appID i maxAttempts"

definition ru_Count :: "('s, User json) kv \<Rightarrow> string \<Rightarrow> ('s, int) io" where
  "ru_Count C appID = io_cmd (HLEN C (namesKey appID))"

definition users_redis :: "('s, User json) kv \<Rightarrow> (int \<Rightarrow> int) \<Rightarrow> 's users_Store" where
  "users_redis C low = \<lparr>us_Create = ru_Create C low, us_Get = ru_Get C, us_GetByNickname = ru_GetByNickname C low,
     us_Rename = ru_Rename C low, us_Nicknames = ru_Nicknames C, us_Delete = ru_Delete C low, us_Count = ru_Count C\<rparr>"

subsection \<open>What the keys hold\<close>

definition nick_index :: "(int \<Rightarrow> int) \<Rightarrow> registry \<Rightarrow> string \<Rightarrow> string \<Rightarrow> string option" where
  "nick_index low M app l = (if name_taken low M app l then Some (SOME i. owner_of low M app l i) else None)"

definition name_index :: "registry \<Rightarrow> string \<Rightarrow> string \<Rightarrow> string option" where
  "name_index M app i = map_option Nickname (M app i)"

definition user_view :: "User option \<Rightarrow> User json kview" where
  "user_view v = (case v of None \<Rightarrow> VNone | Some u \<Rightarrow> VStr (JSON u))"

definition holds_registry :: "(int \<Rightarrow> int) \<Rightarrow> (string \<Rightarrow> User json kview) \<Rightarrow> registry \<Rightarrow> bool" where
  "holds_registry low f M \<longleftrightarrow> (\<forall>app. if app_tag app
     then (\<forall>i. f (playerKey app i) = user_view (M app i)) \<and> f (namesKey app) = map_view (name_index M app) \<and>
          f (nickKey app) = map_view (nick_index low M app)
     else M app = Map.empty)"

definition ru_reg :: "('s \<Rightarrow> string \<Rightarrow> User json kview) \<Rightarrow> 's \<Rightarrow> registry" where
  "ru_reg kks s = (\<lambda>app i. if app_tag app then (case kks s (playerKey app i) of VStr (JSON u) \<Rightarrow> Some u | _ \<Rightarrow> None) else None)"

definition ru_inv :: "(int \<Rightarrow> int) \<Rightarrow> ('s \<Rightarrow> string \<Rightarrow> User json kview) \<Rightarrow> 's \<Rightarrow> bool" where
  "ru_inv low kks s \<longleftrightarrow> holds_registry low (kks s) (ru_reg kks s) \<and> registry_ok low (ru_reg kks s)"

lemma nick_index_iff: "registry_ok low M \<Longrightarrow> nick_index low M app l = Some i \<longleftrightarrow> owner_of low M app l i"
  using owner_some [of low M app l] by (auto simp: nick_index_def name_taken_def registry_ok_def)

lemma nick_index_None: "nick_index low M app l = None \<longleftrightarrow> \<not> name_taken low M app l"
  by (simp add: nick_index_def)

lemma option_ext: "(\<And>k v. f k = Some v \<longleftrightarrow> g k = Some v) \<Longrightarrow> f = g"
  by (rule ext) (metis not_None_eq)

lemma nick_index_other: "app' \<noteq> app \<Longrightarrow> nick_index low (put_user M app i v) app' = nick_index low M app'"
proof -
  assume "app' \<noteq> app"
  then have "owner_of low (put_user M app i v) app' = owner_of low M app'" by (intro ext) (simp add: owner_of_put)
  then show ?thesis by (intro ext) (simp only: nick_index_def name_taken_def)
qed

lemma name_index_put: "name_index (put_user M app i v) app = (name_index M app)(i := map_option Nickname v)"
  by (auto simp: name_index_def fun_eq_iff)

lemma name_index_other: "app' \<noteq> app \<Longrightarrow> name_index (put_user M app i v) app' = name_index M app'"
  by (auto simp: name_index_def fun_eq_iff)

lemma player_keys [key_simps]:
  "app_tag a \<Longrightarrow> app_tag b \<Longrightarrow> playerKey a i = playerKey b j \<longleftrightarrow> a = b \<and> i = j"
  "app_tag a \<Longrightarrow> app_tag b \<Longrightarrow> namesKey a = namesKey b \<longleftrightarrow> a = b" "app_tag a \<Longrightarrow> app_tag b \<Longrightarrow> nickKey a = nickKey b \<longleftrightarrow> a = b"
  "app_tag a \<Longrightarrow> app_tag b \<Longrightarrow> playerKey a i \<noteq> namesKey b" "app_tag a \<Longrightarrow> app_tag b \<Longrightarrow> playerKey a i \<noteq> nickKey b"
  "app_tag a \<Longrightarrow> app_tag b \<Longrightarrow> namesKey b \<noteq> playerKey a i" "app_tag a \<Longrightarrow> app_tag b \<Longrightarrow> nickKey b \<noteq> playerKey a i"
  "app_tag a \<Longrightarrow> app_tag b \<Longrightarrow> namesKey a \<noteq> nickKey b" "app_tag a \<Longrightarrow> app_tag b \<Longrightarrow> nickKey a \<noteq> namesKey b"
  by (auto simp: playerKey_def namesKey_def nickKey_def app_tag_def append_sep_inject)

lemma holds_reg: "holds_registry low (kks s) M \<Longrightarrow> ru_reg kks s = M"
proof (intro ext)
  fix app i
  assume "holds_registry low (kks s) M"
  then show "ru_reg kks s app i = M app i"
    by (cases "app_tag app"; cases "M app i") (auto simp: holds_registry_def ru_reg_def user_view_def dest: spec [of _ app])
qed

lemma ru_invI: "holds_registry low (kks s) M \<Longrightarrow> registry_ok low M \<Longrightarrow> ru_inv low kks s"
  using holds_reg [of low kks s M] by (simp add: ru_inv_def)

lemma holds_put:
  assumes h: "holds_registry low f M" and app: "app_tag app" "M' = put_user M app i v"
    and g: "g = f(nickKey app := map_view (nick_index low M' app), namesKey app := map_view (name_index M' app), playerKey app i := user_view v)"
  shows "holds_registry low g M'"
  unfolding holds_registry_def
proof (rule allI)
  fix b
  have hb: "if app_tag b then (\<forall>i. f (playerKey b i) = user_view (M b i)) \<and> f (namesKey b) = map_view (name_index M b) \<and>
      f (nickKey b) = map_view (nick_index low M b) else M b = Map.empty"
    using h unfolding holds_registry_def by blast
  show "if app_tag b then (\<forall>i. g (playerKey b i) = user_view (M' b i)) \<and> g (namesKey b) = map_view (name_index M' b) \<and>
      g (nickKey b) = map_view (nick_index low M' b) else M' b = Map.empty"
  proof (cases "b = app")
    case True
    then show ?thesis using hb app by (auto simp: g player_keys)
  next
    case False
    have "M' b = M b" using False app(2) by (auto simp: fun_eq_iff)
    then show ?thesis using False hb app by (auto simp: g player_keys nick_index_other name_index_other)
  qed
qed

subsection \<open>The scripts\<close>

text \<open>How the index of names changes with the registry.\<close>

lemma nick_index_add:
  assumes "registry_ok low M" "registry_ok low (put_user M app i (Some u))" "M app i = None" "\<not> name_taken low M app (ToLower low (Nickname u))"
  shows "nick_index low (put_user M app i (Some u)) app = (nick_index low M app)(ToLower low (Nickname u) \<mapsto> i)"
proof (rule option_ext)
  fix l x
  show "nick_index low (put_user M app i (Some u)) app l = Some x \<longleftrightarrow> ((nick_index low M app)(ToLower low (Nickname u) \<mapsto> i)) l = Some x"
    using assms(3,4) by (auto simp: nick_index_iff [OF assms(1)] nick_index_iff [OF assms(2)] owner_of_put name_taken_def owner_of_def)
qed

lemma nick_index_move:
  assumes "registry_ok low M" "registry_ok low (put_user M app i (Some v))" "owner_of low M app k i"
    and "l \<noteq> k" "\<not> name_taken low M app l" "l = ToLower low (Nickname v)"
  shows "nick_index low (put_user M app i (Some v)) app = (nick_index low M app)(l \<mapsto> i, k := None)"
proof (rule option_ext)
  fix n x
  have o: "owner_of low M app n i \<Longrightarrow> n = k" for n using assms(3) by (auto simp: owner_of_def)
  have u: "owner_of low M app k x \<Longrightarrow> x = i" for x using assms(1,3) by (auto simp: registry_ok_def dest: names_uniqueD)
  have f: "\<not> owner_of low M app l x" for x using assms(5) by (auto simp: name_taken_def)
  show "nick_index low (put_user M app i (Some v)) app n = Some x \<longleftrightarrow> ((nick_index low M app)(l \<mapsto> i, k := None)) n = Some x"
    using assms(4,6) f by (auto simp: nick_index_iff [OF assms(1)] nick_index_iff [OF assms(2)] owner_of_put dest: o u)
qed

lemma nick_index_keep:
  assumes "registry_ok low M" "registry_ok low (put_user M app i (Some v))" "owner_of low M app (ToLower low (Nickname v)) i"
  shows "nick_index low (put_user M app i (Some v)) app = nick_index low M app"
proof (rule option_ext)
  fix n x
  have o: "owner_of low M app n i \<Longrightarrow> n = ToLower low (Nickname v)" for n using assms(3) by (auto simp: owner_of_def)
  show "nick_index low (put_user M app i (Some v)) app n = Some x \<longleftrightarrow> nick_index low M app n = Some x"
    using assms(3) by (auto simp: nick_index_iff [OF assms(1)] nick_index_iff [OF assms(2)] owner_of_put dest: o)
qed

lemma nick_index_drop:
  assumes "registry_ok low M" "registry_ok low (put_user M app i None)" "owner_of low M app k i"
  shows "nick_index low (put_user M app i None) app = (nick_index low M app)(k := None)"
proof (rule option_ext)
  fix n x
  have o: "owner_of low M app n i \<Longrightarrow> n = k" for n using assms(3) by (auto simp: owner_of_def)
  have u: "owner_of low M app k x \<Longrightarrow> x = i" for x using assms(1,3) by (auto simp: registry_ok_def dest: names_uniqueD)
  show "nick_index low (put_user M app i None) app n = Some x \<longleftrightarrow> ((nick_index low M app)(k := None)) n = Some x"
    by (auto simp: nick_index_iff [OF assms(1)] nick_index_iff [OF assms(2)] owner_of_put dest: o u)
qed

locale redis_users = redis_kv C kks for C :: "('s, User json) kv" and kks :: "'s \<Rightarrow> string \<Rightarrow> User json kview" +
  fixes low :: "int \<Rightarrow> int"
begin

text \<open>The script finds the registry \<open>M\<close> at the keys of the app.\<close>

definition stores :: "'s \<Rightarrow> registry \<Rightarrow> bool" where
  "stores s M \<longleftrightarrow> holds_registry low (kks s) M \<and> registry_ok low M"

lemma storesD:
  assumes "stores s M" "app_tag app"
  shows "kks s (playerKey app i) = user_view (M app i)" "kks s (namesKey app) = map_view (name_index M app)"
    "kks s (nickKey app) = map_view (nick_index low M app)" "registry_ok low M"
  using assms unfolding stores_def holds_registry_def by auto

lemma exists_user: "stores s M \<Longrightarrow> app_tag app \<Longrightarrow> EXISTS C (playerKey app i) s = (Reply (if M app i = None then 0 else 1), s)"
  using EXISTS [of "playerKey app i" s] storesD(1) [of s M app i] by (auto simp: user_view_def split: option.splits)

lemma hget_nick: "stores s M \<Longrightarrow> app_tag app \<Longrightarrow> lua_get (HGET C (nickKey app) l) s = (Inr (nick_index low M app l), s)"
  using HGET [OF storesD(3)] by (cases "nick_index low M app l") (simp_all add: lua_get_def io_simps)

lemma write_user:
  assumes "kks s (namesKey app) = map_view (name_index M app)" "app_tag app"
  shows "\<exists>s'. io_bind (io_cmd (HSET C (namesKey app) i d)) (\<lambda>_. io_bind (io_cmd (SET C (playerKey app i) (JSON u) 0)) (\<lambda>_. io_ret 1)) s = (Inr (1 :: int), s') \<and>
    kks s' = (kks s)(namesKey app := map_view ((name_index M app)(i \<mapsto> d)), playerKey app i := VStr (JSON u))"
proof -
  define s1 where "s1 = snd (HSET C (namesKey app) i d s)"
  obtain n where "HSET C (namesKey app) i d s = (Reply n, s1)" using HSET(1) [OF assms(1), of i d] by (auto simp: s1_def prod_eq_iff)
  moreover have "kks s1 = (kks s)(namesKey app := map_view ((name_index M app)(i \<mapsto> d)))" using HSET(2) [OF assms(1)] by (simp add: s1_def)
  moreover obtain s2 where "SET C (playerKey app i) (JSON u) 0 s1 = (Reply (), s2)" "kks s2 = (kks s1)(playerKey app i := VStr (JSON u))"
    using SET [of "playerKey app i" "JSON u" 0 s1] by (metis prod.collapse)
  ultimately show ?thesis by (simp add: io_simps)
qed

lemma hsetnx_taken:
  assumes "stores s M" "app_tag app" "name_taken low M app l"
  shows "\<exists>s1. HSETNX C (nickKey app) l i s = (Reply 0, s1) \<and> stores s1 M"
proof -
  define s1 where "s1 = snd (HSETNX C (nickKey app) l i s)"
  have "HSETNX C (nickKey app) l i s = (Reply 0, s1)" "kks s1 = kks s"
    using HSETNX [OF storesD(3) [OF assms(1,2)], of l i] assms(3) by (auto simp: s1_def prod_eq_iff nick_index_def)
  then show ?thesis using assms(1) by (auto simp: stores_def)
qed

lemma createScript_correct:
  assumes st: "stores s M" and app: "app_tag app" and u: "user_ok low i u" "l = ToLower low (Nickname u)" "d = Nickname u"
  shows "\<exists>s'. createScript C (nickKey app) (namesKey app) (playerKey app i) l i d (JSON u) s =
      (Inr (if M app i \<noteq> None then - 2 else if name_taken low M app l then 0 else 1), s') \<and>
    stores s' (if M app i \<noteq> None \<or> name_taken low M app l then M else put_user M app i (Some u))"
proof (cases "M app i = None")
  case False
  then have "EXISTS C (playerKey app i) s = (Reply 1, s)" using exists_user [OF st app, of i] by simp
  then show ?thesis using False st by (simp add: createScript_def io_simps)
next
  case new: True
  define h where "h = nick_index low M app"
  have k1: "kks s (nickKey app) = map_view h" using storesD(3) [OF st app] by (simp add: h_def)
  show ?thesis
  proof (cases "name_taken low M app l")
    case True
    obtain s1 where "HSETNX C (nickKey app) l i s = (Reply 0, s1)" "stores s1 M" using hsetnx_taken [OF st app True] by blast
    then show ?thesis using exists_user [OF st app, of i] new True by (simp add: createScript_def io_simps)
  next
    case False
    then have hl: "h l = None" by (simp add: h_def nick_index_def)
    define s1 where "s1 = snd (HSETNX C (nickKey app) l i s)"
    have s1: "HSETNX C (nickKey app) l i s = (Reply 1, s1)" "kks s1 = (kks s)(nickKey app := map_view (h(l \<mapsto> i)))"
      using HSETNX [OF k1, of l i] hl by (auto simp: s1_def prod_eq_iff)
    have "kks s1 (namesKey app) = map_view (name_index M app)" using storesD(2) [OF st app] app by (simp add: s1 player_keys)
    from write_user [OF this app, of i d u] obtain s2 where
      s2: "io_bind (io_cmd (HSET C (namesKey app) i d)) (\<lambda>_. io_bind (io_cmd (SET C (playerKey app i) (JSON u) 0)) (\<lambda>_. io_ret 1)) s1 = (Inr (1 :: int), s2)"
        "kks s2 = (kks s1)(namesKey app := map_view ((name_index M app)(i \<mapsto> d)), playerKey app i := VStr (JSON u))" by blast
    have ok: "registry_ok low (put_user M app i (Some u))"
      using storesD(4) [OF st app] False u by (intro registry_ok_put) (auto simp: name_taken_def)
    have "holds_registry low (kks s2) (put_user M app i (Some u))"
    proof (rule holds_put [OF _ app refl])
      show "holds_registry low (kks s) M" using st by (simp add: stores_def)
      show "kks s2 = (kks s)(nickKey app := map_view (nick_index low (put_user M app i (Some u)) app),
          namesKey app := map_view (name_index (put_user M app i (Some u)) app), playerKey app i := user_view (Some u))"
        using nick_index_add [OF storesD(4) [OF st app] ok new] False u(2,3) by (simp add: s2 s1 h_def name_index_put user_view_def)
    qed
    then have "stores s2 (put_user M app i (Some u))" using ok by (simp add: stores_def)
    moreover have "createScript C (nickKey app) (namesKey app) (playerKey app i) l i d (JSON u) s = (Inr 1, s2)"
      using exists_user [OF st app, of i] new s1(1) s2(1) by (simp add: createScript_def io_simps)
    ultimately show ?thesis using new False by simp
  qed
qed

lemma renameScript_correct:
  assumes st: "stores s M" and app: "app_tag app" and v: "user_ok low i v" "l = ToLower low (Nickname v)" "d = Nickname v"
  shows "\<exists>s'. renameScript C (nickKey app) (namesKey app) (playerKey app i) l k i d (JSON v) s =
      (Inr (if \<not> owner_of low M app k i then - 1 else if l \<noteq> k \<and> name_taken low M app l then 0 else 1), s') \<and>
    stores s' (if \<not> owner_of low M app k i \<or> l \<noteq> k \<and> name_taken low M app l then M else put_user M app i (Some v))"
proof -
  define h where "h = nick_index low M app"
  have rok: "registry_ok low M" by (rule storesD(4) [OF st app])
  have k1: "kks s (nickKey app) = map_view h" using storesD(3) [OF st app] by (simp add: h_def)
  have k2: "kks s (namesKey app) = map_view (name_index M app)" by (rule storesD(2) [OF st app])
  have own: "h k = Some i \<longleftrightarrow> owner_of low M app k i" by (simp add: h_def nick_index_iff [OF rok])
  have hold: "holds_registry low (kks s) M" using st by (simp add: stores_def)
  have hg: "lua_get (HGET C (nickKey app) k) s = (Inr (h k), s)" using hget_nick [OF st app] by (simp add: h_def)
  let ?M' = "put_user M app i (Some v)"
  have fin: "stores s2 ?M'" if "registry_ok low ?M'" "kks s1 = (kks s)(nickKey app := map_view (nick_index low ?M' app))"
    "kks s2 = (kks s1)(namesKey app := map_view ((name_index M app)(i \<mapsto> d)), playerKey app i := VStr (JSON v))" for s1 s2
    unfolding stores_def using that v(3)
    by (auto intro!: holds_put [OF hold app refl] simp: name_index_put user_view_def)
  consider (stale) "\<not> owner_of low M app k i" | (same) "owner_of low M app k i" "l = k"
    | (taken) "owner_of low M app k i" "l \<noteq> k" "name_taken low M app l" | (free) "owner_of low M app k i" "l \<noteq> k" "\<not> name_taken low M app l"
    by blast
  then show ?thesis
  proof cases
    case stale
    then show ?thesis using hg own st by (auto simp: renameScript_def io_bind_def io_ret_def)
  next
    case taken
    obtain s1 where "HSETNX C (nickKey app) l i s = (Reply 0, s1)" "stores s1 M" using hsetnx_taken [OF st app taken(3)] by blast
    then show ?thesis using hg own taken by (simp add: renameScript_def io_simps)
  next
    case same
    have ok: "registry_ok low ?M'"
      using rok same v(1,2) by (intro registry_ok_put) (auto simp: registry_ok_def dest: names_uniqueD)
    from write_user [OF k2 app, of i d v] obtain s2 where
      s2: "io_bind (io_cmd (HSET C (namesKey app) i d)) (\<lambda>_. io_bind (io_cmd (SET C (playerKey app i) (JSON v) 0)) (\<lambda>_. io_ret 1)) s = (Inr (1 :: int), s2)"
        "kks s2 = (kks s)(namesKey app := map_view ((name_index M app)(i \<mapsto> d)), playerKey app i := VStr (JSON v))" by blast
    have "nick_index low ?M' app = h" using nick_index_keep [OF rok ok] same v(2) by (simp add: h_def)
    then have "kks s = (kks s)(nickKey app := map_view (nick_index low ?M' app))" using k1 by (metis fun_upd_triv)
    from fin [OF ok this s2(2)] have "stores s2 ?M'" .
    moreover have "renameScript C (nickKey app) (namesKey app) (playerKey app i) l k i d (JSON v) s = (Inr 1, s2)"
      using hg own same s2(1) by (simp add: renameScript_def io_simps)
    ultimately show ?thesis using same by simp
  next
    case free
    have ok: "registry_ok low ?M'"
      using rok free v by (intro registry_ok_put) (auto simp: name_taken_def)
    have hl: "h l = None" using free(3) by (simp add: h_def nick_index_def)
    define s1 where "s1 = snd (HSETNX C (nickKey app) l i s)"
    have s1: "HSETNX C (nickKey app) l i s = (Reply 1, s1)" "kks s1 = (kks s)(nickKey app := map_view (h(l \<mapsto> i)))"
      using HSETNX [OF k1, of l i] hl by (auto simp: s1_def prod_eq_iff)
    define s3 where "s3 = snd (HDEL C (nickKey app) k s1)"
    have k1': "kks s1 (nickKey app) = map_view (h(l \<mapsto> i))" by (simp add: s1)
    obtain n where s3: "HDEL C (nickKey app) k s1 = (Reply n, s3)" using HDEL(1) [OF k1', of k] by (auto simp: s3_def prod_eq_iff)
    have s3k: "kks s3 = (kks s)(nickKey app := map_view ((h(l \<mapsto> i))(k := None)))" using HDEL(2) [OF k1', of k] by (simp add: s3_def s1)
    have "kks s3 (namesKey app) = map_view (name_index M app)" using k2 app by (simp add: s3k player_keys)
    from write_user [OF this app, of i d v] obtain s2 where
      s2: "io_bind (io_cmd (HSET C (namesKey app) i d)) (\<lambda>_. io_bind (io_cmd (SET C (playerKey app i) (JSON v) 0)) (\<lambda>_. io_ret 1)) s3 = (Inr (1 :: int), s2)"
        "kks s2 = (kks s3)(namesKey app := map_view ((name_index M app)(i \<mapsto> d)), playerKey app i := VStr (JSON v))" by blast
    have "nick_index low ?M' app = (h(l \<mapsto> i))(k := None)" using nick_index_move [OF rok ok free(1,2,3) v(2)] by (simp add: h_def)
    then have "kks s3 = (kks s)(nickKey app := map_view (nick_index low ?M' app))" using s3k by simp
    from fin [OF ok this s2(2)] have "stores s2 ?M'" .
    moreover have "renameScript C (nickKey app) (namesKey app) (playerKey app i) l k i d (JSON v) s = (Inr 1, s2)"
      using hg own free s1(1) s3 s2(1) by (simp add: renameScript_def io_simps)
    ultimately show ?thesis using free by simp
  qed
qed

lemma deleteScript_correct:
  assumes st: "stores s M" and app: "app_tag app"
  shows "\<exists>s'. deleteScript C (nickKey app) (namesKey app) (playerKey app i) l i s =
      (Inr (if M app i \<noteq> None \<and> \<not> owner_of low M app l i then - 1 else 1), s') \<and>
    stores s' (if M app i = None \<or> \<not> owner_of low M app l i then M else put_user M app i None)"
proof -
  define h where "h = nick_index low M app"
  have rok: "registry_ok low M" by (rule storesD(4) [OF st app])
  have k1: "kks s (nickKey app) = map_view h" using storesD(3) [OF st app] by (simp add: h_def)
  have own: "h l = Some i \<longleftrightarrow> owner_of low M app l i" by (simp add: h_def nick_index_iff [OF rok])
  have hg: "lua_get (HGET C (nickKey app) l) s = (Inr (h l), s)" using hget_nick [OF st app] by (simp add: h_def)
  consider (gone) "M app i = None" | (stale) "M app i \<noteq> None" "\<not> owner_of low M app l i" | (mine) "M app i \<noteq> None" "owner_of low M app l i" by blast
  then show ?thesis
  proof cases
    case gone
    then show ?thesis using exists_user [OF st app, of i] st by (simp add: deleteScript_def io_simps)
  next
    case stale
    have "EXISTS C (playerKey app i) s = (Reply 1, s)" using exists_user [OF st app, of i] stale(1) by simp
    then show ?thesis using hg own stale st by (auto simp: deleteScript_def io_simps)
  next
    case mine
    let ?M' = "put_user M app i None"
    have e: "EXISTS C (playerKey app i) s = (Reply 1, s)" using exists_user [OF st app, of i] mine(1) by simp
    define s1 where "s1 = snd (HDEL C (nickKey app) l s)"
    obtain n1 where s1: "HDEL C (nickKey app) l s = (Reply n1, s1)" using HDEL(1) [OF k1, of l] by (auto simp: s1_def prod_eq_iff)
    have k1': "kks s1 = (kks s)(nickKey app := map_view (h(l := None)))" using HDEL(2) [OF k1, of l] by (simp add: s1_def)
    have k2: "kks s1 (namesKey app) = map_view (name_index M app)" using storesD(2) [OF st app] app by (simp add: k1' player_keys)
    define s2 where "s2 = snd (HDEL C (namesKey app) i s1)"
    obtain n2 where s2: "HDEL C (namesKey app) i s1 = (Reply n2, s2)" using HDEL(1) [OF k2, of i] by (auto simp: s2_def prod_eq_iff)
    have k2': "kks s2 = (kks s1)(namesKey app := map_view ((name_index M app)(i := None)))" using HDEL(2) [OF k2, of i] by (simp add: s2_def)
    define s3 where "s3 = snd (KDEL C (playerKey app i) s2)"
    obtain n3 where s3: "KDEL C (playerKey app i) s2 = (Reply n3, s3)" "kks s3 = (kks s2)(playerKey app i := VNone)"
      using KDEL [of "playerKey app i" s2] by (auto simp: s3_def prod_eq_iff)
    have ok: "registry_ok low ?M'" using rok by (intro registry_ok_put) auto
    have "holds_registry low (kks s3) ?M'"
    proof (rule holds_put [OF _ app refl])
      show "holds_registry low (kks s) M" using st by (simp add: stores_def)
      show "kks s3 = (kks s)(nickKey app := map_view (nick_index low ?M' app), namesKey app := map_view (name_index ?M' app),
          playerKey app i := user_view None)"
        using nick_index_drop [OF rok ok mine(2)] by (simp add: s3 k2' k1' h_def name_index_put user_view_def)
    qed
    then have "stores s3 ?M'" using ok by (simp add: stores_def)
    moreover have "deleteScript C (nickKey app) (namesKey app) (playerKey app i) l i s = (Inr 1, s3)"
      using e hg own mine s1 s2 s3(1) by (simp add: deleteScript_def io_simps)
    ultimately show ?thesis using mine by auto
  qed
qed

subsection \<open>The store refines the specification\<close>

lemma inv_stores: "ru_inv low kks s \<longleftrightarrow> stores s (ru_reg kks s)"
  by (simp add: ru_inv_def stores_def)

lemma stores_reg: "stores s M \<Longrightarrow> ru_reg kks s = M \<and> ru_inv low kks s"
  using holds_reg [of low kks s M] by (simp add: ru_inv_def stores_def)

lemma ru_Get_correct: "stores s M \<Longrightarrow> app_tag app \<Longrightarrow> ru_Get C app i s = (fst (get_spec app i M), s)"
  using GET [of s "playerKey app i"] storesD(1) [of s M app i]
  by (cases "M app i") (simp_all add: ru_Get_def io_simps get_spec_def user_view_def unmarshal_user_def)

lemma marshal_ok: "user_ok low i u \<Longrightarrow> marshal_user u = Inr (JSON u)"
  by (cases u) (auto simp: marshal_user_def user_ok_def nick_ok_def utf8_def)

lemma ru_Create_refines:
  assumes "app_tag app" "utf8 nick" "utf8 member" "json_year now"
  shows "refines (ru_reg kks) (ru_inv low kks) (ru_Create C low app nick member rnd now) (create_spec low app nick member rnd now)"
proof (rule refinesI)
  fix s
  assume "ru_inv low kks s"
  define M where "M = ru_reg kks s"
  have st: "stores s M" using \<open>ru_inv low kks s\<close> by (simp add: inv_stores M_def)
  show "fst (ru_Create C low app nick member rnd now s) = fst (create_spec low app nick member rnd now (ru_reg kks s)) \<and>
    ru_reg kks (snd (ru_Create C low app nick member rnd now s)) = snd (create_spec low app nick member rnd now (ru_reg kks s)) \<and>
    ru_inv low kks (snd (ru_Create C low app nick member rnd now s))"
  proof (cases "\<exists>d l i. normalizeNickname low nick = Inr (d, l) \<and> choose_id member rnd = Inr i")
    case False
    then show ?thesis using \<open>ru_inv low kks s\<close> by (auto simp: ru_Create_def create_spec_def io_simps split: sum.splits)
  next
    case True
    then obtain d l i where c: "normalizeNickname low nick = Inr (d, l)" "choose_id member rnd = Inr i" by blast
    define u where "u = \<lparr>UserID = i, Nickname = d, CreatedAt = now, UpdatedAt = now\<rparr>"
    have u: "user_ok low i u" "l = ToLower low (Nickname u)" "d = Nickname u"
      using normalizeNickname_ok [OF c(1) assms(2)] choose_id_utf8 [OF c(2) assms(3)] assms(4) by (simp_all add: u_def user_ok_def)
    obtain s' where s': "createScript C (nickKey app) (namesKey app) (playerKey app i) l i d (JSON u) s =
        (Inr (if M app i \<noteq> None then - 2 else if name_taken low M app l then 0 else 1), s')"
      "stores s' (if M app i \<noteq> None \<or> name_taken low M app l then M else put_user M app i (Some u))"
      using createScript_correct [OF st assms(1) u] by blast
    have "ru_Create C low app nick member rnd now s = (fst (create_spec low app nick member rnd now M), s')"
      using c s'(1) marshal_ok [OF u(1)] by (auto simp: ru_Create_def create_spec_def io_simps Let_def u_def)
    moreover have "snd (create_spec low app nick member rnd now M) = (if M app i \<noteq> None \<or> name_taken low M app l then M else put_user M app i (Some u))"
      using c by (auto simp: create_spec_def Let_def u_def)
    ultimately show ?thesis using stores_reg [OF s'(2)] by (simp add: M_def)
  qed
qed

lemma ru_Rename_refines:
  assumes "app_tag app" "utf8 nick" "json_year (nows 0)"
  shows "refines (ru_reg kks) (ru_inv low kks) (ru_Rename C low app i nick nows) (rename_spec low app i nick (nows 0))"
proof (rule refinesI)
  fix s
  assume "ru_inv low kks s"
  define M where "M = ru_reg kks s"
  have st: "stores s M" using \<open>ru_inv low kks s\<close> by (simp add: inv_stores M_def)
  have rok: "registry_ok low M" using st by (simp add: stores_def)
  show "fst (ru_Rename C low app i nick nows s) = fst (rename_spec low app i nick (nows 0) (ru_reg kks s)) \<and>
    ru_reg kks (snd (ru_Rename C low app i nick nows s)) = snd (rename_spec low app i nick (nows 0) (ru_reg kks s)) \<and>
    ru_inv low kks (snd (ru_Rename C low app i nick nows s))"
  proof (cases "\<exists>d l u. normalizeNickname low nick = Inr (d, l) \<and> M app i = Some u")
    case False
    then have "ru_Rename C low app i nick nows s = (fst (rename_spec low app i nick (nows 0) M), s)" "snd (rename_spec low app i nick (nows 0) M) = M"
      using ru_Get_correct [OF st assms(1), of i]
      by (auto simp: ru_Rename_def rename_spec_def maxAttempts_def io_simps numeral_eq_Suc get_spec_def split: sum.splits option.splits)
    then show ?thesis using \<open>ru_inv low kks s\<close> by (simp add: M_def)
  next
    case True
    then obtain d l u where c: "normalizeNickname low nick = Inr (d, l)" "M app i = Some u" by blast
    define k where "k = ToLower low (Nickname u)"
    define v where "v = u\<lparr>Nickname := d, UpdatedAt := nows 0\<rparr>"
    have uok: "user_ok low i u" using rok c(2) by (auto simp: registry_ok_def)
    have v: "user_ok low i v" "l = ToLower low (Nickname v)" "d = Nickname v"
      using normalizeNickname_ok [OF c(1) assms(2)] uok assms(3) by (simp_all add: v_def user_ok_def)
    have own: "owner_of low M app k i" using c(2) by (auto simp: owner_of_def k_def)
    have tk: "(l \<noteq> k \<and> name_taken low M app l) \<longleftrightarrow> (\<exists>j. j \<noteq> i \<and> owner_of low M app l j)"
      using own rok c(2) unfolding name_taken_def registry_ok_def k_def
      by (metis k_def names_uniqueD option.inject owner_of_def)
    obtain s' where s': "renameScript C (nickKey app) (namesKey app) (playerKey app i) l k i d (JSON v) s =
        (Inr (if l \<noteq> k \<and> name_taken low M app l then 0 else 1), s')"
      "stores s' (if l \<noteq> k \<and> name_taken low M app l then M else put_user M app i (Some v))"
      using renameScript_correct [OF st assms(1) v, of k] own by auto
    have "rename_loop C low app i d l nows 0 (Suc n) s = (fst (rename_spec low app i nick (nows 0) M), s')" for n
      using c s'(1) marshal_ok [OF v(1)] ru_Get_correct [OF st assms(1), of i] uok tk
      by (auto simp: rename_spec_def io_simps Let_def get_spec_def user_ok_def nick_ok_def v_def k_def [symmetric] simp del: split_paired_Ex)
    then have "ru_Rename C low app i nick nows s = (fst (rename_spec low app i nick (nows 0) M), s')"
      using c(1) by (simp add: ru_Rename_def maxAttempts_def io_simps numeral_eq_Suc)
    moreover have "snd (rename_spec low app i nick (nows 0) M) = (if l \<noteq> k \<and> name_taken low M app l then M else put_user M app i (Some v))"
      using c tk by (auto simp: rename_spec_def Let_def v_def)
    ultimately show ?thesis using stores_reg [OF s'(2)] by (simp add: M_def)
  qed
qed

lemma ru_Delete_refines:
  assumes "app_tag app"
  shows "refines (ru_reg kks) (ru_inv low kks) (ru_Delete C low app i) (delete_spec app i)"
proof (rule refinesI)
  fix s
  assume "ru_inv low kks s"
  define M where "M = ru_reg kks s"
  have st: "stores s M" using \<open>ru_inv low kks s\<close> by (simp add: inv_stores M_def)
  show "fst (ru_Delete C low app i s) = fst (delete_spec app i (ru_reg kks s)) \<and>
    ru_reg kks (snd (ru_Delete C low app i s)) = snd (delete_spec app i (ru_reg kks s)) \<and> ru_inv low kks (snd (ru_Delete C low app i s))"
  proof (cases "M app i")
    case None
    then have "put_user M app i None = M" by (auto simp: fun_eq_iff)
    moreover have "ru_Delete C low app i s = (Inr (), s)"
      using ru_Get_correct [OF st assms, of i] None by (simp add: ru_Delete_def maxAttempts_def numeral_eq_Suc get_spec_def)
    ultimately show ?thesis using \<open>ru_inv low kks s\<close> by (simp add: delete_spec_def M_def)
  next
    case (Some u)
    define k where "k = ToLower low (Nickname u)"
    have "user_ok low i u" using st Some by (auto simp: stores_def registry_ok_def)
    then have n: "normalizeNickname low (Nickname u) = Inr (Nickname u, k)" by (simp add: user_ok_def nick_ok_def k_def)
    have "owner_of low M app k i" using Some by (auto simp: owner_of_def k_def)
    then obtain s' where s': "deleteScript C (nickKey app) (namesKey app) (playerKey app i) k i s = (Inr 1, s')" "stores s' (put_user M app i None)"
      using deleteScript_correct [OF st assms, of i k] Some by auto
    have "ru_Delete C low app i s = (Inr (), s')"
      using ru_Get_correct [OF st assms, of i] Some n s'(1) by (simp add: ru_Delete_def maxAttempts_def numeral_eq_Suc get_spec_def io_simps)
    then show ?thesis using stores_reg [OF s'(2)] by (simp add: delete_spec_def M_def)
  qed
qed

lemma ru_GetByNickname_refines:
  assumes "app_tag app"
  shows "refines (ru_reg kks) (ru_inv low kks) (ru_GetByNickname C low app nick) (by_nick_spec low app nick)"
proof (rule refines_read)
  fix s
  assume "ru_inv low kks s"
  define M where "M = ru_reg kks s"
  have st: "stores s M" using \<open>ru_inv low kks s\<close> by (simp add: inv_stores M_def)
  show "ru_GetByNickname C low app nick s = (fst (by_nick_spec low app nick (ru_reg kks s)), s)"
  proof (cases "normalizeNickname low nick")
    case (Inr p)
    obtain d l where p: "p = (d, l)" by (cases p)
    have h: "HGET C (nickKey app) l s = (opt_reply (nick_index low M app l), s)" by (rule HGET [OF storesD(3) [OF st assms]])
    show ?thesis
    proof (cases "nick_index low M app l")
      case None
      moreover from None have "\<not> name_taken low M app l" by (simp add: nick_index_None)
      ultimately show ?thesis using Inr p h by (simp add: ru_GetByNickname_def by_nick_spec_def io_simps M_def [symmetric])
    next
      case (Some j)
      then have o: "owner_of low M app l j" using nick_index_iff [OF storesD(4) [OF st assms]] by simp
      have "j = (SOME i. owner_of low M app l i)" "name_taken low M app l" using Some by (auto simp: nick_index_def split: if_splits)
      moreover obtain u where "M app j = Some u" using o by (auto simp: owner_of_def)
      ultimately show ?thesis using Inr p h Some ru_Get_correct [OF st assms, of j]
        by (simp add: ru_GetByNickname_def by_nick_spec_def io_simps get_spec_def M_def [symmetric])
    qed
  qed (simp add: ru_GetByNickname_def by_nick_spec_def io_simps)
qed (simp add: by_nick_spec_def)

lemma names_fold:
  "fold (\<lambda>(i, v) out. case v of Some name \<Rightarrow> out(i \<mapsto> name) | None \<Rightarrow> out) (zip ids (map g ids)) f =
     (\<lambda>i. if i \<in> set ids \<and> g i \<noteq> None then g i else f i)"
  by (induction ids arbitrary: f) (auto simp: fun_eq_iff split: option.splits)

lemma ru_Nicknames_refines:
  assumes "app_tag app"
  shows "refines (ru_reg kks) (ru_inv low kks) (ru_Nicknames C app ids) (nicknames_spec app ids)"
proof (rule refines_read)
  fix s
  assume "ru_inv low kks s"
  then have "HMGET C (namesKey app) ids s = (Reply (map (name_index (ru_reg kks s) app) ids), s)"
    using HMGET [OF storesD(2) [OF _ assms]] by (simp add: inv_stores)
  then show "ru_Nicknames C app ids s = (fst (nicknames_spec app ids (ru_reg kks s)), s)"
    by (cases "ids = []") (auto simp: ru_Nicknames_def nicknames_spec_def io_simps names_fold name_index_def fun_eq_iff)
qed (simp add: nicknames_spec_def)

lemma ru_Count_refines:
  assumes "app_tag app"
  shows "refines (ru_reg kks) (ru_inv low kks) (ru_Count C app) (count_spec app)"
proof (rule refines_read)
  fix s
  assume i: "ru_inv low kks s"
  have d: "dom (name_index (ru_reg kks s) app) = dom (ru_reg kks s app)" by (auto simp: name_index_def)
  have "finite (dom (ru_reg kks s app))" using i by (simp add: ru_inv_def registry_ok_def)
  then have "HLEN C (namesKey app) s = (Reply (int (card (dom (ru_reg kks s app)))), s)"
    using HLEN [OF storesD(2) [OF _ assms], of s "ru_reg kks s"] i by (simp add: inv_stores d)
  then show "ru_Count C app s = (fst (count_spec app (ru_reg kks s)), s)" by (simp add: ru_Count_def count_spec_def io_simps)
qed (simp add: count_spec_def)

lemma ru_Get_refines:
  assumes "app_tag app"
  shows "refines (ru_reg kks) (ru_inv low kks) (ru_Get C app i) (get_spec app i)"
  by (rule refines_read) (simp_all add: ru_Get_correct [OF _ assms] inv_stores, simp add: get_spec_def)

end

sublocale redis_users \<subseteq> ur: user_store "users_redis C low" low "ru_reg kks" "ru_inv low kks"
proof
  fix op
  show "user_op_ok op \<Longrightarrow> refines (ru_reg kks) (ru_inv low kks) (user_exec (users_redis C low) op) (user_spec low op)"
    by (cases op) (simp_all add: users_redis_def refines_map_res ru_Create_refines ru_Get_refines ru_GetByNickname_refines
      ru_Rename_refines ru_Nicknames_refines ru_Delete_refines ru_Count_refines)
qed (simp add: ru_inv_def)

interpretation mem_users: redis_users mem_kv mem_kks low for low ..

lemma empty_registry: "registry_ok low (\<lambda>_ _. None)"
  by (auto simp: registry_ok_def names_unique_def owner_of_def)

lemma holds_empty: "holds_registry low (\<lambda>_. VNone) (\<lambda>_ _. None)"
proof -
  have "name_index (\<lambda>_ _. None) app = Map.empty" "nick_index low (\<lambda>_ _. None) app = Map.empty" for app
    by (auto simp: name_index_def nick_index_def name_taken_def owner_of_def)
  then show ?thesis by (simp add: holds_registry_def user_view_def map_view_def)
qed

lemma ru_start:
  assumes "\<forall>k. kks s k = VNone"
  shows "ru_inv low kks s" "ru_reg kks s = (\<lambda>_ _. None)"
proof -
  have "kks s = (\<lambda>_. VNone)" using assms by auto
  then have h: "holds_registry low (kks s) (\<lambda>_ _. None)" using holds_empty by simp
  show "ru_inv low kks s" by (rule ru_invI [of low kks s, OF h empty_registry])
  show "ru_reg kks s = (\<lambda>_ _. None)" by (rule holds_reg [of low kks s, OF h])
qed

context redis_users
begin

lemmas redis_run = ur.run_refines [OF _ ru_start(1)]

end

text \<open>
  (C30) The in-memory store and the Redis store return, on every sequence of operations from the
  empty registry, exactly what the specification over a plain map of players returns: a creation
  or a renaming fails with the name or the id taken or claims it, a deletion frees the name,
  look-ups go by id or by name up to case, and the registry stays well-formed, with no two players
  of an app under one name. A single client never sees contention.
\<close>

theorem registries_agree:
  assumes "redis_kv C kks" "\<forall>k. kks s k = VNone" "\<forall>op \<in> set ops. user_op_ok op"
  shows "fst (pipe_run (user_exec (users_redis C low)) ops s) = fst (pipe_run (user_spec low) ops (\<lambda>_ _. None)) \<and>
    fst (pipe_run (user_exec (users_mem low)) ops NewUsersMem) = fst (pipe_run (user_spec low) ops (\<lambda>_ _. None)) \<and>
    registry_ok low (snd (pipe_run (user_spec low) ops (\<lambda>_ _. None)))"
proof -
  have "redis_users C kks" by (rule redis_users.intro [OF assms(1)])
  from redis_users.redis_run [OF this assms(3,2), of low] um.run_refines [OF assms(3) mu_inv_start(1), of low]
  show ?thesis by (simp add: ru_start(2) [of kks s, OF assms(2)] mu_inv_start(2))
qed

theorem registries_agree_witness:
  "let ops = [UCreate ''app_1'' ''Neo'' ''m1'' (Inr []) 0, UCreate ''app_1'' '' nEO'' ''m2'' (Inr []) 0, URename ''app_1'' ''m1'' ''Trinity'' (\<lambda>_. 0)] in
   fst (pipe_run (user_exec (users_redis mem_kv ascii_low)) ops []) = fst (pipe_run (user_spec ascii_low) ops (\<lambda>_ _. None))"
proof -
  have "\<forall>k. mem_kks [] k = (VNone :: User json kview)" by (simp add: mem_kks_def)
  moreover have "utf8 ''Neo''" "utf8 '' nEO''" "utf8 ''Trinity''" "utf8 ''m1''" "utf8 ''m2''" "app_tag ''app_1''" "json_year 0" by code_simp+
  ultimately show ?thesis
    using registries_agree [OF mem_kv.redis_kv_axioms, of "[]" "[UCreate ''app_1'' ''Neo'' ''m1'' (Inr []) 0,
      UCreate ''app_1'' '' nEO'' ''m2'' (Inr []) 0, URename ''app_1'' ''m1'' ''Trinity'' (\<lambda>_. 0)]" ascii_low]
    unfolding Let_def by (simp only: user_op_ok.simps list.set ball_simps simp_thms)
qed

subsection \<open>Concurrent clients\<close>

text \<open>
  What any number of clients can do to the server between two instants: run one of the scripts,
  with arguments the code computes from its request and from a record it read at any earlier time.
  Reads change nothing.
\<close>

inductive client_step :: "('s, User json) kv \<Rightarrow> (int \<Rightarrow> int) \<Rightarrow> 's \<Rightarrow> 's \<Rightarrow> bool" for C low where
  create: "app_tag app \<Longrightarrow> utf8 nick \<Longrightarrow> utf8 member \<Longrightarrow> json_year now \<Longrightarrow>
    normalizeNickname low nick = Inr (display, lower) \<Longrightarrow> choose_id member rnd = Inr i \<Longrightarrow>
    marshal_user \<lparr>UserID = i, Nickname = display, CreatedAt = now, UpdatedAt = now\<rparr> = Inr data \<Longrightarrow>
    client_step C low s (snd (createScript C (nickKey app) (namesKey app) (playerKey app i) lower i display data s))"
| rename: "app_tag app \<Longrightarrow> utf8 nick \<Longrightarrow> json_year now \<Longrightarrow>
    normalizeNickname low nick = Inr (display, lower) \<Longrightarrow> user_ok low i u \<Longrightarrow>
    normalizeNickname low (Nickname u) = Inr (old, oldLower) \<Longrightarrow>
    marshal_user (u\<lparr>Nickname := display, UpdatedAt := now\<rparr>) = Inr data \<Longrightarrow>
    client_step C low s (snd (renameScript C (nickKey app) (namesKey app) (playerKey app i) lower oldLower i display data s))"
| delete: "app_tag app \<Longrightarrow> user_ok low i u \<Longrightarrow> normalizeNickname low (Nickname u) = Inr (old, lower) \<Longrightarrow>
    client_step C low s (snd (deleteScript C (nickKey app) (namesKey app) (playerKey app i) lower i s))"

context redis_users
begin

lemma client_step_stores:
  assumes "client_step C low s s'" "stores s M"
  shows "\<exists>M'. stores s' M'"
  using assms(1)
proof cases
  case (create app nick member now display lower rnd i data)
  define u where "u = \<lparr>UserID = i, Nickname = display, CreatedAt = now, UpdatedAt = now\<rparr>"
  have u: "user_ok low i u" "lower = ToLower low (Nickname u)" "display = Nickname u"
    using normalizeNickname_ok [OF create(6,3)] choose_id_utf8 [OF create(7,4)] create(5) by (simp_all add: u_def user_ok_def)
  have "data = JSON u" using create(8) marshal_ok [OF u(1)] by (simp add: u_def)
  then show ?thesis using createScript_correct [OF assms(2) create(2) u] create(1) by (metis snd_conv)
next
  case (rename app nick now display lower i u old oldLower data)
  define v where "v = u\<lparr>Nickname := display, UpdatedAt := now\<rparr>"
  have v: "user_ok low i v" "lower = ToLower low (Nickname v)" "display = Nickname v"
    using normalizeNickname_ok [OF rename(5,3)] rename(4,6) by (simp_all add: v_def user_ok_def)
  have "data = JSON v" using rename(8) marshal_ok [OF v(1)] by (simp add: v_def)
  then show ?thesis using renameScript_correct [OF assms(2) rename(2) v] rename(1) by (metis snd_conv)
next
  case (delete app i u old lower)
  then show ?thesis using deleteScript_correct [OF assms(2) delete(2)] by (metis snd_conv)
qed

lemma clients_names_unique:
  assumes "(client_step C low)\<^sup>*\<^sup>* s0 s" "\<forall>k. kks s0 k = VNone"
  shows "ru_inv low kks s"
proof -
  have "\<exists>M. stores s M"
    using assms(1)
  proof (induction rule: rtranclp_induct)
    case base
    show ?case using ru_start(1) [of kks s0 low, OF assms(2)] unfolding inv_stores by blast
  next
    case (step s s')
    then show ?case using client_step_stores by blast
  qed
  then show ?thesis using stores_reg by blast
qed

end

text \<open>
  (C7) Whatever number of clients create, rename and delete players at the same time, and however
  old the records are that their scripts' arguments were computed from: no two players of an app
  ever have the same nickname up to case, the index of names lists exactly the names in use, each
  with its owner, and the table of display names agrees with the records.
\<close>

theorem concurrent_names_unique:
  assumes "redis_kv C kks" "\<forall>k. kks s0 k = VNone" "(client_step C low)\<^sup>*\<^sup>* s0 s"
  shows "names_unique low (ru_reg kks s) \<and> holds_registry low (kks s) (ru_reg kks s)"
  using redis_users.clients_names_unique [OF redis_users.intro [OF assms(1)] assms(3,2)]
  by (simp add: ru_inv_def registry_ok_def)

theorem concurrent_names_unique_witness:
  "let s1 = snd (createScript mem_kv (nickKey ''app_1'') (namesKey ''app_1'') (playerKey ''app_1'' ''m1'') ''neo'' ''m1'' ''Neo''
      (JSON \<lparr>UserID = ''m1'', Nickname = ''Neo'', CreatedAt = 0, UpdatedAt = 0\<rparr>) []) in
   names_unique ascii_low (ru_reg mem_kks s1) \<and> map_of s1 (playerKey ''app_1'' ''m1'') = Some (KStr (JSON \<lparr>UserID = ''m1'', Nickname = ''Neo'', CreatedAt = 0, UpdatedAt = 0\<rparr>))"
proof -
  define s1 where "s1 = snd (createScript mem_kv (nickKey ''app_1'') (namesKey ''app_1'') (playerKey ''app_1'' ''m1'') ''neo'' ''m1'' ''Neo''
      (JSON \<lparr>UserID = ''m1'', Nickname = ''Neo'', CreatedAt = 0, UpdatedAt = 0\<rparr>) [])"
  have "\<forall>k. mem_kks [] k = (VNone :: User json kview)" by (simp add: mem_kks_def)
  moreover have "client_step mem_kv ascii_low [] s1"
    unfolding s1_def
    by (rule client_step.create [where nick = "''Neo''" and member = "''m1''" and now = 0 and rnd = "Inr []"]) code_simp+
  then have "(client_step mem_kv ascii_low)\<^sup>*\<^sup>* [] s1" by simp
  ultimately have "names_unique ascii_low (ru_reg mem_kks s1)"
    using concurrent_names_unique [OF mem_kv.redis_kv_axioms, of "[]"] by blast
  moreover have "map_of s1 (playerKey ''app_1'' ''m1'') = Some (KStr (JSON \<lparr>UserID = ''m1'', Nickname = ''Neo'', CreatedAt = 0, UpdatedAt = 0\<rparr>))"
    unfolding s1_def by code_simp
  ultimately show ?thesis unfolding s1_def Let_def by blast
qed

end
