(* ===== verification/Tenancy.thy ===== *)
theory Tenancy
  imports Board Go_Crypto Go_Unicode Refine Go_Maps
begin

text \<open>
  The control plane, \<open>pkg/tenancy\<close>: apps, their API keys with a scope, their boards. This theory
  holds the data and the keys (\<open>store.go\<close>, \<open>keys.go\<close>), the \<open>Store\<close> interface, its specification, and
  the in-memory store (\<open>memstore.go\<close>), which simulates the specification. Random bytes are
  arguments; a Go map is an association list and its iteration order is the order of the list.
\<close>

subsection \<open>Data (\<open>store.go\<close>)\<close>

definition ScopeSecret :: string where "ScopeSecret = ''secret''"
definition ScopePublishable :: string where "ScopePublishable = ''publishable''"

definition ParseScope :: "string \<Rightarrow> string \<times> bool" where
  "ParseScope s = (if s = [] \<or> s = ScopeSecret then (ScopeSecret, True)
     else if s = ScopePublishable then (ScopePublishable, True) else ([], False))"

definition normScope :: "string \<Rightarrow> string" where
  "normScope s = (if s = [] then ScopeSecret else s)"

record APIKey =
  KeyID :: string
  KeyAppID :: string
  Prefix :: string
  Scope :: string
  KeyCreatedAt :: gotime

record TenantApp =
  AppID :: string
  AppName :: string
  OwnerUserID :: string
  AppCreatedAt :: gotime
  RequireSigning :: bool
  RequirePlayerTokens :: bool
  SigningKeyVersion :: int

definition zero_app :: TenantApp where
  "zero_app = \<lparr>AppID = [], AppName = [], OwnerUserID = [], AppCreatedAt = 0, RequireSigning = False,
     RequirePlayerTokens = False, SigningKeyVersion = 0\<rparr>"

record 's tenancy_Store =
  ts_CreateApp :: "string \<Rightarrow> string \<Rightarrow> err + string \<Rightarrow> err + string \<Rightarrow> err + string \<Rightarrow> gotime \<Rightarrow> ('s, TenantApp \<times> string) io"
  ts_GetApp :: "string \<Rightarrow> ('s, TenantApp) io"
  ts_ListApps :: "string \<Rightarrow> ('s, TenantApp list) io"
  ts_AppByKey :: "string \<Rightarrow> ('s, TenantApp) io"
  ts_IssueKey :: "string \<Rightarrow> string \<Rightarrow> err + string \<Rightarrow> err + string \<Rightarrow> gotime \<Rightarrow> ('s, string \<times> APIKey) io"
  ts_AuthKey :: "string \<Rightarrow> ('s, TenantApp \<times> string) io"
  ts_ListKeys :: "string \<Rightarrow> ('s, APIKey list) io"
  ts_RevokeKey :: "string \<Rightarrow> string \<Rightarrow> ('s, unit) io"
  ts_DeleteApp :: "string \<Rightarrow> ('s, unit) io"
  ts_SetRequireSigning :: "string \<Rightarrow> bool \<Rightarrow> ('s, TenantApp) io"
  ts_SetRequirePlayerTokens :: "string \<Rightarrow> bool \<Rightarrow> ('s, TenantApp) io"
  ts_RotateSigningKey :: "string \<Rightarrow> ('s, TenantApp) io"
  ts_UpsertBoard :: "LogicalBoard \<Rightarrow> ('s, unit) io"
  ts_GetBoard :: "string \<Rightarrow> string \<Rightarrow> ('s, LogicalBoard) io"
  ts_ListBoards :: "string \<Rightarrow> ('s, LogicalBoard list) io"
  ts_AllBoards :: "('s, LogicalBoard list) io"

subsection \<open>Identifiers and keys (\<open>keys.go\<close>)\<close>

definition randHex :: "err + string \<Rightarrow> err + string" where
  "randHex rnd = (case rnd of Inl e \<Rightarrow> Inl e | Inr b \<Rightarrow> Inr (hex_encode b))"

definition newID :: "string \<Rightarrow> err + string \<Rightarrow> err + string" where
  "newID prefix rnd = (case randHex rnd of Inl e \<Rightarrow> Inl e | Inr h \<Rightarrow> Inr (prefix @ h))"

definition hashKey :: "string \<Rightarrow> string" where
  "hashKey plaintext = hex_encode (sha256 plaintext)"

definition newAPIKey :: "err + string \<Rightarrow> err + string \<times> string" where
  "newAPIKey rnd = (case randHex rnd of Inl e \<Rightarrow> Inl e | Inr h \<Rightarrow> let plaintext = ''lb_'' @ h in Inr (plaintext, hashKey plaintext))"

definition ellipsis :: string where
  "ellipsis = [CHR 0xE2, CHR 0x80, CHR 0xA6]"

definition keyPrefix :: "string \<Rightarrow> string" where
  "keyPrefix plaintext = (if length plaintext < 12 then plaintext
     else take 7 plaintext @ ellipsis @ drop (length plaintext - 4) plaintext)"

text \<open>The changes to an app's settings, the same in both stores.\<close>

definition with_signing :: "bool \<Rightarrow> TenantApp \<Rightarrow> TenantApp" where
  "with_signing req a = (let a = a\<lparr>RequireSigning := req\<rparr> in
     if req \<and> SigningKeyVersion a < 1 then a\<lparr>SigningKeyVersion := 1\<rparr> else a)"

definition with_tokens :: "bool \<Rightarrow> TenantApp \<Rightarrow> TenantApp" where
  "with_tokens req a = a\<lparr>RequirePlayerTokens := req\<rparr>"

definition rotated :: "TenantApp \<Rightarrow> TenantApp" where
  "rotated a = (let a = (if SigningKeyVersion a < 1 then a\<lparr>SigningKeyVersion := 1\<rparr> else a) in
     a\<lparr>SigningKeyVersion := wrap64 (SigningKeyVersion a + 1)\<rparr>)"

subsection \<open>The in-memory store (\<open>memstore.go\<close>)\<close>

record TenancyMem =
  tm_apps :: "(string \<times> TenantApp) list"
  tm_keyIndex :: "(string \<times> string) list"
  tm_keyMeta :: "(string \<times> APIKey) list"
  tm_keyHash :: "(string \<times> string) list"
  tm_keyScope :: "(string \<times> string) list"
  tm_appKeys :: "(string \<times> string list) list"
  tm_boards :: "(string \<times> (string \<times> LogicalBoard) list) list"

definition NewTenancyMem :: TenancyMem where
  "NewTenancyMem = \<lparr>tm_apps = [], tm_keyIndex = [], tm_keyMeta = [], tm_keyHash = [], tm_keyScope = [], tm_appKeys = [], tm_boards = []\<rparr>"

text \<open>A lookup that yields the zero value for an absent key, and a set of strings as a list without repetition.\<close>

definition at_key :: "('k \<times> 'v) list \<Rightarrow> 'v \<Rightarrow> 'k \<Rightarrow> 'v" where
  "at_key m z k = (case map_of m k of None \<Rightarrow> z | Some v \<Rightarrow> v)"

definition tm_IssueKey :: "string \<Rightarrow> string \<Rightarrow> err + string \<Rightarrow> err + string \<Rightarrow> gotime \<Rightarrow> (TenancyMem, string \<times> APIKey) io" where
  "tm_IssueKey appID scope rkey rid now s =
     (case newAPIKey rkey of Inl e \<Rightarrow> (Inl e, s)
      | Inr (plain, h) \<Rightarrow>
     (case newID ''key_'' rid of Inl e \<Rightarrow> (Inl e, s)
      | Inr keyID \<Rightarrow>
        if map_of (tm_apps s) appID = None then (Inl ErrAppNotFound, s)
        else let k = \<lparr>KeyID = keyID, KeyAppID = appID, Prefix = keyPrefix plain, Scope = normScope scope, KeyCreatedAt = now\<rparr>
             in (Inr (plain, k),
                 s\<lparr>tm_keyIndex := AList.update h appID (tm_keyIndex s), tm_keyMeta := AList.update keyID k (tm_keyMeta s),
                   tm_keyScope := AList.update h (Scope k) (tm_keyScope s), tm_keyHash := AList.update keyID h (tm_keyHash s),
                   tm_appKeys := AList.update appID (List.insert keyID (at_key (tm_appKeys s) [] appID)) (tm_appKeys s)\<rparr>)))"

definition tm_CreateApp :: "string \<Rightarrow> string \<Rightarrow> err + string \<Rightarrow> err + string \<Rightarrow> err + string \<Rightarrow> gotime \<Rightarrow> (TenancyMem, TenantApp \<times> string) io" where
  "tm_CreateApp ownerUserID name ra rkey rid now s =
     (case newID ''app_'' ra of Inl e \<Rightarrow> (Inl e, s)
      | Inr i \<Rightarrow>
        let app = \<lparr>AppID = i, AppName = name, OwnerUserID = ownerUserID, AppCreatedAt = now, RequireSigning = False,
                   RequirePlayerTokens = False, SigningKeyVersion = 1\<rparr>;
            s1 = s\<lparr>tm_apps := AList.update i app (tm_apps s), tm_boards := AList.update i [] (tm_boards s),
                   tm_appKeys := AList.update i [] (tm_appKeys s)\<rparr>
        in io_bind (tm_IssueKey i ScopeSecret rkey rid now) (\<lambda>(plain, _). io_ret (app, plain)) s1)"

definition tm_ListKeys :: "string \<Rightarrow> (TenancyMem, APIKey list) io" where
  "tm_ListKeys appID s = (Inr (List.map_filter (map_of (tm_keyMeta s)) (at_key (tm_appKeys s) [] appID)), s)"

text \<open>The deletions that take one key out of the indexes.\<close>

definition tm_drop_key :: "string \<Rightarrow> TenancyMem \<Rightarrow> TenancyMem" where
  "tm_drop_key keyID s =
     (let h = at_key (tm_keyHash s) [] keyID in
      s\<lparr>tm_keyIndex := AList.delete h (tm_keyIndex s), tm_keyScope := AList.delete h (tm_keyScope s),
        tm_keyHash := AList.delete keyID (tm_keyHash s), tm_keyMeta := AList.delete keyID (tm_keyMeta s)\<rparr>)"

definition tm_RevokeKey :: "string \<Rightarrow> string \<Rightarrow> (TenancyMem, unit) io" where
  "tm_RevokeKey appID keyID s =
     (case map_of (tm_keyMeta s) keyID of None \<Rightarrow> (Inl ErrKeyNotFound, s)
      | Some k \<Rightarrow> if KeyAppID k \<noteq> appID then (Inl ErrKeyNotFound, s)
          else let s1 = tm_drop_key keyID s in
            (Inr (), s1\<lparr>tm_appKeys := AList.map_entry appID (\<lambda>ks. removeAll keyID ks) (tm_appKeys s1)\<rparr>))"

definition tm_DeleteApp :: "string \<Rightarrow> (TenancyMem, unit) io" where
  "tm_DeleteApp appID s =
     (if map_of (tm_apps s) appID = None then (Inl ErrAppNotFound, s)
      else let s1 = fold tm_drop_key (at_key (tm_appKeys s) [] appID) s in
        (Inr (), s1\<lparr>tm_appKeys := AList.delete appID (tm_appKeys s1), tm_boards := AList.delete appID (tm_boards s1),
                    tm_apps := AList.delete appID (tm_apps s1)\<rparr>))"

definition tm_change :: "(TenantApp \<Rightarrow> TenantApp) \<Rightarrow> string \<Rightarrow> (TenancyMem, TenantApp) io" where
  "tm_change f appID s =
     (case map_of (tm_apps s) appID of None \<Rightarrow> (Inl ErrAppNotFound, s)
      | Some app \<Rightarrow> (Inr (f app), s\<lparr>tm_apps := AList.update appID (f app) (tm_apps s)\<rparr>))"

definition tm_SetRequirePlayerTokens :: "string \<Rightarrow> bool \<Rightarrow> (TenancyMem, TenantApp) io" where
  "tm_SetRequirePlayerTokens appID req = tm_change (with_tokens req) appID"

definition tm_SetRequireSigning :: "string \<Rightarrow> bool \<Rightarrow> (TenancyMem, TenantApp) io" where
  "tm_SetRequireSigning appID req = tm_change (with_signing req) appID"

definition tm_RotateSigningKey :: "string \<Rightarrow> (TenancyMem, TenantApp) io" where
  "tm_RotateSigningKey appID = tm_change rotated appID"

definition tm_GetApp :: "string \<Rightarrow> (TenancyMem, TenantApp) io" where
  "tm_GetApp i s = ((case map_of (tm_apps s) i of None \<Rightarrow> Inl ErrAppNotFound | Some app \<Rightarrow> Inr app), s)"

definition tm_ListApps :: "string \<Rightarrow> (TenancyMem, TenantApp list) io" where
  "tm_ListApps ownerUserID s = (Inr (filter (\<lambda>a. OwnerUserID a = ownerUserID) (map snd (tm_apps s))), s)"

definition tm_AuthKey :: "string \<Rightarrow> (TenancyMem, TenantApp \<times> string) io" where
  "tm_AuthKey plaintextKey s =
     (let h = hashKey plaintextKey in
      ((case map_of (tm_keyIndex s) h of None \<Rightarrow> Inl ErrInvalidKey
        | Some i \<Rightarrow> Inr (at_key (tm_apps s) zero_app i, normScope (at_key (tm_keyScope s) [] h))), s))"

definition tm_AppByKey :: "string \<Rightarrow> (TenancyMem, TenantApp) io" where
  "tm_AppByKey plaintextKey = io_bind (tm_AuthKey plaintextKey) (\<lambda>(app, _). io_ret app)"

definition tm_UpsertBoard :: "LogicalBoard \<Rightarrow> (TenancyMem, unit) io" where
  "tm_UpsertBoard lb s =
     (if map_of (tm_apps s) (LApp lb) = None then (Inl ErrAppNotFound, s)
      else (Inr (), s\<lparr>tm_boards := AList.update (LApp lb) (AList.update (LBoard lb) lb (at_key (tm_boards s) [] (LApp lb))) (tm_boards s)\<rparr>))"

definition tm_GetBoard :: "string \<Rightarrow> string \<Rightarrow> (TenancyMem, LogicalBoard) io" where
  "tm_GetBoard app board s =
     ((case map_of (at_key (tm_boards s) [] app) board of None \<Rightarrow> Inl ErrBoardNotFound | Some lb \<Rightarrow> Inr lb), s)"

definition tm_ListBoards :: "string \<Rightarrow> (TenancyMem, LogicalBoard list) io" where
  "tm_ListBoards app s = (Inr (map snd (at_key (tm_boards s) [] app)), s)"

definition tm_AllBoards :: "(TenancyMem, LogicalBoard list) io" where
  "tm_AllBoards s = (Inr (concat (map (\<lambda>(_, byBoard). map snd byBoard) (tm_boards s))), s)"

definition tenancy_mem :: "TenancyMem tenancy_Store" where
  "tenancy_mem = \<lparr>ts_CreateApp = tm_CreateApp, ts_GetApp = tm_GetApp, ts_ListApps = tm_ListApps, ts_AppByKey = tm_AppByKey,
     ts_IssueKey = tm_IssueKey, ts_AuthKey = tm_AuthKey, ts_ListKeys = tm_ListKeys, ts_RevokeKey = tm_RevokeKey,
     ts_DeleteApp = tm_DeleteApp, ts_SetRequireSigning = tm_SetRequireSigning, ts_SetRequirePlayerTokens = tm_SetRequirePlayerTokens,
     ts_RotateSigningKey = tm_RotateSigningKey, ts_UpsertBoard = tm_UpsertBoard, ts_GetBoard = tm_GetBoard,
     ts_ListBoards = tm_ListBoards, ts_AllBoards = tm_AllBoards\<rparr>"

subsection \<open>The specification\<close>

text \<open>
  The tenants: apps by id, keys by the hash of their plaintext, boards by app and name. Nothing else
  is kept; the other operations are derived from these maps.
\<close>

record tenants =
  t_apps :: "string \<Rightarrow> TenantApp option"
  t_keys :: "string \<Rightarrow> APIKey option"
  t_boards :: "string \<Rightarrow> string \<Rightarrow> LogicalBoard option"

definition no_tenants :: tenants where
  "no_tenants = \<lparr>t_apps = Map.empty, t_keys = Map.empty, t_boards = (\<lambda>_. Map.empty)\<rparr>"

definition drop_keys :: "(APIKey \<Rightarrow> bool) \<Rightarrow> (string \<Rightarrow> APIKey option) \<Rightarrow> string \<Rightarrow> APIKey option" where
  "drop_keys P K = (\<lambda>h. case K h of Some k \<Rightarrow> if P k then None else Some k | None \<Rightarrow> None)"

definition issue_spec :: "string \<Rightarrow> string \<Rightarrow> string \<Rightarrow> string \<Rightarrow> gotime \<Rightarrow> tenants \<Rightarrow> (err + string \<times> APIKey) \<times> tenants" where
  "issue_spec app scope rkey rid now M =
     (let plain = ''lb_'' @ hex_encode rkey;
          k = \<lparr>KeyID = ''key_'' @ hex_encode rid, KeyAppID = app, Prefix = keyPrefix plain, Scope = normScope scope, KeyCreatedAt = now\<rparr>
      in if t_apps M app = None then (Inl ErrAppNotFound, M)
         else (Inr (plain, k), M\<lparr>t_keys := (t_keys M)(hashKey plain \<mapsto> k)\<rparr>))"

definition create_app_spec :: "string \<Rightarrow> string \<Rightarrow> string \<Rightarrow> string \<Rightarrow> string \<Rightarrow> gotime \<Rightarrow> tenants \<Rightarrow> (err + TenantApp \<times> string) \<times> tenants" where
  "create_app_spec owner name ra rkey rid now M =
     (let i = ''app_'' @ hex_encode ra;
          app = \<lparr>AppID = i, AppName = name, OwnerUserID = owner, AppCreatedAt = now, RequireSigning = False,
                 RequirePlayerTokens = False, SigningKeyVersion = 1\<rparr>
      in case issue_spec i ScopeSecret rkey rid now (M\<lparr>t_apps := (t_apps M)(i \<mapsto> app)\<rparr>) of
           (r, M') \<Rightarrow> (case r of Inl e \<Rightarrow> Inl e | Inr (plain, _) \<Rightarrow> Inr (app, plain), M'))"

definition change_spec :: "(TenantApp \<Rightarrow> TenantApp) \<Rightarrow> string \<Rightarrow> tenants \<Rightarrow> (err + TenantApp) \<times> tenants" where
  "change_spec f app M = (case t_apps M app of None \<Rightarrow> (Inl ErrAppNotFound, M)
     | Some a \<Rightarrow> (Inr (f a), M\<lparr>t_apps := (t_apps M)(app \<mapsto> f a)\<rparr>))"

definition auth_key_spec :: "string \<Rightarrow> tenants \<Rightarrow> (err + TenantApp \<times> string) \<times> tenants" where
  "auth_key_spec plain M = ((case t_keys M (hashKey plain) of None \<Rightarrow> Inl ErrInvalidKey
     | Some k \<Rightarrow> Inr (the (t_apps M (KeyAppID k)), Scope k)), M)"

definition revoke_spec :: "string \<Rightarrow> string \<Rightarrow> tenants \<Rightarrow> (err + unit) \<times> tenants" where
  "revoke_spec app kid M =
     (if \<exists>k \<in> ran (t_keys M). KeyID k = kid \<and> KeyAppID k = app
      then (Inr (), M\<lparr>t_keys := drop_keys (\<lambda>k. KeyID k = kid) (t_keys M)\<rparr>) else (Inl ErrKeyNotFound, M))"

definition delete_app_spec :: "string \<Rightarrow> tenants \<Rightarrow> (err + unit) \<times> tenants" where
  "delete_app_spec app M =
     (if t_apps M app = None then (Inl ErrAppNotFound, M)
      else (Inr (), \<lparr>t_apps = (t_apps M)(app := None), t_keys = drop_keys (\<lambda>k. KeyAppID k = app) (t_keys M),
                     t_boards = (t_boards M)(app := Map.empty)\<rparr>))"

definition upsert_spec :: "LogicalBoard \<Rightarrow> tenants \<Rightarrow> (err + unit) \<times> tenants" where
  "upsert_spec lb M =
     (if t_apps M (LApp lb) = None then (Inl ErrAppNotFound, M)
      else (Inr (), M\<lparr>t_boards := (t_boards M)(LApp lb := (t_boards M (LApp lb))(LBoard lb \<mapsto> lb))\<rparr>))"

datatype tenant_op =
    TCreateApp string string string string string gotime
  | TIssueKey string string string string gotime
  | TGetApp string
  | TListApps string
  | TAuthKey string
  | TAppByKey string
  | TListKeys string
  | TRevokeKey string string
  | TDeleteApp string
  | TSetSigning string bool
  | TSetTokens string bool
  | TRotate string
  | TUpsert LogicalBoard
  | TGetBoard string string
  | TListBoards string
  | TAllBoards

text \<open>Lists are compared as sets: their order is that of Go's maps or of \<open>SMEMBERS\<close>.\<close>

datatype tenant_res =
    TRAppKey "err + TenantApp \<times> string"
  | TRKey "err + string \<times> APIKey"
  | TRApp "err + TenantApp"
  | TRApps "err + TenantApp set"
  | TRKeys "err + APIKey set"
  | TRUnit "err + unit"
  | TRBoard "err + LogicalBoard"
  | TRBoards "err + LogicalBoard set"

abbreviation as_set :: "err + 'a list \<Rightarrow> err + 'a set" where
  "as_set \<equiv> map_sum (\<lambda>e. e) set"

fun tenant_exec :: "'s tenancy_Store \<Rightarrow> tenant_op \<Rightarrow> 's \<Rightarrow> tenant_res \<times> 's" where
  "tenant_exec S (TCreateApp owner name ra rkey rid now) = map_res TRAppKey (ts_CreateApp S owner name (Inr ra) (Inr rkey) (Inr rid) now)"
| "tenant_exec S (TIssueKey app scope rkey rid now) = map_res TRKey (ts_IssueKey S app scope (Inr rkey) (Inr rid) now)"
| "tenant_exec S (TGetApp app) = map_res TRApp (ts_GetApp S app)"
| "tenant_exec S (TListApps owner) = map_res (TRApps \<circ> as_set) (ts_ListApps S owner)"
| "tenant_exec S (TAuthKey plain) = map_res TRAppKey (ts_AuthKey S plain)"
| "tenant_exec S (TAppByKey plain) = map_res TRApp (ts_AppByKey S plain)"
| "tenant_exec S (TListKeys app) = map_res (TRKeys \<circ> as_set) (ts_ListKeys S app)"
| "tenant_exec S (TRevokeKey app kid) = map_res TRUnit (ts_RevokeKey S app kid)"
| "tenant_exec S (TDeleteApp app) = map_res TRUnit (ts_DeleteApp S app)"
| "tenant_exec S (TSetSigning app b) = map_res TRApp (ts_SetRequireSigning S app b)"
| "tenant_exec S (TSetTokens app b) = map_res TRApp (ts_SetRequirePlayerTokens S app b)"
| "tenant_exec S (TRotate app) = map_res TRApp (ts_RotateSigningKey S app)"
| "tenant_exec S (TUpsert lb) = map_res TRUnit (ts_UpsertBoard S lb)"
| "tenant_exec S (TGetBoard app b) = map_res TRBoard (ts_GetBoard S app b)"
| "tenant_exec S (TListBoards app) = map_res (TRBoards \<circ> as_set) (ts_ListBoards S app)"
| "tenant_exec S TAllBoards = map_res (TRBoards \<circ> as_set) (ts_AllBoards S)"

fun tenant_spec :: "tenant_op \<Rightarrow> tenants \<Rightarrow> tenant_res \<times> tenants" where
  "tenant_spec (TCreateApp owner name ra rkey rid now) M = map_res TRAppKey (create_app_spec owner name ra rkey rid now) M"
| "tenant_spec (TIssueKey app scope rkey rid now) M = map_res TRKey (issue_spec app scope rkey rid now) M"
| "tenant_spec (TGetApp app) M = (TRApp (case t_apps M app of None \<Rightarrow> Inl ErrAppNotFound | Some a \<Rightarrow> Inr a), M)"
| "tenant_spec (TListApps owner) M = (TRApps (Inr {a \<in> ran (t_apps M). OwnerUserID a = owner}), M)"
| "tenant_spec (TAuthKey plain) M = map_res TRAppKey (auth_key_spec plain) M"
| "tenant_spec (TAppByKey plain) M = map_res (TRApp \<circ> map_sum (\<lambda>e. e) fst) (auth_key_spec plain) M"
| "tenant_spec (TListKeys app) M = (TRKeys (Inr {k \<in> ran (t_keys M). KeyAppID k = app}), M)"
| "tenant_spec (TRevokeKey app kid) M = map_res TRUnit (revoke_spec app kid) M"
| "tenant_spec (TDeleteApp app) M = map_res TRUnit (delete_app_spec app) M"
| "tenant_spec (TSetSigning app b) M = map_res TRApp (change_spec (with_signing b) app) M"
| "tenant_spec (TSetTokens app b) M = map_res TRApp (change_spec (with_tokens b) app) M"
| "tenant_spec (TRotate app) M = map_res TRApp (change_spec rotated app) M"
| "tenant_spec (TUpsert lb) M = map_res TRUnit (upsert_spec lb) M"
| "tenant_spec (TGetBoard app b) M = (TRBoard (case t_boards M app b of None \<Rightarrow> Inl ErrBoardNotFound | Some lb \<Rightarrow> Inr lb), M)"
| "tenant_spec (TListBoards app) M = (TRBoards (Inr (ran (t_boards M app))), M)"
| "tenant_spec TAllBoards M = (TRBoards (Inr (\<Union>app. ran (t_boards M app))), M)"

lemma tenant_spec_ops:
  "tenant_spec (TCreateApp owner name ra rkey rid now) = map_res TRAppKey (create_app_spec owner name ra rkey rid now)"
  "tenant_spec (TIssueKey app scope rkey rid now) = map_res TRKey (issue_spec app scope rkey rid now)"
  "tenant_spec (TRevokeKey app kid) = map_res TRUnit (revoke_spec app kid)"
  "tenant_spec (TDeleteApp app) = map_res TRUnit (delete_app_spec app)"
  "tenant_spec (TSetSigning app b) = map_res TRApp (change_spec (with_signing b) app)"
  "tenant_spec (TSetTokens app b) = map_res TRApp (change_spec (with_tokens b) app)"
  "tenant_spec (TRotate app) = map_res TRApp (change_spec rotated app)"
  "tenant_spec (TUpsert lb) = map_res TRUnit (upsert_spec lb)"
  by (intro ext, simp)+

text \<open>
  What the callers provide: text that survives a JSON encoding, the scopes of \<open>ParseScope\<close>, app ids
  without a colon, owners with an id, a clock with a year of four digits, and random identifiers that do not collide
  with the ones in use.
\<close>

definition board_json :: "LogicalBoard \<Rightarrow> bool" where
  "board_json lb \<longleftrightarrow> utf8 (LApp lb) \<and> utf8 (LBoard lb) \<and> utf8 (SortOrder (LConfig lb)) \<and> utf8 (UpdatePolicy (LConfig lb)) \<and>
     utf8 (TieBreak (LConfig lb)) \<and> json_year (Epoch (LConfig lb)) \<and> list_all (\<lambda>w. utf8 (Kind w) \<and> utf8 (CustomID w)) (Windows lb)"

definition colon_free :: "string \<Rightarrow> bool" where
  "colon_free s \<longleftrightarrow> CHR '':'' \<notin> set s"

definition fresh_key :: "string \<Rightarrow> string \<Rightarrow> tenants \<Rightarrow> bool" where
  "fresh_key rkey rid M \<longleftrightarrow> t_keys M (hashKey (''lb_'' @ hex_encode rkey)) = None \<and> length rkey = 32 \<and>
     (\<forall>k \<in> ran (t_keys M). KeyID k \<noteq> ''key_'' @ hex_encode rid)"

fun tenant_op_ok :: "tenant_op \<Rightarrow> tenants \<Rightarrow> bool" where
  "tenant_op_ok (TCreateApp owner name ra rkey rid now) M = (t_apps M (''app_'' @ hex_encode ra) = None \<and> fresh_key rkey rid M \<and>
     utf8 owner \<and> utf8 name \<and> json_year now)"
| "tenant_op_ok (TIssueKey app scope rkey rid now) M = (fresh_key rkey rid M \<and> snd (ParseScope scope) \<and> json_year now)"
| "tenant_op_ok (TUpsert lb) M = board_json lb"
| "tenant_op_ok (TGetBoard app b) M = colon_free app"
| "tenant_op_ok (TListBoards app) M = colon_free app"
| "tenant_op_ok (TListApps owner) M = (owner \<noteq> [])"
| "tenant_op_ok _ M = True"

definition app_json :: "TenantApp \<Rightarrow> bool" where
  "app_json a \<longleftrightarrow> utf8 (AppID a) \<and> utf8 (AppName a) \<and> utf8 (OwnerUserID a) \<and> json_year (AppCreatedAt a)"

definition key_json :: "APIKey \<Rightarrow> bool" where
  "key_json k \<longleftrightarrow> utf8 (KeyID k) \<and> utf8 (KeyAppID k) \<and> utf8 (Prefix k) \<and> utf8 (Scope k) \<and> json_year (KeyCreatedAt k)"

definition tenants_ok :: "tenants \<Rightarrow> bool" where
  "tenants_ok M \<longleftrightarrow>
     (\<forall>i a. t_apps M i = Some a \<longrightarrow> AppID a = i \<and> colon_free i \<and> app_json a) \<and>
     (\<forall>h k. t_keys M h = Some k \<longrightarrow> h \<noteq> [] \<and> t_apps M (KeyAppID k) \<noteq> None \<and> (Scope k = ScopeSecret \<or> Scope k = ScopePublishable) \<and> key_json k) \<and>
     (\<forall>h k h' k'. t_keys M h = Some k \<longrightarrow> t_keys M h' = Some k' \<longrightarrow> KeyID k = KeyID k' \<longrightarrow> h = h') \<and>
     (\<forall>app b lb. t_boards M app b = Some lb \<longrightarrow> t_apps M app \<noteq> None \<and> LApp lb = app \<and> LBoard lb = b \<and> board_json lb)"

text \<open>The contract of the interface: a store whose operations simulate the specification.\<close>

locale tenant_store =
  fixes S :: "'s tenancy_Store" and R :: "'s \<Rightarrow> tenants \<Rightarrow> bool"
  assumes exec_sim: "sim R (tenant_op_ok op) (tenant_exec S op) (tenant_spec op)"
    and rel_ok: "R s M \<Longrightarrow> tenants_ok M"
begin

lemma run_sim:
  assumes "R s M" "guarded tenant_op_ok tenant_spec ops M"
  shows "fst (pipe_run (tenant_exec S) ops s) = fst (pipe_run tenant_spec ops M) \<and> tenants_ok (snd (pipe_run tenant_spec ops M))"
  using sim_run [of R tenant_op_ok "tenant_exec S" tenant_spec, OF _ assms] exec_sim rel_ok by blast

end

subsection \<open>The specification keeps its invariant\<close>

lemma utf8_Cons: "of_char c < (0x80 :: nat) \<Longrightarrow> utf8 s \<Longrightarrow> utf8 (c # s)"
  by (simp add: utf8_def rune_width_def byte_in_def)

lemma utf8_append_ascii: "list_all (\<lambda>c. of_char c < (0x80 :: nat)) a \<Longrightarrow> utf8 s \<Longrightarrow> utf8 (a @ s)"
  by (induction a) (auto intro: utf8_Cons)

lemma utf8_ellipsis: "utf8 s \<Longrightarrow> utf8 (ellipsis @ s)"
  by (simp add: utf8_def ellipsis_def rune_width_def byte_in_def)

lemma hex_ascii: "list_all (\<lambda>c. of_char c < (0x80 :: nat)) (hex_encode b)"
proof -
  have "is_hex c \<Longrightarrow> of_char c < (0x80 :: nat)" for c by (auto simp: is_hex_def)
  then show ?thesis using hex_encode_chars [of b] by (auto simp: list_all_iff)
qed

lemma utf8_ids: "utf8 (''app_'' @ hex_encode b)" "utf8 (''key_'' @ hex_encode b)" "utf8 (''lb_'' @ hex_encode b)"
  by (rule utf8_ascii; simp add: hex_ascii)+

lemma utf8_keyPrefix: "utf8 (keyPrefix (''lb_'' @ hex_encode b))"
proof -
  have a: "list_all (\<lambda>c. of_char c < (0x80 :: nat)) (''lb_'' @ hex_encode b)" by (simp add: hex_ascii)
  then have "list_all (\<lambda>c. of_char c < (0x80 :: nat)) (take n (''lb_'' @ hex_encode b))"
    "list_all (\<lambda>c. of_char c < (0x80 :: nat)) (drop n (''lb_'' @ hex_encode b))" for n
    unfolding list_all_iff by (blast dest: in_set_takeD in_set_dropD)+
  then show ?thesis
    unfolding keyPrefix_def using a by (simp only: utf8_ascii utf8_append_ascii utf8_ellipsis if_split) simp
qed

lemmas utf8_minted = utf8_ids [simplified] utf8_keyPrefix [simplified]

lemma colon_free_app: "colon_free (''app_'' @ hex_encode b)"
proof -
  have "is_hex c \<Longrightarrow> c \<noteq> CHR '':''" for c by (auto simp: is_hex_def)
  then show ?thesis using hex_encode_chars [of b] by (auto simp: colon_free_def list_all_iff)
qed

lemma hashKey_nonempty: "hashKey p \<noteq> []"
proof -
  have "length (sha256 p) = 32" by (rule length_sha256)
  then show ?thesis by (cases "sha256 p") (simp_all add: hashKey_def Let_def)
qed

lemma ParseScope_norm: "snd (ParseScope scope) \<Longrightarrow> normScope scope = ScopeSecret \<or> normScope scope = ScopePublishable"
  by (auto simp: ParseScope_def normScope_def split: if_splits)

lemma utf8_scopes: "utf8 ScopeSecret" "utf8 ScopePublishable"
  by code_simp+

lemma tenants_ok_app: "tenants_ok M \<Longrightarrow> AppID a = i \<Longrightarrow> colon_free i \<Longrightarrow> app_json a \<Longrightarrow> tenants_ok (M\<lparr>t_apps := (t_apps M)(i \<mapsto> a)\<rparr>)"
  unfolding tenants_ok_def by auto

lemma tenants_ok_issue:
  assumes "tenants_ok M" "fresh_key rkey rid M" "snd (ParseScope scope)" "json_year now"
  shows "tenants_ok (snd (issue_spec app scope rkey rid now M))"
proof (cases "t_apps M app")
  case None
  then show ?thesis using assms(1) by (simp add: issue_spec_def)
next
  case (Some a)
  define h where "h = hashKey (''lb_'' @ hex_encode rkey)"
  define k where "k = \<lparr>KeyID = ''key_'' @ hex_encode rid, KeyAppID = app, Prefix = keyPrefix (''lb_'' @ hex_encode rkey), Scope = normScope scope, KeyCreatedAt = now\<rparr>"
  have e: "snd (issue_spec app scope rkey rid now M) = M\<lparr>t_keys := (t_keys M)(h \<mapsto> k)\<rparr>" using Some by (simp add: issue_spec_def Let_def h_def k_def)
  have "AppID a = app" "app_json a" using assms(1) Some unfolding tenants_ok_def by blast+
  then have "utf8 app" by (auto simp: app_json_def)
  then have kj: "key_json k" "Scope k = ScopeSecret \<or> Scope k = ScopePublishable"
    using ParseScope_norm [OF assms(3)] assms(4) utf8_scopes by (auto simp: key_json_def k_def utf8_minted)
  have fr: "t_keys M h = None" "\<And>h' k'. t_keys M h' = Some k' \<Longrightarrow> KeyID k' \<noteq> KeyID k"
    using assms(2) by (auto simp: fresh_key_def h_def k_def ran_def)
  have "h \<noteq> []" "t_apps M (KeyAppID k) \<noteq> None" using hashKey_nonempty Some by (simp_all add: h_def k_def)
  then show ?thesis using assms(1) kj fr unfolding e tenants_ok_def
    by (simp del: not_None_eq) (metis fr(2))
qed

lemma tenants_ok_create:
  assumes "tenants_ok M" "tenant_op_ok (TCreateApp owner name ra rkey rid now) M"
  shows "tenants_ok (snd (create_app_spec owner name ra rkey rid now M))"
proof -
  define i where "i = ''app_'' @ hex_encode ra"
  define a where "a = \<lparr>AppID = i, AppName = name, OwnerUserID = owner, AppCreatedAt = now, RequireSigning = False,
    RequirePlayerTokens = False, SigningKeyVersion = 1\<rparr>"
  have "app_json a" using assms(2) by (simp add: app_json_def a_def i_def utf8_minted)
  moreover have "AppID a = i" "colon_free i" using colon_free_app by (simp_all only: a_def i_def TenantApp.simps)
  ultimately have "tenants_ok (M\<lparr>t_apps := (t_apps M)(i \<mapsto> a)\<rparr>)"
    using tenants_ok_app [OF assms(1), of a i] by blast
  moreover have "fresh_key rkey rid (M\<lparr>t_apps := (t_apps M)(i \<mapsto> a)\<rparr>)" using assms(2) by (simp add: fresh_key_def)
  moreover have "snd (ParseScope ScopeSecret)" by code_simp
  ultimately have "tenants_ok (snd (issue_spec i ScopeSecret rkey rid now (M\<lparr>t_apps := (t_apps M)(i \<mapsto> a)\<rparr>)))"
    using tenants_ok_issue assms(2) by simp
  then show ?thesis by (simp add: create_app_spec_def Let_def i_def a_def case_prod_beta)
qed

lemma tenants_ok_change:
  assumes "tenants_ok M" "\<And>a. AppID (f a) = AppID a \<and> AppName (f a) = AppName a \<and> OwnerUserID (f a) = OwnerUserID a \<and> AppCreatedAt (f a) = AppCreatedAt a"
  shows "tenants_ok (snd (change_spec f app M))"
proof (cases "t_apps M app")
  case (Some a)
  then have "AppID (f a) = app" "colon_free app" "app_json (f a)"
    using assms unfolding tenants_ok_def app_json_def by auto
  then show ?thesis using tenants_ok_app [OF assms(1), of "f a" app] Some by (simp add: change_spec_def)
qed (simp add: change_spec_def assms(1))

lemma settings_keep:
  "AppID (with_signing b a) = AppID a \<and> AppName (with_signing b a) = AppName a \<and> OwnerUserID (with_signing b a) = OwnerUserID a \<and> AppCreatedAt (with_signing b a) = AppCreatedAt a"
  "AppID (with_tokens b a) = AppID a \<and> AppName (with_tokens b a) = AppName a \<and> OwnerUserID (with_tokens b a) = OwnerUserID a \<and> AppCreatedAt (with_tokens b a) = AppCreatedAt a"
  "AppID (rotated a) = AppID a \<and> AppName (rotated a) = AppName a \<and> OwnerUserID (rotated a) = OwnerUserID a \<and> AppCreatedAt (rotated a) = AppCreatedAt a"
  by (simp_all add: with_signing_def with_tokens_def rotated_def Let_def)

lemma drop_keys_Some: "drop_keys P K h = Some k \<longleftrightarrow> K h = Some k \<and> \<not> P k"
  by (auto simp: drop_keys_def split: option.splits)

lemma tenants_ok_drop: "tenants_ok M \<Longrightarrow> tenants_ok (M\<lparr>t_keys := drop_keys P (t_keys M)\<rparr>)"
  unfolding tenants_ok_def by (auto simp: drop_keys_Some)

lemma tenants_ok_delete: "tenants_ok M \<Longrightarrow> tenants_ok (snd (delete_app_spec app M))"
  unfolding tenants_ok_def delete_app_spec_def by (auto simp: drop_keys_Some)

lemma tenants_ok_upsert: "tenants_ok M \<Longrightarrow> board_json lb \<Longrightarrow> tenants_ok (snd (upsert_spec lb M))"
  unfolding tenants_ok_def upsert_spec_def by auto

lemma tenants_ok_spec:
  assumes "tenants_ok M" "tenant_op_ok op M"
  shows "tenants_ok (snd (tenant_spec op M))"
  using assms
proof (cases op)
  case (TCreateApp owner name ra rkey rid now)
  then show ?thesis using tenants_ok_create assms by simp
next
  case (TIssueKey app scope rkey rid now)
  then show ?thesis using tenants_ok_issue assms by simp
next
  case (TRevokeKey app kid)
  then show ?thesis using tenants_ok_drop [OF assms(1)] assms(1) by (simp add: revoke_spec_def)
next
  case (TDeleteApp app)
  then show ?thesis using tenants_ok_delete [OF assms(1)] by simp
next
  case (TSetSigning app b)
  then show ?thesis using tenants_ok_change [OF assms(1) settings_keep(1)] by simp
next
  case (TSetTokens app b)
  then show ?thesis using tenants_ok_change [OF assms(1) settings_keep(2)] by simp
next
  case (TRotate app)
  then show ?thesis using tenants_ok_change [OF assms(1) settings_keep(3)] by simp
next
  case (TUpsert lb)
  then show ?thesis using tenants_ok_upsert assms by simp
qed (simp_all add: auth_key_spec_def)

lemma key_id_inj: "tenants_ok M \<Longrightarrow> t_keys M h = Some k \<Longrightarrow> t_keys M h' = Some k' \<Longrightarrow> KeyID k = KeyID k' \<Longrightarrow> h = h' \<and> k = k'"
  unfolding tenants_ok_def by (metis option.inject)

lemma revoke_spec_keys:
  assumes "tenants_ok M"
  shows "snd (revoke_spec app i M) = M\<lparr>t_keys := drop_keys (\<lambda>k. KeyID k = i \<and> KeyAppID k = app) (t_keys M)\<rparr>"
proof (cases "\<exists>k \<in> ran (t_keys M). KeyID k = i \<and> KeyAppID k = app")
  case True
  then obtain h k where k: "t_keys M h = Some k" "KeyID k = i" "KeyAppID k = app" by (auto simp: ran_def)
  have "t_keys M x = Some k' \<Longrightarrow> KeyID k' = i \<Longrightarrow> KeyAppID k' = app" for x k' using key_id_inj [OF assms k(1), of x k'] k(2,3) by simp
  then have "drop_keys (\<lambda>k. KeyID k = i) (t_keys M) = drop_keys (\<lambda>k. KeyID k = i \<and> KeyAppID k = app) (t_keys M)"
    by (auto simp: drop_keys_def fun_eq_iff split: option.splits)
  then show ?thesis using True by (simp add: revoke_spec_def)
next
  case False
  then have "drop_keys (\<lambda>k. KeyID k = i \<and> KeyAppID k = app) (t_keys M) = t_keys M"
    by (auto simp: drop_keys_def fun_eq_iff ran_def split: option.splits)
  then show ?thesis using False by (auto simp: revoke_spec_def)
qed

end
