(* ===== verification/Tenancy_Mem.thy ===== *)
theory Tenancy_Mem
  imports Tenancy
begin

text \<open>
  The in-memory store of tenants simulates the specification: \<open>tm_rel\<close> says how its seven maps
  represent the apps, keys and boards.
\<close>

definition key_maps :: "TenancyMem \<Rightarrow> (string \<Rightarrow> APIKey option) \<Rightarrow> bool" where
  "key_maps s K \<longleftrightarrow>
     (\<forall>h. map_of (tm_keyIndex s) h = map_option KeyAppID (K h)) \<and> (\<forall>h. map_of (tm_keyScope s) h = map_option Scope (K h)) \<and>
     (\<forall>i h. map_of (tm_keyHash s) i = Some h \<longleftrightarrow> (\<exists>k. K h = Some k \<and> KeyID k = i)) \<and>
     (\<forall>i k. map_of (tm_keyMeta s) i = Some k \<longleftrightarrow> (\<exists>h. K h = Some k \<and> KeyID k = i))"

definition board_maps :: "(string \<times> (string \<times> LogicalBoard) list) list \<Rightarrow> (string \<Rightarrow> string \<Rightarrow> LogicalBoard option) \<Rightarrow> bool" where
  "board_maps bs B \<longleftrightarrow> distinct (map fst bs) \<and> (\<forall>app xs. map_of bs app = Some xs \<longrightarrow> distinct (map fst xs)) \<and>
     (\<forall>app. map_of (at_key bs [] app) = B app)"

definition tm_rel :: "TenancyMem \<Rightarrow> tenants \<Rightarrow> bool" where
  "tm_rel s M \<longleftrightarrow> tenants_ok M \<and> map_of (tm_apps s) = t_apps M \<and> distinct (map fst (tm_apps s)) \<and> key_maps s (t_keys M) \<and>
     (\<forall>app. set (at_key (tm_appKeys s) [] app) = {KeyID k |k. k \<in> ran (t_keys M) \<and> KeyAppID k = app}) \<and>
     board_maps (tm_boards s) (t_boards M)"

lemma tm_relD:
  assumes "tm_rel s M"
  shows "tenants_ok M" "map_of (tm_apps s) = t_apps M" "distinct (map fst (tm_apps s))" "key_maps s (t_keys M)"
    "set (at_key (tm_appKeys s) [] app) = {KeyID k |k. k \<in> ran (t_keys M) \<and> KeyAppID k = app}" "board_maps (tm_boards s) (t_boards M)"
  using assms by (auto simp: tm_rel_def)

lemma tm_rel_start: "tm_rel NewTenancyMem no_tenants"
  by (auto simp: tm_rel_def NewTenancyMem_def no_tenants_def tenants_ok_def key_maps_def board_maps_def at_key_def)

lemma at_key_update: "at_key (AList.update a v m) z b = (if b = a then v else at_key m z b)"
  by (simp add: at_key_def update_conv')

lemma at_key_delete: "at_key (AList.delete a m) z b = (if b = a then z else at_key m z b)"
  by (simp add: at_key_def delete_conv')

lemma at_key_map_entry: "f z = z \<Longrightarrow> at_key (AList.map_entry a f m) z b = (if b = a then f (at_key m z b) else at_key m z b)"
  by (simp add: at_key_def map_of_map_entry split: option.splits)

lemma option_ext2: "(\<And>k v. f k = Some v \<longleftrightarrow> g k = Some v) \<Longrightarrow> f = g"
  by (rule ext) (metis not_None_eq)

lemma ran_map_of: "distinct (map fst xs) \<Longrightarrow> ran (map_of xs) = snd ` set xs"
  by (rule ran_distinct)

subsection \<open>Reads\<close>

lemma tm_GetApp_sim: "sim tm_rel P (map_res TRApp (tm_GetApp app)) (tenant_spec (TGetApp app))"
  by (rule simI) (auto simp: tm_GetApp_def dest: tm_relD(2))

lemma tm_ListApps_sim: "sim tm_rel P (map_res (TRApps \<circ> as_set) (tm_ListApps owner)) (tenant_spec (TListApps owner))"
proof (rule simI)
  fix s M
  assume r: "tm_rel s M"
  have "ran (t_apps M) = set (map snd (tm_apps s))" using ran_map_of [OF tm_relD(3) [OF r]] tm_relD(2) [OF r] by simp
  then show "fst (map_res (TRApps \<circ> as_set) (tm_ListApps owner) s) = fst (tenant_spec (TListApps owner) M) \<and>
    tm_rel (snd (map_res (TRApps \<circ> as_set) (tm_ListApps owner) s)) (snd (tenant_spec (TListApps owner) M))"
    using r by (auto simp: tm_ListApps_def)
qed

lemma scope_norm: "tenants_ok M \<Longrightarrow> t_keys M h = Some k \<Longrightarrow> normScope (Scope k) = Scope k"
proof -
  assume "tenants_ok M" "t_keys M h = Some k"
  then have "Scope k = ScopeSecret \<or> Scope k = ScopePublishable" unfolding tenants_ok_def by blast
  then show ?thesis by (auto simp: normScope_def ScopeSecret_def ScopePublishable_def)
qed

lemma tm_AuthKey_correct: "tm_rel s M \<Longrightarrow> tm_AuthKey plain s = (fst (auth_key_spec plain M), s)"
proof -
  assume r: "tm_rel s M"
  show ?thesis
  proof (cases "t_keys M (hashKey plain)")
    case None
    then show ?thesis using tm_relD(4) [OF r] by (simp add: tm_AuthKey_def auth_key_spec_def key_maps_def Let_def)
  next
    case (Some k)
    then obtain a where a: "t_apps M (KeyAppID k) = Some a" using tm_relD(1) [OF r] unfolding tenants_ok_def by blast
    have "map_of (tm_keyIndex s) (hashKey plain) = Some (KeyAppID k)" "map_of (tm_keyScope s) (hashKey plain) = Some (Scope k)"
      using tm_relD(4) [OF r] Some by (simp_all add: key_maps_def)
    then show ?thesis using Some a tm_relD(2) [OF r] scope_norm [OF tm_relD(1) [OF r] Some]
      by (simp add: tm_AuthKey_def auth_key_spec_def at_key_def Let_def)
  qed
qed

lemma tm_AuthKey_sim: "sim tm_rel P (map_res TRAppKey (tm_AuthKey plain)) (tenant_spec (TAuthKey plain))"
  by (rule simI) (simp add: tm_AuthKey_correct, simp add: auth_key_spec_def)

lemma tm_AppByKey_sim: "sim tm_rel P (map_res TRApp (tm_AppByKey plain)) (tenant_spec (TAppByKey plain))"
proof (rule simI)
  fix s M
  assume r: "tm_rel s M"
  show "fst (map_res TRApp (tm_AppByKey plain) s) = fst (tenant_spec (TAppByKey plain) M) \<and>
    tm_rel (snd (map_res TRApp (tm_AppByKey plain) s)) (snd (tenant_spec (TAppByKey plain) M))"
    using r tm_AuthKey_correct [OF r, of plain]
    by (cases "t_keys M (hashKey plain)") (simp_all add: tm_AppByKey_def io_simps auth_key_spec_def)
qed

lemma tm_ListKeys_sim: "sim tm_rel P (map_res (TRKeys \<circ> as_set) (tm_ListKeys app)) (tenant_spec (TListKeys app))"
proof (rule simI)
  fix s M
  assume r: "tm_rel s M"
  have inj: "\<And>h k h' k'. t_keys M h = Some k \<Longrightarrow> t_keys M h' = Some k' \<Longrightarrow> KeyID k = KeyID k' \<Longrightarrow> k = k'"
    using tm_relD(1) [OF r] unfolding tenants_ok_def by (metis option.inject)
  have "set (List.map_filter (map_of (tm_keyMeta s)) (at_key (tm_appKeys s) [] app)) = {k \<in> ran (t_keys M). KeyAppID k = app}"
    unfolding set_map_filter tm_relD(5) [OF r] using tm_relD(4) [OF r] inj by (auto simp: key_maps_def ran_def)
  then show "fst (map_res (TRKeys \<circ> as_set) (tm_ListKeys app) s) = fst (tenant_spec (TListKeys app) M) \<and>
    tm_rel (snd (map_res (TRKeys \<circ> as_set) (tm_ListKeys app) s)) (snd (tenant_spec (TListKeys app) M))"
    using r by (simp add: tm_ListKeys_def)
qed

lemma board_mapsD:
  assumes "board_maps bs B"
  shows "map_of (at_key bs [] app) = B app" "snd ` set (at_key bs [] app) = ran (B app)"
proof -
  show m: "map_of (at_key bs [] app) = B app" using assms by (simp add: board_maps_def)
  have "distinct (map fst (at_key bs [] app))" using assms by (auto simp: board_maps_def at_key_def split: option.splits)
  from ran_map_of [OF this] m show "snd ` set (at_key bs [] app) = ran (B app)" by simp
qed

lemma tm_GetBoard_sim: "sim tm_rel P (map_res TRBoard (tm_GetBoard app b)) (tenant_spec (TGetBoard app b))"
  by (rule simI) (auto simp: tm_GetBoard_def board_mapsD dest: tm_relD(6))

lemma tm_ListBoards_sim: "sim tm_rel P (map_res (TRBoards \<circ> as_set) (tm_ListBoards app)) (tenant_spec (TListBoards app))"
  by (rule simI) (simp add: tm_ListBoards_def board_mapsD(2) [OF tm_relD(6)])

lemma tm_AllBoards_sim: "sim tm_rel P (map_res (TRBoards \<circ> as_set) tm_AllBoards) (tenant_spec TAllBoards)"
proof (rule simI)
  fix s M
  assume r: "tm_rel s M"
  have d: "distinct (map fst (tm_boards s))" using tm_relD(6) [OF r] by (simp add: board_maps_def)
  have e: "snd ` set (at_key (tm_boards s) [] app) = ran (t_boards M app)" for app by (rule board_mapsD(2) [OF tm_relD(6) [OF r]])
  have "set (concat (map (\<lambda>(_, byBoard). map snd byBoard) (tm_boards s))) = (\<Union>app. ran (t_boards M app))"
  proof
    show "set (concat (map (\<lambda>(_, byBoard). map snd byBoard) (tm_boards s))) \<subseteq> (\<Union>app. ran (t_boards M app))"
    proof
      fix lb
      assume "lb \<in> set (concat (map (\<lambda>(_, byBoard). map snd byBoard) (tm_boards s)))"
      then obtain app xs where x: "(app, xs) \<in> set (tm_boards s)" "lb \<in> snd ` set xs" by auto
      then have "at_key (tm_boards s) [] app = xs" using d by (simp add: at_key_def map_of_is_SomeI)
      then show "lb \<in> (\<Union>app. ran (t_boards M app))" using e [of app] x(2) by auto
    qed
    show "(\<Union>app. ran (t_boards M app)) \<subseteq> set (concat (map (\<lambda>(_, byBoard). map snd byBoard) (tm_boards s)))"
    proof
      fix lb
      assume "lb \<in> (\<Union>app. ran (t_boards M app))"
      then obtain app where "lb \<in> snd ` set (at_key (tm_boards s) [] app)" unfolding e by blast
      then obtain xs where "map_of (tm_boards s) app = Some xs" "lb \<in> snd ` set xs" by (cases "map_of (tm_boards s) app") (auto simp: at_key_def)
      then show "lb \<in> set (concat (map (\<lambda>(_, byBoard). map snd byBoard) (tm_boards s)))" by (force dest: map_of_SomeD)
    qed
  qed
  then show "fst (map_res (TRBoards \<circ> as_set) tm_AllBoards s) = fst (tenant_spec TAllBoards M) \<and>
    tm_rel (snd (map_res (TRBoards \<circ> as_set) tm_AllBoards s)) (snd (tenant_spec TAllBoards M))"
    using r by (simp add: tm_AllBoards_def)
qed

subsection \<open>Writes\<close>

lemma tm_rel_change:
  assumes "tm_rel s M" "tenants_ok (snd (change_spec f app M))"
  shows "fst (tm_change f app s) = fst (change_spec f app M) \<and> tm_rel (snd (tm_change f app s)) (snd (change_spec f app M))"
proof (cases "t_apps M app")
  case (Some a)
  then have s: "snd (change_spec f app M) = M\<lparr>t_apps := (t_apps M)(app \<mapsto> f a)\<rparr>" by (simp add: change_spec_def)
  have "map_of (tm_apps s) app = Some a" using tm_relD(2) [OF assms(1)] Some by simp
  then show ?thesis
    using assms tm_relD [OF assms(1)] Some unfolding tm_rel_def s
    by (simp add: tm_change_def change_spec_def update_conv' distinct_update key_maps_def)
qed (use assms tm_relD(2) [OF assms(1)] in \<open>simp add: tm_change_def change_spec_def\<close>)

lemma tm_change_sim:
  assumes "\<And>a. AppID (f a) = AppID a \<and> AppName (f a) = AppName a \<and> OwnerUserID (f a) = OwnerUserID a \<and> AppCreatedAt (f a) = AppCreatedAt a"
  shows "sim tm_rel P (map_res TRApp (tm_change f app)) (map_res TRApp (change_spec f app))"
  by (intro sim_map_res simI tm_rel_change tenants_ok_change assms) (auto dest: tm_relD(1))

lemma key_maps_add:
  assumes "key_maps s K" "K h = None" "\<And>h' k'. K h' = Some k' \<Longrightarrow> KeyID k' \<noteq> KeyID k"
  shows "key_maps (s\<lparr>tm_keyIndex := AList.update h (KeyAppID k) (tm_keyIndex s), tm_keyMeta := AList.update (KeyID k) k (tm_keyMeta s),
    tm_keyScope := AList.update h (Scope k) (tm_keyScope s), tm_keyHash := AList.update (KeyID k) h (tm_keyHash s), tm_appKeys := ks\<rparr>) (K(h \<mapsto> k))"
  using assms unfolding key_maps_def by (simp add: update_conv') (metis option.distinct(1))

lemma ran_upd_new: "K h = None \<Longrightarrow> ran (K(h \<mapsto> k)) = insert k (ran K)"
  by (rule ran_map_upd)

lemma tm_rel_issue:
  assumes r: "tm_rel s M" and f: "fresh_key rkey rid M" and ok: "tenants_ok (snd (issue_spec app scope rkey rid now M))"
  shows "fst (tm_IssueKey app scope (Inr rkey) (Inr rid) now s) = fst (issue_spec app scope rkey rid now M) \<and>
    tm_rel (snd (tm_IssueKey app scope (Inr rkey) (Inr rid) now s)) (snd (issue_spec app scope rkey rid now M))"
proof -
  define p where "p = ''lb_'' @ hex_encode rkey"
  define i where "i = ''key_'' @ hex_encode rid"
  define h where "h = hashKey p"
  have n: "newAPIKey (Inr rkey) = Inr (p, h)" "newID ''key_'' (Inr rid) = Inr i"
    by (simp_all add: newAPIKey_def newID_def randHex_def Let_def p_def i_def h_def)
  define k where "k = \<lparr>KeyID = i, KeyAppID = app, Prefix = keyPrefix p, Scope = normScope scope, KeyCreatedAt = now\<rparr>"
  have kf: "KeyID k = i" "KeyAppID k = app" by (simp_all add: k_def)
  have sp: "issue_spec app scope rkey rid now M = (if t_apps M app = None then (Inl ErrAppNotFound, M)
      else (Inr (p, k), M\<lparr>t_keys := (t_keys M)(h \<mapsto> k)\<rparr>))"
    unfolding issue_spec_def Let_def p_def [symmetric] i_def [symmetric] h_def [symmetric] k_def [symmetric] by simp
  have fr: "t_keys M h = None" "\<And>h' k'. t_keys M h' = Some k' \<Longrightarrow> KeyID k' \<noteq> KeyID k"
    using f unfolding fresh_key_def p_def [symmetric] i_def [symmetric] h_def [symmetric] by (auto simp: k_def ran_def)
  show ?thesis
  proof (cases "t_apps M app")
    case None
    then show ?thesis using r sp n tm_relD(2) [OF r] by (simp add: tm_IssueKey_def)
  next
    case (Some a)
    define s' where "s' = s\<lparr>tm_keyIndex := AList.update h (KeyAppID k) (tm_keyIndex s), tm_keyMeta := AList.update (KeyID k) k (tm_keyMeta s),
      tm_keyScope := AList.update h (Scope k) (tm_keyScope s), tm_keyHash := AList.update (KeyID k) h (tm_keyHash s),
      tm_appKeys := AList.update app (List.insert i (at_key (tm_appKeys s) [] app)) (tm_appKeys s)\<rparr>"
    have c: "tm_IssueKey app scope (Inr rkey) (Inr rid) now s = (Inr (p, k), s')"
      using n Some tm_relD(2) [OF r] by (simp add: tm_IssueKey_def Let_def k_def s'_def)
    have "key_maps s' ((t_keys M)(h \<mapsto> k))" unfolding s'_def by (rule key_maps_add [OF tm_relD(4) [OF r] fr])
    moreover have "set (at_key (tm_appKeys s') [] b) = {KeyID x |x. x \<in> ran ((t_keys M)(h \<mapsto> k)) \<and> KeyAppID x = b}" for b
      using tm_relD(5) [OF r, of b] kf by (auto simp: s'_def at_key_update ran_upd_new [of "t_keys M", OF fr(1)])
    ultimately have "tm_rel s' (M\<lparr>t_keys := (t_keys M)(h \<mapsto> k)\<rparr>)"
      using ok sp Some tm_relD [OF r] by (simp add: tm_rel_def s'_def)
    then show ?thesis using c sp Some by simp
  qed
qed

lemma tm_IssueKey_sim:
  "sim tm_rel (tenant_op_ok (TIssueKey app scope rkey rid now)) (map_res TRKey (tm_IssueKey app scope (Inr rkey) (Inr rid) now)) (map_res TRKey (issue_spec app scope rkey rid now))"
  by (intro sim_map_res simI tm_rel_issue) (auto intro: tenants_ok_issue dest: tm_relD(1))

lemma newID_Inr: "newID pre (Inr b) = Inr (pre @ hex_encode b)"
  by (simp add: newID_def randHex_def)

lemma tm_rel_create:
  assumes r: "tm_rel s M" and ok: "tenant_op_ok (TCreateApp owner name ra rkey rid now) M"
  shows "fst (tm_CreateApp owner name (Inr ra) (Inr rkey) (Inr rid) now s) = fst (create_app_spec owner name ra rkey rid now M) \<and>
    tm_rel (snd (tm_CreateApp owner name (Inr ra) (Inr rkey) (Inr rid) now s)) (snd (create_app_spec owner name ra rkey rid now M))"
proof -
  define i where "i = ''app_'' @ hex_encode ra"
  define a where "a = \<lparr>AppID = i, AppName = name, OwnerUserID = owner, AppCreatedAt = now, RequireSigning = False,
    RequirePlayerTokens = False, SigningKeyVersion = 1\<rparr>"
  define M1 where "M1 = M\<lparr>t_apps := (t_apps M)(i \<mapsto> a)\<rparr>"
  define s1 where "s1 = s\<lparr>tm_apps := AList.update i a (tm_apps s), tm_boards := AList.update i [] (tm_boards s),
    tm_appKeys := AList.update i [] (tm_appKeys s)\<rparr>"
  have new: "t_apps M i = None" "fresh_key rkey rid M" "utf8 owner" "utf8 name" "json_year now" using ok by (simp_all add: i_def)
  have "app_json a" using new(3-5) by (simp add: app_json_def a_def i_def utf8_minted)
  moreover have ai: "AppID a = i" "colon_free i" using colon_free_app by (simp_all only: a_def i_def TenantApp.simps)
  ultimately have ok1: "tenants_ok M1" unfolding M1_def using tenants_ok_app [OF tm_relD(1) [OF r], of a i] by blast
  have nob: "t_boards M i = Map.empty" "{KeyID k |k. k \<in> ran (t_keys M) \<and> KeyAppID k = i} = {}"
    using tm_relD(1) [OF r] new(1) unfolding tenants_ok_def by (auto simp: ran_def fun_eq_iff) (metis not_None_eq option.distinct(1))+
  have "board_maps (tm_boards s1) (t_boards M)"
    using tm_relD(6) [OF r] nob(1) by (auto simp: board_maps_def s1_def at_key_update distinct_update update_conv' split: if_splits)
  moreover have "set (at_key (tm_appKeys s1) [] b) = {KeyID k |k. k \<in> ran (t_keys M) \<and> KeyAppID k = b}" for b
    using tm_relD(5) [OF r, of b] nob(2) by (simp add: s1_def at_key_update)
  moreover have "key_maps s1 (t_keys M)" using tm_relD(4) [OF r] by (simp add: key_maps_def s1_def)
  ultimately have r1: "tm_rel s1 M1"
    using ok1 tm_relD(2,3) [OF r] by (simp add: tm_rel_def M1_def) (simp add: s1_def update_conv' distinct_update)
  have f1: "fresh_key rkey rid M1" using new(2) by (simp add: fresh_key_def M1_def)
  have "snd (ParseScope ScopeSecret)" by code_simp
  from tm_rel_issue [OF r1 f1 tenants_ok_issue [OF ok1 f1 this new(5)], of i]
  have iss: "fst (tm_IssueKey i ScopeSecret (Inr rkey) (Inr rid) now s1) = fst (issue_spec i ScopeSecret rkey rid now M1)"
    "tm_rel (snd (tm_IssueKey i ScopeSecret (Inr rkey) (Inr rid) now s1)) (snd (issue_spec i ScopeSecret rkey rid now M1))" by blast+
  have c: "tm_CreateApp owner name (Inr ra) (Inr rkey) (Inr rid) now s = io_bind (tm_IssueKey i ScopeSecret (Inr rkey) (Inr rid) now) (\<lambda>(plain, _). io_ret (a, plain)) s1"
    unfolding tm_CreateApp_def newID_Inr i_def [symmetric] by (simp add: Let_def a_def s1_def)
  have d: "create_app_spec owner name ra rkey rid now M = (case issue_spec i ScopeSecret rkey rid now M1 of
      (r, M') \<Rightarrow> (case r of Inl e \<Rightarrow> Inl e | Inr (plain, _) \<Rightarrow> Inr (a, plain), M'))"
    unfolding create_app_spec_def Let_def i_def [symmetric] a_def [symmetric] M1_def [symmetric] by simp
  show ?thesis using iss unfolding c d
    by (cases "tm_IssueKey i ScopeSecret (Inr rkey) (Inr rid) now s1"; cases "issue_spec i ScopeSecret rkey rid now M1")
      (auto simp: io_bind_def io_ret_def split: sum.splits)
qed

lemma tm_CreateApp_sim:
  "sim tm_rel (tenant_op_ok (TCreateApp owner name ra rkey rid now)) (map_res TRAppKey (tm_CreateApp owner name (Inr ra) (Inr rkey) (Inr rid) now))
     (map_res TRAppKey (create_app_spec owner name ra rkey rid now))"
  by (intro sim_map_res simI tm_rel_create)

text \<open>Taking one key out of the indexes; an id that is not in use changes nothing.\<close>

lemma tm_drop_key_others [simp]:
  "tm_apps (tm_drop_key i s) = tm_apps s" "tm_appKeys (tm_drop_key i s) = tm_appKeys s" "tm_boards (tm_drop_key i s) = tm_boards s"
  by (simp_all add: tm_drop_key_def Let_def)

lemma key_maps_drop:
  assumes m: "key_maps s K" and e: "K [] = None"
  shows "key_maps (tm_drop_key i s) (drop_keys (\<lambda>k. KeyID k = i) K)"
proof -
  define h where "h = at_key (tm_keyHash s) [] i"
  have ix: "map_of (tm_keyIndex s) g = map_option KeyAppID (K g)" "map_of (tm_keyScope s) g = map_option Scope (K g)" for g
    using m by (simp_all add: key_maps_def)
  have hs: "map_of (tm_keyHash s) j = Some g \<longleftrightarrow> (\<exists>k. K g = Some k \<and> KeyID k = j)" for j g using m by (simp add: key_maps_def)
  have mt: "map_of (tm_keyMeta s) j = Some k \<longleftrightarrow> (\<exists>g. K g = Some k \<and> KeyID k = j)" for j k using m by (simp add: key_maps_def)
  have A: "g = h \<longleftrightarrow> KeyID k = i" if "K g = Some k" for g k
  proof (cases "map_of (tm_keyHash s) i")
    case None
    then have "h = []" by (simp add: h_def at_key_def)
    moreover have "KeyID k \<noteq> i" using that None hs [of i g] by auto
    ultimately show ?thesis using that e by auto
  next
    case (Some h')
    then have "h' = h" by (simp add: h_def at_key_def)
    then show ?thesis using Some that hs [of i g] hs [of i h] by auto
  qed
  have d: "drop_keys (\<lambda>k. KeyID k = i) K g = (if g = h then None else K g)" for g
    using A [of g] by (cases "K g") (auto simp: drop_keys_def)
  show ?thesis
    unfolding key_maps_def
  proof (intro conjI allI)
    fix g
    show "map_of (tm_keyIndex (tm_drop_key i s)) g = map_option KeyAppID (drop_keys (\<lambda>k. KeyID k = i) K g)"
      "map_of (tm_keyScope (tm_drop_key i s)) g = map_option Scope (drop_keys (\<lambda>k. KeyID k = i) K g)"
      by (simp_all add: d tm_drop_key_def Let_def h_def [symmetric] delete_conv' ix)
  next
    fix j g
    show "map_of (tm_keyHash (tm_drop_key i s)) j = Some g \<longleftrightarrow> (\<exists>k. drop_keys (\<lambda>k. KeyID k = i) K g = Some k \<and> KeyID k = j)"
      by (auto simp: tm_drop_key_def Let_def delete_conv' hs drop_keys_Some)
  next
    fix j k
    show "map_of (tm_keyMeta (tm_drop_key i s)) j = Some k \<longleftrightarrow> (\<exists>g. drop_keys (\<lambda>k. KeyID k = i) K g = Some k \<and> KeyID k = j)"
      by (auto simp: tm_drop_key_def Let_def delete_conv' mt drop_keys_Some)
  qed
qed

lemma drop_keys_twice: "drop_keys P (drop_keys Q K) = drop_keys (\<lambda>k. Q k \<or> P k) K"
  by (auto simp: drop_keys_def split: option.splits)

lemma key_maps_fold:
  assumes "key_maps s K" "K [] = None"
  shows "key_maps (fold tm_drop_key is s) (drop_keys (\<lambda>k. KeyID k \<in> set is) K) \<and> tm_apps (fold tm_drop_key is s) = tm_apps s \<and>
    tm_appKeys (fold tm_drop_key is s) = tm_appKeys s \<and> tm_boards (fold tm_drop_key is s) = tm_boards s"
  using assms
proof (induction "is" arbitrary: s K)
  case Nil
  have "drop_keys (\<lambda>k. False) K = K" by (auto simp: drop_keys_def split: option.splits)
  then show ?case using Nil by simp
next
  case (Cons i "is")
  have "drop_keys (\<lambda>k. KeyID k = i) K [] = None" using Cons.prems(2) by (simp add: drop_keys_def)
  from Cons.IH [OF key_maps_drop [OF Cons.prems] this] show ?case by (simp add: drop_keys_twice)
qed

lemma ran_drop: "ran (drop_keys P K) = {k \<in> ran K. \<not> P k}"
  by (auto simp: ran_def drop_keys_Some)

lemma no_empty_hash: "tenants_ok M \<Longrightarrow> t_keys M [] = None"
  unfolding tenants_ok_def by (metis not_None_eq)

lemma tm_RevokeKey_sim: "sim tm_rel P (map_res TRUnit (tm_RevokeKey app i)) (map_res TRUnit (revoke_spec app i))"
proof (intro sim_map_res simI)
  fix s M
  assume r: "tm_rel s M"
  have mt: "map_of (tm_keyMeta s) j = Some k \<longleftrightarrow> (\<exists>g. t_keys M g = Some k \<and> KeyID k = j)" for j k
    using tm_relD(4) [OF r] by (simp add: key_maps_def)
  show "fst (tm_RevokeKey app i s) = fst (revoke_spec app i M) \<and> tm_rel (snd (tm_RevokeKey app i s)) (snd (revoke_spec app i M))"
  proof (cases "\<exists>k \<in> ran (t_keys M). KeyID k = i \<and> KeyAppID k = app")
    case False
    then have "tm_RevokeKey app i s = (Inl ErrKeyNotFound, s)"
    proof (cases "map_of (tm_keyMeta s) i")
      case (Some k)
      then have "k \<in> ran (t_keys M)" "KeyID k = i" using mt [of i k] by (auto simp: ran_def)
      then show ?thesis using Some False by (auto simp: tm_RevokeKey_def)
    qed (simp add: tm_RevokeKey_def)
    then show ?thesis using False r by (simp add: revoke_spec_def)
  next
    case True
    then obtain h k where k: "t_keys M h = Some k" "KeyID k = i" "KeyAppID k = app" by (auto simp: ran_def)
    let ?K = "drop_keys (\<lambda>k. KeyID k = i) (t_keys M)"
    define s' where "s' = (tm_drop_key i s)\<lparr>tm_appKeys := AList.map_entry app (\<lambda>ks. removeAll i ks) (tm_appKeys s)\<rparr>"
    have "map_of (tm_keyMeta s) i = Some k" using mt k by blast
    then have c: "tm_RevokeKey app i s = (Inr (), s')" using k(3) by (simp add: tm_RevokeKey_def s'_def Let_def)
    have "key_maps s' ?K" using key_maps_drop [OF tm_relD(4) [OF r] no_empty_hash [OF tm_relD(1) [OF r]], of i] by (simp add: key_maps_def s'_def)
    moreover have u: "k' \<in> ran (t_keys M) \<Longrightarrow> KeyID k' = i \<Longrightarrow> k' = k" for k'
      using tm_relD(1) [OF r] k unfolding tenants_ok_def ran_def by (auto, metis option.inject)
    have "set (at_key (tm_appKeys s') [] b) = {KeyID x |x. x \<in> ran ?K \<and> KeyAppID x = b}" for b
      using tm_relD(5) [OF r, of b] u k(3) by (auto simp: s'_def at_key_map_entry ran_drop)
    ultimately have "tm_rel s' (M\<lparr>t_keys := ?K\<rparr>)"
      using tm_relD(2,3,6) [OF r] tenants_ok_drop [OF tm_relD(1) [OF r]] by (simp add: tm_rel_def s'_def)
    then show ?thesis using c True by (simp add: revoke_spec_def)
  qed
qed

lemma board_maps_delete: "board_maps bs B \<Longrightarrow> board_maps (AList.delete app bs) (B(app := Map.empty))"
  by (auto simp: board_maps_def at_key_delete delete_conv' distinct_delete split: if_splits)

lemma tm_DeleteApp_sim: "sim tm_rel P (map_res TRUnit (tm_DeleteApp app)) (map_res TRUnit (delete_app_spec app))"
proof (intro sim_map_res simI)
  fix s M
  assume r: "tm_rel s M"
  show "fst (tm_DeleteApp app s) = fst (delete_app_spec app M) \<and> tm_rel (snd (tm_DeleteApp app s)) (snd (delete_app_spec app M))"
  proof (cases "t_apps M app")
    case None
    then show ?thesis using r tm_relD(2) [OF r] by (simp add: tm_DeleteApp_def delete_app_spec_def)
  next
    case (Some a)
    define ids where "ids = at_key (tm_appKeys s) [] app"
    define s1 where "s1 = fold tm_drop_key ids s"
    define s' where "s' = s1\<lparr>tm_appKeys := AList.delete app (tm_appKeys s1), tm_boards := AList.delete app (tm_boards s1), tm_apps := AList.delete app (tm_apps s1)\<rparr>"
    let ?K = "drop_keys (\<lambda>k. KeyAppID k = app) (t_keys M)"
    have c: "tm_DeleteApp app s = (Inr (), s')" using Some tm_relD(2) [OF r] by (simp add: tm_DeleteApp_def Let_def s'_def s1_def ids_def)
    have inj: "\<And>h k h' k'. t_keys M h = Some k \<Longrightarrow> t_keys M h' = Some k' \<Longrightarrow> KeyID k = KeyID k' \<Longrightarrow> k = k'"
      using tm_relD(1) [OF r] unfolding tenants_ok_def by (metis option.inject)
    have "t_keys M h = Some k \<Longrightarrow> KeyID k \<in> set ids \<longleftrightarrow> KeyAppID k = app" for h k
      unfolding ids_def tm_relD(5) [OF r] using inj by (auto simp: ran_def)
    then have "drop_keys (\<lambda>k. KeyID k \<in> set ids) (t_keys M) = ?K" by (auto simp: drop_keys_def fun_eq_iff split: option.splits)
    then have f: "key_maps s1 ?K" "tm_apps s1 = tm_apps s" "tm_appKeys s1 = tm_appKeys s" "tm_boards s1 = tm_boards s"
      using key_maps_fold [OF tm_relD(4) [OF r] no_empty_hash [OF tm_relD(1) [OF r]], of ids] by (simp_all add: s1_def)
    have ok: "tenants_ok (snd (delete_app_spec app M))" by (rule tenants_ok_delete [OF tm_relD(1) [OF r]])
    have "set (at_key (tm_appKeys s') [] b) = {KeyID x |x. x \<in> ran ?K \<and> KeyAppID x = b}" for b
      using tm_relD(5) [OF r, of b] by (auto simp: s'_def f at_key_delete ran_def drop_keys_Some)
    moreover have "key_maps s' ?K" using f(1) by (simp add: s'_def key_maps_def)
    moreover have "board_maps (tm_boards s') ((t_boards M)(app := Map.empty))"
      using board_maps_delete [OF tm_relD(6) [OF r]] by (simp add: s'_def f)
    ultimately have "tm_rel s' (snd (delete_app_spec app M))"
      using ok tm_relD(2,3) [OF r] Some unfolding tm_rel_def by (simp add: delete_app_spec_def) (simp add: s'_def f delete_conv' distinct_delete)
    then show ?thesis using c Some by (simp add: delete_app_spec_def)
  qed
qed

lemma tm_UpsertBoard_sim: "sim tm_rel (tenant_op_ok (TUpsert lb)) (map_res TRUnit (tm_UpsertBoard lb)) (map_res TRUnit (upsert_spec lb))"
proof (intro sim_map_res simI)
  fix s M
  assume r: "tm_rel s M" and j: "tenant_op_ok (TUpsert lb) M"
  have ok: "tenants_ok (snd (upsert_spec lb M))" using tenants_ok_upsert [OF tm_relD(1) [OF r]] j by simp
  show "fst (tm_UpsertBoard lb s) = fst (upsert_spec lb M) \<and> tm_rel (snd (tm_UpsertBoard lb s)) (snd (upsert_spec lb M))"
  proof (cases "t_apps M (LApp lb)")
    case None
    then show ?thesis using r tm_relD(2) [OF r] by (simp add: tm_UpsertBoard_def upsert_spec_def)
  next
    case (Some a)
    define bs where "bs = AList.update (LApp lb) (AList.update (LBoard lb) lb (at_key (tm_boards s) [] (LApp lb))) (tm_boards s)"
    have "distinct (map fst (at_key (tm_boards s) [] (LApp lb)))"
      using tm_relD(6) [OF r] by (auto simp: board_maps_def at_key_def split: option.splits)
    then have "board_maps bs ((t_boards M)(LApp lb := (t_boards M (LApp lb))(LBoard lb \<mapsto> lb)))"
      using tm_relD(6) [OF r] by (auto simp: board_maps_def bs_def at_key_update update_conv' distinct_update split: if_splits)
    then have "tm_rel (s\<lparr>tm_boards := bs\<rparr>) (snd (upsert_spec lb M))"
      using ok tm_relD [OF r] Some by (simp add: tm_rel_def upsert_spec_def key_maps_def)
    then show ?thesis using Some tm_relD(2) [OF r] by (simp add: tm_UpsertBoard_def upsert_spec_def bs_def)
  qed
qed

interpretation tm: tenant_store tenancy_mem tm_rel
proof
  fix op
  show "sim tm_rel (tenant_op_ok op) (tenant_exec tenancy_mem op) (tenant_spec op)"
    by (cases op)
      (simp_all only: tenancy_mem_def tenant_exec.simps tenancy_Store.simps tenant_spec_ops tm_CreateApp_sim tm_IssueKey_sim tm_GetApp_sim tm_ListApps_sim tm_AuthKey_sim tm_AppByKey_sim tm_ListKeys_sim
        tm_RevokeKey_sim tm_DeleteApp_sim tm_UpsertBoard_sim tm_GetBoard_sim tm_ListBoards_sim tm_AllBoards_sim
        tm_SetRequireSigning_def tm_SetRequirePlayerTokens_def tm_RotateSigningKey_def tm_change_sim settings_keep)
qed (rule tm_relD(1))

end
