(* ===== verification/Tenancy_Redis.thy ===== *)
theory Tenancy_Redis
  imports Tenancy Redis_KV
begin

text \<open>
  The Redis store of the control plane, \<open>pkg/tenancy/redisstore.go\<close>: every app, key and board under
  a key of its own, with sets as indexes, written in transactions. It simulates the same
  specification as the in-memory store. The values are strings and JSON texts; each family of keys
  holds one kind of them.
\<close>

subsection \<open>Keys and values\<close>

definition appKey :: "string \<Rightarrow> string" where
  "appKey x = ''ten:app:'' @ x"

definition apiKeyKey :: "string \<Rightarrow> string" where
  "apiKeyKey x = ''ten:key:'' @ x"

definition boardSetKey :: "string \<Rightarrow> string" where
  "boardSetKey x = ''ten:boards:'' @ x"

definition ownerAppsKey :: "string \<Rightarrow> string" where
  "ownerAppsKey x = ''ten:owner:'' @ x"

definition keyMetaKey :: "string \<Rightarrow> string" where
  "keyMetaKey x = ''ten:keymeta:'' @ x"

definition keyScopeKey :: "string \<Rightarrow> string" where
  "keyScopeKey x = ''ten:keyscope:'' @ x"

definition keyHashKey :: "string \<Rightarrow> string" where
  "keyHashKey x = ''ten:keyhash:'' @ x"

definition appKeysKey :: "string \<Rightarrow> string" where
  "appKeysKey x = ''ten:appkeys:'' @ x"

definition boardKey :: "string \<Rightarrow> string \<Rightarrow> string" where
  "boardKey app b = ''ten:board:'' @ app @ '':'' @ b"

definition appSetKey :: string where
  "appSetKey = ''ten:apps''"

datatype tval = TStr string | TApp "TenantApp json" | TKey "APIKey json" | TBoard "LogicalBoard json"

text \<open>A string read with \<open>Result()\<close>; the families the program reads so hold no JSON.\<close>

fun text_of :: "tval \<Rightarrow> string" where
  "text_of (TStr s) = s"
| "text_of _ = []"

text \<open>The error of \<open>json.Marshal\<close> is dropped for apps and keys: what is stored then is no JSON text.\<close>

definition marshal_app :: "TenantApp \<Rightarrow> tval" where
  "marshal_app a = TApp (if json_year (AppCreatedAt a)
     then JSON (a\<lparr>AppID := to_utf8 (AppID a), AppName := to_utf8 (AppName a), OwnerUserID := to_utf8 (OwnerUserID a)\<rparr>) else NotJSON)"

definition marshal_key :: "APIKey \<Rightarrow> tval" where
  "marshal_key k = TKey (if json_year (KeyCreatedAt k)
     then JSON (k\<lparr>KeyID := to_utf8 (KeyID k), KeyAppID := to_utf8 (KeyAppID k), Prefix := to_utf8 (Prefix k), Scope := to_utf8 (Scope k)\<rparr>) else NotJSON)"

definition marshal_board :: "LogicalBoard \<Rightarrow> err + tval" where
  "marshal_board lb = (if json_year (Epoch (LConfig lb))
     then Inr (TBoard (JSON \<lparr>LApp = to_utf8 (LApp lb), LBoard = to_utf8 (LBoard lb),
       LConfig = (LConfig lb)\<lparr>SortOrder := to_utf8 (SortOrder (LConfig lb)), UpdatePolicy := to_utf8 (UpdatePolicy (LConfig lb)), TieBreak := to_utf8 (TieBreak (LConfig lb))\<rparr>,
       Windows = map (\<lambda>w. \<lparr>Kind = to_utf8 (Kind w), CustomID = to_utf8 (CustomID w)\<rparr>) (Windows lb)\<rparr>))
     else Inl ErrBadRecord)"

fun unmarshal_app :: "tval \<Rightarrow> err + TenantApp" where
  "unmarshal_app (TApp (JSON a)) = Inr a"
| "unmarshal_app _ = Inl ErrBadRecord"

fun unmarshal_key :: "tval \<Rightarrow> err + APIKey" where
  "unmarshal_key (TKey (JSON k)) = Inr k"
| "unmarshal_key _ = Inl ErrBadRecord"

fun unmarshal_board :: "tval \<Rightarrow> err + LogicalBoard" where
  "unmarshal_board (TBoard (JSON lb)) = Inr lb"
| "unmarshal_board _ = Inl ErrBadRecord"

subsection \<open>Queued writes\<close>

datatype wcmd = WSet string tval | WSadd string string | WSrem string string | WDel string

fun w_run :: "('s, tval) kv \<Rightarrow> wcmd \<Rightarrow> 's \<Rightarrow> err option \<times> 's" where
  "w_run C (WSet k v) = cmd_err (SET C k v 0)"
| "w_run C (WSadd k x) = cmd_err (SADD C k x)"
| "w_run C (WSrem k x) = cmd_err (SREM C k x)"
| "w_run C (WDel k) = cmd_err (KDEL C k)"

definition tx :: "('s, tval) kv \<Rightarrow> wcmd list \<Rightarrow> ('s, unit) io" where
  "tx C ws = tx_exec (map (w_run C) ws)"

subsection \<open>The operations\<close>

definition tr_GetApp :: "('s, tval) kv \<Rightarrow> string \<Rightarrow> ('s, TenantApp) io" where
  "tr_GetApp C i = io_bind (io_catch_nil (io_cmd (GET C (appKey i))) (io_fail ErrAppNotFound)) (\<lambda>data. io_lift (unmarshal_app data))"

definition tr_IssueKey :: "('s, tval) kv \<Rightarrow> string \<Rightarrow> string \<Rightarrow> err + string \<Rightarrow> err + string \<Rightarrow> gotime \<Rightarrow> ('s, string \<times> APIKey) io" where
  "tr_IssueKey C appID scope rkey rid now =
     io_bind (tr_GetApp C appID) (\<lambda>_.
     io_bind (io_lift (newAPIKey rkey)) (\<lambda>(plain, hash).
     io_bind (io_lift (newID ''key_'' rid)) (\<lambda>keyID.
     let k = \<lparr>KeyID = keyID, KeyAppID = appID, Prefix = keyPrefix plain, Scope = normScope scope, KeyCreatedAt = now\<rparr> in
     io_bind (tx C (WSet (apiKeyKey hash) (TStr appID) #
       (if Scope k = ScopePublishable then [WSet (keyScopeKey hash) (TStr ScopePublishable)] else []) @
       [WSet (keyMetaKey keyID) (marshal_key k), WSet (keyHashKey keyID) (TStr hash), WSadd (appKeysKey appID) keyID])) (\<lambda>_.
     io_ret (plain, k)))))"

definition tr_CreateApp :: "('s, tval) kv \<Rightarrow> string \<Rightarrow> string \<Rightarrow> err + string \<Rightarrow> err + string \<Rightarrow> err + string \<Rightarrow> gotime \<Rightarrow> ('s, TenantApp \<times> string) io" where
  "tr_CreateApp C ownerUserID name ra rkey rid now =
     io_bind (io_lift (newID ''app_'' ra)) (\<lambda>i.
     let app = \<lparr>AppID = i, AppName = name, OwnerUserID = ownerUserID, AppCreatedAt = now, RequireSigning = False,
                RequirePlayerTokens = False, SigningKeyVersion = 1\<rparr> in
     io_bind (tx C ([WSet (appKey i) (marshal_app app), WSadd appSetKey i] @
       (if ownerUserID \<noteq> [] then [WSadd (ownerAppsKey ownerUserID) i] else []))) (\<lambda>_.
     io_bind (tr_IssueKey C i ScopeSecret rkey rid now) (\<lambda>(plain, _). io_ret (app, plain))))"

text \<open>A loop that collects results and skips the elements for which the body yields nothing.\<close>

definition io_collect :: "('a \<Rightarrow> ('s, 'b option) io) \<Rightarrow> 'a list \<Rightarrow> ('s, 'b list) io" where
  "io_collect f xs = io_bind (io_map f xs) (\<lambda>ys. io_ret (List.map_filter (\<lambda>y. y) ys))"

definition tr_ListKeys :: "('s, tval) kv \<Rightarrow> string \<Rightarrow> ('s, APIKey list) io" where
  "tr_ListKeys C appID =
     io_bind (io_cmd (SMEMBERS C (appKeysKey appID))) (\<lambda>ids.
     io_collect (\<lambda>kid. io_catch_nil
       (io_bind (io_cmd (GET C (keyMetaKey kid))) (\<lambda>data. io_bind (io_lift (unmarshal_key data)) (\<lambda>k.
          io_ret (Some (k\<lparr>Scope := normScope (Scope k)\<rparr>))))) (io_ret None)) ids)"

definition tr_RevokeKey :: "('s, tval) kv \<Rightarrow> string \<Rightarrow> string \<Rightarrow> ('s, unit) io" where
  "tr_RevokeKey C appID keyID =
     io_bind (io_catch_nil (io_cmd (GET C (keyMetaKey keyID))) (io_fail ErrKeyNotFound)) (\<lambda>data.
     io_bind (io_lift (unmarshal_key data)) (\<lambda>k.
     if KeyAppID k \<noteq> appID then io_fail ErrKeyNotFound else
     io_bind (io_catch_nil (io_bind (io_cmd (GET C (keyHashKey keyID))) (\<lambda>v. io_ret (text_of v))) (io_ret [])) (\<lambda>hash.
     tx C ((if hash \<noteq> [] then [WDel (apiKeyKey hash), WDel (keyScopeKey hash)] else []) @
       [WDel (keyMetaKey keyID), WDel (keyHashKey keyID), WSrem (appKeysKey appID) keyID]))))"

text \<open>The loop that revokes the keys of an app drops the errors.\<close>

fun revoke_all :: "('s, tval) kv \<Rightarrow> string \<Rightarrow> string list \<Rightarrow> 's \<Rightarrow> 's" where
  "revoke_all C appID [] s = s"
| "revoke_all C appID (kid # kids) s = revoke_all C appID kids (snd (tr_RevokeKey C appID kid s))"

definition tr_DeleteApp :: "('s, tval) kv \<Rightarrow> string \<Rightarrow> ('s, unit) io" where
  "tr_DeleteApp C appID =
     io_bind (tr_GetApp C appID) (\<lambda>app.
     io_bind (io_cmd (SMEMBERS C (appKeysKey appID))) (\<lambda>keyIDs.
     io_bind (\<lambda>s. (Inr (), revoke_all C appID keyIDs s)) (\<lambda>_.
     io_bind (io_cmd (SMEMBERS C (boardSetKey appID))) (\<lambda>boardIDs.
     tx C (map (\<lambda>b. WDel (boardKey appID b)) boardIDs @
       [WDel (boardSetKey appID), WDel (appKeysKey appID), WDel (appKey appID), WSrem appSetKey appID] @
       (if OwnerUserID app \<noteq> [] then [WSrem (ownerAppsKey (OwnerUserID app)) appID] else []))))))"

text \<open>\<open>err == ErrAppNotFound\<close> and \<open>err == ErrBoardNotFound\<close> skip the element.\<close>

definition skip_if :: "err \<Rightarrow> ('s, 'a) io \<Rightarrow> ('s, 'a option) io" where
  "skip_if e m = (\<lambda>s. case m s of (Inl e', s') \<Rightarrow> if e' = e then (Inr None, s') else (Inl e', s') | (Inr a, s') \<Rightarrow> (Inr (Some a), s'))"

definition tr_ListApps :: "('s, tval) kv \<Rightarrow> string \<Rightarrow> ('s, TenantApp list) io" where
  "tr_ListApps C ownerUserID =
     io_bind (io_cmd (SMEMBERS C (ownerAppsKey ownerUserID))) (\<lambda>ids. io_collect (\<lambda>i. skip_if ErrAppNotFound (tr_GetApp C i)) ids)"

definition mutateApp :: "('s, tval) kv \<Rightarrow> string \<Rightarrow> (TenantApp \<Rightarrow> TenantApp) \<Rightarrow> ('s, TenantApp) io" where
  "mutateApp C appID f =
     io_bind (tr_GetApp C appID) (\<lambda>app.
     io_bind (io_cmd (SET C (appKey appID) (marshal_app (f app)) 0)) (\<lambda>_. io_ret (f app)))"

definition tr_SetRequirePlayerTokens :: "('s, tval) kv \<Rightarrow> string \<Rightarrow> bool \<Rightarrow> ('s, TenantApp) io" where
  "tr_SetRequirePlayerTokens C appID req = mutateApp C appID (with_tokens req)"

definition tr_SetRequireSigning :: "('s, tval) kv \<Rightarrow> string \<Rightarrow> bool \<Rightarrow> ('s, TenantApp) io" where
  "tr_SetRequireSigning C appID req = mutateApp C appID (with_signing req)"

definition tr_RotateSigningKey :: "('s, tval) kv \<Rightarrow> string \<Rightarrow> ('s, TenantApp) io" where
  "tr_RotateSigningKey C appID = mutateApp C appID rotated"

definition tr_AuthKey :: "('s, tval) kv \<Rightarrow> string \<Rightarrow> ('s, TenantApp \<times> string) io" where
  "tr_AuthKey C plaintextKey =
     (let h = hashKey plaintextKey in
      io_bind (io_catch_nil (io_cmd (GET C (apiKeyKey h))) (io_fail ErrInvalidKey)) (\<lambda>i.
      io_bind (io_catch_nil (io_bind (io_cmd (GET C (keyScopeKey h))) (\<lambda>sc. io_ret (normScope (text_of sc)))) (io_ret ScopeSecret)) (\<lambda>scope.
      io_bind (tr_GetApp C (text_of i)) (\<lambda>app. io_ret (app, scope)))))"

definition tr_AppByKey :: "('s, tval) kv \<Rightarrow> string \<Rightarrow> ('s, TenantApp) io" where
  "tr_AppByKey C plaintextKey = io_bind (tr_AuthKey C plaintextKey) (\<lambda>(app, _). io_ret app)"

definition tr_UpsertBoard :: "('s, tval) kv \<Rightarrow> LogicalBoard \<Rightarrow> ('s, unit) io" where
  "tr_UpsertBoard C lb =
     io_bind (tr_GetApp C (LApp lb)) (\<lambda>_.
     io_bind (io_lift (marshal_board lb)) (\<lambda>data.
     tx C [WSet (boardKey (LApp lb) (LBoard lb)) data, WSadd (boardSetKey (LApp lb)) (LBoard lb)]))"

definition tr_GetBoard :: "('s, tval) kv \<Rightarrow> string \<Rightarrow> string \<Rightarrow> ('s, LogicalBoard) io" where
  "tr_GetBoard C app board =
     io_bind (io_catch_nil (io_cmd (GET C (boardKey app board))) (io_fail ErrBoardNotFound)) (\<lambda>data. io_lift (unmarshal_board data))"

definition tr_ListBoards :: "('s, tval) kv \<Rightarrow> string \<Rightarrow> ('s, LogicalBoard list) io" where
  "tr_ListBoards C app =
     io_bind (io_cmd (SMEMBERS C (boardSetKey app))) (\<lambda>ids. io_collect (\<lambda>b. skip_if ErrBoardNotFound (tr_GetBoard C app b)) ids)"

definition tr_AllBoards :: "('s, tval) kv \<Rightarrow> ('s, LogicalBoard list) io" where
  "tr_AllBoards C =
     io_bind (io_cmd (SMEMBERS C appSetKey)) (\<lambda>ids. io_bind (io_map (tr_ListBoards C) ids) (\<lambda>bs. io_ret (concat bs)))"

definition tenancy_redis :: "('s, tval) kv \<Rightarrow> 's tenancy_Store" where
  "tenancy_redis C = \<lparr>ts_CreateApp = tr_CreateApp C, ts_GetApp = tr_GetApp C, ts_ListApps = tr_ListApps C, ts_AppByKey = tr_AppByKey C,
     ts_IssueKey = tr_IssueKey C, ts_AuthKey = tr_AuthKey C, ts_ListKeys = tr_ListKeys C, ts_RevokeKey = tr_RevokeKey C,
     ts_DeleteApp = tr_DeleteApp C, ts_SetRequireSigning = tr_SetRequireSigning C, ts_SetRequirePlayerTokens = tr_SetRequirePlayerTokens C,
     ts_RotateSigningKey = tr_RotateSigningKey C, ts_UpsertBoard = tr_UpsertBoard C, ts_GetBoard = tr_GetBoard C,
     ts_ListBoards = tr_ListBoards C, ts_AllBoards = tr_AllBoards C\<rparr>"

subsection \<open>Facts on keys and commands\<close>

lemma ten_keys [simp]:
  "appKey x \<noteq> apiKeyKey y" "appKey x \<noteq> boardSetKey y" "appKey x \<noteq> ownerAppsKey y"
  "appKey x \<noteq> keyMetaKey y" "appKey x \<noteq> keyScopeKey y" "appKey x \<noteq> keyHashKey y"
  "appKey x \<noteq> appKeysKey y" "appKey x \<noteq> boardKey y yb" "appKey x \<noteq> appSetKey"
  "apiKeyKey x \<noteq> appKey y" "apiKeyKey x \<noteq> boardSetKey y" "apiKeyKey x \<noteq> ownerAppsKey y"
  "apiKeyKey x \<noteq> keyMetaKey y" "apiKeyKey x \<noteq> keyScopeKey y" "apiKeyKey x \<noteq> keyHashKey y"
  "apiKeyKey x \<noteq> appKeysKey y" "apiKeyKey x \<noteq> boardKey y yb" "apiKeyKey x \<noteq> appSetKey"
  "boardSetKey x \<noteq> appKey y" "boardSetKey x \<noteq> apiKeyKey y" "boardSetKey x \<noteq> ownerAppsKey y"
  "boardSetKey x \<noteq> keyMetaKey y" "boardSetKey x \<noteq> keyScopeKey y" "boardSetKey x \<noteq> keyHashKey y"
  "boardSetKey x \<noteq> appKeysKey y" "boardSetKey x \<noteq> boardKey y yb" "boardSetKey x \<noteq> appSetKey"
  "ownerAppsKey x \<noteq> appKey y" "ownerAppsKey x \<noteq> apiKeyKey y" "ownerAppsKey x \<noteq> boardSetKey y"
  "ownerAppsKey x \<noteq> keyMetaKey y" "ownerAppsKey x \<noteq> keyScopeKey y" "ownerAppsKey x \<noteq> keyHashKey y"
  "ownerAppsKey x \<noteq> appKeysKey y" "ownerAppsKey x \<noteq> boardKey y yb" "ownerAppsKey x \<noteq> appSetKey"
  "keyMetaKey x \<noteq> appKey y" "keyMetaKey x \<noteq> apiKeyKey y" "keyMetaKey x \<noteq> boardSetKey y"
  "keyMetaKey x \<noteq> ownerAppsKey y" "keyMetaKey x \<noteq> keyScopeKey y" "keyMetaKey x \<noteq> keyHashKey y"
  "keyMetaKey x \<noteq> appKeysKey y" "keyMetaKey x \<noteq> boardKey y yb" "keyMetaKey x \<noteq> appSetKey"
  "keyScopeKey x \<noteq> appKey y" "keyScopeKey x \<noteq> apiKeyKey y" "keyScopeKey x \<noteq> boardSetKey y"
  "keyScopeKey x \<noteq> ownerAppsKey y" "keyScopeKey x \<noteq> keyMetaKey y" "keyScopeKey x \<noteq> keyHashKey y"
  "keyScopeKey x \<noteq> appKeysKey y" "keyScopeKey x \<noteq> boardKey y yb" "keyScopeKey x \<noteq> appSetKey"
  "keyHashKey x \<noteq> appKey y" "keyHashKey x \<noteq> apiKeyKey y" "keyHashKey x \<noteq> boardSetKey y"
  "keyHashKey x \<noteq> ownerAppsKey y" "keyHashKey x \<noteq> keyMetaKey y" "keyHashKey x \<noteq> keyScopeKey y"
  "keyHashKey x \<noteq> appKeysKey y" "keyHashKey x \<noteq> boardKey y yb" "keyHashKey x \<noteq> appSetKey"
  "appKeysKey x \<noteq> appKey y" "appKeysKey x \<noteq> apiKeyKey y" "appKeysKey x \<noteq> boardSetKey y"
  "appKeysKey x \<noteq> ownerAppsKey y" "appKeysKey x \<noteq> keyMetaKey y" "appKeysKey x \<noteq> keyScopeKey y"
  "appKeysKey x \<noteq> keyHashKey y" "appKeysKey x \<noteq> boardKey y yb" "appKeysKey x \<noteq> appSetKey"
  "boardKey x xb \<noteq> appKey y" "boardKey x xb \<noteq> apiKeyKey y" "boardKey x xb \<noteq> boardSetKey y"
  "boardKey x xb \<noteq> ownerAppsKey y" "boardKey x xb \<noteq> keyMetaKey y" "boardKey x xb \<noteq> keyScopeKey y"
  "boardKey x xb \<noteq> keyHashKey y" "boardKey x xb \<noteq> appKeysKey y" "boardKey x xb \<noteq> appSetKey"
  "appSetKey \<noteq> appKey y" "appSetKey \<noteq> apiKeyKey y" "appSetKey \<noteq> boardSetKey y"
  "appSetKey \<noteq> ownerAppsKey y" "appSetKey \<noteq> keyMetaKey y" "appSetKey \<noteq> keyScopeKey y"
  "appSetKey \<noteq> keyHashKey y" "appSetKey \<noteq> appKeysKey y" "appSetKey \<noteq> boardKey y yb"
  "appKey x = appKey y \<longleftrightarrow> x = y" "apiKeyKey x = apiKeyKey y \<longleftrightarrow> x = y" "boardSetKey x = boardSetKey y \<longleftrightarrow> x = y"
  "ownerAppsKey x = ownerAppsKey y \<longleftrightarrow> x = y" "keyMetaKey x = keyMetaKey y \<longleftrightarrow> x = y" "keyScopeKey x = keyScopeKey y \<longleftrightarrow> x = y"
  "keyHashKey x = keyHashKey y \<longleftrightarrow> x = y" "appKeysKey x = appKeysKey y \<longleftrightarrow> x = y"
  by (simp_all add: appKey_def apiKeyKey_def boardSetKey_def ownerAppsKey_def keyMetaKey_def keyScopeKey_def keyHashKey_def appKeysKey_def boardKey_def appSetKey_def)

lemma boardKey_inject [simp]: "colon_free a \<Longrightarrow> colon_free c \<Longrightarrow> boardKey a b = boardKey c d \<longleftrightarrow> a = c \<and> b = d"
  by (simp add: boardKey_def colon_free_def append_sep_inject)

text \<open>The effect of queued writes on the keyspace.\<close>

fun the_set :: "'v kview \<Rightarrow> string set" where
  "the_set (VSet A) = A"
| "the_set _ = {}"

definition set_like :: "'v kview \<Rightarrow> bool" where
  "set_like v \<longleftrightarrow> v = set_view (the_set v)"

fun w_eff :: "wcmd \<Rightarrow> (string \<Rightarrow> tval kview) \<Rightarrow> string \<Rightarrow> tval kview" where
  "w_eff (WSet k v) f = f(k := VStr v)"
| "w_eff (WSadd k x) f = f(k := set_view (insert x (the_set (f k))))"
| "w_eff (WSrem k x) f = f(k := set_view (the_set (f k) - {x}))"
| "w_eff (WDel k) f = f(k := VNone)"

fun w_ok :: "wcmd \<Rightarrow> (string \<Rightarrow> tval kview) \<Rightarrow> bool" where
  "w_ok (WSadd k x) f = set_like (f k)"
| "w_ok (WSrem k x) f = set_like (f k)"
| "w_ok _ f = True"

fun ws_ok :: "wcmd list \<Rightarrow> (string \<Rightarrow> tval kview) \<Rightarrow> bool" where
  "ws_ok [] f = True"
| "ws_ok (w # ws) f = (w_ok w f \<and> ws_ok ws (w_eff w f))"

lemma the_set_view [simp]: "the_set (set_view A) = A" "set_like (set_view A)"
  by (simp_all add: set_view_def set_like_def)

lemma the_set_None [simp]: "the_set VNone = {}" "set_like VNone"
  by (simp_all add: set_like_def set_view_def)

locale redis_tenants = redis_kv C kks for C :: "('s, tval) kv" and kks :: "'s \<Rightarrow> string \<Rightarrow> tval kview"
begin

lemma w_run_eff:
  assumes "w_ok w (kks s)"
  shows "\<exists>s'. w_run C w s = (None, s') \<and> kks s' = w_eff w (kks s)"
proof (cases w)
  case (WSet k v)
  then show ?thesis using SET [of k v 0 s] by (auto simp: cmd_err_def split: prod.splits)
next
  case (WSadd k x)
  then have v: "kks s k = set_view (the_set (kks s k))" using assms by (simp add: set_like_def)
  from SADD(1) [OF v, of x] SADD(2) [OF v, of x] WSadd show ?thesis by (auto simp: cmd_err_def split: prod.splits)
next
  case (WSrem k x)
  then have v: "kks s k = set_view (the_set (kks s k))" using assms by (simp add: set_like_def)
  from SREM(1) [OF v, of x] SREM(2) [OF v, of x] WSrem show ?thesis by (auto simp: cmd_err_def split: prod.splits)
next
  case (WDel k)
  then show ?thesis using KDEL [of k s] by (auto simp: cmd_err_def split: prod.splits)
qed

lemma tx_eff:
  assumes "ws_ok ws (kks s)"
  shows "\<exists>s'. tx C ws s = (Inr (), s') \<and> kks s' = fold w_eff ws (kks s)"
  using assms
proof (induction ws arbitrary: s)
  case Nil
  then show ?case by (simp add: tx_def tx_exec_Nil)
next
  case (Cons w ws)
  then obtain s1 where s1: "w_run C w s = (None, s1)" "kks s1 = w_eff w (kks s)" using w_run_eff by fastforce
  have "ws_ok ws (kks s1)" using Cons.prems s1(2) by simp
  from Cons.IH [OF this] obtain s2 where "tx C ws s1 = (Inr (), s2)" "kks s2 = fold w_eff ws (kks s1)" by blast
  moreover have "tx C (w # ws) s = tx C ws s1" using s1(1) by (auto simp: tx_def tx_exec_def split: prod.splits)
  ultimately show ?case using s1(2) by simp
qed

end

subsection \<open>What the keys hold\<close>

definition scope_view :: "APIKey option \<Rightarrow> tval kview" where
  "scope_view k = (case k of None \<Rightarrow> VNone | Some k \<Rightarrow> if Scope k = ScopePublishable then VStr (TStr ScopePublishable) else VNone)"

definition ids_of :: "(string \<Rightarrow> APIKey option) \<Rightarrow> string \<Rightarrow> string set" where
  "ids_of K app = {KeyID k |k. k \<in> ran K \<and> KeyAppID k = app}"

definition owned :: "(string \<Rightarrow> TenantApp option) \<Rightarrow> string \<Rightarrow> string set" where
  "owned A u = {i. \<exists>a. A i = Some a \<and> OwnerUserID a = u}"

definition holds_keys :: "(string \<Rightarrow> tval kview) \<Rightarrow> (string \<Rightarrow> APIKey option) \<Rightarrow> bool" where
  "holds_keys f K \<longleftrightarrow>
     (\<forall>h. f (apiKeyKey h) = opt_view (map_option (TStr \<circ> KeyAppID) (K h))) \<and> (\<forall>h. f (keyScopeKey h) = scope_view (K h)) \<and>
     (\<forall>h k. K h = Some k \<longrightarrow> f (keyMetaKey (KeyID k)) = VStr (TKey (JSON k)) \<and> f (keyHashKey (KeyID k)) = VStr (TStr h)) \<and>
     (\<forall>i. (\<forall>k \<in> ran K. KeyID k \<noteq> i) \<longrightarrow> f (keyMetaKey i) = VNone \<and> f (keyHashKey i) = VNone) \<and>
     (\<forall>app. f (appKeysKey app) = set_view (ids_of K app))"

definition holds_apps :: "(string \<Rightarrow> tval kview) \<Rightarrow> (string \<Rightarrow> TenantApp option) \<Rightarrow> bool" where
  "holds_apps f A \<longleftrightarrow> (\<forall>i. f (appKey i) = opt_view (map_option (TApp \<circ> JSON) (A i))) \<and> f appSetKey = set_view (dom A) \<and>
     (\<forall>u. u \<noteq> [] \<longrightarrow> f (ownerAppsKey u) = set_view (owned A u))"

definition holds_boards :: "(string \<Rightarrow> tval kview) \<Rightarrow> (string \<Rightarrow> string \<Rightarrow> LogicalBoard option) \<Rightarrow> bool" where
  "holds_boards f B \<longleftrightarrow> (\<forall>app b. colon_free app \<longrightarrow> f (boardKey app b) = opt_view (map_option (TBoard \<circ> JSON) (B app b))) \<and>
     (\<forall>app. f (boardSetKey app) = set_view (dom (B app)))"

definition tr_rel :: "('s \<Rightarrow> string \<Rightarrow> tval kview) \<Rightarrow> 's \<Rightarrow> tenants \<Rightarrow> bool" where
  "tr_rel kks s M \<longleftrightarrow> tenants_ok M \<and> holds_apps (kks s) (t_apps M) \<and> holds_keys (kks s) (t_keys M) \<and> holds_boards (kks s) (t_boards M)"

lemma marshal_tenant_ok: "app_json a \<Longrightarrow> marshal_app a = TApp (JSON a)" "key_json k \<Longrightarrow> marshal_key k = TKey (JSON k)"
  by (simp_all add: marshal_app_def marshal_key_def app_json_def key_json_def utf8_def)

lemma marshal_board_ok: "board_json lb \<Longrightarrow> marshal_board lb = Inr (TBoard (JSON lb))"
proof -
  assume j: "board_json lb"
  have "map (\<lambda>w. \<lparr>Kind = to_utf8 (Kind w), CustomID = to_utf8 (CustomID w)\<rparr>) (Windows lb) = Windows lb"
    using j by (intro map_idI) (auto simp: board_json_def list_all_iff utf8_def)
  then show ?thesis using j by (simp add: marshal_board_def board_json_def utf8_def)
qed

lemma tr_relD:
  assumes "tr_rel kks s M"
  shows "tenants_ok M" "kks s (appKey i) = opt_view (map_option (TApp \<circ> JSON) (t_apps M i))" "kks s appSetKey = set_view (dom (t_apps M))"
    "u \<noteq> [] \<Longrightarrow> kks s (ownerAppsKey u) = set_view (owned (t_apps M) u)"
    "kks s (apiKeyKey h) = opt_view (map_option (TStr \<circ> KeyAppID) (t_keys M h))" "kks s (keyScopeKey h) = scope_view (t_keys M h)"
    "kks s (appKeysKey app) = set_view (ids_of (t_keys M) app)"
    "colon_free app \<Longrightarrow> kks s (boardKey app b) = opt_view (map_option (TBoard \<circ> JSON) (t_boards M app b))"
    "kks s (boardSetKey app) = set_view (dom (t_boards M app))"
  using assms by (auto simp: tr_rel_def holds_apps_def holds_keys_def holds_boards_def)

lemma tr_rel_meta:
  assumes "tr_rel kks s M"
  shows "t_keys M h = Some k \<Longrightarrow> kks s (keyMetaKey (KeyID k)) = VStr (TKey (JSON k))" "t_keys M h = Some k \<Longrightarrow> kks s (keyHashKey (KeyID k)) = VStr (TStr h)"
    "\<forall>k \<in> ran (t_keys M). KeyID k \<noteq> i \<Longrightarrow> kks s (keyMetaKey i) = VNone"
  using assms by (auto simp: tr_rel_def holds_keys_def)

lemma tr_rel_start: "\<forall>k. kks s k = VNone \<Longrightarrow> tr_rel kks s no_tenants"
  by (auto simp: tr_rel_def holds_apps_def holds_keys_def holds_boards_def no_tenants_def tenants_ok_def scope_view_def ids_of_def owned_def
    set_view_def)

lemma io_collect_read:
  assumes "\<And>x. x \<in> set xs \<Longrightarrow> f x s = (Inr (g x), s)"
  shows "io_collect f xs s = (Inr (List.map_filter g xs), s)"
proof -
  have "io_map f xs s = (Inr (map g xs), s)" using assms by (induction xs) (auto simp: io_simps)
  then show ?thesis by (simp add: io_collect_def io_simps List.map_filter_def filter_map comp_def)
qed

subsection \<open>The operations simulate the specification\<close>

context redis_tenants
begin

lemma tr_GetApp_correct: "tr_rel kks s M \<Longrightarrow> tr_GetApp C i s = ((case t_apps M i of None \<Rightarrow> Inl ErrAppNotFound | Some a \<Rightarrow> Inr a), s)"
  using GET [of s "appKey i"] tr_relD(2) [of kks s M i] by (cases "t_apps M i") (simp_all add: tr_GetApp_def io_simps)

lemma tr_GetApp_sim: "sim (tr_rel kks) P (map_res TRApp (tr_GetApp C app)) (tenant_spec (TGetApp app))"
  by (rule simI) (simp add: tr_GetApp_correct)

lemma tr_AuthKey_correct: "tr_rel kks s M \<Longrightarrow> tr_AuthKey C plain s = (fst (auth_key_spec plain M), s)"
proof -
  assume r: "tr_rel kks s M"
  define h where "h = hashKey plain"
  show ?thesis
  proof (cases "t_keys M h")
    case None
    then show ?thesis using GET(1) [of s "apiKeyKey h"] tr_relD(5) [OF r, of h]
      by (simp add: tr_AuthKey_def io_simps Let_def auth_key_spec_def h_def)
  next
    case (Some k)
    then obtain a where a: "t_apps M (KeyAppID k) = Some a" using tr_relD(1) [OF r] unfolding tenants_ok_def by blast
    have sc: "Scope k = ScopeSecret \<or> Scope k = ScopePublishable" using tr_relD(1) [OF r] Some unfolding tenants_ok_def by blast
    have g: "GET C (apiKeyKey h) s = (Reply (TStr (KeyAppID k)), s)" using GET(2) [of s "apiKeyKey h"] tr_relD(5) [OF r, of h] Some by simp
    have "io_catch_nil (io_bind (io_cmd (GET C (keyScopeKey h))) (\<lambda>sc. io_ret (normScope (text_of sc)))) (io_ret ScopeSecret) s = (Inr (Scope k), s)"
    proof (cases "Scope k = ScopePublishable")
      case True
      then show ?thesis using GET(2) [of s "keyScopeKey h"] tr_relD(6) [OF r, of h] Some
        by (simp add: io_simps scope_view_def normScope_def ScopePublishable_def)
    next
      case False
      then show ?thesis using GET(1) [of s "keyScopeKey h"] tr_relD(6) [OF r, of h] Some sc by (simp add: io_simps scope_view_def)
    qed
    then show ?thesis using g a Some tr_GetApp_correct [OF r, of "KeyAppID k"]
      by (simp add: tr_AuthKey_def io_bind_def io_cmd_def io_catch_nil_def io_ret_def Let_def auth_key_spec_def h_def [symmetric])
  qed
qed

lemma tr_AuthKey_sim: "sim (tr_rel kks) P (map_res TRAppKey (tr_AuthKey C plain)) (tenant_spec (TAuthKey plain))"
  by (rule simI) (simp add: tr_AuthKey_correct, simp add: auth_key_spec_def)

lemma tr_AppByKey_sim: "sim (tr_rel kks) P (map_res TRApp (tr_AppByKey C plain)) (tenant_spec (TAppByKey plain))"
proof (rule simI)
  fix s M
  assume r: "tr_rel kks s M"
  show "fst (map_res TRApp (tr_AppByKey C plain) s) = fst (tenant_spec (TAppByKey plain) M) \<and>
    tr_rel kks (snd (map_res TRApp (tr_AppByKey C plain) s)) (snd (tenant_spec (TAppByKey plain) M))"
    using r tr_AuthKey_correct [OF r, of plain]
    by (cases "t_keys M (hashKey plain)") (simp_all add: tr_AppByKey_def io_simps auth_key_spec_def)
qed

lemma tr_ListApps_sim: "sim (tr_rel kks) (tenant_op_ok (TListApps owner)) (map_res (TRApps \<circ> as_set) (tr_ListApps C owner)) (tenant_spec (TListApps owner))"
proof (rule simI)
  fix s M
  assume r: "tr_rel kks s M" and o: "tenant_op_ok (TListApps owner) M"
  obtain ids where i: "SMEMBERS C (ownerAppsKey owner) s = (Reply ids, s)" "set ids = owned (t_apps M) owner"
    using SMEMBERS [OF tr_relD(4) [OF r]] o unfolding tenant_op_ok.simps by blast
  have "skip_if ErrAppNotFound (tr_GetApp C x) s = (Inr (t_apps M x), s)" for x
    using tr_GetApp_correct [OF r, of x] by (cases "t_apps M x") (simp_all add: skip_if_def)
  then have "tr_ListApps C owner s = (Inr (List.map_filter (t_apps M) ids), s)"
    using i(1) io_collect_read [of ids "\<lambda>i. skip_if ErrAppNotFound (tr_GetApp C i)" s] by (simp add: tr_ListApps_def io_simps)
  moreover have "set (List.map_filter (t_apps M) ids) = {a \<in> ran (t_apps M). OwnerUserID a = owner}"
    using tr_relD(1) [OF r] unfolding set_map_filter i(2) owned_def ran_def by auto
  ultimately show "fst (map_res (TRApps \<circ> as_set) (tr_ListApps C owner) s) = fst (tenant_spec (TListApps owner) M) \<and>
    tr_rel kks (snd (map_res (TRApps \<circ> as_set) (tr_ListApps C owner) s)) (snd (tenant_spec (TListApps owner) M))"
    using r by simp
qed

lemma tr_ListKeys_sim: "sim (tr_rel kks) P (map_res (TRKeys \<circ> as_set) (tr_ListKeys C app)) (tenant_spec (TListKeys app))"
proof (rule simI)
  fix s M
  assume r: "tr_rel kks s M"
  obtain ids where i: "SMEMBERS C (appKeysKey app) s = (Reply ids, s)" "set ids = ids_of (t_keys M) app"
    using SMEMBERS [OF tr_relD(7) [OF r]] by blast
  let ?f = "\<lambda>kid. io_catch_nil (io_bind (io_cmd (GET C (keyMetaKey kid))) (\<lambda>data. io_bind (io_lift (unmarshal_key data)) (\<lambda>k.
          io_ret (Some (k\<lparr>Scope := normScope (Scope k)\<rparr>))))) (io_ret None)"
  define g where "g = (\<lambda>i. case kks s (keyMetaKey i) of VStr v \<Rightarrow> (case unmarshal_key v of Inr k \<Rightarrow> Some k | _ \<Rightarrow> None) | _ \<Rightarrow> None)"
  have gk: "g (KeyID k) = Some k" if "t_keys M h = Some k" for h k using tr_rel_meta(1) [OF r that] by (simp add: g_def)
  have f: "?f kid s = (Inr (g kid), s)" if "kid \<in> set ids" for kid
  proof -
    from that obtain h k where k: "t_keys M h = Some k" "KeyID k = kid" by (auto simp: i(2) ids_of_def ran_def)
    have "Scope k = ScopeSecret \<or> Scope k = ScopePublishable" using tr_relD(1) [OF r] k(1) unfolding tenants_ok_def by blast
    then have "k\<lparr>Scope := normScope (Scope k)\<rparr> = k" by (auto simp: normScope_def ScopeSecret_def ScopePublishable_def)
    then show ?thesis using GET(2) [of s "keyMetaKey kid" "TKey (JSON k)"] tr_rel_meta(1) [OF r k(1)] k(2) gk [OF k(1)] by (simp add: io_simps)
  qed
  have "tr_ListKeys C app s = (Inr (List.map_filter g ids), s)"
    using i(1) io_collect_read [of ids ?f s g, OF f] by (simp add: tr_ListKeys_def io_bind_def io_cmd_def)
  moreover have "set (List.map_filter g ids) = {k \<in> ran (t_keys M). KeyAppID k = app}"
    unfolding set_map_filter i(2) ids_of_def using gk by (fastforce simp: ran_def)
  ultimately show "fst (map_res (TRKeys \<circ> as_set) (tr_ListKeys C app) s) = fst (tenant_spec (TListKeys app) M) \<and>
    tr_rel kks (snd (map_res (TRKeys \<circ> as_set) (tr_ListKeys C app) s)) (snd (tenant_spec (TListKeys app) M))"
    using r by simp
qed

lemma tr_GetBoard_correct: "tr_rel kks s M \<Longrightarrow> colon_free app \<Longrightarrow>
    tr_GetBoard C app b s = ((case t_boards M app b of None \<Rightarrow> Inl ErrBoardNotFound | Some lb \<Rightarrow> Inr lb), s)"
  using GET [of s "boardKey app b"] tr_relD(8) [of kks s M app b] by (cases "t_boards M app b") (simp_all add: tr_GetBoard_def io_simps)

lemma tr_GetBoard_sim: "sim (tr_rel kks) (tenant_op_ok (TGetBoard app b)) (map_res TRBoard (tr_GetBoard C app b)) (tenant_spec (TGetBoard app b))"
  by (rule simI) (simp add: tr_GetBoard_correct)

lemma tr_ListBoards_correct:
  assumes r: "tr_rel kks s M" and c: "colon_free app"
  shows "\<exists>lbs. tr_ListBoards C app s = (Inr lbs, s) \<and> set lbs = ran (t_boards M app)"
proof -
  obtain ids where i: "SMEMBERS C (boardSetKey app) s = (Reply ids, s)" "set ids = dom (t_boards M app)"
    using SMEMBERS [OF tr_relD(9) [OF r]] by blast
  have "skip_if ErrBoardNotFound (tr_GetBoard C app b) s = (Inr (t_boards M app b), s)" for b
    using tr_GetBoard_correct [OF r c, of b] by (cases "t_boards M app b") (simp_all add: skip_if_def)
  then have "tr_ListBoards C app s = (Inr (List.map_filter (t_boards M app) ids), s)"
    using i(1) io_collect_read [of ids "\<lambda>b. skip_if ErrBoardNotFound (tr_GetBoard C app b)" s] by (simp add: tr_ListBoards_def io_simps)
  moreover have "set (List.map_filter (t_boards M app) ids) = ran (t_boards M app)"
    unfolding set_map_filter i(2) by (auto simp: ran_def dom_def)
  ultimately show ?thesis by blast
qed

lemma tr_ListBoards_sim: "sim (tr_rel kks) (tenant_op_ok (TListBoards app)) (map_res (TRBoards \<circ> as_set) (tr_ListBoards C app)) (tenant_spec (TListBoards app))"
proof (rule simI)
  fix s M
  assume r: "tr_rel kks s M" and "tenant_op_ok (TListBoards app) M"
  then obtain lbs where "tr_ListBoards C app s = (Inr lbs, s)" "set lbs = ran (t_boards M app)" using tr_ListBoards_correct [OF r] by auto
  then show "fst (map_res (TRBoards \<circ> as_set) (tr_ListBoards C app) s) = fst (tenant_spec (TListBoards app) M) \<and>
    tr_rel kks (snd (map_res (TRBoards \<circ> as_set) (tr_ListBoards C app) s)) (snd (tenant_spec (TListBoards app) M))"
    using r by simp
qed

lemma tr_AllBoards_sim: "sim (tr_rel kks) P (map_res (TRBoards \<circ> as_set) (tr_AllBoards C)) (tenant_spec TAllBoards)"
proof (rule simI)
  fix s M
  assume r: "tr_rel kks s M"
  obtain ids where i: "SMEMBERS C appSetKey s = (Reply ids, s)" "set ids = dom (t_apps M)"
    using SMEMBERS [OF tr_relD(3) [OF r]] by blast
  have "\<exists>bs. io_map (tr_ListBoards C) xs s = (Inr bs, s) \<and> set (concat bs) = (\<Union>app \<in> set xs. ran (t_boards M app))"
    if "set xs \<subseteq> dom (t_apps M)" for xs
    using that
  proof (induction xs)
    case (Cons x xs)
    then obtain bs where b: "io_map (tr_ListBoards C) xs s = (Inr bs, s)" "set (concat bs) = (\<Union>app \<in> set xs. ran (t_boards M app))" by auto
    have "colon_free x" using Cons.prems tr_relD(1) [OF r] unfolding tenants_ok_def by auto
    then obtain lbs where "tr_ListBoards C x s = (Inr lbs, s)" "set lbs = ran (t_boards M x)" using tr_ListBoards_correct [OF r] by blast
    with b show ?case by (simp add: io_simps)
  qed (simp add: io_simps)
  from this [of ids] i(2) obtain bs where b: "io_map (tr_ListBoards C) ids s = (Inr bs, s)" "set (concat bs) = (\<Union>app \<in> dom (t_apps M). ran (t_boards M app))"
    by auto
  have "(\<Union>app \<in> dom (t_apps M). ran (t_boards M app)) = (\<Union>app. ran (t_boards M app))"
    using tr_relD(1) [OF r] unfolding tenants_ok_def by (auto simp: ran_def) (metis domI not_None_eq)
  then show "fst (map_res (TRBoards \<circ> as_set) (tr_AllBoards C) s) = fst (tenant_spec TAllBoards M) \<and>
    tr_rel kks (snd (map_res (TRBoards \<circ> as_set) (tr_AllBoards C) s)) (snd (tenant_spec TAllBoards M))"
    using b i(1) r by (simp add: tr_AllBoards_def io_simps)
qed

text \<open>Writes: the commands queued in the transaction, applied to the keyspace, hold the new tenants.\<close>

lemma tr_relI: "tenants_ok M \<Longrightarrow> holds_apps (kks s) (t_apps M) \<Longrightarrow> holds_keys (kks s) (t_keys M) \<Longrightarrow> holds_boards (kks s) (t_boards M) \<Longrightarrow> tr_rel kks s M"
  by (simp add: tr_rel_def)

lemma mutateApp_sim:
  assumes "\<And>a. AppID (f a) = AppID a \<and> AppName (f a) = AppName a \<and> OwnerUserID (f a) = OwnerUserID a \<and> AppCreatedAt (f a) = AppCreatedAt a"
  shows "sim (tr_rel kks) P (map_res TRApp (mutateApp C app f)) (map_res TRApp (change_spec f app))"
proof (intro sim_map_res simI)
  fix s M
  assume r: "tr_rel kks s M"
  show "fst (mutateApp C app f s) = fst (change_spec f app M) \<and> tr_rel kks (snd (mutateApp C app f s)) (snd (change_spec f app M))"
  proof (cases "t_apps M app")
    case None
    then show ?thesis using tr_GetApp_correct [OF r, of app] r by (simp add: mutateApp_def io_simps change_spec_def)
  next
    case (Some a)
    have "app_json a" using tr_relD(1) [OF r] Some unfolding tenants_ok_def by blast
    then have "app_json (f a)" using assms [of a] by (simp add: app_json_def)
    then have m: "marshal_app (f a) = TApp (JSON (f a))" by (rule marshal_tenant_ok)
    define s1 where "s1 = snd (SET C (appKey app) (TApp (JSON (f a))) 0 s)"
    have s1: "SET C (appKey app) (TApp (JSON (f a))) 0 s = (Reply (), s1)" "kks s1 = (kks s)(appKey app := VStr (TApp (JSON (f a))))"
      using SET [of "appKey app" "TApp (JSON (f a))" 0 s] by (auto simp: s1_def prod_eq_iff)
    have c: "mutateApp C app f s = (Inr (f a), s1)" using tr_GetApp_correct [OF r, of app] Some s1(1) m by (simp add: mutateApp_def io_simps)
    have dom: "insert app (dom (t_apps M)) = dom (t_apps M)" using Some by auto
    have "owned ((t_apps M)(app \<mapsto> f a)) = owned (t_apps M)" using Some assms [of a] by (auto simp: owned_def fun_eq_iff)
    then have "holds_apps (kks s1) ((t_apps M)(app \<mapsto> f a))"
      using r Some dom unfolding tr_rel_def holds_apps_def by (auto simp: s1(2))
    moreover have "holds_keys (kks s1) (t_keys M)" "holds_boards (kks s1) (t_boards M)"
      using r unfolding tr_rel_def holds_keys_def holds_boards_def by (simp_all add: s1(2))
    moreover have "tenants_ok (snd (change_spec f app M))" by (rule tenants_ok_change [OF tr_relD(1) [OF r] assms])
    ultimately have "tr_rel kks s1 (snd (change_spec f app M))" using Some by (simp add: tr_rel_def change_spec_def)
    then show ?thesis using c Some by (simp add: change_spec_def)
  qed
qed

lemma ids_of_add: "K h = None \<Longrightarrow> ids_of (K(h \<mapsto> k)) b = (if KeyAppID k = b then insert (KeyID k) (ids_of K b) else ids_of K b)"
  by (auto simp: ids_of_def)

lemma holds_keys_add:
  assumes hk: "holds_keys f K" and n: "K h = None" "\<And>h' k'. K h' = Some k' \<Longrightarrow> KeyID k' \<noteq> KeyID k"
    and g: "g = fold w_eff (WSet (apiKeyKey h) (TStr (KeyAppID k)) #
       (if Scope k = ScopePublishable then [WSet (keyScopeKey h) (TStr ScopePublishable)] else []) @
       [WSet (keyMetaKey (KeyID k)) (TKey (JSON k)), WSet (keyHashKey (KeyID k)) (TStr h), WSadd (appKeysKey (KeyAppID k)) (KeyID k)]) f"
  shows "holds_keys g (K(h \<mapsto> k))"
proof -
  have sc: "f (keyScopeKey h) = VNone" using hk n(1) by (simp add: holds_keys_def scope_view_def)
  have ak: "f (appKeysKey b) = set_view (ids_of K b)" for b using hk by (simp add: holds_keys_def)
  have "g (apiKeyKey x) = opt_view (map_option (TStr \<circ> KeyAppID) ((K(h \<mapsto> k)) x))" for x
    using hk by (simp add: g holds_keys_def)
  moreover have "g (keyScopeKey x) = scope_view ((K(h \<mapsto> k)) x)" for x
    using hk sc by (simp add: g holds_keys_def) (simp add: scope_view_def)
  moreover have "g (keyMetaKey (KeyID k')) = VStr (TKey (JSON k')) \<and> g (keyHashKey (KeyID k')) = VStr (TStr h')" if "(K(h \<mapsto> k)) h' = Some k'" for h' k'
    using that hk n(2) [of h' k'] by (auto simp: g holds_keys_def split: if_splits)
  moreover have "g (keyMetaKey i) = VNone \<and> g (keyHashKey i) = VNone" if "\<forall>k' \<in> ran (K(h \<mapsto> k)). KeyID k' \<noteq> i" for i
    using that hk by (auto simp: g holds_keys_def ran_map_upd [of K, OF n(1)])
  moreover have "g (appKeysKey b) = set_view (ids_of (K(h \<mapsto> k)) b)" for b
    by (simp add: g ak ids_of_add [of K, OF n(1)])
  ultimately show ?thesis by (simp add: holds_keys_def)
qed

lemma issue_correct:
  assumes r: "tr_rel kks s M" and f: "fresh_key rkey rid M" and sc: "snd (ParseScope scope)" and y: "json_year now"
  shows "fst (tr_IssueKey C app scope (Inr rkey) (Inr rid) now s) = fst (issue_spec app scope rkey rid now M) \<and>
    tr_rel kks (snd (tr_IssueKey C app scope (Inr rkey) (Inr rid) now s)) (snd (issue_spec app scope rkey rid now M))"
proof -
  define p where "p = ''lb_'' @ hex_encode rkey"
  define i where "i = ''key_'' @ hex_encode rid"
  define h where "h = hashKey p"
  define k where "k = \<lparr>KeyID = i, KeyAppID = app, Prefix = keyPrefix p, Scope = normScope scope, KeyCreatedAt = now\<rparr>"
  have n: "newAPIKey (Inr rkey) = Inr (p, h)" "newID ''key_'' (Inr rid) = Inr i"
    by (simp_all add: newAPIKey_def newID_def randHex_def Let_def p_def i_def h_def)
  have kf: "KeyID k = i" "KeyAppID k = app" by (simp_all add: k_def)
  have sp: "issue_spec app scope rkey rid now M = (if t_apps M app = None then (Inl ErrAppNotFound, M)
      else (Inr (p, k), M\<lparr>t_keys := (t_keys M)(h \<mapsto> k)\<rparr>))"
    unfolding issue_spec_def Let_def p_def [symmetric] i_def [symmetric] h_def [symmetric] k_def [symmetric] by simp
  have fr: "t_keys M h = None" "\<And>h' k'. t_keys M h' = Some k' \<Longrightarrow> KeyID k' \<noteq> KeyID k"
    using f unfolding fresh_key_def p_def [symmetric] i_def [symmetric] h_def [symmetric] by (auto simp: k_def ran_def)
  show ?thesis
  proof (cases "t_apps M app")
    case None
    then show ?thesis using tr_GetApp_correct [OF r, of app] r sp by (simp add: tr_IssueKey_def io_simps)
  next
    case (Some a)
    have ok: "tenants_ok (M\<lparr>t_keys := (t_keys M)(h \<mapsto> k)\<rparr>)" using tenants_ok_issue [OF tr_relD(1) [OF r] f sc y, of app] sp Some by simp
    then have "t_keys (M\<lparr>t_keys := (t_keys M)(h \<mapsto> k)\<rparr>) h = Some k \<longrightarrow> key_json k" unfolding tenants_ok_def by blast
    then have "key_json k" by simp
    then have m: "marshal_key k = TKey (JSON k)" by (rule marshal_tenant_ok)
    define ws where "ws = WSet (apiKeyKey h) (TStr (KeyAppID k)) #
       (if Scope k = ScopePublishable then [WSet (keyScopeKey h) (TStr ScopePublishable)] else []) @
       [WSet (keyMetaKey (KeyID k)) (TKey (JSON k)), WSet (keyHashKey (KeyID k)) (TStr h), WSadd (appKeysKey (KeyAppID k)) (KeyID k)]"
    have "ws_ok ws (kks s)" using tr_relD(7) [OF r] by (simp add: ws_def)
    from tx_eff [OF this] obtain s1 where s1: "tx C ws s = (Inr (), s1)" "kks s1 = fold w_eff ws (kks s)" by blast
    have "tr_IssueKey C app scope (Inr rkey) (Inr rid) now s = io_bind (tx C ws) (\<lambda>_. io_ret (p, k)) s"
      using tr_GetApp_correct [OF r, of app] Some n
      by (simp add: tr_IssueKey_def io_bind_def io_lift_def Let_def ws_def k_def m [unfolded k_def])
    then have c: "tr_IssueKey C app scope (Inr rkey) (Inr rid) now s = (Inr (p, k), s1)"
      using s1(1) by (simp add: io_bind_def io_ret_def)
    have "holds_keys (kks s1) ((t_keys M)(h \<mapsto> k))"
      by (rule holds_keys_add [of "kks s" "t_keys M", OF _ fr]) (use r s1(2) in \<open>simp_all add: tr_rel_def ws_def\<close>)
    moreover have "holds_apps (kks s1) (t_apps M)" "holds_boards (kks s1) (t_boards M)"
      using r unfolding tr_rel_def holds_apps_def holds_boards_def by (simp_all add: s1(2) ws_def)
    ultimately have "tr_rel kks s1 (M\<lparr>t_keys := (t_keys M)(h \<mapsto> k)\<rparr>)" using ok by (simp add: tr_rel_def)
    then show ?thesis using c sp Some by simp
  qed
qed

lemma tr_IssueKey_sim:
  "sim (tr_rel kks) (tenant_op_ok (TIssueKey app scope rkey rid now)) (map_res TRKey (tr_IssueKey C app scope (Inr rkey) (Inr rid) now)) (map_res TRKey (issue_spec app scope rkey rid now))"
  by (intro sim_map_res simI issue_correct) auto

lemma create_correct:
  assumes r: "tr_rel kks s M" and ok: "tenant_op_ok (TCreateApp owner name ra rkey rid now) M"
  shows "fst (tr_CreateApp C owner name (Inr ra) (Inr rkey) (Inr rid) now s) = fst (create_app_spec owner name ra rkey rid now M) \<and>
    tr_rel kks (snd (tr_CreateApp C owner name (Inr ra) (Inr rkey) (Inr rid) now s)) (snd (create_app_spec owner name ra rkey rid now M))"
proof -
  define i where "i = ''app_'' @ hex_encode ra"
  define a where "a = \<lparr>AppID = i, AppName = name, OwnerUserID = owner, AppCreatedAt = now, RequireSigning = False,
    RequirePlayerTokens = False, SigningKeyVersion = 1\<rparr>"
  define M1 where "M1 = M\<lparr>t_apps := (t_apps M)(i \<mapsto> a)\<rparr>"
  have new: "t_apps M i = None" "fresh_key rkey rid M" "utf8 owner" "utf8 name" "json_year now" using ok by (simp_all add: i_def)
  have aj: "app_json a" using new(3-5) by (simp add: app_json_def a_def i_def utf8_minted)
  have ai: "AppID a = i" "colon_free i" "OwnerUserID a = owner" using colon_free_app by (simp_all only: a_def i_def TenantApp.simps)
  have ok1: "tenants_ok M1" unfolding M1_def using tenants_ok_app [OF tr_relD(1) [OF r], of a i] aj ai by blast
  define ws where "ws = [WSet (appKey i) (TApp (JSON a)), WSadd appSetKey i] @ (if owner \<noteq> [] then [WSadd (ownerAppsKey owner) i] else [])"
  have "ws_ok ws (kks s)" using tr_relD(3) [OF r] tr_relD(4) [OF r, of owner] by (simp add: ws_def)
  from tx_eff [OF this] obtain s1 where s1: "tx C ws s = (Inr (), s1)" "kks s1 = fold w_eff ws (kks s)" by blast
  have own: "owned ((t_apps M)(i \<mapsto> a)) u = (if u = owner then insert i (owned (t_apps M) u) else owned (t_apps M) u)" for u
    using new(1) ai(3) by (auto simp: owned_def)
  have "holds_apps (kks s1) ((t_apps M)(i \<mapsto> a))"
    using r unfolding tr_rel_def holds_apps_def own by (auto simp: s1(2) ws_def)
  moreover have "holds_keys (kks s1) (t_keys M)" "holds_boards (kks s1) (t_boards M)"
    using r unfolding tr_rel_def holds_keys_def holds_boards_def by (simp_all add: s1(2) ws_def)
  ultimately have r1: "tr_rel kks s1 M1" using ok1 by (simp add: tr_rel_def M1_def)
  have f1: "fresh_key rkey rid M1" using new(2) by (simp add: fresh_key_def M1_def)
  have "snd (ParseScope ScopeSecret)" by code_simp
  from issue_correct [OF r1 f1 this new(5), of i]
  have iss: "fst (tr_IssueKey C i ScopeSecret (Inr rkey) (Inr rid) now s1) = fst (issue_spec i ScopeSecret rkey rid now M1)"
    "tr_rel kks (snd (tr_IssueKey C i ScopeSecret (Inr rkey) (Inr rid) now s1)) (snd (issue_spec i ScopeSecret rkey rid now M1))" by blast+
  have ni: "newID ''app_'' (Inr ra) = Inr i" by (simp add: newID_def randHex_def i_def)
  have "tr_CreateApp C owner name (Inr ra) (Inr rkey) (Inr rid) now s =
      io_bind (tx C ws) (\<lambda>_. io_bind (tr_IssueKey C i ScopeSecret (Inr rkey) (Inr rid) now) (\<lambda>(plain, _). io_ret (a, plain))) s"
    unfolding tr_CreateApp_def ni io_lift_def io_bind_def [of "\<lambda>s. (Inr i, s)"] using marshal_tenant_ok(1) [OF aj]
    by (simp add: Let_def a_def ws_def)
  then have c: "tr_CreateApp C owner name (Inr ra) (Inr rkey) (Inr rid) now s = io_bind (tr_IssueKey C i ScopeSecret (Inr rkey) (Inr rid) now) (\<lambda>(plain, _). io_ret (a, plain)) s1"
    using s1(1) by (simp add: io_bind_def)
  have d: "create_app_spec owner name ra rkey rid now M = (case issue_spec i ScopeSecret rkey rid now M1 of
      (r, M') \<Rightarrow> (case r of Inl e \<Rightarrow> Inl e | Inr (plain, _) \<Rightarrow> Inr (a, plain), M'))"
    unfolding create_app_spec_def Let_def i_def [symmetric] a_def [symmetric] M1_def [symmetric] by simp
  show ?thesis using iss unfolding c d
    by (cases "tr_IssueKey C i ScopeSecret (Inr rkey) (Inr rid) now s1"; cases "issue_spec i ScopeSecret rkey rid now M1")
      (auto simp: io_bind_def io_ret_def split: sum.splits)
qed

lemma tr_CreateApp_sim:
  "sim (tr_rel kks) (tenant_op_ok (TCreateApp owner name ra rkey rid now)) (map_res TRAppKey (tr_CreateApp C owner name (Inr ra) (Inr rkey) (Inr rid) now))
     (map_res TRAppKey (create_app_spec owner name ra rkey rid now))"
  by (intro sim_map_res simI create_correct)

lemma holds_keys_drop:
  assumes hk: "holds_keys f K" and k: "K h = Some k"
    and inj: "\<And>h1 k1 h2 k2. K h1 = Some k1 \<Longrightarrow> K h2 = Some k2 \<Longrightarrow> KeyID k1 = KeyID k2 \<Longrightarrow> h1 = h2"
    and g: "g = fold w_eff [WDel (apiKeyKey h), WDel (keyScopeKey h), WDel (keyMetaKey (KeyID k)), WDel (keyHashKey (KeyID k)), WSrem (appKeysKey (KeyAppID k)) (KeyID k)] f"
  shows "holds_keys g (drop_keys (\<lambda>k'. KeyID k' = KeyID k) K)"
proof -
  define K' where "K' = drop_keys (\<lambda>k'. KeyID k' = KeyID k) K"
  have d: "K' x = (if x = h then None else K x)" for x
    using inj [OF k, of x] k by (cases "K x") (auto simp: K'_def drop_keys_def)
  have rk: "ran K' = {k' \<in> ran K. KeyID k' \<noteq> KeyID k}" by (auto simp: K'_def ran_def drop_keys_Some)
  have u: "k' \<in> ran K \<Longrightarrow> KeyID k' = KeyID k \<Longrightarrow> k' = k" for k' using inj [OF k] k by (auto simp: ran_def)
  have ids: "ids_of K' b = (if KeyAppID k = b then ids_of K b - {KeyID k} else ids_of K b)" for b
    unfolding ids_of_def rk using u by auto
  have ak: "f (appKeysKey b) = set_view (ids_of K b)" for b using hk by (simp add: holds_keys_def)
  have "g (apiKeyKey x) = opt_view (map_option (TStr \<circ> KeyAppID) (K' x))" for x using hk by (simp add: g holds_keys_def d)
  moreover have "g (keyScopeKey x) = scope_view (K' x)" for x using hk by (simp add: g holds_keys_def d) (simp add: scope_view_def)
  moreover have "g (keyMetaKey (KeyID k')) = VStr (TKey (JSON k')) \<and> g (keyHashKey (KeyID k')) = VStr (TStr h')" if "K' h' = Some k'" for h' k'
    using that hk inj [OF k, of h' k'] by (auto simp: g holds_keys_def d split: if_splits)
  moreover have "g (keyMetaKey i) = VNone \<and> g (keyHashKey i) = VNone" if "\<forall>k' \<in> ran K'. KeyID k' \<noteq> i" for i
  proof (cases "i = KeyID k")
    case False
    then have "\<forall>k' \<in> ran K. KeyID k' \<noteq> i" using that by (auto simp: rk)
    then show ?thesis using hk False unfolding holds_keys_def by (simp add: g)
  qed (simp add: g)
  moreover have "g (appKeysKey b) = set_view (ids_of K' b)" for b by (simp add: g ak ids)
  ultimately show ?thesis by (simp add: holds_keys_def K'_def)
qed

lemma revoke_correct:
  assumes r: "tr_rel kks s M"
  shows "fst (tr_RevokeKey C app i s) = fst (revoke_spec app i M) \<and> tr_rel kks (snd (tr_RevokeKey C app i s)) (snd (revoke_spec app i M))"
proof (cases "\<exists>k \<in> ran (t_keys M). KeyID k = i")
  case False
  then have "GET C (keyMetaKey i) s = (NilReply, s)" using GET(1) [of s "keyMetaKey i"] tr_rel_meta(3) [OF r, of i] by auto
  then have "tr_RevokeKey C app i s = (Inl ErrKeyNotFound, s)" by (simp add: tr_RevokeKey_def io_simps)
  then show ?thesis using False r by (auto simp: revoke_spec_def)
next
  case True
  then obtain h k where k: "t_keys M h = Some k" "KeyID k = i" by (auto simp: ran_def)
  have u: "k' \<in> ran (t_keys M) \<Longrightarrow> KeyID k' = i \<Longrightarrow> k' = k" for k' using key_id_inj [OF tr_relD(1) [OF r] k(1)] k(2) by (auto simp: ran_def)
  have g: "GET C (keyMetaKey i) s = (Reply (TKey (JSON k)), s)" using GET(2) [of s "keyMetaKey i"] tr_rel_meta(1) [OF r k(1)] k(2) by simp
  show ?thesis
  proof (cases "KeyAppID k = app")
    case False
    then have "tr_RevokeKey C app i s = (Inl ErrKeyNotFound, s)" using g by (simp add: tr_RevokeKey_def io_simps)
    moreover have "revoke_spec app i M = (Inl ErrKeyNotFound, M)" using u False by (auto simp: revoke_spec_def)
    ultimately show ?thesis using r by simp
  next
    case a: True
    have gh: "GET C (keyHashKey i) s = (Reply (TStr h), s)" using GET(2) [of s "keyHashKey i"] tr_rel_meta(2) [OF r k(1)] k(2) by simp
    have h: "h \<noteq> []" using tr_relD(1) [OF r] k(1) unfolding tenants_ok_def by blast
    define ws where "ws = [WDel (apiKeyKey h), WDel (keyScopeKey h), WDel (keyMetaKey (KeyID k)), WDel (keyHashKey (KeyID k)), WSrem (appKeysKey (KeyAppID k)) (KeyID k)]"
    have "ws_ok ws (kks s)" using tr_relD(7) [OF r] by (simp add: ws_def)
    from tx_eff [OF this] obtain s1 where s1: "tx C ws s = (Inr (), s1)" "kks s1 = fold w_eff ws (kks s)" by blast
    have c: "tr_RevokeKey C app i s = (Inr (), s1)" using g gh h a k(2) s1(1) by (simp add: tr_RevokeKey_def io_simps ws_def)
    let ?K = "drop_keys (\<lambda>k. KeyID k = i) (t_keys M)"
    have "holds_keys (kks s1) (drop_keys (\<lambda>k'. KeyID k' = KeyID k) (t_keys M))"
    proof (rule holds_keys_drop [where f = "kks s" and h = h])
      show "holds_keys (kks s) (t_keys M)" using r by (simp add: tr_rel_def)
      show "\<And>h1 k1 h2 k2. t_keys M h1 = Some k1 \<Longrightarrow> t_keys M h2 = Some k2 \<Longrightarrow> KeyID k1 = KeyID k2 \<Longrightarrow> h1 = h2"
        using key_id_inj [OF tr_relD(1) [OF r]] by blast
    qed (use k s1(2) in \<open>simp_all add: ws_def\<close>)
    then have "holds_keys (kks s1) ?K" by (simp add: k(2))
    moreover have "holds_apps (kks s1) (t_apps M)" "holds_boards (kks s1) (t_boards M)"
      using r unfolding tr_rel_def holds_apps_def holds_boards_def by (simp_all add: s1(2) ws_def)
    moreover have "tenants_ok (M\<lparr>t_keys := ?K\<rparr>)" by (rule tenants_ok_drop [OF tr_relD(1) [OF r]])
    ultimately have "tr_rel kks s1 (M\<lparr>t_keys := ?K\<rparr>)" by (simp add: tr_rel_def)
    moreover have "revoke_spec app i M = (Inr (), M\<lparr>t_keys := ?K\<rparr>)" using k a True by (auto simp: revoke_spec_def ran_def)
    ultimately show ?thesis using c by simp
  qed
qed

lemma tr_RevokeKey_sim: "sim (tr_rel kks) P (map_res TRUnit (tr_RevokeKey C app i)) (map_res TRUnit (revoke_spec app i))"
  by (intro sim_map_res simI revoke_correct)

lemma tr_UpsertBoard_sim: "sim (tr_rel kks) (tenant_op_ok (TUpsert lb)) (map_res TRUnit (tr_UpsertBoard C lb)) (map_res TRUnit (upsert_spec lb))"
proof (intro sim_map_res simI)
  fix s M
  assume r: "tr_rel kks s M" and j: "tenant_op_ok (TUpsert lb) M"
  have ok: "tenants_ok (snd (upsert_spec lb M))" using tenants_ok_upsert [OF tr_relD(1) [OF r]] j by simp
  show "fst (tr_UpsertBoard C lb s) = fst (upsert_spec lb M) \<and> tr_rel kks (snd (tr_UpsertBoard C lb s)) (snd (upsert_spec lb M))"
  proof (cases "t_apps M (LApp lb)")
    case None
    then show ?thesis using tr_GetApp_correct [OF r, of "LApp lb"] r by (simp add: tr_UpsertBoard_def io_simps upsert_spec_def)
  next
    case (Some a)
    have cf: "colon_free (LApp lb)" using tr_relD(1) [OF r] Some unfolding tenants_ok_def by blast
    define ws where "ws = [WSet (boardKey (LApp lb) (LBoard lb)) (TBoard (JSON lb)), WSadd (boardSetKey (LApp lb)) (LBoard lb)]"
    have "ws_ok ws (kks s)" using tr_relD(9) [OF r] by (simp add: ws_def)
    from tx_eff [OF this] obtain s1 where s1: "tx C ws s = (Inr (), s1)" "kks s1 = fold w_eff ws (kks s)" by blast
    have c: "tr_UpsertBoard C lb s = (Inr (), s1)"
      using tr_GetApp_correct [OF r, of "LApp lb"] Some marshal_board_ok [of lb] j s1(1) by (simp add: tr_UpsertBoard_def io_simps ws_def)
    have "holds_boards (kks s1) ((t_boards M)(LApp lb := (t_boards M (LApp lb))(LBoard lb \<mapsto> lb)))"
      using r cf unfolding tr_rel_def holds_boards_def by (auto simp: s1(2) ws_def)
    moreover have "holds_apps (kks s1) (t_apps M)" "holds_keys (kks s1) (t_keys M)"
      using r unfolding tr_rel_def holds_apps_def holds_keys_def by (simp_all add: s1(2) ws_def)
    ultimately have "tr_rel kks s1 (snd (upsert_spec lb M))" using ok Some by (simp add: tr_rel_def upsert_spec_def)
    then show ?thesis using c Some by (simp add: upsert_spec_def)
  qed
qed

lemma drop_keys_drop: "drop_keys P (drop_keys Q K) = drop_keys (\<lambda>k. Q k \<or> P k) K"
  by (auto simp: drop_keys_def split: option.splits)

lemma revoke_all_correct:
  assumes "tr_rel kks s M"
  shows "tr_rel kks (revoke_all C app kids s) (M\<lparr>t_keys := drop_keys (\<lambda>k. KeyID k \<in> set kids \<and> KeyAppID k = app) (t_keys M)\<rparr>)"
  using assms
proof (induction kids arbitrary: s M)
  case Nil
  have "drop_keys (\<lambda>k. False) (t_keys M) = t_keys M" by (auto simp: drop_keys_def split: option.splits)
  then show ?case using Nil by simp
next
  case (Cons i kids)
  have "tr_rel kks (snd (tr_RevokeKey C app i s)) (M\<lparr>t_keys := drop_keys (\<lambda>k. KeyID k = i \<and> KeyAppID k = app) (t_keys M)\<rparr>)"
    using revoke_correct [OF Cons.prems, of app i] by (simp add: revoke_spec_keys [OF tr_relD(1) [OF Cons.prems]])
  from Cons.IH [OF this] show ?case by (simp add: drop_keys_drop conj_disj_distribR)
qed

lemma fold_del_boards: "fold w_eff (map (\<lambda>b. WDel (boardKey app b)) bs) f = (\<lambda>x. if x \<in> boardKey app ` set bs then VNone else f x)"
  by (induction bs arbitrary: f) (auto simp: fun_eq_iff)

lemma ws_ok_append: "ws_ok (xs @ ys) f \<longleftrightarrow> ws_ok xs f \<and> ws_ok ys (fold w_eff xs f)"
  by (induction xs arbitrary: f) simp_all

lemma ws_ok_del: "ws_ok (map (\<lambda>b. WDel (boardKey app b)) bs) f"
  by (induction bs arbitrary: f) simp_all

lemma not_board [simp]:
  "appKey x \<notin> boardKey app ` B" "apiKeyKey x \<notin> boardKey app ` B" "boardSetKey x \<notin> boardKey app ` B" "ownerAppsKey x \<notin> boardKey app ` B"
  "keyMetaKey x \<notin> boardKey app ` B" "keyScopeKey x \<notin> boardKey app ` B" "keyHashKey x \<notin> boardKey app ` B" "appKeysKey x \<notin> boardKey app ` B"
  "appSetKey \<notin> boardKey app ` B"
  by auto

lemma delete_correct:
  assumes r: "tr_rel kks s M"
  shows "fst (tr_DeleteApp C app s) = fst (delete_app_spec app M) \<and> tr_rel kks (snd (tr_DeleteApp C app s)) (snd (delete_app_spec app M))"
proof (cases "t_apps M app")
  case None
  then show ?thesis using tr_GetApp_correct [OF r, of app] r by (simp add: tr_DeleteApp_def io_simps delete_app_spec_def)
next
  case (Some a)
  have cf: "colon_free app" using tr_relD(1) [OF r] Some unfolding tenants_ok_def by blast
  obtain kids where kids: "SMEMBERS C (appKeysKey app) s = (Reply kids, s)" "set kids = ids_of (t_keys M) app"
    using SMEMBERS [OF tr_relD(7) [OF r]] by blast
  define s1 where "s1 = revoke_all C app kids s"
  let ?K = "drop_keys (\<lambda>k. KeyAppID k = app) (t_keys M)"
  have "drop_keys (\<lambda>k. KeyID k \<in> set kids \<and> KeyAppID k = app) (t_keys M) = ?K"
    by (auto simp: drop_keys_def fun_eq_iff kids(2) ids_of_def ran_def split: option.splits)
  then have r1: "tr_rel kks s1 (M\<lparr>t_keys := ?K\<rparr>)" using revoke_all_correct [OF r, of app kids] by (simp add: s1_def)
  obtain bs where bs: "SMEMBERS C (boardSetKey app) s1 = (Reply bs, s1)" "set bs = dom (t_boards M app)"
    using SMEMBERS [OF tr_relD(9) [OF r1, where app = app]] by auto
  define ws where "ws = map (\<lambda>b. WDel (boardKey app b)) bs @ [WDel (boardSetKey app), WDel (appKeysKey app), WDel (appKey app), WSrem appSetKey app] @
    (if OwnerUserID a \<noteq> [] then [WSrem (ownerAppsKey (OwnerUserID a)) app] else [])"
  have st: "kks s1 appSetKey = set_view (dom (t_apps M))" "u \<noteq> [] \<Longrightarrow> kks s1 (ownerAppsKey u) = set_view (owned (t_apps M) u)" for u
    using tr_relD(3) [OF r1] tr_relD(4) [OF r1] by simp_all
  have "ws_ok ws (kks s1)" using st by (simp add: ws_def ws_ok_append ws_ok_del fold_del_boards)
  from tx_eff [OF this] obtain s2 where s2: "tx C ws s1 = (Inr (), s2)" "kks s2 = fold w_eff ws (kks s1)" by blast
  have c: "tr_DeleteApp C app s = (Inr (), s2)"
    using tr_GetApp_correct [OF r, of app] Some kids(1) bs(1) s2(1) by (simp add: tr_DeleteApp_def io_simps s1_def ws_def)
  have own: "owned ((t_apps M)(app := None)) u = (if u = OwnerUserID a then owned (t_apps M) u - {app} else owned (t_apps M) u)" for u
    using Some by (auto simp: owned_def)
  have "holds_apps (kks s2) ((t_apps M)(app := None))"
    using r1 st unfolding tr_rel_def holds_apps_def own by (auto simp: s2(2) ws_def fold_del_boards)
  moreover have "ids_of ?K app = {}" by (auto simp: ids_of_def ran_def drop_keys_Some)
  then have "holds_keys (kks s2) ?K"
    using r1 unfolding tr_rel_def holds_keys_def by (auto simp: s2(2) ws_def fold_del_boards set_view_def)
  moreover have "boardKey app b \<notin> boardKey app ` set bs \<Longrightarrow> t_boards M app b = None" for b using bs(2) by auto
  then have "holds_boards (kks s2) ((t_boards M)(app := Map.empty))"
    using r1 cf unfolding tr_rel_def holds_boards_def by (auto simp: s2(2) ws_def fold_del_boards set_view_def)
  moreover have "tenants_ok (snd (delete_app_spec app M))" by (rule tenants_ok_delete [OF tr_relD(1) [OF r]])
  ultimately have "tr_rel kks s2 (snd (delete_app_spec app M))" using Some by (simp add: tr_rel_def delete_app_spec_def)
  then show ?thesis using c Some by (simp add: delete_app_spec_def)
qed

lemma tr_DeleteApp_sim: "sim (tr_rel kks) P (map_res TRUnit (tr_DeleteApp C app)) (map_res TRUnit (delete_app_spec app))"
  by (intro sim_map_res simI delete_correct)

end

sublocale redis_tenants \<subseteq> tr: tenant_store "tenancy_redis C" "tr_rel kks"
proof
  fix op
  show "sim (tr_rel kks) (tenant_op_ok op) (tenant_exec (tenancy_redis C) op) (tenant_spec op)"
    by (cases op)
      (simp_all only: tenancy_redis_def tenant_exec.simps tenancy_Store.simps tenant_spec_ops tr_CreateApp_sim tr_IssueKey_sim tr_GetApp_sim
        tr_ListApps_sim tr_AuthKey_sim tr_AppByKey_sim tr_ListKeys_sim tr_RevokeKey_sim tr_DeleteApp_sim tr_UpsertBoard_sim tr_GetBoard_sim
        tr_ListBoards_sim tr_AllBoards_sim tr_SetRequireSigning_def tr_SetRequirePlayerTokens_def tr_RotateSigningKey_def mutateApp_sim settings_keep)
qed (rule tr_relD(1))

interpretation mem_tenants: redis_tenants mem_kv mem_kks ..

end
