(* ===== verification/Tenancy_Properties.thy ===== *)
theory Tenancy_Properties
  imports Tenancy_Mem Tenancy_Redis
begin

text \<open>
  What both stores of the control plane guarantee: they agree with the specification on every
  sequence of operations, and an API key authenticates its app from the moment it is issued until
  it is revoked or its app deleted, and never afterwards.
\<close>

context redis_tenants
begin

lemmas redis_run = tr.run_sim [OF tr_rel_start]

end

text \<open>
  (C29) The in-memory store and the Redis store return, on every sequence of operations from the
  empty store, what the specification returns: an app exists from its creation to its deletion with
  the last settings written, keys and boards belong to one existing app and go with it, listings
  are complete, and nothing done to one app shows in another.
\<close>

theorem tenant_stores_agree:
  assumes "redis_kv C kks" "\<forall>k. kks s k = VNone" "guarded tenant_op_ok tenant_spec ops no_tenants"
  shows "fst (pipe_run (tenant_exec (tenancy_redis C)) ops s) = fst (pipe_run tenant_spec ops no_tenants) \<and>
    fst (pipe_run (tenant_exec tenancy_mem) ops NewTenancyMem) = fst (pipe_run tenant_spec ops no_tenants) \<and>
    tenants_ok (snd (pipe_run tenant_spec ops no_tenants))"
  using redis_tenants.redis_run [OF redis_tenants.intro [OF assms(1)] assms(2,3)] tm.run_sim [OF tm_rel_start assms(3)] by blast

definition sample_ops :: "tenant_op list" where
  "sample_ops = [TCreateApp ''usr_1'' ''Game'' [CHR ''a''] (replicate 32 CHR ''k'') [CHR ''i''] 0, TSetTokens ''app_61'' True,
     TGetApp ''app_61'', TDeleteApp ''app_61'', TGetApp ''app_61'']"

lemma sample_guarded: "guarded tenant_op_ok tenant_spec sample_ops no_tenants"
  by (simp add: sample_ops_def no_tenants_def fresh_key_def) code_simp

theorem tenant_stores_agree_witness:
  "fst (pipe_run (tenant_exec (tenancy_redis mem_kv)) sample_ops []) = fst (pipe_run tenant_spec sample_ops no_tenants)"
proof -
  have "\<forall>k. mem_kks [] k = (VNone :: tval kview)" by (simp add: mem_kks_def)
  then show ?thesis using tenant_stores_agree [OF mem_kv.redis_kv_axioms _ sample_guarded, of "[]"] by blast
qed

subsection \<open>The life of a key\<close>

text \<open>The operations that end a key, and the hash of the key an operation mints.\<close>

definition kills :: "string \<Rightarrow> string \<Rightarrow> tenant_op \<Rightarrow> bool" where
  "kills app kid op \<longleftrightarrow> op = TRevokeKey app kid \<or> op = TDeleteApp app"

fun minted_hash :: "tenant_op \<Rightarrow> string option" where
  "minted_hash (TCreateApp owner name ra rkey rid now) = Some (hashKey (''lb_'' @ hex_encode rkey))"
| "minted_hash (TIssueKey app scope rkey rid now) = Some (hashKey (''lb_'' @ hex_encode rkey))"
| "minted_hash _ = None"

lemma issue_spec_keys: "t_keys (snd (issue_spec app scope rkey rid now M)) h = t_keys M h \<or> h = hashKey (''lb_'' @ hex_encode rkey)"
  by (auto simp: issue_spec_def Let_def)

lemma create_spec_keys: "t_keys (snd (create_app_spec owner name ra rkey rid now M)) h = t_keys M h \<or> h = hashKey (''lb_'' @ hex_encode rkey)"
  using issue_spec_keys [of "''app_'' @ hex_encode ra" ScopeSecret rkey rid now _ h]
  by (auto simp: create_app_spec_def Let_def case_prod_beta)

lemma change_spec_keys: "t_keys (snd (change_spec f app M)) = t_keys M"
  by (simp add: change_spec_def split: option.splits)

lemma spec_keeps_dead: "t_keys M h = None \<Longrightarrow> minted_hash op \<noteq> Some h \<Longrightarrow> t_keys (snd (tenant_spec op M)) h = None"
proof (cases op)
  case (TCreateApp owner name ra rkey rid now)
  moreover assume "t_keys M h = None" "minted_hash op \<noteq> Some h"
  ultimately show ?thesis using create_spec_keys [of owner name ra rkey rid now M h] by auto
next
  case (TIssueKey app scope rkey rid now)
  moreover assume "t_keys M h = None" "minted_hash op \<noteq> Some h"
  ultimately show ?thesis using issue_spec_keys [of app scope rkey rid now M h] by auto
qed (auto simp: change_spec_keys auth_key_spec_def revoke_spec_def delete_app_spec_def upsert_spec_def drop_keys_def)

lemma spec_key_step:
  assumes ok: "tenants_ok M" "tenant_op_ok op M" and k: "t_keys M h = Some k"
  shows "t_keys (snd (tenant_spec op M)) h = (if kills (KeyAppID k) (KeyID k) op then None else Some k)"
proof (cases op)
  case (TCreateApp owner name ra rkey rid now)
  then have "h \<noteq> hashKey (''lb_'' @ hex_encode rkey)" using ok(2) k by (auto simp: fresh_key_def)
  then show ?thesis using create_spec_keys [of owner name ra rkey rid now M h] TCreateApp k by (simp add: kills_def)
next
  case (TIssueKey app scope rkey rid now)
  then have "h \<noteq> hashKey (''lb_'' @ hex_encode rkey)" using ok(2) k by (auto simp: fresh_key_def)
  then show ?thesis using issue_spec_keys [of app scope rkey rid now M h] TIssueKey k by (simp add: kills_def)
next
  case (TRevokeKey app kid)
  have "t_keys (snd (revoke_spec app kid M)) h = (if KeyID k = kid \<and> KeyAppID k = app then None else Some k)"
    using k by (simp add: revoke_spec_keys [OF ok(1)] drop_keys_def)
  then show ?thesis using TRevokeKey by (auto simp: kills_def)
next
  case (TDeleteApp app)
  have "t_apps M (KeyAppID k) \<noteq> None" using ok(1) k unfolding tenants_ok_def by blast
  then show ?thesis using TDeleteApp k by (auto simp: delete_app_spec_def kills_def drop_keys_def)
qed (use k in \<open>auto simp: kills_def change_spec_keys auth_key_spec_def upsert_spec_def\<close>)

lemma dead_run:
  assumes "t_keys M h = None" "\<forall>op \<in> set ops. minted_hash op \<noteq> Some h"
  shows "t_keys (snd (pipe_run tenant_spec ops M)) h = None"
  using assms by (induction ops arbitrary: M) (auto simp: case_prod_beta spec_keeps_dead)

lemma key_run:
  assumes "tenants_ok M" "guarded tenant_op_ok tenant_spec ops M" "t_keys M h = Some k" "\<forall>op \<in> set ops. minted_hash op \<noteq> Some h"
  shows "t_keys (snd (pipe_run tenant_spec ops M)) h = (if \<exists>op \<in> set ops. kills (KeyAppID k) (KeyID k) op then None else Some k)"
  using assms
proof (induction ops arbitrary: M)
  case (Cons op ops)
  define M1 where "M1 = snd (tenant_spec op M)"
  have g: "tenant_op_ok op M" "guarded tenant_op_ok tenant_spec ops M1" using Cons.prems(2) by (simp_all add: M1_def)
  have ok1: "tenants_ok M1" unfolding M1_def by (rule tenants_ok_spec [OF Cons.prems(1) g(1)])
  have st: "t_keys M1 h = (if kills (KeyAppID k) (KeyID k) op then None else Some k)"
    unfolding M1_def by (rule spec_key_step [OF Cons.prems(1) g(1) Cons.prems(3)])
  have r: "snd (pipe_run tenant_spec (op # ops) M) = snd (pipe_run tenant_spec ops M1)" by (simp add: case_prod_beta M1_def)
  show ?case
  proof (cases "kills (KeyAppID k) (KeyID k) op")
    case True
    then show ?thesis using dead_run [of M1 h ops] st Cons.prems(4) unfolding r by simp
  next
    case False
    then show ?thesis using Cons.IH [OF ok1 g(2)] st Cons.prems(4) unfolding r by simp
  qed
qed simp

text \<open>What a store answers to \<open>AuthKey\<close> after a key was issued and \<open>post\<close> happened.\<close>

lemma auth_after:
  assumes "tenants_ok M" "guarded tenant_op_ok tenant_spec (TIssueKey app scope rkey rid now # post) M" "t_apps M app \<noteq> None"
    and "\<forall>op \<in> set post. minted_hash op \<noteq> Some (hashKey (''lb_'' @ hex_encode rkey))"
  shows "let M' = snd (pipe_run tenant_spec (TIssueKey app scope rkey rid now # post) M) in
    fst (auth_key_spec (''lb_'' @ hex_encode rkey) M') =
      (if \<exists>op \<in> set post. kills app (''key_'' @ hex_encode rid) op then Inl ErrInvalidKey else Inr (the (t_apps M' app), normScope scope))"
proof -
  define p where "p = ''lb_'' @ hex_encode rkey"
  define k where "k = \<lparr>KeyID = ''key_'' @ hex_encode rid, KeyAppID = app, Prefix = keyPrefix p, Scope = normScope scope, KeyCreatedAt = now\<rparr>"
  define M1 where "M1 = snd (tenant_spec (TIssueKey app scope rkey rid now) M)"
  have g: "tenant_op_ok (TIssueKey app scope rkey rid now) M" "guarded tenant_op_ok tenant_spec post M1" using assms(2) by (simp_all add: M1_def)
  have ok1: "tenants_ok M1" unfolding M1_def by (rule tenants_ok_spec [OF assms(1) g(1)])
  obtain a where "t_apps M app = Some a" using assms(3) by auto
  then have k1: "t_keys M1 (hashKey p) = Some k" by (simp add: M1_def issue_spec_def Let_def p_def k_def)
  have "\<forall>op \<in> set post. minted_hash op \<noteq> Some (hashKey p)" using assms(4) by (simp add: p_def)
  from key_run [OF ok1 g(2) k1 this] show ?thesis
    unfolding Let_def p_def [symmetric] by (simp add: case_prod_beta M1_def [symmetric] auth_key_spec_def k_def del: tenant_spec.simps)
qed

definition life_pre :: "tenant_op list" where
  "life_pre = [TCreateApp ''usr_1'' ''Game'' [CHR ''a''] (replicate 32 CHR ''k'') [CHR ''i''] 0, TRevokeKey ''app_61'' ''key_69'']"

definition life_issue :: tenant_op where
  "life_issue = TIssueKey ''app_61'' ''publishable'' (replicate 32 CHR ''q'') [CHR ''j''] 0"

definition life_app :: TenantApp where
  "life_app = \<lparr>AppID = ''app_61'', AppName = ''Game'', OwnerUserID = ''usr_1'', AppCreatedAt = 0, RequireSigning = False,
     RequirePlayerTokens = False, SigningKeyVersion = 1\<rparr>"

lemma life_hex: "hex_digit 6 = CHR ''6''" "hex_digit (Suc 0) = CHR ''1''" "hex_digit 9 = CHR ''9''"
  by code_simp+

lemma life_start: "snd (pipe_run tenant_spec life_pre no_tenants) = \<lparr>t_apps = [''app_61'' \<mapsto> life_app], t_keys = Map.empty, t_boards = (\<lambda>_. Map.empty)\<rparr>"
proof -
  define h where "h = hashKey (''lb_'' @ hex_encode (replicate 32 CHR ''k''))"
  define k where "k = \<lparr>KeyID = ''key_69'', KeyAppID = ''app_61'', Prefix = keyPrefix (''lb_'' @ hex_encode (replicate 32 CHR ''k'')), Scope = normScope ScopeSecret, KeyCreatedAt = (0 :: gotime)\<rparr>"
  have "snd (create_app_spec ''usr_1'' ''Game'' [CHR ''a''] (replicate 32 CHR ''k'') [CHR ''i''] 0 no_tenants) =
      \<lparr>t_apps = [''app_61'' \<mapsto> life_app], t_keys = [h \<mapsto> k], t_boards = (\<lambda>_. Map.empty)\<rparr>"
    unfolding h_def k_def by (simp add: no_tenants_def create_app_spec_def issue_spec_def life_hex life_app_def Let_def case_prod_beta)
  moreover have "drop_keys (\<lambda>k. KeyID k = ''key_69'') [h \<mapsto> k] = Map.empty" by (auto simp: drop_keys_def k_def)
  ultimately show ?thesis by (simp add: life_pre_def case_prod_beta revoke_spec_def k_def)
qed

lemma life_guarded: "guarded tenant_op_ok tenant_spec (life_pre @ life_issue # [TGetApp ''app_61'']) no_tenants"
proof -
  have "guarded tenant_op_ok tenant_spec life_pre no_tenants"
    by (simp add: life_pre_def no_tenants_def fresh_key_def) code_simp
  moreover have "snd (ParseScope ''publishable'')" "json_year 0" by code_simp+
  ultimately show ?thesis by (simp add: guarded_append life_start life_issue_def fresh_key_def)
qed

text \<open>
  (C6) A key that was issued to an app, in whatever state the control plane was, authenticates its
  plaintext to that app with its scope after any further operations, as long as none of them
  revoked this key for this app or deleted the app; after one that did, it is refused for good. No
  operation on another app or key has any influence. Both stores.
\<close>

theorem key_lifetime:
  assumes "redis_kv C kks" "\<forall>k. kks s k = VNone"
    and "ops = pre @ TIssueKey app scope rkey rid now # post"
    and "guarded tenant_op_ok tenant_spec ops no_tenants" "t_apps (snd (pipe_run tenant_spec pre no_tenants)) app \<noteq> None"
    and "\<forall>op \<in> set post. minted_hash op \<noteq> Some (hashKey (''lb_'' @ hex_encode rkey))"
  shows "let plain = ''lb_'' @ hex_encode rkey;
      expected = TRAppKey (if \<exists>op \<in> set post. kills app (''key_'' @ hex_encode rid) op then Inl ErrInvalidKey
        else Inr (the (t_apps (snd (pipe_run tenant_spec ops no_tenants)) app), normScope scope)) in
    last (fst (pipe_run (tenant_exec (tenancy_redis C)) (ops @ [TAuthKey plain]) s)) = expected \<and>
    last (fst (pipe_run (tenant_exec tenancy_mem) (ops @ [TAuthKey plain]) NewTenancyMem)) = expected"
proof -
  define M where "M = snd (pipe_run tenant_spec pre no_tenants)"
  define plain where "plain = ''lb_'' @ hex_encode rkey"
  have g: "guarded tenant_op_ok tenant_spec (ops @ [TAuthKey plain]) no_tenants"
    "guarded tenant_op_ok tenant_spec pre no_tenants" "guarded tenant_op_ok tenant_spec (TIssueKey app scope rkey rid now # post) M"
    using assms(3,4) by (simp_all add: guarded_append M_def)
  have ok: "tenants_ok M" using tm.run_sim [OF tm_rel_start g(2)] by (simp add: M_def)
  have fin: "snd (pipe_run tenant_spec ops no_tenants) = snd (pipe_run tenant_spec (TIssueKey app scope rkey rid now # post) M)"
    unfolding assms(3) pipe_run_append M_def by (simp add: case_prod_beta)
  have "last (fst (pipe_run tenant_spec (ops @ [TAuthKey plain]) no_tenants)) =
      TRAppKey (fst (auth_key_spec plain (snd (pipe_run tenant_spec ops no_tenants))))"
    by (simp add: pipe_run_append case_prod_beta)
  moreover have "t_apps M app \<noteq> None" using assms(5) by (simp add: M_def)
  ultimately show ?thesis
    using auth_after [OF ok g(3) _ assms(6)] redis_tenants.redis_run [OF redis_tenants.intro [OF assms(1)] assms(2) g(1)] tm.run_sim [OF tm_rel_start g(1)]
    unfolding Let_def fin plain_def by simp
qed

theorem key_lifetime_witness:
  "last (fst (pipe_run (tenant_exec (tenancy_redis mem_kv)) ((life_pre @ life_issue # [TGetApp ''app_61'']) @ [TAuthKey (''lb_'' @ hex_encode (replicate 32 CHR ''q''))]) [])) =
   TRAppKey (Inr (life_app, ''publishable''))"
proof -
  let ?ops = "life_pre @ life_issue # [TGetApp ''app_61'']"
  have 1: "\<forall>k. mem_kks [] k = (VNone :: tval kview)" by (simp add: mem_kks_def)
  have 2: "t_apps (snd (pipe_run tenant_spec life_pre no_tenants)) ''app_61'' \<noteq> None" by (simp add: life_start)
  have 3: "\<forall>op \<in> set [TGetApp ''app_61'']. minted_hash op \<noteq> Some (hashKey (''lb_'' @ hex_encode (replicate 32 CHR ''q'')))" by simp
  have 4: "the (t_apps (snd (pipe_run tenant_spec ?ops no_tenants)) ''app_61'') = life_app"
    using life_start by (simp add: pipe_run_append case_prod_beta life_issue_def issue_spec_def Let_def)
  have 5: "(\<exists>op \<in> set [TGetApp ''app_61'']. kills ''app_61'' (''key_'' @ hex_encode [CHR ''j'']) op) \<longleftrightarrow> False" by (simp add: kills_def)
  have 6: "normScope ''publishable'' = ''publishable''" by (simp add: normScope_def)
  have 7: "?ops = life_pre @ TIssueKey ''app_61'' ''publishable'' (replicate 32 CHR ''q'') [CHR ''j''] 0 # [TGetApp ''app_61'']"
    by (simp add: life_issue_def)
  show ?thesis
    using key_lifetime [OF mem_kv.redis_kv_axioms 1 7 life_guarded 2 3] unfolding Let_def 4 5 6 if_False by (rule conjunct1)
qed

end
