(* ===== verification/Redis_TTL.thy ===== *)
theory Redis_TTL
  imports Redis_KV
begin

text \<open>
  Time to live: the contract of \<open>Redis_KV\<close> with a clock. Keys have a deadline, set by the commands
  that take a duration and forgotten with the key; as time passes a key disappears at its
  deadline. Durations are nanoseconds, as \<open>time.Duration\<close> counts them; the client library rounds
  them to the millisecond, so the contract speaks of whole milliseconds.
\<close>

definition whole_ms :: "int \<Rightarrow> bool" where
  "whole_ms d \<longleftrightarrow> 0 < d \<and> d mod 1000000 = 0"

definition due :: "int option \<Rightarrow> int \<Rightarrow> bool" where
  "due dl t = (case dl of None \<Rightarrow> False | Some x \<Rightarrow> x \<le> t)"

lemma due_simps [simp]: "due None t = False" "due (Some x) t = (x \<le> t)"
  by (simp_all add: due_def)

locale redis_ttl = redis_kv C kks for C :: "('s, 'v) kv" and kks :: "'s \<Rightarrow> string \<Rightarrow> 'v kview" +
  fixes deadline :: "'s \<Rightarrow> string \<Rightarrow> int option" and clock :: "'s \<Rightarrow> int" and elapse :: "int \<Rightarrow> 's \<Rightarrow> 's"
  assumes absent: "kks s k = VNone \<Longrightarrow> deadline s k = None"
    and SET_ttl: "d = 0 \<Longrightarrow> deadline (snd (SET C k v d s)) = (deadline s)(k := None)"
      "whole_ms d \<Longrightarrow> deadline (snd (SET C k v d s)) = (deadline s)(k := Some (clock s + d))"
      "clock (snd (SET C k v d s)) = clock s"
    and SETNX_ttl: "kks s k = VNone \<Longrightarrow> deadline (snd (SETNX C k v 0 s)) = deadline s"
      "clock (snd (SETNX C k v d s)) = clock s"
    and GETDEL_ttl: "deadline (snd (GETDEL C k s)) = (if \<exists>v. kks s k = VStr v then (deadline s)(k := None) else deadline s)"
      "clock (snd (GETDEL C k s)) = clock s"
    and KDEL_ttl: "deadline (snd (KDEL C k s)) = (deadline s)(k := None)" "clock (snd (KDEL C k s)) = clock s"
    and KEXPIRE_ttl: "kks s k \<noteq> VNone \<Longrightarrow> whole_ms d \<Longrightarrow> deadline (snd (KEXPIRE C k d s)) = (deadline s)(k := Some (clock s + d))"
      "clock (snd (KEXPIRE C k d s)) = clock s"
    and SADD_ttl: "deadline (snd (SADD C k x s)) = deadline s" "clock (snd (SADD C k x s)) = clock s"
    and SREM_ttl: "kks s k = set_view A \<Longrightarrow> deadline (snd (SREM C k x s)) = (if A - {x} = {} then (deadline s)(k := None) else deadline s)"
      "clock (snd (SREM C k x s)) = clock s"
    and elapse: "0 \<le> d \<Longrightarrow> clock (elapse d s) = clock s + d"
      "0 \<le> d \<Longrightarrow> kks (elapse d s) = (\<lambda>k. if due (deadline s k) (clock s + d) then VNone else kks s k)"
      "0 \<le> d \<Longrightarrow> deadline (elapse d s) = (\<lambda>k. if due (deadline s k) (clock s + d) then None else deadline s k)"

context redis_ttl
begin

text \<open>Each command as one step: its reply, the keyspace, the deadlines and the clock afterwards.\<close>

lemma SET_run: "\<exists>s'. SET C k v d s = (Reply (), s') \<and> kks s' = (kks s)(k := VStr v) \<and> clock s' = clock s \<and>
    (d = 0 \<longrightarrow> deadline s' = (deadline s)(k := None)) \<and> (whole_ms d \<longrightarrow> deadline s' = (deadline s)(k := Some (clock s + d)))"
  by (rule exI [of _ "snd (SET C k v d s)"]) (auto simp: SET SET_ttl prod_eq_iff)

lemma SETNX_run: "kks s k = VNone \<Longrightarrow> \<exists>s'. SETNX C k v 0 s = (Reply True, s') \<and> kks s' = (kks s)(k := VStr v) \<and> clock s' = clock s \<and> deadline s' = deadline s"
  by (rule exI [of _ "snd (SETNX C k v 0 s)"]) (auto simp: SETNX(1,2) SETNX_ttl prod_eq_iff)

lemma GETDEL_run: "kks s k = VStr v \<Longrightarrow> \<exists>s'. GETDEL C k s = (Reply v, s') \<and> kks s' = (kks s)(k := VNone) \<and> clock s' = clock s \<and> deadline s' = (deadline s)(k := None)"
  by (rule exI [of _ "snd (GETDEL C k s)"]) (auto simp: GETDEL(2,3) GETDEL_ttl prod_eq_iff)

lemma KDEL_run: "\<exists>s' n. KDEL C k s = (Reply n, s') \<and> kks s' = (kks s)(k := VNone) \<and> clock s' = clock s \<and> deadline s' = (deadline s)(k := None)"
  by (rule exI [of _ "snd (KDEL C k s)"]) (auto simp: KDEL KDEL_ttl prod_eq_iff)

lemma KEXPIRE_run: "kks s k \<noteq> VNone \<Longrightarrow> whole_ms d \<Longrightarrow> \<exists>s' b. KEXPIRE C k d s = (Reply b, s') \<and> kks s' = kks s \<and> clock s' = clock s \<and> deadline s' = (deadline s)(k := Some (clock s + d))"
  using KEXPIRE(1) [of k d s] by (intro exI [of _ "snd (KEXPIRE C k d s)"]) (auto simp: KEXPIRE(2) KEXPIRE_ttl prod_eq_iff)

lemma SADD_run: "kks s k = set_view A \<Longrightarrow> \<exists>s' n. SADD C k x s = (Reply n, s') \<and> kks s' = (kks s)(k := set_view (insert x A)) \<and> clock s' = clock s \<and> deadline s' = deadline s"
  using SADD(1) [of s k A x] by (intro exI [of _ "snd (SADD C k x s)"]) (auto simp: SADD(2) SADD_ttl prod_eq_iff)

lemma SREM_run: "kks s k = set_view A \<Longrightarrow> \<exists>s' n. SREM C k x s = (Reply n, s') \<and> kks s' = (kks s)(k := set_view (A - {x})) \<and> clock s' = clock s \<and>
    deadline s' = (if A - {x} = {} then (deadline s)(k := None) else deadline s)"
  using SREM(1) [of s k A x] by (intro exI [of _ "snd (SREM C k x s)"]) (simp add: SREM(2) SREM_ttl prod_eq_iff)

end

subsection \<open>An executable server with a clock\<close>

record 'v timed =
  t_mem :: "'v kmem"
  t_dl :: "string \<Rightarrow> int option"
  t_clock :: int

definition timed_kks :: "'v timed \<Rightarrow> string \<Rightarrow> 'v kview" where
  "timed_kks s = mem_kks (t_mem s)"

definition timed_deadline :: "'v timed \<Rightarrow> string \<Rightarrow> int option" where
  "timed_deadline s k = (if kgone (t_mem s) k then None else t_dl s k)"

text \<open>A command of the server without a clock, and what it does to the deadlines.\<close>

definition timed_cmd :: "('v kmem \<Rightarrow> 'a \<times> 'v kmem) \<Rightarrow> ((string \<Rightarrow> int option) \<Rightarrow> int \<Rightarrow> string \<Rightarrow> int option) \<Rightarrow> 'v timed \<Rightarrow> 'a \<times> 'v timed" where
  "timed_cmd c f s = (case c (t_mem s) of (r, m) \<Rightarrow> (r, s\<lparr>t_mem := m, t_dl := f (timed_deadline s) (t_clock s)\<rparr>))"

definition keep :: "(string \<Rightarrow> int option) \<Rightarrow> int \<Rightarrow> string \<Rightarrow> int option" where
  "keep dl now = dl"

definition from_now :: "string \<Rightarrow> int \<Rightarrow> (string \<Rightarrow> int option) \<Rightarrow> int \<Rightarrow> string \<Rightarrow> int option" where
  "from_now k d dl now = dl(k := if 0 < d then Some (now + d) else None)"

definition timed_read :: "('v kmem \<Rightarrow> 'a \<times> 'v kmem) \<Rightarrow> 'v timed \<Rightarrow> 'a \<times> 'v timed" where
  "timed_read c s = (fst (c (t_mem s)), s)"

definition timed_kv :: "('v timed, 'v) kv" where
  "timed_kv = \<lparr>
     GET = (\<lambda>k. timed_read (GET mem_kv k)),
     SET = (\<lambda>k v d. timed_cmd (SET mem_kv k v d) (from_now k d)),
     SETNX = (\<lambda>k v d s. if kgone (t_mem s) k then timed_cmd (SETNX mem_kv k v d) (from_now k d) s else (Reply False, s)),
     GETDEL = (\<lambda>k s. if kgone (t_mem s) k then (NilReply, s) else timed_cmd (GETDEL mem_kv k) keep s),
     KDEL = (\<lambda>k. timed_cmd (KDEL mem_kv k) keep),
     EXISTS = (\<lambda>k. timed_read (EXISTS mem_kv k)),
     KEXPIRE = (\<lambda>k d. timed_cmd (KEXPIRE mem_kv k d) (from_now k d)),
     SADD = (\<lambda>k x. timed_cmd (SADD mem_kv k x) keep),
     SREM = (\<lambda>k x. timed_cmd (SREM mem_kv k x) keep),
     SMEMBERS = (\<lambda>k. timed_read (SMEMBERS mem_kv k)),
     HGET = (\<lambda>k f. timed_read (HGET mem_kv k f)),
     HSET = (\<lambda>k f x. timed_cmd (HSET mem_kv k f x) keep),
     HSETNX = (\<lambda>k f x. timed_cmd (HSETNX mem_kv k f x) keep),
     HDEL = (\<lambda>k f. timed_cmd (HDEL mem_kv k f) keep),
     HMGET = (\<lambda>k fs. timed_read (HMGET mem_kv k fs)),
     HLEN = (\<lambda>k. timed_read (HLEN mem_kv k))\<rparr>"

definition timed_elapse :: "int \<Rightarrow> 'v timed \<Rightarrow> 'v timed" where
  "timed_elapse d s = s\<lparr>t_mem := filter (\<lambda>e. \<not> due (timed_deadline s (fst e)) (t_clock s + d)) (t_mem s), t_clock := t_clock s + d\<rparr>"

lemma timed_cmd_simps [simp]:
  "fst (timed_cmd c f s) = fst (c (t_mem s))" "t_mem (snd (timed_cmd c f s)) = snd (c (t_mem s))"
  "t_clock (snd (timed_cmd c f s)) = t_clock s"
  "timed_deadline (snd (timed_cmd c f s)) k = (if mem_kks (snd (c (t_mem s))) k = VNone then None else f (timed_deadline s) (t_clock s) k)"
  by (simp_all add: timed_cmd_def timed_kks_def timed_deadline_def kgone_view split: prod.splits)

lemma map_of_filter_fst: "map_of (filter (\<lambda>e. P (fst e)) xs) k = (if P k then map_of xs k else None)"
  by (induction xs) auto

lemma timed_elapse_mem: "mem_kks (t_mem (timed_elapse d s)) k = (if due (timed_deadline s k) (t_clock s + d) then VNone else mem_kks (t_mem s) k)"
  unfolding timed_elapse_def mem_kks_def
  by (simp add: map_of_filter_fst [where P = "\<lambda>k. \<not> due (timed_deadline s k) (t_clock s + d)"])

interpretation timed_kv: redis_kv timed_kv timed_kks
proof (unfold_locales, goal_cases)
  case (20 s k A)
  then show ?case using mem_kv.SMEMBERS [of "t_mem s" k A] by (auto simp: timed_kv_def timed_read_def timed_kks_def)
qed (simp_all add: timed_kv_def timed_read_def kgone_view timed_kks_def mem_kv.GET mem_kv.SET mem_kv.SETNX mem_kv.GETDEL mem_kv.KDEL
  mem_kv.EXISTS mem_kv.KEXPIRE mem_kv.SADD mem_kv.SREM mem_kv.HGET mem_kv.HSET mem_kv.HSETNX mem_kv.HDEL mem_kv.HMGET mem_kv.HLEN)

lemma timed_absent: "mem_kks (t_mem s) k = VNone \<Longrightarrow> timed_deadline s k = None"
  by (simp add: timed_deadline_def kgone_view)

lemma mem_SADD_present: "mem_kks m j \<noteq> VNone \<Longrightarrow> mem_kks (snd (SADD mem_kv k x m)) j \<noteq> VNone"
  by (auto simp: mem_kv_def with_set_def mem_kks_kput set_view_def split: option.splits if_splits)

interpretation timed_kv: redis_ttl timed_kv timed_kks timed_deadline t_clock timed_elapse
proof (unfold_locales, goal_cases)
  case (1 s k)
  then show ?case by (simp add: timed_kks_def timed_absent)
next
  case (2 d k v s)
  then show ?case by (auto simp: timed_kv_def mem_kv.SET from_now_def fun_eq_iff timed_absent)
next
  case (3 d k v s)
  then show ?case by (auto simp: timed_kv_def mem_kv.SET from_now_def fun_eq_iff timed_absent whole_ms_def)
next
  case (5 s k v)
  then show ?case by (auto simp: timed_kv_def mem_kv.SETNX from_now_def fun_eq_iff timed_absent timed_kks_def kgone_view)
next
  case (7 k s)
  show ?case
  proof (cases "\<exists>v. timed_kks s k = VStr v")
    case True
    then show ?thesis by (auto simp: timed_kv_def mem_kv.GETDEL keep_def fun_eq_iff timed_absent timed_kks_def kgone_view)
  next
    case False
    then have "snd (GETDEL mem_kv k (t_mem s)) = t_mem s"
      by (auto simp: mem_kv_def timed_kks_def kstr_def mem_kks_def wrongtype_def split: option.splits kval.splits if_splits)
    with False show ?thesis by (auto simp: timed_kv_def keep_def fun_eq_iff timed_absent)
  qed
next
  case (9 k s)
  then show ?case by (auto simp: timed_kv_def mem_kv.KDEL keep_def fun_eq_iff timed_absent)
next
  case (11 s k d)
  then show ?case by (auto simp: timed_kv_def mem_kv.KEXPIRE from_now_def fun_eq_iff timed_absent timed_kks_def whole_ms_def)
next
  case (13 k x s)
  have "timed_deadline s j = None" if "mem_kks (snd (SADD mem_kv k x (t_mem s))) j = VNone" for j
    using mem_SADD_present [of "t_mem s" j k x] that by (auto intro: timed_absent)
  then show ?case by (auto simp: timed_kv_def keep_def fun_eq_iff)
next
  case (15 s k A x)
  then show ?case by (auto simp: timed_kv_def mem_kv.SREM keep_def fun_eq_iff timed_absent timed_kks_def set_view_def)
next
  case (18 d s)
  then show ?case by (simp add: fun_eq_iff timed_kks_def timed_elapse_mem)
next
  case (19 d s)
  have "timed_deadline (timed_elapse d s) k = (if mem_kks (t_mem (timed_elapse d s)) k = VNone then None else t_dl s k)" for k
    by (simp add: timed_deadline_def kgone_view timed_elapse_def)
  then show ?case by (auto simp: fun_eq_iff timed_elapse_mem timed_deadline_def kgone_view)
qed (simp_all add: timed_kv_def timed_elapse_def)

end
