(* ===== verification/Accounts.thy ===== *)
theory Accounts
  imports Go_Unicode Go_Crypto Refine Redis_TTL
begin

text \<open>
  Dashboard accounts (\<open>pkg/accounts\<close>) and the mail they send (\<open>pkg/email\<close>): users with bcrypt
  passwords, login sessions, one-time tokens for verification and password reset. The three stores
  are records of operations, \<open>MemStores\<close> implements them in memory, and the service is written
  over any stores. Random bytes and the clock are arguments; bcrypt is third-party code and a
  parameter. Logged-out users, expired sessions and used tokens are decided by a specification
  with a clock; \<open>account_stores\<close> is the contract of a store that simulates it.
\<close>

subsection \<open>Data (\<open>store.go\<close>, \<open>ids.go\<close>, \<open>email.go\<close>)\<close>

record Account =
  AcctID :: string
  Email :: string
  PasswordHash :: string
  EmailVerified :: bool
  AcctCreatedAt :: gotime

definition zero_account :: Account where
  "zero_account = \<lparr>AcctID = [], Email = [], PasswordHash = [], EmailVerified = False, AcctCreatedAt = 0\<rparr>"

record 's UserStore =
  CreateUser :: "Account \<Rightarrow> ('s, unit) io"
  GetByEmail :: "string \<Rightarrow> ('s, Account) io"
  GetByID :: "string \<Rightarrow> ('s, Account) io"
  UpdateUser :: "Account \<Rightarrow> ('s, unit) io"

record 's SessionStore =
  SessCreate :: "string \<Rightarrow> int \<Rightarrow> err + string \<Rightarrow> ('s, string) io"
  SessUserID :: "string \<Rightarrow> ('s, string) io"
  SessDelete :: "string \<Rightarrow> ('s, unit) io"
  SessDeleteAll :: "string \<Rightarrow> ('s, unit) io"

record 's TokenStore =
  Issue :: "string \<Rightarrow> string \<Rightarrow> int \<Rightarrow> err + string \<Rightarrow> ('s, string) io"
  Consume :: "string \<Rightarrow> string \<Rightarrow> ('s, string) io"

record Message =
  To :: string
  Subject :: string
  MsgText :: string

definition acct_randHex :: "err + string \<Rightarrow> err + string" where
  "acct_randHex rnd = (case rnd of Inl e \<Rightarrow> Inl e | Inr b \<Rightarrow> Inr (hex_encode b))"

definition acct_newID :: "string \<Rightarrow> err + string \<Rightarrow> err + string" where
  "acct_newID prefix rnd = (case acct_randHex rnd of Inl e \<Rightarrow> Inl e | Inr h \<Rightarrow> Inr (prefix @ h))"

definition newToken :: "err + string \<Rightarrow> err + string" where
  "newToken rnd = acct_randHex rnd"

definition normalizeEmail :: "(int \<Rightarrow> int) \<Rightarrow> string \<Rightarrow> string" where
  "normalizeEmail low email = ToLower low (TrimSpace email)"

text \<open>
  \<open>^[^@\s]+@[^@\s]+\.[^@\s]+$\<close>: the separators are ASCII, so matching runes and matching bytes
  agree. There is a match when a dot stands strictly inside the part behind the only at sign.
\<close>

definition re_space :: "char \<Rightarrow> bool" where
  "re_space c \<longleftrightarrow> c \<in> {CHR 0x09, CHR 0x0A, CHR 0x0C, CHR 0x0D, CHR 0x20}"

definition emailRe :: "string \<Rightarrow> bool" where
  "emailRe s =
     (let user = takeWhile (\<lambda>c. c \<noteq> CHR ''@'') s; host = drop (length user + 1) s in
      user \<noteq> [] \<and> length user < length s \<and> CHR ''@'' \<notin> set host \<and> list_all (\<lambda>c. \<not> re_space c) s \<and>
      list_ex (\<lambda>i. host ! i = CHR ''.'') [1..<length host - 1])"

subsection \<open>The in-memory stores (\<open>memstore.go\<close>)\<close>

text \<open>The time to live is ignored: nothing expires.\<close>

record AcctMem =
  am_users :: "string \<Rightarrow> Account option"
  am_emailIdx :: "string \<Rightarrow> string option"
  am_sessions :: "string \<Rightarrow> string option"
  am_userSess :: "string \<Rightarrow> string list option"
  am_tokens :: "string \<Rightarrow> string option"

definition NewAcctMem :: AcctMem where
  "NewAcctMem = \<lparr>am_users = Map.empty, am_emailIdx = Map.empty, am_sessions = Map.empty, am_userSess = Map.empty, am_tokens = Map.empty\<rparr>"

definition am_CreateUser :: "Account \<Rightarrow> (AcctMem, unit) io" where
  "am_CreateUser u m =
     (case am_emailIdx m (Email u) of Some _ \<Rightarrow> (Inl ErrEmailTaken, m)
      | None \<Rightarrow> (Inr (), m\<lparr>am_users := (am_users m)(AcctID u \<mapsto> u), am_emailIdx := (am_emailIdx m)(Email u \<mapsto> AcctID u)\<rparr>))"

definition am_GetByEmail :: "string \<Rightarrow> (AcctMem, Account) io" where
  "am_GetByEmail email m =
     (case am_emailIdx m email of None \<Rightarrow> (Inl ErrUserNotFound, m)
      | Some i \<Rightarrow> (Inr (case am_users m i of None \<Rightarrow> zero_account | Some u \<Rightarrow> u), m))"

definition am_GetByID :: "string \<Rightarrow> (AcctMem, Account) io" where
  "am_GetByID i m = (case am_users m i of None \<Rightarrow> (Inl ErrUserNotFound, m) | Some u \<Rightarrow> (Inr u, m))"

definition am_Update :: "Account \<Rightarrow> (AcctMem, unit) io" where
  "am_Update u m =
     (case am_users m (AcctID u) of None \<Rightarrow> (Inl ErrUserNotFound, m)
      | Some _ \<Rightarrow> (Inr (), m\<lparr>am_users := (am_users m)(AcctID u \<mapsto> u)\<rparr>))"

definition am_Create :: "string \<Rightarrow> int \<Rightarrow> err + string \<Rightarrow> (AcctMem, string) io" where
  "am_Create userID ttl rnd m =
     (case newToken rnd of Inl e \<Rightarrow> (Inl e, m)
      | Inr tok \<Rightarrow>
          let toks = (case am_userSess m userID of None \<Rightarrow> [] | Some ts \<Rightarrow> ts) in
          (Inr tok, m\<lparr>am_sessions := (am_sessions m)(tok \<mapsto> userID),
             am_userSess := (am_userSess m)(userID \<mapsto> List.insert tok toks)\<rparr>))"

definition am_UserID :: "string \<Rightarrow> (AcctMem, string) io" where
  "am_UserID token m = (case am_sessions m token of None \<Rightarrow> (Inl ErrNoSession, m) | Some uid \<Rightarrow> (Inr uid, m))"

definition am_Delete :: "string \<Rightarrow> (AcctMem, unit) io" where
  "am_Delete token m =
     (case am_sessions m token of None \<Rightarrow> (Inr (), m)
      | Some uid \<Rightarrow>
          (Inr (), m\<lparr>am_sessions := (am_sessions m)(token := None),
             am_userSess := (case am_userSess m uid of None \<Rightarrow> am_userSess m | Some ts \<Rightarrow> (am_userSess m)(uid \<mapsto> removeAll token ts))\<rparr>))"

definition am_DeleteAllForUser :: "string \<Rightarrow> (AcctMem, unit) io" where
  "am_DeleteAllForUser userID m =
     (let toks = (case am_userSess m userID of None \<Rightarrow> [] | Some ts \<Rightarrow> ts) in
      (Inr (), m\<lparr>am_sessions := foldl (\<lambda>ses t. ses(t := None)) (am_sessions m) toks, am_userSess := (am_userSess m)(userID := None)\<rparr>))"

definition mem_token_key :: "string \<Rightarrow> string \<Rightarrow> string" where
  "mem_token_key purpose token = purpose @ ''|'' @ token"

definition am_Issue :: "string \<Rightarrow> string \<Rightarrow> int \<Rightarrow> err + string \<Rightarrow> (AcctMem, string) io" where
  "am_Issue purpose userID ttl rnd m =
     (case newToken rnd of Inl e \<Rightarrow> (Inl e, m)
      | Inr tok \<Rightarrow> (Inr tok, m\<lparr>am_tokens := (am_tokens m)(mem_token_key purpose tok \<mapsto> userID)\<rparr>))"

definition am_Consume :: "string \<Rightarrow> string \<Rightarrow> (AcctMem, string) io" where
  "am_Consume purpose token m =
     (let key = mem_token_key purpose token in
      case am_tokens m key of None \<Rightarrow> (Inl ErrBadToken, m)
      | Some uid \<Rightarrow> (Inr uid, m\<lparr>am_tokens := (am_tokens m)(key := None)\<rparr>))"

definition mem_users :: "AcctMem UserStore" where
  "mem_users = \<lparr>CreateUser = am_CreateUser, GetByEmail = am_GetByEmail, GetByID = am_GetByID, UpdateUser = am_Update\<rparr>"

definition mem_sessions :: "AcctMem SessionStore" where
  "mem_sessions = \<lparr>SessCreate = am_Create, SessUserID = am_UserID, SessDelete = am_Delete, SessDeleteAll = am_DeleteAllForUser\<rparr>"

definition mem_tokens :: "AcctMem TokenStore" where
  "mem_tokens = \<lparr>Issue = am_Issue, Consume = am_Consume\<rparr>"

subsection \<open>The service (\<open>service.go\<close>)\<close>

definition purposeVerify :: string where "purposeVerify = ''verify''"
definition purposeReset :: string where "purposeReset = ''reset''"

record AcctConfig =
  BaseURL :: string
  cSessionTTL :: int
  VerifyTTL :: int
  ResetTTL :: int

text \<open>The stores share the state \<open>'s\<close>; the mail sender has its own, \<open>'e\<close>.\<close>

record ('s, 'e) Service =
  svc_users :: "'s UserStore"
  svc_sessions :: "'s SessionStore"
  svc_tokens :: "'s TokenStore"
  svc_mail :: "Message \<Rightarrow> ('e, unit) io"
  svc_cfg :: AcctConfig

definition hour :: int where "hour = 3600 * second"

definition NewService :: "'s UserStore \<Rightarrow> 's SessionStore \<Rightarrow> 's TokenStore \<Rightarrow> (Message \<Rightarrow> ('e, unit) io) \<Rightarrow> AcctConfig \<Rightarrow> ('s, 'e) Service" where
  "NewService users sessions tokens mail cfg =
     (let cfg = (if cSessionTTL cfg = 0 then cfg\<lparr>cSessionTTL := 30 * 24 * hour\<rparr> else cfg);
          cfg = (if VerifyTTL cfg = 0 then cfg\<lparr>VerifyTTL := 24 * hour\<rparr> else cfg);
          cfg = (if ResetTTL cfg = 0 then cfg\<lparr>ResetTTL := hour\<rparr> else cfg);
          cfg = (if BaseURL cfg = [] then cfg\<lparr>BaseURL := ''http://localhost:8080''\<rparr> else cfg)
      in \<lparr>svc_users = users, svc_sessions = sessions, svc_tokens = tokens, svc_mail = mail, svc_cfg = cfg\<rparr>)"

definition SessionTTL :: "('s, 'e) Service \<Rightarrow> int" where
  "SessionTTL S = cSessionTTL (svc_cfg S)"

text \<open>
  bcrypt: \<open>GenerateFromPassword\<close> with the random salt it draws, and whether
  \<open>CompareHashAndPassword\<close> returns nil.
\<close>

record bcrypt =
  GenerateFromPassword :: "string \<Rightarrow> string \<Rightarrow> err + string"
  CompareHashAndPassword :: "string \<Rightarrow> string \<Rightarrow> bool"

definition on_fst :: "('s, 'a) io \<Rightarrow> ('s \<times> 'e, 'a) io" where
  "on_fst m = (\<lambda>(s, e). case m s of (r, s') \<Rightarrow> (r, (s', e)))"

definition on_snd :: "('e, 'a) io \<Rightarrow> ('s \<times> 'e, 'a) io" where
  "on_snd m = (\<lambda>(s, e). case m e of (r, e') \<Rightarrow> (r, (s, e')))"

text \<open>A call whose error is handled rather than returned.\<close>

definition io_try :: "('s, 'a) io \<Rightarrow> (err \<Rightarrow> ('s, 'b) io) \<Rightarrow> ('a \<Rightarrow> ('s, 'b) io) \<Rightarrow> ('s, 'b) io" where
  "io_try m h f = (\<lambda>s. case m s of (Inl e, s') \<Rightarrow> h e s' | (Inr a, s') \<Rightarrow> f a s')"

definition nl :: string where "nl = [CHR 0x0A]"

definition verify_link :: "AcctConfig \<Rightarrow> string \<Rightarrow> string" where
  "verify_link cfg tok = BaseURL cfg @ ''/auth/verify?token='' @ tok"

definition verify_mail :: "AcctConfig \<Rightarrow> string \<Rightarrow> string \<Rightarrow> Message" where
  "verify_mail cfg to tok = \<lparr>To = to, Subject = ''Verify your email'',
     MsgText = ''Welcome to OpenLeaderboard!'' @ nl @ nl @ ''Confirm your email to activate your account:'' @ nl @
       verify_link cfg tok @ nl @ nl @ ''This link expires in 24 hours.''\<rparr>"

definition sendVerification :: "('s, 'e) Service \<Rightarrow> Account \<Rightarrow> err + string \<Rightarrow> ('s \<times> 'e, unit) io" where
  "sendVerification S u rtok =
     io_bind (on_fst (Issue (svc_tokens S) purposeVerify (AcctID u) (VerifyTTL (svc_cfg S)) rtok)) (\<lambda>tok.
     on_snd (svc_mail S (verify_mail (svc_cfg S) (Email u) tok)))"

text \<open>When only the mail fails, the code returns the user beside the error; the callers look at the error first.\<close>

definition Signup :: "('s, 'e) Service \<Rightarrow> bcrypt \<Rightarrow> (int \<Rightarrow> int) \<Rightarrow> string \<Rightarrow> string \<Rightarrow> string \<Rightarrow> err + string \<Rightarrow> err + string \<Rightarrow> gotime \<Rightarrow> ('s \<times> 'e, Account) io" where
  "Signup S bc low emailAddr password salt rid rtok now =
     (let emailAddr = normalizeEmail low emailAddr in
      if \<not> emailRe emailAddr then io_fail ErrInvalidEmail
      else if length password < 8 then io_fail ErrWeakPassword
      else io_bind (io_lift (GenerateFromPassword bc password salt)) (\<lambda>hash.
        io_bind (io_lift (acct_newID ''usr_'' rid)) (\<lambda>i.
        let u = \<lparr>AcctID = i, Email = emailAddr, PasswordHash = hash, EmailVerified = False, AcctCreatedAt = now\<rparr> in
        io_bind (on_fst (CreateUser (svc_users S) u)) (\<lambda>_.
        io_bind (sendVerification S u rtok) (\<lambda>_. io_ret u)))))"

definition AcctVerify :: "('s, 'e) Service \<Rightarrow> string \<Rightarrow> ('s \<times> 'e, unit) io" where
  "AcctVerify S token =
     io_bind (on_fst (Consume (svc_tokens S) purposeVerify token)) (\<lambda>uid.
     io_bind (on_fst (GetByID (svc_users S) uid)) (\<lambda>u.
     on_fst (UpdateUser (svc_users S) (u\<lparr>EmailVerified := True\<rparr>))))"

definition ResendVerification :: "('s, 'e) Service \<Rightarrow> (int \<Rightarrow> int) \<Rightarrow> string \<Rightarrow> err + string \<Rightarrow> ('s \<times> 'e, unit) io" where
  "ResendVerification S low emailAddr rtok =
     io_try (on_fst (GetByEmail (svc_users S) (normalizeEmail low emailAddr)))
       (\<lambda>e. if e = ErrUserNotFound then io_ret () else io_fail e)
       (\<lambda>u. if EmailVerified u then io_ret () else sendVerification S u rtok)"

definition Login :: "('s, 'e) Service \<Rightarrow> bcrypt \<Rightarrow> (int \<Rightarrow> int) \<Rightarrow> string \<Rightarrow> string \<Rightarrow> err + string \<Rightarrow> ('s \<times> 'e, string \<times> Account) io" where
  "Login S bc low emailAddr password rtok =
     io_try (on_fst (GetByEmail (svc_users S) (normalizeEmail low emailAddr))) (\<lambda>e. io_fail ErrInvalidCredentials) (\<lambda>u.
       if \<not> CompareHashAndPassword bc (PasswordHash u) password then io_fail ErrInvalidCredentials
       else if \<not> EmailVerified u then io_fail ErrEmailNotVerified
       else io_bind (on_fst (SessCreate (svc_sessions S) (AcctID u) (cSessionTTL (svc_cfg S)) rtok)) (\<lambda>token. io_ret (token, u)))"

definition Logout :: "('s, 'e) Service \<Rightarrow> string \<Rightarrow> ('s \<times> 'e, unit) io" where
  "Logout S token = on_fst (SessDelete (svc_sessions S) token)"

definition reset_link :: "AcctConfig \<Rightarrow> string \<Rightarrow> string" where
  "reset_link cfg tok = BaseURL cfg @ ''/reset?token='' @ tok"

definition reset_mail :: "AcctConfig \<Rightarrow> string \<Rightarrow> string \<Rightarrow> Message" where
  "reset_mail cfg to tok = \<lparr>To = to, Subject = ''Reset your password'',
     MsgText = ''A password reset was requested for your OpenLeaderboard account.'' @ nl @ nl @ ''Reset it here:'' @ nl @
       reset_link cfg tok @ nl @ nl @ ''This link expires in 1 hour. If you didn't request this, ignore this email.''\<rparr>"

definition RequestReset :: "('s, 'e) Service \<Rightarrow> (int \<Rightarrow> int) \<Rightarrow> string \<Rightarrow> err + string \<Rightarrow> ('s \<times> 'e, unit) io" where
  "RequestReset S low emailAddr rtok =
     io_try (on_fst (GetByEmail (svc_users S) (normalizeEmail low emailAddr)))
       (\<lambda>e. if e = ErrUserNotFound then io_ret () else io_fail e)
       (\<lambda>u. io_bind (on_fst (Issue (svc_tokens S) purposeReset (AcctID u) (ResetTTL (svc_cfg S)) rtok)) (\<lambda>tok.
         on_snd (svc_mail S (reset_mail (svc_cfg S) (Email u) tok))))"

definition ResetPassword :: "('s, 'e) Service \<Rightarrow> bcrypt \<Rightarrow> string \<Rightarrow> string \<Rightarrow> string \<Rightarrow> ('s \<times> 'e, unit) io" where
  "ResetPassword S bc token newPassword salt =
     (if length newPassword < 8 then io_fail ErrWeakPassword
      else io_bind (on_fst (Consume (svc_tokens S) purposeReset token)) (\<lambda>uid.
        io_bind (on_fst (GetByID (svc_users S) uid)) (\<lambda>u.
        io_bind (io_lift (GenerateFromPassword bc newPassword salt)) (\<lambda>hash.
        io_bind (on_fst (UpdateUser (svc_users S) (u\<lparr>PasswordHash := hash\<rparr>))) (\<lambda>_.
        on_fst (SessDeleteAll (svc_sessions S) uid))))))"

definition UserFromSession :: "('s, 'e) Service \<Rightarrow> string \<Rightarrow> ('s \<times> 'e, Account) io" where
  "UserFromSession S token =
     io_bind (on_fst (SessUserID (svc_sessions S) token)) (\<lambda>uid. on_fst (GetByID (svc_users S) uid))"

subsection \<open>Mail senders (\<open>email.go\<close>)\<close>

definition box_line :: "nat \<Rightarrow> string" where
  "box_line n = concat (replicate n [CHR 0xE2, CHR 0x94, CHR 0x80])"

text \<open>The console sender appends to its writer; a failing writer goes unnoticed.\<close>

definition console_Send :: "Message \<Rightarrow> (string, unit) io" where
  "console_Send m out = (Inr (), out @ nl @ box_line 8 @ '' EMAIL (console) '' @ box_line 8 @ nl @
     ''To:      '' @ To m @ nl @ ''Subject: '' @ Subject m @ nl @ nl @ MsgText m @ nl @ box_line 33 @ nl @ nl)"

record 'auth SMTPSender =
  smtp_addr :: string
  smtp_from :: string
  smtp_auth :: "'auth option"

definition NewSMTPSender :: "(string \<Rightarrow> string \<Rightarrow> string \<Rightarrow> string \<Rightarrow> 'auth) \<Rightarrow> string \<Rightarrow> int \<Rightarrow> string \<Rightarrow> string \<Rightarrow> string \<Rightarrow> 'auth SMTPSender" where
  "NewSMTPSender PlainAuth host port username password from =
     \<lparr>smtp_addr = host @ '':'' @ itoa port, smtp_from = from,
      smtp_auth = (if username \<noteq> [] then Some (PlainAuth [] username password host) else None)\<rparr>"

definition crlf :: string where "crlf = [CHR 0x0D, CHR 0x0A]"

definition smtp_text :: "string \<Rightarrow> Message \<Rightarrow> string" where
  "smtp_text from m = ''From: '' @ from @ crlf @ ''To: '' @ To m @ crlf @ ''Subject: '' @ Subject m @ crlf @
     ''MIME-Version: 1.0'' @ crlf @ ''Content-Type: text/plain; charset=UTF-8'' @ crlf @ crlf @ MsgText m"

text \<open>\<open>SendMail\<close> is \<open>net/smtp\<close>: it talks to the mail server.\<close>

definition smtp_Send :: "(string \<Rightarrow> 'auth option \<Rightarrow> string \<Rightarrow> string list \<Rightarrow> string \<Rightarrow> ('e, unit) io) \<Rightarrow> 'auth SMTPSender \<Rightarrow> Message \<Rightarrow> ('e, unit) io" where
  "smtp_Send SendMail s m = SendMail (smtp_addr s) (smtp_auth s) (smtp_from s) [To m] (smtp_text (smtp_from s) m)"

end
