(* ===== verification/Accounts_Spec.thy ===== *)
theory Accounts_Spec
  imports Accounts
begin

text \<open>
  What the account stores promise: a specification with a clock, the contract of a store that
  simulates it, and the service over it. The sessions and tokens of the specification carry the
  instant at which they end; \<open>a_issued\<close> remembers every token ever drawn, so that an
  operation can demand a fresh one.
\<close>

record accts =
  a_users :: "string \<Rightarrow> Account option"
  a_emails :: "string \<Rightarrow> string option"
  a_sess :: "string \<Rightarrow> (string \<times> int) option"
  a_toks :: "string \<times> string \<Rightarrow> (string \<times> int) option"
  a_now :: int
  a_issued :: "string set"

definition no_accts :: accts where
  "no_accts = \<lparr>a_users = Map.empty, a_emails = Map.empty, a_sess = Map.empty, a_toks = Map.empty, a_now = 0, a_issued = {}\<rparr>"

definition users_spec :: "accts UserStore" where
  "users_spec = \<lparr>
     CreateUser = (\<lambda>u M. if a_emails M (Email u) \<noteq> None then (Inl ErrEmailTaken, M)
       else (Inr (), M\<lparr>a_users := (a_users M)(AcctID u \<mapsto> u), a_emails := (a_emails M)(Email u \<mapsto> AcctID u)\<rparr>)),
     GetByEmail = (\<lambda>e M. case a_emails M e of None \<Rightarrow> (Inl ErrUserNotFound, M)
       | Some i \<Rightarrow> (case a_users M i of None \<Rightarrow> (Inl ErrUserNotFound, M) | Some u \<Rightarrow> (Inr u, M))),
     GetByID = (\<lambda>i M. case a_users M i of None \<Rightarrow> (Inl ErrUserNotFound, M) | Some u \<Rightarrow> (Inr u, M)),
     UpdateUser = (\<lambda>u M. (Inr (), M\<lparr>a_users := (a_users M)(AcctID u \<mapsto> u)\<rparr>))\<rparr>"

definition drop_sess :: "(string \<Rightarrow> string \<times> int \<Rightarrow> bool) \<Rightarrow> (string \<Rightarrow> (string \<times> int) option) \<Rightarrow> string \<Rightarrow> (string \<times> int) option" where
  "drop_sess P S = (\<lambda>t. case S t of None \<Rightarrow> None | Some x \<Rightarrow> if P t x then None else Some x)"

definition sessions_spec :: "accts SessionStore" where
  "sessions_spec = \<lparr>
     SessCreate = (\<lambda>uid ttl rnd M. case newToken rnd of Inl e \<Rightarrow> (Inl e, M)
       | Inr tok \<Rightarrow> (Inr tok, M\<lparr>a_sess := (a_sess M)(tok \<mapsto> (uid, a_now M + ttl)), a_issued := insert tok (a_issued M)\<rparr>)),
     SessUserID = (\<lambda>t M. case a_sess M t of None \<Rightarrow> (Inl ErrNoSession, M) | Some (uid, _) \<Rightarrow> (Inr uid, M)),
     SessDelete = (\<lambda>t M. (Inr (), M\<lparr>a_sess := (a_sess M)(t := None)\<rparr>)),
     SessDeleteAll = (\<lambda>uid M. (Inr (), M\<lparr>a_sess := drop_sess (\<lambda>t x. fst x = uid) (a_sess M)\<rparr>))\<rparr>"

definition tokens_spec :: "accts TokenStore" where
  "tokens_spec = \<lparr>
     Issue = (\<lambda>p uid ttl rnd M. case newToken rnd of Inl e \<Rightarrow> (Inl e, M)
       | Inr tok \<Rightarrow> (Inr tok, M\<lparr>a_toks := (a_toks M)((p, tok) \<mapsto> (uid, a_now M + ttl)), a_issued := insert tok (a_issued M)\<rparr>)),
     Consume = (\<lambda>p t M. case a_toks M (p, t) of None \<Rightarrow> (Inl ErrBadToken, M)
       | Some (uid, _) \<Rightarrow> (Inr uid, M\<lparr>a_toks := (a_toks M)((p, t) := None)\<rparr>))\<rparr>"

text \<open>The passing of time ends what is due.\<close>

definition pass :: "int \<Rightarrow> accts \<Rightarrow> accts" where
  "pass d M = (let now = a_now M + d; ended = (\<lambda>x. case x of None \<Rightarrow> None | Some (uid, dl) \<Rightarrow> if dl \<le> now then None else Some (uid, dl)) in
     M\<lparr>a_now := now, a_sess := (\<lambda>t. ended (a_sess M t)), a_toks := (\<lambda>pt. ended (a_toks M pt))\<rparr>)"

subsection \<open>The contract\<close>

text \<open>
  Random tokens are fresh, sessions of a user get equal times to live, users are written back
  under the email they have: what the service provides for. Time passes for the stores that know
  about it, by durations that \<open>elapses\<close> admits.
\<close>

definition account_json :: "Account \<Rightarrow> bool" where
  "account_json u \<longleftrightarrow> utf8 (AcctID u) \<and> utf8 (Email u) \<and> utf8 (PasswordHash u) \<and> json_year (AcctCreatedAt u)"

definition accts_ok :: "accts \<Rightarrow> bool" where
  "accts_ok M \<longleftrightarrow>
     (\<forall>i u. a_users M i = Some u \<longrightarrow> AcctID u = i \<and> a_emails M (Email u) = Some i \<and> account_json u) \<and>
     (\<forall>e i. a_emails M e = Some i \<longrightarrow> (\<exists>u. a_users M i = Some u \<and> Email u = e)) \<and>
     (\<forall>t uid dl. a_sess M t = Some (uid, dl) \<longrightarrow> t \<in> a_issued M \<and> a_now M < dl) \<and>
     (\<forall>p t uid dl. a_toks M (p, t) = Some (uid, dl) \<longrightarrow> t \<in> a_issued M \<and> a_now M < dl)"

definition purpose :: "string \<Rightarrow> bool" where
  "purpose p \<longleftrightarrow> p = purposeVerify \<or> p = purposeReset"

definition sess_fits :: "string \<Rightarrow> int \<Rightarrow> accts \<Rightarrow> bool" where
  "sess_fits uid ttl M \<longleftrightarrow> whole_ms ttl \<and> (\<forall>t dl. a_sess M t = Some (uid, dl) \<longrightarrow> dl \<le> a_now M + ttl)"

locale account_stores =
  fixes U :: "'s UserStore" and S :: "'s SessionStore" and T :: "'s TokenStore" and R :: "'s \<Rightarrow> accts \<Rightarrow> bool"
    and elapses :: "int \<Rightarrow> bool" and el :: "int \<Rightarrow> 's \<Rightarrow> 's"
  assumes rel_ok: "R s M \<Longrightarrow> accts_ok M"
    and CreateUser_sim: "sim R (\<lambda>M. account_json u \<and> a_users M (AcctID u) = None) (CreateUser U u) (CreateUser users_spec u)"
    and GetByEmail_sim: "sim R (\<lambda>M. True) (GetByEmail U e) (GetByEmail users_spec e)"
    and GetByID_sim: "sim R (\<lambda>M. True) (GetByID U i) (GetByID users_spec i)"
    and Update_sim: "sim R (\<lambda>M. account_json u \<and> (\<exists>v. a_users M (AcctID u) = Some v \<and> Email v = Email u)) (UpdateUser U u) (UpdateUser users_spec u)"
    and SessCreate_sim: "sim R (\<lambda>M. sess_fits uid ttl M \<and> (\<forall>b. rnd = Inr b \<longrightarrow> hex_encode b \<notin> a_issued M)) (SessCreate S uid ttl rnd) (SessCreate sessions_spec uid ttl rnd)"
    and SessUserID_sim: "sim R (\<lambda>M. True) (SessUserID S t) (SessUserID sessions_spec t)"
    and SessDelete_sim: "sim R (\<lambda>M. True) (SessDelete S t) (SessDelete sessions_spec t)"
    and SessDeleteAll_sim: "sim R (\<lambda>M. True) (SessDeleteAll S uid) (SessDeleteAll sessions_spec uid)"
    and Issue_sim: "sim R (\<lambda>M. purpose p \<and> whole_ms ttl) (Issue T p uid ttl rnd) (Issue tokens_spec p uid ttl rnd)"
    and Consume_sim: "sim R (\<lambda>M. purpose p) (Consume T p t) (Consume tokens_spec p t)"
    and elapse_sim: "elapses d \<Longrightarrow> 0 \<le> d \<Longrightarrow> R s M \<Longrightarrow> R (el d s) (pass d M)"

subsection \<open>Composition of simulations\<close>

lemma sim_bind:
  assumes "sim R P c a" "\<And>r. sim R (Q r) (f r) (g r)" "\<And>s m r. R s m \<Longrightarrow> P m \<Longrightarrow> fst (a m) = Inr r \<Longrightarrow> Q r (snd (a m))"
  shows "sim R P (io_bind c f) (io_bind a g)"
proof (rule simI)
  fix s m assume h: "R s m" "P m"
  have r: "fst (c s) = fst (a m)" "R (snd (c s)) (snd (a m))" using simD [OF assms(1) h] by auto
  obtain x s' where c: "c s = (x, s')" by fastforce
  obtain m' where a: "a m = (x, m')" using r(1) c by (cases "a m") auto
  show "fst (io_bind c f s) = fst (io_bind a g m) \<and> R (snd (io_bind c f s)) (snd (io_bind a g m))"
  proof (cases x)
    case (Inl e)
    then show ?thesis using r c a by (simp add: io_bind_def)
  next
    case (Inr v)
    have "Q v m'" using assms(3) [OF h] a Inr by simp
    then show ?thesis using simD [OF assms(2) [of v]] r(2) c a Inr by (simp add: io_bind_def)
  qed
qed

lemma sim_try:
  assumes "sim R P c a" "\<And>r. sim R (Q r) (f r) (g r)" "\<And>e. sim R (\<lambda>_. True) (h e) (k e)"
    and "\<And>s m r. R s m \<Longrightarrow> P m \<Longrightarrow> fst (a m) = Inr r \<Longrightarrow> Q r (snd (a m))"
  shows "sim R P (io_try c h f) (io_try a k g)"
proof (rule simI)
  fix s m assume h: "R s m" "P m"
  have r: "fst (c s) = fst (a m)" "R (snd (c s)) (snd (a m))" using simD [OF assms(1) h] by auto
  obtain x s' where c: "c s = (x, s')" by fastforce
  obtain m' where a: "a m = (x, m')" using r(1) c by (cases "a m") auto
  show "fst (io_try c h f s) = fst (io_try a k g m) \<and> R (snd (io_try c h f s)) (snd (io_try a k g m))"
  proof (cases x)
    case (Inl e)
    then show ?thesis using simD [OF assms(3) [of e]] r(2) c a by (simp add: io_try_def)
  next
    case (Inr v)
    have "Q v m'" using assms(4) [OF h] a Inr by simp
    then show ?thesis using simD [OF assms(2) [of v]] r(2) c a Inr by (simp add: io_try_def)
  qed
qed

lemma sim_pure [intro]: "sim R P (io_ret x) (io_ret x)" "sim R P (io_fail e) (io_fail e)" "sim R P (io_lift r) (io_lift r)"
  by (simp_all add: sim_def io_simps)

lemma sim_if: "(b \<Longrightarrow> sim R P c a) \<Longrightarrow> (\<not> b \<Longrightarrow> sim R P c' a') \<Longrightarrow> sim R P (if b then c else c') (if b then a else a')"
  by simp

lemma sim_weaken: "sim R Q c a \<Longrightarrow> (\<And>s m. R s m \<Longrightarrow> P m \<Longrightarrow> Q m) \<Longrightarrow> sim R P c a"
  unfolding sim_def by blast

text \<open>The relation on a store beside the state of the mail sender.\<close>

definition beside :: "('s \<Rightarrow> 'm \<Rightarrow> bool) \<Rightarrow> 's \<times> 'e \<Rightarrow> 'm \<times> 'e \<Rightarrow> bool" where
  "beside R x y \<longleftrightarrow> R (fst x) (fst y) \<and> snd x = snd y"

lemma sim_on_fst: "sim R P c a \<Longrightarrow> sim (beside R) (\<lambda>x. P (fst x)) (on_fst c) (on_fst a)"
  by (simp add: sim_def beside_def on_fst_def case_prod_beta)

lemma sim_on_snd: "sim (beside R) P (on_snd m) (on_snd m)"
  by (simp add: sim_def beside_def on_snd_def case_prod_beta)

subsection \<open>The service over any stores\<close>

definition service :: "'s UserStore \<Rightarrow> 's SessionStore \<Rightarrow> 's TokenStore \<Rightarrow> (Message \<Rightarrow> ('e, unit) io) \<Rightarrow> AcctConfig \<Rightarrow> ('s, 'e) Service" where
  "service U S T mail cfg = \<lparr>svc_users = U, svc_sessions = S, svc_tokens = T, svc_mail = mail, svc_cfg = cfg\<rparr>"

definition spec_service :: "(Message \<Rightarrow> ('e, unit) io) \<Rightarrow> AcctConfig \<Rightarrow> (accts, 'e) Service" where
  "spec_service mail cfg = service users_spec sessions_spec tokens_spec mail cfg"

definition ttls_ok :: "AcctConfig \<Rightarrow> bool" where
  "ttls_ok cfg \<longleftrightarrow> whole_ms (cSessionTTL cfg) \<and> whole_ms (VerifyTTL cfg) \<and> whole_ms (ResetTTL cfg)"

definition fresh_token :: "err + string \<Rightarrow> accts \<Rightarrow> bool" where
  "fresh_token rnd M \<longleftrightarrow> (\<forall>b. rnd = Inr b \<longrightarrow> hex_encode b \<notin> a_issued M)"

definition hash_text :: "bcrypt \<Rightarrow> string \<Rightarrow> string \<Rightarrow> bool" where
  "hash_text bc pw salt \<longleftrightarrow> (\<forall>h. GenerateFromPassword bc pw salt = Inr h \<longrightarrow> utf8 h)"

lemma ascii_hex: "list_all (\<lambda>c. of_char c < (0x80 :: nat)) (hex_encode b)"
proof -
  have "list_all (\<lambda>c. of_char c < (0x80 :: nat)) xs" if "list_all is_hex xs" for xs
    using that by (induction xs) (auto simp: is_hex_def)
  then show ?thesis using hex_encode_chars by blast
qed

lemma utf8_usr: "utf8 (''usr_'' @ hex_encode b)"
  by (rule utf8_ascii) (simp add: ascii_hex)

text \<open>The invariant the service adds to that of the stores.\<close>

definition svc_ok :: "AcctConfig \<Rightarrow> accts \<Rightarrow> bool" where
  "svc_ok cfg M \<longleftrightarrow>
     (\<forall>t uid dl. a_sess M t = Some (uid, dl) \<longrightarrow> dl \<le> a_now M + cSessionTTL cfg \<and> a_users M uid \<noteq> None) \<and>
     (\<forall>p t uid dl. a_toks M (p, t) = Some (uid, dl) \<longrightarrow> a_users M uid \<noteq> None)"

text \<open>A user that was just read can be written back with the same id and email.\<close>

definition stored :: "Account \<Rightarrow> accts \<times> 'e \<Rightarrow> bool" where
  "stored u x \<longleftrightarrow> a_users (fst x) (AcctID u) = Some u \<and> account_json u"

context account_stores
begin

lemmas services = service_def spec_service_def

lemma sendVerification_sim:
  "ttls_ok cfg \<Longrightarrow> sim (beside R) P (sendVerification (service U S T mail cfg) u rtok) (sendVerification (spec_service mail cfg) u rtok)"
  unfolding sendVerification_def services Service.simps
  by (rule sim_bind [where Q = "\<lambda>_ _. True"], rule sim_weaken [OF sim_on_fst [OF Issue_sim]])
    (auto simp: ttls_ok_def purpose_def intro: sim_on_snd)

lemma create_sim:
  assumes "ttls_ok cfg" "utf8 em" "json_year now"
    and v: "v = \<lparr>AcctID = i, Email = em, PasswordHash = h, EmailVerified = False, AcctCreatedAt = now\<rparr>"
  shows "sim (beside R) (\<lambda>x. (a_users (fst x) i = None \<and> utf8 i) \<and> utf8 h)
    (io_bind (on_fst (CreateUser U v)) (\<lambda>_. io_bind (sendVerification (service U S T mail cfg) v rtok) (\<lambda>_. io_ret v)))
    (io_bind (on_fst (CreateUser users_spec v)) (\<lambda>_. io_bind (sendVerification (spec_service mail cfg) v rtok) (\<lambda>_. io_ret v)))"
proof (rule sim_bind [where Q = "\<lambda>_ _. True"])
  show "sim (beside R) (\<lambda>x. (a_users (fst x) i = None \<and> utf8 i) \<and> utf8 h) (on_fst (CreateUser U v)) (on_fst (CreateUser users_spec v))"
    by (rule sim_weaken [OF sim_on_fst [OF CreateUser_sim]]) (use assms in \<open>auto simp: account_json_def\<close>)
qed (auto intro!: sim_bind [where Q = "\<lambda>_ _. True"] sendVerification_sim assms(1))

lemma Signup_sim:
  fixes mail :: "Message \<Rightarrow> ('e, unit) io"
  assumes "ttls_ok cfg" "hash_text bc pw salt" "utf8 (normalizeEmail low em)" "json_year now"
  shows "sim (beside R) (\<lambda>x. \<forall>b. rid = Inr b \<longrightarrow> a_users (fst x) (''usr_'' @ hex_encode b) = None)
    (Signup (service U S T mail cfg) bc low em pw salt rid rtok now) (Signup (spec_service mail cfg) bc low em pw salt rid rtok now)"
  (is "sim _ ?P _ _")
proof -
  have ids: "a_users (fst x) i = None \<and> utf8 i" if "?P x" "acct_newID ''usr_'' rid = Inr i" for x :: "accts \<times> 'e" and i
    using that utf8_usr by (auto simp: acct_newID_def acct_randHex_def split: sum.splits)
  have u: "svc_users (service U S T mail cfg) = U" "svc_users (spec_service mail cfg) = users_spec" by (simp_all add: services)
  show ?thesis
    unfolding Signup_def Let_def u
  proof (intro sim_if sim_pure sim_bind [where c = "io_lift (GenerateFromPassword bc pw salt)" and Q = "\<lambda>h x. ?P x \<and> utf8 h"]
      sim_bind [where c = "io_lift (acct_newID ''usr_'' rid)" and Q = "\<lambda>i x. (a_users (fst x) i = None \<and> utf8 i) \<and> utf8 h" for h])
    fix x :: "accts \<times> 'e" and h
    assume "?P x" "fst (io_lift (GenerateFromPassword bc pw salt) x) = Inr h"
    then show "?P (snd (io_lift (GenerateFromPassword bc pw salt) x)) \<and> utf8 h" using assms(2) by (simp add: io_lift_def hash_text_def)
  next
    fix x :: "accts \<times> 'e" and h i
    assume x: "?P x \<and> utf8 h" "fst (io_lift (acct_newID ''usr_'' rid) x) = Inr i"
    then have "acct_newID ''usr_'' rid = Inr i" by (simp add: io_lift_def)
    from ids [OF conjunct1 [OF x(1)] this] show "(a_users (fst (snd (io_lift (acct_newID ''usr_'' rid) x))) i = None \<and> utf8 i) \<and> utf8 h"
      using x(1) unfolding io_lift_def snd_conv by blast
  qed (rule create_sim [OF assms(1,3,4) refl])
qed

lemma GetByID_stored:
  fixes y :: "accts \<times> 'e"
  assumes "beside R x y" "fst (on_fst (GetByID users_spec i) y) = Inr u"
  shows "stored u (snd (on_fst (GetByID users_spec i) y))"
proof -
  have "a_users (fst y) i = Some u" "snd (on_fst (GetByID users_spec i) y) = y"
    using assms(2) by (cases y; auto simp: on_fst_def users_spec_def split: option.splits)+
  moreover have "accts_ok (fst y)" using assms(1) rel_ok by (auto simp: beside_def)
  ultimately show ?thesis unfolding stored_def accts_ok_def by metis
qed

lemma Update_stored:
  assumes "\<And>u. AcctID (f u) = AcctID u" "\<And>u. Email (f u) = Email u" "\<And>u. account_json u \<Longrightarrow> account_json (f u)"
  shows "sim (beside R) (stored u) (on_fst (UpdateUser U (f u))) (on_fst (UpdateUser users_spec (f u)))"
  by (rule sim_weaken [OF sim_on_fst [OF Update_sim]]) (auto simp: stored_def assms)

lemmas Get_sims = sim_on_fst [OF GetByID_sim] sim_on_fst [OF GetByEmail_sim]

lemma get_then:
  "(\<And>u. sim (beside R) (stored u) (f u) (g u)) \<Longrightarrow> sim (beside R) P (io_bind (on_fst (GetByID U i)) f) (io_bind (on_fst (GetByID users_spec i)) g)"
  by (rule sim_bind [where Q = stored], rule sim_weaken [OF Get_sims(1)]) (auto intro: GetByID_stored)

lemma consume_then:
  "purpose p \<Longrightarrow> (\<And>uid. sim (beside R) (\<lambda>_. True) (f uid) (g uid)) \<Longrightarrow>
     sim (beside R) P (io_bind (on_fst (Consume T p t)) f) (io_bind (on_fst (Consume tokens_spec p t)) g)"
  by (rule sim_bind [where Q = "\<lambda>_ _. True"], rule sim_weaken [OF sim_on_fst [OF Consume_sim]]) auto

lemma purposes [simp]: "purpose purposeVerify" "purpose purposeReset"
  by (simp_all add: purpose_def)

lemma Verify_sim: "sim (beside R) (\<lambda>_. True) (AcctVerify (service U S T mail cfg) t) (AcctVerify (spec_service mail cfg) t)"
  unfolding AcctVerify_def services Service.simps
  by (intro consume_then get_then Update_stored) (auto simp: account_json_def)

lemma Resend_sim:
  "ttls_ok cfg \<Longrightarrow> sim (beside R) (\<lambda>_. True) (ResendVerification (service U S T mail cfg) low em rtok) (ResendVerification (spec_service mail cfg) low em rtok)"
  unfolding ResendVerification_def
  by (rule sim_try [where Q = "\<lambda>_ _. True"]) (auto simp: services intro: Get_sims sendVerification_sim [unfolded services])

lemma RequestReset_sim:
  assumes "ttls_ok cfg"
  shows "sim (beside R) (\<lambda>_. True) (RequestReset (service U S T mail cfg) low em rtok) (RequestReset (spec_service mail cfg) low em rtok)"
  unfolding RequestReset_def services Service.simps
proof (rule sim_try [where Q = "\<lambda>_ _. True"])
  show "sim (beside R) (\<lambda>_. True)
      (io_bind (on_fst (Issue T purposeReset (AcctID u) (ResetTTL cfg) rtok)) (\<lambda>tok. on_snd (mail (reset_mail cfg (Email u) tok))))
      (io_bind (on_fst (Issue tokens_spec purposeReset (AcctID u) (ResetTTL cfg) rtok)) (\<lambda>tok. on_snd (mail (reset_mail cfg (Email u) tok))))" for u
    by (rule sim_bind [where Q = "\<lambda>_ _. True"], rule sim_weaken [OF sim_on_fst [OF Issue_sim]])
      (use assms in \<open>auto simp: ttls_ok_def purpose_def intro: sim_on_snd\<close>)
qed (auto intro: Get_sims)

lemma GetByEmail_reads: "snd (on_fst (GetByEmail users_spec em) x) = x"
  by (cases x) (auto simp: on_fst_def users_spec_def split: option.splits)

lemma Login_sim:
  "ttls_ok cfg \<Longrightarrow> sim (beside R) (\<lambda>x. svc_ok cfg (fst x) \<and> fresh_token rtok (fst x)) (Login (service U S T mail cfg) bc low em pw rtok) (Login (spec_service mail cfg) bc low em pw rtok)"
  unfolding Login_def services Service.simps
proof (rule sim_try [where Q = "\<lambda>_ x. svc_ok cfg (fst x) \<and> fresh_token rtok (fst x)"])
  fix u :: Account
  assume "ttls_ok cfg"
  then have "sim (beside R) (\<lambda>x. svc_ok cfg (fst x) \<and> fresh_token rtok (fst x))
      (on_fst (SessCreate S (AcctID u) (cSessionTTL cfg) rtok)) (on_fst (SessCreate sessions_spec (AcctID u) (cSessionTTL cfg) rtok))"
    by (intro sim_weaken [OF sim_on_fst [OF SessCreate_sim]]) (auto simp: sess_fits_def ttls_ok_def fresh_token_def svc_ok_def)
  then show "sim (beside R) (\<lambda>x. svc_ok cfg (fst x) \<and> fresh_token rtok (fst x))
      (if \<not> CompareHashAndPassword bc (PasswordHash u) pw then io_fail ErrInvalidCredentials else if \<not> EmailVerified u then io_fail ErrEmailNotVerified
       else io_bind (on_fst (SessCreate S (AcctID u) (cSessionTTL cfg) rtok)) (\<lambda>token. io_ret (token, u)))
      (if \<not> CompareHashAndPassword bc (PasswordHash u) pw then io_fail ErrInvalidCredentials else if \<not> EmailVerified u then io_fail ErrEmailNotVerified
       else io_bind (on_fst (SessCreate sessions_spec (AcctID u) (cSessionTTL cfg) rtok)) (\<lambda>token. io_ret (token, u)))"
    by (auto intro: sim_bind [where Q = "\<lambda>_ _. True"])
qed (auto simp: GetByEmail_reads intro: sim_weaken [OF Get_sims(2)])

lemma Logout_sim: "sim (beside R) (\<lambda>_. True) (Logout (service U S T mail cfg) t) (Logout (spec_service mail cfg) t)"
  unfolding Logout_def services Service.simps by (rule sim_on_fst [OF SessDelete_sim])

lemma UserFromSession_sim: "sim (beside R) (\<lambda>_. True) (UserFromSession (service U S T mail cfg) t) (UserFromSession (spec_service mail cfg) t)"
  unfolding UserFromSession_def services Service.simps
  by (intro sim_bind [where Q = "\<lambda>_ _. True"] Get_sims sim_on_fst [OF SessUserID_sim]) auto

lemma ResetPassword_sim:
  assumes "hash_text bc pw salt"
  shows "sim (beside R) (\<lambda>_. True) (ResetPassword (service U S T mail cfg) bc t pw salt) (ResetPassword (spec_service mail cfg) bc t pw salt)"
  unfolding ResetPassword_def services Service.simps
proof (intro sim_if sim_pure consume_then get_then)
  fix u uid
  have upd: "sim (beside R) (\<lambda>x. stored u x \<and> utf8 h) (on_fst (UpdateUser U (u\<lparr>PasswordHash := h\<rparr>))) (on_fst (UpdateUser users_spec (u\<lparr>PasswordHash := h\<rparr>)))" for h
    by (rule sim_weaken [OF sim_on_fst [OF Update_sim]]) (auto simp: stored_def account_json_def)
  show "sim (beside R) (stored u)
     (io_bind (io_lift (GenerateFromPassword bc pw salt)) (\<lambda>h. io_bind (on_fst (UpdateUser U (u\<lparr>PasswordHash := h\<rparr>))) (\<lambda>_. on_fst (SessDeleteAll S uid))))
     (io_bind (io_lift (GenerateFromPassword bc pw salt)) (\<lambda>h. io_bind (on_fst (UpdateUser users_spec (u\<lparr>PasswordHash := h\<rparr>))) (\<lambda>_. on_fst (SessDeleteAll sessions_spec uid))))"
    by (intro sim_bind [where Q = "\<lambda>h x. stored u x \<and> utf8 h"] sim_pure sim_bind [OF upd, where Q = "\<lambda>_ _. True"] sim_on_fst [OF SessDeleteAll_sim])
      (use assms in \<open>auto simp: io_lift_def hash_text_def\<close>)
qed simp

end

subsection \<open>Requests\<close>

datatype acct_op =
    ASignup string string string "err + string" "err + string" gotime
  | AVerify string
  | AResend string "err + string"
  | ALogin string string "err + string"
  | ALogout string
  | AForgot string "err + string"
  | AReset string string string
  | AUser string
  | APass int

datatype acct_res = ARAcct "err + Account" | ARUnit "err + unit" | ARLogin "err + string \<times> Account"

fun acct_exec :: "(int \<Rightarrow> 's \<Rightarrow> 's) \<Rightarrow> ('s, 'e) Service \<Rightarrow> bcrypt \<Rightarrow> (int \<Rightarrow> int) \<Rightarrow> acct_op \<Rightarrow> 's \<times> 'e \<Rightarrow> acct_res \<times> 's \<times> 'e" where
  "acct_exec el S bc low (ASignup em pw salt rid rtok now) = map_res ARAcct (Signup S bc low em pw salt rid rtok now)"
| "acct_exec el S bc low (AVerify t) = map_res ARUnit (AcctVerify S t)"
| "acct_exec el S bc low (AResend em rtok) = map_res ARUnit (ResendVerification S low em rtok)"
| "acct_exec el S bc low (ALogin em pw rtok) = map_res ARLogin (Login S bc low em pw rtok)"
| "acct_exec el S bc low (ALogout t) = map_res ARUnit (Logout S t)"
| "acct_exec el S bc low (AForgot em rtok) = map_res ARUnit (RequestReset S low em rtok)"
| "acct_exec el S bc low (AReset t pw salt) = map_res ARUnit (ResetPassword S bc t pw salt)"
| "acct_exec el S bc low (AUser t) = map_res ARAcct (UserFromSession S t)"
| "acct_exec el S bc low (APass d) = (\<lambda>(s, e). (ARUnit (Inr ()), el d s, e))"

abbreviation acct_spec :: "(Message \<Rightarrow> ('e, unit) io) \<Rightarrow> AcctConfig \<Rightarrow> bcrypt \<Rightarrow> (int \<Rightarrow> int) \<Rightarrow> acct_op \<Rightarrow> accts \<times> 'e \<Rightarrow> acct_res \<times> accts \<times> 'e" where
  "acct_spec mail cfg \<equiv> acct_exec pass (spec_service mail cfg)"

text \<open>What the requests provide for: fresh random bytes, hashes and addresses that are text, dates JSON can hold.\<close>

fun acct_op_ok :: "bcrypt \<Rightarrow> (int \<Rightarrow> int) \<Rightarrow> (int \<Rightarrow> bool) \<Rightarrow> acct_op \<Rightarrow> accts \<times> 'e \<Rightarrow> bool" where
  "acct_op_ok bc low T (ASignup em pw salt rid rtok now) x =
     (hash_text bc pw salt \<and> utf8 (normalizeEmail low em) \<and> json_year now \<and> fresh_token rtok (fst x) \<and>
      (\<forall>b. rid = Inr b \<longrightarrow> a_users (fst x) (''usr_'' @ hex_encode b) = None))"
| "acct_op_ok bc low T (AResend em rtok) x = fresh_token rtok (fst x)"
| "acct_op_ok bc low T (ALogin em pw rtok) x = fresh_token rtok (fst x)"
| "acct_op_ok bc low T (AForgot em rtok) x = fresh_token rtok (fst x)"
| "acct_op_ok bc low T (AReset t pw salt) x = hash_text bc pw salt"
| "acct_op_ok bc low T (APass d) x = (T d \<and> 0 \<le> d)"
| "acct_op_ok bc low T _ x = True"

subsection \<open>The requests on the specification\<close>

text \<open>The elementary changes of the state, and each request as one of them.\<close>

definition acct_lookup :: "accts \<Rightarrow> string \<Rightarrow> Account option" where
  "acct_lookup M em = (case a_emails M em of None \<Rightarrow> None | Some i \<Rightarrow> a_users M i)"

definition add_user :: "Account \<Rightarrow> accts \<Rightarrow> accts" where
  "add_user u M = M\<lparr>a_users := (a_users M)(AcctID u \<mapsto> u), a_emails := (a_emails M)(Email u \<mapsto> AcctID u)\<rparr>"

definition set_user :: "Account \<Rightarrow> accts \<Rightarrow> accts" where
  "set_user u M = M\<lparr>a_users := (a_users M)(AcctID u \<mapsto> u)\<rparr>"

definition add_sess :: "string \<Rightarrow> string \<Rightarrow> int \<Rightarrow> accts \<Rightarrow> accts" where
  "add_sess tok uid ttl M = M\<lparr>a_sess := (a_sess M)(tok \<mapsto> (uid, a_now M + ttl)), a_issued := insert tok (a_issued M)\<rparr>"

definition end_sess :: "string \<Rightarrow> accts \<Rightarrow> accts" where
  "end_sess t M = M\<lparr>a_sess := (a_sess M)(t := None)\<rparr>"

definition end_all :: "string \<Rightarrow> accts \<Rightarrow> accts" where
  "end_all uid M = M\<lparr>a_sess := drop_sess (\<lambda>t x. fst x = uid) (a_sess M)\<rparr>"

definition put_tok :: "string \<Rightarrow> string \<Rightarrow> string \<Rightarrow> int \<Rightarrow> accts \<Rightarrow> accts" where
  "put_tok p tok uid ttl M = M\<lparr>a_toks := (a_toks M)((p, tok) \<mapsto> (uid, a_now M + ttl)), a_issued := insert tok (a_issued M)\<rparr>"

definition take_tok :: "string \<Rightarrow> string \<Rightarrow> accts \<Rightarrow> accts" where
  "take_tok p t M = M\<lparr>a_toks := (a_toks M)((p, t) := None)\<rparr>"

lemmas changes = add_user_def set_user_def add_sess_def end_sess_def end_all_def put_tok_def take_tok_def

lemmas spec_stores = users_spec_def sessions_spec_def tokens_spec_def newToken_def acct_randHex_def
lemmas spec_unfolds = io_simps on_fst_def on_snd_def spec_service_def service_def spec_stores io_try_def

lemma sendVerification_spec:
  "sendVerification (spec_service mail cfg) u rtok (M, e) =
     (case rtok of Inl x \<Rightarrow> (Inl x, M, e)
      | Inr b \<Rightarrow> (case mail (verify_mail cfg (Email u) (hex_encode b)) e of (r, e') \<Rightarrow> (r, put_tok purposeVerify (hex_encode b) (AcctID u) (VerifyTTL cfg) M, e')))"
  by (simp add: sendVerification_def spec_unfolds put_tok_def split: sum.splits)

lemma Login_spec:
  "Login (spec_service mail cfg) bc low em pw rtok (M, e) =
     (case acct_lookup M (normalizeEmail low em) of None \<Rightarrow> (Inl ErrInvalidCredentials, M, e)
      | Some u \<Rightarrow> if \<not> CompareHashAndPassword bc (PasswordHash u) pw then (Inl ErrInvalidCredentials, M, e)
          else if \<not> EmailVerified u then (Inl ErrEmailNotVerified, M, e)
          else (case rtok of Inl x \<Rightarrow> (Inl x, M, e) | Inr b \<Rightarrow> (Inr (hex_encode b, u), add_sess (hex_encode b) (AcctID u) (cSessionTTL cfg) M, e)))"
  by (auto simp: Login_def spec_unfolds acct_lookup_def add_sess_def split: sum.splits option.splits)

lemma Logout_spec: "Logout (spec_service mail cfg) t (M, e) = (Inr (), end_sess t M, e)"
  by (simp add: Logout_def spec_unfolds end_sess_def)

lemma UserFromSession_spec:
  "UserFromSession (spec_service mail cfg) t (M, e) =
     (case a_sess M t of None \<Rightarrow> (Inl ErrNoSession, M, e)
      | Some (uid, _) \<Rightarrow> (case a_users M uid of None \<Rightarrow> (Inl ErrUserNotFound, M, e) | Some u \<Rightarrow> (Inr u, M, e)))"
  by (auto simp: UserFromSession_def spec_unfolds split: option.splits)

lemma Verify_spec:
  "AcctVerify (spec_service mail cfg) t (M, e) =
     (case a_toks M (purposeVerify, t) of None \<Rightarrow> (Inl ErrBadToken, M, e)
      | Some (uid, _) \<Rightarrow> (case a_users M uid of None \<Rightarrow> (Inl ErrUserNotFound, take_tok purposeVerify t M, e)
          | Some u \<Rightarrow> (Inr (), set_user (u\<lparr>EmailVerified := True\<rparr>) (take_tok purposeVerify t M), e)))"
  by (auto simp: AcctVerify_def spec_unfolds take_tok_def set_user_def split: option.splits)

lemma Resend_spec:
  "ResendVerification (spec_service mail cfg) low em rtok (M, e) =
     (case acct_lookup M (normalizeEmail low em) of None \<Rightarrow> (Inr (), M, e)
      | Some u \<Rightarrow> if EmailVerified u then (Inr (), M, e) else sendVerification (spec_service mail cfg) u rtok (M, e))"
  by (auto simp: ResendVerification_def spec_unfolds acct_lookup_def split: option.splits)

lemma RequestReset_spec:
  "RequestReset (spec_service mail cfg) low em rtok (M, e) =
     (case acct_lookup M (normalizeEmail low em) of None \<Rightarrow> (Inr (), M, e)
      | Some u \<Rightarrow> (case rtok of Inl x \<Rightarrow> (Inl x, M, e)
          | Inr b \<Rightarrow> (case mail (reset_mail cfg (Email u) (hex_encode b)) e of (r, e') \<Rightarrow> (r, put_tok purposeReset (hex_encode b) (AcctID u) (ResetTTL cfg) M, e'))))"
  by (auto simp: RequestReset_def spec_unfolds acct_lookup_def put_tok_def split: option.splits sum.splits)

lemma ResetPassword_spec:
  "ResetPassword (spec_service mail cfg) bc t pw salt (M, e) =
     (if length pw < 8 then (Inl ErrWeakPassword, M, e)
      else case a_toks M (purposeReset, t) of None \<Rightarrow> (Inl ErrBadToken, M, e)
      | Some (uid, _) \<Rightarrow> (case a_users M uid of None \<Rightarrow> (Inl ErrUserNotFound, take_tok purposeReset t M, e)
          | Some u \<Rightarrow> (case GenerateFromPassword bc pw salt of Inl x \<Rightarrow> (Inl x, take_tok purposeReset t M, e)
              | Inr h \<Rightarrow> (Inr (), end_all uid (set_user (u\<lparr>PasswordHash := h\<rparr>) (take_tok purposeReset t M)), e))))"
  by (auto simp: ResetPassword_def spec_unfolds take_tok_def set_user_def end_all_def split: option.splits sum.splits)

lemma Signup_spec:
  "Signup (spec_service mail cfg) bc low em pw salt rid rtok now (M, e) =
     (if \<not> emailRe (normalizeEmail low em) then (Inl ErrInvalidEmail, M, e)
      else if length pw < 8 then (Inl ErrWeakPassword, M, e)
      else case GenerateFromPassword bc pw salt of Inl x \<Rightarrow> (Inl x, M, e)
      | Inr h \<Rightarrow> (case rid of Inl x \<Rightarrow> (Inl x, M, e)
          | Inr b \<Rightarrow>
             let u = \<lparr>AcctID = ''usr_'' @ hex_encode b, Email = normalizeEmail low em, PasswordHash = h, EmailVerified = False, AcctCreatedAt = now\<rparr> in
             if a_emails M (Email u) \<noteq> None then (Inl ErrEmailTaken, M, e)
             else (case sendVerification (spec_service mail cfg) u rtok (add_user u M, e) of (r, x) \<Rightarrow> (map_sum (\<lambda>x. x) (\<lambda>_. u) r, x))))"
  by (auto simp: Signup_def Let_def spec_unfolds acct_newID_def add_user_def split: sum.splits prod.splits)

lemmas request_specs = Signup_spec Verify_spec Resend_spec Login_spec Logout_spec RequestReset_spec ResetPassword_spec UserFromSession_spec sendVerification_spec

lemma svc_ok_changes:
  assumes "svc_ok cfg M"
  shows "svc_ok cfg (add_user u M)" "svc_ok cfg (set_user u M)" "a_users M uid \<noteq> None \<Longrightarrow> svc_ok cfg (add_sess t uid (cSessionTTL cfg) M)"
    "svc_ok cfg (end_sess t M)" "svc_ok cfg (end_all uid M)" "a_users M uid \<noteq> None \<Longrightarrow> svc_ok cfg (put_tok p t uid ttl M)"
    "svc_ok cfg (take_tok p t M)" "0 \<le> d \<Longrightarrow> svc_ok cfg (pass d M)"
  using assms unfolding svc_ok_def changes drop_sess_def pass_def Let_def
  by (simp_all split: option.splits prod.splits if_splits) force+

lemma lookup_user: "accts_ok M \<Longrightarrow> acct_lookup M em = Some u \<Longrightarrow> a_users M (AcctID u) = Some u \<and> Email u = em"
  unfolding acct_lookup_def accts_ok_def by (fastforce split: option.splits)

lemma svc_ok_step:
  assumes "accts_ok M" "svc_ok cfg M" "acct_op_ok bc low T op (M, e)"
  shows "svc_ok cfg (fst (snd (acct_spec mail cfg bc low op (M, e))))"
proof (cases op)
  case (ASignup em pw salt rid rtok now)
  have "AcctID u = i \<Longrightarrow> svc_ok cfg (put_tok p t i d (add_user u M))" for p t u i d
    by (rule svc_ok_changes(6) [OF svc_ok_changes(1) [OF assms(2)]]) (simp add: add_user_def)
  then show ?thesis using ASignup svc_ok_changes [OF assms(2)] assms(2)
    by (simp add: request_specs Let_def case_prod_beta split: sum.splits)
next
  case (APass d)
  then show ?thesis using svc_ok_changes [OF assms(2)] assms(3) by simp
qed (use svc_ok_changes [OF assms(2)] svc_ok_changes [OF svc_ok_changes(7) [OF assms(2)]] svc_ok_changes(5) [OF svc_ok_changes(2) [OF svc_ok_changes(7) [OF assms(2)]]]
    lookup_user [OF assms(1)] assms(2) in \<open>auto simp: request_specs case_prod_beta split: sum.splits option.splits\<close>)

definition runs :: "('s \<Rightarrow> accts \<Rightarrow> bool) \<Rightarrow> AcctConfig \<Rightarrow> 's \<times> 'e \<Rightarrow> accts \<times> 'e \<Rightarrow> bool" where
  "runs R cfg x y \<longleftrightarrow> beside R x y \<and> svc_ok cfg (fst y)"

context account_stores
begin

lemma exec_sim:
  fixes mail :: "Message \<Rightarrow> ('e, unit) io"
  assumes "ttls_ok cfg"
  shows "sim (runs R cfg) (acct_op_ok bc low elapses op) (acct_exec el (service U S T mail cfg) bc low op) (acct_spec mail cfg bc low op)"
proof (rule simI)
  fix x :: "'s \<times> 'e" and y assume h: "runs R cfg x y" "acct_op_ok bc low elapses op y"
  let ?c = "acct_exec el (service U S T mail cfg) bc low op x" and ?a = "acct_spec mail cfg bc low op y"
  have b: "beside R x y" "svc_ok cfg (fst y)" using h(1) by (simp_all add: runs_def)
  have "svc_ok cfg (fst (snd ?a))"
    using svc_ok_step [of "fst y" cfg bc low elapses op "snd y" mail] b h(2) rel_ok by (auto simp: beside_def)
  moreover have "fst ?c = fst ?a \<and> beside R (snd ?c) (snd ?a)"
  proof (cases op)
    case (ASignup em pw salt rid rtok now)
    then show ?thesis using simD [OF Signup_sim [of cfg bc pw salt low em now rid mail rtok] b(1)] assms h(2) by simp
  next
    case (AVerify t)
    then show ?thesis using simD [OF Verify_sim [of mail cfg t] b(1)] by simp
  next
    case (AResend em rtok)
    then show ?thesis using simD [OF Resend_sim [of cfg mail low em rtok] b(1)] assms by simp
  next
    case (ALogin em pw rtok)
    then show ?thesis using simD [OF Login_sim [of cfg rtok mail bc low em pw] b(1)] assms b(2) h(2) by simp
  next
    case (ALogout t)
    then show ?thesis using simD [OF Logout_sim [of mail cfg t] b(1)] by simp
  next
    case (AForgot em rtok)
    then show ?thesis using simD [OF RequestReset_sim [of cfg mail low em rtok] b(1)] assms by simp
  next
    case (AReset t pw salt)
    then show ?thesis using simD [OF ResetPassword_sim [of bc pw salt mail cfg t] b(1)] h(2) by simp
  next
    case (AUser t)
    then show ?thesis using simD [OF UserFromSession_sim [of mail cfg t] b(1)] by simp
  next
    case (APass d)
    then show ?thesis using elapse_sim [of d "fst x" "fst y"] b(1) h(2) by (auto simp: beside_def case_prod_beta)
  qed
  ultimately show "fst ?c = fst ?a \<and> runs R cfg (snd ?c) (snd ?a)" by (simp add: runs_def)
qed

lemma run_sim:
  assumes "ttls_ok cfg" "R s M" "svc_ok cfg M" "guarded (acct_op_ok bc low elapses) (acct_spec mail cfg bc low) ops (M, e)"
  shows "fst (pipe_run (acct_exec el (service U S T mail cfg) bc low) ops (s, e)) = fst (pipe_run (acct_spec mail cfg bc low) ops (M, e))"
    "runs R cfg (snd (pipe_run (acct_exec el (service U S T mail cfg) bc low) ops (s, e))) (snd (pipe_run (acct_spec mail cfg bc low) ops (M, e)))"
  using sim_run [of "runs R cfg" "acct_op_ok bc low elapses" "acct_exec el (service U S T mail cfg) bc low" "acct_spec mail cfg bc low" "(s, e)" "(M, e)" ops]
    exec_sim [OF assms(1)] assms by (auto simp: runs_def beside_def)

lemma run_ok:
  assumes "ttls_ok cfg" "R s M" "svc_ok cfg M" "guarded (acct_op_ok bc low elapses) (acct_spec mail cfg bc low) ops (M, e)"
  shows "accts_ok (fst (snd (pipe_run (acct_spec mail cfg bc low) ops (M, e))))" "svc_ok cfg (fst (snd (pipe_run (acct_spec mail cfg bc low) ops (M, e))))"
    "snd (snd (pipe_run (acct_exec el (service U S T mail cfg) bc low) ops (s, e))) = snd (snd (pipe_run (acct_spec mail cfg bc low) ops (M, e)))"
  using run_sim(2) [OF assms] rel_ok by (auto simp: runs_def beside_def)

end

end
