(* ===== verification/Accounts_Mem.thy ===== *)
theory Accounts_Mem
  imports Accounts_Spec
begin

text \<open>The in-memory account stores simulate the specification as long as no time passes.\<close>

lemma accts_ok_changes:
  assumes "accts_ok M"
  shows "account_json u \<Longrightarrow> a_users M (AcctID u) = None \<Longrightarrow> a_emails M (Email u) = None \<Longrightarrow> accts_ok (add_user u M)"
    "account_json u \<Longrightarrow> a_users M (AcctID u) = Some v \<Longrightarrow> Email v = Email u \<Longrightarrow> accts_ok (set_user u M)"
    "0 < ttl \<Longrightarrow> accts_ok (add_sess t uid ttl M)" "accts_ok (end_sess t M)" "accts_ok (end_all uid M)"
    "0 < ttl \<Longrightarrow> accts_ok (put_tok p t uid ttl M)" "accts_ok (take_tok p t M)" "0 \<le> d \<Longrightarrow> accts_ok (pass d M)"
  using assms unfolding accts_ok_def changes drop_sess_def pass_def Let_def
  by (simp_all split: option.splits prod.splits if_splits) (metis option.inject option.distinct(1))+

definition mem_toks :: "AcctMem \<Rightarrow> string \<Rightarrow> string list" where
  "mem_toks m uid = (case am_userSess m uid of None \<Rightarrow> [] | Some ts \<Rightarrow> ts)"

lemma mem_toks_upd [simp]:
  "mem_toks (m\<lparr>am_users := x\<rparr>) = mem_toks m" "mem_toks (m\<lparr>am_emailIdx := y\<rparr>) = mem_toks m" "mem_toks (m\<lparr>am_sessions := z\<rparr>) = mem_toks m"
  "mem_toks (m\<lparr>am_tokens := w\<rparr>) = mem_toks m" "mem_toks (m\<lparr>am_userSess := (am_userSess n)(uid := ts)\<rparr>) v = (if v = uid then (case ts of None \<Rightarrow> [] | Some ts \<Rightarrow> ts) else mem_toks n v)"
  by (auto simp: mem_toks_def fun_eq_iff)

lemma mem_toks_cases: "(case am_userSess m uid of None \<Rightarrow> [] | Some ts \<Rightarrow> ts) = mem_toks m uid"
  by (simp add: mem_toks_def)

lemma mem_toks_delete:
  "mem_toks (n\<lparr>am_userSess := (case am_userSess m uid of None \<Rightarrow> am_userSess m | Some ts \<Rightarrow> (am_userSess m)(uid \<mapsto> removeAll t ts))\<rparr>) v =
     (if v = uid then removeAll t (mem_toks m uid) else mem_toks m v)"
  by (auto simp: mem_toks_def split: option.splits)

definition am_rel :: "AcctMem \<Rightarrow> accts \<Rightarrow> bool" where
  "am_rel m M \<longleftrightarrow> accts_ok M \<and> am_users m = a_users M \<and> am_emailIdx m = a_emails M \<and>
     am_sessions m = (\<lambda>t. map_option fst (a_sess M t)) \<and>
     (\<forall>uid. set (mem_toks m uid) = {t. \<exists>dl. a_sess M t = Some (uid, dl)}) \<and>
     (\<forall>p t. purpose p \<longrightarrow> am_tokens m (mem_token_key p t) = map_option fst (a_toks M (p, t)))"

lemma am_rel_start: "am_rel NewAcctMem no_accts"
  by (simp add: am_rel_def NewAcctMem_def no_accts_def accts_ok_def mem_toks_def)

lemma foldl_del: "foldl (\<lambda>f t. f(t := None)) f ts t = (if t \<in> set ts then None else f t)"
  by (induction ts arbitrary: f) auto

lemma email_user: "accts_ok M \<Longrightarrow> a_emails M e = Some i \<Longrightarrow> \<exists>u. a_users M i = Some u"
  unfolding accts_ok_def by blast

lemma pass_0: "accts_ok M \<Longrightarrow> pass 0 M = M"
proof -
  assume ok: "accts_ok M"
  let ?ended = "\<lambda>x. case x of None \<Rightarrow> None | Some (uid :: string, dl) \<Rightarrow> if dl \<le> a_now M then None else Some (uid, dl)"
  have "?ended (a_sess M t) = a_sess M t" for t using ok unfolding accts_ok_def by (force split: option.splits)
  moreover have "?ended (a_toks M pt) = a_toks M pt" for pt using ok unfolding accts_ok_def by (cases pt) (force split: option.splits)
  ultimately show ?thesis by (simp add: pass_def)
qed

lemma purpose_key: "purpose p \<Longrightarrow> purpose q \<Longrightarrow> mem_token_key p t = mem_token_key q u \<longleftrightarrow> p = q \<and> t = u"
  by (auto simp: purpose_def mem_token_key_def purposeVerify_def purposeReset_def)

interpretation am: account_stores mem_users mem_sessions mem_tokens am_rel "\<lambda>d. d = 0" "\<lambda>_ m. m"
proof (unfold_locales, goal_cases)
  case (1 s M)
  then show ?case by (simp add: am_rel_def)
next
  case (2 u)
  show ?case
  proof (rule simI)
    fix m M assume h: "am_rel m M" "account_json u \<and> a_users M (AcctID u) = None"
    show "fst (CreateUser mem_users u m) = fst (CreateUser users_spec u M) \<and> am_rel (snd (CreateUser mem_users u m)) (snd (CreateUser users_spec u M))"
      using h accts_ok_changes(1) [of M u]
      by (auto simp: am_rel_def mem_users_def am_CreateUser_def users_spec_def add_user_def mem_toks_cases mem_toks_delete split: option.splits)
  qed
next
  case (3 e)
  show ?case
    by (auto simp: sim_def am_rel_def mem_users_def am_GetByEmail_def users_spec_def dest: email_user split: option.splits)
next
  case (4 i)
  show ?case by (auto simp: sim_def am_rel_def mem_users_def am_GetByID_def users_spec_def split: option.splits)
next
  case (5 u)
  show ?case
  proof (rule simI)
    fix m M assume h: "am_rel m M" "account_json u \<and> (\<exists>v. a_users M (AcctID u) = Some v \<and> Email v = Email u)"
    show "fst (UpdateUser mem_users u m) = fst (UpdateUser users_spec u M) \<and> am_rel (snd (UpdateUser mem_users u m)) (snd (UpdateUser users_spec u M))"
      using h accts_ok_changes(2) [of M u]
      by (auto simp: am_rel_def mem_users_def am_Update_def users_spec_def set_user_def mem_toks_cases mem_toks_delete)
  qed
next
  case (6 uid ttl rnd)
  show ?case
  proof (rule simI)
    fix m M assume h: "am_rel m M" "sess_fits uid ttl M \<and> (\<forall>b. rnd = Inr b \<longrightarrow> hex_encode b \<notin> a_issued M)"
    show "fst (SessCreate mem_sessions uid ttl rnd m) = fst (SessCreate sessions_spec uid ttl rnd M) \<and>
      am_rel (snd (SessCreate mem_sessions uid ttl rnd m)) (snd (SessCreate sessions_spec uid ttl rnd M))"
    proof (cases rnd)
      case (Inr b)
      have "a_sess M (hex_encode b) = None" using h Inr unfolding am_rel_def accts_ok_def by (cases "a_sess M (hex_encode b)") auto
      then show ?thesis using h Inr accts_ok_changes(3) [of M ttl "hex_encode b" uid]
        by (auto simp: am_rel_def mem_sessions_def am_Create_def sessions_spec_def add_sess_def mem_toks_cases mem_toks_delete newToken_def acct_randHex_def
            sess_fits_def whole_ms_def fun_eq_iff set_eq_iff split: option.splits if_splits)
    qed (use h in \<open>simp add: mem_sessions_def am_Create_def sessions_spec_def newToken_def acct_randHex_def\<close>)
  qed
next
  case (7 t)
  show ?case by (auto simp: sim_def am_rel_def mem_sessions_def am_UserID_def sessions_spec_def split: option.splits)
next
  case (8 t)
  show ?case
  proof (rule simI)
    fix m M assume h: "am_rel m M"
    show "fst (SessDelete mem_sessions t m) = fst (SessDelete sessions_spec t M) \<and> am_rel (snd (SessDelete mem_sessions t m)) (snd (SessDelete sessions_spec t M))"
      using h accts_ok_changes(4) [of M t]
      by (auto simp: am_rel_def mem_sessions_def am_Delete_def sessions_spec_def end_sess_def mem_toks_cases mem_toks_delete fun_eq_iff set_eq_iff split: option.splits if_splits)
  qed
next
  case (9 uid)
  show ?case
  proof (rule simI)
    fix m M assume h: "am_rel m M"
    show "fst (SessDeleteAll mem_sessions uid m) = fst (SessDeleteAll sessions_spec uid M) \<and> am_rel (snd (SessDeleteAll mem_sessions uid m)) (snd (SessDeleteAll sessions_spec uid M))"
      using h accts_ok_changes(5) [of M uid]
      by (auto simp: am_rel_def mem_sessions_def am_DeleteAllForUser_def sessions_spec_def end_all_def drop_sess_def mem_toks_cases mem_toks_delete Let_def foldl_del fun_eq_iff set_eq_iff
          split: option.splits if_splits)
  qed
next
  case (10 p ttl uid rnd)
  show ?case
  proof (rule simI)
    fix m M assume h: "am_rel m M" "purpose p \<and> whole_ms ttl"
    show "fst (Issue mem_tokens p uid ttl rnd m) = fst (Issue tokens_spec p uid ttl rnd M) \<and> am_rel (snd (Issue mem_tokens p uid ttl rnd m)) (snd (Issue tokens_spec p uid ttl rnd M))"
      using h accts_ok_changes(6) [of M ttl p _ uid]
      by (auto simp: am_rel_def mem_tokens_def am_Issue_def tokens_spec_def put_tok_def mem_toks_cases mem_toks_delete newToken_def acct_randHex_def purpose_key whole_ms_def split: sum.splits)
  qed
next
  case (11 p t)
  show ?case
  proof (rule simI)
    fix m M assume h: "am_rel m M" "purpose p"
    show "fst (Consume mem_tokens p t m) = fst (Consume tokens_spec p t M) \<and> am_rel (snd (Consume mem_tokens p t m)) (snd (Consume tokens_spec p t M))"
      using h accts_ok_changes(7) [of M p t]
      by (auto simp: am_rel_def mem_tokens_def am_Consume_def tokens_spec_def take_tok_def mem_toks_cases mem_toks_delete purpose_key Let_def split: option.splits)
  qed
next
  case (12 d s M)
  then show ?case using pass_0 by (simp add: am_rel_def)
qed

end
