(* ===== verification/Accounts_Redis.thy ===== *)
theory Accounts_Redis
  imports Accounts_Mem
begin

text \<open>
  The account stores in Redis (\<open>pkg/accounts/redisstore.go\<close>) and their simulation of the
  specification, time included: sessions and one-time tokens end with their keys. The set of a
  user's session tokens may keep tokens that have ended, but never misses one that is alive,
  because every login pushes its expiry past that of the sessions in it.
\<close>

definition userKey :: "string \<Rightarrow> string" where "userKey i = ''acct:user:'' @ i"
definition emailKey :: "string \<Rightarrow> string" where "emailKey email = ''acct:email:'' @ email"
definition sessKey :: "string \<Rightarrow> string" where "sessKey tok = ''acct:sess:'' @ tok"
definition userSessKey :: "string \<Rightarrow> string" where "userSessKey uid = ''acct:usess:'' @ uid"
definition acct_tokKey :: "string \<Rightarrow> string \<Rightarrow> string" where "acct_tokKey p tok = ''acct:tok:'' @ p @ '':'' @ tok"

datatype aval = AStr string | AJson "Account json"

fun atext_of :: "aval \<Rightarrow> string" where
  "atext_of (AStr s) = s"
| "atext_of _ = []"

definition marshal_account :: "Account \<Rightarrow> err + aval" where
  "marshal_account u = (if json_year (AcctCreatedAt u)
     then Inr (AJson (JSON (u\<lparr>AcctID := to_utf8 (AcctID u), Email := to_utf8 (Email u), PasswordHash := to_utf8 (PasswordHash u)\<rparr>)))
     else Inl ErrBadRecord)"

fun unmarshal_account :: "aval \<Rightarrow> err + Account" where
  "unmarshal_account (AJson (JSON u)) = Inr u"
| "unmarshal_account _ = Inl ErrBadRecord"

definition ar_CreateUser :: "('s, aval) kv \<Rightarrow> Account \<Rightarrow> ('s, unit) io" where
  "ar_CreateUser C u =
     io_bind (io_cmd (SETNX C (emailKey (Email u)) (AStr (AcctID u)) 0)) (\<lambda>ok.
     if \<not> ok then io_fail ErrEmailTaken else
     io_bind (io_lift (marshal_account u)) (\<lambda>data.
     io_cmd (SET C (userKey (AcctID u)) data 0)))"

definition ar_GetByID :: "('s, aval) kv \<Rightarrow> string \<Rightarrow> ('s, Account) io" where
  "ar_GetByID C i = io_bind (io_catch_nil (io_cmd (GET C (userKey i))) (io_fail ErrUserNotFound)) (\<lambda>data. io_lift (unmarshal_account data))"

definition ar_GetByEmail :: "('s, aval) kv \<Rightarrow> string \<Rightarrow> ('s, Account) io" where
  "ar_GetByEmail C email = io_bind (io_catch_nil (io_cmd (GET C (emailKey email))) (io_fail ErrUserNotFound)) (\<lambda>i. ar_GetByID C (atext_of i))"

definition ar_Update :: "('s, aval) kv \<Rightarrow> Account \<Rightarrow> ('s, unit) io" where
  "ar_Update C u = io_bind (io_lift (marshal_account u)) (\<lambda>data. io_cmd (SET C (userKey (AcctID u)) data 0))"

definition ar_Create :: "('s, aval) kv \<Rightarrow> string \<Rightarrow> int \<Rightarrow> err + string \<Rightarrow> ('s, string) io" where
  "ar_Create C userID ttl rnd =
     io_bind (io_lift (newToken rnd)) (\<lambda>tok.
     io_bind (tx_exec [cmd_err (SET C (sessKey tok) (AStr userID) ttl), cmd_err (SADD C (userSessKey userID) tok),
       cmd_err (KEXPIRE C (userSessKey userID) ttl)]) (\<lambda>_. io_ret tok))"

definition ar_UserID :: "('s, aval) kv \<Rightarrow> string \<Rightarrow> ('s, string) io" where
  "ar_UserID C token = io_bind (io_catch_nil (io_cmd (GET C (sessKey token))) (io_fail ErrNoSession)) (\<lambda>uid. io_ret (atext_of uid))"

definition ar_Delete :: "('s, aval) kv \<Rightarrow> string \<Rightarrow> ('s, unit) io" where
  "ar_Delete C token =
     io_bind (io_catch_nil (io_bind (io_cmd (GET C (sessKey token))) (\<lambda>v. io_ret (atext_of v))) (io_ret [])) (\<lambda>uid.
     tx_exec (cmd_err (KDEL C (sessKey token)) # (if uid \<noteq> [] then [cmd_err (SREM C (userSessKey uid) token)] else [])))"

definition ar_DeleteAllForUser :: "('s, aval) kv \<Rightarrow> string \<Rightarrow> ('s, unit) io" where
  "ar_DeleteAllForUser C userID =
     io_bind (io_cmd (SMEMBERS C (userSessKey userID))) (\<lambda>toks.
     tx_exec (map (\<lambda>t. cmd_err (KDEL C (sessKey t))) toks @ [cmd_err (KDEL C (userSessKey userID))]))"

definition ar_Issue :: "('s, aval) kv \<Rightarrow> string \<Rightarrow> string \<Rightarrow> int \<Rightarrow> err + string \<Rightarrow> ('s, string) io" where
  "ar_Issue C p userID ttl rnd =
     io_bind (io_lift (newToken rnd)) (\<lambda>tok. io_bind (io_cmd (SET C (acct_tokKey p tok) (AStr userID) ttl)) (\<lambda>_. io_ret tok))"

definition ar_Consume :: "('s, aval) kv \<Rightarrow> string \<Rightarrow> string \<Rightarrow> ('s, string) io" where
  "ar_Consume C p token =
     io_bind (io_catch_nil (io_cmd (GETDEL C (acct_tokKey p token))) (io_fail ErrBadToken)) (\<lambda>uid. io_ret (atext_of uid))"

definition redis_users :: "('s, aval) kv \<Rightarrow> 's UserStore" where
  "redis_users C = \<lparr>CreateUser = ar_CreateUser C, GetByEmail = ar_GetByEmail C, GetByID = ar_GetByID C, UpdateUser = ar_Update C\<rparr>"

definition redis_sessions :: "('s, aval) kv \<Rightarrow> 's SessionStore" where
  "redis_sessions C = \<lparr>SessCreate = ar_Create C, SessUserID = ar_UserID C, SessDelete = ar_Delete C, SessDeleteAll = ar_DeleteAllForUser C\<rparr>"

definition redis_tokens :: "('s, aval) kv \<Rightarrow> 's TokenStore" where
  "redis_tokens C = \<lparr>Issue = ar_Issue C, Consume = ar_Consume C\<rparr>"

subsection \<open>What the keys hold\<close>

lemmas acct_keys = userKey_def emailKey_def sessKey_def userSessKey_def acct_tokKey_def

lemma acct_key_inject [simp]:
  "userKey a = userKey b \<longleftrightarrow> a = b" "emailKey a = emailKey b \<longleftrightarrow> a = b" "sessKey a = sessKey b \<longleftrightarrow> a = b" "userSessKey a = userSessKey b \<longleftrightarrow> a = b"
  by (simp_all add: acct_keys)

lemma acct_tokKey_inject: "purpose p \<Longrightarrow> purpose q \<Longrightarrow> acct_tokKey p t = acct_tokKey q u \<longleftrightarrow> p = q \<and> t = u"
  by (auto simp: acct_keys purpose_def purposeVerify_def purposeReset_def)

lemma acct_key_disjoint [simp]:
  "userKey a \<noteq> emailKey b" "userKey a \<noteq> sessKey b" "userKey a \<noteq> userSessKey b" "userKey a \<noteq> acct_tokKey p b"
  "emailKey a \<noteq> userKey b" "emailKey a \<noteq> sessKey b" "emailKey a \<noteq> userSessKey b" "emailKey a \<noteq> acct_tokKey p b"
  "sessKey a \<noteq> userKey b" "sessKey a \<noteq> emailKey b" "sessKey a \<noteq> userSessKey b" "sessKey a \<noteq> acct_tokKey p b"
  "userSessKey a \<noteq> userKey b" "userSessKey a \<noteq> emailKey b" "userSessKey a \<noteq> sessKey b" "userSessKey a \<noteq> acct_tokKey p b"
  "acct_tokKey p a \<noteq> userKey b" "acct_tokKey p a \<noteq> emailKey b" "acct_tokKey p a \<noteq> sessKey b" "acct_tokKey p a \<noteq> userSessKey b"
  by (simp_all add: acct_keys)

text \<open>\<open>f\<close> and \<open>d\<close> are the keyspace and the deadlines.\<close>

definition holds_users :: "(string \<Rightarrow> aval kview) \<Rightarrow> (string \<Rightarrow> int option) \<Rightarrow> accts \<Rightarrow> bool" where
  "holds_users f d M \<longleftrightarrow>
     (\<forall>i. f (userKey i) = opt_view (map_option (AJson \<circ> JSON) (a_users M i)) \<and> d (userKey i) = None) \<and>
     (\<forall>e. f (emailKey e) = opt_view (map_option AStr (a_emails M e)) \<and> d (emailKey e) = None)"

definition holds_tokens :: "(string \<Rightarrow> aval kview) \<Rightarrow> (string \<Rightarrow> int option) \<Rightarrow> accts \<Rightarrow> bool" where
  "holds_tokens f d M \<longleftrightarrow> (\<forall>p t. purpose p \<longrightarrow>
     f (acct_tokKey p t) = opt_view (map_option (AStr \<circ> fst) (a_toks M (p, t))) \<and> d (acct_tokKey p t) = map_option snd (a_toks M (p, t)))"

definition holds_set :: "aval kview \<Rightarrow> int option \<Rightarrow> string \<Rightarrow> accts \<Rightarrow> bool" where
  "holds_set v dl uid M \<longleftrightarrow> (\<exists>A. v = set_view A \<and> A \<subseteq> a_issued M \<and> (\<forall>t \<in> A. \<forall>x. a_sess M t = Some x \<longrightarrow> fst x = uid) \<and>
     (\<forall>t x. a_sess M t = Some (uid, x) \<longrightarrow> t \<in> A \<and> (\<exists>D. dl = Some D \<and> x \<le> D)))"

definition holds_sessions :: "(string \<Rightarrow> aval kview) \<Rightarrow> (string \<Rightarrow> int option) \<Rightarrow> accts \<Rightarrow> bool" where
  "holds_sessions f d M \<longleftrightarrow>
     (\<forall>t. f (sessKey t) = opt_view (map_option (AStr \<circ> fst) (a_sess M t)) \<and> d (sessKey t) = map_option snd (a_sess M t)) \<and>
     (\<forall>uid. holds_set (f (userSessKey uid)) (d (userSessKey uid)) uid M)"

definition ar_rel :: "('s \<Rightarrow> string \<Rightarrow> aval kview) \<Rightarrow> ('s \<Rightarrow> string \<Rightarrow> int option) \<Rightarrow> ('s \<Rightarrow> int) \<Rightarrow> 's \<Rightarrow> accts \<Rightarrow> bool" where
  "ar_rel kks deadline clock s M \<longleftrightarrow> accts_ok M \<and> clock s = a_now M \<and> holds_users (kks s) (deadline s) M \<and>
     holds_tokens (kks s) (deadline s) M \<and> holds_sessions (kks s) (deadline s) M"

lemma holds_set_mono: "holds_set v dl uid M \<Longrightarrow> a_sess N = a_sess M \<Longrightarrow> a_issued M \<subseteq> a_issued N \<Longrightarrow> holds_set v dl uid N"
  unfolding holds_set_def by auto

lemma marshal_account_ok: "account_json u \<Longrightarrow> marshal_account u = Inr (AJson (JSON u))"
  by (simp add: marshal_account_def account_json_def utf8_def)

locale redis_accounts = redis_ttl C kks deadline clock elapse
  for C :: "('s, aval) kv" and kks deadline clock elapse
begin

lemma rel_users:
  assumes "ar_rel kks deadline clock s M"
  shows "accts_ok M" "clock s = a_now M" "kks s (userKey i) = opt_view (map_option (AJson \<circ> JSON) (a_users M i))" "kks s (emailKey e) = opt_view (map_option AStr (a_emails M e))"
    "kks s (sessKey t) = opt_view (map_option (AStr \<circ> fst) (a_sess M t))"
    "purpose p \<Longrightarrow> kks s (acct_tokKey p t) = opt_view (map_option (AStr \<circ> fst) (a_toks M (p, t)))"
    "holds_set (kks s (userSessKey uid)) (deadline s (userSessKey uid)) uid M"
  using assms by (simp_all add: ar_rel_def holds_users_def holds_sessions_def holds_tokens_def)

lemma GetByID_run:
  assumes "ar_rel kks deadline clock s M"
  shows "ar_GetByID C i s = (fst (GetByID users_spec i M), s)"
  using rel_users(3) [OF assms, of i] GET [of s "userKey i"]
  by (cases "a_users M i") (auto simp: ar_GetByID_def users_spec_def io_simps)

lemma GetByEmail_run:
  assumes "ar_rel kks deadline clock s M"
  shows "ar_GetByEmail C em s = (fst (GetByEmail users_spec em M), s)"
proof (cases "a_emails M em")
  case None
  then show ?thesis using rel_users(4) [OF assms, of em] GET [of s "emailKey em"] by (simp add: ar_GetByEmail_def users_spec_def io_simps)
next
  case (Some i)
  then have "ar_GetByEmail C em s = ar_GetByID C i s"
    using rel_users(4) [OF assms, of em] GET(2) [of s "emailKey em" "AStr i"] by (simp add: ar_GetByEmail_def io_simps)
  then show ?thesis using GetByID_run [OF assms, of i] Some by (auto simp: users_spec_def split: option.splits)
qed

lemma CreateUser_run:
  assumes r: "ar_rel kks deadline clock s M" and u: "account_json u" "a_users M (AcctID u) = None"
  shows "fst (ar_CreateUser C u s) = fst (CreateUser users_spec u M) \<and> ar_rel kks deadline clock (snd (ar_CreateUser C u s)) (snd (CreateUser users_spec u M))"
proof (cases "a_emails M (Email u)")
  case None
  then have "kks s (emailKey (Email u)) = VNone" using rel_users(4) [OF r, of "Email u"] by simp
  then obtain s1 where 1: "SETNX C (emailKey (Email u)) (AStr (AcctID u)) 0 s = (Reply True, s1)"
      "kks s1 = (kks s)(emailKey (Email u) := VStr (AStr (AcctID u)))" "clock s1 = clock s" "deadline s1 = deadline s" using SETNX_run by blast
  obtain s2 where 2: "SET C (userKey (AcctID u)) (AJson (JSON u)) 0 s1 = (Reply (), s2)"
      "kks s2 = (kks s1)(userKey (AcctID u) := VStr (AJson (JSON u)))" "clock s2 = clock s1" "deadline s2 = (deadline s1)(userKey (AcctID u) := None)"
    using SET_run [of "userKey (AcctID u)" "AJson (JSON u)" 0 s1] by auto
  have "ar_CreateUser C u s = (Inr (), s2)" using 1(1) 2(1) u(1) by (simp add: ar_CreateUser_def io_simps marshal_account_ok)
  moreover have "CreateUser users_spec u M = (Inr (), add_user u M)" using None by (simp add: users_spec_def add_user_def)
  moreover have "ar_rel kks deadline clock s2 (add_user u M)"
    using r accts_ok_changes(1) [OF rel_users(1) [OF r] u None] 1 2
    by (simp add: ar_rel_def holds_users_def holds_sessions_def holds_set_def holds_tokens_def add_user_def)
  ultimately show ?thesis by simp
next
  case (Some i)
  then have "SETNX C (emailKey (Email u)) (AStr (AcctID u)) 0 s = (Reply False, s)" using rel_users(4) [OF r, of "Email u"] SETNX(3) by simp
  then show ?thesis using Some r by (simp add: ar_CreateUser_def users_spec_def io_simps)
qed

lemma Update_run:
  assumes r: "ar_rel kks deadline clock s M" and u: "account_json u" "a_users M (AcctID u) = Some v" "Email v = Email u"
  shows "fst (ar_Update C u s) = fst (UpdateUser users_spec u M) \<and> ar_rel kks deadline clock (snd (ar_Update C u s)) (snd (UpdateUser users_spec u M))"
proof -
  obtain s2 where 2: "SET C (userKey (AcctID u)) (AJson (JSON u)) 0 s = (Reply (), s2)"
      "kks s2 = (kks s)(userKey (AcctID u) := VStr (AJson (JSON u)))" "clock s2 = clock s" "deadline s2 = (deadline s)(userKey (AcctID u) := None)"
    using SET_run [of "userKey (AcctID u)" "AJson (JSON u)" 0 s] by auto
  have "ar_Update C u s = (Inr (), s2)" using 2(1) u(1) by (simp add: ar_Update_def io_simps marshal_account_ok)
  moreover have "UpdateUser users_spec u M = (Inr (), set_user u M)" by (simp add: users_spec_def set_user_def)
  moreover have "ar_rel kks deadline clock s2 (set_user u M)"
    using r accts_ok_changes(2) [OF rel_users(1) [OF r] u] 2
    by (simp add: ar_rel_def holds_users_def holds_sessions_def holds_set_def holds_tokens_def set_user_def)
  ultimately show ?thesis by simp
qed

lemma UserID_run:
  assumes "ar_rel kks deadline clock s M"
  shows "ar_UserID C t s = (fst (SessUserID sessions_spec t M), s)"
  using rel_users(5) [OF assms, of t] GET [of s "sessKey t"]
  by (cases "a_sess M t") (auto simp: ar_UserID_def sessions_spec_def io_simps)

lemma SessCreate_run:
  assumes r: "ar_rel kks deadline clock s M" and f: "sess_fits uid ttl M" "tok \<notin> a_issued M" "tok = hex_encode b"
  shows "fst (ar_Create C uid ttl (Inr b) s) = Inr tok \<and> ar_rel kks deadline clock (snd (ar_Create C uid ttl (Inr b) s)) (add_sess tok uid ttl M)"
proof -
  obtain A where A: "kks s (userSessKey uid) = set_view A" "A \<subseteq> a_issued M" "\<forall>t \<in> A. \<forall>x. a_sess M t = Some x \<longrightarrow> fst x = uid"
      "\<forall>t x. a_sess M t = Some (uid, x) \<longrightarrow> t \<in> A"
    using rel_users(7) [OF r, of uid] unfolding holds_set_def by blast
  have ttl: "whole_ms ttl" "0 < ttl" using f(1) by (simp_all add: sess_fits_def whole_ms_def)
  obtain s1 where 1: "SET C (sessKey tok) (AStr uid) ttl s = (Reply (), s1)" "kks s1 = (kks s)(sessKey tok := VStr (AStr uid))" "clock s1 = clock s"
      "deadline s1 = (deadline s)(sessKey tok := Some (clock s + ttl))"
    using SET_run [of "sessKey tok" "AStr uid" ttl s] ttl(1) by blast
  have "kks s1 (userSessKey uid) = set_view A" using 1 A(1) by simp
  from SADD_run [OF this, of tok] obtain s2 n where 2: "SADD C (userSessKey uid) tok s1 = (Reply n, s2)"
      "kks s2 = (kks s1)(userSessKey uid := set_view (insert tok A))" "clock s2 = clock s1" "deadline s2 = deadline s1" by blast
  have "kks s2 (userSessKey uid) \<noteq> VNone" using 2 by (simp add: set_view_def)
  from KEXPIRE_run [OF this ttl(1)] obtain s3 q where 3: "KEXPIRE C (userSessKey uid) ttl s2 = (Reply q, s3)" "kks s3 = kks s2" "clock s3 = clock s2"
      "deadline s3 = (deadline s2)(userSessKey uid := Some (clock s2 + ttl))" by blast
  have run: "ar_Create C uid ttl (Inr b) s = (Inr tok, s3)"
    using f(3) tx_exec_Cons [of "SET C (sessKey tok) (AStr uid) ttl", OF 1(1)] tx_exec_Cons [of "SADD C (userSessKey uid) tok", OF 2(1)]
      tx_exec_Cons [of "KEXPIRE C (userSessKey uid) ttl", OF 3(1)]
    by (simp add: ar_Create_def io_simps newToken_def acct_randHex_def tx_exec_Nil)
  have old: "\<forall>t x. a_sess M t = Some (uid, x) \<longrightarrow> x \<le> a_now M + ttl" using f(1) by (simp add: sess_fits_def)
  have "holds_set (kks s3 (userSessKey v)) (deadline s3 (userSessKey v)) v (add_sess tok uid ttl M)" for v
  proof (cases "v = uid")
    case True
    then show ?thesis using A old 1 2 3 r unfolding holds_set_def
      by (intro exI [of _ "insert tok A"]) (auto simp: add_sess_def ar_rel_def)
  next
    case False
    obtain B where B: "kks s (userSessKey v) = set_view B" "B \<subseteq> a_issued M" "\<forall>t \<in> B. \<forall>x. a_sess M t = Some x \<longrightarrow> fst x = v"
        "\<forall>t x. a_sess M t = Some (v, x) \<longrightarrow> t \<in> B \<and> (\<exists>D. deadline s (userSessKey v) = Some D \<and> x \<le> D)"
      using rel_users(7) [OF r, of v] unfolding holds_set_def by blast
    then show ?thesis using False f(2) 1 2 3 unfolding holds_set_def by (intro exI [of _ B]) (auto simp: add_sess_def)
  qed
  moreover have "holds_users (kks s3) (deadline s3) (add_sess tok uid ttl M)" "holds_tokens (kks s3) (deadline s3) (add_sess tok uid ttl M)"
    using r 1 2 3 by (simp_all add: ar_rel_def holds_users_def holds_tokens_def add_sess_def)
  moreover have "\<forall>t. kks s3 (sessKey t) = opt_view (map_option (AStr \<circ> fst) (a_sess (add_sess tok uid ttl M) t)) \<and>
      deadline s3 (sessKey t) = map_option snd (a_sess (add_sess tok uid ttl M) t)"
    using r 1 2 3 by (simp add: ar_rel_def holds_sessions_def add_sess_def)
  ultimately have "ar_rel kks deadline clock s3 (add_sess tok uid ttl M)"
    using accts_ok_changes(3) [OF rel_users(1) [OF r] ttl(2)] rel_users(2) [OF r] 1 2 3
    unfolding ar_rel_def holds_sessions_def by (simp add: add_sess_def)
  with run show ?thesis by simp
qed

lemma Issue_run:
  assumes r: "ar_rel kks deadline clock s M" and p: "purpose p" "whole_ms ttl"
  shows "fst (ar_Issue C p uid ttl rnd s) = fst (Issue tokens_spec p uid ttl rnd M) \<and> ar_rel kks deadline clock (snd (ar_Issue C p uid ttl rnd s)) (snd (Issue tokens_spec p uid ttl rnd M))"
proof (cases rnd)
  case (Inr b)
  obtain s1 where 1: "SET C (acct_tokKey p (hex_encode b)) (AStr uid) ttl s = (Reply (), s1)" "kks s1 = (kks s)(acct_tokKey p (hex_encode b) := VStr (AStr uid))"
      "clock s1 = clock s" "deadline s1 = (deadline s)(acct_tokKey p (hex_encode b) := Some (clock s + ttl))"
    using SET_run [of "acct_tokKey p (hex_encode b)" "AStr uid" ttl s] p(2) by blast
  have "ar_rel kks deadline clock s1 (put_tok p (hex_encode b) uid ttl M)"
    using r 1 p accts_ok_changes(6) [OF rel_users(1) [OF r], of ttl p "hex_encode b" uid]
    by (auto simp: ar_rel_def holds_users_def holds_sessions_def holds_tokens_def put_tok_def acct_tokKey_inject whole_ms_def intro: holds_set_mono)
  then show ?thesis using 1(1) Inr
    by (simp add: ar_Issue_def tokens_spec_def io_simps newToken_def acct_randHex_def put_tok_def)
qed (use r in \<open>simp add: ar_Issue_def tokens_spec_def io_simps newToken_def acct_randHex_def\<close>)

lemma Consume_run:
  assumes r: "ar_rel kks deadline clock s M" and p: "purpose p"
  shows "fst (ar_Consume C p t s) = fst (Consume tokens_spec p t M) \<and> ar_rel kks deadline clock (snd (ar_Consume C p t s)) (snd (Consume tokens_spec p t M))"
proof (cases "a_toks M (p, t)")
  case None
  then show ?thesis using rel_users(6) [OF r p, of t] GETDEL(1) [of s "acct_tokKey p t"] r by (simp add: ar_Consume_def tokens_spec_def io_simps)
next
  case (Some x)
  then have "kks s (acct_tokKey p t) = VStr (AStr (fst x))" using rel_users(6) [OF r p, of t] by simp
  from GETDEL_run [OF this] obtain s1 where 1: "GETDEL C (acct_tokKey p t) s = (Reply (AStr (fst x)), s1)" "kks s1 = (kks s)(acct_tokKey p t := VNone)"
      "clock s1 = clock s" "deadline s1 = (deadline s)(acct_tokKey p t := None)" by blast
  have "ar_rel kks deadline clock s1 (take_tok p t M)"
    using r 1 p accts_ok_changes(7) [OF rel_users(1) [OF r], of p t]
    by (auto simp: ar_rel_def holds_users_def holds_sessions_def holds_tokens_def take_tok_def acct_tokKey_inject intro: holds_set_mono)
  then show ?thesis using 1(1) Some by (cases x) (simp add: ar_Consume_def tokens_spec_def io_simps take_tok_def)
qed

text \<open>Ending sessions: the keys of the tokens in \<open>X\<close> are gone, the sets shrink by at most \<open>X\<close>.\<close>

lemma ended_rel:
  assumes r: "ar_rel kks deadline clock s M" and N: "N = M\<lparr>a_sess := (\<lambda>t. if t \<in> X then None else a_sess M t)\<rparr>" "accts_ok N"
    and f: "\<forall>k. k \<notin> range sessKey \<longrightarrow> k \<notin> range userSessKey \<longrightarrow> kks s' k = kks s k \<and> deadline s' k = deadline s k" "clock s' = clock s"
    and g: "\<forall>t. kks s' (sessKey t) = (if t \<in> X then VNone else kks s (sessKey t)) \<and> deadline s' (sessKey t) = (if t \<in> X then None else deadline s (sessKey t))"
    and h: "\<forall>uid. holds_set (kks s' (userSessKey uid)) (deadline s' (userSessKey uid)) uid N"
  shows "ar_rel kks deadline clock s' N"
proof -
  have k: "userKey i \<notin> range sessKey" "userKey i \<notin> range userSessKey" "emailKey i \<notin> range sessKey" "emailKey i \<notin> range userSessKey"
    "acct_tokKey p i \<notin> range sessKey" "acct_tokKey p i \<notin> range userSessKey" for i p by auto
  have "holds_users (kks s') (deadline s') N" "holds_tokens (kks s') (deadline s') N"
    using r f(1) k by (simp_all add: ar_rel_def holds_users_def holds_tokens_def N(1))
  moreover have "holds_sessions (kks s') (deadline s') N"
    using r g h by (simp add: ar_rel_def holds_sessions_def N(1))
  ultimately show ?thesis using r N(2) f(2) by (simp add: ar_rel_def N(1))
qed

lemma holds_set_end:
  assumes "holds_set v dl uid M" "N = M\<lparr>a_sess := (\<lambda>t. if t \<in> X then None else a_sess M t)\<rparr>"
  shows "holds_set v dl uid N"
proof -
  obtain A where "v = set_view A" "A \<subseteq> a_issued M" "\<forall>t \<in> A. \<forall>x. a_sess M t = Some x \<longrightarrow> fst x = uid"
      "\<forall>t x. a_sess M t = Some (uid, x) \<longrightarrow> t \<in> A \<and> (\<exists>D. dl = Some D \<and> x \<le> D)"
    using assms(1) unfolding holds_set_def by blast
  then show ?thesis unfolding holds_set_def assms(2) by (intro exI [of _ A]) auto
qed

lemma Delete_run:
  assumes r: "ar_rel kks deadline clock s M"
  shows "fst (ar_Delete C t s) = Inr () \<and> ar_rel kks deadline clock (snd (ar_Delete C t s)) (end_sess t M)"
proof -
  define N where "N = M\<lparr>a_sess := (\<lambda>u. if u \<in> {t} then None else a_sess M u)\<rparr>"
  have N: "end_sess t M = N" by (simp add: N_def end_sess_def fun_eq_iff fun_upd_def)
  have ok: "accts_ok N" using accts_ok_changes(4) [OF rel_users(1) [OF r], of t] by (simp add: N)
  obtain s1 n where 1: "KDEL C (sessKey t) s = (Reply n, s1)" "kks s1 = (kks s)(sessKey t := VNone)" "clock s1 = clock s" "deadline s1 = (deadline s)(sessKey t := None)"
    using KDEL_run by blast
  show ?thesis
  proof (cases "\<exists>uid dl. a_sess M t = Some (uid, dl) \<and> uid \<noteq> []")
    case False
    have "ar_Delete C t s = (Inr (), s1)"
      using False rel_users(5) [OF r, of t] GET [of s "sessKey t"] tx_exec_Cons [of "KDEL C (sessKey t)", OF 1(1)]
      by (cases "a_sess M t") (auto simp: ar_Delete_def io_simps tx_exec_Nil)
    moreover have "ar_rel kks deadline clock s1 N"
      by (rule ended_rel [OF r N_def ok]) (use 1 rel_users(7) [OF r] holds_set_end [OF _ N_def] in auto)
    ultimately show ?thesis by (simp add: N)
  next
    case True
    then obtain uid dl where ses: "a_sess M t = Some (uid, dl)" "uid \<noteq> []" by blast
    obtain A where A: "kks s (userSessKey uid) = set_view A" "A \<subseteq> a_issued M" "\<forall>t \<in> A. \<forall>x. a_sess M t = Some x \<longrightarrow> fst x = uid"
        "\<forall>t x. a_sess M t = Some (uid, x) \<longrightarrow> t \<in> A \<and> (\<exists>D. deadline s (userSessKey uid) = Some D \<and> x \<le> D)"
      using rel_users(7) [OF r, of uid] unfolding holds_set_def by blast
    have "kks s1 (userSessKey uid) = set_view A" using 1(2) A(1) by simp
    from SREM_run [OF this, of t] obtain s2 q where 2: "SREM C (userSessKey uid) t s1 = (Reply q, s2)" "kks s2 = (kks s1)(userSessKey uid := set_view (A - {t}))"
        "clock s2 = clock s1" "deadline s2 = (if A - {t} = {} then (deadline s1)(userSessKey uid := None) else deadline s1)" by blast
    have "GET C (sessKey t) s = (Reply (AStr uid), s)" using rel_users(5) [OF r, of t] ses GET(2) by simp
    then have "ar_Delete C t s = (Inr (), s2)"
      using ses tx_exec_Cons [of "KDEL C (sessKey t)", OF 1(1)] tx_exec_Cons [of "SREM C (userSessKey uid) t", OF 2(1)]
      by (simp add: ar_Delete_def io_simps tx_exec_Nil)
    moreover have "ar_rel kks deadline clock s2 N"
    proof (rule ended_rel [OF r N_def ok])
      show "\<forall>v. holds_set (kks s2 (userSessKey v)) (deadline s2 (userSessKey v)) v N"
      proof
        fix v
        have d: "deadline s2 (userSessKey uid) = deadline s (userSessKey uid)" if "a_sess M u = Some (uid, x)" "u \<noteq> t" for u x
        proof -
          have "u \<in> A - {t}" using A(4) that by blast
          then show ?thesis using 1 2(4) by auto
        qed
        have "holds_set (set_view (A - {t})) (deadline s2 (userSessKey uid)) uid N"
          using A d unfolding holds_set_def by (intro exI [of _ "A - {t}"]) (auto simp: N_def)
        then show "holds_set (kks s2 (userSessKey v)) (deadline s2 (userSessKey v)) v N"
          using 1 2 holds_set_end [OF rel_users(7) [OF r, of v] N_def] by (cases "v = uid") auto
      qed
    qed (use 1 2 in \<open>auto split: if_splits\<close>)
    ultimately show ?thesis by (simp add: N)
  qed
qed

lemma del_tokens_run:
  "\<exists>s'. tx_exec (map (\<lambda>t. cmd_err (KDEL C (sessKey t))) ts @ cs) s = tx_exec cs s' \<and> clock s' = clock s \<and>
     kks s' = (\<lambda>k. if k \<in> sessKey ` set ts then VNone else kks s k) \<and> deadline s' = (\<lambda>k. if k \<in> sessKey ` set ts then None else deadline s k)"
proof (induction ts arbitrary: s)
  case (Cons t ts)
  obtain s1 n where 1: "KDEL C (sessKey t) s = (Reply n, s1)" "kks s1 = (kks s)(sessKey t := VNone)" "clock s1 = clock s" "deadline s1 = (deadline s)(sessKey t := None)"
    using KDEL_run by blast
  from Cons [of s1] obtain s' where "tx_exec (map (\<lambda>t. cmd_err (KDEL C (sessKey t))) ts @ cs) s1 = tx_exec cs s'" "clock s' = clock s1"
      "kks s' = (\<lambda>k. if k \<in> sessKey ` set ts then VNone else kks s1 k)" "deadline s' = (\<lambda>k. if k \<in> sessKey ` set ts then None else deadline s1 k)" by blast
  then show ?case using tx_exec_Cons [of "KDEL C (sessKey t)", OF 1(1)] 1 by (intro exI [of _ s']) (auto simp: fun_eq_iff)
qed auto

lemma DeleteAll_run:
  assumes r: "ar_rel kks deadline clock s M"
  shows "fst (ar_DeleteAllForUser C uid s) = Inr () \<and> ar_rel kks deadline clock (snd (ar_DeleteAllForUser C uid s)) (end_all uid M)"
proof -
  obtain A where A: "kks s (userSessKey uid) = set_view A" "A \<subseteq> a_issued M" "\<forall>t \<in> A. \<forall>x. a_sess M t = Some x \<longrightarrow> fst x = uid"
      "\<forall>t x. a_sess M t = Some (uid, x) \<longrightarrow> t \<in> A"
    using rel_users(7) [OF r, of uid] unfolding holds_set_def by blast
  define N where "N = M\<lparr>a_sess := (\<lambda>t. if t \<in> A then None else a_sess M t)\<rparr>"
  have "(\<lambda>t. if t \<in> A then None else a_sess M t) = drop_sess (\<lambda>t x. fst x = uid) (a_sess M)"
    using A(3,4) by (auto simp: drop_sess_def fun_eq_iff split: option.splits)
  then have N: "end_all uid M = N" by (simp add: N_def end_all_def)
  have ok: "accts_ok N" using accts_ok_changes(5) [OF rel_users(1) [OF r], of uid] by (simp add: N)
  obtain ts where ts: "SMEMBERS C (userSessKey uid) s = (Reply ts, s)" "set ts = A" using SMEMBERS [OF A(1)] by blast
  obtain s1 where 1: "tx_exec (map (\<lambda>t. cmd_err (KDEL C (sessKey t))) ts @ [cmd_err (KDEL C (userSessKey uid))]) s = tx_exec [cmd_err (KDEL C (userSessKey uid))] s1"
      "clock s1 = clock s" "kks s1 = (\<lambda>k. if k \<in> sessKey ` A then VNone else kks s k)" "deadline s1 = (\<lambda>k. if k \<in> sessKey ` A then None else deadline s k)"
    using del_tokens_run [of ts "[cmd_err (KDEL C (userSessKey uid))]" s] ts(2) by auto
  obtain s2 n where 2: "KDEL C (userSessKey uid) s1 = (Reply n, s2)" "kks s2 = (kks s1)(userSessKey uid := VNone)" "clock s2 = clock s1" "deadline s2 = (deadline s1)(userSessKey uid := None)"
    using KDEL_run by blast
  have "ar_DeleteAllForUser C uid s = (Inr (), s2)"
    using ts(1) 1(1) tx_exec_Cons [of "KDEL C (userSessKey uid)", OF 2(1)] by (simp add: ar_DeleteAllForUser_def io_simps tx_exec_Nil)
  moreover have "ar_rel kks deadline clock s2 N"
  proof (rule ended_rel [OF r N_def ok])
    show "\<forall>v. holds_set (kks s2 (userSessKey v)) (deadline s2 (userSessKey v)) v N"
    proof
      fix v
      have "userSessKey v \<notin> sessKey ` A" by auto
      moreover have "holds_set VNone None uid N" using A(4) unfolding holds_set_def by (intro exI [of _ "{}"]) (auto simp: set_view_def N_def)
      ultimately show "holds_set (kks s2 (userSessKey v)) (deadline s2 (userSessKey v)) v N"
        using 1 2 holds_set_end [OF rel_users(7) [OF r, of v] N_def] by (cases "v = uid") auto
    qed
  qed (use 1 2 in auto)
  ultimately show ?thesis by (simp add: N)
qed

lemma elapse_run:
  assumes r: "ar_rel kks deadline clock s M" and d: "0 \<le> d"
  shows "ar_rel kks deadline clock (elapse d s) (pass d M)"
proof -
  have now: "clock s = a_now M" by (rule rel_users(2) [OF r])
  have "holds_set (kks (elapse d s) (userSessKey uid)) (deadline (elapse d s) (userSessKey uid)) uid (pass d M)" for uid
  proof -
    obtain A where A: "kks s (userSessKey uid) = set_view A" "A \<subseteq> a_issued M" "\<forall>t \<in> A. \<forall>x. a_sess M t = Some x \<longrightarrow> fst x = uid"
        "\<forall>t x. a_sess M t = Some (uid, x) \<longrightarrow> t \<in> A \<and> (\<exists>D. deadline s (userSessKey uid) = Some D \<and> x \<le> D)"
      using rel_users(7) [OF r, of uid] unfolding holds_set_def by blast
    have alive: "a_sess (pass d M) t = Some x \<longleftrightarrow> a_sess M t = Some x \<and> a_now M + d < snd x" for t x
      by (cases x) (auto simp: pass_def Let_def split: option.splits if_splits)
    have iss: "a_issued (pass d M) = a_issued M" by (simp add: pass_def Let_def)
    show ?thesis
    proof (cases "due (deadline s (userSessKey uid)) (clock s + d)")
      case True
      then have "\<not> (\<exists>t x. a_sess (pass d M) t = Some (uid, x))" using A(4) unfolding alive now by (cases "deadline s (userSessKey uid)") force+
      with True d show ?thesis unfolding holds_set_def elapse(2,3) [OF d] by (intro exI [of _ "{}"]) (auto simp: set_view_def)
    next
      case False
      then show ?thesis using A d unfolding holds_set_def iss alive by (intro exI [of _ A]) (auto simp: elapse)
    qed
  qed
  moreover have "holds_users (kks (elapse d s)) (deadline (elapse d s)) (pass d M)"
    using r d by (simp add: ar_rel_def holds_users_def elapse pass_def Let_def)
  moreover have "holds_tokens (kks (elapse d s)) (deadline (elapse d s)) (pass d M)"
    using r d now unfolding ar_rel_def holds_tokens_def by (auto simp: elapse pass_def Let_def split: option.splits)
  moreover have "\<forall>t. kks (elapse d s) (sessKey t) = opt_view (map_option (AStr \<circ> fst) (a_sess (pass d M) t)) \<and>
      deadline (elapse d s) (sessKey t) = map_option snd (a_sess (pass d M) t)"
    using r d now unfolding ar_rel_def holds_sessions_def by (auto simp: elapse pass_def Let_def split: option.splits)
  ultimately show ?thesis
    using accts_ok_changes(8) [OF rel_users(1) [OF r] d] now d unfolding ar_rel_def holds_sessions_def by (simp add: elapse pass_def Let_def)
qed

sublocale ar: account_stores "redis_users C" "redis_sessions C" "redis_tokens C" "ar_rel kks deadline clock" "\<lambda>_. True" elapse
proof (unfold_locales, goal_cases)
  case (1 s M)
  then show ?case by (rule rel_users(1))
next
  case (2 u)
  show ?case using CreateUser_run by (auto simp: sim_def redis_users_def)
next
  case (3 e)
  show ?case by (auto simp: sim_def redis_users_def GetByEmail_run users_spec_def split: option.splits)
next
  case (4 i)
  show ?case by (auto simp: sim_def redis_users_def GetByID_run users_spec_def split: option.splits)
next
  case (5 u)
  show ?case using Update_run by (auto simp: sim_def redis_users_def)
next
  case (6 uid ttl rnd)
  show ?case
  proof (cases rnd)
    case (Inr b)
    then show ?thesis using SessCreate_run [of _ _ uid ttl "hex_encode b" b]
      by (auto simp: sim_def redis_sessions_def sessions_spec_def newToken_def acct_randHex_def add_sess_def)
  qed (auto simp: sim_def redis_sessions_def ar_Create_def sessions_spec_def newToken_def acct_randHex_def io_simps)
next
  case (7 t)
  show ?case by (auto simp: sim_def redis_sessions_def UserID_run sessions_spec_def split: option.splits)
next
  case (8 t)
  show ?case using Delete_run by (auto simp: sim_def redis_sessions_def sessions_spec_def end_sess_def)
next
  case (9 uid)
  show ?case using DeleteAll_run by (auto simp: sim_def redis_sessions_def sessions_spec_def end_all_def)
next
  case (10 p ttl uid rnd)
  show ?case using Issue_run by (auto simp: sim_def redis_tokens_def)
next
  case (11 p t)
  show ?case using Consume_run by (auto simp: sim_def redis_tokens_def)
next
  case (12 d s M)
  then show ?case using elapse_run by simp
qed

lemma ar_rel_start: "\<forall>k. kks s k = VNone \<Longrightarrow> clock s = 0 \<Longrightarrow> ar_rel kks deadline clock s no_accts"
  using absent [of s] unfolding ar_rel_def holds_users_def holds_tokens_def holds_sessions_def holds_set_def
  by (auto simp: no_accts_def accts_ok_def set_view_def)

end

interpretation timed_accounts: redis_accounts timed_kv timed_kks timed_deadline t_clock timed_elapse
  by unfold_locales

end
