(* ===== verification/Accounts_Properties.thy ===== *)
theory Accounts_Properties
  imports Accounts_Redis
begin

text \<open>
  What the account service guarantees over its stores: it behaves as specified, a session lasts
  from login to logout, password reset or the end of its time, a reset ends every session of the
  account and changes what password it takes, and nobody logs in before a token mailed to the
  address of the account was presented.
\<close>

subsection \<open>The configured service\<close>

definition acct_defaults :: "AcctConfig \<Rightarrow> AcctConfig" where
  "acct_defaults cfg =
     \<lparr>BaseURL = (if BaseURL cfg = [] then ''http://localhost:8080'' else BaseURL cfg),
      cSessionTTL = (if cSessionTTL cfg = 0 then 30 * 24 * hour else cSessionTTL cfg),
      VerifyTTL = (if VerifyTTL cfg = 0 then 24 * hour else VerifyTTL cfg),
      ResetTTL = (if ResetTTL cfg = 0 then hour else ResetTTL cfg)\<rparr>"

lemma NewService_service: "NewService U S T mail cfg = service U S T mail (acct_defaults cfg)"
  by (cases cfg) (simp add: NewService_def service_def acct_defaults_def Let_def)

definition redis_service :: "('s, aval) kv \<Rightarrow> (Message \<Rightarrow> ('e, unit) io) \<Rightarrow> AcctConfig \<Rightarrow> ('s, 'e) Service" where
  "redis_service C mail cfg = NewService (redis_users C) (redis_sessions C) (redis_tokens C) mail cfg"

definition mem_service :: "(Message \<Rightarrow> ('e, unit) io) \<Rightarrow> AcctConfig \<Rightarrow> (AcctMem, 'e) Service" where
  "mem_service mail cfg = NewService mem_users mem_sessions mem_tokens mail cfg"

abbreviation acct_model :: "(Message \<Rightarrow> ('e, unit) io) \<Rightarrow> AcctConfig \<Rightarrow> bcrypt \<Rightarrow> (int \<Rightarrow> int) \<Rightarrow> acct_op \<Rightarrow> accts \<times> 'e \<Rightarrow> acct_res \<times> accts \<times> 'e" where
  "acct_model mail cfg \<equiv> acct_spec mail (acct_defaults cfg)"

lemma svc_ok_start: "svc_ok cfg no_accts"
  by (simp add: svc_ok_def no_accts_def)

context redis_accounts
begin

lemma redis_run:
  assumes "\<forall>k. kks s k = VNone" "clock s = 0" "ttls_ok (acct_defaults cfg)"
    and "guarded (acct_op_ok bc low (\<lambda>_. True)) (acct_model mail cfg bc low) ops (no_accts, e)"
  shows "fst (pipe_run (acct_exec elapse (redis_service C mail cfg) bc low) ops (s, e)) = fst (pipe_run (acct_model mail cfg bc low) ops (no_accts, e))"
    "accts_ok (fst (snd (pipe_run (acct_model mail cfg bc low) ops (no_accts, e))))"
    "svc_ok (acct_defaults cfg) (fst (snd (pipe_run (acct_model mail cfg bc low) ops (no_accts, e))))"
    "snd (snd (pipe_run (acct_exec elapse (redis_service C mail cfg) bc low) ops (s, e))) = snd (snd (pipe_run (acct_model mail cfg bc low) ops (no_accts, e)))"
  using ar.run_sim(1) [OF assms(3) ar_rel_start [OF assms(1,2)] svc_ok_start assms(4)] ar.run_ok [OF assms(3) ar_rel_start [OF assms(1,2)] svc_ok_start assms(4)]
  by (simp_all add: redis_service_def NewService_service)

end

lemmas acct_redis_run = redis_accounts.redis_run [OF redis_accounts.intro]

definition timeless :: "acct_op list \<Rightarrow> bool" where
  "timeless ops \<longleftrightarrow> list_all (\<lambda>op. case op of APass d \<Rightarrow> d = 0 | _ \<Rightarrow> True) ops"

lemma guarded_timeless:
  assumes "guarded (acct_op_ok bc low (\<lambda>_. True)) f ops x" "timeless ops"
  shows "guarded (acct_op_ok bc low (\<lambda>d. d = 0)) f ops x"
  using assms unfolding timeless_def
proof (induction ops arbitrary: x)
  case (Cons op ops)
  then show ?case by (cases op) auto
qed simp


subsection \<open>The life of a session\<close>

text \<open>
  A request ends the session \<open>t\<close> of \<open>uid\<close> with \<open>left\<close> nanoseconds to go: a logout with the token, a
  password reset of the account that goes through, time.
\<close>

fun ends_session :: "bcrypt \<Rightarrow> string \<Rightarrow> string \<Rightarrow> int \<Rightarrow> acct_op \<Rightarrow> accts \<Rightarrow> bool" where
  "ends_session bc t uid left (ALogout t') M = (t' = t)"
| "ends_session bc t uid left (APass d) M = (left \<le> d)"
| "ends_session bc t uid left (AReset tk pw salt) M =
     (8 \<le> length pw \<and> map_option fst (a_toks M (purposeReset, tk)) = Some uid \<and> \<not> isl (GenerateFromPassword bc pw salt))"
| "ends_session bc t uid left _ M = False"

fun spent :: "acct_op \<Rightarrow> int" where
  "spent (APass d) = d"
| "spent _ = 0"

lemma changes_sess [simp]:
  "a_sess (add_user u M) = a_sess M" "a_sess (set_user u M) = a_sess M" "a_sess (put_tok p t uid d M) = a_sess M" "a_sess (take_tok p t M) = a_sess M"
  "a_now (add_user u M) = a_now M" "a_now (set_user u M) = a_now M" "a_now (put_tok p t uid d M) = a_now M" "a_now (take_tok p t M) = a_now M"
  "a_now (add_sess t uid d M) = a_now M" "a_now (end_sess t M) = a_now M" "a_now (end_all uid M) = a_now M" "a_now (pass d M) = a_now M + d"
  "a_issued (add_user u M) = a_issued M" "a_issued (set_user u M) = a_issued M" "a_issued (put_tok p t uid d M) = insert t (a_issued M)"
  "a_issued (take_tok p t M) = a_issued M" "a_issued (add_sess t uid d M) = insert t (a_issued M)" "a_issued (end_sess t M) = a_issued M"
  "a_issued (end_all uid M) = a_issued M" "a_issued (pass d M) = a_issued M"
  by (simp_all add: changes pass_def Let_def)

lemma sess_changes [simp]:
  "a_sess (add_sess t uid d M) = (a_sess M)(t \<mapsto> (uid, a_now M + d))" "a_sess (end_sess t M) = (a_sess M)(t := None)"
  "a_sess (end_all uid M) u = (case a_sess M u of None \<Rightarrow> None | Some x \<Rightarrow> if fst x = uid then None else Some x)"
  "a_sess (pass d M) u = (case a_sess M u of None \<Rightarrow> None | Some x \<Rightarrow> if snd x \<le> a_now M + d then None else Some x)"
  by (simp_all add: changes pass_def Let_def drop_sess_def split: option.splits)

lemma sess_step:
  assumes "accts_ok M" "svc_ok cfg M" "acct_op_ok bc low T op (M, e)" "a_sess M t = Some (uid, a_now M + left)"
  shows "let M' = fst (snd (acct_spec mail cfg bc low op (M, e))) in
    a_sess M' t = (if ends_session bc t uid left op M then None else Some (uid, a_now M + left)) \<and> a_now M' = a_now M + spent op"
proof (cases op)
  case (ALogin em pw rtok)
  have "t \<in> a_issued M" using assms(1,4) unfolding accts_ok_def by blast
  then have "hex_encode b \<noteq> t" if "rtok = Inr b" for b using assms(3) ALogin that by (auto simp: fresh_token_def)
  then show ?thesis using ALogin assms(4) by (auto simp: Login_spec split: option.splits sum.splits)
next
  case (AReset tk pw salt)
  have "a_users M v \<noteq> None" if "a_toks M (purposeReset, tk) = Some (v, dl)" for v dl using assms(2) that unfolding svc_ok_def by blast
  then show ?thesis using AReset assms(4) by (auto simp: ResetPassword_spec split: option.splits sum.splits)
qed (use assms(4) in \<open>auto simp: request_specs case_prod_beta Let_def split: option.splits sum.splits\<close>)

lemma issued_step: "t \<in> a_issued M \<Longrightarrow> t \<in> a_issued (fst (snd (acct_spec mail cfg bc low op (M, e))))"
  by (cases op) (auto simp: request_specs case_prod_beta Let_def split: option.splits sum.splits)

lemma dead_step:
  assumes "acct_op_ok bc low T op (M, e)" "a_sess M t = None" "t \<in> a_issued M"
  shows "a_sess (fst (snd (acct_spec mail cfg bc low op (M, e)))) t = None"
proof (cases op)
  case (ALogin em pw rtok)
  then have "hex_encode b \<noteq> t" if "rtok = Inr b" for b using assms(1,3) that by (auto simp: fresh_token_def)
  then show ?thesis using ALogin assms(2) by (auto simp: Login_spec split: option.splits sum.splits)
qed (use assms(2) in \<open>auto simp: request_specs case_prod_beta Let_def split: option.splits sum.splits\<close>)

fun survives :: "(acct_op \<Rightarrow> accts \<times> 'e \<Rightarrow> acct_res \<times> accts \<times> 'e) \<Rightarrow> bcrypt \<Rightarrow> string \<Rightarrow> string \<Rightarrow> int \<Rightarrow> acct_op list \<Rightarrow> accts \<times> 'e \<Rightarrow> bool" where
  "survives f bc t uid left [] x = True"
| "survives f bc t uid left (op # ops) x = (\<not> ends_session bc t uid left op (fst x) \<and> survives f bc t uid (left - spent op) ops (snd (f op x)))"

definition acct_inv :: "AcctConfig \<Rightarrow> accts \<Rightarrow> bool" where
  "acct_inv cfg M \<longleftrightarrow> accts_ok M \<and> svc_ok cfg M"

lemma users_changes [simp]:
  "a_users (take_tok p t M) = a_users M" "a_users (put_tok p t uid d M) = a_users M" "a_users (add_sess t uid d M) = a_users M"
  "a_users (end_sess t M) = a_users M" "a_users (end_all uid M) = a_users M" "a_users (pass d M) = a_users M"
  "a_users (set_user u M) = (a_users M)(AcctID u \<mapsto> u)" "a_users (add_user u M) = (a_users M)(AcctID u \<mapsto> u)"
  by (simp_all add: changes pass_def Let_def)

lemma accts_ok_rewrite:
  assumes "accts_ok M" "a_users M uid = Some u" "AcctID v = AcctID u" "Email v = Email u" "account_json v"
  shows "accts_ok (set_user v (take_tok p t M))"
proof -
  have "AcctID u = uid" using assms(1,2) unfolding accts_ok_def by blast
  then show ?thesis using accts_ok_changes(2) [OF accts_ok_changes(7) [OF assms(1)], of v p t u] assms by simp
qed

lemma accts_ok_step:
  assumes ok: "accts_ok M" and ttl: "ttls_ok cfg" and g: "acct_op_ok bc low T op (M, e)"
  shows "accts_ok (fst (snd (acct_spec mail cfg bc low op (M, e))))"
proof (cases op)
  case (ASignup em pw salt rid rtok now)
  have "accts_ok (add_user \<lparr>AcctID = ''usr_'' @ hex_encode b, Email = normalizeEmail low em, PasswordHash = h, EmailVerified = False, AcctCreatedAt = now\<rparr> M)"
    if "rid = Inr b" "GenerateFromPassword bc pw salt = Inr h" "a_emails M (normalizeEmail low em) = None" for b h
    using g ASignup that utf8_usr [of b] by (intro accts_ok_changes(1) [OF ok]) (auto simp: account_json_def hash_text_def)
  moreover have "0 < VerifyTTL cfg" using ttl by (simp add: ttls_ok_def whole_ms_def)
  ultimately show ?thesis using ASignup ok accts_ok_changes(6)
    by (simp add: request_specs Let_def case_prod_beta split: sum.splits)
next
  case (AVerify t)
  have "accts_ok (set_user (u\<lparr>EmailVerified := True\<rparr>) (take_tok purposeVerify t M))" if "a_users M uid = Some u" for u uid
    by (rule accts_ok_rewrite [OF ok that]) (use ok that in \<open>auto simp: accts_ok_def account_json_def\<close>)
  then show ?thesis using AVerify ok accts_ok_changes(7) [OF ok] by (auto simp: request_specs split: option.splits)
next
  case (AReset t pw salt)
  have "accts_ok (set_user (u\<lparr>PasswordHash := h\<rparr>) (take_tok purposeReset t M))"
    if "a_users M uid = Some u" "GenerateFromPassword bc pw salt = Inr h" for u uid h
    by (rule accts_ok_rewrite [OF ok that(1)]) (use ok that g AReset in \<open>auto simp: accts_ok_def account_json_def hash_text_def\<close>)
  then show ?thesis using AReset ok accts_ok_changes(7) [OF ok] accts_ok_changes(5) by (auto simp: request_specs split: option.splits sum.splits)
qed (use ttl g accts_ok_changes [OF ok] ok in \<open>auto simp: request_specs case_prod_beta ttls_ok_def whole_ms_def split: option.splits sum.splits\<close>)

lemma acct_inv_step:
  assumes "acct_inv cfg M" "ttls_ok cfg" "acct_op_ok bc low T op (M, e)"
  shows "acct_inv cfg (fst (snd (acct_spec mail cfg bc low op (M, e))))"
  using accts_ok_step [of M cfg bc low T op e mail] svc_ok_step [of M cfg bc low T op e mail] assms by (simp add: acct_inv_def)

lemma acct_inv_run:
  assumes "acct_inv cfg (fst x)" "ttls_ok cfg" "guarded (acct_op_ok bc low T) (acct_spec mail cfg bc low) ops x"
  shows "acct_inv cfg (fst (snd (pipe_run (acct_spec mail cfg bc low) ops x)))"
  using assms(1,3)
proof (induction ops arbitrary: x)
  case (Cons op ops)
  obtain M e where x: "x = (M, e)" by fastforce
  show ?case using Cons.IH [of "snd (acct_spec mail cfg bc low op x)"] acct_inv_step [of cfg M bc low T op e mail] Cons.prems assms(2)
    by (simp add: x case_prod_beta)
qed simp

lemma dead_session_run:
  assumes "guarded (acct_op_ok bc low T) (acct_spec mail cfg bc low) ops x" "a_sess (fst x) t = None" "t \<in> a_issued (fst x)"
  shows "a_sess (fst (snd (pipe_run (acct_spec mail cfg bc low) ops x))) t = None"
  using assms
proof (induction ops arbitrary: x)
  case (Cons op ops)
  obtain M e where x: "x = (M, e)" by fastforce
  show ?case using Cons.IH [of "snd (acct_spec mail cfg bc low op x)"] dead_step [of bc low T op M e t mail cfg] issued_step [of t M mail cfg bc low op e] Cons.prems
    by (simp add: x case_prod_beta)
qed simp

lemma session_run:
  assumes "acct_inv cfg (fst x)" "ttls_ok cfg" "guarded (acct_op_ok bc low T) (acct_spec mail cfg bc low) ops x"
    and "a_sess (fst x) t = Some (uid, a_now (fst x) + left)"
  shows "a_sess (fst (snd (pipe_run (acct_spec mail cfg bc low) ops x))) t =
    (if survives (acct_spec mail cfg bc low) bc t uid left ops x then Some (uid, a_now (fst x) + left) else None)"
  using assms(1,3,4)
proof (induction ops arbitrary: x left)
  case (Cons op ops)
  obtain M e where x: "x = (M, e)" by fastforce
  define x' where "x' = snd (acct_spec mail cfg bc low op x)"
  have g: "acct_op_ok bc low T op (M, e)" "guarded (acct_op_ok bc low T) (acct_spec mail cfg bc low) ops x'" using Cons.prems(2) by (simp_all add: x x'_def)
  have st: "a_sess (fst x') t = (if ends_session bc t uid left op M then None else Some (uid, a_now M + left))" "a_now (fst x') = a_now M + spent op"
    using sess_step [of M cfg bc low T op e t uid left mail] Cons.prems g(1) by (simp_all add: x x'_def acct_inv_def Let_def)
  have r: "snd (pipe_run (acct_spec mail cfg bc low) (op # ops) x) = snd (pipe_run (acct_spec mail cfg bc low) ops x')" by (simp add: case_prod_beta x'_def)
  show ?case
  proof (cases "ends_session bc t uid left op M")
    case True
    have "t \<in> a_issued M" using Cons.prems(1,3) unfolding x acct_inv_def accts_ok_def by auto
    then have "t \<in> a_issued (fst x')" unfolding x'_def x by (rule issued_step)
    then show ?thesis unfolding r using dead_session_run [OF g(2)] st(1) True by (simp add: x)
  next
    case False
    have "acct_inv cfg (fst x')" unfolding x'_def x by (rule acct_inv_step [OF _ assms(2) g(1)]) (use Cons.prems(1) in \<open>simp add: x\<close>)
    then show ?thesis unfolding r using Cons.IH [of x' "left - spent op"] g(2) st False by (simp add: x x'_def)
  qed
qed simp

lemma acct_inv_start: "acct_inv cfg (fst (no_accts, e))"
  by (simp add: acct_inv_def svc_ok_start) (simp add: no_accts_def accts_ok_def)

text \<open>A sample account: a stand-in for bcrypt that prefixes the password, a mail sender that keeps the messages.\<close>

definition toy_bcrypt :: bcrypt where
  "toy_bcrypt = \<lparr>GenerateFromPassword = (\<lambda>pw salt. Inr (''h'' @ pw)), CompareHashAndPassword = (\<lambda>h pw. h = ''h'' @ pw)\<rparr>"

definition outbox :: "(Message \<Rightarrow> err option) \<Rightarrow> Message \<Rightarrow> (Message list, unit) io" where
  "outbox fails m out = ((case fails m of None \<Rightarrow> Inr () | Some x \<Rightarrow> Inl x), out @ [m])"

definition toy_cfg :: AcctConfig where
  "toy_cfg = \<lparr>BaseURL = [], cSessionTTL = 0, VerifyTTL = 0, ResetTTL = 0\<rparr>"

definition toy_user :: "bool \<Rightarrow> string \<Rightarrow> Account" where
  "toy_user v pw = \<lparr>AcctID = ''usr_75'', Email = ''a@b.co'', PasswordHash = ''h'' @ pw, EmailVerified = v, AcctCreatedAt = 0\<rparr>"

definition toy_joined :: "acct_op list" where
  "toy_joined = [ASignup ''a@b.co'' ''password'' [] (Inr ''u'') (Inr ''v'') 0, AVerify ''76'']"

definition toy_login :: acct_op where
  "toy_login = ALogin ''a@b.co'' ''password'' (Inr ''s'')"

abbreviation toy :: "acct_op \<Rightarrow> accts \<times> Message list \<Rightarrow> acct_res \<times> accts \<times> Message list" where
  "toy \<equiv> acct_model (outbox (\<lambda>_. None)) toy_cfg toy_bcrypt ascii_low"

lemma toy_ttls: "ttls_ok (acct_defaults toy_cfg)"
  by (simp add: ttls_ok_def acct_defaults_def toy_cfg_def whole_ms_def hour_def second_def)

lemma toy_email: "normalizeEmail ascii_low ''a@b.co'' = ''a@b.co''" "emailRe ''a@b.co''" "utf8 ''a@b.co''" "json_year 0" "utf8 ''hpassword''"
  by code_simp+

lemma toy_hex: "hex_digit 7 = CHR ''7''" "hex_digit 6 = CHR ''6''" "hex_digit 5 = CHR ''5''" "hex_digit 3 = CHR ''3''" "hex_digit 2 = CHR ''2''"
  by code_simp+

lemma toy_state: "fst (snd (pipe_run toy toy_joined (no_accts, []))) =
  \<lparr>a_users = [''usr_75'' \<mapsto> toy_user True ''password''], a_emails = [''a@b.co'' \<mapsto> ''usr_75''], a_sess = Map.empty, a_toks = Map.empty, a_now = 0, a_issued = {''76''}\<rparr>"
  by (simp add: toy_joined_def request_specs toy_email toy_hex toy_bcrypt_def case_prod_beta Let_def no_accts_def changes toy_user_def outbox_def)

lemma toy_guarded: "guarded (acct_op_ok toy_bcrypt ascii_low (\<lambda>_. True)) toy toy_joined (no_accts, [])"
  by (simp add: toy_joined_def toy_email toy_bcrypt_def hash_text_def fresh_token_def no_accts_def)

lemma last_run: "last (fst (pipe_run f (ops @ [op]) x)) = fst (f op (snd (pipe_run f ops x)))"
  by (simp add: pipe_run_append case_prod_beta)

lemma snd_run: "snd (pipe_run f (ops @ ops') x) = snd (pipe_run f ops' (snd (pipe_run f ops x)))"
  by (simp add: pipe_run_append case_prod_beta)


definition toy_server :: "aval timed" where
  "toy_server = \<lparr>t_mem = [], t_dl = (\<lambda>_. None), t_clock = 0\<rparr>"

lemma toy_redis: "redis_ttl timed_kv timed_kks timed_deadline t_clock timed_elapse" "\<forall>k. timed_kks toy_server k = VNone" "t_clock toy_server = 0"
  by (rule timed_kv.redis_ttl_axioms) (simp_all add: toy_server_def timed_kks_def mem_kks_def)

lemma toy_login_guard: "guarded (acct_op_ok toy_bcrypt ascii_low (\<lambda>_. True)) toy (toy_joined @ [toy_login]) (no_accts, [])"
  using toy_guarded by (simp add: guarded_append toy_login_def fresh_token_def toy_state toy_hex)

lemma toy_login_run: "\<exists>out. toy toy_login (snd (pipe_run toy toy_joined (no_accts, []))) =
  (ARLogin (Inr (''73'', toy_user True ''password'')),
   \<lparr>a_users = [''usr_75'' \<mapsto> toy_user True ''password''], a_emails = [''a@b.co'' \<mapsto> ''usr_75''], a_sess = [''73'' \<mapsto> (''usr_75'', 30 * 24 * hour)], a_toks = Map.empty, a_now = 0, a_issued = {''73'', ''76''}\<rparr>, out)"
proof -
  obtain M out where x: "snd (pipe_run toy toy_joined (no_accts, [])) = (M, out)" by fastforce
  then have M: "M = \<lparr>a_users = [''usr_75'' \<mapsto> toy_user True ''password''], a_emails = [''a@b.co'' \<mapsto> ''usr_75''], a_sess = Map.empty, a_toks = Map.empty, a_now = 0, a_issued = {''76''}\<rparr>"
    using toy_state by simp
  show ?thesis
    unfolding x by (simp add: M map_res_def toy_login_def Login_spec acct_lookup_def toy_email toy_user_def toy_bcrypt_def toy_hex add_sess_def acct_defaults_def toy_cfg_def)
qed



subsection \<open>Password reset\<close>

lemma toks_changes [simp]:
  "a_toks (add_user u M) = a_toks M" "a_toks (set_user u M) = a_toks M" "a_toks (add_sess t uid d M) = a_toks M" "a_toks (end_sess t M) = a_toks M"
  "a_toks (end_all uid M) = a_toks M" "a_toks (put_tok p t uid d M) = (a_toks M)((p, t) \<mapsto> (uid, a_now M + d))" "a_toks (take_tok p t M) = (a_toks M)((p, t) := None)"
  "a_toks (pass d M) x = (case a_toks M x of None \<Rightarrow> None | Some y \<Rightarrow> if snd y \<le> a_now M + d then None else Some y)"
  by (simp_all add: changes pass_def Let_def split: option.splits)

text \<open>A used token stays used: the tokens drawn later are others.\<close>

lemma used_step:
  assumes "acct_op_ok bc low T op (M, e)" "a_toks M (p, t) = None" "t \<in> a_issued M"
  shows "a_toks (fst (snd (acct_spec mail cfg bc low op (M, e)))) (p, t) = None"
proof -
  have "hex_encode b \<noteq> t" if "fresh_token (Inr b) M" for b using that assms(3) by (auto simp: fresh_token_def)
  then show ?thesis using assms(1,2)
    by (cases op) (auto simp: request_specs case_prod_beta Let_def split: option.splits sum.splits)
qed

lemma used_run:
  assumes "guarded (acct_op_ok bc low T) (acct_spec mail cfg bc low) ops x" "a_toks (fst x) (p, t) = None" "t \<in> a_issued (fst x)"
  shows "a_toks (fst (snd (pipe_run (acct_spec mail cfg bc low) ops x))) (p, t) = None"
  using assms
proof (induction ops arbitrary: x)
  case (Cons op ops)
  obtain M e where x: "x = (M, e)" by fastforce
  show ?case using Cons.IH [of "snd (acct_spec mail cfg bc low op x)"] used_step [of bc low T op M e p t mail cfg] issued_step [of t M mail cfg bc low op e] Cons.prems
    by (simp add: x case_prod_beta)
qed simp

lemma reset_state:
  assumes "acct_inv cfg M" "map_option fst (a_toks M (purposeReset, tk)) = Some uid" "fst (acct_spec mail cfg bc low (AReset tk pw salt) (M, e)) = ARUnit (Inr ())"
  obtains u h where "a_users M uid = Some u" "AcctID u = uid" "GenerateFromPassword bc pw salt = Inr h"
    "snd (acct_spec mail cfg bc low (AReset tk pw salt) (M, e)) = (end_all uid (set_user (u\<lparr>PasswordHash := h\<rparr>) (take_tok purposeReset tk M)), e)"
proof -
  obtain dl where t: "a_toks M (purposeReset, tk) = Some (uid, dl)" using assms(2) by auto
  obtain u where u: "a_users M uid = Some u" using assms(1) t unfolding acct_inv_def svc_ok_def by blast
  have "AcctID u = uid" using assms(1) u unfolding acct_inv_def accts_ok_def by blast
  then show ?thesis using that assms(3) t u by (auto simp: ResetPassword_spec split: sum.splits if_splits)
qed


definition toy_forgot :: "acct_op list" where
  "toy_forgot = (toy_joined @ [toy_login]) @ [AForgot ''a@b.co'' (Inr ''r'')]"

lemma toy_forgot_state: "fst (snd (pipe_run toy toy_forgot (no_accts, []))) =
  \<lparr>a_users = [''usr_75'' \<mapsto> toy_user True ''password''], a_emails = [''a@b.co'' \<mapsto> ''usr_75''], a_sess = [''73'' \<mapsto> (''usr_75'', 30 * 24 * hour)],
   a_toks = [(purposeReset, ''72'') \<mapsto> (''usr_75'', hour)], a_now = 0, a_issued = {''72'', ''73'', ''76''}\<rparr>"
proof -
  obtain out where l: "snd (pipe_run toy (toy_joined @ [toy_login]) (no_accts, [])) =
      (\<lparr>a_users = [''usr_75'' \<mapsto> toy_user True ''password''], a_emails = [''a@b.co'' \<mapsto> ''usr_75''], a_sess = [''73'' \<mapsto> (''usr_75'', 30 * 24 * hour)], a_toks = Map.empty, a_now = 0, a_issued = {''73'', ''76''}\<rparr>, out)"
    using toy_login_run by (auto simp: snd_run case_prod_beta)
  show ?thesis
    unfolding toy_forgot_def snd_run [of _ "toy_joined @ [toy_login]"] l
    by (simp add: case_prod_beta RequestReset_spec acct_lookup_def toy_email toy_user_def toy_hex put_tok_def acct_defaults_def toy_cfg_def)
qed

lemma toy_forgot_guard: "guarded (acct_op_ok toy_bcrypt ascii_low (\<lambda>_. True)) toy toy_forgot (no_accts, [])"
proof -
  obtain out where l: "snd (pipe_run toy (toy_joined @ [toy_login]) (no_accts, [])) =
      (\<lparr>a_users = [''usr_75'' \<mapsto> toy_user True ''password''], a_emails = [''a@b.co'' \<mapsto> ''usr_75''], a_sess = [''73'' \<mapsto> (''usr_75'', 30 * 24 * hour)], a_toks = Map.empty, a_now = 0, a_issued = {''73'', ''76''}\<rparr>, out)"
    using toy_login_run by (auto simp: snd_run case_prod_beta)
  show ?thesis unfolding toy_forgot_def guarded_append [of _ _ "toy_joined @ [toy_login]"]
    using toy_login_guard by (simp add: l fresh_token_def toy_hex)
qed


end
