(* ===== verification/Http.thy ===== *)
theory Http
  imports Go_Json Go_Unicode Accounts Tenancy Users Consumer Window Players Trust
begin

text \<open>
  What the HTTP layer uses of \<open>encoding/json\<close>, \<open>time\<close> and \<open>net/http\<close>: JSON values and their
  decoding into structs, RFC 3339 times, requests, responses, and the matching of paths against the
  patterns of a \<open>http.ServeMux\<close>.
\<close>

subsection \<open>JSON values\<close>

text \<open>
  A number is its literal, which decides whether it fits an integer field. A string comes with the
  text between its quotes, which an \<open>UnmarshalJSON\<close> method reads, and the string it denotes.
\<close>

datatype jval = JNull | JBool bool | JNum string | JStr string string | JArr "jval list" | JObj "(string \<times> jval) list"

text \<open>
  A member of an object sets the field of its exact name, or else the one equal up to folding of
  case: for names of ASCII letters that folds the letters, the long s and the Kelvin sign. A value of
  a wrong type leaves its field alone and makes \<open>Decode\<close> return an error, after it has decoded the
  other members.
\<close>

definition fold_rune :: "int \<Rightarrow> int" where
  "fold_rune r = (if 0x61 \<le> r \<and> r \<le> 0x7A then r - 32 else if r = 0x17F then 0x53 else if r = 0x212A then 0x4B else r)"

definition fold_name :: "string \<Rightarrow> int list" where
  "fold_name s = map fold_rune (runes s)"

type_synonym 'r jfield = "string \<times> (jval \<Rightarrow> 'r \<Rightarrow> 'r \<times> bool)"

definition field_of :: "'r jfield list \<Rightarrow> string \<Rightarrow> (jval \<Rightarrow> 'r \<Rightarrow> 'r \<times> bool) option" where
  "field_of fs key = (case map_of fs key of Some d \<Rightarrow> Some d
     | None \<Rightarrow> map_option snd (find (\<lambda>f. fold_name (fst f) = fold_name key) fs))"

fun decode_members :: "'r jfield list \<Rightarrow> (string \<times> jval) list \<Rightarrow> 'r \<Rightarrow> 'r \<times> bool" where
  "decode_members fs [] r = (r, True)"
| "decode_members fs ((key, v) # ms) r =
     (case field_of fs key of None \<Rightarrow> decode_members fs ms r
      | Some d \<Rightarrow> (case d v r of (r1, ok1) \<Rightarrow> case decode_members fs ms r1 of (r2, ok2) \<Rightarrow> (r2, ok1 \<and> ok2)))"

definition decode_struct :: "'r jfield list \<Rightarrow> jval \<Rightarrow> 'r \<Rightarrow> 'r \<times> bool" where
  "decode_struct fs v r = (case v of JNull \<Rightarrow> (r, True) | JObj ms \<Rightarrow> decode_members fs ms r | _ \<Rightarrow> (r, False))"

definition jstring :: "(string \<Rightarrow> 'r \<Rightarrow> 'r) \<Rightarrow> jval \<Rightarrow> 'r \<Rightarrow> 'r \<times> bool" where
  "jstring upd v r = (case v of JNull \<Rightarrow> (r, True) | JStr _ s \<Rightarrow> (upd s r, True) | _ \<Rightarrow> (r, False))"

definition jbool :: "(bool \<Rightarrow> 'r \<Rightarrow> 'r) \<Rightarrow> jval \<Rightarrow> 'r \<Rightarrow> 'r \<times> bool" where
  "jbool upd v r = (case v of JNull \<Rightarrow> (r, True) | JBool b \<Rightarrow> (upd b r, True) | _ \<Rightarrow> (r, False))"

definition jnum :: "(string \<Rightarrow> 'a option) \<Rightarrow> ('a \<Rightarrow> 'r \<Rightarrow> 'r) \<Rightarrow> jval \<Rightarrow> 'r \<Rightarrow> 'r \<times> bool" where
  "jnum parse upd v r = (case v of JNull \<Rightarrow> (r, True)
     | JNum l \<Rightarrow> (case parse l of Some x \<Rightarrow> (upd x r, True) | None \<Rightarrow> (r, False)) | _ \<Rightarrow> (r, False))"

text \<open>An array is decoded over the elements the slice has from an earlier member of the same name.\<close>

fun decode_elems :: "(jval \<Rightarrow> 'a \<Rightarrow> 'a \<times> bool) \<Rightarrow> 'a \<Rightarrow> 'a list \<Rightarrow> jval list \<Rightarrow> 'a list \<times> bool" where
  "decode_elems d z old [] = ([], True)"
| "decode_elems d z old (v # vs) =
     (case d v (case old of [] \<Rightarrow> z | a # _ \<Rightarrow> a) of (a, ok1) \<Rightarrow>
        case decode_elems d z (drop 1 old) vs of (as, ok2) \<Rightarrow> (a # as, ok1 \<and> ok2))"

definition jslice :: "(jval \<Rightarrow> 'a \<Rightarrow> 'a \<times> bool) \<Rightarrow> 'a \<Rightarrow> ('r \<Rightarrow> 'a list) \<Rightarrow> ('a list \<Rightarrow> 'r \<Rightarrow> 'r) \<Rightarrow> jval \<Rightarrow> 'r \<Rightarrow> 'r \<times> bool" where
  "jslice d z sel upd v r = (case v of JNull \<Rightarrow> (upd [] r, True)
     | JArr vs \<Rightarrow> (case decode_elems d z (sel r) vs of (as, ok) \<Rightarrow> (upd as r, ok)) | _ \<Rightarrow> (r, False))"

text \<open>
  \<open>strconv.ParseUint\<close> and \<open>strconv.ParseFloat\<close> on a JSON literal: the nearest double, an error if
  that is infinite.
\<close>

definition parse_uint :: "string \<Rightarrow> nat option" where
  "parse_uint l = (case parse_digits l of Some n \<Rightarrow> if n < 2 ^ 64 then Some n else None | None \<Rightarrow> None)"

definition cut_at :: "(char \<Rightarrow> bool) \<Rightarrow> string \<Rightarrow> string \<times> string" where
  "cut_at P s = (takeWhile (\<lambda>c. \<not> P c) s, drop 1 (dropWhile (\<lambda>c. \<not> P c) s))"

definition digits_int :: "string \<Rightarrow> int" where
  "digits_int ds = foldl (\<lambda>a c. 10 * a + int (digit_val c)) 0 ds"

definition parse_exp :: "string \<Rightarrow> int" where
  "parse_exp s = (case s of [] \<Rightarrow> 0 | c # cs \<Rightarrow> if c = CHR ''-'' then - digits_int cs else if c = CHR ''+'' then digits_int cs else digits_int s)"

definition decimal :: "string \<Rightarrow> rat" where
  "decimal l =
     (let neg = has_prefix l ''-''; u = (if neg then drop 1 l else l);
          (mant, ex) = cut_at (\<lambda>c. c = CHR ''e'' \<or> c = CHR ''E'') u;
          (whole, frac) = cut_at (\<lambda>c. c = CHR ''.'') mant;
          e = parse_exp ex - int (length frac); n = of_int (digits_int (whole @ frac));
          x = (if 0 \<le> e then n * 10 ^ nat e else n / 10 ^ nat (- e))
      in if neg then - x else x)"

definition parse_float :: "string \<Rightarrow> rat option" where
  "parse_float l = (case f64_of (decimal l) of Fin x \<Rightarrow> Some x | _ \<Rightarrow> None)"

subsection \<open>RFC 3339\<close>

text \<open>
  \<open>time.Parse(time.RFC3339, s)\<close>: one or two digits of the hour, an optional fraction of the second
  after a point or a comma (nine digits count), and \<open>Z\<close> or an offset of at most 24 hours and 60
  minutes. A reader consumes the head of the text.
\<close>

definition num2 :: "nat \<Rightarrow> string \<Rightarrow> (nat \<times> string) option" where
  "num2 bound s = (if 2 \<le> length s \<and> list_all is_digit (take 2 s) \<and> digits_val (take 2 s) < bound then Some (digits_val (take 2 s), drop 2 s) else None)"

definition hour_num :: "string \<Rightarrow> (nat \<times> string) option" where
  "hour_num s = (case s of [] \<Rightarrow> None
     | c # cs \<Rightarrow> if \<not> is_digit c then None
         else if cs \<noteq> [] \<and> is_digit (hd cs) then num2 24 s else Some (digit_val c, cs))"

definition skip :: "string \<Rightarrow> string \<Rightarrow> string option" where
  "skip p s = (if has_prefix s p then Some (drop (length p) s) else None)"

definition fraction :: "string \<Rightarrow> int \<times> string" where
  "fraction s = (if 2 \<le> length s \<and> (hd s = CHR ''.'' \<or> hd s = CHR '','') \<and> is_digit (s ! 1)
     then (let ds = takeWhile is_digit (drop 1 s); d9 = take 9 ds in (digits_int d9 * 10 ^ (9 - length d9), drop (1 + length ds) s))
     else (0, s))"

definition zone_offset :: "string \<Rightarrow> int option" where
  "zone_offset s = (if s = ''Z'' then Some 0
     else if length s = 6 \<and> s ! 3 = CHR '':'' \<and> (hd s = CHR ''+'' \<or> hd s = CHR ''-'') then
       (case (num2 25 (take 2 (drop 1 s)), num2 61 (drop 4 s)) of
          (Some (hr, _), Some (mm, _)) \<Rightarrow> (let z = (int hr * 60 + int mm) * 60 in Some (if hd s = CHR ''-'' then - z else z))
        | _ \<Rightarrow> None)
     else None)"

definition parse_clock :: "string \<Rightarrow> (int \<times> string) option" where
  "parse_clock s =
     Option.bind (hour_num s) (\<lambda>(h, s). Option.bind (skip '':'' s) (\<lambda>s.
     Option.bind (num2 60 s) (\<lambda>(m, s). Option.bind (skip '':'' s) (\<lambda>s.
     Option.bind (num2 60 s) (\<lambda>(sec, s). let (nsec, s) = fraction s in
       Some ((int h * 3600 + int m * 60 + int sec) * second + nsec, s))))))"

definition parse_rfc3339 :: "string \<Rightarrow> gotime option" where
  "parse_rfc3339 s =
     Option.bind (parse_ymd (take 10 s)) (\<lambda>d. Option.bind (skip ''T'' (drop 10 s)) (\<lambda>s.
     Option.bind (parse_clock s) (\<lambda>(t, s). Option.bind (zone_offset s) (\<lambda>z.
       Some (d * day_ns + t - z * second)))))"

subsection \<open>Requests and responses\<close>

text \<open>
  A request as a handler sees it: headers by canonical name (empty if absent), cookies, query
  parameters (empty if absent), the path, the segments of the escaped path after unescaping each (the mux
  redirects a path that is not clean, so there are no empty or dot segments), the values of its
  wildcards, and the first JSON value of the body, if there is one. The last fields are the readings of the clock and of the
  random source that the handler makes, in order, the buffer that \<open>rand.Read\<close> leaves, the salt that
  bcrypt draws, and the clock when the handler starts and ends.
\<close>

record Request =
  Method :: string
  Path :: string
  PathSegs :: "string list"
  Header :: "string \<Rightarrow> string"
  Cookie :: "string \<Rightarrow> string option"
  QueryGet :: "string \<Rightarrow> string"
  PathValue :: "string \<Rightarrow> string"
  ContentLength :: int
  Body :: "jval option"
  in_now :: "nat \<Rightarrow> gotime"
  in_rand :: "nat \<Rightarrow> err + string"
  in_buf :: string
  in_salt :: string
  in_start :: gotime
  in_end :: gotime

definition Decode :: "'r jfield list \<Rightarrow> Request \<Rightarrow> 'r \<Rightarrow> 'r \<times> bool" where
  "Decode fs r z = (case Body r of None \<Rightarrow> (z, False) | Some v \<Rightarrow> decode_struct fs v z)"

record SetCookie =
  CName :: string
  CValue :: string
  CPath :: string
  HttpOnly :: bool
  Secure :: bool
  SameSiteLax :: bool
  MaxAge :: int

text \<open>A message of an error response is a text of the handler or the text of an error.\<close>

datatype message = Msg string | ErrText err

datatype field = FStr string | FMsg message | FInt int | FBool bool | FBoards "LogicalBoard list" | FEntries "RankEntry list"
  | FApps "TenantApp list" | FKeys "APIKey list" | FStrings "string list"

datatype payload = NoBody | Fields "(string \<times> field) list" | OfBoard LogicalBoard | OfEntry RankEntry | OfUser User
  | FileAt string | PlainText string

record Response =
  Status :: int
  Payload :: payload
  SetCookies :: "SetCookie list"
  RHeaders :: "(string \<times> string) list"

definition resp :: "int \<Rightarrow> payload \<Rightarrow> Response" where
  "resp c p = \<lparr>Status = c, Payload = p, SetCookies = [], RHeaders = []\<rparr>"

subsection \<open>Patterns of a \<open>ServeMux\<close>\<close>

text \<open>
  A pattern is a method and a path whose segments in braces match any segment that is not empty.
  \<open>GET\<close> patterns serve \<open>HEAD\<close>, too.
\<close>

definition segments :: "string \<Rightarrow> string list" where
  "segments p = split_on CHR ''/'' (drop 1 p)"

definition wildcard :: "string \<Rightarrow> string option" where
  "wildcard p = (if has_prefix p ''{'' \<and> 2 \<le> length p \<and> last p = CHR ''}'' then Some (butlast (drop 1 p)) else None)"

fun match_segments :: "string list \<Rightarrow> string list \<Rightarrow> (string \<times> string) list option" where
  "match_segments [] [] = Some []"
| "match_segments (p # ps) (x # xs) =
     (case wildcard p of
        Some v \<Rightarrow> if x = [] then None else map_option (Cons (v, x)) (match_segments ps xs)
      | None \<Rightarrow> if p = x then match_segments ps xs else None)"
| "match_segments _ _ = None"

definition pattern_method :: "string \<Rightarrow> string" where
  "pattern_method pat = fst (cut_at (\<lambda>c. c = CHR '' '') pat)"

definition pattern_path :: "string \<Rightarrow> string" where
  "pattern_path pat = snd (cut_at (\<lambda>c. c = CHR '' '') pat)"

definition match_path :: "string \<Rightarrow> Request \<Rightarrow> (string \<times> string) list option" where
  "match_path pat r = match_segments (segments (pattern_path pat)) (PathSegs r)"

definition method_ok :: "string \<Rightarrow> string \<Rightarrow> bool" where
  "method_ok pm m \<longleftrightarrow> pm = m \<or> pm = ''GET'' \<and> m = ''HEAD''"

definition with_values :: "(string \<times> string) list \<Rightarrow> Request \<Rightarrow> Request" where
  "with_values vs r = r\<lparr>PathValue := (\<lambda>n. case map_of vs n of Some v \<Rightarrow> v | None \<Rightarrow> [])\<rparr>"

end
