(* ===== verification/Api.thy ===== *)
theory Api
  imports Http
begin

text \<open>
  The HTTP layer, \<open>pkg/api\<close> and \<open>pkg/tenancy/auth.go\<close>: the server and its settings, CORS,
  authentication of keys and sessions, every handler, the metrics and the router. A handler is
  written in the order of the code, each early return a branch; what it calls of the other
  packages are the operations of their interfaces, on a state they share.
\<close>

subsection \<open>The server\<close>

record 's players_Store =
  ps_Authorize :: "string \<Rightarrow> string \<Rightarrow> string \<Rightarrow> ('s, unit) io"
  ps_Bindings :: "string \<Rightarrow> ('s, int) io"

text \<open>
  The fields of the code's struct, but for the registry, which changes and so is part of the world
  below; then the third-party code: bcrypt, the lower case of a rune, and whether the file of a URL
  path exists under \<open>webDir\<close> and is no directory, and the page that the Prometheus library renders.
\<close>

record ('s, 'e) Server =
  srv_eng :: "'s RankingEngine"
  srv_ing :: "'s Ingestor"
  srv_store :: "'s tenancy_Store"
  srv_accounts :: "('s, 'e) Service"
  srv_users :: "'s users_Store"
  srv_players :: "'s players_Store"
  secureCookies :: bool
  signingMaster :: string
  signingSkew :: duration
  webDir :: string
  corsWildcard :: bool
  corsOrigins :: "string list"
  lib_bcrypt :: bcrypt
  lib_low :: "int \<Rightarrow> int"
  lib_isFile :: "string \<Rightarrow> bool"
  lib_promhttp :: "Request \<Rightarrow> Response"

text \<open>
  What requests act on: the state of the stores, the log and the engine, the state of the mail
  transport, the registry of boards that the server shares with its ingestor, and the metrics.
\<close>

record ('s, 'e) World =
  wst :: 's
  wmail :: 'e
  wreg :: StaticRegistry
  submitsTotal :: "string \<Rightarrow> nat"
  httpRequests :: "string \<times> string \<times> string \<Rightarrow> nat"
  httpDuration :: "(string \<times> string \<times> rat) list"
  consumerApplied :: rat

text \<open>The values a request's context carries.\<close>

record Ctx =
  ctx_app :: "TenantApp option"
  ctx_scope :: "string option"
  ctx_user :: "Account option"

definition no_ctx :: Ctx where
  "no_ctx = \<lparr>ctx_app = None, ctx_scope = None, ctx_user = None\<rparr>"

text \<open>
  A handler returns a response and the new world. \<open>None\<close> is a panic: \<open>net/http\<close> recovers it and
  closes the connection.
\<close>

type_synonym ('s, 'e) act = "('s, 'e) World \<Rightarrow> Response option \<times> ('s, 'e) World"
type_synonym ('s, 'e) handler = "Request \<Rightarrow> Ctx \<Rightarrow> ('s, 'e) act"

definition crashed :: "err + 'a \<Rightarrow> bool" where
  "crashed res = (case res of Inl e \<Rightarrow> e = Panic \<or> e = OutOfFuel | Inr _ \<Rightarrow> False)"

text \<open>A call of a store, the log or the engine, and one of the account service.\<close>

definition call :: "('s, 'a) io \<Rightarrow> (err + 'a \<Rightarrow> ('s, 'e) act) \<Rightarrow> ('s, 'e) act" where
  "call m k w = (case m (wst w) of (res, s) \<Rightarrow> let w = w\<lparr>wst := s\<rparr> in if crashed res then (None, w) else k res w)"

definition acall :: "('s \<times> 'e, 'a) io \<Rightarrow> (err + 'a \<Rightarrow> ('s, 'e) act) \<Rightarrow> ('s, 'e) act" where
  "acall m k w = (case m (wst w, wmail w) of (res, (s, e)) \<Rightarrow>
     let w = w\<lparr>wst := s, wmail := e\<rparr> in if crashed res then (None, w) else k res w)"

definition reply :: "Response \<Rightarrow> ('s, 'e) act" where
  "reply rsp w = (Some rsp, w)"

definition writeJSON :: "int \<Rightarrow> payload \<Rightarrow> ('s, 'e) act" where
  "writeJSON c v = reply ((resp c v)\<lparr>RHeaders := [(''Content-Type'', ''application/json'')]\<rparr>)"

definition writeErr :: "int \<Rightarrow> message \<Rightarrow> ('s, 'e) act" where
  "writeErr c msg = writeJSON c (Fields [(''error'', FMsg msg)])"

text \<open>The frequent pattern \<open>if err != nil { writeErr(w, 500, err.Error()); return }\<close>.\<close>

definition or_500 :: "('a \<Rightarrow> ('s, 'e) act) \<Rightarrow> err + 'a \<Rightarrow> ('s, 'e) act" where
  "or_500 k res = (case res of Inl e \<Rightarrow> writeErr 500 (ErrText e) | Inr x \<Rightarrow> k x)"

definition submits_inc :: "string \<Rightarrow> ('s, 'e) act \<Rightarrow> ('s, 'e) act" where
  "submits_inc l k w = k (w\<lparr>submitsTotal := (submitsTotal w)(l := submitsTotal w l + 1)\<rparr>)"

subsection \<open>Settings (\<open>server.go\<close>)\<close>

text \<open>
  The player-token store is in memory until \<open>SetPlayers\<close> replaces it; \<open>ply\<close> is that store in the
  shared state.
\<close>

definition NewServer :: "'s RankingEngine \<Rightarrow> 's Ingestor \<Rightarrow> 's tenancy_Store \<Rightarrow> ('s, 'e) Service \<Rightarrow> bool \<Rightarrow> 's users_Store \<Rightarrow> 's players_Store \<Rightarrow> bcrypt \<Rightarrow> (int \<Rightarrow> int) \<Rightarrow> (string \<Rightarrow> bool) \<Rightarrow> (Request \<Rightarrow> Response) \<Rightarrow> ('s, 'e) Server" where
  "NewServer e i st acct sec us ply bc low isf prom = \<lparr>srv_eng = e, srv_ing = i, srv_store = st, srv_accounts = acct, srv_users = us, srv_players = ply,
     secureCookies = sec, signingMaster = [], signingSkew = 0, webDir = [], corsWildcard = False, corsOrigins = [],
     lib_bcrypt = bc, lib_low = low, lib_isFile = isf, lib_promhttp = prom\<rparr>"

definition SetStaticDir :: "string \<Rightarrow> ('s, 'e) Server \<Rightarrow> ('s, 'e) Server" where
  "SetStaticDir dir S = S\<lparr>webDir := dir\<rparr>"

definition SetPlayers :: "'s players_Store \<Rightarrow> ('s, 'e) Server \<Rightarrow> ('s, 'e) Server" where
  "SetPlayers p S = S\<lparr>srv_players := p\<rparr>"

definition SetSigningMaster :: "string \<Rightarrow> duration \<Rightarrow> ('s, 'e) Server \<Rightarrow> ('s, 'e) Server" where
  "SetSigningMaster master skew S = S\<lparr>signingMaster := master, signingSkew := (if skew \<le> 0 then 5 * 60 * second else skew)\<rparr>"

definition signingEnabled :: "('s, 'e) Server \<Rightarrow> bool" where
  "signingEnabled S \<longleftrightarrow> signingMaster S \<noteq> []"

definition add_origin :: "string \<Rightarrow> ('s, 'e) Server \<Rightarrow> ('s, 'e) Server" where
  "add_origin x S = (let x = TrimSpace x in
     if x = [] then S else if x = ''*'' then S\<lparr>corsWildcard := True\<rparr>
     else S\<lparr>corsOrigins := (if x \<in> set (corsOrigins S) then corsOrigins S else x # corsOrigins S)\<rparr>)"

definition SetCORS :: "string \<Rightarrow> ('s, 'e) Server \<Rightarrow> ('s, 'e) Server" where
  "SetCORS spec S = fold add_origin (split_on CHR '','' spec) (S\<lparr>corsWildcard := False, corsOrigins := []\<rparr>)"

text \<open>The headers to set and whether CORS is active.\<close>

definition corsHeaders :: "('s, 'e) Server \<Rightarrow> Request \<Rightarrow> (string \<times> string) list \<times> bool" where
  "corsHeaders S r =
     (if \<not> corsWildcard S \<and> corsOrigins S = [] then ([], False)
      else let origin = Header r ''Origin'' in
        if origin \<noteq> [] \<and> origin \<in> set (corsOrigins S)
        then ([(''Access-Control-Allow-Origin'', origin), (''Access-Control-Allow-Credentials'', ''true''), (''Vary'', ''Origin'')], True)
        else if corsWildcard S then ([(''Access-Control-Allow-Origin'', ''*'')], True)
        else ([], True))"

definition add_headers :: "(string \<times> string) list \<Rightarrow> Response option \<times> 'w \<Rightarrow> Response option \<times> 'w" where
  "add_headers hs x = (map_option (\<lambda>rsp. rsp\<lparr>RHeaders := hs @ RHeaders rsp\<rparr>) (fst x), snd x)"

definition withCORS :: "('s, 'e) Server \<Rightarrow> (Request \<Rightarrow> ('s, 'e) act) \<Rightarrow> Request \<Rightarrow> ('s, 'e) act" where
  "withCORS S nxt r w =
     (let (hs, active) = corsHeaders S r in
      if Method r = ''OPTIONS'' \<and> Header r ''Access-Control-Request-Method'' \<noteq> [] then
        add_headers (hs @ (if active then
            [(''Access-Control-Allow-Methods'', ''GET, POST, PUT, PATCH, DELETE, OPTIONS''),
             (''Access-Control-Allow-Headers'', ''Authorization, Content-Type, X-API-Key, X-App-Id, X-CSRF-Token, X-Player-Token''),
             (''Access-Control-Max-Age'', ''600'')] else []))
          (reply (resp 204 NoBody) w)
      else add_headers hs (nxt r w))"

definition WarmRegistry :: "('s, 'e) Server \<Rightarrow> ('s, 'e) World \<Rightarrow> (err + unit) \<times> ('s, 'e) World" where
  "WarmRegistry S w = (case ts_AllBoards (srv_store S) (wst w) of
     (Inl e, s) \<Rightarrow> (Inl e, w\<lparr>wst := s\<rparr>)
   | (Inr boards, s) \<Rightarrow> (Inr (), w\<lparr>wst := s, wreg := fold Register boards (wreg w)\<rparr>))"

subsection \<open>Authentication (\<open>auth.go\<close>, \<open>tenancy/auth.go\<close>)\<close>

definition sessionCookie :: string where "sessionCookie = ''lb_session''"
definition csrfCookie :: string where "csrfCookie = ''lb_csrf''"

definition keyScopeFrom :: "Ctx \<Rightarrow> string" where
  "keyScopeFrom c = (case ctx_scope c of Some sc \<Rightarrow> sc | None \<Rightarrow> ScopeSecret)"

definition secretOnly :: "('s, 'e) handler \<Rightarrow> ('s, 'e) handler" where
  "secretOnly nxt r c = (if keyScopeFrom c \<noteq> ScopeSecret then writeErr 403 (Msg ''secret_key_required'') else nxt r c)"

definition userFromContext :: "Ctx \<Rightarrow> Account" where
  "userFromContext c = (case ctx_user c of Some u \<Rightarrow> u | None \<Rightarrow> zero_account)"

definition AppFromContext :: "Ctx \<Rightarrow> TenantApp" where
  "AppFromContext c = (case ctx_app c of Some a \<Rightarrow> a | None \<Rightarrow> zero_app)"

definition WithApp :: "TenantApp \<Rightarrow> Ctx \<Rightarrow> Ctx" where
  "WithApp a c = c\<lparr>ctx_app := Some a\<rparr>"

definition bearerToken :: "Request \<Rightarrow> string" where
  "bearerToken r = (let h = Header r ''Authorization'' in
     if h \<noteq> [] \<and> has_prefix h ''Bearer '' then TrimSpace (drop 7 h) else TrimSpace (Header r ''X-API-Key''))"

definition extractKey :: "Request \<Rightarrow> string" where
  "extractKey r = (let h = Header r ''Authorization'' in
     if h \<noteq> [] \<and> has_prefix h ''Bearer '' then TrimSpace (drop 7 h) else TrimSpace (Header r ''X-API-Key''))"

definition Authenticate :: "'s tenancy_Store \<Rightarrow> ('s, 'e) handler \<Rightarrow> ('s, 'e) handler" where
  "Authenticate st nxt r c =
     (let key = extractKey r in
      if key = [] then reply (resp 401 (PlainText ''{\"error\":\"missing api key\"}''))
      else call (ts_AppByKey st key) (\<lambda>res. case res of
        Inl _ \<Rightarrow> reply (resp 401 (PlainText ''{\"error\":\"invalid api key\"}''))
      | Inr app \<Rightarrow> nxt r (WithApp app c)))"

definition isMutation :: "string \<Rightarrow> bool" where
  "isMutation m \<longleftrightarrow> m = ''POST'' \<or> m = ''PUT'' \<or> m = ''PATCH'' \<or> m = ''DELETE''"

text \<open>An error of \<open>rand.Read\<close> is dropped: the buffer is encoded as it is.\<close>

definition randToken :: "Request \<Rightarrow> string" where
  "randToken r = hex_encode (in_buf r)"

text \<open>\<open>d.Seconds()\<close>: whole seconds and a fraction, added as doubles; \<open>int(\<dots>)\<close> truncates.\<close>

definition Seconds :: "duration \<Rightarrow> rat" where
  "Seconds d = of_int (sgn d) * fl64 (of_int (\<bar>d\<bar> div second) + fl64 (of_int (\<bar>d\<bar> mod second) / 1000000000))"

definition setAuthCookies :: "('s, 'e) Server \<Rightarrow> Request \<Rightarrow> string \<Rightarrow> duration \<Rightarrow> string \<times> SetCookie list" where
  "setAuthCookies S r sessionToken lifetime =
     (let csrf = randToken r; maxAge = trunc (Seconds lifetime) in
      (csrf, [\<lparr>CName = sessionCookie, CValue = sessionToken, CPath = ''/'', HttpOnly = True, Secure = secureCookies S, SameSiteLax = True, MaxAge = maxAge\<rparr>,
              \<lparr>CName = csrfCookie, CValue = csrf, CPath = ''/'', HttpOnly = False, Secure = secureCookies S, SameSiteLax = True, MaxAge = maxAge\<rparr>]))"

definition clearAuthCookies :: "SetCookie list" where
  "clearAuthCookies = map (\<lambda>name. \<lparr>CName = name, CValue = [], CPath = ''/'', HttpOnly = (name = sessionCookie), Secure = False, SameSiteLax = False, MaxAge = -1\<rparr>)
     [sessionCookie, csrfCookie]"

definition csrfOK :: "Request \<Rightarrow> bool" where
  "csrfOK r \<longleftrightarrow> (case Cookie r csrfCookie of None \<Rightarrow> False
     | Some v \<Rightarrow> if v = [] then False else Header r ''X-CSRF-Token'' \<noteq> [] \<and> Header r ''X-CSRF-Token'' = v)"

text \<open>The continuation takes the user, if there is one.\<close>

definition userFromCookie :: "('s, 'e) Server \<Rightarrow> Request \<Rightarrow> (Account option \<Rightarrow> ('s, 'e) act) \<Rightarrow> ('s, 'e) act" where
  "userFromCookie S r k =
     (case Cookie r sessionCookie of None \<Rightarrow> k None
      | Some tok \<Rightarrow> acall (UserFromSession (srv_accounts S) tok) (\<lambda>res. case res of Inl _ \<Rightarrow> k None | Inr u \<Rightarrow> k (Some u)))"

definition requireUser :: "('s, 'e) Server \<Rightarrow> ('s, 'e) handler \<Rightarrow> ('s, 'e) handler" where
  "requireUser S nxt r c = userFromCookie S r (\<lambda>u. case u of
     None \<Rightarrow> writeErr 401 (Msg ''not authenticated'')
   | Some u \<Rightarrow>
       if isMutation (Method r) \<and> \<not> csrfOK r then writeErr 403 (Msg ''invalid csrf token'')
       else nxt r (c\<lparr>ctx_user := Some u\<rparr>))"

definition requireApp :: "('s, 'e) Server \<Rightarrow> ('s, 'e) handler \<Rightarrow> ('s, 'e) handler" where
  "requireApp S nxt r c =
     (let key = bearerToken r in
      if key \<noteq> [] then
        call (ts_AuthKey (srv_store S) key) (\<lambda>res. case res of
          Inl _ \<Rightarrow> writeErr 401 (Msg ''invalid api key'')
        | Inr (app, scope) \<Rightarrow> nxt r ((WithApp app c)\<lparr>ctx_scope := Some scope\<rparr>))
      else userFromCookie S r (\<lambda>u. case u of
          None \<Rightarrow> writeErr 401 (Msg ''authentication required'')
        | Some u \<Rightarrow>
            if isMutation (Method r) \<and> \<not> csrfOK r then writeErr 403 (Msg ''invalid csrf token'')
            else let appID = Header r ''X-App-Id'' in
              if appID = [] then writeErr 400 (Msg ''X-App-Id header required for session auth'')
              else call (ts_GetApp (srv_store S) appID) (\<lambda>res. case res of
                Inl _ \<Rightarrow> writeErr 403 (Msg ''app not found or not owned'')
              | Inr app \<Rightarrow> if OwnerUserID app \<noteq> AcctID u then writeErr 403 (Msg ''app not found or not owned'')
                  else nxt r (WithApp app c))))"

definition authorizePlayer :: "('s, 'e) Server \<Rightarrow> Request \<Rightarrow> Ctx \<Rightarrow> TenantApp \<Rightarrow> string \<Rightarrow> ('s, 'e) act \<Rightarrow> ('s, 'e) act" where
  "authorizePlayer S r c app member nxt =
     (let token = TrimSpace (Header r ''X-Player-Token'') in
      if token = [] then
        (if keyScopeFrom c = ScopeSecret \<or> \<not> RequirePlayerTokens app then nxt
         else writeErr 401 (Msg ''player_token_required''))
      else call (ps_Authorize (srv_players S) (AppID app) member token) (\<lambda>res. case res of
        Inr _ \<Rightarrow> nxt
      | Inl e \<Rightarrow>
          if e = ErrInvalidToken then writeErr 400 (Msg ''invalid_player_token'')
          else if e = ErrTokenMismatch then writeErr 403 (Msg ''player_token_mismatch'')
          else writeErr 500 (ErrText e)))"

end
