(* ===== verification/Api_Handlers.thy ===== *)
theory Api_Handlers
  imports Api
begin

text \<open>
  The handlers of \<open>pkg/api\<close>, in the order of the code, the metrics of \<open>metrics.go\<close> and the
  router \<open>Handler\<close>.
\<close>

subsection \<open>Helpers (\<open>server.go\<close>)\<close>

definition resolveBoard :: "('s, 'e) Server \<Rightarrow> string \<Rightarrow> string \<Rightarrow> (err + LogicalBoard \<Rightarrow> ('s, 'e) act) \<Rightarrow> ('s, 'e) act" where
  "resolveBoard S app board k w =
     (case reg_Resolve (wreg w) app board of Some lb \<Rightarrow> k (Inr lb) w
      | None \<Rightarrow> call (ts_GetBoard (srv_store S) app board) (\<lambda>res. case res of
          Inl e \<Rightarrow> k (Inl e)
        | Inr lb \<Rightarrow> (\<lambda>w. k (Inr lb) (w\<lparr>wreg := Register lb (wreg w)\<rparr>))) w)"

definition physicalBoard :: "LogicalBoard \<Rightarrow> Request \<Rightarrow> Board" where
  "physicalBoard lb r =
     (let seg = QueryGet r ''segment''; seg = (if seg = [] then ''all'' else seg);
          win = Resolve (QueryGet r ''window'') (in_now r 0)
      in \<lparr>Key = \<lparr>App = LApp lb, BoardName = LBoard lb, Segment = seg, Window = win\<rparr>, Config = LConfig lb\<rparr>)"

definition intParam :: "Request \<Rightarrow> string \<Rightarrow> int \<Rightarrow> int" where
  "intParam r name def = (let v = QueryGet r name in
     if v \<noteq> [] then (case atoi v of Some n \<Rightarrow> n | None \<Rightarrow> def) else def)"

definition handleHealth :: "('s, 'e) handler" where
  "handleHealth r c = writeJSON 200 (Fields [(''status'', FStr ''ok'')])"

text \<open>The ingestor resolves boards in the registry as it is when the request comes.\<close>

definition ing_at :: "('s, 'e) Server \<Rightarrow> StaticRegistry \<Rightarrow> 's Ingestor" where
  "ing_at S reg = (srv_ing S)\<lparr>iresolver := reg_Resolve reg\<rparr>"

definition ing_call :: "('s, 'e) Server \<Rightarrow> ('s Ingestor \<Rightarrow> ('s, 'a) io) \<Rightarrow> (err + 'a \<Rightarrow> ('s, 'e) act) \<Rightarrow> ('s, 'e) act" where
  "ing_call S f k w = call (f (ing_at S (wreg w))) k w"

subsection \<open>Board definitions\<close>

record createBoardReq =
  cb_Board :: string
  cb_SortOrder :: string
  cb_UpdatePolicy :: string
  cb_TieBreak :: string
  cb_ScoreBits :: nat
  cb_Windows :: "WindowSpec list"
  cb_ApproxRank :: bool
  cb_ApproxMin :: rat
  cb_ApproxMax :: rat
  cb_ApproxBuckets :: int

definition zero_createBoard :: createBoardReq where
  "zero_createBoard = \<lparr>cb_Board = [], cb_SortOrder = [], cb_UpdatePolicy = [], cb_TieBreak = [], cb_ScoreBits = 0, cb_Windows = [],
     cb_ApproxRank = False, cb_ApproxMin = 0, cb_ApproxMax = 0, cb_ApproxBuckets = 0\<rparr>"

definition windowReq_fields :: "WindowSpec jfield list" where
  "windowReq_fields = [(''kind'', jstring (\<lambda>s w. w\<lparr>Kind := s\<rparr>)), (''custom_id'', jstring (\<lambda>s w. w\<lparr>CustomID := s\<rparr>))]"

definition createBoard_fields :: "createBoardReq jfield list" where
  "createBoard_fields = [(''board'', jstring (\<lambda>s q. q\<lparr>cb_Board := s\<rparr>)), (''sort_order'', jstring (\<lambda>s q. q\<lparr>cb_SortOrder := s\<rparr>)),
     (''update_policy'', jstring (\<lambda>s q. q\<lparr>cb_UpdatePolicy := s\<rparr>)), (''tie_break'', jstring (\<lambda>s q. q\<lparr>cb_TieBreak := s\<rparr>)),
     (''score_bits'', jnum parse_uint (\<lambda>n q. q\<lparr>cb_ScoreBits := n\<rparr>)),
     (''windows'', jslice (decode_struct windowReq_fields) \<lparr>Kind = [], CustomID = []\<rparr> cb_Windows (\<lambda>ws q. q\<lparr>cb_Windows := ws\<rparr>)),
     (''approx_rank'', jbool (\<lambda>b q. q\<lparr>cb_ApproxRank := b\<rparr>)), (''approx_min'', jnum parse_float (\<lambda>x q. q\<lparr>cb_ApproxMin := x\<rparr>)),
     (''approx_max'', jnum parse_float (\<lambda>x q. q\<lparr>cb_ApproxMax := x\<rparr>)), (''approx_buckets'', jnum atoi (\<lambda>n q. q\<lparr>cb_ApproxBuckets := n\<rparr>))]"

definition board_config :: "createBoardReq \<Rightarrow> BoardConfig" where
  "board_config q = \<lparr>SortOrder = cb_SortOrder q, UpdatePolicy = cb_UpdatePolicy q, TieBreak = cb_TieBreak q, ScoreBits = cb_ScoreBits q, Epoch = 0,
     ApproxRank = cb_ApproxRank q, ApproxMin = cb_ApproxMin q, ApproxMax = cb_ApproxMax q, ApproxBuckets = cb_ApproxBuckets q\<rparr>"

definition handleCreateBoard :: "('s, 'e) Server \<Rightarrow> ('s, 'e) handler" where
  "handleCreateBoard S r c =
     (let app = AppFromContext c; (req, ok) = Decode createBoard_fields r zero_createBoard in
      if \<not> ok \<or> cb_Board req = [] then writeErr 400 (Msg ''board required'')
      else let cfg = board_config req in
        case config_validate cfg of Inl e \<Rightarrow> writeErr 400 (ErrText e)
        | Inr _ \<Rightarrow>
          let windows = (if cb_Windows req = [] then [\<lparr>Kind = ''all'', CustomID = []\<rparr>] else cb_Windows req);
              lb = \<lparr>LApp = AppID app, LBoard = cb_Board req, LConfig = cfg, Windows = windows\<rparr> in
          (case key_validate \<lparr>App = LApp lb, BoardName = LBoard lb, Segment = [], Window = []\<rparr> of
             Inl e \<Rightarrow> writeErr 400 (ErrText e)
           | Inr _ \<Rightarrow> call (ts_UpsertBoard (srv_store S) lb) (or_500 (\<lambda>_ w.
               writeJSON 201 (OfBoard lb) (w\<lparr>wreg := Register lb (wreg w)\<rparr>)))))"

definition handleListBoards :: "('s, 'e) Server \<Rightarrow> ('s, 'e) handler" where
  "handleListBoards S r c =
     call (ts_ListBoards (srv_store S) (AppID (AppFromContext c))) (or_500 (\<lambda>boards. writeJSON 200 (Fields [(''boards'', FBoards boards)])))"

subsection \<open>Score submission\<close>

record submitReq =
  sr_Member :: string
  sr_Score :: rat
  sr_Time :: gotime
  sr_Segments :: "string list"
  sr_Idem :: string
  sr_Sig :: string
  sr_TS :: int
  sr_Nonce :: string

definition zero_submit :: submitReq where
  "zero_submit = \<lparr>sr_Member = [], sr_Score = 0, sr_Time = 0, sr_Segments = [], sr_Idem = [], sr_Sig = [], sr_TS = 0, sr_Nonce = []\<rparr>"

text \<open>
  \<open>UnmarshalJSON\<close> of \<open>jsonTime\<close> on the raw text: \<open>strings.Trim\<close> takes the quotes off both ends. A
  number or a boolean is its literal; an array or an object is no time.
\<close>

definition trim_quotes :: "string \<Rightarrow> string" where
  "trim_quotes s = rev (dropWhile (\<lambda>c. c = CHR 0x22) (rev (dropWhile (\<lambda>c. c = CHR 0x22) s)))"

definition raw_text :: "jval \<Rightarrow> string option" where
  "raw_text v = (case v of JNull \<Rightarrow> Some ''null'' | JBool b \<Rightarrow> Some (if b then ''true'' else ''false'') | JNum l \<Rightarrow> Some l
     | JStr raw _ \<Rightarrow> Some ([CHR 0x22] @ raw @ [CHR 0x22]) | _ \<Rightarrow> None)"

definition jsonTime :: "jval \<Rightarrow> submitReq \<Rightarrow> submitReq \<times> bool" where
  "jsonTime v q = (case raw_text v of None \<Rightarrow> (q, False)
     | Some raw \<Rightarrow> let s = trim_quotes raw in
         if s = [] \<or> s = ''null'' then (q\<lparr>sr_Time := 0\<rparr>, True)
         else (case parse_rfc3339 s of Some t \<Rightarrow> (q\<lparr>sr_Time := t\<rparr>, True) | None \<Rightarrow> (q, False)))"

definition submit_fields :: "submitReq jfield list" where
  "submit_fields = [(''member'', jstring (\<lambda>s q. q\<lparr>sr_Member := s\<rparr>)), (''score'', jnum parse_float (\<lambda>x q. q\<lparr>sr_Score := x\<rparr>)), (''time'', jsonTime),
     (''segments'', jslice (jstring (\<lambda>s _. s)) [] sr_Segments (\<lambda>ss q. q\<lparr>sr_Segments := ss\<rparr>)), (''idem'', jstring (\<lambda>s q. q\<lparr>sr_Idem := s\<rparr>)),
     (''sig'', jstring (\<lambda>s q. q\<lparr>sr_Sig := s\<rparr>)), (''ts'', jnum atoi (\<lambda>n q. q\<lparr>sr_TS := n\<rparr>)), (''nonce'', jstring (\<lambda>s q. q\<lparr>sr_Nonce := s\<rparr>))]"

definition submit_record :: "TenantApp \<Rightarrow> string \<Rightarrow> submitReq \<Rightarrow> Record" where
  "submit_record app board req = \<lparr>ID = [], RApp = AppID app, RBoard = board, RMember = sr_Member req, RScore = sr_Score req,
     RTime = sr_Time req, RSegments = sr_Segments req, Idem = sr_Idem req, Op = OpSubmit\<rparr>"

text \<open>The check of the signature: \<open>None\<close> lets the submission pass.\<close>

definition signing_check :: "('s, 'e) Server \<Rightarrow> Request \<Rightarrow> TenantApp \<Rightarrow> string \<Rightarrow> submitReq \<Rightarrow> (int \<times> message) option" where
  "signing_check S r app board req =
     (if \<not> RequireSigning app then None
      else if \<not> signingEnabled S then Some (503, Msg ''signed submissions required but signing is not configured on this server'')
      else let sec = DeriveAppSecret (signingMaster S) (AppID app) (SigningKeyVersion app); v = NewVerifier sec (signingSkew S) in
        case Verify v (sr_Sig req) (sr_TS req) (in_now r 0) (AppID app) board (sr_Member req) (sr_Score req) (sr_Nonce req) of
          Inl e \<Rightarrow> Some (401, ErrText e) | Inr _ \<Rightarrow> None)"

definition submit_outcome :: "err + bool \<Rightarrow> ('s, 'e) act" where
  "submit_outcome res = (case res of
     Inl e \<Rightarrow> if e = ErrUnknownBoard then submits_inc ''unknown_board'' (writeErr 404 (Msg ''unknown board''))
         else submits_inc ''error'' (writeErr 500 (ErrText e))
   | Inr accepted \<Rightarrow>
       if \<not> accepted then submits_inc ''duplicate'' (writeJSON 200 (Fields [(''accepted'', FBool False), (''duplicate'', FBool True)]))
       else submits_inc ''accepted'' (writeJSON 202 (Fields [(''accepted'', FBool True)])))"

definition handleSubmit :: "('s, 'e) Server \<Rightarrow> ('s, 'e) handler" where
  "handleSubmit S r c =
     (let app = AppFromContext c; board = PathValue r ''board''; (req, ok) = Decode submit_fields r zero_submit in
      if \<not> ok \<or> sr_Member req = [] then writeErr 400 (Msg ''member and score required'')
      else authorizePlayer S r c app (sr_Member req)
        (case signing_check S r app board req of
           Some (n, msg) \<Rightarrow> submits_inc ''rejected'' (writeErr n msg)
         | None \<Rightarrow> ing_call S (\<lambda>i. ing_Submit i (in_now r 1) (submit_record app board req)) submit_outcome))"

subsection \<open>Queries\<close>

definition enrichEntries :: "('s, 'e) Server \<Rightarrow> Ctx \<Rightarrow> RankEntry list \<Rightarrow> (RankEntry list \<Rightarrow> ('s, 'e) act) \<Rightarrow> ('s, 'e) act" where
  "enrichEntries S c entries k =
     (if entries = [] then k entries
      else call (us_Nicknames (srv_users S) (AppID (AppFromContext c)) (map Member entries)) (\<lambda>res. case res of
        Inl _ \<Rightarrow> k entries
      | Inr names \<Rightarrow> k (map (\<lambda>e. e\<lparr>RankEntry.Nickname := (case names (Member e) of Some n \<Rightarrow> n | None \<Rightarrow> [])\<rparr>) entries)))"

definition writeEntries :: "('s, 'e) Server \<Rightarrow> Ctx \<Rightarrow> err + RankEntry list \<Rightarrow> ('s, 'e) act" where
  "writeEntries S c res = or_500 (\<lambda>entries. enrichEntries S c entries (\<lambda>es. writeJSON 200 (Fields [(''entries'', FEntries es)]))) res"

definition readBoard :: "('s, 'e) Server \<Rightarrow> Request \<Rightarrow> Ctx \<Rightarrow> (Board \<Rightarrow> ('s, 'e) act) \<Rightarrow> ('s, 'e) act" where
  "readBoard S r c k = resolveBoard S (AppID (AppFromContext c)) (PathValue r ''board'') (\<lambda>res. case res of
     Inl _ \<Rightarrow> writeErr 404 (Msg ''unknown board'') | Inr lb \<Rightarrow> k (physicalBoard lb r))"

definition handleRank :: "('s, 'e) Server \<Rightarrow> ('s, 'e) handler" where
  "handleRank S r c = readBoard S r c (\<lambda>b.
     let member = QueryGet r ''member''; approx = (QueryGet r ''approx'' = ''true'') in
     if member = [] then writeErr 400 (Msg ''member required'')
     else call (if approx then e_GetApproxRank (srv_eng S) b member else e_GetRank (srv_eng S) b member) (\<lambda>res. case res of
       Inl e \<Rightarrow>
         if approx \<and> e = ErrApproxDisabled then writeErr 400 (Msg ''approximate rank not enabled for this board'')
         else if e = ErrMemberNotFound then writeErr 404 (Msg ''member not found'')
         else writeErr 500 (ErrText e)
     | Inr entry \<Rightarrow> enrichEntries S c [entry] (\<lambda>es. writeJSON 200 (OfEntry (hd es)))))"

definition handleTop :: "('s, 'e) Server \<Rightarrow> ('s, 'e) handler" where
  "handleTop S r c = readBoard S r c (\<lambda>b. call (e_TopN (srv_eng S) b (intParam r ''n'' 10)) (writeEntries S c))"

definition handlePage :: "('s, 'e) Server \<Rightarrow> ('s, 'e) handler" where
  "handlePage S r c = readBoard S r c (\<lambda>b. call (e_Page (srv_eng S) b (intParam r ''offset'' 0) (intParam r ''limit'' 20)) (writeEntries S c))"

definition handleNeighbors :: "('s, 'e) Server \<Rightarrow> ('s, 'e) handler" where
  "handleNeighbors S r c = readBoard S r c (\<lambda>b.
     let member = QueryGet r ''member'' in
     if member = [] then writeErr 400 (Msg ''member required'')
     else call (e_Neighbors (srv_eng S) b member (intParam r ''k'' 5)) (\<lambda>res.
       if res = Inl ErrMemberNotFound then writeErr 404 (Msg ''member not found'') else writeEntries S c res))"

definition handleSegments :: "('s, 'e) Server \<Rightarrow> ('s, 'e) handler" where
  "handleSegments S r c = resolveBoard S (AppID (AppFromContext c)) (PathValue r ''board'') (\<lambda>res. case res of
     Inl _ \<Rightarrow> writeErr 404 (Msg ''unknown board'')
   | Inr lb \<Rightarrow> call (e_Segments (srv_eng S) lb) (or_500 (\<lambda>segs. writeJSON 200 (Fields [(''segments'', FStrings segs)]))))"

definition handleCount :: "('s, 'e) Server \<Rightarrow> ('s, 'e) handler" where
  "handleCount S r c = readBoard S r c (\<lambda>b. call (e_Count (srv_eng S) b) (or_500 (\<lambda>n. writeJSON 200 (Fields [(''count'', FInt n)]))))"

definition friends_fields :: "string list jfield list" where
  "friends_fields = [(''members'', jslice (jstring (\<lambda>s _. s)) [] (\<lambda>q. q) (\<lambda>ss _. ss))]"

definition handleFriends :: "('s, 'e) Server \<Rightarrow> ('s, 'e) handler" where
  "handleFriends S r c = readBoard S r c (\<lambda>b.
     let (members, ok) = Decode friends_fields r [] in
     if \<not> ok then writeErr 400 (Msg ''members required'')
     else call (e_FriendRank (srv_eng S) b members) (writeEntries S c))"

subsection \<open>Accounts (\<open>auth.go\<close>)\<close>

record credsReq =
  cr_Email :: string
  cr_Password :: string

definition zero_creds :: credsReq where
  "zero_creds = \<lparr>cr_Email = [], cr_Password = []\<rparr>"

definition creds_fields :: "credsReq jfield list" where
  "creds_fields = [(''email'', jstring (\<lambda>s q. q\<lparr>cr_Email := s\<rparr>)), (''password'', jstring (\<lambda>s q. q\<lparr>cr_Password := s\<rparr>))]"

text \<open>The dash of the message is U+2014.\<close>

definition created_message :: string where
  "created_message = ''Account created '' @ [CHR 0xE2, CHR 0x80, CHR 0x94] @ '' check your email to verify it.''"

definition handleSignup :: "('s, 'e) Server \<Rightarrow> ('s, 'e) handler" where
  "handleSignup S r c =
     (let (req, ok) = Decode creds_fields r zero_creds in
      if \<not> ok then writeErr 400 (Msg ''email and password required'')
      else acall (Signup (srv_accounts S) (lib_bcrypt S) (lib_low S) (cr_Email req) (cr_Password req) (in_salt r) (in_rand r 0) (in_rand r 1) (in_now r 0)) (\<lambda>res. case res of
        Inl e \<Rightarrow>
          if e = ErrEmailTaken then writeErr 409 (Msg ''email already registered'')
          else if e = ErrInvalidEmail then writeErr 400 (Msg ''invalid email address'')
          else if e = ErrWeakPassword then writeErr 400 (Msg ''password must be at least 8 characters'')
          else writeErr 500 (Msg ''could not create account'')
      | Inr u \<Rightarrow> writeJSON 201 (Fields [(''id'', FStr (AcctID u)), (''email'', FStr (Email u)), (''email_verified'', FBool False),
          (''message'', FStr created_message)])))"

definition handleLogin :: "('s, 'e) Server \<Rightarrow> ('s, 'e) handler" where
  "handleLogin S r c =
     (let (req, ok) = Decode creds_fields r zero_creds in
      if \<not> ok then writeErr 400 (Msg ''email and password required'')
      else acall (Login (srv_accounts S) (lib_bcrypt S) (lib_low S) (cr_Email req) (cr_Password req) (in_rand r 0)) (\<lambda>res. case res of
        Inl e \<Rightarrow> if e = ErrEmailNotVerified then writeErr 403 (Msg ''email not verified'') else writeErr 401 (Msg ''invalid email or password'')
      | Inr (token, u) \<Rightarrow>
          let (csrf, cs) = setAuthCookies S r token (SessionTTL (srv_accounts S)) in
          (\<lambda>w. case writeJSON 200 (Fields [(''id'', FStr (AcctID u)), (''email'', FStr (Email u)), (''csrf_token'', FStr csrf)]) w of
             (rsp, w) \<Rightarrow> (map_option (\<lambda>x. x\<lparr>SetCookies := cs\<rparr>) rsp, w))))"

text \<open>\<open>http.Redirect\<close>; the short note that \<open>net/http\<close> puts in the body is left out.\<close>

definition redirect :: "string \<Rightarrow> ('s, 'e) act" where
  "redirect url = reply ((resp 303 NoBody)\<lparr>RHeaders := [(''Location'', url)]\<rparr>)"

definition handleVerify :: "('s, 'e) Server \<Rightarrow> ('s, 'e) handler" where
  "handleVerify S r c = acall (AcctVerify (srv_accounts S) (QueryGet r ''token'')) (\<lambda>res. case res of
     Inl _ \<Rightarrow> redirect ''/login?verified=0'' | Inr _ \<Rightarrow> redirect ''/login?verified=1'')"

definition ok_true :: "('s, 'e) act" where
  "ok_true = writeJSON 200 (Fields [(''ok'', FBool True)])"

definition handleResend :: "('s, 'e) Server \<Rightarrow> ('s, 'e) handler" where
  "handleResend S r c = acall (ResendVerification (srv_accounts S) (lib_low S) (cr_Email (fst (Decode creds_fields r zero_creds))) (in_rand r 0)) (\<lambda>_. ok_true)"

definition handleForgot :: "('s, 'e) Server \<Rightarrow> ('s, 'e) handler" where
  "handleForgot S r c = acall (RequestReset (srv_accounts S) (lib_low S) (cr_Email (fst (Decode creds_fields r zero_creds))) (in_rand r 0)) (\<lambda>res. case res of
     Inl _ \<Rightarrow> writeErr 500 (Msg ''could not process request'') | Inr _ \<Rightarrow> ok_true)"

record resetReq =
  rr_Token :: string
  rr_Password :: string

definition reset_fields :: "resetReq jfield list" where
  "reset_fields = [(''token'', jstring (\<lambda>s q. q\<lparr>rr_Token := s\<rparr>)), (''password'', jstring (\<lambda>s q. q\<lparr>rr_Password := s\<rparr>))]"

definition handleReset :: "('s, 'e) Server \<Rightarrow> ('s, 'e) handler" where
  "handleReset S r c =
     (let (req, ok) = Decode reset_fields r \<lparr>rr_Token = [], rr_Password = []\<rparr> in
      if \<not> ok then writeErr 400 (Msg ''token and password required'')
      else acall (ResetPassword (srv_accounts S) (lib_bcrypt S) (rr_Token req) (rr_Password req) (in_salt r)) (\<lambda>res. case res of
        Inl e \<Rightarrow>
          if e = ErrBadToken then writeErr 400 (Msg ''invalid or expired token'')
          else if e = ErrWeakPassword then writeErr 400 (Msg ''password must be at least 8 characters'')
          else writeErr 500 (Msg ''could not reset password'')
      | Inr _ \<Rightarrow> ok_true))"

definition logged_out :: "('s, 'e) act" where
  "logged_out w = (case ok_true w of (rsp, w) \<Rightarrow> (map_option (\<lambda>x. x\<lparr>SetCookies := clearAuthCookies\<rparr>) rsp, w))"

definition handleLogout :: "('s, 'e) Server \<Rightarrow> ('s, 'e) handler" where
  "handleLogout S r c = (case Cookie r sessionCookie of
     Some tok \<Rightarrow> acall (Logout (srv_accounts S) tok) (\<lambda>_. logged_out) | None \<Rightarrow> logged_out)"

definition handleMe :: "('s, 'e) handler" where
  "handleMe r c = (let u = userFromContext c in
     writeJSON 200 (Fields [(''id'', FStr (AcctID u)), (''email'', FStr (Email u)), (''email_verified'', FBool (EmailVerified u))]))"

subsection \<open>App management (\<open>auth.go\<close>)\<close>

definition handleCreateApp :: "('s, 'e) Server \<Rightarrow> ('s, 'e) handler" where
  "handleCreateApp S r c =
     (let u = userFromContext c; (name, ok) = Decode [(''name'', jstring (\<lambda>s _. s))] r [] in
      if \<not> ok \<or> TrimSpace name = [] then writeErr 400 (Msg ''name required'')
      else call (ts_CreateApp (srv_store S) (AcctID u) name (in_rand r 0) (in_rand r 1) (in_rand r 2) (in_now r 0)) (or_500 (\<lambda>(app, key).
        writeJSON 201 (Fields [(''id'', FStr (AppID app)), (''name'', FStr (AppName app)), (''api_key'', FStr key)]))))"

definition handleListApps :: "('s, 'e) Server \<Rightarrow> ('s, 'e) handler" where
  "handleListApps S r c = call (ts_ListApps (srv_store S) (AcctID (userFromContext c))) (or_500 (\<lambda>apps. writeJSON 200 (Fields [(''apps'', FApps apps)])))"

definition ownedApp :: "('s, 'e) Server \<Rightarrow> Request \<Rightarrow> Ctx \<Rightarrow> (TenantApp \<Rightarrow> ('s, 'e) act) \<Rightarrow> ('s, 'e) act" where
  "ownedApp S r c k = call (ts_GetApp (srv_store S) (PathValue r ''id'')) (\<lambda>res. case res of
     Inl _ \<Rightarrow> writeErr 404 (Msg ''app not found'')
   | Inr app \<Rightarrow> if OwnerUserID app \<noteq> AcctID (userFromContext c) then writeErr 404 (Msg ''app not found'') else k app)"

definition handleListKeys :: "('s, 'e) Server \<Rightarrow> ('s, 'e) handler" where
  "handleListKeys S r c = ownedApp S r c (\<lambda>app.
     call (ts_ListKeys (srv_store S) (AppID app)) (or_500 (\<lambda>keys. writeJSON 200 (Fields [(''keys'', FKeys keys)]))))"

definition handleIssueKey :: "('s, 'e) Server \<Rightarrow> ('s, 'e) handler" where
  "handleIssueKey S r c = ownedApp S r c (\<lambda>app.
     let (sc, ok) = (if ContentLength r \<noteq> 0 then Decode [(''scope'', jstring (\<lambda>s _. s))] r [] else ([], True)) in
     if \<not> ok then writeErr 400 (Msg ''invalid body'')
     else let (scope, valid) = ParseScope sc in
       if \<not> valid then writeErr 400 (Msg ''scope must be secret or publishable'')
       else call (ts_IssueKey (srv_store S) (AppID app) scope (in_rand r 0) (in_rand r 1) (in_now r 0)) (or_500 (\<lambda>(plain, key).
         writeJSON 201 (Fields [(''id'', FStr (KeyID key)), (''prefix'', FStr (Prefix key)), (''api_key'', FStr plain), (''scope'', FStr (Scope key))]))))"

definition handleRevokeKey :: "('s, 'e) Server \<Rightarrow> ('s, 'e) handler" where
  "handleRevokeKey S r c = ownedApp S r c (\<lambda>app.
     call (ts_RevokeKey (srv_store S) (AppID app) (PathValue r ''keyId'')) (\<lambda>res.
       if res = Inl ErrKeyNotFound then writeErr 404 (Msg ''key not found'') else or_500 (\<lambda>_. ok_true) res))"

definition signingState :: "('s, 'e) Server \<Rightarrow> TenantApp \<Rightarrow> payload" where
  "signingState S app = Fields ([(''require_signing'', FBool (RequireSigning app)), (''version'', FInt (SigningKeyVersion app)),
     (''available'', FBool (signingEnabled S))] @
     (if signingEnabled S then [(''secret'', FStr (DeriveAppSecret (signingMaster S) (AppID app) (SigningKeyVersion app)))] else []))"

definition handleGetSigning :: "('s, 'e) Server \<Rightarrow> ('s, 'e) handler" where
  "handleGetSigning S r c = ownedApp S r c (\<lambda>app. writeJSON 200 (signingState S app))"

definition handleSetSigning :: "('s, 'e) Server \<Rightarrow> ('s, 'e) handler" where
  "handleSetSigning S r c = ownedApp S r c (\<lambda>app.
     let (req, ok) = Decode [(''require_signing'', jbool (\<lambda>b _. b))] r False in
     if \<not> ok then writeErr 400 (Msg ''invalid body'')
     else if req \<and> \<not> signingEnabled S then writeErr 400 (Msg ''signing is not configured on this server (no master key)'')
     else call (ts_SetRequireSigning (srv_store S) (AppID app) req) (or_500 (\<lambda>updated. writeJSON 200 (signingState S updated))))"

definition handleRotateSigning :: "('s, 'e) Server \<Rightarrow> ('s, 'e) handler" where
  "handleRotateSigning S r c = ownedApp S r c (\<lambda>app.
     if \<not> signingEnabled S then writeErr 400 (Msg ''signing is not configured on this server (no master key)'')
     else call (ts_RotateSigningKey (srv_store S) (AppID app)) (or_500 (\<lambda>updated. writeJSON 200 (signingState S updated))))"

definition handleAppStats :: "('s, 'e) Server \<Rightarrow> ('s, 'e) handler" where
  "handleAppStats S r c = ownedApp S r c (\<lambda>app.
     call (us_Count (srv_users S) (AppID app)) (or_500 (\<lambda>n.
     call (ps_Bindings (srv_players S) (AppID app)) (or_500 (\<lambda>bound.
       writeJSON 200 (Fields [(''players'', FInt n), (''bound'', FInt bound)]))))))"

definition handleDeleteApp :: "('s, 'e) Server \<Rightarrow> ('s, 'e) handler" where
  "handleDeleteApp S r c = ownedApp S r c (\<lambda>app. call (ts_DeleteApp (srv_store S) (AppID app)) (or_500 (\<lambda>_. ok_true)))"

definition handleGetPlayerTokens :: "('s, 'e) Server \<Rightarrow> ('s, 'e) handler" where
  "handleGetPlayerTokens S r c = ownedApp S r c (\<lambda>app. writeJSON 200 (Fields [(''require_player_tokens'', FBool (RequirePlayerTokens app))]))"

definition handleSetPlayerTokens :: "('s, 'e) Server \<Rightarrow> ('s, 'e) handler" where
  "handleSetPlayerTokens S r c = ownedApp S r c (\<lambda>app.
     let (req, ok) = Decode [(''require_player_tokens'', jbool (\<lambda>b _. b))] r False in
     if \<not> ok then writeErr 400 (Msg ''invalid body'')
     else call (ts_SetRequirePlayerTokens (srv_store S) (AppID app) req) (or_500 (\<lambda>updated.
       writeJSON 200 (Fields [(''require_player_tokens'', FBool (RequirePlayerTokens updated))]))))"

subsection \<open>Players (\<open>users.go\<close>)\<close>

record userReq =
  ur_Nickname :: string
  ur_Member :: string

definition user_fields :: "userReq jfield list" where
  "user_fields = [(''nickname'', jstring (\<lambda>s q. q\<lparr>ur_Nickname := s\<rparr>)), (''member'', jstring (\<lambda>s q. q\<lparr>ur_Member := s\<rparr>))]"

definition zero_userReq :: userReq where
  "zero_userReq = \<lparr>ur_Nickname = [], ur_Member = []\<rparr>"

definition writeUserErr :: "err \<Rightarrow> ('s, 'e) act" where
  "writeUserErr e =
     (if e = ErrInvalidNickname then writeErr 400 (Msg ''invalid_nickname'')
      else if e = ErrNicknameTaken then writeErr 409 (Msg ''nickname_taken'')
      else if e = ErrInvalidMember then writeErr 400 (Msg ''invalid_member'')
      else if e = ErrMemberTaken then writeErr 409 (Msg ''member_taken'')
      else if e = ErrNotFound then writeErr 404 (Msg ''user_not_found'')
      else if e = ErrRenameContention then writeErr 503 (Msg ''rename_contention'')
      else writeErr 500 (ErrText e))"

definition or_user_err :: "('a \<Rightarrow> ('s, 'e) act) \<Rightarrow> err + 'a \<Rightarrow> ('s, 'e) act" where
  "or_user_err k res = (case res of Inl e \<Rightarrow> writeUserErr e | Inr x \<Rightarrow> k x)"

definition create_player :: "('s, 'e) Server \<Rightarrow> Request \<Rightarrow> TenantApp \<Rightarrow> userReq \<Rightarrow> string \<Rightarrow> string \<Rightarrow> ('s, 'e) act" where
  "create_player S r app req member token =
     call (us_Create (srv_users S) (AppID app) (ur_Nickname req) (ur_Member req) (in_rand r 0) (in_now r 0)) (or_user_err (\<lambda>u.
       if member = [] \<and> token \<noteq> [] then call (ps_Authorize (srv_players S) (AppID app) (UserID u) token) (or_500 (\<lambda>_. writeJSON 201 (OfUser u)))
       else writeJSON 201 (OfUser u)))"

definition handleCreateUser :: "('s, 'e) Server \<Rightarrow> ('s, 'e) handler" where
  "handleCreateUser S r c =
     (let app = AppFromContext c; (req, ok) = Decode user_fields r zero_userReq in
      if \<not> ok then writeErr 400 (Msg ''nickname required'')
      else let member = TrimSpace (ur_Member req); token = TrimSpace (Header r ''X-Player-Token'') in
        if member \<noteq> [] then authorizePlayer S r c app member (create_player S r app req member token)
        else if token \<noteq> [] \<and> \<not> ValidToken token then writeErr 400 (Msg ''invalid_player_token'')
        else if token = [] \<and> keyScopeFrom c \<noteq> ScopeSecret \<and> RequirePlayerTokens app then writeErr 401 (Msg ''player_token_required'')
        else create_player S r app req member token)"

definition handleGetUser :: "('s, 'e) Server \<Rightarrow> ('s, 'e) handler" where
  "handleGetUser S r c = call (us_Get (srv_users S) (AppID (AppFromContext c)) (PathValue r ''id'')) (or_user_err (\<lambda>u. writeJSON 200 (OfUser u)))"

definition handleLookupUser :: "('s, 'e) Server \<Rightarrow> ('s, 'e) handler" where
  "handleLookupUser S r c =
     (let nick = QueryGet r ''nickname'' in
      if nick = [] then writeErr 400 (Msg ''nickname required'')
      else call (us_GetByNickname (srv_users S) (AppID (AppFromContext c)) nick) (or_user_err (\<lambda>u. writeJSON 200 (OfUser u))))"

definition handleRenameUser :: "('s, 'e) Server \<Rightarrow> ('s, 'e) handler" where
  "handleRenameUser S r c =
     (let app = AppFromContext c; (req, ok) = Decode user_fields r zero_userReq in
      if \<not> ok then writeErr 400 (Msg ''nickname required'')
      else authorizePlayer S r c app (PathValue r ''id'')
        (call (us_Rename (srv_users S) (AppID app) (PathValue r ''id'') (ur_Nickname req) (in_now r)) (or_user_err (\<lambda>u. writeJSON 200 (OfUser u)))))"

subsection \<open>Moderation (\<open>moderation.go\<close>)\<close>

definition removal :: "TenantApp \<Rightarrow> string \<Rightarrow> string \<Rightarrow> Record" where
  "removal app board member = \<lparr>ID = [], RApp = AppID app, RBoard = board, RMember = member, RScore = 0, RTime = 0, RSegments = [], Idem = [], Op = OpSubmit\<rparr>"

definition no_content :: "('s, 'e) act" where
  "no_content = reply (resp 204 NoBody)"

definition handleRemoveScore :: "('s, 'e) Server \<Rightarrow> ('s, 'e) handler" where
  "handleRemoveScore S r c =
     (let app = AppFromContext c; board = PathValue r ''board''; member = PathValue r ''member'' in
      resolveBoard S (AppID app) board (\<lambda>res. case res of
        Inl _ \<Rightarrow> writeErr 404 (Msg ''unknown board'')
      | Inr lb \<Rightarrow> ing_call S (\<lambda>i. ing_Remove i (in_now r 0) (removal app board member)) (or_500 (\<lambda>_.
          call (e_RemoveFromAll (srv_eng S) lb member) (\<lambda>res. case res of
            Inl _ \<Rightarrow> writeErr 500 (Msg ''removal_queued'') | Inr _ \<Rightarrow> no_content)))))"

text \<open>The first loop appends a tombstone per board, the second removes the member from the boards.\<close>

fun append_tombstones :: "('s, 'e) Server \<Rightarrow> Request \<Rightarrow> TenantApp \<Rightarrow> string \<Rightarrow> nat \<Rightarrow> LogicalBoard list \<Rightarrow> ('s, 'e) act \<Rightarrow> ('s, 'e) act" where
  "append_tombstones S r app member n [] k = k"
| "append_tombstones S r app member n (lb # boards) k = (\<lambda>w.
     ing_call S (\<lambda>i. ing_Remove i (in_now r n) (removal app (LBoard lb) member))
       (or_500 (\<lambda>_. append_tombstones S r app member (Suc n) boards k)) (w\<lparr>wreg := Register lb (wreg w)\<rparr>))"

fun remove_from_boards :: "('s, 'e) Server \<Rightarrow> string \<Rightarrow> bool \<Rightarrow> LogicalBoard list \<Rightarrow> (bool \<Rightarrow> ('s, 'e) act) \<Rightarrow> ('s, 'e) act" where
  "remove_from_boards S member queued [] k = k queued"
| "remove_from_boards S member queued (lb # boards) k =
     call (e_RemoveFromAll (srv_eng S) lb member) (\<lambda>res. remove_from_boards S member (queued \<or> isl res) boards k)"

definition handleDeleteUser :: "('s, 'e) Server \<Rightarrow> ('s, 'e) handler" where
  "handleDeleteUser S r c =
     (let app = AppFromContext c; member = PathValue r ''id'' in
      authorizePlayer S r c app member
        (call (ts_ListBoards (srv_store S) (AppID app)) (or_500 (\<lambda>boards.
          append_tombstones S r app member 0 boards
            (remove_from_boards S member False boards (\<lambda>queued.
              call (us_Delete (srv_users S) (AppID app) member) (or_500 (\<lambda>_.
                if queued then writeErr 500 (Msg ''removal_queued'') else no_content))))))))"

end
