(* ===== verification/Api_Router.thy ===== *)
theory Api_Router
  imports Api_Handlers
begin

text \<open>
  The metrics (\<open>pkg/api/metrics.go\<close>), the file server of the dashboard and the router
  \<open>Server.Handler\<close> (\<open>pkg/api/server.go\<close>).
\<close>

subsection \<open>Metrics\<close>

definition RecordConsumerApplied :: "int \<Rightarrow> ('s, 'e) World \<Rightarrow> ('s, 'e) World" where
  "RecordConsumerApplied n w = w\<lparr>consumerApplied := fl64 (consumerApplied w + fl64 (of_int n))\<rparr>"

definition routeLabel :: "string \<Rightarrow> string" where
  "routeLabel pattern = (let i = index_byte pattern CHR '' '' in if 0 \<le> i then drop (nat i + 1) pattern else pattern)"

text \<open>
  A request is counted under its route, method and status (200 if the handler never writes one). A
  handler that panics is not counted.
\<close>

definition instrument :: "string \<Rightarrow> ('s, 'e) handler \<Rightarrow> ('s, 'e) handler" where
  "instrument lbl nxt r c w =
     (case nxt r c w of
        (None, w) \<Rightarrow> (None, w)
      | (Some rsp, w) \<Rightarrow>
          let l = (lbl, Method r, itoa (Status rsp)) in
          (Some rsp, w\<lparr>httpDuration := (lbl, Method r, Seconds (in_end r - in_start r)) # httpDuration w,
                       httpRequests := (httpRequests w)(l := httpRequests w l + 1)\<rparr>))"

subsection \<open>The dashboard's files\<close>

text \<open>\<open>lib_isFile\<close> is what \<open>os.Stat\<close> says of the path under \<open>webDir\<close>; \<open>FileAt\<close> stands for what \<open>net/http\<close> answers when it serves that file.\<close>

definition staticFileHandler :: "('s, 'e) Server \<Rightarrow> ('s, 'e) handler" where
  "staticFileHandler S r c =
     (let p = Path r in
      if has_prefix p ''/v1/'' \<or> has_prefix p ''/auth/'' \<or> p = ''/metrics'' \<or> p = ''/healthz'' then writeErr 404 (Msg ''not found'')
      else if p \<noteq> ''/'' \<and> lib_isFile S p then reply (resp 200 (FileAt p))
      else reply (resp 200 (FileAt ''/index.html'')))"

subsection \<open>The router\<close>

definition dataPlane :: "('s, 'e) Server \<Rightarrow> string \<Rightarrow> ('s, 'e) handler \<Rightarrow> string \<times> ('s, 'e) handler" where
  "dataPlane S pattern h = (pattern, instrument (routeLabel pattern) (requireApp S h))"

definition userPlane :: "('s, 'e) Server \<Rightarrow> string \<Rightarrow> ('s, 'e) handler \<Rightarrow> string \<times> ('s, 'e) handler" where
  "userPlane S pattern h = (pattern, instrument (routeLabel pattern) (requireUser S h))"

definition openPlane :: "string \<Rightarrow> ('s, 'e) handler \<Rightarrow> string \<times> ('s, 'e) handler" where
  "openPlane pattern h = (pattern, instrument (routeLabel pattern) h)"

definition open_routes :: "('s, 'e) Server \<Rightarrow> (string \<times> ('s, 'e) handler) list" where
  "open_routes S =
     [(''GET /healthz'', handleHealth),
      (''POST /auth/signup'', handleSignup S), (''POST /auth/login'', handleLogin S), (''GET /auth/verify'', handleVerify S),
      (''POST /auth/resend'', handleResend S), (''POST /auth/forgot'', handleForgot S), (''POST /auth/reset'', handleReset S)]"

definition user_routes :: "('s, 'e) Server \<Rightarrow> (string \<times> ('s, 'e) handler) list" where
  "user_routes S =
     [(''POST /auth/logout'', handleLogout S), (''GET /auth/me'', handleMe),
      (''POST /v1/apps'', handleCreateApp S), (''GET /v1/apps'', handleListApps S), (''DELETE /v1/apps/{id}'', handleDeleteApp S),
      (''GET /v1/apps/{id}/keys'', handleListKeys S), (''POST /v1/apps/{id}/keys'', handleIssueKey S),
      (''DELETE /v1/apps/{id}/keys/{keyId}'', handleRevokeKey S),
      (''GET /v1/apps/{id}/signing'', handleGetSigning S), (''PUT /v1/apps/{id}/signing'', handleSetSigning S),
      (''GET /v1/apps/{id}/player-tokens'', handleGetPlayerTokens S), (''PUT /v1/apps/{id}/player-tokens'', handleSetPlayerTokens S),
      (''POST /v1/apps/{id}/signing/rotate'', handleRotateSigning S), (''GET /v1/apps/{id}/stats'', handleAppStats S)]"

definition data_routes :: "('s, 'e) Server \<Rightarrow> (string \<times> ('s, 'e) handler) list" where
  "data_routes S =
     [(''POST /v1/boards'', secretOnly (handleCreateBoard S)), (''GET /v1/boards'', handleListBoards S),
      (''POST /v1/boards/{board}/scores'', handleSubmit S),
      (''DELETE /v1/boards/{board}/scores/{member}'', secretOnly (handleRemoveScore S)),
      (''GET /v1/boards/{board}/rank'', handleRank S), (''GET /v1/boards/{board}/top'', handleTop S),
      (''GET /v1/boards/{board}/page'', handlePage S), (''GET /v1/boards/{board}/neighbors'', handleNeighbors S),
      (''GET /v1/boards/{board}/segments'', handleSegments S), (''GET /v1/boards/{board}/count'', handleCount S),
      (''POST /v1/boards/{board}/friends'', handleFriends S),
      (''POST /v1/users'', handleCreateUser S), (''GET /v1/users'', handleLookupUser S), (''GET /v1/users/{id}'', handleGetUser S),
      (''PATCH /v1/users/{id}'', handleRenameUser S), (''DELETE /v1/users/{id}'', handleDeleteUser S)]"

definition routes :: "('s, 'e) Server \<Rightarrow> (string \<times> ('s, 'e) handler) list" where
  "routes S = map (\<lambda>(p, h). openPlane p h) (open_routes S) @ map (\<lambda>(p, h). userPlane S p h) (user_routes S) @
     map (\<lambda>(p, h). dataPlane S p h) (data_routes S)"

text \<open>
  \<open>ServeMux\<close>: no two patterns match the same request. Without a match the mux answers 405 if another
  method has the path and 404 otherwise, or the file server takes the request. The page of metrics is
  rendered by the Prometheus library.
\<close>

definition metrics_page :: "('s, 'e) Server \<Rightarrow> ('s, 'e) handler" where
  "metrics_page S r c = reply (lib_promhttp S r)"

definition all_routes :: "('s, 'e) Server \<Rightarrow> (string \<times> ('s, 'e) handler) list" where
  "all_routes S = (''GET /metrics'', metrics_page S) # routes S"

definition mux :: "('s, 'e) Server \<Rightarrow> Request \<Rightarrow> ('s, 'e) act" where
  "mux S r =
     (case find (\<lambda>(pat, h). method_ok (pattern_method pat) (Method r) \<and> match_path pat r \<noteq> None) (all_routes S) of
        Some (pat, h) \<Rightarrow> h (with_values (the (match_path pat r)) r) no_ctx
      | None \<Rightarrow>
          if webDir S \<noteq> [] then instrument ''/'' (staticFileHandler S) r no_ctx
          else if list_ex (\<lambda>(pat, h). match_path pat r \<noteq> None) (all_routes S) then reply (resp 405 (PlainText ''Method Not Allowed''))
          else reply (resp 404 (PlainText ''404 page not found'')))"

definition Handler :: "('s, 'e) Server \<Rightarrow> Request \<Rightarrow> ('s, 'e) act" where
  "Handler S = withCORS S (mux S)"

end
