(* ===== verification/Api_Confinement.thy ===== *)
theory Api_Confinement
  imports Api_Router
begin

text \<open>
  Who may do what. The relation \<open>may\<close> lists the operations of the stores, the log and the engine
  that a caller of each role may trigger; every request moves the stores by operations of its own
  caller only.
\<close>

subsection \<open>Roles\<close>

text \<open>
  The caller of a request: nobody, anyone (on the routes open to all), a tenant of the data plane
  with or without a secret key, or a person of the dashboard with the app of the path if it is hers.
\<close>

datatype principal = Nobody | Anyone | Tenant TenantApp bool | Person Account "TenantApp option"

type_synonym ('s, 'e) stores = "'s \<times> 'e \<times> StaticRegistry"

definition view :: "('s, 'e) World \<Rightarrow> ('s, 'e) stores" where
  "view w = (wst w, wmail w, wreg w)"

text \<open>The lookups that authenticate a caller.\<close>

definition lookups :: "('s, 'e) Server \<Rightarrow> ('s \<times> 'e \<Rightarrow> 's \<times> 'e) set" where
  "lookups S = range (\<lambda>tok x. snd (UserFromSession (srv_accounts S) tok x)) \<union>
     range (\<lambda>key (s, e). (snd (ts_AuthKey (srv_store S) key s), e)) \<union> range (\<lambda>i (s, e). (snd (ts_GetApp (srv_store S) i s), e))"

definition account_ops :: "('s, 'e) Server \<Rightarrow> ('s \<times> 'e \<Rightarrow> 's \<times> 'e) set" where
  "account_ops S = (let A = srv_accounts S; bc = lib_bcrypt S; low = lib_low S in
     {snd \<circ> Signup A bc low em pw salt r1 r2 now | em pw salt r1 r2 now. True} \<union> {snd \<circ> Login A bc low em pw r1 | em pw r1. True} \<union>
     {snd \<circ> AcctVerify A tok | tok. True} \<union> {snd \<circ> ResendVerification A low em r1 | em r1. True} \<union>
     {snd \<circ> RequestReset A low em r1 | em r1. True} \<union> {snd \<circ> ResetPassword A bc tok pw salt | tok pw salt. True})"

text \<open>Of her own account, and of an app she owns.\<close>

definition person_ops :: "('s, 'e) Server \<Rightarrow> Account \<Rightarrow> ('s \<times> 'e \<Rightarrow> 's \<times> 'e) set" where
  "person_ops S u = {snd \<circ> Logout (srv_accounts S) tok | tok. True} \<union>
     {(\<lambda>(s, e). (snd (ts_CreateApp (srv_store S) (AcctID u) name r1 r2 r3 now s), e)) | name r1 r2 r3 now. True} \<union>
     {\<lambda>(s, e). (snd (ts_ListApps (srv_store S) (AcctID u) s), e)}"

definition owner_ops :: "('s, 'e) Server \<Rightarrow> TenantApp \<Rightarrow> ('s \<Rightarrow> 's) set" where
  "owner_ops S a = (let T = srv_store S in
     {snd \<circ> ts_ListKeys T (AppID a), snd \<circ> ts_DeleteApp T (AppID a), snd \<circ> ts_RotateSigningKey T (AppID a),
      snd \<circ> us_Count (srv_users S) (AppID a), snd \<circ> ps_Bindings (srv_players S) (AppID a)} \<union>
     {snd \<circ> ts_IssueKey T (AppID a) sc r1 r2 now | sc r1 r2 now. True} \<union> {snd \<circ> ts_RevokeKey T (AppID a) k | k. True} \<union>
     {snd \<circ> ts_SetRequireSigning T (AppID a) b | b. True} \<union> {snd \<circ> ts_SetRequirePlayerTokens T (AppID a) b | b. True})"

text \<open>
  Of the data plane, for an app: reading its boards, its players and the rankings of its boards;
  submissions and removals for its boards; its players and their tokens. \<open>G\<close> is the set of its boards.
\<close>

definition board_in :: "LogicalBoard set \<Rightarrow> Board \<Rightarrow> bool" where
  "board_in G b \<longleftrightarrow> (\<exists>lb \<in> G. App (Key b) = LApp lb \<and> BoardName (Key b) = LBoard lb \<and> Config b = LConfig lb)"

definition read_ops :: "('s, 'e) Server \<Rightarrow> LogicalBoard set \<Rightarrow> TenantApp \<Rightarrow> ('s \<Rightarrow> 's) set" where
  "read_ops S G a = (let E = srv_eng S; T = srv_store S; U = srv_users S; i = AppID a in
     {snd \<circ> ts_GetBoard T i n | n. True} \<union> {snd \<circ> ts_ListBoards T i} \<union> {snd \<circ> us_Nicknames U i ms | ms. True} \<union>
     {snd \<circ> us_Get U i m | m. True} \<union> {snd \<circ> us_GetByNickname U i n | n. True} \<union> {snd \<circ> e_Segments E lb | lb. lb \<in> G} \<union>
     {snd \<circ> e_GetRank E b m | b m. board_in G b} \<union> {snd \<circ> e_GetApproxRank E b m | b m. board_in G b} \<union>
     {snd \<circ> e_TopN E b n | b n. board_in G b} \<union> {snd \<circ> e_Page E b x n | b x n. board_in G b} \<union>
     {snd \<circ> e_Neighbors E b m k | b m k. board_in G b} \<union> {snd \<circ> e_FriendRank E b ms | b ms. board_in G b} \<union>
     {snd \<circ> e_Count E b | b. board_in G b})"

definition player_ops :: "('s, 'e) Server \<Rightarrow> LogicalBoard set \<Rightarrow> StaticRegistry \<Rightarrow> TenantApp \<Rightarrow> ('s \<Rightarrow> 's) set" where
  "player_ops S G g a = (let U = srv_users S; i = AppID a in
     {snd \<circ> ps_Authorize (srv_players S) i m t | m t. True} \<union> {snd \<circ> us_Create U i n m r1 now | n m r1 now. True} \<union>
     {snd \<circ> us_Rename U i m n nows | m n nows. True} \<union> {snd \<circ> us_Delete U i m | m. True} \<union>
     {snd \<circ> ing_Submit (ing_at S g) now rec | now rec. RApp rec = i} \<union> {snd \<circ> ing_Remove (ing_at S g) now rec | now rec. RApp rec = i} \<union>
     {snd \<circ> e_RemoveFromAll (srv_eng S) lb m | lb m. lb \<in> G})"

definition admin_ops :: "('s, 'e) Server \<Rightarrow> TenantApp \<Rightarrow> ('s \<Rightarrow> 's) set" where
  "admin_ops S a = {snd \<circ> ts_UpsertBoard (srv_store S) lb | lb. LApp lb = AppID a}"

inductive may :: "('s, 'e) Server \<Rightarrow> (string \<Rightarrow> LogicalBoard set) \<Rightarrow> principal \<Rightarrow> ('s, 'e) stores \<Rightarrow> ('s, 'e) stores \<Rightarrow> bool" for S G where
  lookup: "f \<in> lookups S \<Longrightarrow> f (s, e) = (s', e') \<Longrightarrow> may S G p (s, e, g) (s', e', g)"
| account: "f \<in> account_ops S \<Longrightarrow> f (s, e) = (s', e') \<Longrightarrow> may S G Anyone (s, e, g) (s', e', g)"
| person: "f \<in> person_ops S u \<Longrightarrow> f (s, e) = (s', e') \<Longrightarrow> may S G (Person u a) (s, e, g) (s', e', g)"
| owner: "f \<in> owner_ops S a \<Longrightarrow> may S G (Person u (Some a)) (s, e, g) (f s, e, g)"
| reading: "f \<in> read_ops S (G (AppID a)) a \<Longrightarrow> may S G (Tenant a sec) (s, e, g) (f s, e, g)"
| playing: "f \<in> player_ops S (G (AppID a)) g a \<Longrightarrow> may S G (Tenant a sec) (s, e, g) (f s, e, g)"
| admin: "f \<in> admin_ops S a \<Longrightarrow> may S G (Tenant a True) (s, e, g) (f s, e, g)"
| known: "lb \<in> G (AppID a) \<Longrightarrow> may S G (Tenant a sec) (s, e, g) (s, e, Register lb g)"
| created: "LApp lb = AppID a \<Longrightarrow> may S G (Tenant a True) (s, e, g) (s, e, Register lb g)"

subsection \<open>The caller of a request\<close>

definition session_user :: "('s, 'e) Server \<Rightarrow> Request \<Rightarrow> ('s, 'e) World \<Rightarrow> (Account \<times> ('s, 'e) World) option" where
  "session_user S r w = (case Cookie r sessionCookie of None \<Rightarrow> None
     | Some tok \<Rightarrow> (case UserFromSession (srv_accounts S) tok (wst w, wmail w) of
         (Inr u, (s, e)) \<Rightarrow> if isMutation (Method r) \<and> \<not> csrfOK r then None else Some (u, w\<lparr>wst := s, wmail := e\<rparr>)
       | _ \<Rightarrow> None))"

definition owned :: "('s, 'e) Server \<Rightarrow> Account \<Rightarrow> string \<Rightarrow> ('s, 'e) World \<Rightarrow> TenantApp option" where
  "owned S u i w = (case fst (ts_GetApp (srv_store S) i (wst w)) of
     Inr a \<Rightarrow> if OwnerUserID a = AcctID u then Some a else None | Inl _ \<Rightarrow> None)"

definition data_caller :: "('s, 'e) Server \<Rightarrow> Request \<Rightarrow> ('s, 'e) World \<Rightarrow> principal" where
  "data_caller S r w =
     (if bearerToken r \<noteq> [] then
        (case fst (ts_AuthKey (srv_store S) (bearerToken r) (wst w)) of Inr (a, sc) \<Rightarrow> Tenant a (sc = ScopeSecret) | Inl _ \<Rightarrow> Nobody)
      else (case session_user S r w of None \<Rightarrow> Nobody
        | Some (u, w1) \<Rightarrow> if Header r ''X-App-Id'' = [] then Nobody
            else (case owned S u (Header r ''X-App-Id'') w1 of None \<Rightarrow> Nobody | Some a \<Rightarrow> Tenant a True)))"

definition user_caller :: "('s, 'e) Server \<Rightarrow> Request \<Rightarrow> ('s, 'e) World \<Rightarrow> principal" where
  "user_caller S r w = (case session_user S r w of None \<Rightarrow> Nobody | Some (u, w1) \<Rightarrow> Person u (owned S u (PathValue r ''id'') w1))"

definition on_routes :: "(string \<times> 'h) list \<Rightarrow> Request \<Rightarrow> string option" where
  "on_routes rs r = map_option fst (find (\<lambda>(pat, h). method_ok (pattern_method pat) (Method r) \<and> match_path pat r \<noteq> None) rs)"

definition at_route :: "string \<Rightarrow> Request \<Rightarrow> Request" where
  "at_route pat r = with_values (the (match_path pat r)) r"

definition caller :: "('s, 'e) Server \<Rightarrow> Request \<Rightarrow> ('s, 'e) World \<Rightarrow> principal" where
  "caller S r w =
     (case on_routes (open_routes S) r of Some pat \<Rightarrow> Anyone
      | None \<Rightarrow> (case on_routes (user_routes S) r of Some pat \<Rightarrow> user_caller S (at_route pat r) w
      | None \<Rightarrow> (case on_routes (data_routes S) r of Some pat \<Rightarrow> data_caller S (at_route pat r) w
      | None \<Rightarrow> Nobody)))"

text \<open>The boards of an app: those the registry resolves for it, and those the store returns for it.\<close>

definition boards_of :: "('s, 'e) Server \<Rightarrow> StaticRegistry \<Rightarrow> string \<Rightarrow> LogicalBoard set" where
  "boards_of S g i = {lb. (\<exists>b. reg_Resolve g i b = Some lb) \<or> (\<exists>b s. fst (ts_GetBoard (srv_store S) i b s) = Inr lb) \<or>
     (\<exists>s lbs. fst (ts_ListBoards (srv_store S) i s) = Inr lbs \<and> lb \<in> set lbs)}"

subsection \<open>Actions that stay within a role\<close>

named_theorems stays_intros "rules for actions that stay within a role"

definition knows :: "(string \<Rightarrow> LogicalBoard set) \<Rightarrow> principal \<Rightarrow> StaticRegistry \<Rightarrow> bool" where
  "knows G p g \<longleftrightarrow> (case p of Tenant a _ \<Rightarrow> \<forall>b lb. reg_Resolve g (AppID a) b = Some lb \<longrightarrow> lb \<in> G (AppID a) | _ \<Rightarrow> True)"

definition stays :: "('s, 'e) Server \<Rightarrow> (string \<Rightarrow> LogicalBoard set) \<Rightarrow> principal \<Rightarrow> ('s, 'e) act \<Rightarrow> bool" where
  "stays S G p A \<longleftrightarrow> (\<forall>w. knows G p (wreg w) \<longrightarrow> (may S G p)\<^sup>*\<^sup>* (view w) (view (snd (A w))))"

lemma stays_reply [stays_intros]: "stays S G p (reply x)" "stays S G p (writeJSON n v)" "stays S G p (writeErr n m)"
  by (simp_all add: stays_def reply_def writeJSON_def writeErr_def)

lemma stays_splits [stays_intros]:
  "(b \<Longrightarrow> stays S G p A) \<Longrightarrow> (\<not> b \<Longrightarrow> stays S G p B) \<Longrightarrow> stays S G p (if b then A else B)"
  "(\<And>e. res = Inl e \<Longrightarrow> stays S G p (f e)) \<Longrightarrow> (\<And>x. res = Inr x \<Longrightarrow> stays S G p (h x)) \<Longrightarrow> stays S G p (case_sum f h res)"
  "(\<And>x y. z = (x, y) \<Longrightarrow> stays S G p (k x y)) \<Longrightarrow> stays S G p (case_prod k z)"
  "(v = None \<Longrightarrow> stays S G p A) \<Longrightarrow> (\<And>x. v = Some x \<Longrightarrow> stays S G p (h' x)) \<Longrightarrow> stays S G p (case_option A h' v)"
  "(\<And>x. stays S G p (k' x)) \<Longrightarrow> stays S G p (Let v' k')"
  by (auto split: sum.splits prod.splits option.splits)

lemma stays_submits_inc [stays_intros]:
  assumes "stays S G p A"
  shows "stays S G p (submits_inc l A)"
  unfolding stays_def
proof (intro allI impI)
  fix w :: "('a, 'b) World" assume "knows G p (wreg w)"
  moreover define w1 where "w1 = w\<lparr>submitsTotal := (submitsTotal w)(l := submitsTotal w l + 1)\<rparr>"
  ultimately have "knows G p (wreg w1)" "view w1 = view w" by (simp_all add: view_def)
  then show "(may S G p)\<^sup>*\<^sup>* (view w) (view (snd (submits_inc l A w)))"
    using assms unfolding stays_def submits_inc_def w1_def [symmetric] by metis
qed

lemma stays_call:
  assumes "\<And>s e g. may S G p (s, e, g) (snd (m s), e, g)" "\<And>s res. res = fst (m s) \<Longrightarrow> stays S G p (k res)"
  shows "stays S G p (call m k)"
  unfolding stays_def
proof (intro allI impI)
  fix w :: "('a, 'b) World" assume w: "knows G p (wreg w)"
  define w1 where "w1 = w\<lparr>wst := snd (m (wst w))\<rparr>"
  have v: "view w1 = (snd (m (wst w)), wmail w, wreg w)" "knows G p (wreg w1)" using w by (simp_all add: w1_def view_def)
  have "(may S G p)\<^sup>*\<^sup>* (view w) (view w1)" unfolding v view_def [of w] by (intro r_into_rtranclp assms(1))
  moreover have "(may S G p)\<^sup>*\<^sup>* (view w1) (view (snd (k (fst (m (wst w))) w1)))"
    using assms(2) [OF refl] v(2) unfolding stays_def by blast
  ultimately show "(may S G p)\<^sup>*\<^sup>* (view w) (view (snd (call m k w)))"
    by (auto simp: call_def case_prod_beta w1_def [symmetric] Let_def)
qed

lemma stays_acall:
  assumes "\<And>s e g. may S G p (s, e, g) (fst (snd (m (s, e))), snd (snd (m (s, e))), g)" "\<And>x res. res = fst (m x) \<Longrightarrow> stays S G p (k res)"
  shows "stays S G p (acall m k)"
  unfolding stays_def
proof (intro allI impI)
  fix w :: "('a, 'b) World" assume w: "knows G p (wreg w)"
  define x where "x = m (wst w, wmail w)"
  define w1 where "w1 = w\<lparr>wst := fst (snd x), wmail := snd (snd x)\<rparr>"
  have v: "view w1 = (fst (snd x), snd (snd x), wreg w)" "knows G p (wreg w1)" using w by (simp_all add: w1_def view_def)
  have "(may S G p)\<^sup>*\<^sup>* (view w) (view w1)" unfolding v view_def [of w] x_def by (intro r_into_rtranclp assms(1))
  moreover have "(may S G p)\<^sup>*\<^sup>* (view w1) (view (snd (k (fst x) w1)))"
    using assms(2) [OF refl] v(2) unfolding stays_def x_def by blast
  ultimately show "(may S G p)\<^sup>*\<^sup>* (view w) (view (snd (acall m k w)))"
    by (auto simp: acall_def case_prod_beta w1_def [symmetric] x_def [symmetric] Let_def)
qed

lemma stays_or_500 [stays_intros]: "(\<And>x. res = Inr x \<Longrightarrow> stays S G p (k x)) \<Longrightarrow> stays S G p (or_500 k res)"
  unfolding or_500_def by (intro stays_intros)

text \<open>A call of an operation of the role.\<close>

lemma stays_account:
  assumes "snd \<circ> m \<in> account_ops S" "\<And>x res. res = fst (m x) \<Longrightarrow> stays S G Anyone (k res)"
  shows "stays S G Anyone (acall m k)"
proof (rule stays_acall [OF _ assms(2)])
  show "may S G Anyone (s, e, g) (fst (snd (m (s, e))), snd (snd (m (s, e))), g)" for s e g
    by (rule may.account [OF assms(1)]) simp
qed

lemma stays_person_account:
  assumes "snd \<circ> m \<in> person_ops S u" "\<And>x res. res = fst (m x) \<Longrightarrow> stays S G (Person u a) (k res)"
  shows "stays S G (Person u a) (acall m k)"
proof (rule stays_acall [OF _ assms(2)])
  show "may S G (Person u a) (s, e, g) (fst (snd (m (s, e))), snd (snd (m (s, e))), g)" for s e g
    by (rule may.person [OF assms(1)]) simp
qed

lemma stays_person:
  assumes "(\<lambda>(s, e). (snd (m s), e)) \<in> person_ops S u" "\<And>s res. res = fst (m s) \<Longrightarrow> stays S G (Person u a) (k res)"
  shows "stays S G (Person u a) (call m k)"
proof (rule stays_call [OF _ assms(2)])
  show "may S G (Person u a) (s, e, g) (snd (m s), e, g)" for s e g
    by (rule may.person [OF assms(1)]) simp
qed

lemma stays_owner:
  assumes "snd \<circ> m \<in> owner_ops S a" "\<And>s res. res = fst (m s) \<Longrightarrow> stays S G (Person u (Some a)) (k res)"
  shows "stays S G (Person u (Some a)) (call m k)"
  by (rule stays_call [OF _ assms(2)]) (use may.owner [OF assms(1), of G] in simp)

lemma stays_read:
  assumes "snd \<circ> m \<in> read_ops S (G (AppID a)) a" "\<And>s res. res = fst (m s) \<Longrightarrow> stays S G (Tenant a sec) (k res)"
  shows "stays S G (Tenant a sec) (call m k)"
  by (rule stays_call [OF _ assms(2)]) (use may.reading [where G = G and a = a, OF assms(1)] in simp)

lemma stays_play:
  assumes "\<And>g. snd \<circ> m \<in> player_ops S (G (AppID a)) g a" "\<And>s res. res = fst (m s) \<Longrightarrow> stays S G (Tenant a sec) (k res)"
  shows "stays S G (Tenant a sec) (call m k)"
  by (rule stays_call [OF _ assms(2)]) (use may.playing [where G = G and a = a, OF assms(1)] in simp)

lemma stays_ing:
  assumes "\<And>g. snd \<circ> f (ing_at S g) \<in> player_ops S (G (AppID a)) g a" "\<And>res. stays S G (Tenant a sec) (k res)"
  shows "stays S G (Tenant a sec) (ing_call S f k)"
  unfolding stays_def
proof (intro allI impI)
  fix w :: "('a, 'c) World" assume w: "knows G (Tenant a sec) (wreg w)"
  define w1 where "w1 = w\<lparr>wst := snd (f (ing_at S (wreg w)) (wst w))\<rparr>"
  have v: "view w1 = (snd (f (ing_at S (wreg w)) (wst w)), wmail w, wreg w)" "knows G (Tenant a sec) (wreg w1)" using w by (simp_all add: w1_def view_def)
  have "(may S G (Tenant a sec))\<^sup>*\<^sup>* (view w) (view w1)"
    unfolding v view_def [of w] using may.playing [where G = G and a = a, OF assms(1)] by (intro r_into_rtranclp) simp
  moreover have "(may S G (Tenant a sec))\<^sup>*\<^sup>* (view w1) (view (snd (k res w1)))" for res
    using assms(2) v(2) unfolding stays_def by blast
  ultimately show "(may S G (Tenant a sec))\<^sup>*\<^sup>* (view w) (view (snd (ing_call S f k w)))"
    by (auto simp: ing_call_def call_def case_prod_beta w1_def [symmetric] Let_def intro: rtranclp_trans)
qed

named_theorems ops_intros "the operations of a role"

lemma account_opsI [ops_intros]:
  "snd \<circ> Signup (srv_accounts S) (lib_bcrypt S) (lib_low S) em pw salt r1 r2 now \<in> account_ops S"
  "snd \<circ> Login (srv_accounts S) (lib_bcrypt S) (lib_low S) em pw r1 \<in> account_ops S"
  "snd \<circ> AcctVerify (srv_accounts S) tok \<in> account_ops S"
  "snd \<circ> ResendVerification (srv_accounts S) (lib_low S) em r1 \<in> account_ops S"
  "snd \<circ> RequestReset (srv_accounts S) (lib_low S) em r1 \<in> account_ops S"
  "snd \<circ> ResetPassword (srv_accounts S) (lib_bcrypt S) tok pw salt \<in> account_ops S"
  unfolding account_ops_def Let_def by blast+

lemma person_opsI [ops_intros]:
  "snd \<circ> Logout (srv_accounts S) tok \<in> person_ops S u"
  "(\<lambda>(s, e). (snd (ts_CreateApp (srv_store S) (AcctID u) name r1 r2 r3 now s), e)) \<in> person_ops S u"
  "(\<lambda>(s, e). (snd (ts_ListApps (srv_store S) (AcctID u) s), e)) \<in> person_ops S u"
  unfolding person_ops_def by blast+

lemma owner_opsI [ops_intros]:
  "snd \<circ> ts_ListKeys (srv_store S) (AppID a) \<in> owner_ops S a" "snd \<circ> ts_DeleteApp (srv_store S) (AppID a) \<in> owner_ops S a"
  "snd \<circ> ts_RotateSigningKey (srv_store S) (AppID a) \<in> owner_ops S a" "snd \<circ> us_Count (srv_users S) (AppID a) \<in> owner_ops S a"
  "snd \<circ> ps_Bindings (srv_players S) (AppID a) \<in> owner_ops S a"
  "snd \<circ> ts_IssueKey (srv_store S) (AppID a) sc r1 r2 now \<in> owner_ops S a" "snd \<circ> ts_RevokeKey (srv_store S) (AppID a) k \<in> owner_ops S a"
  "snd \<circ> ts_SetRequireSigning (srv_store S) (AppID a) b \<in> owner_ops S a"
  "snd \<circ> ts_SetRequirePlayerTokens (srv_store S) (AppID a) b \<in> owner_ops S a"
  unfolding owner_ops_def Let_def by blast+

lemma read_opsI [ops_intros]:
  "snd \<circ> ts_GetBoard (srv_store S) (AppID a) n \<in> read_ops S G a" "snd \<circ> ts_ListBoards (srv_store S) (AppID a) \<in> read_ops S G a"
  "snd \<circ> us_Nicknames (srv_users S) (AppID a) ms \<in> read_ops S G a" "snd \<circ> us_Get (srv_users S) (AppID a) m \<in> read_ops S G a"
  "snd \<circ> us_GetByNickname (srv_users S) (AppID a) n \<in> read_ops S G a" "lb \<in> G \<Longrightarrow> snd \<circ> e_Segments (srv_eng S) lb \<in> read_ops S G a"
  "board_in G b \<Longrightarrow> snd \<circ> e_GetRank (srv_eng S) b m \<in> read_ops S G a" "board_in G b \<Longrightarrow> snd \<circ> e_GetApproxRank (srv_eng S) b m \<in> read_ops S G a"
  "board_in G b \<Longrightarrow> snd \<circ> e_TopN (srv_eng S) b x \<in> read_ops S G a" "board_in G b \<Longrightarrow> snd \<circ> e_Page (srv_eng S) b x y \<in> read_ops S G a"
  "board_in G b \<Longrightarrow> snd \<circ> e_Neighbors (srv_eng S) b m x \<in> read_ops S G a" "board_in G b \<Longrightarrow> snd \<circ> e_FriendRank (srv_eng S) b ms \<in> read_ops S G a"
  "board_in G b \<Longrightarrow> snd \<circ> e_Count (srv_eng S) b \<in> read_ops S G a"
  unfolding read_ops_def Let_def by blast+

lemma player_opsI [ops_intros]:
  "snd \<circ> ps_Authorize (srv_players S) (AppID a) m t \<in> player_ops S G g a" "snd \<circ> us_Create (srv_users S) (AppID a) n m r1 now \<in> player_ops S G g a"
  "snd \<circ> us_Rename (srv_users S) (AppID a) m n nows \<in> player_ops S G g a" "snd \<circ> us_Delete (srv_users S) (AppID a) m \<in> player_ops S G g a"
  "RApp rec = AppID a \<Longrightarrow> snd \<circ> ing_Submit (ing_at S g) now rec \<in> player_ops S G g a"
  "RApp rec = AppID a \<Longrightarrow> snd \<circ> ing_Remove (ing_at S g) now rec \<in> player_ops S G g a"
  "lb \<in> G \<Longrightarrow> snd \<circ> e_RemoveFromAll (srv_eng S) lb m \<in> player_ops S G g a"
  unfolding player_ops_def Let_def by blast+

subsection \<open>Open routes and the dashboard\<close>

lemma stays_ok_true [stays_intros]: "stays S G p ok_true" "stays S G p (redirect url)" "stays S G p no_content"
  unfolding ok_true_def redirect_def no_content_def by (intro stays_intros)+

lemma stays_set_cookies [stays_intros]: "stays S G p A \<Longrightarrow> stays S G p (\<lambda>w. case A w of (rsp, w) \<Rightarrow> (f rsp, w))"
  by (simp add: stays_def case_prod_beta)

lemma open_stays:
  assumes "(pat, h) \<in> set (open_routes S)"
  shows "stays S G Anyone (h r c)"
proof -
  have "stays S G Anyone (handleHealth r c)" unfolding handleHealth_def by (intro stays_intros)
  moreover have "stays S G Anyone (handleSignup S r c)" unfolding handleSignup_def by (intro stays_intros stays_account ops_intros)
  moreover have "stays S G Anyone (handleLogin S r c)" unfolding handleLogin_def by (intro stays_intros stays_account ops_intros)
  moreover have "stays S G Anyone (handleVerify S r c)" unfolding handleVerify_def by (intro stays_intros stays_account ops_intros)
  moreover have "stays S G Anyone (handleResend S r c)" unfolding handleResend_def by (intro stays_intros stays_account ops_intros)
  moreover have "stays S G Anyone (handleForgot S r c)" unfolding handleForgot_def by (intro stays_intros stays_account ops_intros)
  moreover have "stays S G Anyone (handleReset S r c)" unfolding handleReset_def by (intro stays_intros stays_account ops_intros)
  ultimately show ?thesis using assms unfolding open_routes_def by auto
qed

text \<open>A route of the dashboard, once the user is known; \<open>a\<close> is the app of the path that she owns.\<close>

lemma ownedApp_stays:
  assumes "ctx_user c = Some u" "\<And>a. owned S u (PathValue r ''id'') w = Some a \<Longrightarrow> stays S G (Person u (Some a)) (k a)"
  shows "(may S G (Person u (owned S u (PathValue r ''id'') w)))\<^sup>*\<^sup>* (view w) (view (snd (ownedApp S r c k w)))"
proof -
  let ?i = "PathValue r ''id''" and ?p = "Person u (owned S u (PathValue r ''id'') w)"
  obtain res s where m: "ts_GetApp (srv_store S) ?i (wst w) = (res, s)" by fastforce
  define w1 where "w1 = w\<lparr>wst := s\<rparr>"
  have v: "view w1 = (s, wmail w, wreg w)" by (simp add: view_def w1_def)
  have "may S G ?p (view w) (view w1)"
    unfolding v view_def [of w] using m
    by (intro may.lookup [of "\<lambda>(s, e). (snd (ts_GetApp (srv_store S) ?i s), e)"]) (auto simp: lookups_def)
  moreover have "(may S G ?p)\<^sup>*\<^sup>* (view w1) (view (snd (k a w1)))" if "res = Inr a" "OwnerUserID a = AcctID u" for a
  proof -
    have a: "owned S u ?i w = Some a" using that m by (simp add: owned_def)
    then show ?thesis using assms(2) [OF a] by (simp add: stays_def knows_def)
  qed
  ultimately show ?thesis using assms(1)
    by (auto simp: ownedApp_def call_def m w1_def [symmetric] Let_def userFromContext_def writeErr_def writeJSON_def reply_def
        split: sum.splits intro: converse_rtranclp_into_rtranclp)
qed

lemma stays_Person: "stays S G (Person u a) A \<Longrightarrow> (may S G (Person u a))\<^sup>*\<^sup>* (view w) (view (snd (A w)))"
  by (simp add: stays_def knows_def)

lemma user_stays:
  assumes "(pat, h) \<in> set (user_routes S)" and u: "ctx_user c = Some u"
  shows "(may S G (Person u (owned S u (PathValue r ''id'') w)))\<^sup>*\<^sup>* (view w) (view (snd (h r c w)))" (is "?W h")
proof -
  note o = ownedApp_stays [OF u]
  have c: "userFromContext c = u" using u by (simp add: userFromContext_def)
  have lo: "stays S G p logged_out" for p
    unfolding logged_out_def [abs_def] by (intro stays_intros)
  have "?W (handleLogout S)"
    unfolding handleLogout_def by (intro stays_Person stays_intros stays_person_account ops_intros lo)
  moreover have "?W handleMe" unfolding handleMe_def by (intro stays_Person stays_intros)
  moreover have "?W (handleCreateApp S)"
    unfolding handleCreateApp_def c Let_def by (intro stays_Person stays_intros stays_person ops_intros)
  moreover have "?W (handleListApps S)"
    unfolding handleListApps_def c by (intro stays_Person stays_intros stays_person ops_intros)
  moreover have "?W (handleDeleteApp S)" unfolding handleDeleteApp_def by (intro o stays_intros stays_owner ops_intros)
  moreover have "?W (handleListKeys S)" unfolding handleListKeys_def by (intro o stays_intros stays_owner ops_intros)
  moreover have "?W (handleIssueKey S)" unfolding handleIssueKey_def by (intro o stays_intros stays_owner ops_intros)
  moreover have "?W (handleRevokeKey S)" unfolding handleRevokeKey_def by (intro o stays_intros stays_owner ops_intros)
  moreover have "?W (handleGetSigning S)" unfolding handleGetSigning_def by (intro o stays_intros stays_owner ops_intros)
  moreover have "?W (handleSetSigning S)" unfolding handleSetSigning_def by (intro o stays_intros stays_owner ops_intros)
  moreover have "?W (handleGetPlayerTokens S)" unfolding handleGetPlayerTokens_def by (intro o stays_intros stays_owner ops_intros)
  moreover have "?W (handleSetPlayerTokens S)" unfolding handleSetPlayerTokens_def by (intro o stays_intros stays_owner ops_intros)
  moreover have "?W (handleRotateSigning S)" unfolding handleRotateSigning_def by (intro o stays_intros stays_owner ops_intros)
  moreover have "?W (handleAppStats S)" unfolding handleAppStats_def by (intro o stays_intros stays_owner ops_intros)
  ultimately show ?thesis using assms(1) unfolding user_routes_def by auto
qed

subsection \<open>The data plane\<close>

definition sees_boards :: "('s, 'e) Server \<Rightarrow> (string \<Rightarrow> LogicalBoard set) \<Rightarrow> string \<Rightarrow> bool" where
  "sees_boards S G i \<longleftrightarrow> (\<forall>b s lb. fst (ts_GetBoard (srv_store S) i b s) = Inr lb \<longrightarrow> lb \<in> G i) \<and>
     (\<forall>s lbs lb. fst (ts_ListBoards (srv_store S) i s) = Inr lbs \<and> lb \<in> set lbs \<longrightarrow> lb \<in> G i)"

lemma sees_boardsD:
  "sees_boards S G i \<Longrightarrow> Inr lb = fst (ts_GetBoard (srv_store S) i b s) \<Longrightarrow> lb \<in> G i"
  "sees_boards S G i \<Longrightarrow> Inr lbs = fst (ts_ListBoards (srv_store S) i s) \<Longrightarrow> set lbs \<subseteq> G i"
  unfolding sees_boards_def by (metis, metis subsetI)

text \<open>Registering a board of the app keeps what the rest of the action relies on.\<close>

lemma stays_register:
  assumes "stays S G (Tenant a sec) A" "lb \<in> G (AppID a)"
  shows "stays S G (Tenant a sec) (\<lambda>w. A (w\<lparr>wreg := Register lb (wreg w)\<rparr>))"
  unfolding stays_def
proof (intro allI impI)
  fix w :: "('a, 'b) World" assume w: "knows G (Tenant a sec) (wreg w)"
  define w1 where "w1 = w\<lparr>wreg := Register lb (wreg w)\<rparr>"
  have v: "view w1 = (wst w, wmail w, Register lb (wreg w))" by (simp add: w1_def view_def)
  have "knows G (Tenant a sec) (wreg w1)" using w assms(2) by (auto simp: knows_def w1_def reg_Resolve_def Register_def)
  then have "(may S G (Tenant a sec))\<^sup>*\<^sup>* (view w1) (view (snd (A w1)))" using assms(1) by (simp add: stays_def)
  moreover have "may S G (Tenant a sec) (view w) (view w1)" unfolding v view_def [of w] by (rule may.known [where G = G, OF assms(2)])
  ultimately show "(may S G (Tenant a sec))\<^sup>*\<^sup>* (view w) (view (snd (A (w\<lparr>wreg := Register lb (wreg w)\<rparr>))))"
    unfolding w1_def [symmetric] by (rule converse_rtranclp_into_rtranclp [rotated])
qed

lemma stays_resolveBoard:
  assumes cl: "sees_boards S G (AppID a)" and k: "\<And>e. stays S G (Tenant a sec) (k (Inl e))" "\<And>lb. lb \<in> G (AppID a) \<Longrightarrow> stays S G (Tenant a sec) (k (Inr lb))"
  shows "stays S G (Tenant a sec) (resolveBoard S (AppID a) b k)"
proof -
  define m where "m = call (ts_GetBoard (srv_store S) (AppID a) b) (\<lambda>res. case res of Inl e \<Rightarrow> k (Inl e)
      | Inr lb \<Rightarrow> (\<lambda>w. k (Inr lb) (w\<lparr>wreg := Register lb (wreg w)\<rparr>)))"
  have m: "stays S G (Tenant a sec) m"
    unfolding m_def using cl by (intro stays_read stays_splits stays_register k ops_intros) (metis sees_boardsD(1))+
  show ?thesis
    unfolding stays_def
  proof (intro allI impI)
    fix w :: "('a, 'b) World" assume w: "knows G (Tenant a sec) (wreg w)"
    show "(may S G (Tenant a sec))\<^sup>*\<^sup>* (view w) (view (snd (resolveBoard S (AppID a) b k w)))"
    proof (cases "reg_Resolve (wreg w) (AppID a) b")
      case None
      then show ?thesis using m w by (simp add: resolveBoard_def stays_def m_def)
    next
      case (Some lb)
      then have "stays S G (Tenant a sec) (k (Inr lb))" using w by (intro k) (auto simp: knows_def)
      then show ?thesis using Some w by (simp add: resolveBoard_def stays_def)
    qed
  qed
qed

text \<open>A context of the data plane for an app, with or without the rights of a secret key.\<close>

definition tenant_ctx :: "Ctx \<Rightarrow> TenantApp \<Rightarrow> bool \<Rightarrow> bool" where
  "tenant_ctx c a sec \<longleftrightarrow> AppFromContext c = a \<and> (keyScopeFrom c = ScopeSecret \<longleftrightarrow> sec)"

lemma stays_readBoard:
  assumes "sees_boards S G (AppID a)" "tenant_ctx c a sec" "\<And>b. board_in (G (AppID a)) b \<Longrightarrow> stays S G (Tenant a sec) (k b)"
  shows "stays S G (Tenant a sec) (readBoard S r c k)"
proof -
  have "board_in (G (AppID a)) (physicalBoard lb r)" if "lb \<in> G (AppID a)" for lb
    using that by (auto simp: board_in_def physicalBoard_def Let_def)
  moreover have c: "AppFromContext c = a" using assms(2) by (simp add: tenant_ctx_def)
  ultimately show ?thesis unfolding readBoard_def c
    by (intro stays_resolveBoard assms(1)) (auto intro!: assms(3) stays_intros)
qed

lemma stays_authorizePlayer:
  "stays S G (Tenant a sec) A \<Longrightarrow> stays S G (Tenant a sec) (authorizePlayer S r c a member A)"
  unfolding authorizePlayer_def by (intro stays_intros stays_play ops_intros)

lemma stays_enrichEntries:
  assumes "tenant_ctx c a sec" "\<And>es. stays S G (Tenant a sec) (k es)"
  shows "stays S G (Tenant a sec) (enrichEntries S c es k)"
proof -
  have c: "AppFromContext c = a" using assms(1) by (simp add: tenant_ctx_def)
  show ?thesis unfolding enrichEntries_def c by (intro stays_intros stays_read ops_intros assms(2))
qed

lemma stays_writeEntries: "tenant_ctx c a sec \<Longrightarrow> stays S G (Tenant a sec) (writeEntries S c res)"
  unfolding writeEntries_def by (intro stays_intros stays_enrichEntries)

lemma stays_tombstones:
  "set lbs \<subseteq> G (AppID a) \<Longrightarrow> stays S G (Tenant a sec) A \<Longrightarrow> stays S G (Tenant a sec) (append_tombstones S r a member n lbs A)"
proof (induction lbs arbitrary: n)
  case (Cons lb lbs)
  then show ?case
    by (auto simp: removal_def intro!: stays_register [where A = "ing_call S f k" for f k] stays_ing stays_intros ops_intros)
qed simp

lemma stays_remove_from_boards:
  "set lbs \<subseteq> G (AppID a) \<Longrightarrow> (\<And>q. stays S G (Tenant a sec) (k q)) \<Longrightarrow> stays S G (Tenant a sec) (remove_from_boards S member q lbs k)"
  by (induction lbs arbitrary: q) (auto intro!: stays_play ops_intros)

lemma stays_or_user_err: "(\<And>x. res = Inr x \<Longrightarrow> stays S G p (k x)) \<Longrightarrow> stays S G p (or_user_err k res)"
  unfolding or_user_err_def writeUserErr_def by (intro stays_intros)

lemmas data_intros = stays_intros stays_read stays_play stays_ing stays_authorizePlayer stays_or_user_err ops_intros

lemma admin_opsI: "LApp lb = AppID a \<Longrightarrow> snd \<circ> ts_UpsertBoard (srv_store S) lb \<in> admin_ops S a"
  unfolding admin_ops_def by blast

lemma stays_created:
  assumes "LApp lb = AppID a"
  shows "stays S G (Tenant a True) (call (ts_UpsertBoard (srv_store S) lb) (or_500 (\<lambda>_ w. writeJSON n v (w\<lparr>wreg := Register lb (wreg w)\<rparr>))))"
proof -
  have "stays S G (Tenant a True) (\<lambda>w. writeJSON n v (w\<lparr>wreg := Register lb (wreg w)\<rparr>))"
    unfolding stays_def view_def
    by (auto simp: writeJSON_def reply_def intro!: r_into_rtranclp may.created assms)
  moreover have "may S G (Tenant a True) (s, e, g) (snd (ts_UpsertBoard (srv_store S) lb s), e, g)" for s e g
    using may.admin [of "snd \<circ> ts_UpsertBoard (srv_store S) lb" S a, OF admin_opsI [OF assms]] by simp
  ultimately show ?thesis by (intro stays_call stays_or_500)
qed

lemma data_stays:
  assumes "(pat, h) \<in> set (data_routes S)" and sb: "sees_boards S G (AppID a)" and ctx: "tenant_ctx c a sec"
  shows "stays S G (Tenant a sec) (h r c)"
proof -
  have c: "AppFromContext c = a" using ctx by (simp add: tenant_ctx_def)
  note rb = stays_readBoard [OF sb ctx] and we = stays_writeEntries [OF ctx] and ee = stays_enrichEntries [OF ctx]
  have "stays S G (Tenant a sec) (secretOnly (handleCreateBoard S) r c)"
    using ctx unfolding secretOnly_def handleCreateBoard_def tenant_ctx_def Let_def
    by (cases sec) (auto intro!: stays_intros stays_created)
  moreover have "stays S G (Tenant a sec) (handleListBoards S r c)" unfolding handleListBoards_def c by (intro data_intros)
  moreover have "stays S G (Tenant a sec) (handleSubmit S r c)"
    unfolding handleSubmit_def submit_outcome_def Let_def c by (intro data_intros) (simp add: submit_record_def)
  moreover have "stays S G (Tenant a sec) (secretOnly (handleRemoveScore S) r c)"
    unfolding secretOnly_def handleRemoveScore_def Let_def c
    by (intro data_intros stays_resolveBoard sb; (simp add: removal_def)?)
  moreover have "stays S G (Tenant a sec) (handleRank S r c)"
    unfolding handleRank_def Let_def by (intro rb stays_intros stays_read ee) (auto intro!: ops_intros)
  moreover have "stays S G (Tenant a sec) (handleTop S r c)" unfolding handleTop_def by (intro rb we data_intros)
  moreover have "stays S G (Tenant a sec) (handlePage S r c)" unfolding handlePage_def by (intro rb we data_intros)
  moreover have "stays S G (Tenant a sec) (handleNeighbors S r c)" unfolding handleNeighbors_def by (intro rb we data_intros)
  moreover have "stays S G (Tenant a sec) (handleSegments S r c)"
    unfolding handleSegments_def c by (intro stays_resolveBoard sb data_intros) auto
  moreover have "stays S G (Tenant a sec) (handleCount S r c)" unfolding handleCount_def by (intro rb data_intros)
  moreover have "stays S G (Tenant a sec) (handleFriends S r c)" unfolding handleFriends_def by (intro rb we data_intros)
  moreover have "stays S G (Tenant a sec) (handleCreateUser S r c)"
    unfolding handleCreateUser_def create_player_def Let_def c by (intro data_intros)
  moreover have "stays S G (Tenant a sec) (handleLookupUser S r c)" unfolding handleLookupUser_def c by (intro data_intros)
  moreover have "stays S G (Tenant a sec) (handleGetUser S r c)" unfolding handleGetUser_def c by (intro data_intros)
  moreover have "stays S G (Tenant a sec) (handleRenameUser S r c)" unfolding handleRenameUser_def Let_def c by (intro data_intros)
  moreover have "stays S G (Tenant a sec) (handleDeleteUser S r c)"
    unfolding handleDeleteUser_def Let_def c
    by (intro stays_authorizePlayer stays_read [of "ts_ListBoards T i" for T i] stays_or_500 stays_tombstones stays_remove_from_boards stays_play stays_intros ops_intros;
        (metis sees_boardsD(2) [OF sb])?)
  ultimately show ?thesis using assms(1) unfolding data_routes_def by auto
qed

subsection \<open>Authentication\<close>

text \<open>
  A reply by the middleware moves the stores by lookups only, and the handler runs in a context that
  matches the caller.
\<close>

lemma may_then: "may S G p x y \<Longrightarrow> (may S G p)\<^sup>*\<^sup>* y z \<Longrightarrow> (may S G p)\<^sup>*\<^sup>* x z"
  by (rule converse_rtranclp_into_rtranclp)

lemma view_answer [simp]: "view (snd (writeErr n m w)) = view w" "view (snd (reply x w)) = view w"
  by (simp_all add: writeErr_def writeJSON_def reply_def)

lemma view_instrument [simp]: "view (snd (instrument l h r c w)) = view (snd (h r c w))"
  by (simp add: instrument_def view_def Let_def split: prod.splits option.splits)

lemma lookup_session: "UserFromSession (srv_accounts S) tok (wst w, wmail w) = (res, (s, e)) \<Longrightarrow> may S G p (view w) (view (w\<lparr>wst := s, wmail := e\<rparr>))"
  unfolding view_def by (simp, rule may.lookup [of "\<lambda>x. snd (UserFromSession (srv_accounts S) tok x)"]) (auto simp: lookups_def)

lemma lookup_app: "ts_GetApp (srv_store S) i (wst w) = (res, s) \<Longrightarrow> may S G p (view w) (view (w\<lparr>wst := s\<rparr>))"
  unfolding view_def by (simp, rule may.lookup [of "\<lambda>(s, e). (snd (ts_GetApp (srv_store S) i s), e)"]) (auto simp: lookups_def)

lemma lookup_key: "ts_AuthKey (srv_store S) key (wst w) = (res, s) \<Longrightarrow> may S G p (view w) (view (w\<lparr>wst := s\<rparr>))"
  unfolding view_def by (simp, rule may.lookup [of "\<lambda>(s, e). (snd (ts_AuthKey (srv_store S) key s), e)"]) (auto simp: lookups_def)

text \<open>What the session lookup leads to: no user, or the continuation with the user.\<close>

lemma userFromCookie_cases:
  obtains (refused) w1 where "\<forall>G p. (may S G p)\<^sup>*\<^sup>* (view w) (view w1)" "userFromCookie S r k w = (None, w1) \<or> userFromCookie S r k w = k None w1"
      "session_user S r w = None"
  | (user) u w1 where "\<forall>G p. (may S G p)\<^sup>*\<^sup>* (view w) (view w1)" "userFromCookie S r k w = k (Some u) w1" "wreg w1 = wreg w"
      "session_user S r w = (if isMutation (Method r) \<and> \<not> csrfOK r then None else Some (u, w1))"
proof (cases "Cookie r sessionCookie")
  case None
  then show ?thesis using refused [of w] by (simp add: userFromCookie_def session_user_def)
next
  case (Some tok)
  obtain res s e where m: "UserFromSession (srv_accounts S) tok (wst w, wmail w) = (res, (s, e))" by (metis prod.collapse)
  define w1 where "w1 = w\<lparr>wst := s, wmail := e\<rparr>"
  have l: "\<forall>G p. (may S G p)\<^sup>*\<^sup>* (view w) (view w1)" unfolding w1_def using lookup_session [OF m] by (blast intro: may_then)
  show ?thesis
  proof (cases res)
    case (Inl x)
    then have "userFromCookie S r k w = (None, w1) \<or> userFromCookie S r k w = k None w1" "session_user S r w = None"
      using Some m by (simp_all add: userFromCookie_def session_user_def acall_def w1_def Let_def)
    then show ?thesis using refused [of w1] l by blast
  next
    case (Inr u)
    then have "userFromCookie S r k w = k (Some u) w1" "session_user S r w = (if isMutation (Method r) \<and> \<not> csrfOK r then None else Some (u, w1))" "wreg w1 = wreg w"
      using Some m by (simp_all add: userFromCookie_def session_user_def acall_def w1_def crashed_def Let_def)
    then show ?thesis using user [of w1 u] l by blast
  qed
qed

text \<open>A refusal is an answer with one of the given codes, or a panic of a store.\<close>

definition refusal :: "int set \<Rightarrow> Response option \<Rightarrow> bool" where
  "refusal cs x \<longleftrightarrow> (case x of None \<Rightarrow> True | Some rsp \<Rightarrow> Status rsp \<in> cs)"

lemma refusal_None [simp]: "refusal cs None"
  by (simp add: refusal_def)

lemma refusal_answer: "n \<in> cs \<Longrightarrow> \<exists>x. writeErr n m w = (x, w) \<and> refusal cs x"
  by (simp add: refusal_def writeErr_def writeJSON_def reply_def resp_def)

lemma requireUser_cases:
  obtains (refused) x w1 where "requireUser S h r c w = (x, w1)" "refusal {401, 403} x" "\<forall>G p. (may S G p)\<^sup>*\<^sup>* (view w) (view w1)" "session_user S r w = None"
  | (user) u w1 where "requireUser S h r c w = h r (c\<lparr>ctx_user := Some u\<rparr>) w1" "\<forall>G p. (may S G p)\<^sup>*\<^sup>* (view w) (view w1)" "session_user S r w = Some (u, w1)"
proof -
  define k where "k = (\<lambda>u :: Account option. case u of None \<Rightarrow> writeErr 401 (Msg ''not authenticated'')
   | Some u \<Rightarrow> if isMutation (Method r) \<and> \<not> csrfOK r then writeErr 403 (Msg ''invalid csrf token'') else h r (c\<lparr>ctx_user := Some u\<rparr>))"
  have k: "requireUser S h r c w = userFromCookie S r k w" by (simp add: requireUser_def k_def)
  show ?thesis
  proof (cases rule: userFromCookie_cases [of S w r k])
    case (refused w1)
    moreover obtain x where "k None w1 = (x, w1)" "refusal {401, 403} x" using refusal_answer [of 401 "{401, 403}"] by (auto simp: k_def)
    ultimately show ?thesis using that(1) [of _ w1] k by auto
  next
    case (user u w1)
    show ?thesis
    proof (cases "isMutation (Method r) \<and> \<not> csrfOK r")
      case True
      then obtain x where "k (Some u) w1 = (x, w1)" "refusal {401, 403} x" using refusal_answer [of 403 "{401, 403}"] by (auto simp: k_def)
      then show ?thesis using that(1) [of x w1] user True k by simp
    next
      case False
      then show ?thesis using that(2) [of u w1] user k by (auto simp: k_def)
    qed
  qed
qed

lemma requireUser_confined:
  assumes "\<And>c w u. ctx_user c = Some u \<Longrightarrow> (may S G (Person u (owned S u (PathValue r ''id'') w)))\<^sup>*\<^sup>* (view w) (view (snd (h r c w)))"
  shows "(may S G (user_caller S r w))\<^sup>*\<^sup>* (view w) (view (snd (requireUser S h r c w)))"
proof (cases rule: requireUser_cases [of S h r c w])
  case (user u w1)
  then have "user_caller S r w = Person u (owned S u (PathValue r ''id'') w1)" by (simp add: user_caller_def)
  then show ?thesis using user(1,2) assms [of "c\<lparr>ctx_user := Some u\<rparr>" u w1] by (simp, meson rtranclp_trans)
qed simp

lemma requireApp_key_cases:
  assumes "bearerToken r \<noteq> []"
  obtains (refused) x w1 where "requireApp S h r c w = (x, w1)" "refusal {401} x" "\<forall>G p. (may S G p)\<^sup>*\<^sup>* (view w) (view w1)"
  | (tenant) a sc w1 where "requireApp S h r c w = h r ((WithApp a c)\<lparr>ctx_scope := Some sc\<rparr>) w1" "\<forall>G p. (may S G p)\<^sup>*\<^sup>* (view w) (view w1)"
      "data_caller S r w = Tenant a (sc = ScopeSecret)" "wreg w1 = wreg w"
proof -
  obtain res s where m: "ts_AuthKey (srv_store S) (bearerToken r) (wst w) = (res, s)" by fastforce
  define w1 where "w1 = w\<lparr>wst := s\<rparr>"
  have l: "\<forall>G p. (may S G p)\<^sup>*\<^sup>* (view w) (view w1)" unfolding w1_def using lookup_key [OF m] by (blast intro: may_then)
  have w1: "wreg w1 = wreg w" by (simp add: w1_def)
  show ?thesis
  proof (cases res)
    case (Inl e)
    then have "requireApp S h r c w \<in> {(None, w1), writeErr 401 (Msg ''invalid api key'') w1}"
      using assms m by (simp add: requireApp_def call_def Let_def w1_def [symmetric])
    then obtain x where "requireApp S h r c w = (x, w1)" "refusal {401} x"
      using refusal_answer [of 401 "{401}"] by (metis insertE refusal_None singletonD singletonI)
    then show ?thesis using refused l by blast
  next
    case (Inr x)
    then have "requireApp S h r c w = h r ((WithApp (fst x) c)\<lparr>ctx_scope := Some (snd x)\<rparr>) w1" "data_caller S r w = Tenant (fst x) (snd x = ScopeSecret)"
      using assms m by (simp_all add: requireApp_def call_def Let_def w1_def [symmetric] crashed_def data_caller_def case_prod_beta)
    then show ?thesis using tenant l w1 by blast
  qed
qed

lemma requireApp_session_cases:
  assumes "bearerToken r = []"
  obtains (refused) x w1 where "requireApp S h r c w = (x, w1)" "refusal (if isMutation (Method r) \<and> \<not> csrfOK r then {401, 403} else {400, 401, 403}) x"
      "\<forall>G p. (may S G p)\<^sup>*\<^sup>* (view w) (view w1)" "data_caller S r w = Nobody"
  | (tenant) a w1 where "requireApp S h r c w = h r (WithApp a c) w1" "\<forall>G p. (may S G p)\<^sup>*\<^sup>* (view w) (view w1)"
      "data_caller S r w = Tenant a True" "wreg w1 = wreg w" "\<not> (isMutation (Method r) \<and> \<not> csrfOK r)"
proof -
  define k where "k = (\<lambda>u :: Account option. case u of None \<Rightarrow> writeErr 401 (Msg ''authentication required'')
    | Some u \<Rightarrow> if isMutation (Method r) \<and> \<not> csrfOK r then writeErr 403 (Msg ''invalid csrf token'')
        else let appID = Header r ''X-App-Id'' in
          if appID = [] then writeErr 400 (Msg ''X-App-Id header required for session auth'')
          else call (ts_GetApp (srv_store S) appID) (\<lambda>res. case res of
              Inl _ \<Rightarrow> writeErr 403 (Msg ''app not found or not owned'')
            | Inr app \<Rightarrow> if OwnerUserID app \<noteq> AcctID u then writeErr 403 (Msg ''app not found or not owned'') else h r (WithApp app c)))"
  have k: "requireApp S h r c w = userFromCookie S r k w" using assms by (simp add: requireApp_def k_def)
  let ?cs = "if isMutation (Method r) \<and> \<not> csrfOK r then {401, 403} else {400, 401, 403} :: int set"
  have cs: "401 \<in> ?cs" "403 \<in> ?cs" by auto
  show ?thesis
  proof (cases rule: userFromCookie_cases [of S w r k])
    case w1: (refused w1)
    moreover obtain x where "k None w1 = (x, w1)" "refusal ?cs x" using refusal_answer [OF cs(1)] by (auto simp: k_def)
    moreover have "data_caller S r w = Nobody" using w1(3) assms by (simp add: data_caller_def)
    ultimately show ?thesis using refused [of _ w1] k by auto
  next
    case (user u w1)
    let ?i = "Header r ''X-App-Id''"
    obtain res s where m: "ts_GetApp (srv_store S) ?i (wst w1) = (res, s)" by fastforce
    define w2 where "w2 = w1\<lparr>wst := s\<rparr>"
    have l: "\<forall>G p. (may S G p)\<^sup>*\<^sup>* (view w) (view w2)"
      unfolding w2_def using lookup_app [OF m] user(1) by (blast intro: rtranclp.rtrancl_into_rtrancl)
    consider (csrf) "isMutation (Method r) \<and> \<not> csrfOK r" | (noid) "\<not> (isMutation (Method r) \<and> \<not> csrfOK r)" "?i = []"
      | (other) "\<not> (isMutation (Method r) \<and> \<not> csrfOK r)" "?i \<noteq> []" "\<And>a. res = Inr a \<Longrightarrow> OwnerUserID a \<noteq> AcctID u"
      | (own) a where "\<not> (isMutation (Method r) \<and> \<not> csrfOK r)" "?i \<noteq> []" "res = Inr a" "OwnerUserID a = AcctID u" by blast
    then show ?thesis
    proof cases
      case csrf
      then obtain x where "k (Some u) w1 = (x, w1)" "refusal ?cs x" using refusal_answer [OF cs(2)] by (auto simp: k_def)
      moreover have "data_caller S r w = Nobody" using user(4) csrf assms by (simp add: data_caller_def)
      ultimately show ?thesis using refused [of x w1] user(1,2) k by simp
    next
      case noid
      then obtain x where "k (Some u) w1 = (x, w1)" "refusal ?cs x" using refusal_answer [of 400 ?cs "Msg ''X-App-Id header required for session auth''" w1] by (auto simp: k_def)
      moreover have "data_caller S r w = Nobody" using user(4) noid assms by (auto simp: data_caller_def)
      ultimately show ?thesis using refused [of x w1] user(1,2) k by simp
    next
      case other
      then have "k (Some u) w1 \<in> {(None, w2), writeErr 403 (Msg ''app not found or not owned'') w2}"
        by (auto simp: k_def call_def m Let_def w2_def [symmetric] split: sum.splits)
      then obtain x where "k (Some u) w1 = (x, w2)" "refusal ?cs x"
        using refusal_answer [OF cs(2)] by (metis insertCI insertE refusal_None singletonD)
      moreover have "data_caller S r w = Nobody" using other assms user(4) m by (auto simp: data_caller_def owned_def split: sum.splits)
      ultimately show ?thesis using refused [of x w2] user(2) l k by simp
    next
      case own
      then have "k (Some u) w1 = h r (WithApp a c) w2" by (auto simp: k_def call_def m Let_def w2_def [symmetric] crashed_def)
      moreover have "data_caller S r w = Tenant a True" using own assms user(4) m by (auto simp: data_caller_def owned_def)
      ultimately show ?thesis using tenant [of a w2] user(2,3) l own(1) k by (simp add: w2_def)
    qed
  qed
qed

text \<open>Both ways together: the handler runs in a context of the caller, or not at all.\<close>

lemma requireApp_cases:
  assumes "ctx_scope c = None"
  obtains (refused) x w1 where "requireApp S h r c w = (x, w1)" "refusal {400, 401, 403} x" "\<forall>G p. (may S G p)\<^sup>*\<^sup>* (view w) (view w1)"
  | (tenant) c' a sec w1 where "requireApp S h r c w = h r c' w1" "tenant_ctx c' a sec" "data_caller S r w = Tenant a sec" "wreg w1 = wreg w"
      "\<forall>G p. (may S G p)\<^sup>*\<^sup>* (view w) (view w1)"
proof (cases "bearerToken r = []")
  case True
  then show ?thesis
  proof (cases rule: requireApp_session_cases [of r S h c w])
    case w1: (refused x w1)
    then show ?thesis using refused [of x w1] by (auto simp: refusal_def split: option.splits if_splits)
  next
    case t: (tenant a w1)
    have "tenant_ctx (WithApp a c) a True" using assms by (simp add: tenant_ctx_def AppFromContext_def WithApp_def keyScopeFrom_def)
    then show ?thesis using tenant t by blast
  qed
next
  case False
  then show ?thesis
  proof (cases rule: requireApp_key_cases [of r S h c w])
    case w1: (refused x w1)
    then show ?thesis using refused [of x w1] by (auto simp: refusal_def split: option.splits)
  next
    case t: (tenant a sc w1)
    have "tenant_ctx ((WithApp a c)\<lparr>ctx_scope := Some sc\<rparr>) a (sc = ScopeSecret)" by (simp add: tenant_ctx_def AppFromContext_def WithApp_def keyScopeFrom_def)
    then show ?thesis using tenant t by blast
  qed
qed

lemma requireApp_confined:
  assumes h: "\<And>c a sec w. tenant_ctx c a sec \<Longrightarrow> knows G (Tenant a sec) (wreg w) \<Longrightarrow> (may S G (Tenant a sec))\<^sup>*\<^sup>* (view w) (view (snd (h r c w)))"
    and g: "\<And>p. knows G p (wreg w)" and c: "ctx_scope c = None"
  shows "(may S G (data_caller S r w))\<^sup>*\<^sup>* (view w) (view (snd (requireApp S h r c w)))"
  using c
proof (cases rule: requireApp_cases [of c S h r w])
  case (tenant c' a sec w1)
  then show ?thesis using h [OF tenant(2), of w1] g by (simp, meson rtranclp_trans)
qed simp

subsection \<open>Requests\<close>

text \<open>Only the patterns decide.\<close>

lemma on_routes_patterns: "on_routes rs r = find (\<lambda>pat. method_ok (pattern_method pat) (Method r) \<and> match_path pat r \<noteq> None) (map fst rs)"
  by (induction rs) (auto simp: on_routes_def)

lemma find_append: "find P (xs @ ys) = (case find P xs of None \<Rightarrow> find P ys | Some x \<Rightarrow> Some x)"
  by (induction xs) auto

lemma find_map: "(\<And>x. P (f x) = P' x) \<Longrightarrow> find P (map f xs) = map_option f (find P' xs)"
  by (induction xs) auto

lemma find_in: "find P xs = Some x \<Longrightarrow> x \<in> set xs"
  by (induction xs) (auto split: if_splits)

text \<open>Where a request goes, plane by plane.\<close>

lemma at_route_sel [simp]: "Method (at_route pat r) = Method r" "Header (at_route pat r) = Header r" "Cookie (at_route pat r) = Cookie r"
  by (simp_all add: at_route_def with_values_def)

lemma at_route_auth [simp]: "csrfOK (at_route pat r) = csrfOK r" "bearerToken (at_route pat r) = bearerToken r"
  unfolding csrfOK_def bearerToken_def at_route_sel by (rule refl)+

lemma mux_cases:
  assumes "\<not> (method_ok ''GET'' (Method r) \<and> match_path ''GET /metrics'' r \<noteq> None)"
  obtains (openp) pat h where "(pat, h) \<in> set (open_routes S)" "mux S r = instrument (routeLabel pat) h (at_route pat r) no_ctx" "on_routes (open_routes S) r = Some pat"
  | (userp) pat h where "(pat, h) \<in> set (user_routes S)" "mux S r = instrument (routeLabel pat) (requireUser S h) (at_route pat r) no_ctx"
      "on_routes (open_routes S) r = None" "on_routes (user_routes S) r = Some pat"
  | (datap) pat h where "(pat, h) \<in> set (data_routes S)" "mux S r = instrument (routeLabel pat) (requireApp S h) (at_route pat r) no_ctx"
      "on_routes (open_routes S) r = None" "on_routes (user_routes S) r = None" "on_routes (data_routes S) r = Some pat"
  | (none) "\<And>w. view (snd (mux S r w)) = view w" "on_routes (open_routes S) r = None" "on_routes (user_routes S) r = None" "on_routes (data_routes S) r = None"
proof -
  define Q where "Q = (\<lambda>x :: string \<times> ('a, 'b) handler. method_ok (pattern_method (fst x)) (Method r) \<and> match_path (fst x) r \<noteq> None)"
  have Q: "find (\<lambda>(pat, h). method_ok (pattern_method pat) (Method r) \<and> match_path pat r \<noteq> None) = find Q"
    unfolding Q_def by (simp add: case_prod_beta')
  have "pattern_method ''GET /metrics'' = ''GET''" by code_simp
  then have "\<not> Q (''GET /metrics'', metrics_page S)" using assms by (simp add: Q_def)
  moreover have fm: "find Q (map (\<lambda>(p, h). openPlane p h) xs) = map_option (\<lambda>(p, h). openPlane p h) (find Q xs)"
      "find Q (map (\<lambda>(p, h). userPlane S p h) xs) = map_option (\<lambda>(p, h). userPlane S p h) (find Q xs)"
      "find Q (map (\<lambda>(p, h). dataPlane S p h) xs) = map_option (\<lambda>(p, h). dataPlane S p h) (find Q xs)" for xs
    by (rule find_map; simp add: Q_def case_prod_beta openPlane_def userPlane_def dataPlane_def)+
  ultimately have f: "find Q (all_routes S) = (case find Q (open_routes S) of Some (p, h) \<Rightarrow> Some (openPlane p h)
      | None \<Rightarrow> (case find Q (user_routes S) of Some (p, h) \<Rightarrow> Some (userPlane S p h)
      | None \<Rightarrow> map_option (\<lambda>(p, h). dataPlane S p h) (find Q (data_routes S))))"
    unfolding all_routes_def routes_def
    by (simp add: find_append fm case_prod_beta split: option.splits)
  have nf: "view (snd (mux S r w)) = view w" if "find Q (all_routes S) = None" for w
    unfolding mux_def Q that by (simp add: staticFileHandler_def Let_def)
  show ?thesis
  proof (cases "find Q (open_routes S)")
    case (Some x)
    then show ?thesis using openp [of "fst x" "snd x"] find_in [OF Some] f
      unfolding mux_def Q on_routes_def by (simp add: case_prod_beta openPlane_def at_route_def)
  next
    case o: None
    show ?thesis
    proof (cases "find Q (user_routes S)")
      case (Some x)
      then show ?thesis using userp [of "fst x" "snd x"] find_in [OF Some] f o
        unfolding mux_def Q on_routes_def by (simp add: case_prod_beta userPlane_def at_route_def)
    next
      case u: None
      show ?thesis
      proof (cases "find Q (data_routes S)")
        case (Some x)
        then show ?thesis using datap [of "fst x" "snd x"] find_in [OF Some] f o u
          unfolding mux_def Q on_routes_def by (simp add: case_prod_beta dataPlane_def at_route_def)
      next
        case None
        then show ?thesis using none nf f o u unfolding on_routes_def Q by simp
      qed
    qed
  qed
qed

lemma knows_boards_of: "knows (boards_of S g) p g"
  by (auto simp: knows_def boards_of_def split: principal.splits)

lemma sees_boards_of: "sees_boards S (boards_of S g) i"
  by (auto simp: sees_boards_def boards_of_def)

text \<open>
  (C10) A request acts only with the rights of its caller. Whatever the request, the stores, the log,
  the engine and the registry change only by operations that the role of its caller may trigger: on
  the routes open to all, the account flows; with an API key, the reads and the player operations of
  the key's app, and the definition of its boards only if the key is secret; with a session (and, if
  the method changes something, a matching CSRF token), the person's own apps, or the data of an app
  that she owns; and with neither, nothing but the lookups that found no caller.
\<close>

theorem requests_confined:
  "(may S (boards_of S (wreg w)) (caller S r w))\<^sup>*\<^sup>* (view w) (view (snd (Handler S r w)))"
proof -
  let ?G = "boards_of S (wreg w)"
  have cors: "view (snd (Handler S r w)) \<in> {view w, view (snd (mux S r w))}"
    unfolding Handler_def by (simp add: withCORS_def add_headers_def Let_def case_prod_beta)
  have "(may S ?G (caller S r w))\<^sup>*\<^sup>* (view w) (view (snd (mux S r w)))"
  proof (cases "method_ok ''GET'' (Method r) \<and> match_path ''GET /metrics'' r \<noteq> None")
    case True
    have "pattern_method ''GET /metrics'' = ''GET''" by code_simp
    then show ?thesis using True by (simp add: mux_def all_routes_def metrics_page_def)
  next
    case False
    then show ?thesis
    proof (cases rule: mux_cases [of r S])
      case (openp pat h)
      then show ?thesis using open_stays [OF openp(1), of ?G "at_route pat r" no_ctx] knows_boards_of [of S "wreg w" Anyone] by (simp add: caller_def stays_def)
    next
      case (userp pat h)
      then show ?thesis using requireUser_confined [of S ?G "at_route pat r" h, OF user_stays [OF userp(1)]] by (simp add: caller_def)
    next
      case (datap pat h)
      have "(may S ?G (Tenant a sec))\<^sup>*\<^sup>* (view w') (view (snd (h (at_route pat r) c w')))"
        if "tenant_ctx c a sec" "knows ?G (Tenant a sec) (wreg w')" for c a sec w'
        using data_stays [OF datap(1) sees_boards_of that(1)] that(2) by (simp add: stays_def)
      from requireApp_confined [of ?G S h "at_route pat r" w no_ctx, OF this knows_boards_of] datap show ?thesis by (simp add: caller_def no_ctx_def)
    qed simp
  qed
  then show ?thesis using cors by auto
qed

end
