(* ===== verification/Api_Memory.thy ===== *)
theory Api_Memory
  imports Api_Router Accounts_Properties
begin

text \<open>
  The server on the in-memory stores and log and on the executable Redis server, as the tests of the
  repository run it: one state with a part for each of them.
\<close>

record sys =
  sy_store :: TenancyMem
  sy_users :: UsersMem
  sy_players :: PlayersMem
  sy_accounts :: AcctMem
  sy_log :: MemLog
  sy_dedup :: MemDeduper
  sy_redis :: mem

definition part :: "('s \<Rightarrow> 't) \<Rightarrow> ('t \<Rightarrow> 's \<Rightarrow> 's) \<Rightarrow> ('t, 'a) io \<Rightarrow> ('s, 'a) io" where
  "part sel upd m s = (case m (sel s) of (res, t) \<Rightarrow> (res, upd t s))"

abbreviation "on_store \<equiv> part sy_store (\<lambda>t s. s\<lparr>sy_store := t\<rparr>)"
abbreviation "on_users \<equiv> part sy_users (\<lambda>t s. s\<lparr>sy_users := t\<rparr>)"
abbreviation "on_players \<equiv> part sy_players (\<lambda>t s. s\<lparr>sy_players := t\<rparr>)"
abbreviation "on_accounts \<equiv> part sy_accounts (\<lambda>t s. s\<lparr>sy_accounts := t\<rparr>)"
abbreviation "on_log \<equiv> part sy_log (\<lambda>t s. s\<lparr>sy_log := t\<rparr>)"
abbreviation "on_dedup \<equiv> part sy_dedup (\<lambda>t s. s\<lparr>sy_dedup := t\<rparr>)"
abbreviation "on_redis \<equiv> part sy_redis (\<lambda>t s. s\<lparr>sy_redis := t\<rparr>)"

definition sys_store :: "sys tenancy_Store" where
  "sys_store = \<lparr>ts_CreateApp = (\<lambda>own name ra rk ri now. on_store (tm_CreateApp own name ra rk ri now)), ts_GetApp = (\<lambda>i. on_store (tm_GetApp i)),
     ts_ListApps = (\<lambda>own. on_store (tm_ListApps own)), ts_AppByKey = (\<lambda>k. on_store (tm_AppByKey k)),
     ts_IssueKey = (\<lambda>i sc rk ri now. on_store (tm_IssueKey i sc rk ri now)), ts_AuthKey = (\<lambda>k. on_store (tm_AuthKey k)),
     ts_ListKeys = (\<lambda>i. on_store (tm_ListKeys i)), ts_RevokeKey = (\<lambda>i k. on_store (tm_RevokeKey i k)), ts_DeleteApp = (\<lambda>i. on_store (tm_DeleteApp i)),
     ts_SetRequireSigning = (\<lambda>i b. on_store (tm_SetRequireSigning i b)), ts_SetRequirePlayerTokens = (\<lambda>i b. on_store (tm_SetRequirePlayerTokens i b)),
     ts_RotateSigningKey = (\<lambda>i. on_store (tm_RotateSigningKey i)), ts_UpsertBoard = (\<lambda>lb. on_store (tm_UpsertBoard lb)),
     ts_GetBoard = (\<lambda>i b. on_store (tm_GetBoard i b)), ts_ListBoards = (\<lambda>i. on_store (tm_ListBoards i)), ts_AllBoards = on_store tm_AllBoards\<rparr>"

definition sys_users :: "sys users_Store" where
  "sys_users = (let U = users_mem ascii_low in
     \<lparr>us_Create = (\<lambda>i n m rnd now. on_users (us_Create U i n m rnd now)), us_Get = (\<lambda>i m. on_users (us_Get U i m)),
      us_GetByNickname = (\<lambda>i n. on_users (us_GetByNickname U i n)), us_Rename = (\<lambda>i m n nows. on_users (us_Rename U i m n nows)),
      us_Nicknames = (\<lambda>i ms. on_users (us_Nicknames U i ms)), us_Delete = (\<lambda>i m. on_users (us_Delete U i m)), us_Count = (\<lambda>i. on_users (us_Count U i))\<rparr>)"

definition sys_players :: "sys players_Store" where
  "sys_players = \<lparr>ps_Authorize = (\<lambda>i m t. on_players (mem_Authorize i m t)), ps_Bindings = (\<lambda>i. on_players (mem_Bindings i))\<rparr>"

definition sys_engine :: "sys RankingEngine" where
  "sys_engine = (let E = redis_engine mem_redis 100 in
     \<lparr>e_Submit = (\<lambda>b m x t. on_redis (e_Submit E b m x t)), e_SubmitBatch = (\<lambda>ops. on_redis (e_SubmitBatch E ops)),
      e_GetRank = (\<lambda>b m. on_redis (e_GetRank E b m)), e_GetApproxRank = (\<lambda>b m. on_redis (e_GetApproxRank E b m)),
      e_TopN = (\<lambda>b n. on_redis (e_TopN E b n)), e_Page = (\<lambda>b x n. on_redis (e_Page E b x n)), e_Neighbors = (\<lambda>b m k. on_redis (e_Neighbors E b m k)),
      e_FriendRank = (\<lambda>b ms. on_redis (e_FriendRank E b ms)), e_Count = (\<lambda>b. on_redis (e_Count E b)), e_Remove = (\<lambda>b m. on_redis (e_Remove E b m)),
      e_RemoveFromAll = (\<lambda>lb m. on_redis (e_RemoveFromAll E lb m)), e_Segments = (\<lambda>lb. on_redis (e_Segments E lb)), e_Reset = (\<lambda>b. on_redis (e_Reset E b))\<rparr>)"

definition sys_log :: "sys Log" where
  "sys_log = \<lparr>Append = (\<lambda>rec. on_log (mem_Append rec)), Partitions = mem_Partitions, ReadPartition = (\<lambda>p after k. on_log (mem_ReadPartition p after k))\<rparr>"

definition sys_dedup :: "sys Deduper" where
  "sys_dedup = \<lparr>SeenOrMark = (\<lambda>k d. on_dedup (md_SeenOrMark k d)), Unmark = (\<lambda>k. on_dedup (md_Unmark k))\<rparr>"

definition sys_accounts :: "(sys, Message list) Service" where
  "sys_accounts = NewService
     \<lparr>CreateUser = (\<lambda>u. on_accounts (am_CreateUser u)), GetByEmail = (\<lambda>em. on_accounts (am_GetByEmail em)), GetByID = (\<lambda>i. on_accounts (am_GetByID i)), UpdateUser = (\<lambda>u. on_accounts (am_Update u))\<rparr>
     \<lparr>SessCreate = (\<lambda>u d r. on_accounts (am_Create u d r)), SessUserID = (\<lambda>t. on_accounts (am_UserID t)), SessDelete = (\<lambda>t. on_accounts (am_Delete t)), SessDeleteAll = (\<lambda>u. on_accounts (am_DeleteAllForUser u))\<rparr>
     \<lparr>Issue = (\<lambda>p u d r. on_accounts (am_Issue p u d r)), Consume = (\<lambda>p t. on_accounts (am_Consume p t))\<rparr> (outbox (\<lambda>_. None)) toy_cfg"

definition sys_server :: "(sys, Message list) Server" where
  "sys_server = NewServer sys_engine (NewIngestor sys_log (\<lambda>_ _. None) (Some sys_dedup)) sys_store sys_accounts False sys_users sys_players
     toy_bcrypt ascii_low (\<lambda>_. False) (\<lambda>_. resp 200 NoBody)"

definition new_sys :: sys where
  "new_sys = \<lparr>sy_store = NewTenancyMem, sy_users = NewUsersMem, sy_players = NewPlayersMem, sy_accounts = NewAcctMem, sy_log = [], sy_dedup = {}, sy_redis = []\<rparr>"

definition new_world :: "(sys, Message list) World" where
  "new_world = \<lparr>wst = new_sys, wmail = [], wreg = NewStaticRegistry, submitsTotal = (\<lambda>_. 0), httpRequests = (\<lambda>_. 0), httpDuration = [], consumerApplied = 0\<rparr>"

text \<open>A request with given headers, cookies and body; its random bytes are a letter each.\<close>

definition request :: "string \<Rightarrow> string \<Rightarrow> (string \<times> string) list \<Rightarrow> (string \<times> string) list \<Rightarrow> (string \<times> string) list \<Rightarrow> jval option \<Rightarrow> Request" where
  "request m p hs cs qs body = \<lparr>Method = m, Path = p, PathSegs = segments p, Header = (\<lambda>n. case map_of hs n of Some v \<Rightarrow> v | None \<Rightarrow> []), Cookie = map_of cs,
     QueryGet = (\<lambda>n. case map_of qs n of Some v \<Rightarrow> v | None \<Rightarrow> []), PathValue = (\<lambda>_. []), ContentLength = (if body = None then 0 else 1), Body = body,
     in_now = (\<lambda>_. epoch2020), in_rand = (\<lambda>i. Inr [char_of (0x70 + i)]), in_buf = ''c'', in_salt = [], in_start = 0, in_end = second\<rparr>"

end
