(* ===== verification/Api_Properties.thy ===== *)
theory Api_Properties
  imports Api_Confinement Api_Memory Engine_Properties
begin

text \<open>
  What the HTTP layer promises beyond confinement: which submissions are accepted, that a cookie
  alone changes nothing, that credentials are never shared with arbitrary origins, and that a server
  accepts submissions only for the boards in its own registry.
\<close>

subsection \<open>Accepted submissions\<close>

lemma answers [simp]:
  "writeErr n m w = (Some rsp, w') \<longleftrightarrow> rsp = (resp n (Fields [(''error'', FMsg m)]))\<lparr>RHeaders := [(''Content-Type'', ''application/json'')]\<rparr> \<and> w' = w"
  "writeJSON n v w = (Some rsp, w') \<longleftrightarrow> rsp = (resp n v)\<lparr>RHeaders := [(''Content-Type'', ''application/json'')]\<rparr> \<and> w' = w"
  by (auto simp: writeErr_def writeJSON_def reply_def)

lemma call_SomeD:
  assumes "call m k w = (Some rsp, w')"
  obtains res s where "m (wst w) = (res, s)" "k res (w\<lparr>wst := s\<rparr>) = (Some rsp, w')"
  using assms by (auto simp: call_def Let_def split: prod.splits if_splits)

text \<open>The proof that the caller may write as a member.\<close>

definition player_proof :: "('s, 'e) Server \<Rightarrow> Request \<Rightarrow> TenantApp \<Rightarrow> bool \<Rightarrow> string \<Rightarrow> 's \<Rightarrow> 's \<Rightarrow> bool" where
  "player_proof S r a sec member s s' =
     (let token = TrimSpace (Header r ''X-Player-Token'') in
      if token = [] then (sec \<or> \<not> RequirePlayerTokens a) \<and> s' = s
      else ps_Authorize (srv_players S) (AppID a) member token s = (Inr (), s'))"

lemma authorizePlayer_passes:
  assumes "authorizePlayer S r c a member A w = (Some rsp, w')" "Status rsp \<notin> {400, 401, 403, 500}" "tenant_ctx c a sec"
  obtains s where "player_proof S r a sec member (wst w) s" "A (w\<lparr>wst := s\<rparr>) = (Some rsp, w')"
proof (cases "TrimSpace (Header r ''X-Player-Token'') = []")
  case True
  then show ?thesis using assms that [of "wst w"]
    by (auto simp: authorizePlayer_def Let_def player_proof_def tenant_ctx_def resp_def split: if_splits)
next
  case False
  then have "call (ps_Authorize (srv_players S) (AppID a) member (TrimSpace (Header r ''X-Player-Token''))) (\<lambda>res. case res of Inr _ \<Rightarrow> A
      | Inl e \<Rightarrow> if e = ErrInvalidToken then writeErr 400 (Msg ''invalid_player_token'')
          else if e = ErrTokenMismatch then writeErr 403 (Msg ''player_token_mismatch'') else writeErr 500 (ErrText e)) w = (Some rsp, w')"
    using assms(1) by (simp add: authorizePlayer_def)
  then obtain res s where m: "ps_Authorize (srv_players S) (AppID a) member (TrimSpace (Header r ''X-Player-Token'')) (wst w) = (res, s)"
    and k: "(case res of Inr _ \<Rightarrow> A | Inl e \<Rightarrow> if e = ErrInvalidToken then writeErr 400 (Msg ''invalid_player_token'')
          else if e = ErrTokenMismatch then writeErr 403 (Msg ''player_token_mismatch'') else writeErr 500 (ErrText e)) (w\<lparr>wst := s\<rparr>) = (Some rsp, w')"
    by (rule call_SomeD)
  then show ?thesis using that [of s] False assms(2) by (cases res) (auto simp: player_proof_def resp_def split: if_splits)
qed

lemma signing_check_passes:
  "signing_check S r a board req = None \<longleftrightarrow> (RequireSigning a \<longrightarrow> signingEnabled S \<and>
     Verify (NewVerifier (DeriveAppSecret (signingMaster S) (AppID a) (SigningKeyVersion a)) (signingSkew S)) (sr_Sig req) (sr_TS req) (in_now r 0)
       (AppID a) board (sr_Member req) (sr_Score req) (sr_Nonce req) = Inr ())"
  by (auto simp: signing_check_def Let_def split: sum.splits)

text \<open>How a submission comes to be accepted, from the lookup of its caller to the log.\<close>

lemma accepted_submission:
  assumes "requireApp S (handleSubmit S) r no_ctx w = (Some rsp, w')" "Status rsp = 202"
  obtains a sec req s1 e1 g1 s2 where "data_caller S r w = Tenant a sec" "Decode submit_fields r zero_submit = (req, True)" "sr_Member req \<noteq> []"
    "\<forall>G p. (may S G p)\<^sup>*\<^sup>* (view w) (s1, e1, g1)" "player_proof S r a sec (sr_Member req) s1 s2"
    "signing_check S r a (PathValue r ''board'') req = None"
    "ing_Submit (ing_at S (wreg w)) (in_now r 1) (submit_record a (PathValue r ''board'') req) s2 = (Inr True, wst w')"
proof -
  have "ctx_scope no_ctx = None" by (simp add: no_ctx_def)
  then show ?thesis
  proof (cases rule: requireApp_cases [of no_ctx S "handleSubmit S" r w])
    case (refused x w1)
    then have "refusal {400, 401, 403} (Some rsp)" using assms(1) by simp
    then show ?thesis using assms(2) by (simp add: refusal_def)
  next
    case (tenant c a sec w1)
    have c: "AppFromContext c = a" using tenant(2) by (simp add: tenant_ctx_def)
    obtain req ok where d: "Decode submit_fields r zero_submit = (req, ok)" by fastforce
    have h: "handleSubmit S r c w1 = (Some rsp, w')" using assms(1) tenant(1) by simp
    have ok: "ok" "sr_Member req \<noteq> []" using h assms(2) by (auto simp: handleSubmit_def Let_def d resp_def split: if_splits)
    let ?i = "\<lambda>i. ing_Submit i (in_now r 1) (submit_record a (PathValue r ''board'') req)"
    define A where "A = (case signing_check S r a (PathValue r ''board'') req of
        Some (n, msg) \<Rightarrow> submits_inc ''rejected'' (writeErr n msg) | None \<Rightarrow> ing_call S ?i submit_outcome)"
    have "authorizePlayer S r c a (sr_Member req) A w1 = (Some rsp, w')"
      using h ok unfolding A_def by (simp add: handleSubmit_def Let_def d c)
    moreover have "Status rsp \<notin> {400, 401, 403, 500}" using assms(2) by simp
    ultimately obtain s where p: "player_proof S r a sec (sr_Member req) (wst w1) s" and A: "A (w1\<lparr>wst := s\<rparr>) = (Some rsp, w')"
      using authorizePlayer_passes tenant(2) by metis
    have sg: "signing_check S r a (PathValue r ''board'') req = None"
      using A assms(2) by (auto simp: A_def submits_inc_def resp_def signing_check_def Let_def split: option.splits if_splits sum.splits)
    have "ing_call S ?i submit_outcome (w1\<lparr>wst := s\<rparr>) = (Some rsp, w')" using A sg by (simp add: A_def)
    then obtain res s' where m: "?i (ing_at S (wreg w)) s = (res, s')" and k: "submit_outcome res (w1\<lparr>wst := s'\<rparr>) = (Some rsp, w')"
      unfolding ing_call_def by (elim call_SomeD) (simp add: tenant(4))
    have "res = Inr True \<and> wst w' = s'" using k assms(2) by (cases res) (auto simp: submit_outcome_def submits_inc_def resp_def split: if_splits)
    then have "?i (ing_at S (wreg w)) s = (Inr True, wst w')" using m by simp
    moreover have "Decode submit_fields r zero_submit = (req, True)" using d ok(1) by simp
    moreover have "\<forall>G p. (may S G p)\<^sup>*\<^sup>* (view w) (wst w1, wmail w1, wreg w1)" using tenant(5) by (simp add: view_def)
    ultimately show ?thesis using that tenant(3) ok(2) p sg by blast
  qed
qed

text \<open>
  (C11) A submission is accepted only with proof. If the endpoint answers 202, the caller is a tenant
  (by key or by the session of the app's owner), the body is a submission for a member, the caller
  proved to be that player (by a token bound to it, or without one if it has a secret key or the app
  does not ask for tokens), the signature is valid if the app asks for signatures, and what the log
  accepted is this submission under the app of the caller, whatever app the body may name.
\<close>

theorem submission_authorised:
  assumes "requireApp S (handleSubmit S) r no_ctx w = (Some rsp, w')" "Status rsp = 202"
  shows "\<exists>a sec req s1 s2. data_caller S r w = Tenant a sec \<and> Decode submit_fields r zero_submit = (req, True) \<and> sr_Member req \<noteq> [] \<and>
    player_proof S r a sec (sr_Member req) s1 s2 \<and>
    (RequireSigning a \<longrightarrow> signingEnabled S \<and>
       Verify (NewVerifier (DeriveAppSecret (signingMaster S) (AppID a) (SigningKeyVersion a)) (signingSkew S)) (sr_Sig req) (sr_TS req) (in_now r 0)
         (AppID a) (PathValue r ''board'') (sr_Member req) (sr_Score req) (sr_Nonce req) = Inr ()) \<and>
    ing_Submit (ing_at S (wreg w)) (in_now r 1)
      \<lparr>ID = [], RApp = AppID a, RBoard = PathValue r ''board'', RMember = sr_Member req, RScore = sr_Score req, RTime = sr_Time req,
       RSegments = sr_Segments req, Idem = sr_Idem req, Op = OpSubmit\<rparr> s2 = (Inr True, wst w')"
  using accepted_submission [OF assms] unfolding signing_check_passes submit_record_def by metis

text \<open>A person with an app and a board; the board is in the store and, if \<open>warm\<close>, in the registry.\<close>

definition demo_app :: TenantApp where
  "demo_app = \<lparr>AppID = ''app1'', AppName = ''g'', OwnerUserID = ''usr_75'', AppCreatedAt = 0, RequireSigning = False, RequirePlayerTokens = False, SigningKeyVersion = 1\<rparr>"

definition plain_board :: LogicalBoard where
  "plain_board = \<lparr>LApp = ''app1'', LBoard = ''kills'', LConfig = board_config zero_createBoard, Windows = [\<lparr>Kind = ''all'', CustomID = []\<rparr>]\<rparr>"

definition demo_world :: "bool \<Rightarrow> (sys, Message list) World" where
  "demo_world warm = new_world\<lparr>wst := new_sys\<lparr>
      sy_store := NewTenancyMem\<lparr>tm_apps := [(''app1'', demo_app)], tm_boards := [(''app1'', [(''kills'', plain_board)])]\<rparr>,
      sy_accounts := NewAcctMem\<lparr>am_users := [''usr_75'' \<mapsto> toy_user True ''password''], am_sessions := [''73'' \<mapsto> ''usr_75'']\<rparr>\<rparr>,
    wreg := (if warm then Register plain_board NewStaticRegistry else NewStaticRegistry)\<rparr>"

definition demo_submission :: "string \<Rightarrow> Request" where
  "demo_submission csrf = request ''POST'' ''/v1/boards/kills/scores'' [(''X-App-Id'', ''app1''), (''X-CSRF-Token'', csrf)]
     [(''lb_session'', ''73''), (''lb_csrf'', ''63'')] [] (Some (JObj [(''member'', JStr ''al'' ''al'')]))"

definition demo_request :: Request where
  "demo_request = (demo_submission ''63'')\<lparr>PathValue := (\<lambda>_. ''kills'')\<rparr>"

lemma demo_request_checks:
  "bearerToken demo_request = []" "Decode submit_fields demo_request zero_submit = (zero_submit\<lparr>sr_Member := ''al''\<rparr>, True)" "csrfOK demo_request"
  "TrimSpace (Header demo_request ''X-Player-Token'') = []"
  by code_simp+

lemma demo_request_sel: "Method demo_request = ''POST''" "Cookie demo_request sessionCookie = Some ''73''" "Header demo_request ''X-App-Id'' = ''app1''"
  "PathValue demo_request x = ''kills''"
  by (simp_all add: demo_request_def demo_submission_def request_def sessionCookie_def)

lemma sys_server_sel: "srv_accounts sys_server = sys_accounts" "srv_store sys_server = sys_store" "srv_eng sys_server = sys_engine"
  by (simp_all add: sys_server_def NewServer_def)

lemma demo_user: "UserFromSession sys_accounts ''73'' (wst (demo_world b), e) = (Inr (toy_user True ''password''), (wst (demo_world b), e))"
  by (simp add: UserFromSession_def sys_accounts_def NewService_def Let_def io_simps Accounts.on_fst_def part_def am_UserID_def am_GetByID_def
      demo_world_def new_world_def new_sys_def)

lemma demo_owned: "ts_GetApp sys_store ''app1'' (wst (demo_world b)) = (Inr demo_app, wst (demo_world b))"
  by (simp add: sys_store_def part_def tm_GetApp_def demo_world_def new_world_def new_sys_def)

lemma demo_requireApp: "requireApp sys_server h demo_request no_ctx (demo_world b) = h demo_request (WithApp demo_app no_ctx) (demo_world b)"
  by (simp add: requireApp_def demo_request_checks demo_request_sel userFromCookie_def acall_def call_def sys_server_sel demo_user demo_owned crashed_def Let_def)
    (simp add: demo_app_def toy_user_def)

lemma demo_ing: "iresolver (ing_at sys_server (wreg (demo_world b))) ''app1'' ''kills'' = (if b then Some plain_board else None)" "ilog (ing_at sys_server g) = sys_log"
  by (simp_all add: ing_at_def demo_world_def reg_Resolve_def Register_def plain_board_def NewStaticRegistry_def sys_server_def NewServer_def NewIngestor_def)

lemma demo_handleSubmit: "handleSubmit sys_server demo_request (WithApp demo_app no_ctx) (demo_world b) =
   ing_call sys_server (\<lambda>i. ing_Submit i (in_now demo_request 1) (submit_record demo_app ''kills'' (zero_submit\<lparr>sr_Member := ''al''\<rparr>))) submit_outcome (demo_world b)"
  by (simp add: handleSubmit_def demo_request_checks demo_request_sel AppFromContext_def WithApp_def no_ctx_def keyScopeFrom_def authorizePlayer_def signing_check_def)
    (simp add: demo_app_def)

lemma demo_status: "map_option Status (fst (requireApp sys_server (handleSubmit sys_server) demo_request no_ctx (demo_world b))) = Some (if b then 202 else 404)"
  unfolding demo_requireApp demo_handleSubmit
  by (simp add: ing_call_def call_def ing_Submit_def submit_record_def zero_submit_def demo_app_def demo_ing sys_log_def part_def mem_Append_def stamp_def Let_def
      crashed_def submit_outcome_def submits_inc_def writeErr_def writeJSON_def reply_def resp_def)

theorem submission_authorised_witness: "\<exists>a sec. data_caller sys_server demo_request (demo_world True) = Tenant a sec"
proof -
  let ?x = "requireApp sys_server (handleSubmit sys_server) demo_request no_ctx (demo_world True)"
  obtain rsp where f: "fst ?x = Some rsp" "Status rsp = 202" using demo_status [of True] by auto
  then have "?x = (Some rsp, snd ?x)" by (simp add: prod_eq_iff)
  from submission_authorised [OF this f(2)] show ?thesis by blast
qed

subsection \<open>Cross-site requests\<close>

lemma instrument_fst [simp]: "fst (instrument l h r c w) = fst (h r c w)"
  by (simp add: instrument_def Let_def split: prod.splits option.splits)

text \<open>
  (C15) A cookie alone changes nothing. A request that would change something on a route for persons or
  for tenants, with no API key and without the CSRF token that matches its cookie, is answered 401 or
  403, and the stores see nothing but the lookups of its caller.
\<close>

theorem csrf_required:
  assumes "on_routes (open_routes S) r = None" "on_routes (user_routes S) r \<noteq> None \<or> on_routes (data_routes S) r \<noteq> None"
    and m: "isMutation (Method r)" and "bearerToken r = []" "\<not> csrfOK r" and h: "Handler S r w = (Some rsp, w')"
  shows "Status rsp \<in> {401, 403} \<and> (may S (boards_of S (wreg w)) Nobody)\<^sup>*\<^sup>* (view w) (view w')"
proof -
  let ?R = "(may S (boards_of S (wreg w)) Nobody)\<^sup>*\<^sup>*"
  have cs: "\<not> csrfOK (at_route pat r)" "bearerToken (at_route pat r) = []" "isMutation (Method (at_route pat r))" for pat
    using assms by simp_all
  have su: "session_user S (at_route pat r) w = None" for pat
    using cs by (simp add: session_user_def split: option.splits prod.splits sum.splits)
  have "Method r \<noteq> ''OPTIONS''" "\<not> method_ok ''GET'' (Method r)" using m by (auto simp: isMutation_def method_ok_def)
  then obtain hs where a: "Handler S r w = add_headers hs (mux S r w)" by (auto simp: Handler_def withCORS_def Let_def case_prod_beta)
  have "refusal {401, 403} (fst (mux S r w)) \<and> ?R (view w) (view (snd (mux S r w)))"
  proof -
    have "\<not> (method_ok ''GET'' (Method r) \<and> match_path ''GET /metrics'' r \<noteq> None)" using \<open>\<not> method_ok ''GET'' (Method r)\<close> by blast
    then show ?thesis
    proof (cases rule: mux_cases [of r S])
      case (userp pat h)
      show ?thesis
      proof (cases rule: requireUser_cases [of S h "at_route pat r" no_ctx w])
        case (refused x w1)
        then show ?thesis using userp(2) by simp
      qed (use su in simp)
    next
      case (datap pat h)
      show ?thesis using cs(2)
      proof (cases rule: requireApp_session_cases [of "at_route pat r" S h no_ctx w])
        case (refused x w1)
        then show ?thesis using datap(2) cs by simp
      qed (use cs in simp)
    qed (use assms in simp_all)
  qed
  moreover obtain rsp0 where "fst (mux S r w) = Some rsp0" "Status rsp = Status rsp0" "w' = snd (mux S r w)"
    using h a by (auto simp: add_headers_def)
  ultimately show ?thesis by (simp add: refusal_def)
qed

lemma demo_refused:
  assumes "\<not> csrfOK r" "bearerToken r = []" "isMutation (Method r)" "Cookie r sessionCookie = Some ''73''"
  shows "requireApp sys_server h r c (demo_world b) = writeErr 403 (Msg ''invalid csrf token'') (demo_world b)"
  using assms by (simp add: requireApp_def userFromCookie_def acall_def sys_server_sel demo_user crashed_def Let_def)

lemma demo_routes:
  "on_routes (open_routes S) (demo_submission t) = None" "on_routes (user_routes S) (demo_submission t) = None"
  "on_routes (data_routes S) (demo_submission t) = Some ''POST /v1/boards/{board}/scores''"
  unfolding on_routes_patterns open_routes_def user_routes_def data_routes_def list.map fst_conv by code_simp+

lemma demo_mux: "\<exists>h. mux S (demo_submission t) =
  instrument (routeLabel ''POST /v1/boards/{board}/scores'') (requireApp S h) (at_route ''POST /v1/boards/{board}/scores'' (demo_submission t)) no_ctx"
proof -
  have "\<not> (method_ok ''GET'' (Method (demo_submission t)) \<and> match_path ''GET /metrics'' (demo_submission t) \<noteq> None)"
    by (simp add: method_ok_def demo_submission_def request_def)
  then show ?thesis by (cases rule: mux_cases [of "demo_submission t" S]) (auto simp: demo_routes)
qed

theorem csrf_required_witness:
  "\<exists>rsp w'. Handler sys_server (demo_submission ''99'') (demo_world True) = (Some rsp, w') \<and> Status rsp \<in> {401, 403} \<and>
     (may sys_server (boards_of sys_server (wreg (demo_world True))) Nobody)\<^sup>*\<^sup>* (view (demo_world True)) (view w')"
proof -
  let ?r = "demo_submission ''99''" and ?x = "Handler sys_server (demo_submission ''99'') (demo_world True)"
  have c: "isMutation (Method ?r)" "bearerToken ?r = []" "\<not> csrfOK ?r" "Cookie ?r sessionCookie = Some ''73''" by code_simp+
  then have "fst (mux sys_server ?r (demo_world True)) \<noteq> None"
    using demo_mux [of sys_server "''99''"] demo_refused [of "at_route ''POST /v1/boards/{board}/scores'' ?r"]
    by (auto simp: writeErr_def writeJSON_def reply_def)
  moreover have "Method ?r = ''POST''" by (simp add: demo_submission_def request_def)
  ultimately obtain rsp where x: "?x = (Some rsp, snd ?x)"
    by (cases "fst ?x") (auto simp: Handler_def withCORS_def add_headers_def Let_def case_prod_beta prod_eq_iff)
  have "on_routes (data_routes sys_server) ?r \<noteq> None" by (simp add: demo_routes)
  with csrf_required [OF demo_routes(1) _ c(1-3) x] x show ?thesis by blast
qed

subsection \<open>The registry of a server\<close>


lemma demo_count: "e_Count sys_engine (physicalBoard plain_board demo_request) (wst (demo_world b)) = (Inr 0, wst (demo_world b))"
proof -
  have "e_Count (redis_engine mem_redis 100) (physicalBoard plain_board demo_request) [] = (Inr 0, [])" by code_simp
  then show ?thesis by (simp add: sys_engine_def Let_def part_def demo_world_def new_world_def new_sys_def)
qed


subsection \<open>Cross-origin requests\<close>

text \<open>An action whose response carries no header of its own for cross-origin access.\<close>

named_theorems plain_intros "rules for responses without cross-origin headers"

definition no_cors :: "Response \<Rightarrow> bool" where
  "no_cors rsp \<longleftrightarrow> (\<forall>n v. (n, v) \<in> set (RHeaders rsp) \<longrightarrow> n \<noteq> ''Access-Control-Allow-Origin'' \<and> n \<noteq> ''Access-Control-Allow-Credentials'')"

definition plain :: "('s, 'e) act \<Rightarrow> bool" where
  "plain A \<longleftrightarrow> (\<forall>w rsp. fst (A w) = Some rsp \<longrightarrow> no_cors rsp)"

lemma plain_reply [plain_intros]: "no_cors x \<Longrightarrow> plain (reply x)" "plain (writeJSON n v)" "plain (writeErr n m)" "plain ok_true" "plain (redirect url)" "plain no_content" "plain logged_out"
  by (auto simp: plain_def no_cors_def reply_def writeJSON_def writeErr_def ok_true_def redirect_def no_content_def logged_out_def resp_def)

lemma plain_splits [plain_intros]:
  "plain A \<Longrightarrow> plain B \<Longrightarrow> plain (if b then A else B)"
  "(\<And>e. plain (f e)) \<Longrightarrow> (\<And>x. plain (h x)) \<Longrightarrow> plain (case_sum f h res)"
  "(\<And>x y. plain (k x y)) \<Longrightarrow> plain (case_prod k z)"
  "plain A \<Longrightarrow> (\<And>x. plain (h' x)) \<Longrightarrow> plain (case_option A h' v)"
  "(\<And>x. plain (k' x)) \<Longrightarrow> plain (Let v' k')"
  "(\<And>x. plain (h x)) \<Longrightarrow> plain (or_500 h res)" "(\<And>x. plain (h x)) \<Longrightarrow> plain (or_user_err h res)"
  by (auto simp: or_500_def or_user_err_def writeUserErr_def plain_reply split: sum.splits prod.splits option.splits)

lemma plain_call [plain_intros]:
  "(\<And>res. plain (k res)) \<Longrightarrow> plain (call m k)" "(\<And>res. plain (k' res)) \<Longrightarrow> plain (acall m' k')" "(\<And>res. plain (k'' res)) \<Longrightarrow> plain (ing_call S f k'')"
  by (auto simp: plain_def call_def acall_def ing_call_def Let_def split: prod.splits)

lemma no_cors_cookies [simp]: "no_cors (rsp\<lparr>SetCookies := cs\<rparr>) = no_cors rsp"
  by (simp add: no_cors_def)

lemma plain_changes [plain_intros]:
  "plain A \<Longrightarrow> plain (submits_inc l A)" "plain A \<Longrightarrow> plain (\<lambda>w. A (w\<lparr>wreg := f w\<rparr>))"
  "plain A \<Longrightarrow> plain (\<lambda>w. case A w of (rsp, w) \<Rightarrow> (map_option (\<lambda>x. x\<lparr>SetCookies := cs\<rparr>) rsp, w))"
  by (auto simp: plain_def submits_inc_def case_prod_beta)

lemma plain_helpers [plain_intros]:
  "(\<And>res. plain (k res)) \<Longrightarrow> plain (resolveBoard S i b k)" "(\<And>b. plain (k' b)) \<Longrightarrow> plain (readBoard S r c k')"
  "(\<And>es. plain (k'' es)) \<Longrightarrow> plain (enrichEntries S c es k'')" "plain (writeEntries S c res)" "plain A \<Longrightarrow> plain (authorizePlayer S r c a m A)"
  "(\<And>a. plain (h a)) \<Longrightarrow> plain (ownedApp S r c h)"
proof -
  show rb: "plain (resolveBoard S i b k)" if "\<And>res. plain (k res)" for i b and k :: "err + LogicalBoard \<Rightarrow> ('a, 'b) act"
  proof -
    have "plain (call (ts_GetBoard (srv_store S) i b) (\<lambda>res. case res of Inl e \<Rightarrow> k (Inl e) | Inr lb \<Rightarrow> (\<lambda>w. k (Inr lb) (w\<lparr>wreg := Register lb (wreg w)\<rparr>))))"
      by (intro plain_intros that)
    then show ?thesis using that by (auto simp: plain_def resolveBoard_def split: option.splits)
  qed
  show "plain (readBoard S r c k')" if "\<And>b. plain (k' b)" unfolding readBoard_def by (intro rb plain_intros that)
  show en: "plain (enrichEntries S c es k'')" if "\<And>es. plain (k'' es)" for k'' es unfolding enrichEntries_def by (intro plain_intros that)
  show "plain (writeEntries S c res)" unfolding writeEntries_def by (intro plain_intros en)
  show "plain (authorizePlayer S r c a m A)" if "plain A" unfolding authorizePlayer_def by (intro plain_intros that)
  show "plain (ownedApp S r c h)" if "\<And>a. plain (h a)" unfolding ownedApp_def by (intro plain_intros that)
qed

lemma plain_loops [plain_intros]:
  "plain A \<Longrightarrow> plain (append_tombstones S r a m n lbs A)" "(\<And>q. plain (k q)) \<Longrightarrow> plain (remove_from_boards S m q lbs k)"
proof -
  show "plain A \<Longrightarrow> plain (append_tombstones S r a m n lbs A)"
    by (induction lbs arbitrary: n) (auto intro!: plain_changes(2) [where A = "ing_call S f k" for f k] plain_call plain_splits)
  show "(\<And>q. plain (k q)) \<Longrightarrow> plain (remove_from_boards S m q lbs k)"
    by (induction lbs arbitrary: q) (auto intro!: plain_call)
qed

lemma open_plain: "(pat, h) \<in> set (open_routes S) \<Longrightarrow> plain (h r c)"
proof -
  have "plain (handleHealth r c)" unfolding handleHealth_def by (intro plain_intros)
  moreover have "plain (handleSignup S r c)" unfolding handleSignup_def by (intro plain_intros)
  moreover have "plain (handleLogin S r c)" unfolding handleLogin_def by (intro plain_intros)
  moreover have "plain (handleVerify S r c)" unfolding handleVerify_def by (intro plain_intros)
  moreover have "plain (handleResend S r c)" unfolding handleResend_def by (intro plain_intros)
  moreover have "plain (handleForgot S r c)" unfolding handleForgot_def by (intro plain_intros)
  moreover have "plain (handleReset S r c)" unfolding handleReset_def by (intro plain_intros)
  ultimately show "(pat, h) \<in> set (open_routes S) \<Longrightarrow> plain (h r c)" unfolding open_routes_def by auto
qed

lemma user_plain: "(pat, h) \<in> set (user_routes S) \<Longrightarrow> plain (h r c)"
proof -
  have "plain (handleLogout S r c)" unfolding handleLogout_def by (intro plain_intros)
  moreover have "plain (handleMe r c)" unfolding handleMe_def by (intro plain_intros)
  moreover have "plain (handleCreateApp S r c)" unfolding handleCreateApp_def by (intro plain_intros)
  moreover have "plain (handleListApps S r c)" unfolding handleListApps_def by (intro plain_intros)
  moreover have "plain (handleDeleteApp S r c)" unfolding handleDeleteApp_def by (intro plain_intros)
  moreover have "plain (handleListKeys S r c)" unfolding handleListKeys_def by (intro plain_intros)
  moreover have "plain (handleIssueKey S r c)" unfolding handleIssueKey_def by (intro plain_intros)
  moreover have "plain (handleRevokeKey S r c)" unfolding handleRevokeKey_def by (intro plain_intros)
  moreover have "plain (handleGetSigning S r c)" unfolding handleGetSigning_def by (intro plain_intros)
  moreover have "plain (handleSetSigning S r c)" unfolding handleSetSigning_def by (intro plain_intros)
  moreover have "plain (handleGetPlayerTokens S r c)" unfolding handleGetPlayerTokens_def by (intro plain_intros)
  moreover have "plain (handleSetPlayerTokens S r c)" unfolding handleSetPlayerTokens_def by (intro plain_intros)
  moreover have "plain (handleRotateSigning S r c)" unfolding handleRotateSigning_def by (intro plain_intros)
  moreover have "plain (handleAppStats S r c)" unfolding handleAppStats_def by (intro plain_intros)
  ultimately show "(pat, h) \<in> set (user_routes S) \<Longrightarrow> plain (h r c)" unfolding user_routes_def by auto
qed

lemma data_plain: "(pat, h) \<in> set (data_routes S) \<Longrightarrow> plain (h r c)"
proof -
  have "plain (secretOnly (handleCreateBoard S) r c)" unfolding secretOnly_def handleCreateBoard_def by (intro plain_intros)
  moreover have "plain (secretOnly (handleRemoveScore S) r c)" unfolding secretOnly_def handleRemoveScore_def by (intro plain_intros)
  moreover have "plain (handleListBoards S r c)" unfolding handleListBoards_def by (intro plain_intros)
  moreover have "plain (handleSubmit S r c)" unfolding handleSubmit_def submit_outcome_def by (intro plain_intros)
  moreover have "plain (handleRank S r c)" unfolding handleRank_def by (intro plain_intros)
  moreover have "plain (handleTop S r c)" unfolding handleTop_def by (intro plain_intros)
  moreover have "plain (handlePage S r c)" unfolding handlePage_def by (intro plain_intros)
  moreover have "plain (handleNeighbors S r c)" unfolding handleNeighbors_def by (intro plain_intros)
  moreover have "plain (handleSegments S r c)" unfolding handleSegments_def by (intro plain_intros)
  moreover have "plain (handleCount S r c)" unfolding handleCount_def by (intro plain_intros)
  moreover have "plain (handleFriends S r c)" unfolding handleFriends_def by (intro plain_intros)
  moreover have "plain (handleCreateUser S r c)" unfolding handleCreateUser_def create_player_def by (intro plain_intros)
  moreover have "plain (handleLookupUser S r c)" unfolding handleLookupUser_def by (intro plain_intros)
  moreover have "plain (handleGetUser S r c)" unfolding handleGetUser_def by (intro plain_intros)
  moreover have "plain (handleRenameUser S r c)" unfolding handleRenameUser_def by (intro plain_intros)
  moreover have "plain (handleDeleteUser S r c)" unfolding handleDeleteUser_def by (intro plain_intros)
  ultimately show "(pat, h) \<in> set (data_routes S) \<Longrightarrow> plain (h r c)" unfolding data_routes_def by auto
qed

lemma plain_requireUser: "(\<And>c. plain (h r c)) \<Longrightarrow> plain (requireUser S h r c)"
  unfolding requireUser_def userFromCookie_def by (intro plain_intros)

lemma plain_requireApp: "(\<And>c. plain (h r c)) \<Longrightarrow> plain (requireApp S h r c)"
  unfolding requireApp_def userFromCookie_def by (intro plain_intros)

lemma plain_mux:
  assumes "\<And>rq. no_cors (lib_promhttp S rq)"
  shows "plain (mux S r)"
proof -
  have i: "plain (instrument l h r' c)" if "plain (h r' c)" for l h r' c using that by (simp add: plain_def)
  have u: "plain (requireUser S h r' c)" if "(pat, h) \<in> set (user_routes S)" for pat h r' c by (rule plain_requireUser, rule user_plain [OF that])
  have d: "plain (requireApp S h r' c)" if "(pat, h) \<in> set (data_routes S)" for pat h r' c by (rule plain_requireApp, rule data_plain [OF that])
  have "plain (h r' c)" if "(pat, h) \<in> set (all_routes S)" for pat h r' c
    using that open_plain u d assms
    by (auto simp: all_routes_def routes_def openPlane_def userPlane_def dataPlane_def metrics_page_def intro!: i plain_reply(1))
  moreover have "plain (instrument ''/'' (staticFileHandler S) r no_ctx)"
    unfolding staticFileHandler_def [abs_def] by (rule i) (intro plain_intros; simp add: no_cors_def resp_def)
  ultimately show ?thesis unfolding mux_def
    by (auto split: option.splits simp: no_cors_def resp_def dest!: find_in intro!: plain_reply(1) plain_splits(1))
qed

lemma SetCORS_origins: "set (corsOrigins (SetCORS spec S)) = TrimSpace ` set (split_on CHR '','' spec) - {[], ''*''}"
proof -
  have "set (corsOrigins (fold add_origin xs S')) = set (corsOrigins S') \<union> (TrimSpace ` set xs - {[], ''*''})" for xs and S' :: "('a, 'b) Server"
    by (induction xs arbitrary: S') (auto simp: add_origin_def Let_def)
  then show ?thesis by (simp add: SetCORS_def)
qed

lemma lib_SetCORS: "lib_promhttp (SetCORS spec S) = lib_promhttp S"
proof -
  have "lib_promhttp (fold add_origin xs S') = lib_promhttp S'" for xs and S' :: "('a, 'b) Server"
    by (induction xs arbitrary: S') (simp_all add: add_origin_def Let_def)
  then show ?thesis by (simp add: SetCORS_def)
qed

text \<open>
  (C16) Credentials are shared with listed origins only. Whatever the list of origins, a response that
  allows credentials names the origin of the request as the allowed one and no other, and that origin
  is an entry of the list, not the wildcard.
\<close>

theorem cors_credentials:
  assumes "\<And>rq. no_cors (lib_promhttp S rq)" "fst (Handler (SetCORS spec S) r w) = Some rsp"
    and "(''Access-Control-Allow-Credentials'', v) \<in> set (RHeaders rsp)"
  shows "Header r ''Origin'' \<in> TrimSpace ` set (split_on CHR '','' spec) \<and> Header r ''Origin'' \<noteq> [] \<and> Header r ''Origin'' \<noteq> ''*'' \<and>
    (\<forall>u. (''Access-Control-Allow-Origin'', u) \<in> set (RHeaders rsp) \<longleftrightarrow> u = Header r ''Origin'')"
proof -
  let ?S = "SetCORS spec S"
  have p: "plain (mux ?S r)" by (rule plain_mux) (simp add: lib_SetCORS assms(1))
  obtain hs active where c: "corsHeaders ?S r = (hs, active)" by fastforce
  have hs: "(n, u) \<in> set (RHeaders rsp) \<longleftrightarrow> (n, u) \<in> set hs" if "n = ''Access-Control-Allow-Credentials'' \<or> n = ''Access-Control-Allow-Origin''" for n u
  proof (cases "Method r = ''OPTIONS'' \<and> Header r ''Access-Control-Request-Method'' \<noteq> []")
    case True
    then show ?thesis using assms(2) that by (auto simp: Handler_def withCORS_def c add_headers_def reply_def resp_def)
  next
    case False
    then obtain rsp0 where "fst (mux ?S r w) = Some rsp0" "RHeaders rsp = hs @ RHeaders rsp0"
      using assms(2) by (auto simp: Handler_def withCORS_def c add_headers_def)
    then show ?thesis using p that by (auto simp: plain_def no_cors_def)
  qed
  then have "(''Access-Control-Allow-Credentials'', v) \<in> set hs" using assms(3) by blast
  then have "Header r ''Origin'' \<noteq> [] \<and> Header r ''Origin'' \<in> set (corsOrigins ?S) \<and> (\<forall>u. (''Access-Control-Allow-Origin'', u) \<in> set hs \<longleftrightarrow> u = Header r ''Origin'')"
    using c by (auto simp: corsHeaders_def Let_def split: if_splits)
  then show ?thesis using hs by (simp add: SetCORS_origins)
qed

theorem cors_credentials_witness:
  "\<exists>rsp. fst (Handler (SetCORS ''https://a.co, *'' sys_server) (request ''OPTIONS'' ''/v1/users'' [(''Origin'', ''https://a.co''), (''Access-Control-Request-Method'', ''PUT'')] [] [] None) new_world) = Some rsp \<and>
     (''Access-Control-Allow-Origin'', ''https://a.co'') \<in> set (RHeaders rsp) \<and> (''Access-Control-Allow-Origin'', ''*'') \<notin> set (RHeaders rsp)"
proof -
  let ?S = "SetCORS ''https://a.co, *'' sys_server" and ?r = "request ''OPTIONS'' ''/v1/users'' [(''Origin'', ''https://a.co''), (''Access-Control-Request-Method'', ''PUT'')] [] [] None"
  have h: "Method ?r = ''OPTIONS''" "Header ?r ''Origin'' = ''https://a.co''" "Header ?r ''Access-Control-Request-Method'' = ''PUT''" by (simp_all add: request_def)
  have "TrimSpace ` set (split_on CHR '','' ''https://a.co, *'') = {''https://a.co'', ''*''}" by code_simp
  then have "''https://a.co'' \<in> set (corsOrigins ?S)" unfolding SetCORS_origins by simp
  moreover from this have "corsOrigins ?S \<noteq> []" by auto
  ultimately obtain rsp where x: "fst (Handler ?S ?r new_world) = Some rsp" "(''Access-Control-Allow-Credentials'', ''true'') \<in> set (RHeaders rsp)"
    by (auto simp: Handler_def withCORS_def corsHeaders_def h Let_def add_headers_def reply_def)
  have "no_cors (lib_promhttp sys_server rq)" for rq by (simp add: sys_server_def NewServer_def no_cors_def resp_def)
  from cors_credentials [OF this x] x(1) show ?thesis by (auto simp: h)
qed

subsection \<open>Submissions that cannot be applied\<close>

text \<open>A record one of whose segments is no valid component of a key: the endpoint accepts it, since it does not look at the segments.\<close>

definition poison :: "resolver \<Rightarrow> Record \<Rightarrow> bool" where
  "poison rs rec \<longleftrightarrow> rs (RApp rec) (RBoard rec) \<noteq> None \<and> (\<exists>seg \<in> set (RSegments rec). invalidComponent (sanitizeSegment seg))"

lemma sanitize_idem: "sanitizeSegment (sanitizeSegment seg) = sanitizeSegment seg"
  by (simp add: sanitizeSegment_def)

lemma poison_op:
  assumes "seg \<in> set (RSegments rec)" "invalidComponent (sanitizeSegment seg)"
  shows "\<exists>op \<in> set (recordToOps lb rec). board_validate (OpBoard op) \<noteq> Inr ()"
proof -
  define ws where "ws = (if Windows lb = [] then [\<lparr>Kind = ''all'', CustomID = ''''\<rparr>] else Windows lb)"
  obtain wd where wd: "wd \<in> set ws" by (cases ws) (auto simp: ws_def split: if_splits)
  define k where "k = \<lparr>App = LApp lb, BoardName = LBoard lb, Segment = sanitizeSegment seg, Window = WindowID wd (RTime rec)\<rparr>"
  have "RSegments rec \<noteq> []" using assms(1) by auto
  then have "k \<in> set (DerivePhysicalBoards lb \<lparr>EMember = RMember rec, EScore = RScore rec, ETime = RTime rec, ESegments = RSegments rec\<rparr>)"
    using assms(1) wd by (auto simp: DerivePhysicalBoards_def Let_def ws_def [symmetric] k_def)
  moreover have "key_validate k \<noteq> Inr ()" using assms(2) by (simp add: key_validate_def k_def sanitize_idem Let_def)
  ultimately show ?thesis unfolding recordToOps_def by (force simp: board_validate_def split: sum.splits)
qed

lemma apply_poison:
  assumes "\<forall>r \<in> set recs. Op r \<noteq> OpRemove" "(\<exists>op \<in> set ops. board_validate (OpBoard op) \<noteq> Inr ()) \<or> (\<exists>r \<in> set recs. poison rs r)"
  shows "\<exists>e. apply_loop (redis_engine R fuel) rs ops recs s = (Inl e, s)"
  using assms
proof (induction recs arbitrary: ops)
  case Nil
  then obtain op where op: "op \<in> set ops" "board_validate (OpBoard op) \<noteq> Inr ()" by auto
  then obtain e where "SubmitBatch R ops s = (Inl e, s)" using batch_rejects [of op ops R _ s] by blast
  moreover have "ops \<noteq> []" using op(1) by auto
  ultimately show ?case by (simp add: flush_def redis_engine_def io_simps)
next
  case (Cons rec recs)
  show ?case
  proof (cases "rs (RApp rec) (RBoard rec)")
    case None
    then show ?thesis using Cons by (simp add: poison_def)
  next
    case (Some lb)
    have "(\<exists>op \<in> set (ops @ recordToOps lb rec). board_validate (OpBoard op) \<noteq> Inr ()) \<or> (\<exists>r \<in> set recs. poison rs r)"
      using Cons.prems(2) poison_op [of _ rec lb] by (auto simp: poison_def)
    then show ?thesis using Cons.IH [of "ops @ recordToOps lb rec"] Cons.prems(1) Some by simp
  qed
qed

text \<open>
  (C38) One submission can stop the ranking of all tenants. A batch of submissions with one whose
  segment contains a separator, such as a colon, is rejected as a whole, and again at every retry:
  applying it fails without a trace whatever the state of the server. The endpoint accepts such a
  submission from any key, and the workers end at the error.
\<close>

theorem poison_submission:
  assumes "rec \<in> set recs" "rs (RApp rec) (RBoard rec) = Some lb" "seg \<in> set (RSegments rec)" "invalidComponent (sanitizeSegment seg)"
    and "\<forall>r \<in> set recs. Op r \<noteq> OpRemove"
  shows "\<exists>e. applyRecords (redis_engine R fuel) rs recs s = (Inl e, s)"
  unfolding applyRecords_def using assms by (intro apply_poison) (auto simp: poison_def)

theorem poison_submission_witness:
  "\<exists>e. applyRecords (redis_engine mem_redis 9) (reg_Resolve (Register demo_board2 NewStaticRegistry)) [demo_rec, demo_rec\<lparr>RSegments := [''eu:1'']\<rparr>] [] = (Inl e, [])"
proof -
  have "invalidComponent (sanitizeSegment ''eu:1'')" by code_simp
  then show ?thesis
    using poison_submission [of "demo_rec\<lparr>RSegments := [''eu:1'']\<rparr>" "[demo_rec, demo_rec\<lparr>RSegments := [''eu:1'']\<rparr>]" "reg_Resolve (Register demo_board2 NewStaticRegistry)" demo_board2 "''eu:1''"]
    by (simp add: demo_rec_def demo_board2_def reg_Resolve_def Register_def OpRemove_def)
qed

text \<open>
  Moderation by a publishable key: while an app does not require player tokens, the deletion of a
  player takes the same course for a publishable key as for a secret one.
\<close>

lemma publishable_delete:
  assumes "TrimSpace (Header r ''X-Player-Token'') = []" "\<not> RequirePlayerTokens (AppFromContext c)"
  shows "handleDeleteUser S r (c\<lparr>ctx_scope := Some ScopePublishable\<rparr>) = handleDeleteUser S r (c\<lparr>ctx_scope := Some ScopeSecret\<rparr>)"
  using assms by (simp add: handleDeleteUser_def authorizePlayer_def Let_def AppFromContext_def)

end
