(* ===== verification/End_To_End.thy ===== *)
theory End_To_End
  imports Api_Properties Projection
begin

text \<open>
  From a request to the ranking: a submission that the HTTP layer (\<open>pkg/api\<close>) accepts is a record of the log
  (\<open>pkg/ingest\<close>), and the ranking engine (\<open>pkg/engine\<close>) that replays the log ranks it.
\<close>

subsection \<open>The front of a server\<close>

text \<open>
  What the HTTP layer relies on: its log and its deduper keep their contracts, and neither the lookup of
  a caller nor the check of a player's token touches them.
\<close>

locale served_front = ingest_front lg recs lok dd marks dok
  for lg :: "'w Log" and recs lok and dd :: "'w Deduper" and marks dok +
  fixes S :: "('w, 'e) Server"
  assumes wired: "ilog (srv_ing S) = lg" "ideduper (srv_ing S) = dd"
    and lookup_frame: "f \<in> lookups S \<Longrightarrow> f (s, e) = (s', e') \<Longrightarrow> lok s \<Longrightarrow> dok s \<Longrightarrow> lok s' \<and> dok s' \<and> recs s' = recs s \<and> marks s' = marks s"
    and token_frame: "ps_Authorize (srv_players S) i m t s = (x, s') \<Longrightarrow> lok s \<Longrightarrow> dok s \<Longrightarrow> lok s' \<and> dok s' \<and> recs s' = recs s \<and> marks s' = marks s"
begin

inductive_cases nobody_step: "may S G Nobody x y"

lemma lookups_keep:
  assumes "(may S G Nobody)\<^sup>*\<^sup>* (s, e, g) (s', e', g')" "lok s" "dok s"
  shows "lok s' \<and> dok s' \<and> recs s' = recs s \<and> marks s' = marks s"
proof -
  define P where "P = (\<lambda>y :: ('w, 'e) stores. lok (fst y) \<and> dok (fst y) \<and> recs (fst y) = recs s \<and> marks (fst y) = marks s)"
  have "P y" if "(may S G Nobody)\<^sup>*\<^sup>* (s, e, g) y" for y
    using that
  proof (induction rule: rtranclp_induct)
    case base
    then show ?case using assms by (simp add: P_def)
  next
    case (step y z)
    from step(2) show ?case
    proof (rule nobody_step)
      fix f s1 e1 s2 e2 g1
      assume "y = (s1, e1, g1)" "z = (s2, e2, g1)" "f \<in> lookups S" "f (s1, e1) = (s2, e2)"
      then show "P z" using step(3) lookup_frame [of f s1 e1 s2 e2] by (simp add: P_def)
    qed
  qed
  from this [OF assms(1)] show ?thesis by (simp add: P_def)
qed

lemma player_proof_keeps: "player_proof S r a sec m s s' \<Longrightarrow> lok s \<Longrightarrow> dok s \<Longrightarrow> lok s' \<and> dok s' \<and> recs s' = recs s \<and> marks s' = marks s"
  using token_frame by (auto simp: player_proof_def Let_def split: if_splits)

text \<open>An accepted submission is the last record of its partition, and nothing else of the log changed.\<close>

lemma accepted_logged:
  assumes "requireApp S (handleSubmit S) r no_ctx w = (Some rsp, w')" "Status rsp = 202" "lok (wst w)" "dok (wst w)"
    and "data_caller S r w = Tenant a sec" "Decode submit_fields r zero_submit = (req, True)"
    and "rec = stamp (in_now r 1) (submit_record a (PathValue r ''board'') req)" "utf8_rec rec"
  shows "reg_Resolve (wreg w) (RApp rec) (RBoard rec) \<noteq> None \<and> lok (wst w') \<and>
    (\<exists>i. recs (wst w') = (recs (wst w))(route (Partitions lg) rec := recs (wst w) (route (Partitions lg) rec) @ [rec\<lparr>ID := i\<rparr>]))"
proof -
  let ?rec = "submit_record a (PathValue r ''board'') req"
  obtain a' sec' req' s1 e1 g1 s2 where x: "data_caller S r w = Tenant a' sec'" "Decode submit_fields r zero_submit = (req', True)" "sr_Member req' \<noteq> []"
    "\<forall>G p. (may S G p)\<^sup>*\<^sup>* (view w) (s1, e1, g1)" "player_proof S r a' sec' (sr_Member req') s1 s2"
    "signing_check S r a' (PathValue r ''board'') req' = None"
    "ing_Submit (ing_at S (wreg w)) (in_now r 1) (submit_record a' (PathValue r ''board'') req') s2 = (Inr True, wst w')"
    by (rule accepted_submission [OF assms(1,2)])
  have "a' = a" "sec' = sec" "req' = req" using x(1,2) assms(5,6) by simp_all
  then have s: "\<forall>G p. (may S G p)\<^sup>*\<^sup>* (view w) (s1, e1, g1)" "player_proof S r a sec (sr_Member req) s1 s2"
    "ing_Submit (ing_at S (wreg w)) (in_now r 1) ?rec s2 = (Inr True, wst w')" using x(4,5,7) by simp_all
  have k1: "lok s1 \<and> dok s1 \<and> recs s1 = recs (wst w) \<and> marks s1 = marks (wst w)"
    using lookups_keep s(1) assms(3,4) unfolding view_def by blast
  then have k2: "lok s2" "dok s2" "recs s2 = recs (wst w)" using player_proof_keeps [OF s(2)] by simp_all
  have u: "utf8_rec ?rec" using assms(7,8) by simp
  have i: "ilog (ing_at S (wreg w)) = lg" "ideduper (ing_at S (wreg w)) = dd" by (simp_all add: ing_at_def wired)
  have known: "iresolver (ing_at S (wreg w)) (RApp ?rec) (RBoard ?rec) \<noteq> None"
    using s(3) by (cases "iresolver (ing_at S (wreg w)) (RApp ?rec) (RBoard ?rec)") (simp_all add: ing_Submit_def)
  have "outcome rec s2 (Inr True) (wst w')"
    using ing_Submit_outcome [OF k2(1,2) u i known s(3)] assms(7) by simp
  moreover have "RApp rec = RApp ?rec" "RBoard rec = RBoard ?rec" by (simp_all add: assms(7) stamp_def)
  ultimately show ?thesis using known k2(3) by (simp add: outcome_def ing_at_def)
qed

end

subsection \<open>Replaying one more record\<close>

lemma put_ops_some:
  assumes "op \<in> set ops" "norm_key k = norm_key (Key (OpBoard op))" "m = OpMember op"
  shows "fold (put_op upd) ops E k m \<noteq> None"
proof -
  have keep: "fold (put_op upd) xs E k m \<noteq> None" if "E k m \<noteq> None" for xs and E :: entries
    using that
  proof (induction xs arbitrary: E)
    case (Cons x xs)
    have "put_op upd x E k m \<noteq> None" using Cons.prems by (simp add: put_op_def)
    then show ?case using Cons.IH [of "put_op upd x E"] by simp
  qed simp
  show ?thesis using assms
  proof (induction ops arbitrary: E)
    case (Cons x xs)
    then show ?case
    proof (cases "x = op")
      case True
      have "put_op upd x E k m \<noteq> None" using Cons.prems True by (simp add: put_op_def)
      then show ?thesis using keep [of "put_op upd x E"] by simp
    next
      case False
      then show ?thesis using Cons by simp
    qed
  qed simp
qed

lemma submitted_ranked:
  assumes "rs (RApp rec) (RBoard rec) = Some lb" "Op rec \<noteq> OpRemove"
    and "k \<in> set (DerivePhysicalBoards lb \<lparr>EMember = RMember rec, EScore = RScore rec, ETime = RTime rec, ESegments = RSegments rec\<rparr>)"
  shows "rec_eff upd rs rec E k (RMember rec) \<noteq> None"
proof -
  have "\<exists>op \<in> set (recordToOps lb rec). Key (OpBoard op) = k \<and> OpMember op = RMember rec"
    using assms(3) by (auto simp: recordToOps_def)
  then obtain op where "op \<in> set (recordToOps lb rec)" "Key (OpBoard op) = k" "OpMember op = RMember rec" by blast
  then show ?thesis using put_ops_some [of op "recordToOps lb rec" k "RMember rec" upd E] assms(1,2) by (simp add: rec_eff_def)
qed

lemma replay_snoc:
  assumes "resolver_ok rs" "nul_free (RApp rec)" "route N rec = partitionOf (App k) (BoardName k) m N \<Longrightarrow> L' = L @ [rec]"
    and "route N rec \<noteq> partitionOf (App k) (BoardName k) m N \<Longrightarrow> L' = L"
  shows "replay upd rs k m L' v = rec_eff upd rs rec (\<lambda>k m. replay upd rs k m L v) k m"
proof (cases "touches k m rec")
  case True
  then have "L' = L @ [rec]" using assms(3) by (simp add: touches_def route_def)
  then show ?thesis using True rec_eff_local [of "\<lambda>k m. replay upd rs k m L v" k m "\<lambda>_ _. replay upd rs k m L v"]
    by (simp add: replay_append) (simp add: replay_def)
next
  case False
  have "replay upd rs k m [rec] x = x" for x using False by (simp add: replay_def)
  then have "replay upd rs k m L' v = replay upd rs k m L v" using assms(3,4)
    by (cases "route N rec = partitionOf (App k) (BoardName k) m N") (simp_all add: replay_append)
  then show ?thesis using rec_eff_other [OF assms(1,2) False] by simp
qed

lemma rec_eff_ID: "rec_eff upd rs (rec\<lparr>ID := i\<rparr>) = rec_eff upd rs rec" "route n (rec\<lparr>ID := i\<rparr>) = route n rec"
proof -
  have "recordToOps lb (rec\<lparr>ID := i\<rparr>) = recordToOps lb rec" for lb by (simp add: recordToOps_def)
  then show "rec_eff upd rs (rec\<lparr>ID := i\<rparr>) = rec_eff upd rs rec" by (simp add: rec_eff_def fun_eq_iff split: option.splits)
qed (simp add: route_def)

subsection \<open>The server in memory\<close>

lemma part_frame: "part sel upd m s = (x, s') \<Longrightarrow> \<exists>t. s' = upd t s"
  by (auto simp: part_def split: prod.splits)

lemma sys_log_contract: "event_log sys_log (\<lambda>s. mem_recs (sy_log s)) (\<lambda>s. mem_wf (sy_log s))"
proof -
  note d = mem_events.append_ok mem_events.append_err mem_events.routed mem_events.in_range mem_events.read mem_events.partitions
  have p: "Partitions sys_log = Partitions mem_log" by (simp add: sys_log_def mem_log_def)
  have a: "Append mem_log rec (sy_log s) = (x, sy_log s')" if "Append sys_log rec s = (x, s')" for rec s x s'
    using that by (auto simp: sys_log_def mem_log_def part_def split: prod.splits)
  show ?thesis
  proof (unfold_locales, unfold p)
    fix s rec rec' s' assume "mem_wf (sy_log s)" "utf8_rec rec" "Append sys_log rec s = (Inr rec', s')"
    then show "mem_wf (sy_log s') \<and> (\<exists>i. rec' = rec\<lparr>ID := i\<rparr>) \<and> mem_recs (sy_log s') =
        (mem_recs (sy_log s))(route (Partitions mem_log) rec := mem_recs (sy_log s) (route (Partitions mem_log) rec) @ [rec'])"
      using d(1) [of "sy_log s" rec rec' "sy_log s'"] a by blast
  next
    fix s rec e s' assume "mem_wf (sy_log s)" "Append sys_log rec s = (Inl e, s')"
    then show "mem_wf (sy_log s') \<and> mem_recs (sy_log s') = mem_recs (sy_log s)" using d(2) [of "sy_log s" rec e "sy_log s'"] a by blast
  next
    fix s :: sys and p i and k :: int assume "mem_wf (sy_log s)" "0 \<le> p" "p < Partitions mem_log" "i \<le> length (mem_recs (sy_log s) p)" "0 < k" "k \<le> 65536"
      "int (length (mem_recs (sy_log s) p)) < 2 ^ 62"
    from d(5) [OF this] show "ReadPartition sys_log p (cursor_at (mem_recs (sy_log s) p) i) k s = (Inr (take (nat k) (drop i (mem_recs (sy_log s) p))), s)"
      by (simp add: sys_log_def mem_log_def part_def)
  qed (use d(3,4,6) in auto)
qed

lemma sys_dedup_contract: "deduper sys_dedup sy_dedup (\<lambda>_. True)"
  by unfold_locales (simp_all add: sys_dedup_def part_def md_SeenOrMark_def md_Unmark_def insert_absorb)

text \<open>Nothing but the log and the deduper touches the log and the marks.\<close>

definition keeps_log :: "sys \<Rightarrow> sys \<Rightarrow> bool" where
  "keeps_log s s' \<longleftrightarrow> sy_log s' = sy_log s \<and> sy_dedup s' = sy_dedup s"

lemma keeps_parts:
  "keeps_log s (snd (on_store m s))" "keeps_log s (snd (on_accounts m' s))" "keeps_log s (snd (on_players m'' s))"
  by (simp_all add: keeps_log_def part_def split: prod.splits)

lemma keeps_trans: "keeps_log s s' \<Longrightarrow> keeps_log s' s'' \<Longrightarrow> keeps_log s s''"
  by (simp add: keeps_log_def)

lemma keeps_session: "keeps_log s (fst (snd (UserFromSession sys_accounts tok (s, e))))"
proof -
  obtain x s1 where 1: "on_accounts (am_UserID tok) s = (x, s1)" by fastforce
  then have k: "keeps_log s s1" using keeps_parts(2) [of s "am_UserID tok"] by simp
  have l: "SessUserID (svc_sessions sys_accounts) = (\<lambda>t. on_accounts (am_UserID t)) \<and>
      GetByID (svc_users sys_accounts) = (\<lambda>i. on_accounts (am_GetByID i))"
    by (simp add: sys_accounts_def NewService_def Let_def)
  show ?thesis
  proof (cases x)
    case (Inl err)
    then show ?thesis using k by (simp add: UserFromSession_def l Accounts.on_fst_def io_bind_def 1)
  next
    case (Inr uid)
    obtain y s2 where 2: "on_accounts (am_GetByID uid) s1 = (y, s2)" by fastforce
    then have "keeps_log s1 s2" using keeps_parts(2) [of s1 "am_GetByID uid"] by simp
    then show ?thesis using keeps_trans [OF k] by (simp add: UserFromSession_def l Accounts.on_fst_def io_bind_def 1 2 Inr)
  qed
qed

lemma sys_lookups:
  assumes "f \<in> lookups sys_server" "f (s, e) = (s', e')"
  shows "keeps_log s s'"
proof -
  consider tok where "f = (\<lambda>x. snd (UserFromSession sys_accounts tok x))" | key where "f = (\<lambda>(s, e). (snd (on_store (tm_AuthKey key) s), e))"
    | i where "f = (\<lambda>(s, e). (snd (on_store (tm_GetApp i) s), e))"
    using assms(1) by (auto simp: lookups_def sys_server_sel sys_store_def)
  then show ?thesis
  proof cases
    case 1
    then show ?thesis using assms(2) keeps_session [of s tok e] by simp
  qed (use assms(2) keeps_parts(1) in auto)
qed

interpretation memory_front: served_front sys_log "\<lambda>s. mem_recs (sy_log s)" "\<lambda>s. mem_wf (sy_log s)" sys_dedup sy_dedup "\<lambda>_. True" sys_server
proof (intro served_front.intro ingest_front.intro sys_log_contract sys_dedup_contract ingest_front_axioms.intro served_front_axioms.intro)
  show "ilog (srv_ing sys_server) = sys_log" "ideduper (srv_ing sys_server) = sys_dedup" by (simp_all add: sys_server_def NewServer_def NewIngestor_def)
next
  fix f s and e :: "Message list" and s' e' assume "f \<in> lookups sys_server" "f (s, e) = (s', e')"
  then have "keeps_log s s'" by (rule sys_lookups)
  then show "mem_wf (sy_log s) \<Longrightarrow> mem_wf (sy_log s') \<and> True \<and> mem_recs (sy_log s') = mem_recs (sy_log s) \<and> sy_dedup s' = sy_dedup s"
    by (simp add: keeps_log_def)
next
  fix i m t s x s' assume "ps_Authorize (srv_players sys_server) i m t s = (x, s')"
  then have "keeps_log s s'" using keeps_parts(3) [of s "mem_Authorize i m t"] by (simp add: sys_server_def NewServer_def sys_players_def)
  then show "mem_wf (sy_log s) \<Longrightarrow> mem_wf (sy_log s') \<and> True \<and> mem_recs (sy_log s') = mem_recs (sy_log s) \<and> sy_dedup s' = sy_dedup s"
    by (simp add: keeps_log_def)
qed (auto simp: sys_log_def sys_dedup_def part_def split: prod.splits)

subsection \<open>From a request to the ranking\<close>


subsection \<open>An instance\<close>

definition served_rec :: Record where
  "served_rec = stamp epoch2020 (submit_record demo_app ''kills'' (zero_submit\<lparr>sr_Member := ''al''\<rparr>))"

definition served_rs :: resolver where
  "served_rs = reg_Resolve (Register plain_board NewStaticRegistry)"

lemma served_rs_eq: "served_rs a b = (if regKey a b = regKey ''app1'' ''kills'' then Some plain_board else None)"
  by (auto simp: served_rs_def reg_Resolve_def Register_def NewStaticRegistry_def plain_board_def)

lemma served_log_ok: "log_ok (op_fine (cvt_oor mem_redis) served_rs 10) (lb_fine served_rs) served_rs (mem_recs [served_rec\<lparr>ID := mem_id 0\<rparr>])"
proof -
  have r: "resolver_ok served_rs" unfolding served_rs_def
    by (intro registry_resolves registry_ok_Register registry_ok_New) (simp add: plain_board_def nul_free_def)
  have p: "nul_free (RApp served_rec)" "RApp served_rec = ''app1''" "RBoard served_rec = ''kills''" "Op served_rec \<noteq> OpRemove"
    "LApp plain_board = ''app1''" "LBoard plain_board = ''kills''" by code_simp+
  have v: "list_all (\<lambda>op. board_validate (OpBoard op) = Inr () \<and> key_validate (Key (OpBoard op)) = Inr () \<and>
      (case op_enc (cvt_oor mem_redis) op of Inl _ \<Rightarrow> False | Inr _ \<Rightarrow> True) \<and> \<bar>OpScore op\<bar> \<le> 10) (recordToOps plain_board (served_rec\<lparr>ID := mem_id 0\<rparr>))"
    by code_simp
  have "op_fine (cvt_oor mem_redis) served_rs 10 op" if "op \<in> set (recordToOps plain_board (served_rec\<lparr>ID := mem_id 0\<rparr>))" for op
  proof -
    have o: "board_validate (OpBoard op) = Inr ()" "key_validate (Key (OpBoard op)) = Inr ()"
      "\<exists>e. op_enc (cvt_oor mem_redis) op = Inr e" "\<bar>OpScore op\<bar> \<le> of_int 10"
      using v that by (cases "op_enc (cvt_oor mem_redis) op"; fastforce simp: list_all_iff)+
    note sel = recordToOps_sel [OF that]
    have "served_rs (App (Key (OpBoard op))) (BoardName (Key (OpBoard op))) = Some plain_board" using sel p(5,6) by (simp add: served_rs_eq)
    moreover have "OpBoard op = \<lparr>Key = Key (OpBoard op), Config = LConfig plain_board\<rparr>" using sel by simp
    ultimately have "OpBoard op \<in> Projection.boards_of served_rs" using o(2) unfolding Projection.boards_of_def by blast
    with o show ?thesis by (simp add: op_fine_def)
  qed
  then have "rec_ok (op_fine (cvt_oor mem_redis) served_rs 10) (lb_fine served_rs) served_rs (served_rec\<lparr>ID := mem_id 0\<rparr>)"
    using p by (simp add: rec_ok_def served_rs_eq)
  then show ?thesis using r by (simp add: log_ok_def mem_recs_def)
qed

lemma served_engine_ok: "n \<le> 10 \<Longrightarrow> eng_ok (cvt_oor mem_redis) served_rs 10 n (mem_ks [])"
proof (rule fresh_engine_ok)
  have "\<not> ApproxRank (withDefaults (LConfig plain_board))" by code_simp
  then show "served_rs a b = Some lb \<Longrightarrow> \<not> ApproxRank (withDefaults (LConfig lb))" for a b lb by (auto simp: served_rs_eq split: if_splits)
qed simp_all

lemma served_caller: "data_caller sys_server demo_request (demo_world b) = Tenant demo_app True"
  by (simp add: data_caller_def session_user_def owned_def demo_request_checks demo_request_sel sys_server_sel demo_user demo_owned Let_def)
    (simp add: demo_app_def toy_user_def)

lemma served_log: "sy_log (wst (snd (requireApp sys_server (handleSubmit sys_server) demo_request no_ctx (demo_world True)))) = [served_rec\<lparr>ID := mem_id 0\<rparr>]"
proof -
  have "in_now demo_request 1 = epoch2020" by (simp add: demo_request_def demo_submission_def request_def)
  then show ?thesis unfolding demo_requireApp demo_handleSubmit
    by (simp add: ing_call_def call_def ing_Submit_def submit_record_def zero_submit_def demo_app_def demo_ing sys_log_def part_def mem_Append_def stamp_def Let_def
      crashed_def submit_outcome_def submits_inc_def writeErr_def writeJSON_def reply_def resp_def served_rec_def)
      (simp add: demo_world_def new_world_def new_sys_def)
qed


end
