(* ===== verification/Sdk.thy ===== *)
theory Sdk
  imports Api_Router
begin

text \<open>
  The Go client, \<open>pkg/sdk/client.go\<close>, and what it uses of \<open>net/url\<close>. The transport \<open>http.Client.Do\<close> is a
  parameter, and so is the grammar of JSON texts; the body of a request is the value its JSON denotes.
  The requests the client sends are those the server's routes read, name for name.
\<close>

subsection \<open>Escaping (\<open>net/url\<close>)\<close>

definition hex_upper :: "nat \<Rightarrow> char" where
  "hex_upper n = ''0123456789ABCDEF'' ! n"

definition is_hex :: "char \<Rightarrow> bool" where
  "is_hex c \<longleftrightarrow> c \<in> set ''0123456789ABCDEFabcdef''"

definition hex_val :: "char \<Rightarrow> nat" where
  "hex_val c = (let n = of_char c in if n \<le> 0x39 then n - 0x30 else if n \<le> 0x46 then n - 0x37 else n - 0x57)"

definition unreserved :: "char \<Rightarrow> bool" where
  "unreserved c \<longleftrightarrow> (let n = of_char c :: nat in 0x61 \<le> n \<and> n \<le> 0x7A \<or> 0x41 \<le> n \<and> n \<le> 0x5A \<or> 0x30 \<le> n \<and> n \<le> 0x39 \<or> c \<in> set ''-_.~'')"

definition percent :: "char \<Rightarrow> string" where
  "percent c = [CHR ''%'', hex_upper (of_char c div 16), hex_upper (of_char c mod 16)]"

definition escape :: "(char \<Rightarrow> bool) \<Rightarrow> bool \<Rightarrow> string \<Rightarrow> string" where
  "escape lit sp s = concat (map (\<lambda>c. if sp \<and> c = CHR '' '' then ''+'' else if lit c then [c] else percent c) s)"

definition PathEscape :: "string \<Rightarrow> string" where
  "PathEscape = escape (\<lambda>c. unreserved c \<or> c \<in> set ''$&+:=@'') False"

definition QueryEscape :: "string \<Rightarrow> string" where
  "QueryEscape = escape unreserved True"

fun unescape :: "bool \<Rightarrow> string \<Rightarrow> string option" where
  "unescape sp [] = Some []"
| "unescape sp (c # cs) =
     (if c = CHR ''%'' then
        (case cs of a # b # ds \<Rightarrow> if is_hex a \<and> is_hex b then map_option (Cons (char_of (16 * hex_val a + hex_val b))) (unescape sp ds) else None
         | _ \<Rightarrow> None)
      else map_option (Cons (if sp \<and> c = CHR ''+'' then CHR '' '' else c)) (unescape sp cs))"

text \<open>\<open>url.Values\<close> with one value per key: \<open>Set\<close>, and \<open>Encode\<close>, which sorts by key.\<close>

definition vset :: "string \<Rightarrow> string \<Rightarrow> (string \<times> string) list \<Rightarrow> (string \<times> string) list" where
  "vset key v vs = (key, v) # filter (\<lambda>x. fst x \<noteq> key) vs"

definition Encode :: "(string \<times> string) list \<Rightarrow> string" where
  "Encode vs = join ''&'' (map (\<lambda>(key, v). QueryEscape key @ ''='' @ QueryEscape v) (sort_key fst vs))"

definition contains :: "string \<Rightarrow> string \<Rightarrow> bool" where
  "contains s sub = list_ex (\<lambda>i. has_prefix (drop i s) sub) [0..<length s + 1]"

subsection \<open>The client\<close>

datatype sdk_err = SdkNotFound | SdkNicknameTaken | SdkMemberTaken | SdkStatus string string int string | SdkJSON | SdkErr err

record SdkEntry =
  seMember :: string
  seScore :: rat
  seRank :: int
  seExact :: bool
  seNickname :: string

record BoardDef =
  bdBoard :: string
  bdSortOrder :: string
  bdUpdatePolicy :: string
  bdTieBreak :: string
  bdScoreBits :: nat
  bdWindows :: "WindowSpec list"

record QueryOpts =
  qSegment :: string
  qWindow :: string

record Submission =
  suMember :: string
  suScore :: rat
  suTime :: gotime
  suSegments :: "string list"
  suIdem :: string
  suSig :: string
  suTS :: int
  suNonce :: string

record SdkUser =
  sdUserID :: string
  sdNickname :: string
  sdCreatedAt :: gotime
  sdUpdatedAt :: gotime

definition opts_values :: "QueryOpts \<Rightarrow> (string \<times> string) list" where
  "opts_values q = (let v = []; v = (if qSegment q \<noteq> [] then vset ''segment'' (qSegment q) v else v) in
     if qWindow q \<noteq> [] then vset ''window'' (qWindow q) v else v)"

text \<open>
  What a request body holds, and \<open>json.Marshal\<close> on it: strings become valid UTF-8, and a time outside the
  years 0 to 9999 is an error. \<open>omitempty\<close> drops empty fields, which the server reads as empty.
\<close>

datatype cbody = CBoard BoardDef | CScore Submission | CMembers "string list" | CNames "(string \<times> string) list"

definition utf8_board :: "BoardDef \<Rightarrow> BoardDef" where
  "utf8_board d = d\<lparr>bdBoard := to_utf8 (bdBoard d), bdSortOrder := to_utf8 (bdSortOrder d), bdUpdatePolicy := to_utf8 (bdUpdatePolicy d),
     bdTieBreak := to_utf8 (bdTieBreak d), bdWindows := map (\<lambda>w. \<lparr>Kind = to_utf8 (Kind w), CustomID = to_utf8 (CustomID w)\<rparr>) (bdWindows d)\<rparr>"

definition utf8_submission :: "Submission \<Rightarrow> Submission" where
  "utf8_submission u = u\<lparr>suMember := to_utf8 (suMember u), suSegments := map to_utf8 (suSegments u), suIdem := to_utf8 (suIdem u),
     suSig := to_utf8 (suSig u), suNonce := to_utf8 (suNonce u)\<rparr>"

definition marshal_body :: "cbody \<Rightarrow> cbody option" where
  "marshal_body b = (case b of
     CBoard d \<Rightarrow> Some (CBoard (utf8_board d))
   | CScore u \<Rightarrow> if json_year (suTime u) then Some (CScore (utf8_submission u)) else None
   | CMembers ms \<Rightarrow> Some (CMembers (map to_utf8 ms))
   | CNames ns \<Rightarrow> Some (CNames (map (\<lambda>(n, v). (to_utf8 n, to_utf8 v)) ns)))"

record 's Client =
  baseURL :: string
  apiKey :: string
  http_Do :: "string \<Rightarrow> string \<Rightarrow> (string \<times> string) list \<Rightarrow> cbody option \<Rightarrow> ('s, int \<times> string) io"
  lib_json :: "string \<Rightarrow> jval option"

text \<open>\<open>New\<close> makes its own transport, here \<open>tr\<close>, which also reports a URL that does not parse.\<close>

definition cl_New :: "string \<Rightarrow> string \<Rightarrow> (string \<Rightarrow> string \<Rightarrow> (string \<times> string) list \<Rightarrow> cbody option \<Rightarrow> ('s, int \<times> string) io) \<Rightarrow> (string \<Rightarrow> jval option) \<Rightarrow> 's Client" where
  "cl_New base key tr js = \<lparr>baseURL = base, apiKey = key, http_Do = tr, lib_json = js\<rparr>"

text \<open>\<open>do\<close> returns the status, the error and what it decoded into \<open>out\<close>; \<open>out\<close> is \<open>None\<close> for a nil target.\<close>

definition do_reply :: "'s Client \<Rightarrow> string \<Rightarrow> string \<Rightarrow> (jval \<Rightarrow> 'o \<Rightarrow> 'o \<times> bool) option \<Rightarrow> 'o \<Rightarrow> int \<Rightarrow> string \<Rightarrow> int \<times> sdk_err option \<times> 'o" where
  "do_reply c method path out z code data =
     (if code = 404 then (code, Some SdkNotFound, z)
      else if code = 409 then (code, Some (if contains data ''member_taken'' then SdkMemberTaken else SdkNicknameTaken), z)
      else if 400 \<le> code then (code, Some (SdkStatus method path code data), z)
      else (case out of None \<Rightarrow> (code, None, z)
        | Some d \<Rightarrow> if data = [] then (code, None, z)
            else (case lib_json c data of None \<Rightarrow> (code, Some SdkJSON, z)
              | Some v \<Rightarrow> (case d v z of (x, ok) \<Rightarrow> (code, if ok then None else Some SdkJSON, x)))))"

definition cl_do :: "'s Client \<Rightarrow> string \<Rightarrow> string \<Rightarrow> cbody option \<Rightarrow> (jval \<Rightarrow> 'o \<Rightarrow> 'o \<times> bool) option \<Rightarrow> 'o \<Rightarrow> 's \<Rightarrow> (int \<times> sdk_err option \<times> 'o) \<times> 's" where
  "cl_do c method path body out z s =
     (let send = (\<lambda>b. case http_Do c method (baseURL c @ path)
              ([(''Authorization'', ''Bearer '' @ apiKey c)] @ (if body \<noteq> None then [(''Content-Type'', ''application/json'')] else [])) b s of
            (Inl e, s) \<Rightarrow> ((0, Some (SdkErr e), z), s)
          | (Inr (code, data), s) \<Rightarrow> (do_reply c method path out z code data, s))
      in case body of None \<Rightarrow> send None
        | Some b \<Rightarrow> (case marshal_body b of None \<Rightarrow> ((0, Some SdkJSON, z), s) | Some b \<Rightarrow> send (Some b)))"

definition err_of :: "(int \<times> sdk_err option \<times> 'o) \<times> 's \<Rightarrow> sdk_err option \<times> 's" where
  "err_of x = (fst (snd (fst x)), snd x)"

definition out_of :: "(int \<times> sdk_err option \<times> 'o) \<times> 's \<Rightarrow> ('o \<times> sdk_err option) \<times> 's" where
  "out_of x = ((snd (snd (fst x)), fst (snd (fst x))), snd x)"

definition cl_CreateBoard :: "'s Client \<Rightarrow> BoardDef \<Rightarrow> 's \<Rightarrow> sdk_err option \<times> 's" where
  "cl_CreateBoard c d s = err_of (cl_do c ''POST'' ''/v1/boards'' (Some (CBoard d)) None () s)"

definition cl_Submit :: "'s Client \<Rightarrow> string \<Rightarrow> Submission \<Rightarrow> 's \<Rightarrow> (bool \<times> sdk_err option) \<times> 's" where
  "cl_Submit c board sub s =
     (case cl_do c ''POST'' (''/v1/boards/'' @ PathEscape board @ ''/scores'') (Some (CScore sub)) (Some (decode_struct [(''accepted'', jbool (\<lambda>b _. b))])) False s of
        ((code, Some e, x), s) \<Rightarrow> ((False, Some e), s)
      | ((code, None, x), s) \<Rightarrow> ((x, None), s))"

definition zero_entry :: SdkEntry where
  "zero_entry = \<lparr>seMember = [], seScore = 0, seRank = 0, seExact = False, seNickname = []\<rparr>"

definition entry_fields :: "SdkEntry jfield list" where
  "entry_fields = [(''member'', jstring (\<lambda>x e. e\<lparr>seMember := x\<rparr>)), (''score'', jnum parse_float (\<lambda>x e. e\<lparr>seScore := x\<rparr>)),
     (''rank'', jnum atoi (\<lambda>x e. e\<lparr>seRank := x\<rparr>)), (''exact'', jbool (\<lambda>x e. e\<lparr>seExact := x\<rparr>)), (''nickname'', jstring (\<lambda>x e. e\<lparr>seNickname := x\<rparr>))]"

definition entries_out :: "jval \<Rightarrow> SdkEntry list \<Rightarrow> SdkEntry list \<times> bool" where
  "entries_out = decode_struct [(''entries'', jslice (decode_struct entry_fields) zero_entry (\<lambda>q. q) (\<lambda>es _. es))]"

definition cl_GetRank :: "'s Client \<Rightarrow> string \<Rightarrow> string \<Rightarrow> QueryOpts \<Rightarrow> 's \<Rightarrow> (SdkEntry \<times> sdk_err option) \<times> 's" where
  "cl_GetRank c board member opts s =
     (let v = vset ''member'' member (opts_values opts) in
      out_of (cl_do c ''GET'' (''/v1/boards/'' @ PathEscape board @ ''/rank?'' @ Encode v) None (Some (decode_struct entry_fields)) zero_entry s))"

definition cl_GetApproxRank :: "'s Client \<Rightarrow> string \<Rightarrow> string \<Rightarrow> QueryOpts \<Rightarrow> 's \<Rightarrow> (SdkEntry \<times> sdk_err option) \<times> 's" where
  "cl_GetApproxRank c board member opts s =
     (let v = vset ''approx'' ''true'' (vset ''member'' member (opts_values opts)) in
      out_of (cl_do c ''GET'' (''/v1/boards/'' @ PathEscape board @ ''/rank?'' @ Encode v) None (Some (decode_struct entry_fields)) zero_entry s))"

definition listEndpoint :: "'s Client \<Rightarrow> string \<Rightarrow> 's \<Rightarrow> (SdkEntry list \<times> sdk_err option) \<times> 's" where
  "listEndpoint c path s = out_of (cl_do c ''GET'' path None (Some entries_out) [] s)"

definition cl_Top :: "'s Client \<Rightarrow> string \<Rightarrow> int \<Rightarrow> QueryOpts \<Rightarrow> 's \<Rightarrow> (SdkEntry list \<times> sdk_err option) \<times> 's" where
  "cl_Top c board n opts s =
     (let v = vset ''n'' (itoa n) (opts_values opts) in listEndpoint c (''/v1/boards/'' @ PathEscape board @ ''/top?'' @ Encode v) s)"

definition cl_Neighbors :: "'s Client \<Rightarrow> string \<Rightarrow> string \<Rightarrow> int \<Rightarrow> QueryOpts \<Rightarrow> 's \<Rightarrow> (SdkEntry list \<times> sdk_err option) \<times> 's" where
  "cl_Neighbors c board member k opts s =
     (let v = vset ''k'' (itoa k) (vset ''member'' member (opts_values opts)) in
      listEndpoint c (''/v1/boards/'' @ PathEscape board @ ''/neighbors?'' @ Encode v) s)"

definition cl_Friends :: "'s Client \<Rightarrow> string \<Rightarrow> string list \<Rightarrow> QueryOpts \<Rightarrow> 's \<Rightarrow> (SdkEntry list \<times> sdk_err option) \<times> 's" where
  "cl_Friends c board memberIDs opts s =
     out_of (cl_do c ''POST'' (''/v1/boards/'' @ PathEscape board @ ''/friends?'' @ Encode (opts_values opts)) (Some (CMembers memberIDs)) (Some entries_out) [] s)"

text \<open>
  \<open>time.Time.UnmarshalJSON\<close>: a string with a time of RFC 3339 in its strict form, with two digits of the hour,
  a point before the fraction and an offset below 24:00.
\<close>

definition strict_rfc3339 :: "string \<Rightarrow> gotime option" where
  "strict_rfc3339 s = (case parse_rfc3339 s of None \<Rightarrow> None
     | Some t \<Rightarrow> if s ! 12 = CHR '':'' \<or> s ! 19 = CHR '','' then None
         else if last s \<noteq> CHR ''Z'' \<and> (24 \<le> digits_val (take 2 (drop (length s - 5) s)) \<or> 60 \<le> digits_val (drop (length s - 2) s)) then None
         else Some t)"

definition jtime :: "(gotime \<Rightarrow> 'r \<Rightarrow> 'r) \<Rightarrow> jval \<Rightarrow> 'r \<Rightarrow> 'r \<times> bool" where
  "jtime upd v r = (case v of JNull \<Rightarrow> (r, True)
     | JStr raw _ \<Rightarrow> (case strict_rfc3339 raw of Some t \<Rightarrow> (upd t r, True) | None \<Rightarrow> (r, False)) | _ \<Rightarrow> (r, False))"

definition zero_user :: SdkUser where
  "zero_user = \<lparr>sdUserID = [], sdNickname = [], sdCreatedAt = 0, sdUpdatedAt = 0\<rparr>"

definition sdk_user_fields :: "SdkUser jfield list" where
  "sdk_user_fields = [(''user_id'', jstring (\<lambda>x u. u\<lparr>sdUserID := x\<rparr>)), (''nickname'', jstring (\<lambda>x u. u\<lparr>sdNickname := x\<rparr>)),
     (''created_at'', jtime (\<lambda>x u. u\<lparr>sdCreatedAt := x\<rparr>)), (''updated_at'', jtime (\<lambda>x u. u\<lparr>sdUpdatedAt := x\<rparr>))]"

text \<open>\<open>opts\<close> are the options passed, of which the first counts; an option is the member to claim.\<close>

definition cl_RegisterUser :: "'s Client \<Rightarrow> string \<Rightarrow> string list \<Rightarrow> 's \<Rightarrow> (SdkUser \<times> sdk_err option) \<times> 's" where
  "cl_RegisterUser c nickname opts s =
     (let body = [(''nickname'', nickname)] @ (if opts \<noteq> [] \<and> hd opts \<noteq> [] then [(''member'', hd opts)] else []) in
      out_of (cl_do c ''POST'' ''/v1/users'' (Some (CNames body)) (Some (decode_struct sdk_user_fields)) zero_user s))"

definition cl_GetUser :: "'s Client \<Rightarrow> string \<Rightarrow> 's \<Rightarrow> (SdkUser \<times> sdk_err option) \<times> 's" where
  "cl_GetUser c i s = out_of (cl_do c ''GET'' (''/v1/users/'' @ PathEscape i) None (Some (decode_struct sdk_user_fields)) zero_user s)"

definition cl_UserByNickname :: "'s Client \<Rightarrow> string \<Rightarrow> 's \<Rightarrow> (SdkUser \<times> sdk_err option) \<times> 's" where
  "cl_UserByNickname c nickname s =
     out_of (cl_do c ''GET'' (''/v1/users?nickname='' @ QueryEscape nickname) None (Some (decode_struct sdk_user_fields)) zero_user s)"

definition cl_RenameUser :: "'s Client \<Rightarrow> string \<Rightarrow> string \<Rightarrow> 's \<Rightarrow> (SdkUser \<times> sdk_err option) \<times> 's" where
  "cl_RenameUser c i nickname s =
     out_of (cl_do c ''PATCH'' (''/v1/users/'' @ PathEscape i) (Some (CNames [(''nickname'', nickname)])) (Some (decode_struct sdk_user_fields)) zero_user s)"

definition cl_RemoveScore :: "'s Client \<Rightarrow> string \<Rightarrow> string \<Rightarrow> 's \<Rightarrow> sdk_err option \<times> 's" where
  "cl_RemoveScore c board member s = err_of (cl_do c ''DELETE'' (''/v1/boards/'' @ PathEscape board @ ''/scores/'' @ PathEscape member) None None () s)"

definition cl_DeleteUser :: "'s Client \<Rightarrow> string \<Rightarrow> 's \<Rightarrow> sdk_err option \<times> 's" where
  "cl_DeleteUser c i s = err_of (cl_do c ''DELETE'' (''/v1/users/'' @ PathEscape i) None None () s)"

subsection \<open>What the server reads\<close>

text \<open>
  The target of a request as \<open>net/http\<close> gives it to the router and the handlers: the unescaped segments
  of the path, and the first value of each query parameter (\<open>url.ParseQuery\<close> skips what it cannot read).
\<close>

definition parse_query :: "string \<Rightarrow> (string \<times> string) list" where
  "parse_query q = List.map_filter (\<lambda>p. if p = [] \<or> CHR '';'' \<in> set p then None
     else (case cut_at (\<lambda>c. c = CHR ''='') p of (key, v) \<Rightarrow>
       (case (unescape True key, unescape True v) of (Some key, Some v) \<Rightarrow> Some (key, v) | _ \<Rightarrow> None))) (split_on CHR ''&'' q)"

definition server_view :: "string \<Rightarrow> (string list \<times> (string \<Rightarrow> string)) option" where
  "server_view target = (case cut_at (\<lambda>c. c = CHR ''?'') target of (p, q) \<Rightarrow>
     map_option (\<lambda>segs. (segs, \<lambda>n. case map_of (parse_query q) n of Some v \<Rightarrow> v | None \<Rightarrow> [])) (those (map (unescape False) (segments p))))"

definition arrives :: "string \<Rightarrow> string \<Rightarrow> (string \<times> string) list \<Rightarrow> (string \<times> string) list \<Rightarrow> bool" where
  "arrives target pat vals query \<longleftrightarrow> (case server_view target of None \<Rightarrow> False
     | Some (segs, q) \<Rightarrow> match_segments (segments pat) segs = Some vals \<and> (\<forall>s \<in> set segs. s \<notin> {[], ''.'', ''..''}) \<and>
         (\<forall>n. q n = (case map_of query n of Some v \<Rightarrow> v | None \<Rightarrow> [])))"

lemma hex_digits: "n < 16 \<Longrightarrow> is_hex (hex_upper n) \<and> hex_val (hex_upper n) = n"
proof -
  have "list_all (\<lambda>n. is_hex (hex_upper n) \<and> hex_val (hex_upper n) = n) [0..<16]" by code_simp
  then show "n < 16 \<Longrightarrow> ?thesis" by (simp add: list_all_iff)
qed

lemma nibbles: "of_char c div 16 < (16::nat)" "of_char c mod 16 < (16::nat)"
  using nat_of_char_less_256 [of c] by (simp_all add: less_mult_imp_div_less)

lemma unescape_percent: "unescape sp (percent c @ t) = map_option (Cons c) (unescape sp t)"
  by (simp add: percent_def hex_digits [OF nibbles(1)] hex_digits [OF nibbles(2)])

lemma unescape_escape:
  assumes "\<And>c. lit c \<Longrightarrow> c \<noteq> CHR ''%'' \<and> c \<noteq> CHR ''+'' \<or> c \<noteq> CHR ''%'' \<and> \<not> sp"
  shows "unescape sp (escape lit sp s) = Some s"
proof (induction s)
  case (Cons c s)
  have e: "escape lit sp (c # s) = (if sp \<and> c = CHR '' '' then ''+'' else if lit c then [c] else percent c) @ escape lit sp s"
    by (simp add: escape_def)
  show ?case unfolding e using Cons.IH assms [of c] by (auto simp: unescape_percent)
qed (simp add: escape_def)

lemma unescape_path: "unescape False (PathEscape s) = Some s"
  unfolding PathEscape_def by (rule unescape_escape) (auto simp: unreserved_def)

lemma unescape_query: "unescape True (QueryEscape s) = Some s"
  unfolding QueryEscape_def by (rule unescape_escape) (auto simp: unreserved_def)

lemma hex_upper_plain: "n < 16 \<Longrightarrow> hex_upper n \<notin> set ''/?&=;#''"
proof -
  have "list_all (\<lambda>n. hex_upper n \<notin> set ''/?&=;#'') [0..<16]" by code_simp
  then show "n < 16 \<Longrightarrow> ?thesis" by (simp add: list_all_iff)
qed

lemma escape_free:
  assumes "x \<in> set ''/?&=;#''" "\<not> lit x"
  shows "x \<notin> set (escape lit sp s)"
proof -
  have "x \<notin> set (percent c)" for c
    using hex_upper_plain [OF nibbles(1), of c] hex_upper_plain [OF nibbles(2), of c] assms(1) by (auto simp: percent_def)
  then show ?thesis using assms by (auto simp: escape_def split: if_splits)
qed

lemma PathEscape_free: "CHR ''/'' \<notin> set (PathEscape s)" "CHR ''?'' \<notin> set (PathEscape s)"
  unfolding PathEscape_def by (rule escape_free; simp add: unreserved_def)+

lemma QueryEscape_free: "CHR ''&'' \<notin> set (QueryEscape s)" "CHR ''='' \<notin> set (QueryEscape s)" "CHR '';'' \<notin> set (QueryEscape s)"
  unfolding QueryEscape_def by (rule escape_free; simp add: unreserved_def)+

lemma split_on_join:
  assumes "xs \<noteq> []" "\<forall>x \<in> set xs. c \<notin> set x"
  shows "split_on c (join [c] xs) = xs"
  using assms by (induction "[c]" xs rule: join.induct) (simp_all add: split_on_append)

lemma cut_at_append: "\<forall>x \<in> set s. \<not> P x \<Longrightarrow> P c \<Longrightarrow> cut_at P (s @ c # t) = (s, t)" "\<forall>x \<in> set s. \<not> P x \<Longrightarrow> cut_at P s = (s, [])"
  by (auto simp: cut_at_def takeWhile_append2 dropWhile_append2 dropWhile_eq_Nil_conv [THEN iffD2])

lemma parse_Encode: "parse_query (Encode vs) = sort_key fst vs"
proof (cases "vs = []")
  case True
  then show ?thesis by (simp add: Encode_def parse_query_def List.map_filter_def)
next
  case False
  define enc where "enc = (\<lambda>(key, v). QueryEscape key @ ''='' @ QueryEscape v)"
  define rd where "rd = (\<lambda>p. if p = [] \<or> CHR '';'' \<in> set p then None
     else (case cut_at (\<lambda>c. c = CHR ''='') p of (key, v) \<Rightarrow>
       (case (unescape True key, unescape True v) of (Some key, Some v) \<Rightarrow> Some (key, v) | _ \<Rightarrow> None)))"
  have r: "rd (enc x) = Some x" for x
  proof -
    obtain key v where x: "x = (key, v)" by fastforce
    have "cut_at (\<lambda>c. c = CHR ''='') (QueryEscape key @ CHR ''='' # QueryEscape v) = (QueryEscape key, QueryEscape v)"
      using QueryEscape_free(2) by (intro cut_at_append(1)) auto
    then show ?thesis by (simp add: x enc_def rd_def unescape_query QueryEscape_free)
  qed
  have "split_on CHR ''&'' (Encode vs) = map enc (sort_key fst vs)"
    unfolding Encode_def enc_def
  proof (intro split_on_join)
    show "map (\<lambda>(key, v). QueryEscape key @ ''='' @ QueryEscape v) (sort_key fst vs) \<noteq> []" using False by (metis set_sort set_empty map_is_Nil_conv)
  qed (auto simp: QueryEscape_free)
  then have "parse_query (Encode vs) = List.map_filter rd (map enc (sort_key fst vs))" unfolding parse_query_def rd_def by simp
  also have "\<dots> = sort_key fst vs" by (simp add: List.map_filter_def comp_def r)
  finally show ?thesis .
qed

lemma map_of_sort: "distinct (map fst vs) \<Longrightarrow> map_of (sort_key fst vs) = map_of vs"
  by (subst map_of_inject_set) (auto simp: distinct_map)

lemma arrives_query:
  assumes "CHR ''?'' \<notin> set p" "those (map (unescape False) (segments p)) = Some segs" "match_segments (segments pat) segs = Some vals"
    "\<forall>s \<in> set segs. s \<notin> {[], ''.'', ''..''}" "distinct (map fst vs)"
    "\<And>n. (case map_of vs n of Some v \<Rightarrow> v | None \<Rightarrow> []) = (case map_of query n of Some v \<Rightarrow> v | None \<Rightarrow> [])"
  shows "arrives (p @ CHR ''?'' # Encode vs) pat vals query"
proof -
  have "cut_at (\<lambda>c. c = CHR ''?'') (p @ CHR ''?'' # Encode vs) = (p, Encode vs)" using assms(1) by (intro cut_at_append(1)) auto
  then show ?thesis using assms by (simp add: arrives_def server_view_def parse_Encode map_of_sort)
qed

lemma arrives_path:
  assumes "CHR ''?'' \<notin> set p" "those (map (unescape False) (segments p)) = Some segs" "match_segments (segments pat) segs = Some vals"
    "\<forall>s \<in> set segs. s \<notin> {[], ''.'', ''..''}"
  shows "arrives p pat vals []"
proof -
  have "cut_at (\<lambda>c. c = CHR ''?'') p = (p, [])" using assms(1) by (intro cut_at_append(2)) auto
  then show ?thesis using assms by (simp add: arrives_def server_view_def parse_query_def List.map_filter_def)
qed

subsection \<open>The requests of the client\<close>

text \<open>A transport that records the requests and answers them with an empty 200.\<close>

type_synonym wire = "string \<times> string \<times> (string \<times> string) list \<times> cbody option"

definition recorder :: "string \<Rightarrow> string \<Rightarrow> wire list Client" where
  "recorder base key = cl_New base key (\<lambda>m u hs b ws. (Inr (200, []), ws @ [(m, u, hs, b)])) (\<lambda>_. None)"

definition sends :: "('s, 'e) Server \<Rightarrow> (wire list Client \<Rightarrow> wire list \<Rightarrow> 'x \<times> wire list) \<Rightarrow> string \<Rightarrow> cbody option \<Rightarrow> string \<Rightarrow> (string \<times> string) list \<Rightarrow> (string \<times> string) list \<Rightarrow> bool" where
  "sends S run m body pat vals query \<longleftrightarrow> m @ '' '' @ pat \<in> fst ` set (data_routes S) \<and> (\<forall>base key. \<exists>t hs. snd (run (recorder base key) []) = [(m, base @ t, hs, body)] \<and>
     (''Authorization'', ''Bearer '' @ key) \<in> set hs \<and> arrives t pat vals query)"

text \<open>A literal segment of a route, and a name that is one segment of a clean path.\<close>

definition lit_seg :: "string \<Rightarrow> bool" where
  "lit_seg s \<longleftrightarrow> unescape False s = Some s \<and> wildcard s = None \<and> s \<notin> {[], ''.'', ''..''} \<and> CHR ''/'' \<notin> set s \<and> CHR ''?'' \<notin> set s"

definition name_ok :: "string \<Rightarrow> bool" where
  "name_ok s \<longleftrightarrow> s \<notin> {[], ''.'', ''..''}"

lemma segments_path: "segments (CHR ''/'' # join ''/'' ss) = ss" if "ss \<noteq> []" "\<forall>s \<in> set ss. CHR ''/'' \<notin> set s"
  using split_on_join [OF that] by (simp add: segments_def)

lemma join_free: "c \<notin> set sep \<Longrightarrow> \<forall>s \<in> set ss. c \<notin> set s \<Longrightarrow> c \<notin> set (join sep ss)"
  by (induction sep ss rule: join.induct) simp_all

text \<open>The segments a client puts in a path: literals of the route, and names.\<close>

datatype part_seg = Lit string | Name string string

definition sent_seg :: "part_seg \<Rightarrow> string" where
  "sent_seg p = (case p of Lit s \<Rightarrow> s | Name _ s \<Rightarrow> PathEscape s)"

definition read_seg :: "part_seg \<Rightarrow> string" where
  "read_seg p = (case p of Lit s \<Rightarrow> s | Name _ s \<Rightarrow> s)"

definition pat_seg :: "part_seg \<Rightarrow> string" where
  "pat_seg p = (case p of Lit s \<Rightarrow> s | Name v _ \<Rightarrow> CHR ''{'' # v @ ''}'')"

definition seg_vals :: "part_seg list \<Rightarrow> (string \<times> string) list" where
  "seg_vals ps = List.map_filter (\<lambda>p. case p of Lit _ \<Rightarrow> None | Name v s \<Rightarrow> Some (v, s)) ps"

definition seg_ok :: "part_seg \<Rightarrow> bool" where
  "seg_ok p = (case p of Lit s \<Rightarrow> lit_seg s | Name v s \<Rightarrow> name_ok s \<and> CHR ''/'' \<notin> set v)"

lemma those_segs: "\<forall>p \<in> set ps. seg_ok p \<Longrightarrow> those (map (\<lambda>p. unescape False (sent_seg p)) ps) = Some (map read_seg ps)"
  by (induction ps) (auto simp: seg_ok_def sent_seg_def read_seg_def lit_seg_def unescape_path split: part_seg.splits)

lemma match_segs: "\<forall>p \<in> set ps. seg_ok p \<Longrightarrow> match_segments (map pat_seg ps) (map read_seg ps) = Some (seg_vals ps)"
proof (induction ps)
  case (Cons p ps)
  have "wildcard (CHR ''{'' # v @ ''}'') = Some v" for v by (simp add: wildcard_def has_prefix_def butlast_append)
  then show ?case using Cons by (cases p) (auto simp: seg_ok_def pat_seg_def read_seg_def lit_seg_def name_ok_def seg_vals_def List.map_filter_def)
qed (simp add: seg_vals_def List.map_filter_def)

lemma segs_arrive:
  assumes "ps \<noteq> []" "\<forall>p \<in> set ps. seg_ok p" "distinct (map fst vs)"
    "\<And>n. (case map_of vs n of Some v \<Rightarrow> v | None \<Rightarrow> []) = (case map_of query n of Some v \<Rightarrow> v | None \<Rightarrow> [])"
  shows "arrives ((CHR ''/'' # join ''/'' (map sent_seg ps)) @ CHR ''?'' # Encode vs) (CHR ''/'' # join ''/'' (map pat_seg ps)) (seg_vals ps) query"
    and "arrives (CHR ''/'' # join ''/'' (map sent_seg ps)) (CHR ''/'' # join ''/'' (map pat_seg ps)) (seg_vals ps) []"
proof -
  have free: "CHR ''/'' \<notin> set (sent_seg p)" "CHR ''?'' \<notin> set (sent_seg p)" "CHR ''/'' \<notin> set (pat_seg p)" "read_seg p \<notin> {[], ''.'', ''..''}" if "p \<in> set ps" for p
    using assms(2) that by (auto simp: seg_ok_def lit_seg_def name_ok_def sent_seg_def pat_seg_def read_seg_def PathEscape_free split: part_seg.splits)
  have q: "CHR ''?'' \<notin> set (CHR ''/'' # join ''/'' (map sent_seg ps))" using join_free [of "CHR ''?''" "''/''" "map sent_seg ps"] free(2) by simp
  have s: "segments (CHR ''/'' # join ''/'' (map sent_seg ps)) = map sent_seg ps" "segments (CHR ''/'' # join ''/'' (map pat_seg ps)) = map pat_seg ps"
    using assms(1) free(1,3) by (intro segments_path; auto)+
  have t: "those (map (unescape False) (map sent_seg ps)) = Some (map read_seg ps)" using those_segs [OF assms(2)] by (simp add: comp_def)
  have c: "\<forall>s \<in> set (map read_seg ps). s \<notin> {[], ''.'', ''..''}" using free(4) by auto
  note m = match_segs [OF assms(2)]
  show "arrives ((CHR ''/'' # join ''/'' (map sent_seg ps)) @ CHR ''?'' # Encode vs) (CHR ''/'' # join ''/'' (map pat_seg ps)) (seg_vals ps) query"
    by (rule arrives_query [OF q _ _ c assms(3,4)]) (use s t m in auto)
  show "arrives (CHR ''/'' # join ''/'' (map sent_seg ps)) (CHR ''/'' # join ''/'' (map pat_seg ps)) (seg_vals ps) []"
    by (rule arrives_path [OF q _ _ c]) (use s t m in auto)
qed

lemma sends_segs:
  assumes "ps \<noteq> []" "\<forall>p \<in> set ps. seg_ok p" "body = None \<or> marshal_body (the body) \<noteq> None"
    and "\<And>c s. snd (run c s) = snd (cl_do c m (CHR ''/'' # join ''/'' (map sent_seg ps) @ qs) body out z s)"
    and "qs = [] \<and> query = [] \<or> qs = CHR ''?'' # Encode vs \<and> distinct (map fst vs) \<and>
      (\<forall>n. (case map_of vs n of Some v \<Rightarrow> v | None \<Rightarrow> []) = (case map_of query n of Some v \<Rightarrow> v | None \<Rightarrow> []))"
    and "pat = CHR ''/'' # join ''/'' (map pat_seg ps)" "vals = seg_vals ps" "m @ '' '' @ pat \<in> fst ` set (data_routes S)" "bd = Option.bind body marshal_body"
  shows "sends S run m bd pat vals query"
proof -
  have "arrives (CHR ''/'' # join ''/'' (map sent_seg ps) @ qs) pat vals query"
    using segs_arrive [OF assms(1,2), of vs query] segs_arrive(2) [OF assms(1,2), of "[]" "[]"] assms(5-7) by auto
  then show ?thesis using assms(3,8,9) assms(4) unfolding sends_def
    by (auto simp: recorder_def cl_New_def cl_do_def Let_def split: option.splits)
qed

lemma opts_values_sel:
  "distinct (map fst (opts_values q))" "fst ` set (opts_values q) \<subseteq> {''segment'', ''window''}"
  "(case map_of (opts_values q) n of Some v \<Rightarrow> v | None \<Rightarrow> []) = (case map_of [(''segment'', qSegment q), (''window'', qWindow q)] n of Some v \<Rightarrow> v | None \<Rightarrow> [])"
  by (auto simp: opts_values_def vset_def Let_def split: if_splits)

lemma vset_sel: "distinct (map fst vs) \<Longrightarrow> distinct (map fst (vset key v vs))" "map_of (vset key v vs) = (map_of vs)(key \<mapsto> v)"
proof -
  show "distinct (map fst vs) \<Longrightarrow> distinct (map fst (vset key v vs))" by (induction vs) (auto simp: vset_def)
  have "map_of (filter (\<lambda>x. fst x \<noteq> key) vs) n = map_of vs n" if "n \<noteq> key" for n using that by (induction vs) auto
  then show "map_of (vset key v vs) = (map_of vs)(key \<mapsto> v)" by (auto simp: vset_def fun_eq_iff)
qed

lemma lits: "lit_seg ''v1'' \<and> lit_seg ''boards'' \<and> lit_seg ''scores'' \<and> lit_seg ''rank'' \<and> lit_seg ''top'' \<and> lit_seg ''neighbors'' \<and> lit_seg ''friends'' \<and> lit_seg ''users''"
  by code_simp

lemma utf8_key: "to_utf8 ''nickname'' = ''nickname''" "to_utf8 ''member'' = ''member''"
  by code_simp+

lemma QueryEscape_nickname: "QueryEscape ''nickname'' = ''nickname''"
  by code_simp

lemmas seg_simps = seg_ok_def sent_seg_def pat_seg_def seg_vals_def List.map_filter_def lits vset_sel opts_values_sel
  out_of_def err_of_def Let_def data_routes_def marshal_body_def listEndpoint_def

lemma sends_CreateBoard:
  shows "sends S (\<lambda>c. cl_CreateBoard c d) ''POST'' (Some (CBoard (utf8_board d))) ''/v1/boards'' [] []"
  by (rule sends_segs [where ps = "[Lit ''v1'', Lit ''boards'']" and qs = "[]" and vs = "[]"
        and body = "Some (CBoard d)" and out = "None" and z = "()"])
    (simp_all add: seg_simps cl_CreateBoard_def)

lemma sends_Submit:
  assumes "name_ok b" "json_year (suTime sub)"
  shows "sends S (\<lambda>c. cl_Submit c b sub) ''POST'' (Some (CScore (utf8_submission sub))) ''/v1/boards/{board}/scores'' [(''board'', b)] []"
  by (rule sends_segs [where ps = "[Lit ''v1'', Lit ''boards'', Name ''board'' b, Lit ''scores'']" and qs = "[]" and vs = "[]"
        and body = "Some (CScore sub)" and out = "Some (decode_struct [(''accepted'', jbool (\<lambda>b _. b))])" and z = "False"])
    (use assms in \<open>simp_all add: seg_simps cl_Submit_def split: prod.splits option.splits\<close>)

lemma sends_GetRank:
  assumes "name_ok b"
  shows "sends S (\<lambda>c. cl_GetRank c b m q) ''GET'' None ''/v1/boards/{board}/rank'' [(''board'', b)] [(''member'', m), (''segment'', qSegment q), (''window'', qWindow q)]"
  by (rule sends_segs [where ps = "[Lit ''v1'', Lit ''boards'', Name ''board'' b, Lit ''rank'']" and qs = "CHR ''?'' # Encode (vset ''member'' m (opts_values q))" and vs = "vset ''member'' m (opts_values q)"
        and body = "None" and out = "Some (decode_struct entry_fields)" and z = "zero_entry"])
    (use assms in \<open>simp_all add: seg_simps cl_GetRank_def\<close>)

lemma sends_GetApproxRank:
  assumes "name_ok b"
  shows "sends S (\<lambda>c. cl_GetApproxRank c b m q) ''GET'' None ''/v1/boards/{board}/rank'' [(''board'', b)] [(''approx'', ''true''), (''member'', m), (''segment'', qSegment q), (''window'', qWindow q)]"
  by (rule sends_segs [where ps = "[Lit ''v1'', Lit ''boards'', Name ''board'' b, Lit ''rank'']" and qs = "CHR ''?'' # Encode (vset ''approx'' ''true'' (vset ''member'' m (opts_values q)))" and vs = "vset ''approx'' ''true'' (vset ''member'' m (opts_values q))"
        and body = "None" and out = "Some (decode_struct entry_fields)" and z = "zero_entry"])
    (use assms in \<open>simp_all add: seg_simps cl_GetApproxRank_def\<close>)

lemma sends_Top:
  assumes "name_ok b"
  shows "sends S (\<lambda>c. cl_Top c b n q) ''GET'' None ''/v1/boards/{board}/top'' [(''board'', b)] [(''n'', itoa n), (''segment'', qSegment q), (''window'', qWindow q)]"
  by (rule sends_segs [where ps = "[Lit ''v1'', Lit ''boards'', Name ''board'' b, Lit ''top'']" and qs = "CHR ''?'' # Encode (vset ''n'' (itoa n) (opts_values q))" and vs = "vset ''n'' (itoa n) (opts_values q)"
        and body = "None" and out = "Some entries_out" and z = "[]"])
    (use assms in \<open>simp_all add: seg_simps cl_Top_def\<close>)

lemma sends_Neighbors:
  assumes "name_ok b"
  shows "sends S (\<lambda>c. cl_Neighbors c b m n q) ''GET'' None ''/v1/boards/{board}/neighbors'' [(''board'', b)] [(''k'', itoa n), (''member'', m), (''segment'', qSegment q), (''window'', qWindow q)]"
  by (rule sends_segs [where ps = "[Lit ''v1'', Lit ''boards'', Name ''board'' b, Lit ''neighbors'']" and qs = "CHR ''?'' # Encode (vset ''k'' (itoa n) (vset ''member'' m (opts_values q)))" and vs = "vset ''k'' (itoa n) (vset ''member'' m (opts_values q))"
        and body = "None" and out = "Some entries_out" and z = "[]"])
    (use assms in \<open>simp_all add: seg_simps cl_Neighbors_def\<close>)

lemma sends_Friends:
  assumes "name_ok b"
  shows "sends S (\<lambda>c. cl_Friends c b ms q) ''POST'' (Some (CMembers (map to_utf8 ms))) ''/v1/boards/{board}/friends'' [(''board'', b)] [(''segment'', qSegment q), (''window'', qWindow q)]"
  by (rule sends_segs [where ps = "[Lit ''v1'', Lit ''boards'', Name ''board'' b, Lit ''friends'']" and qs = "CHR ''?'' # Encode (opts_values q)" and vs = "opts_values q"
        and body = "Some (CMembers ms)" and out = "Some entries_out" and z = "[]"])
    (use assms in \<open>simp_all add: seg_simps cl_Friends_def\<close>)

lemma sends_RemoveScore:
  assumes "name_ok b" "name_ok m"
  shows "sends S (\<lambda>c. cl_RemoveScore c b m) ''DELETE'' None ''/v1/boards/{board}/scores/{member}'' [(''board'', b), (''member'', m)] []"
  by (rule sends_segs [where ps = "[Lit ''v1'', Lit ''boards'', Name ''board'' b, Lit ''scores'', Name ''member'' m]" and qs = "[]" and vs = "[]"
        and body = "None" and out = "None" and z = "()"])
    (use assms in \<open>simp_all add: seg_simps cl_RemoveScore_def\<close>)

lemma sends_RegisterUser:
  shows "sends S (\<lambda>c. cl_RegisterUser c nick opts) ''POST'' (Some (CNames ((''nickname'', to_utf8 nick) # (if opts \<noteq> [] \<and> hd opts \<noteq> [] then [(''member'', to_utf8 (hd opts))] else [])))) ''/v1/users'' [] []"
  by (rule sends_segs [where ps = "[Lit ''v1'', Lit ''users'']" and qs = "[]" and vs = "[]"
        and body = "Some (CNames ((''nickname'', nick) # (if opts \<noteq> [] \<and> hd opts \<noteq> [] then [(''member'', hd opts)] else [])))" and out = "Some (decode_struct sdk_user_fields)" and z = "zero_user"])
    (simp_all add: seg_simps cl_RegisterUser_def utf8_key del: to_utf8.simps)

lemma sends_GetUser:
  assumes "name_ok m"
  shows "sends S (\<lambda>c. cl_GetUser c m) ''GET'' None ''/v1/users/{id}'' [(''id'', m)] []"
  by (rule sends_segs [where ps = "[Lit ''v1'', Lit ''users'', Name ''id'' m]" and qs = "[]" and vs = "[]"
        and body = "None" and out = "Some (decode_struct sdk_user_fields)" and z = "zero_user"])
    (use assms in \<open>simp_all add: seg_simps cl_GetUser_def\<close>)

lemma sends_UserByNickname:
  shows "sends S (\<lambda>c. cl_UserByNickname c nick) ''GET'' None ''/v1/users'' [] [(''nickname'', nick)]"
  by (rule sends_segs [where ps = "[Lit ''v1'', Lit ''users'']" and qs = "CHR ''?'' # Encode ([(''nickname'', nick)])" and vs = "[(''nickname'', nick)]"
        and body = "None" and out = "Some (decode_struct sdk_user_fields)" and z = "zero_user"])
    (simp_all add: seg_simps cl_UserByNickname_def Encode_def QueryEscape_nickname)

lemma sends_RenameUser:
  assumes "name_ok m"
  shows "sends S (\<lambda>c. cl_RenameUser c m nick) ''PATCH'' (Some (CNames [(''nickname'', to_utf8 nick)])) ''/v1/users/{id}'' [(''id'', m)] []"
  by (rule sends_segs [where ps = "[Lit ''v1'', Lit ''users'', Name ''id'' m]" and qs = "[]" and vs = "[]"
        and body = "Some (CNames [(''nickname'', nick)])" and out = "Some (decode_struct sdk_user_fields)" and z = "zero_user"])
    (use assms in \<open>simp_all add: seg_simps cl_RenameUser_def utf8_key del: to_utf8.simps\<close>)

lemma sends_DeleteUser:
  assumes "name_ok m"
  shows "sends S (\<lambda>c. cl_DeleteUser c m) ''DELETE'' None ''/v1/users/{id}'' [(''id'', m)] []"
  by (rule sends_segs [where ps = "[Lit ''v1'', Lit ''users'', Name ''id'' m]" and qs = "[]" and vs = "[]"
        and body = "None" and out = "None" and z = "()"])
    (use assms in \<open>simp_all add: seg_simps cl_DeleteUser_def\<close>)



end
