(* ===== verification/Spec2Isabelle.thy ===== *)
theory Spec2Isabelle
  imports Engine_Properties Sharded_Properties Window Group Trust Players Users_Redis Tenancy_Properties Accounts_Properties End_To_End Sdk
begin

text \<open>
  \<^bold>\<open>Verification of the leaderboard service.\<close>

  \<^bold>\<open>The program.\<close> A multi-tenant service that ranks players. Scores enter through the HTTP API
  (\<open>pkg/api\<close>), which authenticates the tenant (\<open>pkg/tenancy\<close>, or a dashboard account of
  \<open>pkg/accounts\<close> that owns the app), the player (\<open>pkg/players\<close>) and, if the app asks for it, a signature
  (\<open>pkg/trust\<close>). The ingestor (\<open>pkg/ingest\<close>) deduplicates a submission and appends it to a partitioned
  log. Workers consume the log and apply it to the ranking engine (\<open>pkg/engine\<close>), which keeps every
  physical board (one per segment and time window of a logical board) as a sorted set in Redis, whole or
  split in shards, with an optional histogram for approximate ranks. A reaper (\<open>pkg/window\<close>) ages out
  the boards of past windows. Players may register a nickname (\<open>pkg/users\<close>), which reads then show.

  \<^bold>\<open>How code becomes definitions.\<close> A fallible operation on a server is a function from the state to a
  result and a state (\<open>io\<close> in \<open>Prelude\<close>); errors are values of one datatype \<open>err\<close>, a panic and a
  model that ran out of fuel are two of them. Each early return is a branch. Go's 64-bit integers wrap
  where the code can overflow (\<open>wrap64\<close>), \<open>float64\<close> values are rationals rounded by \<open>fl64\<close>, an
  instant is a number of nanoseconds, a string its bytes. Maps and sets are functions, or association
  lists where the code iterates over them.

  \<^bold>\<open>Language and library.\<close> \<open>Go_Runtime\<close> (integers, floats, \<open>strconv\<close>, \<open>strings\<close>), \<open>Go_Time\<close> (\<open>time\<close> in
  UTC, ISO weeks), \<open>Go_Json\<close>, \<open>Go_Unicode\<close> (UTF-8, runes), \<open>Go_Crypto\<close> (SHA-256, HMAC, hex), \<open>Go_Maps\<close>,
  \<open>Http\<close> (JSON values and their decoding into structs, RFC 3339, requests, the patterns of a \<open>ServeMux\<close>).

  \<^bold>\<open>The theories of the program\<close> (sources under \<open>src/pkg\<close>):
  \<^item> \<open>Board\<close> (\<open>engine/board.go\<close>, \<open>engine.go\<close>, \<open>errors.go\<close>): configurations, keys, their validation, the
    fan-out of an event to physical boards; different boards never share a key.
  \<^item> \<open>Score\<close> (\<open>engine/score.go\<close>): packing of a score and a time into one double; order and round trip.
  \<^item> \<open>Histogram\<close>, \<open>Redis_Engine\<close> (\<open>engine/histogram.go\<close>, \<open>redis_engine.go\<close>): the operations.
    \<open>Engine_Reads\<close>, \<open>Engine_Writes\<close>, \<open>Engine_Histogram\<close>, \<open>Engine_Approx\<close>, \<open>Engine_Scan\<close>: what they do,
    against the specification of a board, its \<open>standings\<close>. \<open>Engine_Properties\<close> has the results: a batch
    acts as its submissions one by one and keeps the histograms exact, reads are slices of the
    standings, approximate ranks err by less than a bucket, removals find every physical board.
  \<^item> \<open>Sharded_Engine\<close>, \<open>Sharded_Properties\<close> (\<open>engine/sharded_engine.go\<close>): seen through the union of its
    shards, the sharded engine pages and submits as the single one.
  \<^item> \<open>Window\<close> (\<open>window/window.go\<close>, \<open>reaper.go\<close>): the ends of windows and what a sweep expires.
  \<^item> \<open>Ingest_Log\<close>, \<open>Ingest\<close> (\<open>ingest/log.go\<close>, \<open>memlog.go\<close>, \<open>dedup.go\<close>, \<open>resolver.go\<close>, \<open>ingestor.go\<close>):
    partitions, deduplication, the registry of boards, atomic submission.
  \<^item> \<open>Consumer\<close>, \<open>Projection\<close> (\<open>ingest/consumer.go\<close>): the ranking is a function of the log.
  \<^item> \<open>Redis_Log\<close>, \<open>Group\<close> (\<open>ingest/redislog.go\<close>, \<open>group.go\<close>): the log on streams and its workers, who
    acknowledge after they apply, drain the log and take over from crashed ones.
  \<^item> \<open>Trust\<close>, \<open>Players\<close> (\<open>trust/hmac.go\<close>, \<open>players\<close>): signatures and their freshness; tokens bound once.
  \<^item> \<open>Users\<close>, \<open>Users_Redis\<close> (\<open>users\<close>): nicknames, unique even when clients race.
  \<^item> \<open>Tenancy\<close>, \<open>Tenancy_Mem\<close>, \<open>Tenancy_Redis\<close>, \<open>Tenancy_Properties\<close> (\<open>tenancy\<close>): apps, keys and boards in
    both stores, one specification, the life of a key.
  \<^item> \<open>Accounts\<close>, \<open>Accounts_Spec\<close>, \<open>Accounts_Mem\<close>, \<open>Accounts_Redis\<close>, \<open>Accounts_Properties\<close> (\<open>accounts\<close>,
    \<open>email/email.go\<close>): sign-up, verification, login, sessions and password resets over stores with
    expiry, against a specification with a clock.
  \<^item> \<open>Api\<close>, \<open>Api_Handlers\<close>, \<open>Api_Router\<close> (\<open>api\<close>, \<open>tenancy/auth.go\<close>): settings, CORS, authentication,
    every handler, metrics and the router, over the interfaces of the packages above.
    \<open>Api_Confinement\<close>: a request changes only what the role of its caller may. \<open>Api_Memory\<close>: the server
    on the in-memory stores, for concrete runs. \<open>Api_Properties\<close>: accepted submissions are authorised,
    cross-site requests change nothing, credentials go to listed origins only, and two ways in which a
    valid-looking submission is lost or stops the workers.
  \<^item> \<open>Sdk\<close> (\<open>sdk/client.go\<close>): the Go client, whose requests the server's routes read argument for argument.
  \<^item> \<open>End_To_End\<close>: an accepted submission reaches the ranking, through all the layers.

  \<^bold>\<open>Interfaces.\<close> What one component relies on of another is a locale, interpreted on the model of its
  provider: \<open>event_log\<close> (memory and streams), \<open>deduper\<close>, \<open>ingest_front\<close>, \<open>projection\<close> (a log and an
  engine), \<open>group_world\<close>, \<open>served_front\<close> (a server and its log), \<open>player_store\<close>, \<open>user_store\<close>, \<open>tenant_store\<close>, \<open>account_stores\<close> (the memory
  store and the Redis store each), \<open>go_less\<close> (the orders of \<open>sort.Slice\<close>). \<open>Refine\<close> has the generic
  simulation of operations.

  \<^bold>\<open>Third-party code.\<close> Redis is a parameter: records of commands over an opaque state, of which the
  locales \<open>redis_docs\<close> (sorted sets and hashes), \<open>redis_kv\<close> (strings, sets, hashes, transactions and
  scripts), \<open>redis_ttl\<close> and \<open>redis_expiry\<close> (time to live) and \<open>redis_streams\<close> state the documented
  behaviour. They say what a command does when it succeeds; a server may fail any command where the
  theorem is about failure. Executable servers interpret all of them and carry the witnesses. bcrypt, the
  lower case of a rune, random bytes, the clock, the mail transport, the page of Prometheus and
  the existence of files are parameters, too. HMAC and SHA-256 are computed as specified; that they are
  hard to invert or to collide is not assumed, except where a theorem about keys or tokens names it.

  \<^bold>\<open>Bounds and fuel.\<close> Cursor loops over \<open>SCAN\<close> and \<open>XAUTOCLAIM\<close> take a bound on their rounds: the
  theorems show that some bound, below which no answer depends on it, is enough (\<open>\<exists>F. \<forall>fuel \<ge> F\<close>), or
  name it: \<open>Drain\<close> ends within one round more than there are records, \<open>Reclaim\<close> within one more than there are
  pending entries. The endless loops \<open>Run\<close> are driven by the list of events their \<open>select\<close> receives. The
  retry loops of \<open>users/redisstore.go\<close> run as often as the code says (\<open>maxAttempts\<close>). Other recursion is
  structural or comes with a measure.

  \<^bold>\<open>Not modelled.\<close> Requests are handled one at a time, and the operations of the stores are atomic where
  the code uses one command, a transaction or a script; interleavings are modelled for the nickname
  scripts and the workers' deliveries. The wire format of HTTP and JSON (\<open>net/http\<close>, \<open>encoding/json\<close>) starts
  at parsed requests and values. \<open>cmd/leaderboardd\<close> reads the environment and starts the parts,
  \<open>cmd/loadtest\<close> is a load generator, the SDKs in other languages are clients, \<open>web\<close> is the dashboard's
  front end: none of them holds state of the service.
\<close>

end
